(* ===== verification/Prelude.thy ===== *)
theory Prelude
  imports Main "HOL-Library.Word"
begin

unbundle bit_operations_syntax

text \<open>
  Shared vocabulary of the development: C's fixed-width integers as machine words with the
  conversions C inserts between them, the reading of those words as integers (\<open>sint\<close> for the
  signed types, \<open>uint\<close> and \<open>unat\<close> for the unsigned ones), congruence modulo an integer with the
  rules the number-theoretic transforms need, and the lemmas on array loops.
  Two collections carry the component proofs: \<open>sint_fit\<close> turns a word operation whose exact
  result fits the width into the integer operation, and \<open>bit_fields\<close> reads single bits out of
  the shift-and-mask expressions of the serialisation routines.
\<close>

section \<open>C integers\<close>

text \<open>
  A C integer of width \<open>w\<close> is a \<open>w word\<close>; whether it is read as signed or unsigned is decided by
  the operation, as in the machine.  C's implicit and explicit conversions keep the value modulo
  \<open>2 ^ w\<close> of the target: they extend the sign when the source type is signed
  (\<open>sext\<close>) and extend with zeroes when it is unsigned (\<open>zext\<close>); both truncate to a narrower type.
\<close>

type_synonym u8 = "8 word"
type_synonym i16 = "16 word"
type_synonym u16 = "16 word"
type_synonym i32 = "32 word"
type_synonym u32 = "32 word"
type_synonym i64 = "64 word"
type_synonym u64 = "64 word"

abbreviation sext8 :: "'a::len word \<Rightarrow> 8 word" where "sext8 \<equiv> scast"
abbreviation sext16 :: "'a::len word \<Rightarrow> 16 word" where "sext16 \<equiv> scast"
abbreviation sext32 :: "'a::len word \<Rightarrow> 32 word" where "sext32 \<equiv> scast"
abbreviation sext64 :: "'a::len word \<Rightarrow> 64 word" where "sext64 \<equiv> scast"
abbreviation zext8 :: "'a::len word \<Rightarrow> 8 word" where "zext8 \<equiv> ucast"
abbreviation zext16 :: "'a::len word \<Rightarrow> 16 word" where "zext16 \<equiv> ucast"
abbreviation zext32 :: "'a::len word \<Rightarrow> 32 word" where "zext32 \<equiv> ucast"
abbreviation zext64 :: "'a::len word \<Rightarrow> 64 word" where "zext64 \<equiv> ucast"

text \<open>C's right shift of a signed operand is arithmetic, of an unsigned operand logical.\<close>

abbreviation sar :: "'a::len word \<Rightarrow> nat \<Rightarrow> 'a word" where "sar x n \<equiv> signed_drop_bit n x"
abbreviation shr :: "'a::len word \<Rightarrow> nat \<Rightarrow> 'a word" where "shr x n \<equiv> drop_bit n x"
abbreviation shl :: "'a::len word \<Rightarrow> nat \<Rightarrow> 'a word" where "shl x n \<equiv> push_bit n x"

section \<open>Reading words as integers\<close>

named_theorems sint_fit "word operations whose exact result fits the width"

lemma sint_add_fit [sint_fit]:
  fixes a b :: "'a::len word"
  assumes "- (2 ^ (LENGTH('a) - 1)) \<le> sint a + sint b" "sint a + sint b < 2 ^ (LENGTH('a) - 1)"
  shows "sint (a + b) = sint a + sint b"
  using assms by (simp add: sint_word_add signed_take_bit_int_eq_self)

lemma sint_diff_fit [sint_fit]:
  fixes a b :: "'a::len word"
  assumes "- (2 ^ (LENGTH('a) - 1)) \<le> sint a - sint b" "sint a - sint b < 2 ^ (LENGTH('a) - 1)"
  shows "sint (a - b) = sint a - sint b"
  using assms by (simp add: sint_word_diff signed_take_bit_int_eq_self)

lemma sint_mult_fit [sint_fit]:
  fixes a b :: "'a::len word"
  assumes "- (2 ^ (LENGTH('a) - 1)) \<le> sint a * sint b" "sint a * sint b < 2 ^ (LENGTH('a) - 1)"
  shows "sint (a * b) = sint a * sint b"
  using assms by (simp add: sint_word_mult signed_take_bit_int_eq_self)

lemma sint_minus_fit [sint_fit]:
  fixes a :: "'a::len word"
  assumes "- (2 ^ (LENGTH('a) - 1)) < sint a"
  shows "sint (- a) = - sint a"
proof -
  have "- sint a < 2 ^ (LENGTH('a) - 1)" using assms by linarith
  moreover have "- (2 ^ (LENGTH('a) - 1)) \<le> - sint a" using sint_lt [of a] by linarith
  ultimately show ?thesis by (simp add: sint_word_minus signed_take_bit_int_eq_self)
qed

lemma sint_scast_up [simp]:
  "LENGTH('a) \<le> LENGTH('b) \<Longrightarrow> sint (scast (a :: 'a::len word) :: 'b::len word) = sint a"
  by (rule sint_up_scast) (simp add: is_up)

lemma sint_scast_fit [sint_fit]:
  fixes a :: "'a::len word"
  assumes "- (2 ^ (LENGTH('b) - 1)) \<le> sint a" "sint a < 2 ^ (LENGTH('b) - 1)"
  shows "sint (scast a :: 'b::len word) = sint a"
  using assms by (simp add: signed_scast_eq signed_take_bit_int_eq_self)

lemma sint_ucast_up [simp]:
  fixes a :: "'a::len word"
  assumes "LENGTH('a) < LENGTH('b)"
  shows "sint (ucast a :: 'b::len word) = uint a"
proof -
  have "uint a < 2 ^ LENGTH('a)" by simp
  also have "\<dots> \<le> 2 ^ (LENGTH('b) - 1)" using assms by (intro power_increasing) auto
  finally have "uint a < 2 ^ (LENGTH('b) - 1)" .
  moreover have "- (2 ^ (LENGTH('b) - 1)) \<le> uint a"
    by (rule order_trans [of _ 0]) simp_all
  ultimately show ?thesis by (simp add: signed_ucast_eq signed_take_bit_int_eq_self)
qed

lemma uint_ucast_up [simp]:
  "LENGTH('a) \<le> LENGTH('b) \<Longrightarrow> uint (ucast (a :: 'a::len word) :: 'b::len word) = uint a"
  by (rule uint_up_ucast) (simp add: is_up)

lemma unat_ucast_up [simp]:
  "LENGTH('a) \<le> LENGTH('b) \<Longrightarrow> unat (ucast (a :: 'a::len word) :: 'b::len word) = unat a"
  by (simp only: unat_eq_nat_uint uint_ucast_up)

lemma sint_sar: "sint (sar a n) = sint a div 2 ^ n"
  by (simp add: sint_signed_drop_bit_eq drop_bit_eq_div)

lemma unat_shr: "unat (shr a n) = unat a div 2 ^ n"
  unfolding unat_drop_bit_eq by (rule drop_bit_eq_div)

lemma uint_shr: "uint (shr a n) = uint a div 2 ^ n"
  by (simp only: uint_nat unat_shr) (simp add: zdiv_int)

lemma i16_range: "- 32768 \<le> sint (x :: 16 word)" "sint (x :: 16 word) < 32768"
  using sint_ge [of x] sint_lt [of x] by simp_all

lemma i32_range: "- 2147483648 \<le> sint (x :: 32 word)" "sint (x :: 32 word) < 2147483648"
  using sint_ge [of x] sint_lt [of x] by simp_all

lemma i64_range:
  "- 9223372036854775808 \<le> sint (x :: 64 word)" "sint (x :: 64 word) < 9223372036854775808"
  using sint_ge [of x] sint_lt [of x] by simp_all

lemma sint_mod_width: "sint (a :: 'a::len word) mod 2 ^ LENGTH('a) = uint a"
  by (simp add: uint_sint take_bit_eq_mod)

lemma sint_eq_uint_small:
  fixes a :: "'a::len word"
  assumes "uint a < 2 ^ (LENGTH('a) - 1)"
  shows "sint a = uint a"
proof -
  have "- (2 ^ (LENGTH('a) - 1)) \<le> uint a" by (rule order_trans [of _ 0]) simp_all
  with assms show ?thesis by (simp add: sint_uint signed_take_bit_int_eq_self)
qed

lemma unat_and_mask: "unat (x AND mask n) = unat x mod 2 ^ n"
  unfolding take_bit_eq_mask [symmetric] unsigned_take_bit_eq by (rule take_bit_eq_mod)

lemma sint_eq_unat: "unat x < 2 ^ (LENGTH('a) - 1) \<Longrightarrow> sint (x :: 'a::len word) = int (unat x)"
proof -
  assume "unat x < 2 ^ (LENGTH('a) - 1)"
  then have "int (unat x) < 2 ^ (LENGTH('a) - 1)" by (simp only: of_nat_less_numeral_power_cancel_iff)
  then have "uint x < 2 ^ (LENGTH('a) - 1)" by (simp only: uint_nat)
  then have "sint x = uint x" by (rule sint_eq_uint_small)
  then show ?thesis by (simp only: uint_nat)
qed

lemma unat_sint_nonneg:
  fixes x :: "'a::len word"
  assumes "0 \<le> sint x"
  shows "int (unat x) = sint x"
proof -
  have "sint x < 2 ^ LENGTH('a)" using sint_lt [of x] by (rule less_le_trans) (simp add: power_increasing)
  then have "uint x = sint x" using assms by (simp flip: sint_mod_width)
  then show ?thesis by simp
qed

lemma unat_ucast_fit:
  "unat x < 2 ^ LENGTH('b) \<Longrightarrow> unat (ucast (x :: 'a::len word) :: 'b::len word) = unat x"
  by (simp add: unsigned_ucast_eq take_bit_eq_mod)

lemma uint_and_mask: "uint (x AND mask n) = uint x mod 2 ^ n"
  unfolding take_bit_eq_mask [symmetric] unsigned_take_bit_eq by (rule take_bit_eq_mod)

lemma uint_u8: "0 \<le> uint (t :: u8)" "uint (t :: u8) < 256"
  using uint_lt2p [of t] by simp_all

lemma uint_ucast_fit:
  "uint x < 2 ^ LENGTH('b) \<Longrightarrow> uint (ucast (x :: 'a::len word) :: 'b::len word) = uint x"
  by (simp add: unsigned_ucast_eq take_bit_eq_mod)

lemma uint_mult_field:
  fixes v c :: "'a::len word"
  assumes "s + n \<le> LENGTH('a)"
  shows "uint (shr (v * c) s AND mask n) = uint v * uint c div 2 ^ s mod 2 ^ n"
proof -
  have "uint (v * c) = take_bit LENGTH('a) (uint v * uint c)"
    by (simp add: uint_word_ariths take_bit_eq_mod)
  then have "uint (shr (v * c) s AND mask n) = take_bit n (drop_bit s (take_bit LENGTH('a) (uint v * uint c)))"
    by (simp only: take_bit_eq_mask [symmetric] unsigned_take_bit_eq unsigned_drop_bit_eq take_bit_take_bit min.idem)
  also have "\<dots> = take_bit n (drop_bit s (uint v * uint c))"
    using assms by (simp add: take_bit_drop_bit min_absorb1)
  finally show ?thesis by (simp add: take_bit_eq_mod drop_bit_eq_div)
qed

lemma div_bounds:
  fixes a b :: int
  assumes "0 < b"
  shows "b * (a div b) \<le> a" "a < b * (a div b) + b"
proof -
  have "b * (a div b) + a mod b = a" by simp
  then show "b * (a div b) \<le> a" "a < b * (a div b) + b"
    using pos_mod_bound [OF assms, of a] pos_mod_sign [OF assms, of a] by linarith+
qed

section \<open>Congruence modulo an integer\<close>

definition modeq :: "int \<Rightarrow> int \<Rightarrow> int \<Rightarrow> bool" where
  "modeq q a b \<longleftrightarrow> a mod q = b mod q"

named_theorems modeq_intros "congruence is preserved by the ring operations"

lemma modeq_refl [simp, intro]: "modeq q a a"
  by (simp add: modeq_def)

lemma modeq_sym: "modeq q a b \<Longrightarrow> modeq q b a"
  by (simp add: modeq_def)

lemma modeq_trans [trans]: "modeq q a b \<Longrightarrow> modeq q b c \<Longrightarrow> modeq q a c"
  by (simp add: modeq_def)

lemma modeq_eq_trans [trans]: "modeq q a b \<Longrightarrow> b = c \<Longrightarrow> modeq q a c"
  by simp

lemma eq_modeq_trans [trans]: "a = b \<Longrightarrow> modeq q b c \<Longrightarrow> modeq q a c"
  by simp

lemma modeq_iff_dvd: "modeq q a b \<longleftrightarrow> q dvd (a - b)"
  by (simp add: modeq_def mod_eq_dvd_iff)

lemma modeqI: "a = b + q * k \<Longrightarrow> modeq q a b"
  by (simp add: modeq_def)

lemma modeq_mod [simp]: "modeq q (a mod q) a" "modeq q a (a mod q)"
  by (simp_all add: modeq_def)

lemma modeq_add [modeq_intros]: "modeq q a b \<Longrightarrow> modeq q c d \<Longrightarrow> modeq q (a + c) (b + d)"
  unfolding modeq_def by (rule mod_add_cong)

lemma modeq_diff [modeq_intros]: "modeq q a b \<Longrightarrow> modeq q c d \<Longrightarrow> modeq q (a - c) (b - d)"
  unfolding modeq_def by (rule mod_diff_cong)

lemma modeq_mult [modeq_intros]: "modeq q a b \<Longrightarrow> modeq q c d \<Longrightarrow> modeq q (a * c) (b * d)"
  unfolding modeq_def by (rule mod_mult_cong)

lemma modeq_minus [modeq_intros]: "modeq q a b \<Longrightarrow> modeq q (- a) (- b)"
proof -
  assume "modeq q a b"
  then have "q dvd - (a - b)" unfolding modeq_iff_dvd dvd_minus_iff .
  moreover have "- (a - b) = - a - - b" by simp
  ultimately show ?thesis by (simp only: modeq_iff_dvd)
qed

lemma modeq_power [modeq_intros]: "modeq q a b \<Longrightarrow> modeq q (a ^ n) (b ^ n)"
  by (induction n) (auto intro: modeq_mult)

lemma modeq_sum [modeq_intros]:
  "(\<And>i. i \<in> A \<Longrightarrow> modeq q (f i) (g i)) \<Longrightarrow> modeq q (sum f A) (sum g A)"
proof (induction A rule: infinite_finite_induct)
  case (insert x F)
  then show ?case by (auto intro!: modeq_add)
qed simp_all

text \<open>Two centred representatives of the same class are equal.\<close>

lemma modeq_centred_eq:
  assumes "modeq q a b" "\<bar>a - b\<bar> < q"
  shows "a = b"
proof (rule ccontr)
  assume "a \<noteq> b"
  have "q dvd a - b" using assms(1) by (simp add: modeq_iff_dvd)
  then have "q dvd \<bar>a - b\<bar>" by simp
  with \<open>a \<noteq> b\<close> have "q \<le> \<bar>a - b\<bar>" by (intro zdvd_imp_le) auto
  with assms(2) show False by simp
qed

text \<open>Word operations read as signed integers are exact modulo the width.\<close>

lemma signed_take_bit_modeq: "modeq (2 ^ Suc n) (signed_take_bit n k) k"
  unfolding modeq_def
  by (metis take_bit_eq_mod take_bit_signed_take_bit order_refl)

named_theorems sint_modeq "word operations read as integers, modulo the width"

lemma sint_scast_modeq [sint_modeq]:
  "modeq (2 ^ LENGTH('b)) (sint (scast (a :: 'a::len word) :: 'b::len word)) (sint a)"
  using signed_take_bit_modeq [of "LENGTH('b) - 1" "sint a"] by (simp add: signed_scast_eq)

lemma sint_mult_modeq [sint_modeq]:
  "modeq (2 ^ LENGTH('a)) (sint (a * b :: 'a::len word)) (sint a * sint b)"
  using signed_take_bit_modeq [of "LENGTH('a) - 1" "sint a * sint b"] by (simp add: sint_word_mult)

lemma sint_add_modeq [sint_modeq]:
  "modeq (2 ^ LENGTH('a)) (sint (a + b :: 'a::len word)) (sint a + sint b)"
  using signed_take_bit_modeq [of "LENGTH('a) - 1" "sint a + sint b"] by (simp add: sint_word_add)

lemma sint_diff_modeq [sint_modeq]:
  "modeq (2 ^ LENGTH('a)) (sint (a - b :: 'a::len word)) (sint a - sint b)"
  using signed_take_bit_modeq [of "LENGTH('a) - 1" "sint a - sint b"] by (simp add: sint_word_diff)

text \<open>The unique value of the width in a class: how a wrapped result is identified.\<close>

lemma sint_unique:
  fixes a :: "'a::len word"
  assumes "modeq (2 ^ LENGTH('a)) (sint a) x"
    and "- (2 ^ (LENGTH('a) - 1)) \<le> x" "x < 2 ^ (LENGTH('a) - 1)"
  shows "sint a = x"
proof (rule modeq_centred_eq [OF assms(1)])
  have "(2 :: int) ^ LENGTH('a) = 2 * 2 ^ (LENGTH('a) - 1)"
    by (metis len_gt_0 power_Suc Suc_diff_1)
  then show "\<bar>sint a - x\<bar> < 2 ^ LENGTH('a)"
    using assms(2,3) sint_ge [of a] sint_lt [of a] by linarith
qed

text \<open>A factor that is invertible modulo \<open>q\<close> cancels.\<close>

lemma modeq_cancel:
  assumes "modeq q (a * u) (b * u)" and "modeq q (u * v) 1"
  shows "modeq q a b"
proof -
  have "modeq q (a * (u * v)) (b * (u * v))"
    using modeq_mult [OF assms(1) modeq_refl [of q v]] by (simp add: mult.assoc)
  moreover have "modeq q (c * (u * v)) (c * 1)" for c
    by (intro modeq_mult modeq_refl assms(2))
  ultimately show ?thesis by (metis modeq_sym modeq_trans mult.right_neutral)
qed

lemma modeq_bounded_eq:
  assumes "modeq q a b" "0 \<le> a" "a < q" "0 \<le> b" "b < q"
  shows "a = b"
  using assms by (simp add: modeq_def)

text \<open>The centred representative, and how it is recognised.\<close>

definition centred :: "int \<Rightarrow> int \<Rightarrow> int" where
  "centred q x = (x + q div 2) mod q - q div 2"

lemma centred_modeq: "modeq q (centred q x) x"
  by (simp add: centred_def modeq_def mod_diff_left_eq)

lemma centred_unique:
  assumes "modeq q x e" "2 * \<bar>e\<bar> < q" "odd q"
  shows "centred q x = e"
proof -
  have h: "2 * (q div 2) + 1 = q" using assms(3) by (metis odd_two_times_div_two_succ)
  have "(x + q div 2) mod q = (e + q div 2) mod q" using assms(1) unfolding modeq_def by (rule mod_add_cong) simp
  also have "\<dots> = e + q div 2" using h assms(2) by (intro mod_pos_pos_trivial) linarith+
  finally show ?thesis by (simp add: centred_def)
qed

section \<open>Sums over blocks of indices\<close>

lemma sum_upto_pairs: "(\<Sum>t<2 * n. f t) = (\<Sum>t<n. f (2 * t) + f (Suc (2 * t)))"
  for f :: "nat \<Rightarrow> 'a::comm_monoid_add"
  by (induction n) (simp_all add: add.assoc)

lemma sum_upto_blocks: "(\<Sum>i<b * n. f i) = (\<Sum>s<b. \<Sum>i<n. f (s * n + i))"
  for f :: "nat \<Rightarrow> 'a::comm_monoid_add"
proof -
  have "sum f {s * n..<s * n + n} = (\<Sum>i<n. f (s * n + i))" for s
    using sum.shift_bounds_nat_ivl [of f 0 "s * n" n] by (simp add: lessThan_atLeast0 add.commute)
  then show ?thesis using sum.nat_group [of f n b] by simp
qed

section \<open>Byte and coefficient strings written chunk by chunk\<close>

lemma length_concat_chunks:
  assumes "\<And>i. i < n \<Longrightarrow> length (f i) = w"
  shows "length (concat (map f [0..<n])) = n * w"
  using assms by (induction n) (simp_all add: add.commute)

lemma nth_concat_chunks:
  assumes "\<And>i. i < n \<Longrightarrow> length (f i) = w" "i < n" "j < w"
  shows "concat (map f [0..<n]) ! (w * i + j) = f i ! j"
  using assms
proof (induction n)
  case (Suc n)
  have len: "length (concat (map f [0..<n])) = n * w"
    using Suc.prems(1) by (intro length_concat_chunks) simp
  show ?case
  proof (cases "i < n")
    case True
    have "w * i + j < w * Suc i" using Suc.prems(3) by simp
    also have "\<dots> \<le> w * n" using True by (intro mult_left_mono) auto
    finally show ?thesis using Suc True len by (simp add: nth_append mult.commute)
  next
    case False
    then show ?thesis using Suc.prems len by (simp add: nth_append less_Suc_eq mult.commute)
  qed
qed simp

text \<open>The loops that serialise in groups: \<open>n\<close> times, \<open>f\<close> of the next \<open>w\<close> elements is appended.\<close>

definition chunk :: "nat \<Rightarrow> nat \<Rightarrow> 'a list \<Rightarrow> 'a list" where
  "chunk w i xs = map (\<lambda>j. xs ! (w * i + j)) [0..<w]"

definition map_chunks :: "nat \<Rightarrow> nat \<Rightarrow> ('a list \<Rightarrow> 'b list) \<Rightarrow> 'a list \<Rightarrow> 'b list" where
  "map_chunks w n f xs = concat (map (\<lambda>i. f (chunk w i xs)) [0..<n])"

lemma length_chunk [simp]: "length (chunk w i xs) = w"
  by (simp add: chunk_def)

lemma nth_chunk [simp]: "j < w \<Longrightarrow> chunk w i xs ! j = xs ! (w * i + j)"
  by (simp add: chunk_def)

lemma set_chunk: "w * i + w \<le> length xs \<Longrightarrow> set (chunk w i xs) \<subseteq> set xs"
  by (auto simp: chunk_def)

lemma length_map_chunks:
  assumes "\<And>c. length c = w \<Longrightarrow> length (f c) = v"
  shows "length (map_chunks w n f xs) = n * v"
  unfolding map_chunks_def by (rule length_concat_chunks) (simp add: assms)

lemma nth_map_chunks:
  assumes "\<And>c. length c = w \<Longrightarrow> length (f c) = v" "i < n" "j < v"
  shows "map_chunks w n f xs ! (v * i + j) = f (chunk w i xs) ! j"
  unfolding map_chunks_def using assms by (intro nth_concat_chunks) simp_all

lemma chunk_map_chunks:
  assumes "\<And>c. length c = w \<Longrightarrow> length (f c) = v" "i < n"
  shows "chunk v i (map_chunks w n f xs) = f (chunk w i xs)"
  by (rule nth_equalityI) (simp_all add: assms nth_map_chunks [OF assms(1) assms(2)])

lemma concat_chunks:
  assumes "length xs = n * w"
  shows "concat (map (\<lambda>i. chunk w i xs) [0..<n]) = xs"
proof (rule nth_equalityI)
  show "length (concat (map (\<lambda>i. chunk w i xs) [0..<n])) = length xs"
    using assms by (simp add: length_concat_chunks [where w = w])
next
  fix p
  assume "p < length (concat (map (\<lambda>i. chunk w i xs) [0..<n]))"
  then have p: "p < n * w" by (simp add: length_concat_chunks [where w = w])
  then have w: "0 < w" by (cases w) auto
  have "concat (map (\<lambda>i. chunk w i xs) [0..<n]) ! (w * (p div w) + p mod w) = chunk w (p div w) xs ! (p mod w)"
    using p w by (intro nth_concat_chunks) (simp_all add: less_mult_imp_div_less)
  then show "concat (map (\<lambda>i. chunk w i xs) [0..<n]) ! p = xs ! p" using w by simp
qed

text \<open>A round trip on every group is a round trip on the whole string.\<close>

lemma map_chunks_inverse:
  assumes "length xs = n * w" "\<And>c. length c = w \<Longrightarrow> length (f c) = v"
    and "\<And>i. i < n \<Longrightarrow> g (f (chunk w i xs)) = chunk w i xs"
  shows "map_chunks v n g (map_chunks w n f xs) = xs"
proof -
  have "map_chunks v n g (map_chunks w n f xs) = concat (map (\<lambda>i. chunk w i xs) [0..<n])"
    unfolding map_chunks_def [of v n g]
    by (intro arg_cong [where f = concat] map_cong refl) (simp add: chunk_map_chunks [OF assms(2)] assms(3))
  then show ?thesis by (simp add: concat_chunks assms(1))
qed

lemma fold_update_zip:
  assumes "n \<le> length r"
  shows "fold (\<lambda>i r. r[i := f (r ! i) (x i)]) [0..<n] r = map (\<lambda>i. f (r ! i) (x i)) [0..<n] @ drop n r"
  using assms
proof (induction n)
  case (Suc n)
  then show ?case by (simp add: list_update_append nth_append flip: Cons_nth_drop_Suc)
qed simp

lemma map_nth_take: "n \<le> length x \<Longrightarrow> map (\<lambda>i. x ! i) [0..<n] = take n x"
  by (rule nth_equalityI) simp_all

lemma index_group:
  fixes i :: nat
  assumes "i < g * n" "0 < g"
  shows "i = g * (i div g) + i mod g" "i div g < n" "i mod g < g"
  using assms by (simp_all add: less_mult_imp_div_less mult.commute)

lemma unat_eq_nat: "uint x = k \<Longrightarrow> unat x = nat k"
  by (simp add: unat_eq_nat_uint)


text \<open>A field of a word that is known modulo the width only.\<close>

lemma uint_field_modeq:
  fixes v :: "'a::len word"
  assumes "modeq (2 ^ LENGTH('a)) (sint v) x" "s + n \<le> LENGTH('a)"
  shows "uint (shr v s AND mask n) = x div 2 ^ s mod 2 ^ n"
proof -
  have "uint v = take_bit LENGTH('a) x"
    using assms(1) by (simp only: sint_mod_width [symmetric] modeq_def take_bit_eq_mod)
  then have "uint (shr v s AND mask n) = take_bit n (drop_bit s (take_bit LENGTH('a) x))"
    by (simp only: take_bit_eq_mask [symmetric] unsigned_take_bit_eq unsigned_drop_bit_eq
        take_bit_take_bit min.idem)
  also have "\<dots> = take_bit n (drop_bit s x)" using assms(2) by (simp add: take_bit_drop_bit min_absorb1)
  finally show ?thesis by (simp add: take_bit_eq_mod drop_bit_eq_div)
qed

text \<open>A list of results that are all there.\<close>

lemma those_iff: "those xs = Some ys \<longleftrightarrow> xs = map Some ys"
proof (induction xs arbitrary: ys)
  case (Cons x xs)
  then show ?case by (cases x; cases ys) (auto split: option.splits)
qed auto

lemma those_map_iff:
  "those (map f [0..<n]) = Some ys \<longleftrightarrow> length ys = n \<and> (\<forall>i<n. f i = Some (ys ! i))"
  by (auto simp: those_iff list_eq_iff_nth_eq)

end
