(* ===== verification/Loops.thy ===== *)
theory Loops
  imports Prelude
begin

text \<open>
  Control flow the two transforms share.  A C loop \<open>for (j = a; j < b; j++)\<close> over an array is
  \<open>fold\<close> over \<open>[a..<b]\<close>; the block loop \<open>for (start = 0; start < n; start = j + len)\<close>, which
  advances a table index with every block, is \<open>for_blocks\<close>.  The lemmas describe the array such a
  loop leaves behind, index by index, for any butterfly.
\<close>

section \<open>Counted loops\<close>

lemma fold_upt_inv:
  assumes "a \<le> b" "P a r"
    and step: "\<And>i s. a \<le> i \<Longrightarrow> i < b \<Longrightarrow> P i s \<Longrightarrow> P (Suc i) (f i s)"
  shows "P b (fold f [a..<b] r)"
proof -
  have "a + d \<le> b \<Longrightarrow> P (a + d) (fold f [a..<a + d] r)" for d
    by (induction d) (use assms(2) in \<open>auto intro: step\<close>)
  from this [of "b - a"] show ?thesis using assms(1) by simp
qed

text \<open>A loop that replaces every element by a function of itself is \<open>map\<close>.\<close>

lemma fold_upt_map_aux:
  assumes "n \<le> length xs"
  shows "fold (\<lambda>i r. r[i := f (r ! i)]) [0..<n] xs = map f (take n xs) @ drop n xs"
proof -
  have "n \<le> length xs \<and>
      fold (\<lambda>i r. r[i := f (r ! i)]) [0..<n] xs = map f (take n xs) @ drop n xs"
  proof (rule fold_upt_inv [of 0 n "\<lambda>i r. i \<le> length xs \<and> r = map f (take i xs) @ drop i xs"])
    fix i s
    assume "i < n" "i \<le> length xs \<and> s = map f (take i xs) @ drop i xs"
    then show "Suc i \<le> length xs \<and>
        s[i := f (s ! i)] = map f (take (Suc i) xs) @ drop (Suc i) xs"
      using assms
      by (simp add: nth_append list_update_append take_Suc_conv_app_nth
          flip: Cons_nth_drop_Suc)
  qed simp_all
  then show ?thesis by simp
qed

lemma fold_upt_map: "fold (\<lambda>i r. r[i := f (r ! i)]) [0..<length xs] xs = map f xs"
  by (simp add: fold_upt_map_aux)

section \<open>The block loop\<close>

text \<open>
  \<open>nxt\<close> is what the body does to the table index (\<open>k++\<close> or \<open>k--\<close>), \<open>body k start\<close> the inner loop.
  At its end the inner counter \<open>j\<close> is \<open>start + len\<close>.  For \<open>len = 0\<close> the C loop would not advance;
  the transforms never call it so, and the model stops.
\<close>

function for_blocks ::
  "nat \<Rightarrow> (nat \<Rightarrow> nat) \<Rightarrow> (nat \<Rightarrow> nat \<Rightarrow> 's \<Rightarrow> 's) \<Rightarrow> nat \<Rightarrow> nat \<Rightarrow> nat \<Rightarrow> 's \<Rightarrow> nat \<times> 's" where
  "for_blocks n nxt body len start k r =
     (if start < n \<and> 0 < len
      then (let j = start + len in for_blocks n nxt body len (j + len) (nxt k) (body k start r))
      else (k, r))"
  by pat_completeness auto
termination
  by (relation "measure (\<lambda>(n, nxt, body, len, start, k, r). n - start)") auto

declare for_blocks.simps [simp del]

lemma for_blocks_fold:
  assumes "0 < len" "b \<le> nb"
  shows "for_blocks (nb * (2 * len)) nxt body len (b * (2 * len)) k r =
    ((nxt ^^ (nb - b)) k,
     fold (\<lambda>c. body ((nxt ^^ (c - b)) k) (c * (2 * len))) [b..<nb] r)"
  using assms(2)
proof (induction "nb - b" arbitrary: b k r)
  case 0
  then show ?case by (simp add: for_blocks.simps)
next
  case (Suc d)
  then have b: "b < nb" "d = nb - Suc b" by auto
  have *: "b * (2 * len) + len + len = Suc b * (2 * len)" by simp
  have "b * (2 * len) < nb * (2 * len)" using b assms(1) by simp
  then have "for_blocks (nb * (2 * len)) nxt body len (b * (2 * len)) k r =
      for_blocks (nb * (2 * len)) nxt body len (Suc b * (2 * len)) (nxt k)
        (body k (b * (2 * len)) r)"
    using assms(1) by (subst for_blocks.simps) (simp only: Let_def * if_True simp_thms)
  also have "\<dots> = ((nxt ^^ (nb - Suc b)) (nxt k),
      fold (\<lambda>c. body ((nxt ^^ (c - Suc b)) (nxt k)) (c * (2 * len))) [Suc b..<nb]
        (body k (b * (2 * len)) r))"
    using Suc.hyps(1) [of "Suc b"] b by simp
  also have "(nxt ^^ (nb - Suc b)) (nxt k) = (nxt ^^ (nb - b)) k"
    using b by (simp add: funpow_swap1 flip: Suc_diff_Suc)
  also have "fold (\<lambda>c. body ((nxt ^^ (c - Suc b)) (nxt k)) (c * (2 * len))) [Suc b..<nb]
        (body k (b * (2 * len)) r) =
      fold (\<lambda>c. body ((nxt ^^ (c - b)) k) (c * (2 * len))) [Suc b..<nb] (body k (b * (2 * len)) r)"
  proof (intro fold_cong refl)
    fix c assume "c \<in> set [Suc b..<nb]"
    then have "c - b = Suc (c - Suc b)" by auto
    then show "body ((nxt ^^ (c - Suc b)) (nxt k)) (c * (2 * len)) = body ((nxt ^^ (c - b)) k) (c * (2 * len))"
      by (simp add: funpow_swap1)
  qed
  also have "\<dots> = fold (\<lambda>c. body ((nxt ^^ (c - b)) k) (c * (2 * len))) [b..<nb] r"
    using b by (simp add: upt_conv_Cons)
  finally show ?case .
qed

section \<open>Butterflies\<close>

text \<open>One butterfly replaces the pair at \<open>j\<close> and \<open>j + len\<close>; a pass over a block does so for \<open>len\<close> pairs.\<close>

definition bfly :: "('a \<Rightarrow> 'a \<Rightarrow> 'a \<times> 'a) \<Rightarrow> nat \<Rightarrow> nat \<Rightarrow> 'a list \<Rightarrow> 'a list" where
  "bfly f len j r = (let (x, y) = f (r ! j) (r ! (j + len)) in r[j := x, j + len := y])"

lemma length_bfly [simp]: "length (bfly f len j r) = length r"
  by (simp add: bfly_def split: prod.splits)

lemma length_fold_bfly [simp]: "length (fold (bfly f len) js r) = length r"
  by (induction js arbitrary: r) auto

lemma nth_bfly:
  assumes "0 < len" "j + len < length r" "p < length r"
  shows "bfly f len j r ! p =
    (if p = j then fst (f (r ! j) (r ! (j + len)))
     else if p = j + len then snd (f (r ! j) (r ! (j + len))) else r ! p)"
  using assms by (auto simp: bfly_def nth_list_update split: prod.splits)

lemma nth_bfly_pass:
  assumes "0 < len" "start + 2 * len \<le> length r" "p < length r"
  shows "fold (bfly f len) [start..<start + len] r ! p =
    (if start \<le> p \<and> p < start + len then fst (f (r ! p) (r ! (p + len)))
     else if start + len \<le> p \<and> p < start + 2 * len then snd (f (r ! (p - len)) (r ! p))
     else r ! p)"
proof -
  let ?P = "\<lambda>i s. length s = length r \<and> (\<forall>p<length r. s ! p =
    (if start \<le> p \<and> p < i then fst (f (r ! p) (r ! (p + len)))
     else if start + len \<le> p \<and> p < i + len then snd (f (r ! (p - len)) (r ! p))
     else r ! p))"
  have "?P (start + len) (fold (bfly f len) [start..<start + len] r)"
  proof (rule fold_upt_inv [where P = ?P])
    fix i s
    assume i: "start \<le> i" "i < start + len" and P: "?P i s"
    then have "s ! i = r ! i" "s ! (i + len) = r ! (i + len)" "i + len < length s"
      using assms by auto
    note at_i = this
    show "?P (Suc i) (bfly f len i s)"
    proof (intro conjI allI impI)
      fix p
      assume p: "p < length r"
      consider "p = i" | "p = i + len" | "p \<noteq> i" "p \<noteq> i + len" by blast
      then show "bfly f len i s ! p =
          (if start \<le> p \<and> p < Suc i then fst (f (r ! p) (r ! (p + len)))
           else if start + len \<le> p \<and> p < Suc i + len then snd (f (r ! (p - len)) (r ! p))
           else r ! p)"
        using i P p at_i assms(1) by cases (auto simp: nth_bfly less_Suc_eq)
    qed (use P in simp)
  qed auto
  then show ?thesis using assms(3) by (auto simp: mult_2)
qed

text \<open>A whole layer: every block of \<open>2 * len\<close> elements with its own butterfly \<open>g b\<close>.\<close>

lemma length_fold_passes [simp]:
  "length (fold (\<lambda>c. fold (bfly (g c) len) [c * (2 * len)..<c * (2 * len) + len]) cs r) = length r"
  by (induction cs arbitrary: r) auto

lemma nth_bfly_layer:
  fixes g :: "nat \<Rightarrow> 'a \<Rightarrow> 'a \<Rightarrow> 'a \<times> 'a"
  assumes "0 < len" "length r = nb * (2 * len)" "b < nb" "m < len"
  defines "r' \<equiv> fold (\<lambda>c. fold (bfly (g c) len) [c * (2 * len)..<c * (2 * len) + len]) [0..<nb] r"
  shows "r' ! (b * (2 * len) + m) = fst (g b (r ! (b * (2 * len) + m)) (r ! (b * (2 * len) + m + len)))"
    and "r' ! (b * (2 * len) + m + len) =
      snd (g b (r ! (b * (2 * len) + m)) (r ! (b * (2 * len) + m + len)))"
proof -
  let ?s = "\<lambda>b. b * (2 * len)"
  let ?P = "\<lambda>c s. length s = length r \<and>
    (\<forall>b<nb. \<forall>m<len.
       s ! (?s b + m) = (if b < c then fst (g b (r ! (?s b + m)) (r ! (?s b + m + len))) else r ! (?s b + m)) \<and>
       s ! (?s b + m + len) =
         (if b < c then snd (g b (r ! (?s b + m)) (r ! (?s b + m + len))) else r ! (?s b + m + len)))"
  have block: "?s b + 2 * len \<le> length r" if "b < nb" for b
  proof -
    have "Suc b * (2 * len) \<le> nb * (2 * len)" using that by (intro mult_right_mono) auto
    then show ?thesis by (simp add: assms(2))
  qed
  have apart: "?s b + 2 * len \<le> ?s c" if "b < c" for b c
  proof -
    have "Suc b * (2 * len) \<le> c * (2 * len)" using that by (intro mult_right_mono) auto
    then show ?thesis by simp
  qed
  have "?P nb r'"
    unfolding r'_def
  proof (rule fold_upt_inv [where P = ?P])
    fix c s
    assume c: "c < nb" and P: "?P c s"
    let ?s' = "fold (bfly (g c) len) [?s c..<?s c + len] s"
    have N: "?s' ! p = (if ?s c \<le> p \<and> p < ?s c + len then fst (g c (s ! p) (s ! (p + len)))
        else if ?s c + len \<le> p \<and> p < ?s c + 2 * len then snd (g c (s ! (p - len)) (s ! p))
        else s ! p)" if "p < length r" for p
      using block [OF c] P that assms(1) by (intro nth_bfly_pass) auto
    show "?P (Suc c) ?s'"
    proof (intro conjI allI impI)
      fix b m
      assume b: "b < nb" and m: "m < len"
      have le: "?s b + m + len < length r" using block [OF b] m by simp
      have cases: "b < c \<or> b = c \<or> c < b" by linarith
      then show "?s' ! (?s b + m) = (if b < Suc c
          then fst (g b (r ! (?s b + m)) (r ! (?s b + m + len))) else r ! (?s b + m))"
        using P b m le N [of "?s b + m"] apart [of b c] apart [of c b] by auto
      from cases show "?s' ! (?s b + m + len) = (if b < Suc c
          then snd (g b (r ! (?s b + m)) (r ! (?s b + m + len))) else r ! (?s b + m + len))"
        using P b m le N [of "?s b + m + len"] apart [of b c] apart [of c b] by auto
    qed (use P in simp)
  qed auto
  then show "r' ! (?s b + m) = fst (g b (r ! (?s b + m)) (r ! (?s b + m + len)))"
    and "r' ! (?s b + m + len) = snd (g b (r ! (?s b + m)) (r ! (?s b + m + len)))"
    using assms(3,4) by auto
qed

section \<open>Counting the table index\<close>

lemma funpow_Suc: "(Suc ^^ n) k = k + n"
  by (induction n) auto

lemma funpow_pred: "((\<lambda>k. k - Suc 0) ^^ n) k = k - n" for k :: nat
  by (induction n) auto

section \<open>Writing into an array\<close>

definition overwrite :: "nat \<Rightarrow> 'a list \<Rightarrow> 'a list \<Rightarrow> 'a list" where
  "overwrite off xs r = take off r @ xs @ drop (off + length xs) r"

lemma length_overwrite [simp]: "off + length xs \<le> length r \<Longrightarrow> length (overwrite off xs r) = length r"
  by (simp add: overwrite_def)

lemma overwrite_Nil [simp]: "overwrite off [] r = r"
  by (simp add: overwrite_def)

lemma overwrite_Cons: "off < length r \<Longrightarrow> overwrite off (x # xs) r = overwrite (Suc off) xs (r[off := x])"
  by (simp add: overwrite_def take_update_swap drop_update_cancel take_Suc_conv_app_nth list_update_append)

lemma overwrite_append:
  "off + length xs + length ys \<le> length r \<Longrightarrow> overwrite (off + length xs) ys (overwrite off xs r) = overwrite off (xs @ ys) r"
  by (simp add: overwrite_def ac_simps)

lemma overwrite_full: "length xs = length r \<Longrightarrow> overwrite 0 xs r = xs"
  by (simp add: overwrite_def)

end
