(* ===== verification/Bits.thy ===== *)
theory Bits
  imports Loops
begin

text \<open>
  Words and byte strings as strings of bits, least significant bit first: the order in which both
  standards number the bits of a byte array.  The collection \<open>bit_fields\<close> reads a single bit of the
  shift-and-mask expressions the serialisation routines are made of.
\<close>

definition byte_bit :: "u8 list \<Rightarrow> nat \<Rightarrow> bool" where
  "byte_bit b n = bit (b ! (n div 8)) (n mod 8)"

named_theorems bit_fields "bits of shift-and-mask expressions"

lemmas [bit_fields] = bit_or_iff bit_and_iff bit_xor_iff bit_push_bit_iff bit_drop_bit_eq bit_unsigned_iff

lemma word_eq_bits:
  fixes x y :: "'a::len word"
  assumes "\<And>n. n < LENGTH('a) \<Longrightarrow> bit x n = bit y n"
  shows "x = y"
  using assms by (rule bit_word_eqI)

text \<open>A bounded index as a finite case distinction.\<close>

lemma all_less_numeral:
  "(\<forall>n < numeral k. P n) = (P (pred_numeral k) \<and> (\<forall>n < pred_numeral k. P n))"
  by (simp add: numeral_eq_Suc All_less_Suc)

lemma all_less_1: "(\<forall>n < Suc 0. P n) = P 0" "(\<forall>n < (1 :: nat). P n) = P 0"
  by auto

lemma byte_eq_iff: "(x :: u8) = y \<longleftrightarrow> (\<forall>n < 8. bit x n = bit y n)"
  using word_eq_bits [of x y] by auto

lemma bit_fold_or:
  "bit (fold (\<lambda>j m. m OR f j) js (m :: 'a::len word)) n = (bit m n \<or> (\<exists>j \<in> set js. bit (f j) n))"
  by (induction js arbitrary: m) (auto simp: bit_or_iff)

lemma shr_and_1: "shr (x :: 'a::len word) j AND 1 = of_bool (bit x j)"
  by (rule bit_word_eqI) (auto simp: bit_and_iff bit_1_iff bit_drop_bit_eq intro!: gr0I)

section \<open>Words as sums of bits\<close>

lemma uint_bit_sum:
  fixes x :: "'a::len word"
  shows "uint x = (\<Sum>i<LENGTH('a). of_bool (bit x i) * 2 ^ i)"
proof -
  have "uint x = take_bit LENGTH('a) (uint x)"
    by (rule take_bit_int_eq_self [symmetric]) simp_all
  also have "\<dots> = horner_sum of_bool 2 (map (bit (uint x)) [0..<LENGTH('a)])"
    by (simp only: horner_sum_bit_eq_take_bit)
  also have "\<dots> = (\<Sum>i<LENGTH('a). of_bool (bit x i) * 2 ^ i)"
    by (simp add: horner_sum_eq_sum lessThan_atLeast0 bit_uint_iff)
  finally show ?thesis .
qed

lemma unat_bit_sum:
  fixes x :: "'a::len word"
  shows "unat x = (\<Sum>i<LENGTH('a). of_bool (bit x i) * 2 ^ i)"
proof -
  have "int (unat x) = int (\<Sum>i<LENGTH('a). of_bool (bit x i) * 2 ^ i)"
    using uint_bit_sum [of x] by simp
  then show ?thesis by (simp only: of_nat_eq_iff)
qed

lemma bit_word_beyond: "LENGTH('a) \<le> n \<Longrightarrow> \<not> bit (x :: 'a::len word) n"
  by (auto dest: bit_imp_le_length)

lemma bit_u8_beyond [bit_fields]: "8 \<le> n \<Longrightarrow> \<not> bit (x :: u8) n"
  by (simp add: bit_word_beyond)

text \<open>The bits of a word selected by a mask of one bit per field of \<open>w\<close> bits.\<close>

lemma unat_field_mask:
  fixes x :: "'a::len word"
  assumes "m * w \<le> LENGTH('a)" "0 < w"
    and mask: "\<And>n. n < LENGTH('a) \<Longrightarrow> bit M n = (n < m * w \<and> n mod w = 0)"
  shows "unat (x AND M) = (\<Sum>f<m. of_bool (bit x (w * f)) * (2 ^ w) ^ f)"
proof -
  let ?g = "\<lambda>i. of_bool (bit (x AND M) i) * 2 ^ i :: nat"
  have "unat (x AND M) = sum ?g {..<m * w}"
    unfolding unat_bit_sum using assms by (intro sum.mono_neutral_right) (auto simp: bit_and_iff)
  also have "\<dots> = (\<Sum>f<m. \<Sum>i<w. ?g (f * w + i))" by (rule sum_upto_blocks)
  also have "\<dots> = (\<Sum>f<m. \<Sum>i<w. if i = 0 then of_bool (bit x (w * f)) * (2 ^ w) ^ f else 0)"
  proof (intro sum.cong refl)
    fix f i
    assume "f \<in> {..<m}" "i \<in> {..<w}"
    then have f: "f < m" and i: "i < w" by auto
    have "f * w + i < Suc f * w" using i by simp
    also have "\<dots> \<le> m * w" using f by (intro mult_right_mono) auto
    finally have "f * w + i < m * w" .
    then have "bit M (f * w + i) = (i = 0)" using mask [of "f * w + i"] assms(1) i by simp
    then show "?g (f * w + i) = (if i = 0 then of_bool (bit x (w * f)) * (2 ^ w) ^ f else 0)"
      by (simp add: bit_and_iff mult.commute flip: power_mult)
  qed
  also have "\<dots> = (\<Sum>f<m. of_bool (bit x (w * f)) * (2 ^ w) ^ f)" using assms(2) by simp
  finally show ?thesis .
qed

section \<open>Digits\<close>

text \<open>Fields that do not carry into one another are the digits of the sum.\<close>

lemma digit_sum_less:
  fixes c :: "nat \<Rightarrow> nat"
  assumes "\<And>i. i < n \<Longrightarrow> c i < B"
  shows "(\<Sum>i<n. c i * B ^ i) < B ^ n"
  using assms
proof (induction n)
  case (Suc n)
  have "(\<Sum>i<Suc n. c i * B ^ i) < B ^ n + c n * B ^ n" using Suc by simp
  also have "\<dots> = (1 + c n) * B ^ n" by (simp add: algebra_simps)
  also have "\<dots> \<le> B * B ^ n" using Suc.prems [of n] by (intro mult_right_mono) auto
  finally show ?case by simp
qed simp

lemma digit_sum_div_mod:
  fixes c :: "nat \<Rightarrow> nat"
  assumes c: "\<And>i. i < n \<Longrightarrow> c i < B" and "f < n"
  shows "(\<Sum>i<n. c i * B ^ i) div B ^ f mod B = c f"
proof -
  let ?lo = "\<Sum>i<f. c i * B ^ i" and ?hi = "\<Sum>i<n - f - 1. c (Suc f + i) * B ^ i"
  have B: "0 < B" using c [of f] assms(2) by (cases B) auto
  have "(\<Sum>i<n. c i * B ^ i) = (\<Sum>i<f. c i * B ^ i) + (\<Sum>i<n - f. c (f + i) * B ^ (f + i))"
  proof -
    have "{..<n} = {..<f} \<union> {f..<n}" "{..<f} \<inter> {f..<n} = {}" using assms(2) by auto
    moreover have "(\<Sum>i = f..<n. c i * B ^ i) = (\<Sum>i<n - f. c (f + i) * B ^ (f + i))"
      using sum.shift_bounds_nat_ivl [of "\<lambda>i. c i * B ^ i" 0 f "n - f"] assms(2)
      by (simp add: lessThan_atLeast0 add.commute)
    ultimately show ?thesis by (simp add: sum.union_disjoint)
  qed
  also have "(\<Sum>i<n - f. c (f + i) * B ^ (f + i)) = c f * B ^ f + ?hi * B * B ^ f"
  proof -
    have "n - f = Suc (n - f - 1)" using assms(2) by simp
    then have "(\<Sum>i<n - f. c (f + i) * B ^ (f + i)) =
        c f * B ^ f + (\<Sum>i<n - f - 1. c (f + Suc i) * B ^ (f + Suc i))"
      by (subst \<open>n - f = _\<close>, subst sum.lessThan_Suc_shift) simp
    then show ?thesis by (simp add: sum_distrib_right sum_distrib_left power_add mult_ac)
  qed
  also have "?lo + (c f * B ^ f + ?hi * B * B ^ f) = ?lo + (c f + B * ?hi) * B ^ f" by (simp add: algebra_simps)
  finally have e: "(\<Sum>i<n. c i * B ^ i) = ?lo + (c f + B * ?hi) * B ^ f" .
  have "?lo < B ^ f" using c assms(2) by (intro digit_sum_less) simp
  then have "(?lo + (c f + B * ?hi) * B ^ f) div B ^ f = c f + B * ?hi" using B by simp
  then show ?thesis unfolding e using c [OF assms(2)] by simp
qed

section \<open>Fields of a byte string\<close>

text \<open>
  The \<open>i\<close>-th little-endian field of \<open>w\<close> bits of a byte string, the \<open>ByteDecode\<close> of the standards.
  An encoder is characterised by the fields of what it writes and a decoder by the fields it reads;
  a byte string is determined by its fields, so that every round trip follows.
\<close>

definition field :: "nat \<Rightarrow> u8 list \<Rightarrow> nat \<Rightarrow> nat" where
  "field w bs i = (\<Sum>j<w. of_bool (byte_bit bs (w * i + j)) * 2 ^ j)"

lemma field_less: "field w bs i < 2 ^ w"
  unfolding field_def by (rule digit_sum_less) simp

lemma field_bit: "j < w \<Longrightarrow> field w bs i div 2 ^ j mod 2 = of_bool (byte_bit bs (w * i + j))"
  unfolding field_def by (rule digit_sum_div_mod) simp_all

lemma unat_low_bits:
  fixes x :: "'a::len word"
  assumes "\<And>j. w \<le> j \<Longrightarrow> \<not> bit x j"
  shows "unat x = (\<Sum>j<w. of_bool (bit x j) * 2 ^ j)"
proof (cases "w \<le> LENGTH('a)")
  case True
  then show ?thesis unfolding unat_bit_sum
    using assms by (intro sum.mono_neutral_right) auto
next
  case False
  then show ?thesis unfolding unat_bit_sum
    by (intro sum.mono_neutral_left) (auto simp: bit_word_beyond)
qed

lemma field_eq_unat:
  fixes x :: "'a::len word"
  assumes "\<And>j. j < w \<Longrightarrow> byte_bit bs (w * i + j) = bit x j" "\<And>j. w \<le> j \<Longrightarrow> \<not> bit x j"
  shows "field w bs i = unat x"
  using unat_low_bits [OF assms(2)] assms(1) by (simp add: field_def)

lemma small_iff_bits:
  fixes x :: "'a::len word"
  shows "unat x < 2 ^ w \<longleftrightarrow> (\<forall>j\<ge>w. \<not> bit x j)"
proof
  assume lt: "unat x < 2 ^ w"
  show "\<forall>j\<ge>w. \<not> bit x j"
  proof (intro allI impI)
    fix j
    assume "w \<le> j"
    then have "(2 :: nat) ^ w \<le> 2 ^ j" by (intro power_increasing) auto
    then have "unat x div 2 ^ j = 0" using lt by (intro div_less) (rule less_le_trans)
    then have "\<not> bit (unat x) j" by (simp add: bit_iff_odd)
    then show "\<not> bit x j" by (auto simp: bit_unsigned_iff dest: bit_imp_le_length)
  qed
next
  assume "\<forall>j\<ge>w. \<not> bit x j"
  then have "unat x = (\<Sum>j<w. of_bool (bit x j) * 2 ^ j)" by (intro unat_low_bits) simp
  moreover have "(\<Sum>j<w. of_bool (bit x j) * 2 ^ j) < (2 :: nat) ^ w" by (rule digit_sum_less) simp
  ultimately show "unat x < 2 ^ w" by simp
qed

lemma fields_inj:
  assumes "length a = n" "length b = n" "8 * n = w * N" "\<And>i. i < N \<Longrightarrow> field w a i = field w b i"
  shows "a = b"
proof (rule nth_equalityI)
  show "length a = length b" using assms by simp
next
  fix k
  assume "k < length a"
  then have k: "k < n" using assms by simp
  show "a ! k = b ! k"
  proof (rule word_eq_bits)
    fix m
    assume "m < LENGTH(8)"
    then have m: "m < 8" by simp
    define p where "p = 8 * k + m"
    have "8 * k + m < 8 * Suc k" using m by simp
    also have "\<dots> \<le> 8 * n" using k by (intro mult_left_mono) auto
    finally have p: "p < w * N" using assms(3) by (simp add: p_def)
    then have w: "0 < w" by (cases w) auto
    have i: "p div w < N" using p w by (simp add: less_mult_imp_div_less mult.commute)
    have "byte_bit a (w * (p div w) + p mod w) = byte_bit b (w * (p div w) + p mod w)"
      using field_bit [of "p mod w" w a "p div w"] field_bit [of "p mod w" w b "p div w"] assms(4) [OF i] w
      by (metis mod_less_divisor of_bool_eq_iff)
    then have "byte_bit a p = byte_bit b p" by simp
    then show "bit (a ! k) m = bit (b ! k) m" using m by (simp add: byte_bit_def p_def)
  qed
qed

lemma byte_bit_map_chunks:
  assumes "\<And>c. length c = w \<Longrightarrow> length (f c) = v" "i < n" "p < 8 * v"
  shows "byte_bit (map_chunks w n f xs) (8 * v * i + p) = byte_bit (f (chunk w i xs)) p"
proof -
  have "(8 * v * i + p) div 8 = v * i + p div 8" "(8 * v * i + p) mod 8 = p mod 8" by (simp_all add: mult.assoc)
  moreover have "p div 8 < v" using assms(3) by (simp add: less_mult_imp_div_less mult.commute)
  ultimately show ?thesis using assms by (simp add: byte_bit_def nth_map_chunks [where w = w])
qed

lemma field_map_chunks:
  assumes "\<And>c. length c = w \<Longrightarrow> length (f c) = v" "i < n" "g * d = 8 * v" "k < g"
  shows "field d (map_chunks w n f xs) (g * i + k) = field d (f (chunk w i xs)) k"
proof -
  have "byte_bit (map_chunks w n f xs) (d * (g * i + k) + j) = byte_bit (f (chunk w i xs)) (d * k + j)"
    if j: "j < d" for j
  proof -
    have "d * k + j < d * Suc k" using j by simp
    also have "\<dots> \<le> d * g" using assms(4) by (intro mult_left_mono) auto
    finally have "d * k + j < 8 * v" using assms(3) by (simp add: mult.commute)
    moreover have "d * (g * i + k) + j = 8 * v * i + (d * k + j)"
      unfolding assms(3) [symmetric] by (simp add: algebra_simps)
    ultimately show ?thesis
      using byte_bit_map_chunks [of w f v i n "d * k + j" xs, OF assms(1,2)] by (simp only:)
  qed
  then show ?thesis by (simp add: field_def)
qed

lemma field_chunk:
  assumes "g * d = 8 * v" "k < g"
  shows "field d (chunk v i bs) k = field d bs (g * i + k)"
proof -
  have "byte_bit (chunk v i bs) (d * k + j) = byte_bit bs (d * (g * i + k) + j)" if j: "j < d" for j
  proof -
    have "d * k + j < d * Suc k" using j by simp
    also have "\<dots> \<le> d * g" using assms(2) by (intro mult_left_mono) auto
    finally have "d * k + j < 8 * v" using assms(1) by (simp add: mult.commute)
    then have lt: "(d * k + j) div 8 < v" by (simp add: less_mult_imp_div_less mult.commute)
    have e: "d * (g * i + k) + j = 8 * (v * i) + (d * k + j)"
    proof -
      have "d * (g * i + k) + j = (g * d) * i + (d * k + j)" by (simp add: algebra_simps)
      then show ?thesis unfolding assms(1) by simp
    qed
    show ?thesis unfolding e using lt by (simp add: byte_bit_def)
  qed
  then show ?thesis by (simp add: field_def)
qed

lemma field_append:
  assumes "d * Suc k \<le> 8 * length xs"
  shows "field d (xs @ ys) k = field d xs k"
proof -
  have "byte_bit (xs @ ys) (d * k + j) = byte_bit xs (d * k + j)" if "j < d" for j
  proof -
    have "d * k + j < d * Suc k" using that by simp
    then have "(d * k + j) div 8 < length xs" using assms by (simp add: less_mult_imp_div_less mult.commute)
    then show ?thesis by (simp add: byte_bit_def nth_append)
  qed
  then show ?thesis by (simp add: field_def)
qed

lemma map_field_append:
  assumes "d * m = 8 * length xs"
  shows "map (field d (xs @ ys)) [0..<m + k] = map (field d xs) [0..<m] @ map (field d ys) [0..<k]"
proof -
  have a: "field d (xs @ ys) i = field d xs i" if "i < m" for i
  proof (rule field_append)
    have "d * Suc i \<le> d * m" using that by (intro mult_left_mono) auto
    then show "d * Suc i \<le> 8 * length xs" using assms by simp
  qed
  have b: "field d (xs @ ys) (m + i) = field d ys i" for i
  proof -
    have "byte_bit (xs @ ys) (d * (m + i) + j) = byte_bit ys (d * i + j)" for j
    proof -
      have "d * (m + i) + j = 8 * length xs + (d * i + j)" using assms by (simp add: add_mult_distrib2)
      then show ?thesis by (simp only: byte_bit_def) (simp add: nth_append)
    qed
    then show ?thesis by (simp add: field_def)
  qed
  have u: "[0..<m + k] = [0..<m] @ map ((+) m) [0..<k]"
    by (rule nth_equalityI) (auto simp: nth_append)
  show ?thesis using a b unfolding u by simp
qed

text \<open>
  A loop that packs groups of \<open>g\<close> values into \<open>v\<close> bytes writes each value into its \<open>d\<close>-bit field when
  its body does, and a loop that unpacks reads it from there.
\<close>

lemma pack_chunks_field:
  assumes "length a = g * n" "0 < g" "g * d = 8 * v" "\<And>c. length c = g \<Longrightarrow> length (pk c) = v"
    and "\<And>c k. length c = g \<Longrightarrow> set c \<subseteq> set a \<Longrightarrow> k < g \<Longrightarrow> field d (pk c) k = enc (c ! k)"
    and "i < g * n"
  shows "field d (map_chunks g n pk a) i = enc (a ! i)"
proof -
  define j k where "j = i div g" and "k = i mod g"
  have jk: "i = g * j + k" "j < n" "k < g"
    using index_group [of i g n] assms(2,6) by (simp_all add: j_def k_def)
  have "g * j + g \<le> g * n" using jk(2) by (metis Suc_leI mult_Suc_right mult_le_mono2 add.commute)
  then have sub: "set (chunk g j a) \<subseteq> set a" using assms(1) by (intro set_chunk) simp
  have "field d (map_chunks g n pk a) i = field d (pk (chunk g j a)) k"
    unfolding jk(1) by (rule field_map_chunks [OF assms(4) jk(2) assms(3) jk(3)])
  also have "\<dots> = enc (a ! i)" using assms(5) [OF _ sub jk(3)] jk by simp
  finally show ?thesis .
qed

lemma unpack_chunks_nth:
  assumes "0 < g" "g * d = 8 * v" "\<And>c. length c = v \<Longrightarrow> length (up c) = g"
    and "\<And>c k. length c = v \<Longrightarrow> k < g \<Longrightarrow> P (field d c k) (up c ! k)"
    and "i < g * n"
  shows "P (field d bs i) (map_chunks v n up bs ! i)"
proof -
  define j k where "j = i div g" and "k = i mod g"
  have jk: "i = g * j + k" "j < n" "k < g"
    using index_group [of i g n] assms(1,5) by (simp_all add: j_def k_def)
  have "map_chunks v n up bs ! i = up (chunk v j bs) ! k"
    unfolding jk(1) by (rule nth_map_chunks [OF assms(3) jk(2,3)])
  moreover have "field d (chunk v j bs) k = field d bs i"
    unfolding jk(1) by (rule field_chunk [OF assms(2) jk(3)])
  ultimately show ?thesis using assms(4) [of "chunk v j bs" k] jk(3) by simp
qed

end
