(* ===== verification/Keccak.thy ===== *)
theory Keccak
  imports Bits
begin

text \<open>
  \<open>keccak.c\<close> of both libraries (the two files are identical): the permutation Keccak-f[1600] in the
  portable build (\<open>VK_KECCAK != 1\<close>).  The C loop does two rounds per iteration, the first from the
  variables \<open>A..\<close> to \<open>E..\<close> and the second back; the two halves are translated statement by statement,
  with the 25 local variables copied from and to the state array.  The specification follows the five
  step mappings of FIPS 202; the tables of offsets and round constants are derived from the
  standard's own generating procedures.  The call counter \<open>KeccakF1600_count\<close> is not modelled.
\<close>

section \<open>Code\<close>

text \<open>The macro \<open>ROL\<close>.\<close>

definition ROL :: "u64 \<Rightarrow> nat \<Rightarrow> u64" where
  "ROL a offset = shl a offset XOR shr a (64 - offset)"

definition KeccakF_RoundConstants :: "u64 list" where
  "KeccakF_RoundConstants = [
    0x0000000000000001, 0x0000000000008082, 0x800000000000808a, 0x8000000080008000,
    0x000000000000808b, 0x0000000080000001, 0x8000000080008081, 0x8000000000008009,
    0x000000000000008a, 0x0000000000000088, 0x0000000080008009, 0x000000008000000a,
    0x000000008000808b, 0x800000000000008b, 0x8000000000008089, 0x8000000000008003,
    0x8000000000008002, 0x8000000000000080, 0x000000000000800a, 0x800000008000000a,
    0x8000000080008081, 0x8000000000008080, 0x0000000080000001, 0x8000000080008008]"

definition keccak_round_even :: "u64 \<Rightarrow> u64 list \<Rightarrow> u64 list" where
  "keccak_round_even rc st =
     (let
        Aba = st ! 0; Abe = st ! 1; Abi = st ! 2; Abo = st ! 3; Abu = st ! 4;
        Aga = st ! 5; Age = st ! 6; Agi = st ! 7; Ago = st ! 8; Agu = st ! 9;
        Aka = st ! 10; Ake = st ! 11; Aki = st ! 12; Ako = st ! 13; Aku = st ! 14;
        Ama = st ! 15; Ame = st ! 16; Ami = st ! 17; Amo = st ! 18; Amu = st ! 19;
        Asa = st ! 20; Ase = st ! 21; Asi = st ! 22; Aso = st ! 23; Asu = st ! 24;
        BCa = Aba XOR Aga XOR Aka XOR Ama XOR Asa;
        BCe = Abe XOR Age XOR Ake XOR Ame XOR Ase;
        BCi = Abi XOR Agi XOR Aki XOR Ami XOR Asi;
        BCo = Abo XOR Ago XOR Ako XOR Amo XOR Aso;
        BCu = Abu XOR Agu XOR Aku XOR Amu XOR Asu;
        Da = BCu XOR ROL BCe 1;
        De = BCa XOR ROL BCi 1;
        Di = BCe XOR ROL BCo 1;
        Do = BCi XOR ROL BCu 1;
        Du = BCo XOR ROL BCa 1;
        Aba = Aba XOR Da;
        BCa = Aba;
        Age = Age XOR De;
        BCe = ROL Age 44;
        Aki = Aki XOR Di;
        BCi = ROL Aki 43;
        Amo = Amo XOR Do;
        BCo = ROL Amo 21;
        Asu = Asu XOR Du;
        BCu = ROL Asu 14;
        Eba = BCa XOR ((NOT BCe) AND BCi);
        Eba = Eba XOR rc;
        Ebe = BCe XOR ((NOT BCi) AND BCo);
        Ebi = BCi XOR ((NOT BCo) AND BCu);
        Ebo = BCo XOR ((NOT BCu) AND BCa);
        Ebu = BCu XOR ((NOT BCa) AND BCe);
        Abo = Abo XOR Do;
        BCa = ROL Abo 28;
        Agu = Agu XOR Du;
        BCe = ROL Agu 20;
        Aka = Aka XOR Da;
        BCi = ROL Aka 3;
        Ame = Ame XOR De;
        BCo = ROL Ame 45;
        Asi = Asi XOR Di;
        BCu = ROL Asi 61;
        Ega = BCa XOR ((NOT BCe) AND BCi);
        Ege = BCe XOR ((NOT BCi) AND BCo);
        Egi = BCi XOR ((NOT BCo) AND BCu);
        Ego = BCo XOR ((NOT BCu) AND BCa);
        Egu = BCu XOR ((NOT BCa) AND BCe);
        Abe = Abe XOR De;
        BCa = ROL Abe 1;
        Agi = Agi XOR Di;
        BCe = ROL Agi 6;
        Ako = Ako XOR Do;
        BCi = ROL Ako 25;
        Amu = Amu XOR Du;
        BCo = ROL Amu 8;
        Asa = Asa XOR Da;
        BCu = ROL Asa 18;
        Eka = BCa XOR ((NOT BCe) AND BCi);
        Eke = BCe XOR ((NOT BCi) AND BCo);
        Eki = BCi XOR ((NOT BCo) AND BCu);
        Eko = BCo XOR ((NOT BCu) AND BCa);
        Eku = BCu XOR ((NOT BCa) AND BCe);
        Abu = Abu XOR Du;
        BCa = ROL Abu 27;
        Aga = Aga XOR Da;
        BCe = ROL Aga 36;
        Ake = Ake XOR De;
        BCi = ROL Ake 10;
        Ami = Ami XOR Di;
        BCo = ROL Ami 15;
        Aso = Aso XOR Do;
        BCu = ROL Aso 56;
        Ema = BCa XOR ((NOT BCe) AND BCi);
        Eme = BCe XOR ((NOT BCi) AND BCo);
        Emi = BCi XOR ((NOT BCo) AND BCu);
        Emo = BCo XOR ((NOT BCu) AND BCa);
        Emu = BCu XOR ((NOT BCa) AND BCe);
        Abi = Abi XOR Di;
        BCa = ROL Abi 62;
        Ago = Ago XOR Do;
        BCe = ROL Ago 55;
        Aku = Aku XOR Du;
        BCi = ROL Aku 39;
        Ama = Ama XOR Da;
        BCo = ROL Ama 41;
        Ase = Ase XOR De;
        BCu = ROL Ase 2;
        Esa = BCa XOR ((NOT BCe) AND BCi);
        Ese = BCe XOR ((NOT BCi) AND BCo);
        Esi = BCi XOR ((NOT BCo) AND BCu);
        Eso = BCo XOR ((NOT BCu) AND BCa);
        Esu = BCu XOR ((NOT BCa) AND BCe)
      in [Eba, Ebe, Ebi, Ebo, Ebu,
         Ega, Ege, Egi, Ego, Egu,
         Eka, Eke, Eki, Eko, Eku,
         Ema, Eme, Emi, Emo, Emu,
         Esa, Ese, Esi, Eso, Esu])"

definition keccak_round_odd :: "u64 \<Rightarrow> u64 list \<Rightarrow> u64 list" where
  "keccak_round_odd rc st =
     (let
        Eba = st ! 0; Ebe = st ! 1; Ebi = st ! 2; Ebo = st ! 3; Ebu = st ! 4;
        Ega = st ! 5; Ege = st ! 6; Egi = st ! 7; Ego = st ! 8; Egu = st ! 9;
        Eka = st ! 10; Eke = st ! 11; Eki = st ! 12; Eko = st ! 13; Eku = st ! 14;
        Ema = st ! 15; Eme = st ! 16; Emi = st ! 17; Emo = st ! 18; Emu = st ! 19;
        Esa = st ! 20; Ese = st ! 21; Esi = st ! 22; Eso = st ! 23; Esu = st ! 24;
        BCa = Eba XOR Ega XOR Eka XOR Ema XOR Esa;
        BCe = Ebe XOR Ege XOR Eke XOR Eme XOR Ese;
        BCi = Ebi XOR Egi XOR Eki XOR Emi XOR Esi;
        BCo = Ebo XOR Ego XOR Eko XOR Emo XOR Eso;
        BCu = Ebu XOR Egu XOR Eku XOR Emu XOR Esu;
        Da = BCu XOR ROL BCe 1;
        De = BCa XOR ROL BCi 1;
        Di = BCe XOR ROL BCo 1;
        Do = BCi XOR ROL BCu 1;
        Du = BCo XOR ROL BCa 1;
        Eba = Eba XOR Da;
        BCa = Eba;
        Ege = Ege XOR De;
        BCe = ROL Ege 44;
        Eki = Eki XOR Di;
        BCi = ROL Eki 43;
        Emo = Emo XOR Do;
        BCo = ROL Emo 21;
        Esu = Esu XOR Du;
        BCu = ROL Esu 14;
        Aba = BCa XOR ((NOT BCe) AND BCi);
        Aba = Aba XOR rc;
        Abe = BCe XOR ((NOT BCi) AND BCo);
        Abi = BCi XOR ((NOT BCo) AND BCu);
        Abo = BCo XOR ((NOT BCu) AND BCa);
        Abu = BCu XOR ((NOT BCa) AND BCe);
        Ebo = Ebo XOR Do;
        BCa = ROL Ebo 28;
        Egu = Egu XOR Du;
        BCe = ROL Egu 20;
        Eka = Eka XOR Da;
        BCi = ROL Eka 3;
        Eme = Eme XOR De;
        BCo = ROL Eme 45;
        Esi = Esi XOR Di;
        BCu = ROL Esi 61;
        Aga = BCa XOR ((NOT BCe) AND BCi);
        Age = BCe XOR ((NOT BCi) AND BCo);
        Agi = BCi XOR ((NOT BCo) AND BCu);
        Ago = BCo XOR ((NOT BCu) AND BCa);
        Agu = BCu XOR ((NOT BCa) AND BCe);
        Ebe = Ebe XOR De;
        BCa = ROL Ebe 1;
        Egi = Egi XOR Di;
        BCe = ROL Egi 6;
        Eko = Eko XOR Do;
        BCi = ROL Eko 25;
        Emu = Emu XOR Du;
        BCo = ROL Emu 8;
        Esa = Esa XOR Da;
        BCu = ROL Esa 18;
        Aka = BCa XOR ((NOT BCe) AND BCi);
        Ake = BCe XOR ((NOT BCi) AND BCo);
        Aki = BCi XOR ((NOT BCo) AND BCu);
        Ako = BCo XOR ((NOT BCu) AND BCa);
        Aku = BCu XOR ((NOT BCa) AND BCe);
        Ebu = Ebu XOR Du;
        BCa = ROL Ebu 27;
        Ega = Ega XOR Da;
        BCe = ROL Ega 36;
        Eke = Eke XOR De;
        BCi = ROL Eke 10;
        Emi = Emi XOR Di;
        BCo = ROL Emi 15;
        Eso = Eso XOR Do;
        BCu = ROL Eso 56;
        Ama = BCa XOR ((NOT BCe) AND BCi);
        Ame = BCe XOR ((NOT BCi) AND BCo);
        Ami = BCi XOR ((NOT BCo) AND BCu);
        Amo = BCo XOR ((NOT BCu) AND BCa);
        Amu = BCu XOR ((NOT BCa) AND BCe);
        Ebi = Ebi XOR Di;
        BCa = ROL Ebi 62;
        Ego = Ego XOR Do;
        BCe = ROL Ego 55;
        Eku = Eku XOR Du;
        BCi = ROL Eku 39;
        Ema = Ema XOR Da;
        BCo = ROL Ema 41;
        Ese = Ese XOR De;
        BCu = ROL Ese 2;
        Asa = BCa XOR ((NOT BCe) AND BCi);
        Ase = BCe XOR ((NOT BCi) AND BCo);
        Asi = BCi XOR ((NOT BCo) AND BCu);
        Aso = BCo XOR ((NOT BCu) AND BCa);
        Asu = BCu XOR ((NOT BCa) AND BCe)
      in [Aba, Abe, Abi, Abo, Abu,
         Aga, Age, Agi, Ago, Agu,
         Aka, Ake, Aki, Ako, Aku,
         Ama, Ame, Ami, Amo, Amu,
         Asa, Ase, Asi, Aso, Asu])"

definition KeccakF1600_StatePermute :: "u64 list \<Rightarrow> u64 list" where
  "KeccakF1600_StatePermute state =
     fold (\<lambda>i st. let round = 2 * i;
                    st = keccak_round_even (KeccakF_RoundConstants ! round) st
                in keccak_round_odd (KeccakF_RoundConstants ! (round + 1)) st)
       [0..<12] state"

section \<open>Specification\<close>

text \<open>Lane \<open>(x, y)\<close> is element \<open>x + 5 y\<close>.\<close>

definition theta_c :: "u64 list \<Rightarrow> nat \<Rightarrow> u64" where
  "theta_c a x = a ! x XOR a ! (x + 5) XOR a ! (x + 10) XOR a ! (x + 15) XOR a ! (x + 20)"

definition keccak_theta :: "u64 list \<Rightarrow> u64 list" where
  "keccak_theta a = map (\<lambda>i. a ! i XOR
     (theta_c a ((i mod 5 + 4) mod 5) XOR word_rotl 1 (theta_c a ((i mod 5 + 1) mod 5)))) [0..<25]"

definition rho_offset :: "nat list" where
  "rho_offset = [0, 1, 62, 28, 27, 36, 44, 6, 55, 20, 3, 10, 43, 25, 39, 41, 45, 15, 21, 8, 18, 2, 61, 56, 14]"

definition keccak_rho :: "u64 list \<Rightarrow> u64 list" where
  "keccak_rho a = map (\<lambda>i. word_rotl (rho_offset ! i) (a ! i)) [0..<25]"

definition keccak_pi :: "u64 list \<Rightarrow> u64 list" where
  "keccak_pi a = map (\<lambda>i. let x = i mod 5; y = i div 5 in a ! ((x + 3 * y) mod 5 + 5 * x)) [0..<25]"

definition keccak_chi :: "u64 list \<Rightarrow> u64 list" where
  "keccak_chi a = map (\<lambda>i. let x = i mod 5; y = 5 * (i div 5)
     in a ! i XOR (NOT (a ! ((x + 1) mod 5 + y)) AND a ! ((x + 2) mod 5 + y))) [0..<25]"

definition keccak_iota :: "u64 \<Rightarrow> u64 list \<Rightarrow> u64 list" where
  "keccak_iota rc a = a[0 := a ! 0 XOR rc]"

definition keccak_round :: "u64 \<Rightarrow> u64 list \<Rightarrow> u64 list" where
  "keccak_round rc a = keccak_iota rc (keccak_chi (keccak_pi (keccak_rho (keccak_theta a))))"

text \<open>The standard's walk over the lanes that fixes the offsets, and its shift register for the constants.\<close>

fun rho_walk :: "nat \<Rightarrow> nat \<Rightarrow> nat \<Rightarrow> nat list \<Rightarrow> nat list" where
  "rho_walk 0 x y off = off"
| "rho_walk (Suc n) x y off = (let t = 23 - n
     in rho_walk n y ((2 * x + 3 * y) mod 5) (off[x + 5 * y := ((t + 1) * (t + 2) div 2) mod 64]))"

definition rc_next :: "int \<Rightarrow> int" where
  "rc_next r = (if 128 \<le> r then (2 * r - 256) XOR 113 else 2 * r)"

fun rc_sum :: "nat list \<Rightarrow> int \<Rightarrow> int" where
  "rc_sum [] r = 0"
| "rc_sum (p # ps) r = r mod 2 * 2 ^ p + rc_sum ps (rc_next r)"

fun rc_consts :: "nat \<Rightarrow> int \<Rightarrow> int list" where
  "rc_consts 0 r = []"
| "rc_consts (Suc n) r = rc_sum [0, 1, 3, 7, 15, 31, 63] r # rc_consts n ((rc_next ^^ 7) r)"

definition keccak_f :: "u64 list \<Rightarrow> u64 list" where
  "keccak_f a = fold (\<lambda>rc. keccak_round (of_int rc)) (rc_consts 24 1) a"

section \<open>The tables\<close>

lemma rho_offset_walk: "rho_offset = rho_walk 24 1 0 (replicate 25 0)"
  by code_simp

lemma round_constants_aux: "map uint KeccakF_RoundConstants = rc_consts 24 1"
  by code_simp

section \<open>The rounds\<close>

lemma ROL_rotl:
  assumes "0 < n" "n < 64"
  shows "ROL a n = word_rotl n a"
proof (rule bit_word_eqI)
  fix k
  assume "k < LENGTH(64)"
  then have k: "k < 64" by simp
  have r: "bit (word_rotl n a) k = bit a ((k + (64 - n)) mod 64)"
    using assms k by (simp only: bit_word_rotl_iff) simp
  show "bit (ROL a n) k = bit (word_rotl n a) k"
  proof (cases "n \<le> k")
    case True
    then have "k + (64 - n) = (k - n) + 64" using assms by simp
    then have "(k + (64 - n)) mod 64 = k - n" using k by (metis mod_add_self2 mod_less less_imp_diff_less)
    then show ?thesis unfolding r using True k assms by (simp add: ROL_def bit_fields bit_word_beyond)
  next
    case False
    then have "(k + (64 - n)) mod 64 = 64 - n + k" using assms k by (simp add: add.commute)
    then show ?thesis unfolding r using False k assms by (simp add: ROL_def bit_fields)
  qed
qed

lemma word_rotl_zero: "word_rotl 0 a = a"
  by (rule bit_word_eqI) (simp add: bit_word_rotl_iff)

lemma upt_25: "[0..<25] = [0, 1, 2, 3, 4, 5, 6, 7, 8, 9, 10, 11, 12, 13, 14, 15, 16, 17, 18, 19, 20, 21, 22, 23, 24]"
  by (simp add: upt_rec)

lemma round_even: "length a = 25 \<Longrightarrow> keccak_round_even rc a = keccak_round rc a"
  unfolding keccak_round_even_def keccak_round_def keccak_theta_def keccak_rho_def keccak_pi_def
    keccak_chi_def keccak_iota_def upt_25 theta_c_def
  by (simp add: ROL_rotl word_rotl_zero rho_offset_def Let_def numeral_2_eq_2 [symmetric] numeral_3_eq_3 [symmetric])

lemma round_odd: "length a = 25 \<Longrightarrow> keccak_round_odd rc a = keccak_round rc a"
  unfolding keccak_round_odd_def keccak_round_def keccak_theta_def keccak_rho_def keccak_pi_def
    keccak_chi_def keccak_iota_def upt_25 theta_c_def
  by (simp add: ROL_rotl word_rotl_zero rho_offset_def Let_def numeral_2_eq_2 [symmetric] numeral_3_eq_3 [symmetric])

lemma length_keccak_round [simp]: "length (keccak_round rc a) = 25"
  by (simp add: keccak_round_def keccak_iota_def keccak_chi_def)

lemma fold_pairs:
  "length xs = 2 * n \<Longrightarrow> fold (\<lambda>i s. g (xs ! Suc (2 * i)) (g (xs ! (2 * i)) s)) [0..<n] a = fold g xs a"
proof (induction n arbitrary: xs)
  case (Suc n)
  define ys where "ys = take (2 * n) xs"
  have l: "length ys = 2 * n" using Suc.prems by (simp add: ys_def)
  have xs: "xs = ys @ [xs ! (2 * n), xs ! Suc (2 * n)]"
    using Suc.prems by (intro nth_equalityI) (auto simp: ys_def nth_append less_Suc_eq)
  have "fold (\<lambda>i s. g (xs ! Suc (2 * i)) (g (xs ! (2 * i)) s)) [0..<n] a =
      fold (\<lambda>i s. g (ys ! Suc (2 * i)) (g (ys ! (2 * i)) s)) [0..<n] a"
    by (intro fold_cong) (auto simp: ys_def)
  also have "\<dots> = fold g ys a" using l by (rule Suc.IH)
  finally have IH: "fold (\<lambda>i s. g (xs ! Suc (2 * i)) (g (xs ! (2 * i)) s)) [0..<n] a = fold g ys a" .
  have "fold g xs a = fold g (ys @ [xs ! (2 * n), xs ! Suc (2 * n)]) a"
    by (rule arg_cong [OF xs, of "\<lambda>z. fold g z a"])
  then show ?case by (simp add: IH)
qed simp

lemma length_RoundConstants [simp]: "length KeccakF_RoundConstants = 24"
  by (simp add: KeccakF_RoundConstants_def)

lemma keccak_f_table: "keccak_f a = fold keccak_round KeccakF_RoundConstants a"
  by (simp add: keccak_f_def fold_map comp_def flip: round_constants_aux)

lemma KeccakF1600_rounds:
  assumes "length a = 25"
  shows "KeccakF1600_StatePermute a = fold keccak_round KeccakF_RoundConstants a \<and>
    length (KeccakF1600_StatePermute a) = 25"
proof -
  let ?rc = KeccakF_RoundConstants
  let ?g = "\<lambda>i s. keccak_round (?rc ! Suc (2 * i)) (keccak_round (?rc ! (2 * i)) s)"
  have "fold (\<lambda>i st. let round = 2 * i; st = keccak_round_even (?rc ! round) st
      in keccak_round_odd (?rc ! (round + 1)) st) is s = fold ?g is s \<and> length (fold ?g is s) = 25"
    if "length s = 25" for "is" s
    using that by (induction "is" arbitrary: s) (simp_all add: Let_def round_even round_odd)
  from this [OF assms, of "[0..<12]"] fold_pairs [of ?rc 12 keccak_round a]
  show ?thesis by (simp add: KeccakF1600_StatePermute_def)
qed

lemma length_KeccakF1600 [simp]: "length a = 25 \<Longrightarrow> length (KeccakF1600_StatePermute a) = 25"
  using KeccakF1600_rounds by blast

section \<open>Properties\<close>

text \<open>C12: the unrolled permutation of the C code is the 24-round Keccak-f[1600] of FIPS 202, with the
  offsets of the standard's lane walk and the constants of its shift register.\<close>

theorem KeccakF1600_correct:
  assumes "length a = 25"
  shows "KeccakF1600_StatePermute a = keccak_f a \<and>
    rho_offset = rho_walk 24 1 0 (replicate 25 0) \<and> map uint KeccakF_RoundConstants = rc_consts 24 1"
  using KeccakF1600_rounds [OF assms] keccak_f_table rho_offset_walk round_constants_aux by simp

theorem KeccakF1600_correct_witness:
  "KeccakF1600_StatePermute (replicate 25 0) = keccak_f (replicate 25 0)"
  using KeccakF1600_correct [of "replicate 25 0"] by simp

end
