(* ===== verification/Fips202.thy ===== *)
theory Fips202
  imports Keccak
begin

text \<open>
  \<open>fips202.c\<close> of both libraries (identical up to comments and braces): the sponge, its incremental and
  one-shot interfaces, SHAKE and SHA3.  Buffers the C code reads through a pointer and a length are
  lists; what it writes through \<open>out\<close> is returned.  A Keccak state is a list of 25 lanes.
\<close>

section \<open>Code\<close>

abbreviation (input) SHAKE128_RATE :: nat where "SHAKE128_RATE \<equiv> 168"
abbreviation (input) SHAKE256_RATE :: nat where "SHAKE256_RATE \<equiv> 136"
abbreviation (input) SHA3_256_RATE :: nat where "SHA3_256_RATE \<equiv> 136"
abbreviation (input) SHA3_512_RATE :: nat where "SHA3_512_RATE \<equiv> 72"

type_synonym lanes = "u64 list"

record keccak_state =
  ks_s :: lanes
  ks_pos :: nat

definition load64 :: "u8 list \<Rightarrow> nat \<Rightarrow> u64" where
  "load64 x off = fold (\<lambda>i r. r OR shl (zext64 (x ! (off + i))) (8 * i)) [0..<8] 0"

definition store64 :: "u64 \<Rightarrow> u8 list" where
  "store64 u = map (\<lambda>i. zext8 (shr u (8 * i))) [0..<8]"

definition keccak_init :: "lanes \<Rightarrow> lanes" where
  "keccak_init s = fold (\<lambda>i s. s[i := 0]) [0..<25] s"

text \<open>The statement \<open>s[i / 8] ^= (uint64_t) b << 8 * (i % 8)\<close>, and its inverse reading \<open>s[i / 8] >> 8 * (i % 8)\<close>.\<close>

definition xor_byte :: "nat \<Rightarrow> u8 \<Rightarrow> lanes \<Rightarrow> lanes" where
  "xor_byte i b s = s[i div 8 := s ! (i div 8) XOR shl (zext64 b) (8 * (i mod 8))]"

definition lane_byte :: "lanes \<Rightarrow> nat \<Rightarrow> u8" where
  "lane_byte s i = zext8 (shr (s ! (i div 8)) (8 * (i mod 8)))"

text \<open>
  The guards \<open>0 < r\<close> and \<open>pos \<le> r\<close> only exclude rates and positions for which the C loops would not
  end; every caller passes one of the four rates and a position it got from these functions.
\<close>

function keccak_absorb :: "lanes \<Rightarrow> nat \<Rightarrow> nat \<Rightarrow> u8 list \<Rightarrow> lanes \<times> nat" where
  "keccak_absorb s pos r inp =
     (if r \<le> pos + length inp \<and> 0 < r
      then let s = fold (\<lambda>i. xor_byte i (inp ! (i - pos))) [pos..<r] s;
               inp = drop (r - pos) inp;
               s = KeccakF1600_StatePermute s
           in keccak_absorb s 0 r inp
      else (fold (\<lambda>i. xor_byte i (inp ! (i - pos))) [pos..<pos + length inp] s, pos + length inp))"
  by pat_completeness auto
termination
  by (relation "measure (\<lambda>(s, pos, r, inp). 2 * length inp + (if pos = 0 then 0 else 1))") auto

definition keccak_finalize :: "lanes \<Rightarrow> nat \<Rightarrow> nat \<Rightarrow> u8 \<Rightarrow> lanes" where
  "keccak_finalize s pos r p =
     (let s = xor_byte pos p s
      in s[r div 8 - 1 := s ! (r div 8 - 1) XOR shl 1 63])"

function keccak_squeeze :: "nat \<Rightarrow> lanes \<Rightarrow> nat \<Rightarrow> nat \<Rightarrow> u8 list \<times> lanes \<times> nat" where
  "keccak_squeeze outlen s pos r =
     (if 0 < outlen \<and> pos \<le> r \<and> 0 < r
      then let (s, pos) = (if pos = r then (KeccakF1600_StatePermute s, 0) else (s, pos));
               i = min r (pos + outlen);
               out = map (lane_byte s) [pos..<i];
               (rest, s', pos') = keccak_squeeze (outlen - (i - pos)) s i r
           in (out @ rest, s', pos')
      else ([], s, pos))"
  by pat_completeness auto
termination
  by (relation "measure (\<lambda>(outlen, s, pos, r). outlen)") (auto split: if_splits)

text \<open>The block loop of \<open>keccak_absorb_once\<close>, with the input that is left.\<close>

function absorb_blocks :: "lanes \<Rightarrow> nat \<Rightarrow> u8 list \<Rightarrow> lanes \<times> u8 list" where
  "absorb_blocks s r inp =
     (if r \<le> length inp \<and> 0 < r
      then let s = fold (\<lambda>i s. s[i := s ! i XOR load64 inp (8 * i)]) [0..<r div 8] s
           in absorb_blocks (KeccakF1600_StatePermute s) r (drop r inp)
      else (s, inp))"
  by pat_completeness auto
termination
  by (relation "measure (\<lambda>(s, r, inp). length inp)") auto

definition keccak_absorb_once :: "nat \<Rightarrow> u8 list \<Rightarrow> u8 \<Rightarrow> lanes" where
  "keccak_absorb_once r inp p =
     (let s = replicate 25 0;
          (s, inp) = absorb_blocks s r inp;
          s = fold (\<lambda>i. xor_byte i (inp ! i)) [0..<length inp] s;
          s = xor_byte (length inp) p s
      in s[(r - 1) div 8 := s ! ((r - 1) div 8) XOR shl 1 63])"

fun keccak_squeezeblocks :: "nat \<Rightarrow> lanes \<Rightarrow> nat \<Rightarrow> u8 list \<times> lanes" where
  "keccak_squeezeblocks 0 s r = ([], s)"
| "keccak_squeezeblocks (Suc nblocks) s r =
     (let s = KeccakF1600_StatePermute s;
          out = concat (map (\<lambda>i. store64 (s ! i)) [0..<r div 8]);
          (rest, s') = keccak_squeezeblocks nblocks s r
      in (out @ rest, s'))"

definition shake128_init :: "keccak_state \<Rightarrow> keccak_state" where
  "shake128_init st = st\<lparr>ks_s := keccak_init (ks_s st), ks_pos := 0\<rparr>"

definition shake128_absorb :: "keccak_state \<Rightarrow> u8 list \<Rightarrow> keccak_state" where
  "shake128_absorb st inp =
     (let (s, pos) = keccak_absorb (ks_s st) (ks_pos st) SHAKE128_RATE inp
      in st\<lparr>ks_s := s, ks_pos := pos\<rparr>)"

definition shake128_finalize :: "keccak_state \<Rightarrow> keccak_state" where
  "shake128_finalize st =
     st\<lparr>ks_s := keccak_finalize (ks_s st) (ks_pos st) SHAKE128_RATE 0x1F, ks_pos := SHAKE128_RATE\<rparr>"

definition shake128_squeeze :: "nat \<Rightarrow> keccak_state \<Rightarrow> u8 list \<times> keccak_state" where
  "shake128_squeeze outlen st =
     (let (out, s, pos) = keccak_squeeze outlen (ks_s st) (ks_pos st) SHAKE128_RATE
      in (out, st\<lparr>ks_s := s, ks_pos := pos\<rparr>))"

definition shake128_absorb_once :: "u8 list \<Rightarrow> keccak_state" where
  "shake128_absorb_once inp =
     \<lparr>ks_s = keccak_absorb_once SHAKE128_RATE inp 0x1F, ks_pos = SHAKE128_RATE\<rparr>"

definition shake128_squeezeblocks :: "nat \<Rightarrow> keccak_state \<Rightarrow> u8 list \<times> keccak_state" where
  "shake128_squeezeblocks nblocks st =
     (let (out, s) = keccak_squeezeblocks nblocks (ks_s st) SHAKE128_RATE in (out, st\<lparr>ks_s := s\<rparr>))"

definition shake256_init :: "keccak_state \<Rightarrow> keccak_state" where
  "shake256_init st = st\<lparr>ks_s := keccak_init (ks_s st), ks_pos := 0\<rparr>"

definition shake256_absorb :: "keccak_state \<Rightarrow> u8 list \<Rightarrow> keccak_state" where
  "shake256_absorb st inp =
     (let (s, pos) = keccak_absorb (ks_s st) (ks_pos st) SHAKE256_RATE inp
      in st\<lparr>ks_s := s, ks_pos := pos\<rparr>)"

definition shake256_finalize :: "keccak_state \<Rightarrow> keccak_state" where
  "shake256_finalize st =
     st\<lparr>ks_s := keccak_finalize (ks_s st) (ks_pos st) SHAKE256_RATE 0x1F, ks_pos := SHAKE256_RATE\<rparr>"

definition shake256_squeeze :: "nat \<Rightarrow> keccak_state \<Rightarrow> u8 list \<times> keccak_state" where
  "shake256_squeeze outlen st =
     (let (out, s, pos) = keccak_squeeze outlen (ks_s st) (ks_pos st) SHAKE256_RATE
      in (out, st\<lparr>ks_s := s, ks_pos := pos\<rparr>))"

definition shake256_absorb_once :: "u8 list \<Rightarrow> keccak_state" where
  "shake256_absorb_once inp =
     \<lparr>ks_s = keccak_absorb_once SHAKE256_RATE inp 0x1F, ks_pos = SHAKE256_RATE\<rparr>"

definition shake256_squeezeblocks :: "nat \<Rightarrow> keccak_state \<Rightarrow> u8 list \<times> keccak_state" where
  "shake256_squeezeblocks nblocks st =
     (let (out, s) = keccak_squeezeblocks nblocks (ks_s st) SHAKE256_RATE in (out, st\<lparr>ks_s := s\<rparr>))"

definition shake128 :: "nat \<Rightarrow> u8 list \<Rightarrow> u8 list" where
  "shake128 outlen inp =
     (let state = shake128_absorb_once inp;
          nblocks = outlen div SHAKE128_RATE;
          (out, state) = shake128_squeezeblocks nblocks state;
          outlen = outlen - nblocks * SHAKE128_RATE;
          (out', state) = shake128_squeeze outlen state
      in out @ out')"

definition shake256 :: "nat \<Rightarrow> u8 list \<Rightarrow> u8 list" where
  "shake256 outlen inp =
     (let state = shake256_absorb_once inp;
          nblocks = outlen div SHAKE256_RATE;
          (out, state) = shake256_squeezeblocks nblocks state;
          outlen = outlen - nblocks * SHAKE256_RATE;
          (out', state) = shake256_squeeze outlen state
      in out @ out')"

definition sha3_256 :: "u8 list \<Rightarrow> u8 list" where
  "sha3_256 inp =
     (let s = keccak_absorb_once SHA3_256_RATE inp 0x06;
          s = KeccakF1600_StatePermute s
      in concat (map (\<lambda>i. store64 (s ! i)) [0..<4]))"

definition sha3_512 :: "u8 list \<Rightarrow> u8 list" where
  "sha3_512 inp =
     (let s = keccak_absorb_once SHA3_512_RATE inp 0x06;
          s = KeccakF1600_StatePermute s
      in concat (map (\<lambda>i. store64 (s ! i)) [0..<8]))"

declare keccak_absorb.simps [simp del] keccak_squeeze.simps [simp del] absorb_blocks.simps [simp del]

end
