(* ===== verification/Fips202_Correct.thy ===== *)
theory Fips202_Correct
  imports Fips202 Loops
begin

text \<open>
  Correctness of \<open>fips202.c\<close>.  The state is read as its 200 bytes; absorbing is compared with a
  byte-at-a-time sponge and squeezing with the byte stream of the successive states, from which the
  equality with the specification, the incremental interface and the block readers follow.
\<close>

section \<open>The bytes of a state\<close>

lemma length_xor_byte [simp]: "length (xor_byte i b s) = length s"
  by (simp add: xor_byte_def)

lemma length_fold_xor_byte [simp]: "length (fold (\<lambda>i. xor_byte i (f i)) is s) = length s"
  by (induction "is" arbitrary: s) simp_all

lemma bit_lane_byte: "n < 8 \<Longrightarrow> bit (lane_byte s j) n = bit (s ! (j div 8)) (8 * (j mod 8) + n)"
  by (simp add: lane_byte_def bit_fields)

lemma lane_byte_xor_byte:
  assumes "length s = 25" "i < 200" "j < 200"
  shows "lane_byte (xor_byte i b s) j = lane_byte s j XOR (if i = j then b else 0)"
proof (rule word_eq_bits)
  fix n
  assume "n < LENGTH(8)"
  then have n: "n < 8" by simp
  have ij: "i div 8 < 25" "j div 8 < 25" using assms by simp_all
  show "bit (lane_byte (xor_byte i b s) j) n = bit (lane_byte s j XOR (if i = j then b else 0)) n"
  proof (cases "i div 8 = j div 8")
    case True
    have b: "bit (shl (zext64 b) (8 * (i mod 8))) (8 * (j mod 8) + n) = (i = j \<and> bit b n)"
    proof (cases "i mod 8 = j mod 8")
      case True
      have "i = j" using \<open>i div 8 = j div 8\<close> True by (metis div_mult_mod_eq)
      have "8 * (j mod 8) + n < 64" using n by linarith
      then show ?thesis using True \<open>i = j\<close> n by (simp add: bit_fields)
    next
      case False
      consider "i mod 8 < j mod 8" | "j mod 8 < i mod 8" using False by linarith
      then have "\<not> bit (shl (zext64 b) (8 * (i mod 8))) (8 * (j mod 8) + n)"
      proof cases
        case 1
        then have "8 \<le> 8 * (j mod 8) + n - 8 * (i mod 8)" by linarith
        then show ?thesis by (auto simp: bit_fields)
      next
        case 2
        then have "\<not> 8 * (i mod 8) \<le> 8 * (j mod 8) + n" using n by linarith
        then show ?thesis by (simp add: bit_fields)
      qed
      then show ?thesis using False by auto
    qed
    show ?thesis using True n ij assms(1) by (simp add: bit_lane_byte xor_byte_def bit_xor_iff b)
  next
    case False
    then have "i \<noteq> j" by auto
    then show ?thesis using False n ij assms(1) by (simp add: bit_lane_byte xor_byte_def)
  qed
qed

lemma state_eqI:
  assumes "length s = 25" "length t = 25" "\<And>j. j < 200 \<Longrightarrow> lane_byte s j = lane_byte t j"
  shows "s = t"
proof (rule nth_equalityI)
  fix i
  assume "i < length s"
  then have i: "i < 25" using assms by simp
  show "s ! i = t ! i"
  proof (rule word_eq_bits)
    fix n
    assume "n < LENGTH(64)"
    then have n: "n < 64" by simp
    let ?j = "8 * i + n div 8"
    have d: "n div 8 < 8" using n by simp
    have "bit (lane_byte s ?j) (n mod 8) = bit (lane_byte t ?j) (n mod 8)" using assms(3) [of ?j] i d by simp
    then show "bit (s ! i) n = bit (t ! i) n" using d by (simp add: bit_lane_byte)
  qed
qed (use assms in simp)

lemma lane_byte_fold:
  assumes "length s = 25" "b \<le> 200" "j < 200"
  shows "lane_byte (fold (\<lambda>i. xor_byte i (f i)) [a..<b] s) j = lane_byte s j XOR (if a \<le> j \<and> j < b then f j else 0)"
  using assms(2)
proof (induction b)
  case (Suc b)
  show ?case
  proof (cases "a \<le> b")
    case True
    then show ?thesis using Suc assms by (auto simp: lane_byte_xor_byte xor.assoc less_Suc_eq)
  qed (auto simp: less_Suc_eq)
qed simp

lemma bit_load64:
  assumes "n < 64"
  shows "bit (load64 x off) n = bit (x ! (off + n div 8)) (n mod 8)"
proof -
  define i j where "i = n div 8" and "j = n mod 8"
  have ij: "i < 8" "j < 8" "n = 8 * i + j" using assms by (simp_all add: i_def j_def)
  have b: "bit (shl (zext64 (x ! (off + k))) (8 * k)) n = (8 * k \<le> n \<and> n - 8 * k < 8 \<and> bit (x ! (off + k)) (n - 8 * k))"
    for k using assms bit_imp_le_length [of "x ! (off + k)" "n - 8 * k"]
    by (auto simp: bit_push_bit_iff bit_unsigned_iff)
  have "bit (load64 x off) n = (\<exists>k \<in> set [0..<8]. bit (shl (zext64 (x ! (off + k))) (8 * k)) n)"
    unfolding load64_def by (simp only: bit_fold_or) simp
  also have "\<dots> = (\<exists>k<8. 8 * k \<le> n \<and> n - 8 * k < 8 \<and> bit (x ! (off + k)) (n - 8 * k))"
    unfolding b by auto
  also have "\<dots> = bit (x ! (off + i)) j"
  proof -
    have "(8 * k \<le> n \<and> n - 8 * k < 8 \<and> bit (x ! (off + k)) (n - 8 * k)) = (k = i \<and> bit (x ! (off + i)) j)" for k
    proof (cases "k = i")
      case False
      then have "\<not> (8 * k \<le> n \<and> n - 8 * k < 8)" using ij by linarith
      then show ?thesis using False by blast
    qed (use ij in simp)
    then show ?thesis using ij(1) by simp
  qed
  finally show ?thesis by (simp add: i_def j_def)
qed

lemma load64_block:
  assumes "length s = 25" "m \<le> 25"
  shows "fold (\<lambda>i s. s[i := s ! i XOR load64 x (8 * i)]) [0..<m] s = fold (\<lambda>i. xor_byte i (x ! i)) [0..<8 * m] s"
proof -
  let ?f = "\<lambda>m. fold (\<lambda>i s. s[i := s ! i XOR load64 x (8 * i)]) [0..<m] s"
  have l: "length (?f m) = 25" for m using assms(1) by (induction m) simp_all
  have "lane_byte (?f m) j = lane_byte s j XOR (if j < 8 * m then x ! j else 0)" if j: "j < 200" for j
    using assms(2)
  proof (induction m)
    case (Suc m)
    have "lane_byte ((?f m)[m := ?f m ! m XOR load64 x (8 * m)]) j =
        lane_byte (?f m) j XOR (if j div 8 = m then x ! j else 0)"
    proof (rule word_eq_bits)
      fix n
      assume "n < LENGTH(8)"
      then have n: "n < 8" by simp
      have "8 * (j mod 8) + n < 64" using n by linarith
      moreover have "(8 * (j mod 8) + n) div 8 = j mod 8" "(8 * (j mod 8) + n) mod 8 = n" using n by simp_all
      ultimately have "bit (load64 x (8 * (j div 8))) (8 * (j mod 8) + n) = bit (x ! j) n"
        by (simp add: bit_load64)
      then show "bit (lane_byte ((?f m)[m := ?f m ! m XOR load64 x (8 * m)]) j) n =
          bit (lane_byte (?f m) j XOR (if j div 8 = m then x ! j else 0)) n"
        using n Suc.prems l [of m] by (auto simp: bit_lane_byte bit_xor_iff nth_list_update)
    qed
    moreover have "j div 8 = m \<longleftrightarrow> \<not> j < 8 * m \<and> j < 8 * Suc m"
      by (auto simp: less_Suc_eq_le dividend_less_div_times div_less_iff_less_mult mult.commute intro!: antisym)
    ultimately show ?case using Suc by auto
  qed simp
  then show ?thesis using assms l by (intro state_eqI) (simp_all add: lane_byte_fold)
qed

lemma nth_store64: "i < 8 \<Longrightarrow> store64 (s ! k) ! i = lane_byte s (8 * k + i)"
  by (simp add: store64_def lane_byte_def)

lemma store64_concat: "concat (map (\<lambda>i. store64 (s ! i)) [0..<m]) = map (lane_byte s) [0..<8 * m]"
proof (rule nth_equalityI)
  show "length (concat (map (\<lambda>i. store64 (s ! i)) [0..<m])) = length (map (lane_byte s) [0..<8 * m])"
    by (simp add: length_concat_chunks [where w = 8] store64_def)
next
  fix p
  assume "p < length (concat (map (\<lambda>i. store64 (s ! i)) [0..<m]))"
  then have p: "p < 8 * m" by (simp add: length_concat_chunks [where w = 8] store64_def)
  have "concat (map (\<lambda>i. store64 (s ! i)) [0..<m]) ! (8 * (p div 8) + p mod 8) = store64 (s ! (p div 8)) ! (p mod 8)"
    using p by (intro nth_concat_chunks) (auto simp: store64_def)
  then show "concat (map (\<lambda>i. store64 (s ! i)) [0..<m]) ! p = map (lane_byte s) [0..<8 * m] ! p"
    using p by (simp add: nth_store64)
qed

section \<open>Absorbing byte by byte\<close>

text \<open>
  One byte into the sponge: the reference the block loops are compared with.  It makes the incremental
  interface a fold, so that splitting the input does not matter.
\<close>

fun absorb_byte :: "nat \<Rightarrow> u8 \<Rightarrow> lanes \<times> nat \<Rightarrow> lanes \<times> nat" where
  "absorb_byte r b (s, pos) =
     (if Suc pos = r then (KeccakF1600_StatePermute (xor_byte pos b s), 0) else (xor_byte pos b s, Suc pos))"

abbreviation xor_bytes :: "nat \<Rightarrow> u8 list \<Rightarrow> lanes \<Rightarrow> lanes" where
  "xor_bytes pos bs s \<equiv> fold (\<lambda>i. xor_byte i (bs ! (i - pos))) [pos..<pos + length bs] s"

lemma xor_bytes_snoc: "xor_bytes pos (bs @ [b]) s = xor_byte (pos + length bs) b (xor_bytes pos bs s)"
proof -
  have "fold (\<lambda>i. xor_byte i ((bs @ [b]) ! (i - pos))) [pos..<pos + length bs] s = xor_bytes pos bs s"
    by (intro fold_cong) (auto simp: nth_append)
  then show ?thesis by (simp add: nth_append)
qed

lemma absorb_partial:
  "pos + length bs < r \<Longrightarrow> fold (absorb_byte r) bs (s, pos) = (xor_bytes pos bs s, pos + length bs)"
proof (induction bs rule: rev_induct)
  case (snoc b bs)
  then have IH: "fold (absorb_byte r) bs (s, pos) = (xor_bytes pos bs s, pos + length bs)" by simp
  have "fold (absorb_byte r) (bs @ [b]) (s, pos) = absorb_byte r b (xor_bytes pos bs s, pos + length bs)"
    by (simp add: IH del: absorb_byte.simps)
  also have "\<dots> = (xor_bytes pos (bs @ [b]) s, Suc (pos + length bs))"
    unfolding xor_bytes_snoc using snoc.prems by simp
  finally show ?case by simp
qed simp

lemma absorb_full:
  assumes "pos + length bs = r" "bs \<noteq> []"
  shows "fold (absorb_byte r) bs (s, pos) = (KeccakF1600_StatePermute (xor_bytes pos bs s), 0)"
proof -
  obtain cs b where bs: "bs = cs @ [b]" using assms(2) by (metis rev_exhaust)
  then have "fold (absorb_byte r) cs (s, pos) = (xor_bytes pos cs s, pos + length cs)"
    using assms by (intro absorb_partial) simp
  then have "fold (absorb_byte r) bs (s, pos) = absorb_byte r b (xor_bytes pos cs s, pos + length cs)"
    by (simp add: bs del: absorb_byte.simps)
  also have "\<dots> = (KeccakF1600_StatePermute (xor_bytes pos bs s), 0)"
    unfolding bs xor_bytes_snoc using assms bs by simp
  finally show ?thesis .
qed

lemma keccak_absorb_fold: "pos < r \<Longrightarrow> keccak_absorb s pos r inp = fold (absorb_byte r) inp (s, pos)"
proof (induction s pos r inp rule: keccak_absorb.induct)
  case (1 s pos r inp)
  show ?case
  proof (cases "r \<le> pos + length inp")
    case True
    define n where "n = r - pos"
    let ?a = "take n inp"
    have a: "pos + length ?a = r" "?a \<noteq> []" using True 1(2) by (auto simp: n_def)
    have x: "fold (\<lambda>i. xor_byte i (inp ! (i - pos))) [pos..<r] s = xor_bytes pos ?a s"
      unfolding a(1) by (intro fold_cong) (auto simp: n_def)
    have "keccak_absorb s pos r inp = keccak_absorb (KeccakF1600_StatePermute (xor_bytes pos ?a s)) 0 r (drop n inp)"
      using True 1(2) by (subst keccak_absorb.simps) (simp add: Let_def x n_def)
    also have "\<dots> = fold (absorb_byte r) (drop n inp) (KeccakF1600_StatePermute (xor_bytes pos ?a s), 0)"
      using 1(1) [OF _ refl refl refl] True 1(2) by (simp add: x n_def)
    also have "\<dots> = fold (absorb_byte r) (drop n inp) (fold (absorb_byte r) ?a (s, pos))"
      using absorb_full [OF a] by simp
    also have "\<dots> = fold (absorb_byte r) (?a @ drop n inp) (s, pos)" by (simp only: fold_append comp_def)
    finally show ?thesis by simp
  next
    case False
    then show ?thesis by (subst keccak_absorb.simps) (simp add: absorb_partial)
  qed
qed

lemma absorb_byte_pos: "pos < r \<Longrightarrow> snd (fold (absorb_byte r) bs (s, pos)) = (pos + length bs) mod r"
proof (induction bs arbitrary: s pos)
  case (Cons b bs)
  show ?case
  proof (cases "Suc pos = r")
    case True
    then have "snd (fold (absorb_byte r) (b # bs) (s, pos)) = length bs mod r"
      using Cons.IH [of 0] Cons.prems by simp
    also have "\<dots> = (pos + length (b # bs)) mod r" using True by (metis add_Suc_right add_Suc length_Cons mod_add_self1)
    finally show ?thesis .
  next
    case False
    then show ?thesis using Cons.IH [of "Suc pos"] Cons.prems by simp
  qed
qed simp

lemma absorb_byte_length: "length s = 25 \<Longrightarrow> length (fst (fold (absorb_byte r) bs (s, pos))) = 25"
  by (induction bs arbitrary: s pos) simp_all

lemma absorb_blocks_fold:
  shows "0 < r \<Longrightarrow> 8 dvd r \<Longrightarrow> r \<le> 200 \<Longrightarrow> length s = 25 \<Longrightarrow> absorb_blocks s r inp = (s', rest) \<Longrightarrow>
    fold (absorb_byte r) inp (s, 0) = (xor_bytes 0 rest s', length rest) \<and> length rest < r"
proof (induction s r inp arbitrary: s' rest rule: absorb_blocks.induct)
  case (1 s r inp)
  note r = 1(2-4) and ih = 1(1) and s = 1(5) and ab = 1(6)
  show ?case
  proof (cases "r \<le> length inp")
    case True
    let ?a = "take r inp" and ?s = "fold (\<lambda>i s. s[i := s ! i XOR load64 inp (8 * i)]) [0..<r div 8] s"
    have a: "0 + length ?a = r" "?a \<noteq> []" using True r(1) by auto
    have "?s = fold (\<lambda>i. xor_byte i (inp ! i)) [0..<8 * (r div 8)] s"
      using s r by (intro load64_block) auto
    also have "8 * (r div 8) = r" using r(2) by simp
    also have "fold (\<lambda>i. xor_byte i (inp ! i)) [0..<r] s = xor_bytes 0 ?a s"
      unfolding a(1) by (intro fold_cong) auto
    finally have x: "?s = xor_bytes 0 ?a s" .
    have "absorb_blocks (KeccakF1600_StatePermute ?s) r (drop r inp) = (s', rest)"
      using ab True r(1) by (subst (asm) absorb_blocks.simps) (simp add: Let_def)
    moreover have "length (KeccakF1600_StatePermute ?s) = 25" unfolding x using s by simp
    ultimately have "fold (absorb_byte r) (drop r inp) (KeccakF1600_StatePermute ?s, 0) =
        (xor_bytes 0 rest s', length rest) \<and> length rest < r"
      using ih True r by blast
    moreover have "fold (absorb_byte r) inp (s, 0) = fold (absorb_byte r) (drop r inp) (fold (absorb_byte r) ?a (s, 0))"
      by (metis append_take_drop_id fold_append comp_def)
    ultimately show ?thesis using absorb_full [OF a, of s] x by simp
  next
    case False
    then show ?thesis using ab absorb_partial [of 0 inp r s]
      by (subst (asm) absorb_blocks.simps) auto
  qed
qed

lemma xor_byte_top: "0 < r \<Longrightarrow> 8 dvd r \<Longrightarrow> s[r div 8 - 1 := s ! (r div 8 - 1) XOR shl 1 63] = xor_byte (r - 1) 0x80 s"
proof -
  assume r: "0 < r" "8 dvd r"
  from r(2) obtain k where k: "r = 8 * k" by (elim dvdE)
  then obtain m where m: "r = 8 * Suc m" using r(1) by (cases k) auto
  have "(r - 1) div 8 = m" "(r - 1) mod 8 = 7" unfolding m by simp_all
  then show ?thesis using m by (simp add: xor_byte_def push_bit_eq_mult)
qed

lemma keccak_absorb_once_eq:
  assumes r: "0 < r" "8 dvd r" "r \<le> 200"
  shows "keccak_absorb_once r inp p =
    (let (s, pos) = fold (absorb_byte r) inp (replicate 25 0, 0) in keccak_finalize s pos r p)"
proof -
  obtain s' rest where ab: "absorb_blocks (replicate 25 0) r inp = (s', rest)" by fastforce
  have "(r - 1) div 8 = r div 8 - 1" using r(1,2) by (auto elim!: dvdE)
  then show ?thesis
    using absorb_blocks_fold [OF r _ ab] ab by (simp add: keccak_absorb_once_def keccak_finalize_def Let_def)
qed

section \<open>The sponge construction\<close>

text \<open>
  FIPS 202: the message with the domain suffix and the padding \<open>10*1\<close>, absorbed block by block, and the
  output read from the successive states.
\<close>

definition sponge_pad :: "nat \<Rightarrow> u8 \<Rightarrow> u8 list \<Rightarrow> u8 list" where
  "sponge_pad r p m =
     (let z = r - length m mod r; pad = (replicate z 0)[0 := p]
      in m @ pad[z - 1 := pad ! (z - 1) XOR 0x80])"

definition sponge_absorb :: "nat \<Rightarrow> u8 list \<Rightarrow> lanes \<Rightarrow> lanes" where
  "sponge_absorb r m s =
     fold (\<lambda>k s. keccak_f (fold (\<lambda>i. xor_byte i (chunk r k m ! i)) [0..<r] s)) [0..<length m div r] s"

definition sponge_squeeze :: "nat \<Rightarrow> nat \<Rightarrow> lanes \<Rightarrow> u8 list" where
  "sponge_squeeze r n s = map (\<lambda>k. lane_byte ((keccak_f ^^ (k div r)) s) (k mod r)) [0..<n]"

definition xof_spec :: "nat \<Rightarrow> u8 \<Rightarrow> nat \<Rightarrow> u8 list \<Rightarrow> u8 list" where
  "xof_spec r p n m = sponge_squeeze r n (sponge_absorb r (sponge_pad r p m) (replicate 25 0))"

lemma keccak_f_eq: "length s = 25 \<Longrightarrow> keccak_f s = KeccakF1600_StatePermute s"
  using KeccakF1600_rounds keccak_f_table by simp

lemma length_funpow_keccak: "length s = 25 \<Longrightarrow> length ((KeccakF1600_StatePermute ^^ n) s) = 25"
  by (induction n) simp_all

lemma funpow_keccak_f: "length s = 25 \<Longrightarrow> (keccak_f ^^ n) s = (KeccakF1600_StatePermute ^^ n) s"
  by (induction n) (simp_all add: keccak_f_eq length_funpow_keccak)

lemma absorb_whole_blocks:
  assumes "0 < r" "length s = 25"
  shows "length m = n * r \<Longrightarrow> fold (absorb_byte r) m (s, 0) =
    (fold (\<lambda>k s. keccak_f (fold (\<lambda>i. xor_byte i (chunk r k m ! i)) [0..<r] s)) [0..<n] s, 0)"
proof (induction n arbitrary: m)
  case (Suc n)
  let ?f = "\<lambda>m k s. keccak_f (fold (\<lambda>i. xor_byte i (chunk r k m ! i)) [0..<r] s)"
  define a b where "a = take (n * r) m" and "b = chunk r n m"
  have la: "length a = n * r" using Suc.prems by (simp add: a_def)
  have ab: "m = a @ b"
  proof (rule nth_equalityI)
    fix i
    assume "i < length m"
    then show "m ! i = (a @ b) ! i"
      using Suc.prems by (auto simp: a_def b_def nth_append mult.commute)
  qed (use Suc.prems in \<open>simp add: a_def b_def\<close>)
  have e: "fold (?f a) [0..<n] s = fold (?f m) [0..<n] s"
  proof (intro fold_cong refl)
    fix k
    assume "k \<in> set [0..<n]"
    then have k: "k < n" by simp
    have "chunk r k a = chunk r k m"
    proof (rule nth_equalityI)
      fix i
      assume "i < length (chunk r k a)"
      then have i: "i < r" by simp
      have "r * k + i < r * Suc k" using i by simp
      also have "\<dots> \<le> r * n" using k by (intro mult_left_mono) auto
      finally show "chunk r k a ! i = chunk r k m ! i" using i by (simp add: a_def mult.commute)
    qed simp
    then show "?f a k = ?f m k" by simp
  qed
  let ?s = "fold (?f m) [0..<n] s"
  have l: "length (fold (?f x) ks s) = 25" for x ks
  proof -
    have "length u = 25 \<Longrightarrow> length (fold (?f x) ks u) = 25" for u
      by (induction ks arbitrary: u) (simp_all add: keccak_f_eq)
    then show ?thesis using assms(2) .
  qed
  have "b \<noteq> []" "0 + length b = r" using assms(1) by (auto simp: b_def simp flip: length_0_conv)
  note blk = absorb_full [OF this(2,1)]
  have "fold (absorb_byte r) m (s, 0) = fold (absorb_byte r) b (?s, 0)"
    using Suc.IH [OF la] e by (simp add: ab)
  also have "\<dots> = (KeccakF1600_StatePermute (fold (\<lambda>i. xor_byte i (b ! i)) [0..<r] ?s), 0)"
    using blk [of ?s] by (simp add: b_def)
  also have "\<dots> = (?f m n ?s, 0)" by (simp add: keccak_f_eq l b_def)
  finally show ?case by simp
qed simp

lemma finalize_pad:
  assumes r: "0 < r" "8 dvd r" "r \<le> 200" and pos: "pos < r" and s: "length s = 25" and pad: "length pad = r - pos"
    and nth: "\<And>i. i < r - pos \<Longrightarrow> pad ! i = (if i = 0 then p else 0) XOR (if i = r - pos - 1 then 0x80 else 0)"
  shows "xor_bytes pos pad s = keccak_finalize s pos r p"
proof (rule state_eqI)
  show "length (xor_bytes pos pad s) = 25" "length (keccak_finalize s pos r p) = 25"
    using s by (simp_all add: keccak_finalize_def Let_def)
  fix j :: nat
  assume j: "j < 200"
  have "lane_byte (xor_bytes pos pad s) j = lane_byte s j XOR (if pos \<le> j \<and> j < r then pad ! (j - pos) else 0)"
    using lane_byte_fold [OF s _ j, of "pos + length pad" "\<lambda>i. pad ! (i - pos)" pos] r(3) pos pad by simp
  also have "(if pos \<le> j \<and> j < r then pad ! (j - pos) else 0) =
      (if pos = j then p else 0) XOR (if r - 1 = j then 0x80 else 0)"
  proof (cases "pos \<le> j \<and> j < r")
    case True
    then have "j - pos < r - pos" "(j - pos = 0) = (pos = j)" "(j - pos = r - pos - 1) = (r - 1 = j)" by auto
    then show ?thesis using nth [of "j - pos"] True by simp
  next
    case False
    then have "pos \<noteq> j" "r - 1 \<noteq> j" using pos by auto
    then show ?thesis using False by auto
  qed
  also have "lane_byte s j XOR \<dots> = lane_byte (xor_byte (r - 1) 0x80 (xor_byte pos p s)) j"
    using s r(1,3) pos j by (simp add: lane_byte_xor_byte xor.assoc)
  also have "\<dots> = lane_byte (keccak_finalize s pos r p) j"
    using xor_byte_top [OF r(1,2), of "xor_byte pos p s"] by (simp add: keccak_finalize_def Let_def)
  finally show "lane_byte (xor_bytes pos pad s) j = lane_byte (keccak_finalize s pos r p) j" .
qed

lemma sponge_pad_absorb:
  assumes r: "0 < r" "8 dvd r" "r \<le> 200"
  shows "sponge_absorb r (sponge_pad r p m) (replicate 25 0) = KeccakF1600_StatePermute (keccak_absorb_once r m p)"
proof -
  define z where "z = r - length m mod r"
  define pad where "pad = ((replicate z (0 :: u8))[0 := p])[z - 1 := (replicate z 0)[0 := p] ! (z - 1) XOR 0x80]"
  have z: "0 < z" "z \<le> r" using r(1) by (simp_all add: z_def)
  have mp: "sponge_pad r p m = m @ pad" by (simp add: sponge_pad_def Let_def z_def pad_def)
  have lp: "length pad = z" by (simp add: pad_def)
  have n: "length (m @ pad) = (length m div r + 1) * r"
  proof -
    have "length m mod r + z = r" using r(1) by (simp add: z_def order_less_imp_le)
    moreover have "length m = length m div r * r + length m mod r" by simp
    ultimately have "length m + z = length m div r * r + r" by linarith
    also have "\<dots> = (length m div r + 1) * r" by simp
    finally show ?thesis using lp by simp
  qed
  obtain s pos where sp: "fold (absorb_byte r) m (replicate 25 0, 0) = (s, pos)" by fastforce
  have pos: "pos = length m mod r" "pos < r" using absorb_byte_pos [of 0 r m "replicate 25 0"] r(1) sp by simp_all
  have ls: "length s = 25" using absorb_byte_length [of "replicate 25 0" r m 0] sp by simp
  have zp: "z = r - pos" by (simp add: z_def pos)
  have fin: "xor_bytes pos pad s = keccak_finalize s pos r p"
    using r pos(2) ls z zp by (intro finalize_pad) (auto simp: pad_def nth_list_update)
  have "pad \<noteq> []" "pos + length pad = r" using lp z zp pos by auto
  then have "fold (absorb_byte r) (m @ pad) (replicate 25 0, 0) = (KeccakF1600_StatePermute (keccak_finalize s pos r p), 0)"
    using absorb_full [of pos pad r s] unfolding fin by (simp add: sp)
  moreover have "length (m @ pad) div r = length m div r + 1" unfolding n using r(1) by simp
  ultimately show ?thesis
    using absorb_whole_blocks [OF r(1) _ n, of "replicate 25 0"] keccak_absorb_once_eq [OF r, of m p] sp
    unfolding sponge_absorb_def mp by simp
qed

section \<open>Squeezing\<close>

text \<open>Byte \<open>k\<close> of the output that starts at the beginning of the block of state \<open>s\<close>.\<close>

definition squeeze_byte :: "nat \<Rightarrow> lanes \<Rightarrow> nat \<Rightarrow> u8" where
  "squeeze_byte r s k = lane_byte ((KeccakF1600_StatePermute ^^ (k div r)) s) (k mod r)"

lemma funpow_block: "0 < r \<Longrightarrow> (f ^^ ((r + k) div r)) s = (f ^^ (k div r)) (f s)" for r k :: nat
proof -
  assume "0 < r"
  then have "(r + k) div r = Suc (k div r)" by (simp add: div_add_self1)
  then show ?thesis by (simp add: funpow_swap1)
qed

lemma squeeze_byte_next: "0 < r \<Longrightarrow> squeeze_byte r s (r + k) = squeeze_byte r (KeccakF1600_StatePermute s) k"
  by (simp add: squeeze_byte_def funpow_block)

lemma keccak_squeeze_state:
  assumes "0 < r" "pos \<le> r"
  shows "keccak_squeeze n s pos r =
    (map (\<lambda>k. squeeze_byte r s (pos + k)) [0..<n],
     if n = 0 then s else (KeccakF1600_StatePermute ^^ ((pos + n - 1) div r)) s,
     if n = 0 then pos else (pos + n - 1) mod r + 1)"
  using assms
proof (induction n s pos r rule: keccak_squeeze.induct)
  case (1 n s pos r)
  note r = 1(2,3) and ih = 1(1)
  show ?case
  proof (cases "n = 0")
    case True
    then show ?thesis by (simp add: keccak_squeeze.simps)
  next
    case n: False
    define s1 p1 where "s1 = (if pos = r then KeccakF1600_StatePermute s else s)" and "p1 = (if pos = r then 0 else pos)"
    define i where "i = min r (p1 + n)"
    have p1: "p1 < r" "p1 < i" "i \<le> r" "i \<le> p1 + n" using r n by (auto simp: p1_def i_def)
    have sh: "squeeze_byte r s (pos + k) = squeeze_byte r s1 (p1 + k)" for k
      using squeeze_byte_next [OF r(1), of s k] by (simp add: s1_def p1_def)
    have st: "(KeccakF1600_StatePermute ^^ ((pos + k) div r)) s = (KeccakF1600_StatePermute ^^ ((p1 + k) div r)) s1"
      "(pos + k) mod r = (p1 + k) mod r" for k
      using r(1) by (simp_all add: s1_def p1_def funpow_block)
    have e: "keccak_squeeze n s pos r = (let (rest, s', pos') = keccak_squeeze (n - (i - p1)) s1 i r
        in (map (lane_byte s1) [p1..<i] @ rest, s', pos'))"
      using n r by (subst keccak_squeeze.simps) (simp add: s1_def p1_def i_def Let_def)
    have IH: "keccak_squeeze (n - (i - p1)) s1 i r =
      (map (\<lambda>k. squeeze_byte r s1 (i + k)) [0..<n - (i - p1)],
       if n - (i - p1) = 0 then s1 else (KeccakF1600_StatePermute ^^ ((i + (n - (i - p1)) - 1) div r)) s1,
       if n - (i - p1) = 0 then i else (i + (n - (i - p1)) - 1) mod r + 1)"
      using n r p1(3) by (intro ih) (auto simp: s1_def p1_def i_def)
    have out: "map (lane_byte s1) [p1..<i] @ map (\<lambda>k. squeeze_byte r s1 (i + k)) [0..<n - (i - p1)] =
        map (\<lambda>k. squeeze_byte r s (pos + k)) [0..<n]"
    proof (rule nth_equalityI)
      fix k
      assume "k < length (map (lane_byte s1) [p1..<i] @ map (\<lambda>k. squeeze_byte r s1 (i + k)) [0..<n - (i - p1)])"
      then have k: "k < n" using p1 by simp
      have "lane_byte s1 (p1 + k) = squeeze_byte r s1 (p1 + k)" if "p1 + k < i"
        using that p1(3) by (simp add: squeeze_byte_def)
      then show "(map (lane_byte s1) [p1..<i] @ map (\<lambda>k. squeeze_byte r s1 (i + k)) [0..<n - (i - p1)]) ! k =
          map (\<lambda>k. squeeze_byte r s (pos + k)) [0..<n] ! k"
        using k p1 by (auto simp: nth_append sh add.commute [of k])
    qed (use p1 in simp)
    have l: "i + (n - (i - p1)) = p1 + n" using p1 by simp
    have q: "(KeccakF1600_StatePermute ^^ ((pos + n - 1) div r)) s = (KeccakF1600_StatePermute ^^ ((p1 + n - 1) div r)) s1"
      "(pos + n - 1) mod r = (p1 + n - 1) mod r" using st [of "n - 1"] n by simp_all
    show ?thesis
    proof (cases "n - (i - p1) = 0")
      case True
      then have "i = p1 + n" using p1 by simp
      then have "(p1 + n - 1) div r = 0" "(p1 + n - 1) mod r + 1 = i" using p1 n by simp_all
      then show ?thesis unfolding e IH q using True n out by simp
    next
      case False
      then show ?thesis unfolding e IH q l using n out by simp
    qed
  qed
qed

lemma keccak_squeezeblocks_eq:
  assumes "0 < r" "8 dvd r"
  shows "keccak_squeezeblocks n s r =
    (map (\<lambda>k. squeeze_byte r s (r + k)) [0..<n * r], (KeccakF1600_StatePermute ^^ n) s)"
proof (induction n arbitrary: s)
  case (Suc n)
  let ?s = "KeccakF1600_StatePermute s"
  have "concat (map (\<lambda>i. store64 (?s ! i)) [0..<r div 8]) = map (lane_byte ?s) [0..<r]"
    using assms(2) by (simp add: store64_concat)
  moreover have "map (lane_byte ?s) [0..<r] @ map (\<lambda>k. squeeze_byte r ?s (r + k)) [0..<n * r] =
      map (\<lambda>k. squeeze_byte r s (r + k)) [0..<Suc n * r]"
  proof (rule nth_equalityI)
    fix k
    assume "k < length (map (lane_byte ?s) [0..<r] @ map (\<lambda>k. squeeze_byte r ?s (r + k)) [0..<n * r])"
    then have k: "k < Suc n * r" by simp
    show "(map (lane_byte ?s) [0..<r] @ map (\<lambda>k. squeeze_byte r ?s (r + k)) [0..<n * r]) ! k =
        map (\<lambda>k. squeeze_byte r s (r + k)) [0..<Suc n * r] ! k"
    proof (cases "k < r")
      case True
      then show ?thesis using k by (simp add: nth_append squeeze_byte_next [OF assms(1)]) (simp add: squeeze_byte_def)
    next
      case False
      then have "k - r < n * r" using k by simp
      with False have "(map (lane_byte ?s) [0..<r] @ map (\<lambda>k. squeeze_byte r ?s (r + k)) [0..<n * r]) ! k = squeeze_byte r ?s k"
        using k by (simp add: nth_append)
      then show ?thesis using k by (simp add: squeeze_byte_next [OF assms(1)])
    qed
  qed simp
  ultimately show ?case using Suc.IH [of ?s] by (simp add: Let_def funpow_swap1)
qed simp

end
