(* ===== verification/Fips202_Api.thy ===== *)
theory Fips202_Api
  imports Fips202_Correct
begin

text \<open>
  The functions of \<open>fips202.h\<close> against the standard: SHAKE and SHA3 in one shot, the incremental
  interface, and the block readers the rejection samplers use, stated as the locale \<open>xof_blocks\<close>.
\<close>

lemma squeeze_byte_skip: "0 < r \<Longrightarrow> squeeze_byte r ((KeccakF1600_StatePermute ^^ q) s) k = squeeze_byte r s (q * r + k)"
proof (induction q arbitrary: s)
  case (Suc q)
  have "squeeze_byte r s (Suc q * r + k) = squeeze_byte r (KeccakF1600_StatePermute s) (q * r + k)"
    using squeeze_byte_next [OF Suc.prems, of s "q * r + k"] by (simp add: add.assoc)
  then show ?case using Suc.IH [OF Suc.prems, of "KeccakF1600_StatePermute s"] by (simp add: funpow_swap1)
qed simp

text \<open>Squeezing continues where the previous call stopped.\<close>

lemma keccak_squeeze_next:
  assumes "0 < r" "pos \<le> r" "keccak_squeeze n s pos r = (out, s', pos')"
  shows "out = map (\<lambda>k. squeeze_byte r s (pos + k)) [0..<n]" "pos' \<le> r"
    "squeeze_byte r s' (pos' + k) = squeeze_byte r s (pos + n + k)"
proof -
  note e = keccak_squeeze_state [OF assms(1,2), of n s, unfolded assms(3)]
  show "out = map (\<lambda>k. squeeze_byte r s (pos + k)) [0..<n]" using e by simp
  show "pos' \<le> r" using e assms(1,2) by (auto simp: Suc_le_eq)
  show "squeeze_byte r s' (pos' + k) = squeeze_byte r s (pos + n + k)"
  proof (cases "n = 0")
    case False
    let ?m = "pos + n - 1"
    have "squeeze_byte r s' (pos' + k) = squeeze_byte r s (?m div r * r + (?m mod r + 1 + k))"
      using e False squeeze_byte_skip [OF assms(1)] by simp
    also have "?m div r * r + (?m mod r + 1 + k) = pos + n + k" using False by simp
    finally show ?thesis .
  qed (use e in simp)
qed

lemma length_keccak_absorb_once [simp]:
  assumes "0 < r" "8 dvd r" "r \<le> 200"
  shows "length (keccak_absorb_once r m p) = 25"
  using absorb_byte_length [of "replicate 25 0" r m 0]
  by (cases "fold (absorb_byte r) m (replicate 25 0, 0)")
    (simp add: keccak_absorb_once_eq [OF assms] keccak_finalize_def Let_def)

lemma xof_spec_bytes:
  assumes "0 < r" "8 dvd r" "r \<le> 200"
  shows "xof_spec r p n m = map (\<lambda>k. squeeze_byte r (keccak_absorb_once r m p) (r + k)) [0..<n]"
  using assms unfolding xof_spec_def sponge_pad_absorb [OF assms] sponge_squeeze_def
  by (simp add: funpow_keccak_f squeeze_byte_next) (simp add: squeeze_byte_def)

section \<open>The functions of the interface\<close>

lemma oneshot:
  assumes r: "0 < r" "8 dvd r" "r \<le> 200" and s: "s = keccak_absorb_once r m p"
    and b: "keccak_squeezeblocks (n div r) s r = (out, s')"
    and q: "keccak_squeeze (n - n div r * r) s' r r = (out', s'', pos)"
  shows "out @ out' = xof_spec r p n m"
proof -
  have "out = map (\<lambda>k. squeeze_byte r s (r + k)) [0..<n div r * r]" "s' = (KeccakF1600_StatePermute ^^ (n div r)) s"
    using b keccak_squeezeblocks_eq [OF r(1,2), of "n div r" s] by simp_all
  moreover have "out' = map (\<lambda>k. squeeze_byte r s' (r + k)) [0..<n - n div r * r]"
    using keccak_squeeze_next(1) [OF r(1) order_refl q] .
  moreover have "squeeze_byte r ((KeccakF1600_StatePermute ^^ (n div r)) s) (r + k) = squeeze_byte r s (r + (n div r * r + k))" for k
    using squeeze_byte_skip [OF r(1), of "n div r" s "r + k"] by (simp add: ac_simps)
  ultimately have "out @ out' = map (\<lambda>k. squeeze_byte r s (r + k)) [0..<n div r * r] @
      map (\<lambda>k. squeeze_byte r s (r + (n div r * r + k))) [0..<n - n div r * r]" by simp
  also have "\<dots> = map (\<lambda>k. squeeze_byte r s (r + k)) [0..<n]"
    by (rule nth_equalityI) (auto simp: nth_append)
  finally show ?thesis by (simp add: xof_spec_bytes [OF r] s)
qed

lemma shake128_xof: "shake128 n m = xof_spec 168 0x1F n m"
proof -
  obtain out s' where b: "keccak_squeezeblocks (n div 168) (keccak_absorb_once 168 m 0x1F) 168 = (out, s')" by fastforce
  obtain out' s'' pos where q: "keccak_squeeze (n - n div 168 * 168) s' 168 168 = (out', s'', pos)"
    by (cases "keccak_squeeze (n - n div 168 * 168) s' 168 168") auto
  have "8 dvd (168 :: nat)" by simp
  from oneshot [OF _ this _ refl b q] show ?thesis
    by (simp add: shake128_def shake128_absorb_once_def shake128_squeezeblocks_def shake128_squeeze_def b q Let_def)
qed

lemma shake256_xof: "shake256 n m = xof_spec 136 0x1F n m"
proof -
  obtain out s' where b: "keccak_squeezeblocks (n div 136) (keccak_absorb_once 136 m 0x1F) 136 = (out, s')" by fastforce
  obtain out' s'' pos where q: "keccak_squeeze (n - n div 136 * 136) s' 136 136 = (out', s'', pos)"
    by (cases "keccak_squeeze (n - n div 136 * 136) s' 136 136") auto
  have "8 dvd (136 :: nat)" by simp
  from oneshot [OF _ this _ refl b q] show ?thesis
    by (simp add: shake256_def shake256_absorb_once_def shake256_squeezeblocks_def shake256_squeeze_def b q Let_def)
qed

lemma sha3_lanes:
  assumes "0 < r" "8 dvd r" "r \<le> 200" "8 * n \<le> r"
  shows "concat (map (\<lambda>i. store64 (KeccakF1600_StatePermute (keccak_absorb_once r m p) ! i)) [0..<n]) = xof_spec r p (8 * n) m"
  unfolding xof_spec_bytes [OF assms(1-3)] store64_concat squeeze_byte_next [OF assms(1)]
  using assms(1,4) by (simp add: squeeze_byte_def)

lemma sha3_256_xof: "sha3_256 m = xof_spec 136 6 32 m"
  using sha3_lanes [of 136 4 m 6] by (simp add: sha3_256_def Let_def)

lemma sha3_512_xof: "sha3_512 m = xof_spec 72 6 64 m"
  using sha3_lanes [of 72 8 m 6] by (simp add: sha3_512_def Let_def)

lemma length_xof_spec [simp]: "length (xof_spec r p n m) = n"
  by (simp add: xof_spec_def sponge_squeeze_def)

section \<open>The incremental interface\<close>

text \<open>A sequence of calls of \<open>shake256_squeeze\<close>, with their outputs in order.\<close>

fun shake256_squeezes :: "nat list \<Rightarrow> keccak_state \<Rightarrow> u8 list" where
  "shake256_squeezes [] st = []"
| "shake256_squeezes (n # ns) st = (let (out, st) = shake256_squeeze n st in out @ shake256_squeezes ns st)"

lemma keccak_init_zero: "length s = 25 \<Longrightarrow> keccak_init s = replicate 25 0"
proof -
  assume l: "length s = 25"
  have "fold (\<lambda>i s. s[i := (0 :: u64)]) [0..<25] s = map (\<lambda>_. 0) s"
    using fold_upt_map [of "\<lambda>_. 0 :: u64" s] l by simp
  then show ?thesis using l by (simp add: keccak_init_def map_replicate_const)
qed

lemma shake256_absorbs:
  assumes "ks_pos st < 136"
  shows "fold (\<lambda>a st. shake256_absorb st a) ms st =
    st\<lparr>ks_s := fst (fold (absorb_byte 136) (concat ms) (ks_s st, ks_pos st)),
       ks_pos := snd (fold (absorb_byte 136) (concat ms) (ks_s st, ks_pos st))\<rparr>"
  using assms
proof (induction ms arbitrary: st)
  case (Cons m ms)
  let ?t = "fold (absorb_byte 136) m (ks_s st, ks_pos st)"
  have "shake256_absorb st m = st\<lparr>ks_s := fst ?t, ks_pos := snd ?t\<rparr>"
    using Cons.prems by (simp add: shake256_absorb_def keccak_absorb_fold split: prod.split)
  moreover have "snd ?t < 136" using absorb_byte_pos [OF Cons.prems, of m "ks_s st"] by simp
  ultimately show ?case using Cons.IH [of "st\<lparr>ks_s := fst ?t, ks_pos := snd ?t\<rparr>"] by simp
qed simp

lemma shake128_absorbs:
  assumes "ks_pos st < 168"
  shows "fold (\<lambda>a st. shake128_absorb st a) ms st =
    st\<lparr>ks_s := fst (fold (absorb_byte 168) (concat ms) (ks_s st, ks_pos st)),
       ks_pos := snd (fold (absorb_byte 168) (concat ms) (ks_s st, ks_pos st))\<rparr>"
  using assms
proof (induction ms arbitrary: st)
  case (Cons m ms)
  let ?t = "fold (absorb_byte 168) m (ks_s st, ks_pos st)"
  have "shake128_absorb st m = st\<lparr>ks_s := fst ?t, ks_pos := snd ?t\<rparr>"
    using Cons.prems by (simp add: shake128_absorb_def keccak_absorb_fold split: prod.split)
  moreover have "snd ?t < 168" using absorb_byte_pos [OF Cons.prems, of m "ks_s st"] by simp
  ultimately show ?case using Cons.IH [of "st\<lparr>ks_s := fst ?t, ks_pos := snd ?t\<rparr>"] by simp
qed simp

text \<open>Absorbing in pieces leaves the state that absorbing at once leaves.\<close>

lemma shake256_finalize_absorbs:
  assumes "length (ks_s st) = 25"
  shows "shake256_finalize (fold (\<lambda>m st. shake256_absorb st m) ms (shake256_init st)) = shake256_absorb_once (concat ms)"
proof -
  have r: "0 < (136 :: nat)" "8 dvd (136 :: nat)" "(136 :: nat) \<le> 200" by simp_all
  let ?i = "shake256_init st"
  have i: "ks_s ?i = replicate 25 0" "ks_pos ?i = 0" using assms by (simp_all add: shake256_init_def keccak_init_zero)
  then have a: "fold (\<lambda>m st. shake256_absorb st m) ms ?i =
      ?i\<lparr>ks_s := fst (fold (absorb_byte 136) (concat ms) (replicate 25 0, 0)),
         ks_pos := snd (fold (absorb_byte 136) (concat ms) (replicate 25 0, 0))\<rparr>"
    using shake256_absorbs [of ?i ms] by simp
  show ?thesis unfolding a shake256_absorb_once_def keccak_absorb_once_eq [OF r]
    by (simp add: shake256_finalize_def split: prod.split)
qed

lemma shake128_finalize_absorbs:
  assumes "length (ks_s st) = 25"
  shows "shake128_finalize (fold (\<lambda>m st. shake128_absorb st m) ms (shake128_init st)) = shake128_absorb_once (concat ms)"
proof -
  have r: "0 < (168 :: nat)" "8 dvd (168 :: nat)" "(168 :: nat) \<le> 200" by simp_all
  let ?i = "shake128_init st"
  have i: "ks_s ?i = replicate 25 0" "ks_pos ?i = 0" using assms by (simp_all add: shake128_init_def keccak_init_zero)
  then have a: "fold (\<lambda>m st. shake128_absorb st m) ms ?i =
      ?i\<lparr>ks_s := fst (fold (absorb_byte 168) (concat ms) (replicate 25 0, 0)),
         ks_pos := snd (fold (absorb_byte 168) (concat ms) (replicate 25 0, 0))\<rparr>"
    using shake128_absorbs [of ?i ms] by simp
  show ?thesis unfolding a shake128_absorb_once_def keccak_absorb_once_eq [OF r]
    by (simp add: shake128_finalize_def split: prod.split)
qed

lemma shake256_squeezes_bytes:
  "ks_pos st \<le> 136 \<Longrightarrow> shake256_squeezes ns st = map (\<lambda>k. squeeze_byte 136 (ks_s st) (ks_pos st + k)) [0..<sum_list ns]"
proof (induction ns arbitrary: st)
  case (Cons n ns)
  obtain out s' pos' where q: "keccak_squeeze n (ks_s st) (ks_pos st) 136 = (out, s', pos')"
    by (cases "keccak_squeeze n (ks_s st) (ks_pos st) 136") auto
  note N = keccak_squeeze_next [OF _ Cons.prems q]
  have "shake256_squeezes ns (st\<lparr>ks_s := s', ks_pos := pos'\<rparr>) =
      map (\<lambda>k. squeeze_byte 136 (ks_s st) (ks_pos st + n + k)) [0..<sum_list ns]"
    using Cons.IH [of "st\<lparr>ks_s := s', ks_pos := pos'\<rparr>"] N(2,3) by simp
  moreover have "map (\<lambda>k. squeeze_byte 136 (ks_s st) (ks_pos st + k)) [0..<n] @
      map (\<lambda>k. squeeze_byte 136 (ks_s st) (ks_pos st + n + k)) [0..<sum_list ns] =
      map (\<lambda>k. squeeze_byte 136 (ks_s st) (ks_pos st + k)) [0..<n + sum_list ns]"
    by (rule nth_equalityI) (auto simp: nth_append add.assoc)
  ultimately show ?case using N(1) by (simp add: shake256_squeeze_def q)
qed simp

lemma shake256_squeezes_once: "shake256_squeezes ns (shake256_absorb_once m) = shake256 (sum_list ns) m"
proof -
  have "8 dvd (136 :: nat)" by simp
  then show ?thesis
    by (simp add: shake256_squeezes_bytes shake256_xof xof_spec_bytes shake256_absorb_once_def)
qed

lemma shake256_squeeze_once: "fst (shake256_squeeze n (shake256_absorb_once m)) = shake256 n m"
  using shake256_squeezes_once [of "[n]" m] by (simp split: prod.splits)

section \<open>Block-wise readers\<close>

text \<open>
  What a rejection sampler relies on: blocks of a fixed number of bytes, each call continuing the byte
  stream of the state.
\<close>

locale xof_blocks =
  fixes blocks :: "nat \<Rightarrow> 's \<Rightarrow> 'b list \<times> 's" and rate :: nat and stream :: "'s \<Rightarrow> nat \<Rightarrow> 'b"
  assumes rate_pos: "0 < rate"
    and blocks_out: "fst (blocks n st) = map (stream st) [0..<n * rate]"
    and blocks_next: "stream (snd (blocks n st)) k = stream st (n * rate + k)"
begin

lemma blocks_add:
  "fst (blocks (m + n) st) = fst (blocks m st) @ fst (blocks n (snd (blocks m st)))"
  by (rule nth_equalityI) (auto simp: blocks_out blocks_next nth_append add_mult_distrib)

lemma blocks_length [simp]: "length (fst (blocks n st)) = n * rate"
  by (simp add: blocks_out)

end

definition shake128_stream :: "keccak_state \<Rightarrow> nat \<Rightarrow> u8" where
  "shake128_stream st k = squeeze_byte 168 (ks_s st) (168 + k)"

definition shake256_stream :: "keccak_state \<Rightarrow> nat \<Rightarrow> u8" where
  "shake256_stream st k = squeeze_byte 136 (ks_s st) (136 + k)"

interpretation shake128: xof_blocks shake128_squeezeblocks 168 shake128_stream
proof
  fix n k st
  have d: "8 dvd (168 :: nat)" by simp
  show "fst (shake128_squeezeblocks n st) = map (shake128_stream st) [0..<n * 168]"
    unfolding shake128_squeezeblocks_def
    by (simp add: keccak_squeezeblocks_eq [OF _ d] shake128_stream_def)
  show "shake128_stream (snd (shake128_squeezeblocks n st)) k = shake128_stream st (n * 168 + k)"
    using squeeze_byte_skip [of 168 n "ks_s st" "168 + k"] unfolding shake128_squeezeblocks_def
    by (simp add: keccak_squeezeblocks_eq [OF _ d] shake128_stream_def ac_simps)
qed simp

interpretation shake256: xof_blocks shake256_squeezeblocks 136 shake256_stream
proof
  fix n k st
  have d: "8 dvd (136 :: nat)" by simp
  show "fst (shake256_squeezeblocks n st) = map (shake256_stream st) [0..<n * 136]"
    unfolding shake256_squeezeblocks_def
    by (simp add: keccak_squeezeblocks_eq [OF _ d] shake256_stream_def)
  show "shake256_stream (snd (shake256_squeezeblocks n st)) k = shake256_stream st (n * 136 + k)"
    using squeeze_byte_skip [of 136 n "ks_s st" "136 + k"] unfolding shake256_squeezeblocks_def
    by (simp add: keccak_squeezeblocks_eq [OF _ d] shake256_stream_def ac_simps)
qed simp

text \<open>The streams are the one-shot output, read on and on.\<close>

lemma shake128_stream_once: "map (shake128_stream (shake128_absorb_once m)) [0..<n] = shake128 n m"
proof -
  have "8 dvd (168 :: nat)" by simp
  then show ?thesis by (simp add: shake128_xof xof_spec_bytes shake128_absorb_once_def shake128_stream_def)
qed

lemma shake256_stream_once: "map (shake256_stream (shake256_absorb_once m)) [0..<n] = shake256 n m"
proof -
  have "8 dvd (136 :: nat)" by simp
  then show ?thesis by (simp add: shake256_xof xof_spec_bytes shake256_absorb_once_def shake256_stream_def)
qed

section \<open>Properties\<close>

lemma length_hash_h [simp]: "length (sha3_256 m) = 32"
  by (simp add: sha3_256_xof)

lemma length_hash_g [simp]: "length (sha3_512 m) = 64"
  by (simp add: sha3_512_xof)

lemma length_shake256 [simp]: "length (shake256 n m) = n"
  by (simp add: shake256_xof)

text \<open>C13: the hash functions and the one-shot XOFs are the sponge construction of FIPS 202 over
  Keccak-f[1600], for every input and output length: rates, domain suffixes and padding included.\<close>

theorem fips202_correct:
  "shake128 n m = xof_spec 168 0x1F n m \<and> shake256 n m = xof_spec 136 0x1F n m \<and>
   sha3_256 m = xof_spec 136 0x06 32 m \<and> sha3_512 m = xof_spec 72 0x06 64 m"
  using shake128_xof shake256_xof sha3_256_xof sha3_512_xof by simp

text \<open>C24: the incremental interface: absorbing any sequence of pieces and squeezing in any sequence of
  lengths gives the one-shot output on the concatenated input.\<close>

theorem shake256_incremental:
  assumes "length (ks_s st) = 25"
  shows "shake256_squeezes ns (shake256_finalize (fold (\<lambda>m st. shake256_absorb st m) ms (shake256_init st))) =
    shake256 (sum_list ns) (concat ms)"
  by (simp add: shake256_finalize_absorbs [OF assms] shake256_squeezes_once)

theorem shake256_incremental_witness:
  "shake256_squeezes [3, 200] (shake256_finalize (fold (\<lambda>m st. shake256_absorb st m) [[1, 2], replicate 300 7]
     (shake256_init \<lparr>ks_s = replicate 25 99, ks_pos = 5\<rparr>))) = shake256 203 ([1, 2] @ replicate 300 7)"
  using shake256_incremental [of "\<lparr>ks_s = replicate 25 99, ks_pos = 5\<rparr>" "[3, 200]" "[[1, 2], replicate 300 7]"] by simp

end
