(* ===== verification/Kem_Params.thy ===== *)
theory Kem_Params
  imports Prelude
begin

text \<open>
  \<open>tools/pqc/mlkem/mlkem_params.h\<close> and the parameter sets of \<open>mlkem.c\<close>: the structure
  \<open>mlkem_param_t\<close> as a record, the static parameters as abbreviations (they are C macros, used at
  several integer types) and the three parameter sets.
\<close>

text \<open>Static parameters.\<close>

abbreviation (input) MLKEM_PAR_N :: nat where "MLKEM_PAR_N \<equiv> 256"
abbreviation (input) MLKEM_PAR_Q :: "'a::numeral" where "MLKEM_PAR_Q \<equiv> 3329"
abbreviation (input) MLKEM_PAR_ETA2 :: nat where "MLKEM_PAR_ETA2 \<equiv> 2"
abbreviation (input) MLKEM_SYM_SZ :: nat where "MLKEM_SYM_SZ \<equiv> 32"
abbreviation (input) MLKEM_SS_SZ :: nat where "MLKEM_SS_SZ \<equiv> 32"
abbreviation (input) MLKEM_MSG_SZ :: nat where "MLKEM_MSG_SZ \<equiv> 32"
abbreviation (input) MLKEM_POLY_SZ :: nat where "MLKEM_POLY_SZ \<equiv> 384"

text \<open>A polynomial is the C array \<open>int16_t coeffs[256]\<close>, a vector an array of polynomials.\<close>

type_synonym poly = "i16 list"
type_synonym pvec = "poly list"
type_synonym bytes = "u8 list"

record mlkem_param =
  par_name :: string
  par_level :: nat
  par_k :: nat
  par_eta1 :: nat
  par_du :: nat
  par_dv :: nat
  par_ek_sz :: nat
  par_dk_sz :: nat
  par_ct_sz :: nat

definition mlkem_512 :: mlkem_param where
  "mlkem_512 = \<lparr>par_name = ''ML-KEM-512'', par_level = 1, par_k = 2, par_eta1 = 3,
     par_du = 10, par_dv = 4, par_ek_sz = 800, par_dk_sz = 1632, par_ct_sz = 768\<rparr>"

definition mlkem_768 :: mlkem_param where
  "mlkem_768 = \<lparr>par_name = ''ML-KEM-768'', par_level = 3, par_k = 3, par_eta1 = 2,
     par_du = 10, par_dv = 4, par_ek_sz = 1184, par_dk_sz = 2400, par_ct_sz = 1088\<rparr>"

definition mlkem_1024 :: mlkem_param where
  "mlkem_1024 = \<lparr>par_name = ''ML-KEM-1024'', par_level = 5, par_k = 4, par_eta1 = 2,
     par_du = 11, par_dv = 5, par_ek_sz = 1568, par_dk_sz = 3168, par_ct_sz = 1568\<rparr>"

definition mlkem_par :: "mlkem_param list" where
  "mlkem_par = [mlkem_512, mlkem_768, mlkem_1024]"

lemmas mlkem_par_defs = mlkem_512_def mlkem_768_def mlkem_1024_def

text \<open>
  What the code relies on in a parameter set: the module rank, the two noise widths and the two
  pairs of compression widths it distinguishes, and the three byte sizes, which have to agree with
  the layout the packing routines produce.
\<close>

definition mlkem_param_ok :: "mlkem_param \<Rightarrow> bool" where
  "mlkem_param_ok par \<longleftrightarrow>
     1 \<le> par_k par \<and> par_k par \<le> 4 \<and> par_eta1 par \<in> {2, 3} \<and>
     par_du par \<in> {10, 11} \<and> par_dv par \<in> {4, 5} \<and>
     par_ek_sz par = par_k par * MLKEM_POLY_SZ + MLKEM_SYM_SZ \<and>
     par_dk_sz par = par_k par * MLKEM_POLY_SZ + par_ek_sz par + 2 * MLKEM_SYM_SZ \<and>
     par_ct_sz par = (par_k par * par_du par + par_dv par) * (MLKEM_PAR_N div 8)"

lemma mlkem_par_ok: "par \<in> set mlkem_par \<Longrightarrow> mlkem_param_ok par"
  by (auto simp: mlkem_par_def mlkem_par_defs mlkem_param_ok_def)

end
