(* ===== verification/Kem_Symmetric.thy ===== *)
theory Kem_Symmetric
  imports Fips202_Api Kem_Params
begin

text \<open>
  \<open>tools/pqc/mlkem/symmetric-shake.c\<close> and the macros of \<open>symmetric.h\<close>: the hash functions, the
  extendable output function and the two pseudo-random functions of ML-KEM, and their reading as calls
  of the sponge on a concatenated input.
\<close>

definition kyber_shake128_absorb :: "bytes \<Rightarrow> u8 \<Rightarrow> u8 \<Rightarrow> keccak_state" where
  "kyber_shake128_absorb seed x y =
     (let extseed = take MLKEM_SYM_SZ seed @ [x, y]
      in shake128_absorb_once extseed)"

definition kyber_shake256_prf :: "nat \<Rightarrow> bytes \<Rightarrow> u8 \<Rightarrow> bytes" where
  "kyber_shake256_prf outlen key nonce =
     (let extkey = take MLKEM_SYM_SZ key @ [nonce]
      in shake256 outlen extkey)"

text \<open>The local \<open>keccak_state s\<close> of the C function is uninitialised; \<open>shake256_init\<close> sets every part of it.\<close>

definition kyber_shake256_rkprf :: "mlkem_param \<Rightarrow> bytes \<Rightarrow> bytes \<Rightarrow> bytes" where
  "kyber_shake256_rkprf par key ct_in =
     (let s = \<lparr>ks_s = replicate 25 0, ks_pos = 0\<rparr>;
          s = shake256_init s;
          s = shake256_absorb s (take MLKEM_SYM_SZ key);
          s = shake256_absorb s (take (par_ct_sz par) ct_in);
          s = shake256_finalize s;
          (out, s) = shake256_squeeze MLKEM_SS_SZ s
      in out)"

text \<open>The macros: \<open>XOF_BLOCKBYTES\<close>, \<open>hash_h\<close>, \<open>hash_g\<close>, \<open>xof_absorb\<close>, \<open>xof_squeezeblocks\<close> and \<open>prf\<close>.\<close>

abbreviation (input) XOF_BLOCKBYTES :: nat where "XOF_BLOCKBYTES \<equiv> SHAKE128_RATE"
abbreviation (input) "hash_h \<equiv> sha3_256"
abbreviation (input) "hash_g \<equiv> sha3_512"
abbreviation (input) "xof_absorb \<equiv> kyber_shake128_absorb"
abbreviation (input) "xof_squeezeblocks \<equiv> shake128_squeezeblocks"
abbreviation (input) "prf \<equiv> kyber_shake256_prf"

lemma length_prf [simp]: "length (kyber_shake256_prf n key nonce) = n"
  by (simp add: kyber_shake256_prf_def Let_def)

text \<open>The rejection key is SHAKE256 of the secret seed and the ciphertext, absorbed in two pieces.\<close>

lemma kyber_shake256_rkprf_eq:
  "kyber_shake256_rkprf par key ct = shake256 32 (take 32 key @ take (par_ct_sz par) ct)"
proof -
  let ?s = "\<lparr>ks_s = replicate 25 0, ks_pos = 0\<rparr>"
  have "shake256_finalize (shake256_absorb (shake256_absorb (shake256_init ?s) (take 32 key)) (take (par_ct_sz par) ct)) =
      shake256_absorb_once (take 32 key @ take (par_ct_sz par) ct)"
    using shake256_finalize_absorbs [of ?s "[take 32 key, take (par_ct_sz par) ct]"] by simp
  then show ?thesis
    using shake256_squeeze_once [of 32 "take 32 key @ take (par_ct_sz par) ct"]
    by (simp add: kyber_shake256_rkprf_def Let_def prod.case_eq_if)
qed

end
