(* ===== verification/Kem_Cbd.thy ===== *)
theory Kem_Cbd
  imports Kem_Params Bits
begin

text \<open>
  \<open>tools/pqc/mlkem/cbd.c\<close>: the centred binomial samplers.  The C code adds the bits of a word in
  parallel, in fields of two or three bits; the lemmas show that coefficient \<open>k\<close> is the difference of
  the two bit sums of the standard's definition, for every buffer.
\<close>

definition load32_littleendian :: "u8 \<Rightarrow> u8 \<Rightarrow> u8 \<Rightarrow> u8 \<Rightarrow> u32" where
  "load32_littleendian x0 x1 x2 x3 =
     (let r = zext32 x0;
          r = r OR shl (zext32 x1) 8;
          r = r OR shl (zext32 x2) 16;
          r = r OR shl (zext32 x3) 24
      in r)"

definition load24_littleendian :: "u8 \<Rightarrow> u8 \<Rightarrow> u8 \<Rightarrow> u32" where
  "load24_littleendian x0 x1 x2 =
     (let r = zext32 x0;
          r = r OR shl (zext32 x1) 8;
          r = r OR shl (zext32 x2) 16
      in r)"

text \<open>The body of the outer loop: one word gives eight (four) coefficients.\<close>

definition cbd2_word :: "u32 \<Rightarrow> i16 list" where
  "cbd2_word t =
     (let d = t AND 0x55555555;
          d = d + (shr t 1 AND 0x55555555)
      in map (\<lambda>j. let a = zext16 (shr d (4 * j + 0) AND 0x3);
                      b = zext16 (shr d (4 * j + 2) AND 0x3)
                  in sext16 (sext32 a - sext32 b)) [0..<8])"

definition cbd2 :: "bytes \<Rightarrow> poly" where
  "cbd2 buf = concat (map (\<lambda>i.
     cbd2_word (load32_littleendian (buf ! (4 * i)) (buf ! (4 * i + 1)) (buf ! (4 * i + 2)) (buf ! (4 * i + 3))))
     [0..<MLKEM_PAR_N div 8])"

definition cbd3_word :: "u32 \<Rightarrow> i16 list" where
  "cbd3_word t =
     (let d = t AND 0x00249249;
          d = d + (shr t 1 AND 0x00249249);
          d = d + (shr t 2 AND 0x00249249)
      in map (\<lambda>j. let a = zext16 (shr d (6 * j + 0) AND 0x7);
                      b = zext16 (shr d (6 * j + 3) AND 0x7)
                  in sext16 (sext32 a - sext32 b)) [0..<4])"

definition cbd3 :: "bytes \<Rightarrow> poly" where
  "cbd3 buf = concat (map (\<lambda>i.
     cbd3_word (load24_littleendian (buf ! (3 * i)) (buf ! (3 * i + 1)) (buf ! (3 * i + 2))))
     [0..<MLKEM_PAR_N div 4])"

definition poly_cbd_eta1 :: "mlkem_param \<Rightarrow> bytes \<Rightarrow> poly" where
  "poly_cbd_eta1 par buf = (if par_eta1 par = 2 then cbd2 buf else cbd3 buf)"

definition poly_cbd_eta2 :: "bytes \<Rightarrow> poly" where
  "poly_cbd_eta2 buf = cbd2 buf"

section \<open>Specification\<close>

text \<open>The centred binomial distribution of FIPS 203: coefficient \<open>k\<close> from bits \<open>2 eta k ..< 2 eta (k + 1)\<close>.\<close>

definition cbd_spec :: "nat \<Rightarrow> (nat \<Rightarrow> bool) \<Rightarrow> nat \<Rightarrow> int" where
  "cbd_spec eta b k =
     (\<Sum>i<eta. of_bool (b (2 * eta * k + i))) - (\<Sum>i<eta. of_bool (b (2 * eta * k + eta + i)))"

lemma cbd_spec_bound: "\<bar>cbd_spec eta b k\<bar> \<le> int eta"
proof -
  have "(\<Sum>i<eta. of_bool (f i)) \<le> (\<Sum>i<eta. 1 :: int)" "0 \<le> (\<Sum>i<eta. of_bool (f i) :: int)"
    for f :: "nat \<Rightarrow> bool" by (intro sum_mono sum_nonneg; simp)+
  note this [of "\<lambda>i. b (2 * eta * k + i)"] this [of "\<lambda>i. b (2 * eta * k + eta + i)"]
  then show ?thesis by (simp add: cbd_spec_def)
qed

section \<open>The parallel bit sums\<close>

lemma bit_load32:
  assumes "n < 32"
  shows "bit (load32_littleendian x0 x1 x2 x3) n = bit ([x0, x1, x2, x3] ! (n div 8)) (n mod 8)"
proof -
  have "\<forall>n < 32. bit (load32_littleendian x0 x1 x2 x3) n = bit ([x0, x1, x2, x3] ! (n div 8)) (n mod 8)"
    by (simp add: all_less_numeral load32_littleendian_def Let_def bit_fields)
  then show ?thesis using assms by blast
qed

lemma bit_load24:
  assumes "n < 24"
  shows "bit (load24_littleendian x0 x1 x2) n = bit ([x0, x1, x2] ! (n div 8)) (n mod 8)"
proof -
  have "\<forall>n < 24. bit (load24_littleendian x0 x1 x2) n = bit ([x0, x1, x2] ! (n div 8)) (n mod 8)"
    by (simp add: all_less_numeral load24_littleendian_def Let_def bit_fields)
  then show ?thesis using assms by blast
qed

lemma mask2_bits: "\<forall>n<32. bit (0x55555555 :: u32) n = (n < 16 * 2 \<and> n mod 2 = 0)"
  by (simp add: all_less_numeral)

lemma mask3_bits: "\<forall>n<32. bit (0x00249249 :: u32) n = (n < 8 * 3 \<and> n mod 3 = 0)"
  by (simp add: all_less_numeral)

lemma unat_mask2: "unat (shr t s AND 0x55555555 :: u32) = (\<Sum>f<16. of_bool (bit t (2 * f + s)) * 4 ^ f)"
  using unat_field_mask [of 16 2 "0x55555555" "shr t s"] mask2_bits [rule_format] by (simp add: bit_drop_bit_eq add.commute)

lemma unat_mask3: "unat (shr t s AND 0x00249249 :: u32) = (\<Sum>f<8. of_bool (bit t (3 * f + s)) * 8 ^ f)"
  using unat_field_mask [of 8 3 "0x00249249" "shr t s"] mask3_bits [rule_format] by (simp add: bit_drop_bit_eq add.commute)


lemma cbd2_word_nth:
  assumes "j < 8"
  shows "sint (cbd2_word t ! j) = cbd_spec 2 (bit t) j"
proof -
  define c :: "nat \<Rightarrow> nat" where "c f = of_bool (bit t (2 * f)) + of_bool (bit t (Suc (2 * f)))" for f
  define d where "d = (t AND 0x55555555) + (shr t 1 AND 0x55555555)"
  have c: "c f < 4" for f by (simp add: c_def)
  have s: "unat (t AND 0x55555555) + unat (shr t 1 AND 0x55555555) = (\<Sum>f<16. c f * 4 ^ f)"
    using unat_mask2 [of 0 t] unat_mask2 [of 1 t]
    by (simp add: c_def algebra_simps sum.distrib)
  also have "\<dots> < 4 ^ 16" using c by (rule digit_sum_less)
  finally have d: "unat d = (\<Sum>f<16. c f * 4 ^ f)"
    unfolding d_def by (subst unat_add_lem [THEN iffD1]) (simp_all only: s [symmetric], simp)
  have field: "sint (zext16 (shr d (2 * f) AND 0x3)) = int (c f)" if "f < 16" for f
  proof -
    have "unat (shr d (2 * f) AND 0x3) = unat d div 4 ^ f mod 4"
      using unat_and_mask [of "shr d (2 * f)" 2] by (simp add: mask_eq_exp_minus_1 unat_shr power_mult)
    also have "\<dots> = c f" unfolding d using c that by (rule digit_sum_div_mod)
    finally have u: "unat (shr d (2 * f) AND 0x3) = c f" .
    then show ?thesis using c [of f] by (subst sint_eq_unat; simp add: unat_ucast_fit)
  qed
  have "cbd2_word t ! j = sext16 (sext32 (zext16 (shr d (2 * (2 * j)) AND 0x3)) - sext32 (zext16 (shr d (2 * (2 * j + 1)) AND 0x3)))"
    using assms by (simp add: cbd2_word_def Let_def d_def algebra_simps)
  also have "sint \<dots> = int (c (2 * j)) - int (c (2 * j + 1))"
    using field [of "2 * j"] field [of "2 * j + 1"] assms c [of "2 * j"] c [of "2 * j + 1"]
    by (subst sint_scast_fit; subst sint_diff_fit) auto
  also have "\<dots> = cbd_spec 2 (bit t) j"
    by (simp add: cbd_spec_def c_def eval_nat_numeral algebra_simps)
  finally show ?thesis .
qed

lemma cbd3_word_nth:
  assumes "j < 4"
  shows "sint (cbd3_word t ! j) = cbd_spec 3 (bit t) j"
proof -
  define c :: "nat \<Rightarrow> nat" where
    "c f = of_bool (bit t (3 * f)) + of_bool (bit t (3 * f + 1)) + of_bool (bit t (3 * f + 2))" for f
  define d where "d = (t AND 0x00249249) + (shr t 1 AND 0x00249249) + (shr t 2 AND 0x00249249)"
  have c: "c f \<le> 3" for f by (simp add: c_def)
  then have c8: "c f < 8" for f by (rule le_less_trans) simp
  have s: "unat (t AND 0x00249249) + unat (shr t 1 AND 0x00249249) + unat (shr t 2 AND 0x00249249) =
      (\<Sum>f<8. c f * 8 ^ f)"
    using unat_mask3 [of 0 t] unat_mask3 [of 1 t] unat_mask3 [of 2 t]
    by (simp add: c_def algebra_simps sum.distrib)
  also have "\<dots> < 8 ^ 8" using c8 by (rule digit_sum_less)
  finally have lt: "unat (t AND 0x00249249) + unat (shr t 1 AND 0x00249249) + unat (shr t 2 AND 0x00249249) < 8 ^ 8" .
  then have "unat ((t AND 0x00249249) + (shr t 1 AND 0x00249249)) =
      unat (t AND 0x00249249) + unat (shr t 1 AND 0x00249249)"
    by (subst unat_add_lem [THEN iffD1]) (simp_all only:, simp)
  moreover from this lt have "unat d = unat ((t AND 0x00249249) + (shr t 1 AND 0x00249249)) + unat (shr t 2 AND 0x00249249)"
    unfolding d_def by (subst unat_add_lem [THEN iffD1]) (simp_all only:, simp)
  ultimately have d: "unat d = (\<Sum>f<8. c f * 8 ^ f)" using s by linarith
  have field: "sint (zext16 (shr d (3 * f) AND 0x7)) = int (c f)" if "f < 8" for f
  proof -
    have "unat (shr d (3 * f) AND 0x7) = unat d div 8 ^ f mod 8"
      using unat_and_mask [of "shr d (3 * f)" 3] by (simp add: mask_eq_exp_minus_1 unat_shr power_mult)
    also have "\<dots> = c f" unfolding d using c8 that by (rule digit_sum_div_mod)
    finally have u: "unat (shr d (3 * f) AND 0x7) = c f" .
    then show ?thesis using c8 [of f] by (subst sint_eq_unat; simp add: unat_ucast_fit)
  qed
  have "cbd3_word t ! j = sext16 (sext32 (zext16 (shr d (3 * (2 * j)) AND 0x7)) - sext32 (zext16 (shr d (3 * (2 * j + 1)) AND 0x7)))"
    using assms by (simp add: cbd3_word_def Let_def d_def algebra_simps)
  also have "sint \<dots> = int (c (2 * j)) - int (c (2 * j + 1))"
    using field [of "2 * j"] field [of "2 * j + 1"] assms c [of "2 * j"] c [of "2 * j + 1"]
    by (subst sint_scast_fit; subst sint_diff_fit) auto
  also have "\<dots> = cbd_spec 3 (bit t) j"
    by (simp add: cbd_spec_def c_def eval_nat_numeral algebra_simps)
  finally show ?thesis .
qed

section \<open>The samplers\<close>

lemma cbd_spec_cong:
  "(\<And>n. n < 2 * eta \<Longrightarrow> b (2 * eta * k + n) = b' (2 * eta * k' + n)) \<Longrightarrow> cbd_spec eta b k = cbd_spec eta b' k'"
  by (auto simp: cbd_spec_def add.assoc)

lemma length_cbd2 [simp]: "length (cbd2 buf) = 256" and length_cbd3 [simp]: "length (cbd3 buf) = 256"
  by (simp_all add: cbd2_def cbd3_def length_concat_chunks [where w = 8] length_concat_chunks [where w = 4]
      cbd2_word_def cbd3_word_def Let_def)

lemma byte_bit_chunk:
  assumes "n < 8 * w"
  shows "byte_bit buf (8 * w * i + n) = bit (buf ! (w * i + n div 8)) (n mod 8)"
  by (simp add: byte_bit_def mult.assoc)

lemma cbd2_nth:
  assumes "k < 256"
  shows "sint (cbd2 buf ! k) = cbd_spec 2 (byte_bit buf) k"
proof -
  define i j where "i = k div 8" and "j = k mod 8"
  have ij: "i < 32" "j < 8" "k = 8 * i + j" using assms by (auto simp: i_def j_def)
  let ?t = "load32_littleendian (buf ! (4 * i)) (buf ! (4 * i + 1)) (buf ! (4 * i + 2)) (buf ! (4 * i + 3))"
  have "cbd2 buf ! k = cbd2_word ?t ! j"
    unfolding cbd2_def ij(3) using ij(1,2) by (intro nth_concat_chunks) (simp_all add: cbd2_word_def Let_def)
  also have "sint \<dots> = cbd_spec 2 (bit ?t) j" using ij by (intro cbd2_word_nth) simp
  also have "\<dots> = cbd_spec 2 (byte_bit buf) k"
  proof (rule cbd_spec_cong)
    fix n :: nat
    assume "n < 2 * 2"
    then have n: "4 * j + n < 32" using ij by simp
    have "(4 * j + n) div 8 = 0 \<or> (4 * j + n) div 8 = 1 \<or> (4 * j + n) div 8 = 2 \<or> (4 * j + n) div 8 = 3"
      using n by linarith
    then have "bit ?t (4 * j + n) = bit (buf ! (4 * i + (4 * j + n) div 8)) ((4 * j + n) mod 8)"
      using bit_load32 [OF n] by auto
    also have "\<dots> = byte_bit buf (32 * i + (4 * j + n))" using byte_bit_chunk [of "4 * j + n" 4 buf i] n by simp
    finally show "bit ?t (2 * 2 * j + n) = byte_bit buf (2 * 2 * k + n)" by (simp add: ij(3) algebra_simps)
  qed
  finally show ?thesis .
qed

lemma cbd3_nth:
  assumes "k < 256"
  shows "sint (cbd3 buf ! k) = cbd_spec 3 (byte_bit buf) k"
proof -
  define i j where "i = k div 4" and "j = k mod 4"
  have ij: "i < 64" "j < 4" "k = 4 * i + j" using assms by (auto simp: i_def j_def)
  let ?t = "load24_littleendian (buf ! (3 * i)) (buf ! (3 * i + 1)) (buf ! (3 * i + 2))"
  have "cbd3 buf ! k = cbd3_word ?t ! j"
    unfolding cbd3_def ij(3) using ij(1,2) by (intro nth_concat_chunks) (simp_all add: cbd3_word_def Let_def)
  also have "sint \<dots> = cbd_spec 3 (bit ?t) j" using ij by (intro cbd3_word_nth) simp
  also have "\<dots> = cbd_spec 3 (byte_bit buf) k"
  proof (rule cbd_spec_cong)
    fix n :: nat
    assume "n < 2 * 3"
    then have n: "6 * j + n < 24" using ij by simp
    have "(6 * j + n) div 8 = 0 \<or> (6 * j + n) div 8 = 1 \<or> (6 * j + n) div 8 = 2"
      using n by linarith
    then have "bit ?t (6 * j + n) = bit (buf ! (3 * i + (6 * j + n) div 8)) ((6 * j + n) mod 8)"
      using bit_load24 [OF n] by auto
    also have "\<dots> = byte_bit buf (24 * i + (6 * j + n))" using byte_bit_chunk [of "6 * j + n" 3 buf i] n by simp
    finally show "bit ?t (2 * 3 * j + n) = byte_bit buf (2 * 3 * k + n)" by (simp add: ij(3) algebra_simps)
  qed
  finally show ?thesis .
qed

text \<open>C37: the samplers compute, for every buffer, the centred binomial distribution of the standard:
  coefficient \<open>k\<close> is the difference of two sums of \<open>eta\<close> consecutive bits; for \<open>eta1\<close> it is the
  parameter set that selects the width.\<close>

theorem poly_cbd_correct:
  assumes "par_eta1 par \<in> {2, 3}" "k < 256"
  shows "sint (poly_cbd_eta1 par buf ! k) = cbd_spec (par_eta1 par) (byte_bit buf) k \<and>
    sint (poly_cbd_eta2 buf ! k) = cbd_spec 2 (byte_bit buf) k"
  using assms by (auto simp: poly_cbd_eta1_def poly_cbd_eta2_def cbd2_nth cbd3_nth)

theorem poly_cbd_correct_witness:
  "sint (poly_cbd_eta1 mlkem_512 (replicate 192 7) ! 0) = 3 \<and> sint (poly_cbd_eta2 (replicate 128 3) ! 6) = 2"
proof -
  have "cbd_spec 3 (byte_bit (replicate 192 7)) 0 = 3" "cbd_spec 2 (byte_bit (replicate 128 3)) 6 = 2"
    by code_simp+
  then show ?thesis
    using poly_cbd_correct [of mlkem_512 0 "replicate 192 7"] poly_cbd_correct [of mlkem_512 6 "replicate 128 3"]
    by (simp add: mlkem_512_def)
qed

end
