(* ===== verification/Kem_Verify.thy ===== *)
theory Kem_Verify
  imports Kem_Params Bits
begin

text \<open>
  \<open>tools/pqc/mlkem/verify.c\<close>: comparison and conditional copy without a branch.  A buffer the C
  function writes through a pointer is an argument that is returned updated; its length is the
  caller's \<open>len\<close> or more.
\<close>

text \<open>The name \<open>verify\<close> of the C function is kept; the result is the C \<open>int\<close>.\<close>

definition verify :: "bytes \<Rightarrow> bytes \<Rightarrow> nat \<Rightarrow> i32" where
  "verify a b len =
     (let r = fold (\<lambda>i r. r OR (a ! i XOR b ! i)) [0..<len] (0 :: u8)
      in zext32 (shr (- zext64 r) 63))"

definition cmov :: "bytes \<Rightarrow> bytes \<Rightarrow> nat \<Rightarrow> u8 \<Rightarrow> bytes" where
  "cmov r x len b =
     (let b = - b
      in fold (\<lambda>i r. r[i := r ! i XOR (b AND (r ! i XOR x ! i))]) [0..<len] r)"

definition cmov_int16 :: "i16 \<Rightarrow> i16 \<Rightarrow> u16 \<Rightarrow> i16" where
  "cmov_int16 r v b = (let b = - b in r XOR (b AND (r XOR v)))"

section \<open>Functional behaviour\<close>

lemma fold_or_zero:
  "fold (\<lambda>i r. r OR f i) is (r :: 'a::len word) = 0 \<longleftrightarrow> r = 0 \<and> (\<forall>i \<in> set is. f i = 0)"
  by (induction "is" arbitrary: r) (auto simp: or_eq_0_iff)

lemma neg_top_bit: "shr (- zext64 (r :: u8)) 63 = (if r = 0 then 0 else 1)"
proof (cases "r = 0")
  case False
  let ?u = "uint r"
  have u: "1 \<le> ?u" "?u < 256" 
    using False uint_lt2p [of r] uint_ge_0 [of r] uint_0_iff [of r] by (simp_all, linarith)
  have "uint (- zext64 r) = 18446744073709551616 - ?u"
    using u by (simp add: uint_word_ariths zmod_zminus1_eq_if)
  then have "uint (shr (- zext64 r) 63) = 1" using u by (simp add: uint_shr)
  then show ?thesis using False by (metis uint_1 word_uint_eq_iff)
qed simp

lemma xor_eq_zero_iff: "(a XOR b :: 'a::len word) = 0 \<longleftrightarrow> a = b"
  by (metis xor.assoc xor.right_neutral xor_self_eq)

lemma verify_iff:
  assumes "len \<le> length a" "len \<le> length b"
  shows "verify a b len = (if take len a = take len b then 0 else 1)"
proof -
  have "(fold (\<lambda>i r. r OR (a ! i XOR b ! i)) [0..<len] (0 :: u8) = 0) \<longleftrightarrow> take len a = take len b"
    using assms by (auto simp: fold_or_zero xor_eq_zero_iff list_eq_iff_nth_eq)
  then show ?thesis by (simp add: verify_def neg_top_bit)
qed

lemma cmov_1:
  assumes "len \<le> length r" "len \<le> length x"
  shows "cmov r x len 1 = take len x @ drop len r"
proof -
  have "a XOR (- 1 AND (a XOR b)) = b" for a b :: u8 by (simp flip: xor.assoc)
  then show ?thesis
    using assms fold_update_zip [of len r "\<lambda>a b. a XOR (- 1 AND (a XOR b))" "\<lambda>i. x ! i"]
    by (simp add: cmov_def map_nth_take)
qed

lemma cmov_0: "cmov r x len 0 = r"
proof -
  have "fold (\<lambda>i r. r) is r = r" for "is" :: "nat list" by (induction "is") auto
  then show ?thesis by (simp add: cmov_def)
qed

lemma cmov_int16_select: "cmov_int16 r v 1 = v" "cmov_int16 r v 0 = r"
  by (simp_all add: cmov_int16_def flip: xor.assoc)

end
