(* ===== verification/Kem_Reduce.thy ===== *)
theory Kem_Reduce
  imports Kem_Params
begin

text \<open>
  \<open>tools/pqc/mlkem/reduce.h\<close>: Montgomery and Barrett reduction modulo \<open>q = 3329\<close> on 16-bit
  coefficients, and the multiplication in \<open>Z_q[X]/(X^2 - zeta)\<close>.  The lemmas give each routine's exact
  integer result, its class modulo \<open>q\<close> and its range, for every input the C comment allows.
\<close>

abbreviation (input) MLKEM_PAR_MONT :: "'a::ring_1" where "MLKEM_PAR_MONT \<equiv> - 1044"
abbreviation (input) MLKEM_PAR_QINV :: "'a::ring_1" where "MLKEM_PAR_QINV \<equiv> - 3327"

definition mlkem_montgomery_reduce :: "i32 \<Rightarrow> i16" where
  "mlkem_montgomery_reduce a =
     (let t = sext16 (sext32 (sext16 a) * MLKEM_PAR_QINV);
          t = sext16 (sar (a - sext32 t * MLKEM_PAR_Q) 16)
      in t)"

definition barrett_reduce :: "i16 \<Rightarrow> i16" where
  "barrett_reduce a =
     (let v = sext16 ((shl (1 :: i32) 26 + MLKEM_PAR_Q div 2) div MLKEM_PAR_Q);
          t = sext16 (sar (sext32 v * sext32 a + shl (1 :: i32) 25) 26);
          t = sext16 (sext32 t * (MLKEM_PAR_Q :: i32))
      in sext16 (sext32 a - sext32 t))"

definition fqmul :: "i16 \<Rightarrow> i16 \<Rightarrow> i16" where
  "fqmul a b = mlkem_montgomery_reduce (sext32 a * sext32 b)"

definition basemul :: "i16 \<times> i16 \<Rightarrow> i16 \<times> i16 \<Rightarrow> i16 \<Rightarrow> i16 \<times> i16" where
  "basemul a b zeta =
     (let r0 = fqmul (snd a) (snd b);
          r0 = fqmul r0 zeta;
          r0 = sext16 (sext32 r0 + sext32 (fqmul (fst a) (fst b)));
          r1 = fqmul (fst a) (snd b);
          r1 = sext16 (sext32 r1 + sext32 (fqmul (snd a) (fst b)))
      in (r0, r1))"

section \<open>Montgomery reduction\<close>

text \<open>
  The exact value: the routine divides \<open>a - t * q\<close>, a multiple of \<open>2 ^ 16\<close>, by \<open>2 ^ 16\<close>, where \<open>t\<close> is
  the centred representative of \<open>a * q\<^sup>-\<^sup>1\<close> modulo \<open>2 ^ 16\<close>; no intermediate value leaves its C type.
\<close>

lemma mlkem_montgomery_reduce_exact:
  fixes a :: i32
  assumes "- (32768 * 3329) \<le> sint a" "sint a < 32768 * 3329"
  obtains t where "sint (mlkem_montgomery_reduce a) * 65536 = sint a - t * 3329"
    and "- 32768 \<le> t" "t < 32768"
proof -
  define t where "t = sext16 (sext32 (sext16 a) * (MLKEM_PAR_QINV :: i32))"
  have tr: "- 32768 \<le> sint t" "sint t < 32768" by (rule i16_range)+
  have m: "sint (sext32 t * (MLKEM_PAR_Q :: i32)) = sint t * 3329"
    using tr by (subst sint_mult_fit) (simp_all)
  have d: "sint (a - sext32 t * MLKEM_PAR_Q) = sint a - sint t * 3329"
    using tr assms by (subst sint_diff_fit) (simp_all add: m)
  have "modeq 65536 (sint t) (sint (sext32 (sext16 a) * (MLKEM_PAR_QINV :: i32)))"
    using sint_scast_modeq [where 'b = 16] by (simp add: t_def)
  also have "modeq 65536 \<dots> (sint (sext16 a) * - 3327)"
    using i16_range [of "sext16 a"] by (subst sint_mult_fit) simp_all
  also have "modeq 65536 \<dots> (sint a * - 3327)"
    using sint_scast_modeq [where 'b = 16 and a = a] by (intro modeq_mult modeq_refl) simp
  finally have tm: "modeq 65536 (sint t) (sint a * - 3327)" .
  have "modeq 65536 (sint a - sint t * 3329) (sint a - (sint a * - 3327) * 3329)"
    by (intro modeq_diff modeq_mult modeq_refl tm)
  also have "\<dots> = 0 + 65536 * (169 * sint a)" by simp
  also have "modeq 65536 \<dots> 0" by (rule modeqI) simp
  finally have "65536 dvd sint a - sint t * 3329" by (simp add: modeq_iff_dvd)
  then obtain k where k: "sint a - sint t * 3329 = 65536 * k" by (elim dvdE)
  have "- 3329 \<le> k" "k < 3329" using k tr assms by linarith+
  moreover have "sint (sar (a - sext32 t * MLKEM_PAR_Q) 16) = k" by (simp add: sint_sar d k)
  moreover have "mlkem_montgomery_reduce a = sext16 (sar (a - sext32 t * MLKEM_PAR_Q) 16)"
    by (simp only: mlkem_montgomery_reduce_def Let_def t_def)
  ultimately have "sint (mlkem_montgomery_reduce a) = k" by (simp add: sint_scast_fit)
  then show thesis using k tr by (intro that [of "sint t"]) simp_all
qed

lemma mlkem_montgomery_reduce_bound:
  assumes "- (32768 * 3329) \<le> sint a" "sint a < 32768 * 3329"
  shows "\<bar>sint (mlkem_montgomery_reduce a)\<bar> < 3329"
  using assms by (rule mlkem_montgomery_reduce_exact [of a]) (use assms in linarith)

lemma mlkem_montgomery_reduce_modeq:
  assumes "- (32768 * 3329) \<le> sint a" "sint a < 32768 * 3329"
  shows "modeq 3329 (sint (mlkem_montgomery_reduce a) * 65536) (sint a)"
  by (rule mlkem_montgomery_reduce_exact [OF assms]) (simp add: modeq_iff_dvd)

section \<open>Barrett reduction\<close>

lemma barrett_reduce_exact:
  "sint (barrett_reduce a) = sint a - 3329 * ((20159 * sint a + 33554432) div 67108864)"
  and barrett_reduce_centred: "\<bar>sint (barrett_reduce a)\<bar> \<le> 1664"
proof -
  define T where "T = (20159 * sint a + 33554432) div 67108864"
  have A: "- 32768 \<le> sint a" "sint a < 32768" by (rule i16_range)+
  have T: "67108864 * T \<le> 20159 * sint a + 33554432" "20159 * sint a + 33554432 < 67108864 * T + 67108864"
    using div_mult_mod_eq [of "20159 * sint a + 33554432" 67108864]
      pos_mod_bound [of 67108864 "20159 * sint a + 33554432"]
      pos_mod_sign [of 67108864 "20159 * sint a + 33554432"]
    unfolding T_def by linarith+
  have Tb: "- 10 \<le> T" "T \<le> 10" using T A by linarith+
  have R: "\<bar>sint a - 3329 * T\<bar> \<le> 1664" using T A by linarith
  define t where "t = sext16 (sar (sext32 (20159 :: i16) * sext32 a + shl (1 :: i32) 25) 26)"
  have "sint (sext32 (20159 :: i16) * sext32 a) = 20159 * sint a"
    using A by (subst sint_mult_fit) simp_all
  then have "sint (sext32 (20159 :: i16) * sext32 a + shl (1 :: i32) 25) = 20159 * sint a + 33554432"
    using A by (subst sint_add_fit) simp_all
  then have "sint (sar (sext32 (20159 :: i16) * sext32 a + shl (1 :: i32) 25) 26) = T"
    by (simp add: sint_sar T_def)
  then have t: "sint t = T" using Tb unfolding t_def by (subst sint_scast_fit) simp_all
  have tq: "sint (sext32 t * (MLKEM_PAR_Q :: i32)) = T * 3329"
    using Tb t by (subst sint_mult_fit) simp_all
  define u where "u = sext16 (sext32 t * (MLKEM_PAR_Q :: i32))"
  have u: "modeq 65536 (sint u) (T * 3329)"
    using sint_scast_modeq [where 'b = 16 and a = "sext32 t * (MLKEM_PAR_Q :: i32)"] by (simp add: u_def tq)
  have "barrett_reduce a = sext16 (sext32 a - sext32 u)"
    by (simp add: barrett_reduce_def Let_def t_def u_def)
  moreover have "sint (sext32 a - sext32 u) = sint a - sint u"
    using A i16_range [of u] by (subst sint_diff_fit) simp_all
  ultimately have "modeq 65536 (sint (barrett_reduce a)) (sint a - sint u)"
    using sint_scast_modeq [where 'b = 16 and a = "sext32 a - sext32 u"] by simp
  also have "modeq 65536 \<dots> (sint a - T * 3329)" by (intro modeq_intros modeq_refl u)
  finally have "sint (barrett_reduce a) = sint a - T * 3329"
    using R by (intro sint_unique) simp_all
  then show "sint (barrett_reduce a) = sint a - 3329 * ((20159 * sint a + 33554432) div 67108864)"
    and "\<bar>sint (barrett_reduce a)\<bar> \<le> 1664"
    using R by (simp_all add: T_def mult.commute)
qed

lemma barrett_reduce_modeq: "modeq 3329 (sint (barrett_reduce a)) (sint a)"
  by (simp add: barrett_reduce_exact modeq_iff_dvd)

section \<open>Products\<close>

lemma sint_mult_i16: "sint (sext32 (a :: i16) * sext32 (b :: i16)) = sint a * sint b"
proof -
  have "\<bar>sint a * sint b\<bar> \<le> 32768 * 32768"
    unfolding abs_mult using i16_range [of a] i16_range [of b] by (intro mult_mono) auto
  then show ?thesis by (subst sint_mult_fit) auto
qed

lemma fqmul_correct:
  fixes a b :: i16
  assumes "\<bar>sint a * sint b\<bar> < 32768 * 3329"
  shows fqmul_bound: "\<bar>sint (fqmul a b)\<bar> < 3329"
    and fqmul_modeq: "modeq 3329 (sint (fqmul a b) * 65536) (sint a * sint b)"
  using assms mlkem_montgomery_reduce_bound [of "sext32 a * sext32 b"]
    mlkem_montgomery_reduce_modeq [of "sext32 a * sext32 b"]
  by (auto simp: fqmul_def sint_mult_i16 abs_less_iff)

text \<open>A factor in \<open>[-1664, 1664]\<close>, such as a table entry, is small enough for every 16-bit operand.\<close>

lemma fqmul_small_ok:
  fixes a b :: i16
  assumes "\<bar>sint a\<bar> \<le> 1664"
  shows "\<bar>sint a * sint b\<bar> < 32768 * 3329"
proof -
  have "\<bar>sint a * sint b\<bar> \<le> 1664 * 32768"
    unfolding abs_mult using i16_range [of b] assms by (intro mult_mono) auto
  then show ?thesis by simp
qed

text \<open>A sum or difference of two 16-bit values that fits 16 bits is stored unchanged.\<close>

lemma sint_store_add:
  "\<bar>sint (x :: i16) + sint (y :: i16)\<bar> < 32768 \<Longrightarrow> sint (sext16 (sext32 x + sext32 y)) = sint x + sint y"
  using i16_range [of x] i16_range [of y]
  by (subst sint_scast_fit; subst sint_add_fit) (auto simp: abs_less_iff)

lemma sint_store_diff:
  "\<bar>sint (x :: i16) - sint (y :: i16)\<bar> < 32768 \<Longrightarrow> sint (sext16 (sext32 x - sext32 y)) = sint x - sint y"
  using i16_range [of x] i16_range [of y]
  by (subst sint_scast_fit; subst sint_diff_fit) (auto simp: abs_less_iff)

lemma fqmul_modeq_inv:
  assumes "\<bar>sint a * sint b\<bar> < 32768 * 3329"
  shows "modeq 3329 (sint (fqmul a b)) (169 * (sint a * sint b))"
proof -
  let ?y = "sint (fqmul a b)"
  have "?y = 169 * (?y * 65536) - 3329 * (3327 * ?y)" by simp
  also have "modeq 3329 \<dots> (169 * (?y * 65536))" by (simp add: modeq_iff_dvd)
  also have "modeq 3329 \<dots> (169 * (sint a * sint b))" by (intro modeq_mult modeq_refl fqmul_modeq assms)
  finally show ?thesis .
qed

text \<open>The shape of a polynomial whose coefficients are bounded by \<open>B\<close>.\<close>

definition poly_bounded :: "int \<Rightarrow> poly \<Rightarrow> bool" where
  "poly_bounded B r \<longleftrightarrow> length r = 256 \<and> (\<forall>x \<in> set r. \<bar>sint x\<bar> \<le> B)"

lemma replicate_bounded: "\<bar>sint c\<bar> \<le> B \<Longrightarrow> poly_bounded B (replicate 256 c)"
  by (simp add: poly_bounded_def)

end
