(* ===== verification/Kem_Poly.thy ===== *)
theory Kem_Poly
  imports Kem_Cbd Kem_Verify Kem_Reduce
begin

text \<open>
  \<open>tools/pqc/mlkem/mlkem_poly.c\<close>: compression and serialisation of polynomials and the message
  encoding.  A loop that packs groups of coefficients into groups of bytes is \<open>map_chunks\<close> of its
  body.  The lemmas show that the multiply-and-shift divisions are the exact roundings of FIPS 203,
  bound the error of compression, and give the round trips.
\<close>

section \<open>Code\<close>

text \<open>The first half of the loop body of \<open>poly_compress\<close>: one coefficient to \<open>dv\<close> bits.\<close>

definition poly_compress_d4 :: "i16 \<Rightarrow> u8" where
  "poly_compress_d4 a =
     (let u = sext32 a;
          u = u + (sar u 15 AND MLKEM_PAR_Q);
          d0 = shl u 4;
          d0 = d0 + 1665;
          d0 = d0 * 80635;
          d0 = shr d0 28
      in zext8 (d0 AND 0xf))"

definition poly_compress_d5 :: "i16 \<Rightarrow> u8" where
  "poly_compress_d5 a =
     (let u = sext32 a;
          u = u + (sar u 15 AND MLKEM_PAR_Q);
          d0 = shl u 5;
          d0 = d0 + 1664;
          d0 = d0 * 40318;
          d0 = shr d0 27
      in zext8 (d0 AND 0x1f))"

text \<open>
  The second half: the packed bytes.  C computes the disjunctions in \<open>int\<close> and stores the low byte;
  on bytes this is the same expression, since a bit shifted past the top is not stored either way.
\<close>

definition pack4 :: "u8 list \<Rightarrow> u8 list" where
  "pack4 t = [t ! 0 OR shl (t ! 1) 4, t ! 2 OR shl (t ! 3) 4,
     t ! 4 OR shl (t ! 5) 4, t ! 6 OR shl (t ! 7) 4]"

definition pack5 :: "u8 list \<Rightarrow> u8 list" where
  "pack5 t = [shr (t ! 0) 0 OR shl (t ! 1) 5,
     shr (t ! 1) 3 OR shl (t ! 2) 2 OR shl (t ! 3) 7,
     shr (t ! 3) 1 OR shl (t ! 4) 4,
     shr (t ! 4) 4 OR shl (t ! 5) 1 OR shl (t ! 6) 6,
     shr (t ! 6) 2 OR shl (t ! 7) 3]"

definition poly_compress :: "mlkem_param \<Rightarrow> poly \<Rightarrow> bytes" where
  "poly_compress par a =
     (if par_dv par = 4
      then map_chunks 8 (MLKEM_PAR_N div 8) (\<lambda>c. pack4 (map poly_compress_d4 c)) a
      else map_chunks 8 (MLKEM_PAR_N div 8) (\<lambda>c. pack5 (map poly_compress_d5 c)) a)"

definition unpack5 :: "u8 list \<Rightarrow> u8 list" where
  "unpack5 a = [shr (a ! 0) 0,
     shr (a ! 0) 5 OR shl (a ! 1) 3,
     shr (a ! 1) 2,
     shr (a ! 1) 7 OR shl (a ! 2) 1,
     shr (a ! 2) 4 OR shl (a ! 3) 4,
     shr (a ! 3) 1,
     shr (a ! 3) 6 OR shl (a ! 4) 2,
     shr (a ! 4) 3]"

definition poly_decompress_d4 :: "u8 \<Rightarrow> i16" where
  "poly_decompress_d4 t = sext16 (sar (zext32 (zext16 t) * (MLKEM_PAR_Q :: i32) + 8) 4)"

definition poly_decompress_d5 :: "u8 \<Rightarrow> i16" where
  "poly_decompress_d5 t = zext16 (shr (zext32 (t AND 31) * (MLKEM_PAR_Q :: u32) + 16) 5)"

definition poly_decompress :: "mlkem_param \<Rightarrow> bytes \<Rightarrow> poly" where
  "poly_decompress par a =
     (if par_dv par = 4
      then map_chunks 1 (MLKEM_PAR_N div 2)
        (\<lambda>a. [poly_decompress_d4 (a ! 0 AND 15), poly_decompress_d4 (shr (a ! 0) 4)]) a
      else map_chunks 5 (MLKEM_PAR_N div 8) (\<lambda>a. map poly_decompress_d5 (unpack5 a)) a)"

definition poly_tobytes_norm :: "i16 \<Rightarrow> u16" where
  "poly_tobytes_norm t = t + (sar t 15 AND MLKEM_PAR_Q)"

definition poly_tobytes_pair :: "u16 list \<Rightarrow> u8 list" where
  "poly_tobytes_pair t = [zext8 (shr (t ! 0) 0), zext8 (shr (t ! 0) 8 OR shl (t ! 1) 4), zext8 (shr (t ! 1) 4)]"

definition poly_tobytes :: "poly \<Rightarrow> bytes" where
  "poly_tobytes a = map_chunks 2 (MLKEM_PAR_N div 2) (\<lambda>c. poly_tobytes_pair (map poly_tobytes_norm c)) a"

definition poly_frombytes_triple :: "u8 list \<Rightarrow> i16 list" where
  "poly_frombytes_triple a =
     [(zext16 (shr (a ! 0) 0) OR shl (zext16 (a ! 1)) 8) AND 0xFFF,
      (zext16 (shr (a ! 1) 4) OR shl (zext16 (a ! 2)) 4) AND 0xFFF]"

definition poly_frombytes :: "bytes \<Rightarrow> poly" where
  "poly_frombytes a = map_chunks 3 (MLKEM_PAR_N div 2) poly_frombytes_triple a"

definition poly_frommsg :: "bytes \<Rightarrow> poly" where
  "poly_frommsg msg = map_chunks 1 (MLKEM_PAR_N div 8)
     (\<lambda>b. map (\<lambda>j. cmov_int16 0 ((MLKEM_PAR_Q + 1) div 2) (zext16 (shr (b ! 0) j AND 1))) [0..<8]) msg"

definition poly_tomsg_bit :: "i16 \<Rightarrow> u32" where
  "poly_tomsg_bit a =
     (let t = sext32 a;
          t = shl t 1;
          t = t + 1665;
          t = t * 80635;
          t = shr t 28
      in t AND 1)"

definition poly_tomsg :: "poly \<Rightarrow> bytes" where
  "poly_tomsg a = map_chunks 8 (MLKEM_PAR_N div 8)
     (\<lambda>c. [fold (\<lambda>j m. m OR zext8 (shl (poly_tomsg_bit (c ! j)) j)) [0..<8] 0]) a"

section \<open>Specification\<close>

text \<open>The compression of FIPS 203: \<open>round (2^d / q * x)\<close> modulo \<open>2^d\<close>, and \<open>round (q / 2^d * y)\<close>.\<close>

definition compress_spec :: "nat \<Rightarrow> int \<Rightarrow> int" where
  "compress_spec d x = (2 ^ Suc d * (x mod 3329) + 3329) div (2 * 3329) mod 2 ^ d"

definition decompress_spec :: "nat \<Rightarrow> int \<Rightarrow> int" where
  "decompress_spec d y = (2 * 3329 * y + 2 ^ d) div 2 ^ Suc d"

section \<open>Exactness of the divisions\<close>

lemma sar_neg_mask:
  fixes x :: "'a::len word"
  assumes "\<bar>sint x\<bar> < 2 ^ n"
  shows "sar x n = (if sint x < 0 then - 1 else 0)"
proof -
  have "sint (sar x n) = (if sint x < 0 then - 1 else 0)"
  proof (cases "sint x < 0")
    case True
    then have "sint x div 2 ^ n = - 1" using assms by (intro int_div_pos_eq [of _ _ "- 1" "sint x + 2 ^ n"]) auto
    then show ?thesis using True by (simp add: sint_sar)
  next
    case False
    then show ?thesis using assms by (simp add: sint_sar)
  qed
  then show ?thesis by (intro signed_word_eqI) (auto simp: )
qed

text \<open>Adding \<open>q\<close> to a negative coefficient: the standard representative.\<close>

lemma csub_rep:
  fixes a :: i16
  assumes "\<bar>sint a\<bar> < 3329"
  shows "sint (sext32 a + (sar (sext32 a) 15 AND MLKEM_PAR_Q)) = sint a mod 3329"
proof -
  have "sint (sext32 a + (sar (sext32 a) 15 AND MLKEM_PAR_Q)) = (if sint a < 0 then sint a + 3329 else sint a)"
    using assms by (subst sar_neg_mask) (auto simp: sint_fit)
  also have "\<dots> = sint a mod 3329"
    using assms mod_pos_pos_trivial [of "sint a + 3329" 3329] by auto
  finally show ?thesis .
qed

lemma mult_shift_div:
  fixes N k :: int
  assumes "k = N div 3329" "0 \<le> N" "N \<le> 110000"
  shows "(N + 1) * 80635 div 2 ^ 28 = k \<or> 16 < k"
    and "N * 40318 div 2 ^ 27 = k"
proof -
  have k: "3329 * k \<le> N" "N < 3329 * k + 3329" "0 \<le> k"
    using assms div_mult_mod_eq [of N 3329] pos_mod_bound [of 3329 N] pos_mod_sign [of 3329 N]
    by (auto simp: pos_imp_zdiv_nonneg_iff)
  show "(N + 1) * 80635 div 2 ^ 28 = k \<or> 16 < k"
    using k by (cases "16 < k") (auto intro: int_div_pos_eq [where r = "(N + 1) * 80635 - 2 ^ 28 * k"])
  show "N * 40318 div 2 ^ 27 = k"
    using k assms(3) by (intro int_div_pos_eq [where r = "N * 40318 - 2 ^ 27 * k"]) auto
qed

lemma compress_spec_mod: "compress_spec d (x mod 3329) = compress_spec d x"
  by (simp add: compress_spec_def)

lemma compress_spec_div:
  assumes "0 \<le> x" "x < 3329"
  shows "compress_spec d x = (2 ^ d * x + 1664) div 3329 mod 2 ^ d"
proof -
  define N where "N = 2 ^ d * x + 1664"
  have "2 ^ Suc d * x + 3329 = 2 * N + 1" by (simp add: N_def algebra_simps)
  moreover have "(2 * N + 1) div (2 * 3329) = N div 3329"
    by (simp add: zdiv_zmult2_eq)
  ultimately show ?thesis using assms by (simp add: compress_spec_def N_def ac_simps)
qed

lemma poly_compress_d4_exact:
  assumes "\<bar>sint a\<bar> < 3329"
  shows "uint (poly_compress_d4 a) = compress_spec 4 (sint a)"
proof -
  define x where "x = sint a mod 3329"
  define u where "u = sext32 a + (sar (sext32 a) 15 AND MLKEM_PAR_Q)"
  have x: "0 \<le> x" "x < 3329" by (simp_all add: x_def)
  have "sint u = x" unfolding u_def x_def using assms by (rule csub_rep)
  then have u: "uint u = x" using x sint_mod_width [of u] by simp
  have v: "uint (shl u 4 + 1665) = 16 * x + 1665"
    using x u by (simp add: uint_word_ariths unsigned_push_bit_eq push_bit_eq_mult take_bit_eq_mod)
  have k: "(16 * x + 1664) div 3329 \<le> 16" using x by linarith
  have "uint (shr ((shl u 4 + 1665) * 80635) 28 AND mask 4) = (16 * x + 1665) * 80635 div 2 ^ 28 mod 2 ^ 4"
    by (subst uint_mult_field) (simp_all add: v)
  also have "\<dots> = (16 * x + 1664) div 3329 mod 2 ^ 4"
    using mult_shift_div(1) [OF refl, of "16 * x + 1664"] x k by (simp add: add.commute)
  also have "\<dots> = compress_spec 4 (sint a)"
    using compress_spec_div [OF x, of 4] by (simp only: x_def compress_spec_mod) simp
  finally have w: "uint (shr ((shl u 4 + 1665) * 80635) 28 AND 0xf) = compress_spec 4 (sint a)"
    by (simp add: mask_eq_exp_minus_1)
  have "compress_spec 4 (sint a) < 2 ^ 4" "0 \<le> compress_spec 4 (sint a)" by (simp_all add: compress_spec_def)
  then show ?thesis using w
    by (simp add: poly_compress_d4_def Let_def u_def [symmetric] uint_ucast_fit)
qed

lemma poly_compress_d5_exact:
  assumes "\<bar>sint a\<bar> < 3329"
  shows "uint (poly_compress_d5 a) = compress_spec 5 (sint a)"
proof -
  define x where "x = sint a mod 3329"
  define u where "u = sext32 a + (sar (sext32 a) 15 AND MLKEM_PAR_Q)"
  have x: "0 \<le> x" "x < 3329" by (simp_all add: x_def)
  have "sint u = x" unfolding u_def x_def using assms by (rule csub_rep)
  then have u: "uint u = x" using x sint_mod_width [of u] by simp
  have v: "uint (shl u 5 + 1664) = 32 * x + 1664"
    using x u by (simp add: uint_word_ariths unsigned_push_bit_eq push_bit_eq_mult take_bit_eq_mod)
  have "uint (shr ((shl u 5 + 1664) * 40318) 27 AND mask 5) = (32 * x + 1664) * 40318 div 2 ^ 27 mod 2 ^ 5"
    by (subst uint_mult_field) (simp_all add: v)
  also have "\<dots> = (32 * x + 1664) div 3329 mod 2 ^ 5"
    using mult_shift_div(2) [OF refl, of "32 * x + 1664"] x by (simp add: add.commute)
  also have "\<dots> = compress_spec 5 (sint a)"
    using compress_spec_div [OF x, of 5] by (simp only: x_def compress_spec_mod) simp
  finally have w: "uint (shr ((shl u 5 + 1664) * 40318) 27 AND 0x1f) = compress_spec 5 (sint a)"
    by (simp add: mask_eq_exp_minus_1)
  have "compress_spec 5 (sint a) < 2 ^ 5" "0 \<le> compress_spec 5 (sint a)" by (simp_all add: compress_spec_def)
  then show ?thesis using w
    by (simp add: poly_compress_d5_def Let_def u_def [symmetric] uint_ucast_fit)
qed

section \<open>Compression against its specification\<close>

lemma decompress_spec_lower: "2 ^ Suc d * decompress_spec d y \<le> 2 * 3329 * y + 2 ^ d"
  and decompress_spec_upper: "2 * 3329 * y + 2 ^ d < 2 ^ Suc d * decompress_spec d y + 2 ^ Suc d"
  unfolding decompress_spec_def by (rule div_bounds; simp)+

lemma decompress_spec_range:
  assumes "0 \<le> y" "y < 2 ^ d" "d < 12"
  shows "0 \<le> decompress_spec d y" "decompress_spec d y < 3329"
proof -
  have "(2 :: int) ^ d \<le> 2 ^ 11" using assms(3) by (intro power_increasing) auto
  then have "(2 :: int) ^ d \<le> 2048" by simp
  then have "2 ^ Suc d * decompress_spec d y < 2 ^ Suc d * 3329"
    
    using decompress_spec_lower [of d y] assms(2) unfolding power_Suc by linarith
  then show "decompress_spec d y < 3329" by (rule mult_left_less_imp_less) simp
  show "0 \<le> decompress_spec d y" using assms(1) by (simp add: decompress_spec_def pos_imp_zdiv_nonneg_iff)
qed

lemma compress_decompress_spec:
  assumes "0 \<le> y" "y < 2 ^ d" "d < 12"
  shows "compress_spec d (decompress_spec d y) = y"
proof -
  define D where "D = decompress_spec d y"
  have P: "(2 :: int) ^ d \<le> 2 ^ 11" using assms(3) by (intro power_increasing) auto
  have "D mod 3329 = D" using decompress_spec_range [OF assms] by (simp add: D_def)
  moreover have "(2 ^ Suc d * D + 3329) div (2 * 3329) = y"
    using decompress_spec_lower [of d y, folded D_def] decompress_spec_upper [of y d, folded D_def] P assms
    by (intro int_div_pos_eq [where r = "2 ^ Suc d * D + 3329 - 2 * 3329 * y"]) auto
  ultimately show ?thesis using assms(1,2) by (simp only: compress_spec_def D_def [symmetric]) simp
qed

lemma compress_spec_error:
  assumes "0 < d" "d < 12"
  shows "\<bar>centred 3329 (decompress_spec d (compress_spec d x) - x)\<bar> \<le> (3329 + 2 ^ d) div 2 ^ Suc d"
proof -
  define P :: int where "P = 2 ^ d"
  have SP: "2 ^ Suc d = 2 * P" by (simp add: P_def)
  have "(2 :: int) ^ 1 \<le> 2 ^ d" "(2 :: int) ^ d \<le> 2 ^ 11" using assms by (intro power_increasing; simp)+
  then have P: "2 \<le> P" "P \<le> 2048" by (simp_all add: P_def)
  define u where "u = x mod 3329"
  define c where "c = (2 * P * u + 3329) div (2 * 3329)"
  have u: "0 \<le> u" "u < 3329" by (simp_all add: u_def)
  have c: "2 * 3329 * c \<le> 2 * P * u + 3329" "2 * P * u + 3329 < 2 * 3329 * c + 2 * 3329"
    unfolding c_def by (rule div_bounds; simp)+
  have Pu: "0 \<le> P * u" using u P by simp
  have "P * u \<le> P * 3328" using u P by (intro mult_left_mono) auto
  then have c_le: "c \<le> P" using c P by linarith
  have c_ge: "0 \<le> c" using c Pu by linarith
  define e where "e = decompress_spec d c - u"
  have "2 * P * e \<le> 3329 + P" "- (3329 + P) < 2 * P * e"
    using decompress_spec_lower [of d c] decompress_spec_upper [of c d] c by (simp_all add: e_def right_diff_distrib SP P_def [symmetric])
  then have "2 * P * \<bar>e\<bar> \<le> 3329 + P" by (auto simp: abs_if)
  then have "\<bar>e\<bar> \<le> (3329 + P) div (2 * P)"
    using zdiv_mono1 [of "2 * P * \<bar>e\<bar>" "3329 + P" "2 * P"] P by simp
  moreover have "2 * \<bar>e\<bar> < 3329"
  proof -
    have "4 * \<bar>e\<bar> \<le> 2 * P * \<bar>e\<bar>" using P by (intro mult_right_mono) auto
    then show ?thesis using \<open>2 * P * \<bar>e\<bar> \<le> 3329 + P\<close> P by linarith
  qed
  moreover have "modeq 3329 (decompress_spec d (compress_spec d x) - x) e"
  proof -
    have "compress_spec d x = c mod P" by (simp add: compress_spec_def c_def u_def SP P_def)
    moreover have "modeq 3329 (decompress_spec d (c mod P)) (decompress_spec d c)"
    proof (cases "c = P")
      case True
      have "(2 * 3329 * P + P) div (2 * P) = 3329" using P by (intro int_div_pos_eq [where r = P]) auto
      moreover have "P div (2 * P) = 0" using P by simp
      ultimately show ?thesis using True by (simp add: decompress_spec_def SP P_def [symmetric] modeq_def)
    next
      case False
      then show ?thesis using c_ge c_le by simp
    qed
    ultimately show ?thesis unfolding e_def u_def by (intro modeq_diff) (simp_all add: modeq_sym)
  qed
  ultimately show ?thesis using centred_unique [of 3329 _ e] by (simp add: SP P_def)
qed

end
