(* ===== verification/Kem_Poly_Correct.thy ===== *)
theory Kem_Poly_Correct
  imports Kem_Poly
begin

text \<open>
  Correctness of \<open>mlkem_poly.c\<close>: what every serialiser writes and every parser reads, in terms of the
  fields of the byte string, and the round trips that follow.
\<close>

section \<open>Decompression\<close>

lemma poly_decompress_d4_exact:
  assumes "uint t < 16"
  shows "sint (poly_decompress_d4 t) = decompress_spec 4 (uint t)"
proof -
  obtain y where y: "uint t = y" "0 \<le> y" "y < 16" using assms uint_u8 [of t] by blast
  have p: "sint (zext32 (zext16 t) * (3329 :: i32)) = y * 3329"
    using y by (subst sint_mult_fit) simp_all
  have "sint (zext32 (zext16 t) * (3329 :: i32) + 8) = y * 3329 + 8"
    using y by (subst sint_add_fit) (simp_all add: p)
  then have "sint (sar (zext32 (zext16 t) * (3329 :: i32) + 8) 4) = (y * 3329 + 8) div 16"
    by (simp add: sint_sar)
  also have "\<dots> = decompress_spec 4 y"
  proof -
    have "2 * 3329 * y + 2 ^ 4 = 2 * (y * 3329 + 8)" "2 ^ Suc 4 = 2 * (16 :: int)" by simp_all
    then show ?thesis by (simp only: decompress_spec_def zdiv_zmult2_eq) simp
  qed
  finally have v: "sint (sar (zext32 (zext16 t) * (3329 :: i32) + 8) 4) = decompress_spec 4 y" .
  show ?thesis unfolding poly_decompress_d4_def
    using decompress_spec_range [of y 4] y v by (subst sint_scast_fit) simp_all
qed

lemma poly_decompress_d5_exact: "sint (poly_decompress_d5 t) = decompress_spec 5 (uint t mod 32)"
proof -
  define y where "y = uint t mod 32"
  have y: "0 \<le> y" "y < 32" by (simp_all add: y_def)
  have m: "uint (t AND 31) = y"
    using uint_and_mask [of t 5] by (simp add: y_def mask_eq_exp_minus_1)
  have "uint (zext32 (t AND 31) * (3329 :: u32) + 16) = y * 3329 + 16"
    using y by (simp add: uint_word_ariths m)
  then have v: "uint (shr (zext32 (t AND 31) * (3329 :: u32) + 16) 5) = (y * 3329 + 16) div 32"
    by (simp add: uint_shr)
  also have "\<dots> = decompress_spec 5 y"
  proof -
    have "2 * 3329 * y + 2 ^ 5 = 2 * (y * 3329 + 16)" "2 ^ Suc 5 = 2 * (32 :: int)" by simp_all
    then show ?thesis by (simp only: decompress_spec_def zdiv_zmult2_eq) simp
  qed
  finally show ?thesis unfolding poly_decompress_d5_def y_def [symmetric]
    using decompress_spec_range [of y 5] y by (subst sint_eq_uint_small; simp add: uint_ucast_fit)
qed


section \<open>Packed fields\<close>

lemma pack4_field:
  assumes "length t = 8" "\<And>k. k < 8 \<Longrightarrow> unat (t ! k) < 16" "k < 8"
  shows "field 4 (pack4 t) k = unat (t ! k)"
proof (rule field_eq_unat)
  have z: "\<not> bit (t ! k) j" if "k < 8" "4 \<le> j" for k j
    using assms(2) [OF that(1)] that(2) small_iff_bits [of "t ! k" 4] by simp
  then show "\<not> bit (t ! k) j" if "4 \<le> j" for j using assms(3) that by simp
  have "\<forall>k<8. \<forall>j<4. byte_bit (pack4 t) (4 * k + j) = bit (t ! k) j"
    by (simp add: all_less_numeral byte_bit_def pack4_def bit_fields z flip: One_nat_def)
  then show "byte_bit (pack4 t) (4 * k + j) = bit (t ! k) j" if "j < 4" for j using assms(3) that by blast
qed

lemma pack5_field:
  assumes "length t = 8" "\<And>k. k < 8 \<Longrightarrow> unat (t ! k) < 32" "k < 8"
  shows "field 5 (pack5 t) k = unat (t ! k)"
proof (rule field_eq_unat)
  have z: "\<not> bit (t ! k) j" if "k < 8" "5 \<le> j" for k j
    using assms(2) [OF that(1)] that(2) small_iff_bits [of "t ! k" 5] by simp
  then show "\<not> bit (t ! k) j" if "5 \<le> j" for j using assms(3) that by simp
  have "\<forall>k<8. \<forall>j<5. byte_bit (pack5 t) (5 * k + j) = bit (t ! k) j"
    by (simp add: all_less_numeral byte_bit_def pack5_def bit_fields z del: push_bit_Suc flip: One_nat_def)
  then show "byte_bit (pack5 t) (5 * k + j) = bit (t ! k) j" if "j < 5" for j using assms(3) that by blast
qed

lemma unpack5_field:
  assumes "k < 8"
  shows "unat (unpack5 a ! k) mod 32 = field 5 a k"
proof -
  have "\<forall>k<8. \<forall>j<5. byte_bit a (5 * k + j) = bit (unpack5 a ! k) j"
    by (simp add: all_less_numeral byte_bit_def unpack5_def bit_fields del: push_bit_Suc flip: One_nat_def)
  then have b: "byte_bit a (5 * k + j) = bit (unpack5 a ! k) j" if "j < 5" for j using assms that by blast
  have "field 5 a k = unat (take_bit 5 (unpack5 a ! k))"
    by (rule field_eq_unat) (simp_all add: b bit_take_bit_iff)
  then show ?thesis using unat_and_mask [of "unpack5 a ! k" 5] by (simp add: take_bit_eq_mask)
qed

section \<open>Ciphertext polynomials\<close>

text \<open>Both directions of the second ciphertext component in terms of its \<open>dv\<close>-bit fields.\<close>

lemma compress_spec_range: "0 \<le> compress_spec d x" "compress_spec d x < 2 ^ d"
  by (simp_all add: compress_spec_def)

lemma poly_compress_field:
  assumes "length a = 256" "\<forall>x \<in> set a. \<bar>sint x\<bar> < 3329" "par_dv par \<in> {4, 5}" "i < 256"
  shows "int (field (par_dv par) (poly_compress par a) i) = compress_spec (par_dv par) (sint (a ! i))"
proof -
  define j k where "j = i div 8" and "k = i mod 8"
  have jk: "i = 8 * j + k" "j < 32" "k < 8"
    using index_group [of i 8 32] assms(4) by (simp_all add: j_def k_def)
  have mem: "\<bar>sint (chunk 8 j a ! m)\<bar> < 3329" if "m < 8" for m
    using assms(1,2) jk(2) that by simp
  have d4: "int (unat (poly_compress_d4 (chunk 8 j a ! m))) = compress_spec 4 (sint (chunk 8 j a ! m))" if "m < 8" for m
    using poly_compress_d4_exact [OF mem [OF that]] by (simp only: uint_nat)
  have d5: "int (unat (poly_compress_d5 (chunk 8 j a ! m))) = compress_spec 5 (sint (chunk 8 j a ! m))" if "m < 8" for m
    using poly_compress_d5_exact [OF mem [OF that]] by (simp only: uint_nat)
  have r: "compress_spec 4 x < 16" "compress_spec 5 x < 32" for x
    using compress_spec_range(2) [of 4 x] compress_spec_range(2) [of 5 x] by simp_all
  from assms(3) consider "par_dv par = 4" | "par_dv par = 5" by blast
  then show ?thesis
  proof cases
    case 1
    have lt: "unat (map poly_compress_d4 (chunk 8 j a) ! m) < 16" if "m < 8" for m
      using d4 [OF that] r [of "sint (chunk 8 j a ! m)"] that by (simp only: nth_map length_chunk)
    have "field 4 (poly_compress par a) i = field 4 (pack4 (map poly_compress_d4 (chunk 8 j a))) k"
      using 1 jk by (simp add: poly_compress_def field_map_chunks [where v = 4] pack4_def)
    also have "\<dots> = unat (poly_compress_d4 (chunk 8 j a ! k))"
      using lt jk by (subst pack4_field) simp_all
    finally show ?thesis using d4 [OF jk(3)] 1 jk by simp
  next
    case 2
    have lt: "unat (map poly_compress_d5 (chunk 8 j a) ! m) < 32" if "m < 8" for m
      using d5 [OF that] r [of "sint (chunk 8 j a ! m)"] that by (simp only: nth_map length_chunk)
    have "field 5 (poly_compress par a) i = field 5 (pack5 (map poly_compress_d5 (chunk 8 j a))) k"
      using 2 jk by (simp add: poly_compress_def field_map_chunks [where v = 5] pack5_def)
    also have "\<dots> = unat (poly_compress_d5 (chunk 8 j a ! k))"
      using lt jk by (subst pack5_field) simp_all
    finally show ?thesis using d5 [OF jk(3)] 2 jk by simp
  qed
qed

lemma poly_decompress_field:
  assumes "par_dv par \<in> {4, 5}" "i < 256"
  shows "sint (poly_decompress par bs ! i) = decompress_spec (par_dv par) (int (field (par_dv par) bs i))"
proof -
  from assms(1) consider "par_dv par = 4" | "par_dv par = 5" by blast
  then show ?thesis
  proof cases
    case 1
    define j k where "j = i div 2" and "k = i mod 2"
    have jk: "i = 2 * j + k" "j < 128" "k < 2"
      using index_group [of i 2 128] assms(2) by (simp_all add: j_def k_def)
    let ?a = "bs ! j" and ?f = "\<lambda>a. [poly_decompress_d4 (a ! 0 AND 15), poly_decompress_d4 (shr (a ! 0) 4)]"
    have u: "uint (?a AND 15) < 16" "uint (shr ?a 4) < 16"
      using uint_and_mask [of ?a 4] uint_u8 [of ?a] by (simp_all add: mask_eq_exp_minus_1 uint_shr)
    have f: "field 4 bs (2 * j) = unat (?a AND 15)" "field 4 bs (2 * j + 1) = unat (shr ?a 4)"
    proof -
      have b: "bit (?a AND 15) m = (m < 4 \<and> bit ?a m)" for m
        using bit_take_bit_iff [of 4 ?a m] by (simp add: take_bit_eq_mask mask_eq_exp_minus_1)
      have "byte_bit bs (4 * (2 * j) + m) = bit ?a m" "byte_bit bs (4 * (2 * j + 1) + m) = bit ?a (4 + m)"
        if "m < 4" for m
      proof -
        have e: "4 * (2 * j) + m = 8 * j + m" "4 * (2 * j + 1) + m = 8 * j + (4 + m)" by simp_all
        have "(8 * j + p) div 8 = j" "(8 * j + p) mod 8 = p" if "p < 8" for p using that by simp_all
        then show "byte_bit bs (4 * (2 * j) + m) = bit ?a m" "byte_bit bs (4 * (2 * j + 1) + m) = bit ?a (4 + m)"
          using that unfolding e byte_bit_def by simp_all
      qed
      then show "field 4 bs (2 * j) = unat (?a AND 15)" "field 4 bs (2 * j + 1) = unat (shr ?a 4)"
        by (intro field_eq_unat; simp add: b bit_drop_bit_eq bit_word_beyond)+
    qed
    have "poly_decompress par bs ! i = ?f (chunk 1 j bs) ! k"
      unfolding poly_decompress_def jk(1) 
      using nth_map_chunks [of 1 ?f 2 j 128 k bs] 1 jk(2,3) by simp
    then have "sint (poly_decompress par bs ! i) =
        decompress_spec 4 (uint (if k = 0 then ?a AND 15 else shr ?a 4))"
      using jk(3) u by (auto simp: poly_decompress_d4_exact less_Suc_eq numeral_2_eq_2)
    also have "uint (if k = 0 then ?a AND 15 else shr ?a 4) = int (field 4 bs i)"
    proof (cases "k = 0")
      case True
      then show ?thesis using f by (simp only: jk(1) if_True uint_nat) simp
    next
      case False
      then have "k = 1" using jk(3) by simp
      then show ?thesis using f by (simp only: jk(1) uint_nat) simp
    qed
    finally show ?thesis using 1 by simp
  next
    case 2
    define j k where "j = i div 8" and "k = i mod 8"
    have jk: "i = 8 * j + k" "j < 32" "k < 8"
      using index_group [of i 8 32] assms(2) by (simp_all add: j_def k_def)
    have l: "length (unpack5 c) = 8" for c by (simp add: unpack5_def)
    have "poly_decompress par bs ! i = poly_decompress_d5 (unpack5 (chunk 5 j bs) ! k)"
      unfolding poly_decompress_def jk(1) 
      using nth_map_chunks [of 5 "\<lambda>a. map poly_decompress_d5 (unpack5 a)" 8 j 32 k bs] 2 jk(2,3) l by simp
    then have "sint (poly_decompress par bs ! i) = decompress_spec 5 (uint (unpack5 (chunk 5 j bs) ! k) mod 32)"
      by (simp only: poly_decompress_d5_exact)
    also have "uint (unpack5 (chunk 5 j bs) ! k) mod 32 = int (unat (unpack5 (chunk 5 j bs) ! k) mod 32)"
      by (simp only: uint_nat) (simp add: of_nat_mod)
    also have "\<dots> = int (field 5 bs i)"
      using unpack5_field [OF jk(3), of "chunk 5 j bs"] field_chunk [of 8 5 5 k j bs] jk by (simp only:)
    finally show ?thesis using 2 by simp
  qed
qed

lemma length_poly_compress: "par_dv par \<in> {4, 5} \<Longrightarrow> length (poly_compress par a) = 32 * par_dv par"
  by (auto simp: poly_compress_def length_map_chunks [where v = 4] length_map_chunks [where v = 5] pack4_def pack5_def)

lemma length_poly_decompress [simp]: "length (poly_decompress par bs) = 256"
  by (simp add: poly_decompress_def length_map_chunks [where v = 2] length_map_chunks [where v = 8] unpack5_def)

lemma poly_decompress_range:
  assumes "par_dv par \<in> {4, 5}" "x \<in> set (poly_decompress par bs)"
  shows "0 \<le> sint x" "sint x < 3329"
proof -
  obtain i where i: "i < 256" "x = poly_decompress par bs ! i" using assms(2) by (auto simp: in_set_conv_nth)
  have "int (field (par_dv par) bs i) < 2 ^ par_dv par" using field_less [of "par_dv par" bs i]
    by (metis of_nat_less_numeral_power_cancel_iff of_nat_numeral of_nat_less_iff of_nat_power)
  moreover have "par_dv par < 12" using assms(1) by auto
  ultimately show "0 \<le> sint x" "sint x < 3329"
    using decompress_spec_range [of "int (field (par_dv par) bs i)" "par_dv par"] i(2)
      poly_decompress_field [OF assms(1) i(1), of bs] by simp_all
qed

lemma poly_compress_decompress:
  assumes "par_dv par \<in> {4, 5}" "length bs = 32 * par_dv par"
  shows "poly_compress par (poly_decompress par bs) = bs"
proof (rule fields_inj)
  let ?d = "par_dv par" and ?p = "poly_decompress par bs"
  show "length (poly_compress par ?p) = 32 * ?d" "length bs = 32 * ?d" "8 * (32 * ?d) = ?d * 256"
    using assms by (simp_all add: length_poly_compress)
  fix i :: nat
  assume i: "i < 256"
  have "int (field ?d (poly_compress par ?p) i) = compress_spec ?d (sint (?p ! i))"
    using poly_decompress_range [OF assms(1)] assms(1) i by (intro poly_compress_field) (auto simp: abs_less_iff)
  also have "\<dots> = compress_spec ?d (decompress_spec ?d (int (field ?d bs i)))"
    using assms(1) i by (simp add: poly_decompress_field)
  also have "\<dots> = int (field ?d bs i)"
    using field_less [of ?d bs i] assms(1)
    by (intro compress_decompress_spec) (auto simp flip: of_nat_less_iff)
  finally show "field ?d (poly_compress par ?p) i = field ?d bs i" by simp
qed

section \<open>Serialisation in twelve bits\<close>

lemma poly_tobytes_norm_rep:
  assumes "- 3329 < sint a" "sint a < 4096"
  shows "unat (poly_tobytes_norm a) = nat (if sint a < 0 then sint a + 3329 else sint a)"
proof -
  have s: "sint (poly_tobytes_norm a) = (if sint a < 0 then sint a + 3329 else sint a)"
    unfolding poly_tobytes_norm_def using assms by (subst sar_neg_mask) (auto simp: sint_fit)
  then have "uint (poly_tobytes_norm a) = (if sint a < 0 then sint a + 3329 else sint a)"
    using sint_mod_width [of "poly_tobytes_norm a"] assms by auto
  then show ?thesis by (rule unat_eq_nat)
qed

lemma poly_tobytes_pair_field:
  assumes "length t = 2" "\<And>k. k < 2 \<Longrightarrow> unat (t ! k) < 4096" "k < 2"
  shows "field 12 (poly_tobytes_pair t) k = unat (t ! k)"
proof (rule field_eq_unat)
  have z: "\<not> bit (t ! k) j" if "k < 2" "12 \<le> j" for k j
    using assms(2) [OF that(1)] that(2) small_iff_bits [of "t ! k" 12] by simp
  then show "\<not> bit (t ! k) j" if "12 \<le> j" for j using assms(3) that by simp
  have "\<forall>k<2. \<forall>j<12. byte_bit (poly_tobytes_pair t) (12 * k + j) = bit (t ! k) j"
    by (simp add: all_less_numeral byte_bit_def poly_tobytes_pair_def bit_fields z flip: One_nat_def)
  then show "byte_bit (poly_tobytes_pair t) (12 * k + j) = bit (t ! k) j" if "j < 12" for j
    using assms(3) that by blast
qed

lemma poly_frombytes_triple_field:
  assumes "k < 2"
  shows "unat (poly_frombytes_triple a ! k) = field 12 a k"
proof -
  have m: "(0xFFF :: i16) = mask 12" by (simp add: mask_eq_exp_minus_1)
  have z: "\<forall>k<2. \<forall>j\<ge>12. \<not> bit (poly_frombytes_triple a ! k) j"
    unfolding poly_frombytes_triple_def m by (simp add: all_less_numeral bit_and_iff bit_mask_iff flip: One_nat_def)
  have "\<forall>k<2. \<forall>j<12. byte_bit a (12 * k + j) = bit (poly_frombytes_triple a ! k) j"
    unfolding poly_frombytes_triple_def m
    by (simp add: all_less_numeral byte_bit_def bit_fields bit_mask_iff flip: One_nat_def)
  then show ?thesis using z assms by (intro field_eq_unat [symmetric]) auto
qed

lemma poly_frombytes_field:
  assumes "i < 256"
  shows "sint (poly_frombytes bs ! i) = int (field 12 bs i)"
proof -
  define j k where "j = i div 2" and "k = i mod 2"
  have jk: "i = 2 * j + k" "j < 128" "k < 2"
    using index_group [of i 2 128] assms by (simp_all add: j_def k_def)
  have "poly_frombytes bs ! i = poly_frombytes_triple (chunk 3 j bs) ! k"
    unfolding poly_frombytes_def jk(1)
    using nth_map_chunks [of 3 poly_frombytes_triple 2 j 128 k bs] jk(2,3) by (simp add: poly_frombytes_triple_def)
  then have u: "unat (poly_frombytes bs ! i) = field 12 bs i"
    using poly_frombytes_triple_field [OF jk(3), of "chunk 3 j bs"] field_chunk [of 2 12 3 k j bs] jk
    by (simp only:)
  then show ?thesis using field_less [of 12 bs i] by (subst sint_eq_unat) simp_all
qed

lemma length_poly_frombytes [simp]: "length (poly_frombytes bs) = 256"
  by (simp add: poly_frombytes_def length_map_chunks [where v = 2] poly_frombytes_triple_def)

lemma length_poly_tobytes [simp]: "length (poly_tobytes a) = 384"
  by (simp add: poly_tobytes_def length_map_chunks [where v = 3] poly_tobytes_pair_def)

lemma poly_tobytes_field:
  assumes "length a = 256" "\<forall>x \<in> set a. - 3329 < sint x \<and> sint x < 4096" "i < 256"
  shows "int (field 12 (poly_tobytes a) i) = (if sint (a ! i) < 0 then sint (a ! i) + 3329 else sint (a ! i))"
proof -
  define j k where "j = i div 2" and "k = i mod 2"
  have jk: "i = 2 * j + k" "j < 128" "k < 2"
    using index_group [of i 2 128] assms(3) by (simp_all add: j_def k_def)
  let ?n = "map poly_tobytes_norm (chunk 2 j a)"
  have n: "unat (?n ! m) = nat (if sint (a ! (2 * j + m)) < 0 then sint (a ! (2 * j + m)) + 3329 else sint (a ! (2 * j + m)))"
    if "m < 2" for m
    using assms(1,2) jk(2) that by (simp add: poly_tobytes_norm_rep)
  have lt: "unat (?n ! m) < 4096" if "m < 2" for m
  proof -
    have "a ! (2 * j + m) \<in> set a" using assms(1) jk(2) that by simp
    then show ?thesis unfolding n [OF that] using assms(2) by auto
  qed
  have "field 12 (poly_tobytes a) i = field 12 (poly_tobytes_pair ?n) k"
    unfolding poly_tobytes_def jk(1) using jk(2,3)
    by (subst field_map_chunks [where v = 3]) (simp_all add: poly_tobytes_pair_def)
  also have "\<dots> = unat (?n ! k)" using lt jk(3) by (intro poly_tobytes_pair_field) simp_all
  finally have f: "field 12 (poly_tobytes a) i = unat (?n ! k)" .
  have "- 3329 < sint (a ! i)" using assms by simp
  then show ?thesis unfolding f n [OF jk(3)] by (simp add: jk(1))
qed

text \<open>The two serialisations are inverse to each other on twelve-bit strings and on residues.\<close>

lemma poly_tobytes_frombytes:
  assumes "length bs = 384"
  shows "poly_tobytes (poly_frombytes bs) = bs"
proof (rule fields_inj [where w = 12 and N = 256])
  fix i :: nat
  assume i: "i < 256"
  have r: "0 \<le> sint (poly_frombytes bs ! m)" "sint (poly_frombytes bs ! m) < 4096" if "m < 256" for m
    using poly_frombytes_field [OF that, of bs] field_less [of 12 bs m] by simp_all
  have "\<forall>x \<in> set (poly_frombytes bs). - 3329 < sint x \<and> sint x < 4096"
  proof
    fix x
    assume "x \<in> set (poly_frombytes bs)"
    then obtain m where "m < 256" "x = poly_frombytes bs ! m" by (auto simp: in_set_conv_nth)
    then show "- 3329 < sint x \<and> sint x < 4096" using r [of m] by simp
  qed
  then have "int (field 12 (poly_tobytes (poly_frombytes bs)) i) = int (field 12 bs i)"
    using poly_tobytes_field [of "poly_frombytes bs" i] i r(1) [OF i] by (simp add: poly_frombytes_field)
  then show "field 12 (poly_tobytes (poly_frombytes bs)) i = field 12 bs i" by simp
qed (use assms in simp_all)

lemma poly_frombytes_tobytes:
  assumes "length a = 256" "\<forall>x \<in> set a. \<bar>sint x\<bar> < 3329" "i < 256"
  shows "sint (poly_frombytes (poly_tobytes a) ! i) = sint (a ! i) mod 3329"
proof -
  have b: "- 3329 < sint (a ! i)" "sint (a ! i) < 3329"
    using bspec [OF assms(2) nth_mem [of i a]] assms(1,3) by (simp_all add: abs_less_iff)
  have "sint (poly_frombytes (poly_tobytes a) ! i) = (if sint (a ! i) < 0 then sint (a ! i) + 3329 else sint (a ! i))"
  proof -
    have "\<forall>x \<in> set a. - 3329 < sint x \<and> sint x < 4096"
    proof
      fix x
      assume "x \<in> set a"
      then have "\<bar>sint x\<bar> < 3329" using assms(2) by blast
      then show "- 3329 < sint x \<and> sint x < 4096" by linarith
    qed
    then show ?thesis unfolding poly_frombytes_field [OF assms(3)]
      by (rule poly_tobytes_field [OF assms(1) _ assms(3)])
  qed
  also have "\<dots> = sint (a ! i) mod 3329"
    using b mod_pos_pos_trivial [of "sint (a ! i) + 3329" 3329] by auto
  finally show ?thesis .
qed

section \<open>Messages\<close>

lemma length_poly_frommsg [simp]: "length (poly_frommsg msg) = 256"
  by (simp add: poly_frommsg_def length_map_chunks [where v = 8])

lemma poly_frommsg_nth:
  assumes "k < 256"
  shows "poly_frommsg msg ! k = (if byte_bit msg k then 1665 else 0)"
proof -
  define i j where "i = k div 8" and "j = k mod 8"
  have ij: "k = 8 * i + j" "i < 32" "j < 8"
    using index_group [of k 8 32] assms by (simp_all add: i_def j_def)
  have "poly_frommsg msg ! k = cmov_int16 0 ((MLKEM_PAR_Q + 1) div 2) (zext16 (shr (msg ! i) j AND 1))"
    unfolding poly_frommsg_def ij(1) using ij(2,3) by (subst nth_map_chunks [where v = 8]) simp_all
  also have "\<dots> = (if bit (msg ! i) j then 1665 else 0)"
    unfolding shr_and_1 by (cases "bit (msg ! i) j") (simp_all add: cmov_int16_select)
  finally show ?thesis by (simp add: byte_bit_def i_def j_def)
qed

lemma poly_tomsg_bit_exact:
  assumes "\<bar>sint a\<bar> \<le> 1664"
  shows "poly_tomsg_bit a = of_bool (833 \<le> \<bar>sint a\<bar>)"
proof -
  define w where "w = sext32 a * 2"
  define u where "u = w + 1665"
  define v where "v = u * (80635 :: u32)"
  define x where "x = (2 * sint a + 1665) * 80635"
  have e: "shl (sext32 a) 1 = w" by (simp add: w_def push_bit_eq_mult)
  have "modeq (2 ^ 32) (sint w) (sint a * 2)"
    using sint_mult_modeq [of "sext32 a" 2] by (simp add: w_def)
  then have "modeq (2 ^ 32) (sint w + sint (1665 :: u32)) (sint a * 2 + 1665)" by (intro modeq_add) simp_all
  then have "modeq (2 ^ 32) (sint u) (sint a * 2 + 1665)"
    using sint_add_modeq [of w 1665] by (auto simp: u_def intro: modeq_trans)
  then have "modeq (2 ^ 32) (sint u * sint (80635 :: u32)) ((sint a * 2 + 1665) * 80635)" by (intro modeq_mult) simp_all
  then have "modeq (2 ^ 32) (sint v) ((sint a * 2 + 1665) * 80635)"
    using sint_mult_modeq [of u 80635] by (auto simp: v_def intro: modeq_trans)
  then have "uint (shr v 28 AND mask 1) = x div 2 ^ 28 mod 2 ^ 1"
    by (intro uint_field_modeq) (simp_all add: x_def mult.commute)
  also have "x div 2 ^ 28 = (if sint a \<le> - 833 then - 1 else if sint a < 833 then 0 else 1)"
    using assms by (intro int_div_pos_eq [where r = "x - 2 ^ 28 * (if sint a \<le> - 833 then - 1 else if sint a < 833 then 0 else 1)"])
      (auto simp: x_def)
  also have "\<dots> mod 2 ^ 1 = uint (of_bool (833 \<le> \<bar>sint a\<bar>) :: u32)" by auto
  finally have "uint (shr v 28 AND 1) = uint (of_bool (833 \<le> \<bar>sint a\<bar>) :: u32)" by (simp add: mask_eq_exp_minus_1)
  then show ?thesis unfolding poly_tomsg_bit_def Let_def e v_def u_def by (rule word_uint_eqI)
qed

lemma length_poly_tomsg [simp]: "length (poly_tomsg a) = 32"
  by (simp add: poly_tomsg_def length_map_chunks [where v = 1])

lemma poly_tomsg_bits:
  assumes "length a = 256" "\<forall>x \<in> set a. \<bar>sint x\<bar> \<le> 1664" "k < 256"
  shows "byte_bit (poly_tomsg a) k = (833 \<le> \<bar>sint (a ! k)\<bar>)"
proof -
  define i j where "i = k div 8" and "j = k mod 8"
  have ij: "k = 8 * i + j" "i < 32" "j < 8"
    using index_group [of k 8 32] assms(3) by (simp_all add: i_def j_def)
  let ?c = "chunk 8 i a"
  let ?f = "\<lambda>j. zext8 (shl (poly_tomsg_bit (?c ! j)) j)"
  have "poly_tomsg_bit (?c ! m) = of_bool (833 \<le> \<bar>sint (a ! (8 * i + m))\<bar>)" if "m < 8" for m
    using assms(1,2) ij(2) that by (simp add: poly_tomsg_bit_exact)
  then have f: "bit (?f m) n = (m = n \<and> 833 \<le> \<bar>sint (a ! (8 * i + m))\<bar>)" if "m < 8" for m n
    using that by (auto simp: bit_unsigned_iff bit_push_bit_iff bit_1_iff)
  have "poly_tomsg a ! i = fold (\<lambda>j m. m OR ?f j) [0..<8] 0"
    unfolding poly_tomsg_def
    using nth_map_chunks [of 8 "\<lambda>c. [fold (\<lambda>j m. m OR zext8 (shl (poly_tomsg_bit (c ! j)) j)) [0..<8] 0]" 1 i 32 0 a] ij(2)
    by simp
  then have "byte_bit (poly_tomsg a) k = bit (fold (\<lambda>j m. m OR ?f j) [0..<8] 0) j"
    by (simp add: byte_bit_def i_def j_def)
  also have "\<dots> = (\<exists>m<8. bit (?f m) j)" by (auto simp: bit_fold_or)
  also have "\<dots> = (833 \<le> \<bar>sint (a ! k)\<bar>)" using f ij by auto
  finally show ?thesis .
qed

text \<open>A message survives any noise of fewer than \<open>832\<close> on every coefficient: the decoding radius.\<close>

lemma poly_tomsg_noise:
  assumes "length a = 256" "\<forall>x \<in> set a. \<bar>sint x\<bar> \<le> 1664" "length m = 32"
    and noise: "\<And>k. k < 256 \<Longrightarrow> modeq 3329 (sint (a ! k)) (sint (poly_frommsg m ! k) + e k) \<and> \<bar>e k\<bar> \<le> 831"
  shows "poly_tomsg a = m"
proof (rule fields_inj [where w = 1 and N = 256])
  fix k :: nat
  assume k: "k < 256"
  have ak: "\<bar>sint (a ! k)\<bar> \<le> 1664" using assms(1,2) k by simp
  have "(833 \<le> \<bar>sint (a ! k)\<bar>) = byte_bit m k"
  proof (cases "byte_bit m k")
    case True
    then have "modeq 3329 (sint (a ! k)) (1665 + e k)" "\<bar>e k\<bar> \<le> 831"
      using noise [OF k] k by (simp_all add: poly_frommsg_nth)
    note n = this
    have "sint (a ! k) = 1665 + e k \<or> sint (a ! k) = e k - 1664"
    proof (cases "e k < 0")
      case True
      then show ?thesis using n ak by (intro disjI1 modeq_centred_eq [of 3329]) auto
    next
      case False
      have "modeq 3329 (1665 + e k) (e k - 1664)" by (rule modeqI [where k = 1]) simp
      then have "modeq 3329 (sint (a ! k)) (e k - 1664)" using n(1) modeq_trans by blast
      then show ?thesis using False n ak by (intro disjI2 modeq_centred_eq [of 3329]) auto
    qed
    then show ?thesis using True \<open>\<bar>e k\<bar> \<le> 831\<close> by auto
  next
    case False
    then have "modeq 3329 (sint (a ! k)) (e k)" "\<bar>e k\<bar> \<le> 831"
      using noise [OF k] k by (simp_all add: poly_frommsg_nth)
    then have "sint (a ! k) = e k" using ak by (intro modeq_centred_eq [of 3329]) auto
    then show ?thesis using False \<open>\<bar>e k\<bar> \<le> 831\<close> by auto
  qed
  then show "field 1 (poly_tomsg a) k = field 1 m k"
    using poly_tomsg_bits [OF assms(1,2) k] by (simp add: field_def)
qed (use assms in simp_all)

section \<open>Properties\<close>

text \<open>\<open>poly_compress\<close> and \<open>poly_decompress\<close> are the standard's \<open>ByteEncode (Compress f)\<close> and
  \<open>Decompress (ByteDecode b)\<close> on every coefficient: the multiplications by \<open>80635\<close> and \<open>40318\<close> with a
  shift divide by \<open>q\<close> with the exact rounding, although the 32-bit product wraps.\<close>

theorem poly_compress_correct:
  assumes "length a = 256" "\<forall>x \<in> set a. \<bar>sint x\<bar> < 3329" "par_dv par \<in> {4, 5}" "i < 256"
  shows "int (field (par_dv par) (poly_compress par a) i) = compress_spec (par_dv par) (sint (a ! i)) \<and>
    sint (poly_decompress par bs ! i) = decompress_spec (par_dv par) (int (field (par_dv par) bs i))"
  using assms by (simp add: poly_compress_field poly_decompress_field)

theorem poly_compress_correct_witness:
  "int (field 5 (poly_compress mlkem_1024 (replicate 256 (- 833))) 7) = 24 \<and>
   sint (poly_decompress mlkem_1024 (replicate 160 255) ! 9) = 3225"
proof -
  have "field 5 (replicate 160 255) 9 = 31" by code_simp
  then show ?thesis
    using poly_compress_correct [of "replicate 256 (- 833)" mlkem_1024 7 "[]"]
      poly_compress_correct [of "replicate 256 (- 833)" mlkem_1024 9 "replicate 160 255"]
    by (simp add: mlkem_1024_def compress_spec_def decompress_spec_def)
qed

text \<open>Compression loses at most the standard's rounding error, and nothing when the ciphertext
  comes first: decompressing and compressing again returns every byte string.\<close>

theorem poly_compress_roundtrip:
  assumes "length a = 256" "\<forall>x \<in> set a. \<bar>sint x\<bar> < 3329" "par_dv par \<in> {4, 5}" "length bs = 32 * par_dv par" "i < 256"
  shows "poly_compress par (poly_decompress par bs) = bs \<and>
    \<bar>centred 3329 (sint (poly_decompress par (poly_compress par a) ! i) - sint (a ! i))\<bar>
      \<le> (if par_dv par = 4 then 104 else 52)"
proof -
  have "sint (poly_decompress par (poly_compress par a) ! i) =
      decompress_spec (par_dv par) (compress_spec (par_dv par) (sint (a ! i)))"
    using assms by (simp add: poly_decompress_field poly_compress_field)
  then show ?thesis
    using assms poly_compress_decompress [OF assms(3,4)] compress_spec_error [of "par_dv par" "sint (a ! i)"] by auto
qed

theorem poly_compress_roundtrip_witness:
  "poly_compress mlkem_512 (poly_decompress mlkem_512 (replicate 128 90)) = replicate 128 90 \<and>
   \<bar>centred 3329 (sint (poly_decompress mlkem_512 (poly_compress mlkem_512 (replicate 256 1000)) ! 3) - 1000)\<bar> \<le> 104"
  using poly_compress_roundtrip [of "replicate 256 1000" mlkem_512 "replicate 128 90" 3]
  by (simp add: mlkem_512_def)

text \<open>\<open>poly_tobytes\<close> and \<open>poly_frombytes\<close> are inverse to each other: every 384-byte string is
  reproduced, and a coefficient in \<open>(-q, q)\<close> comes back as its standard representative.\<close>

theorem poly_tobytes_roundtrip:
  assumes "length bs = 384" "length a = 256" "\<forall>x \<in> set a. \<bar>sint x\<bar> < 3329" "i < 256"
  shows "poly_tobytes (poly_frombytes bs) = bs \<and>
    sint (poly_frombytes (poly_tobytes a) ! i) = sint (a ! i) mod 3329"
  using assms poly_tobytes_frombytes poly_frombytes_tobytes by blast

theorem poly_tobytes_roundtrip_witness:
  "poly_tobytes (poly_frombytes (replicate 384 255)) = replicate 384 255 \<and>
   sint (poly_frombytes (poly_tobytes (replicate 256 (- 3))) ! 8) = 3326"
  using poly_tobytes_roundtrip [of "replicate 384 255" "replicate 256 (- 3)" 8] by simp

text \<open>Decoding recovers the message from its encoding whenever every coefficient of the centred
  polynomial differs from the encoded one by at most \<open>831\<close> modulo \<open>q\<close>.\<close>

theorem poly_msg_noise:
  assumes "length a = 256" "\<forall>x \<in> set a. \<bar>sint x\<bar> \<le> 1664" "length m = 32"
    and "\<And>k. k < 256 \<Longrightarrow> modeq 3329 (sint (a ! k)) (sint (poly_frommsg m ! k) + e k) \<and> \<bar>e k\<bar> \<le> 831"
  shows "poly_tomsg a = m"
  using assms by (rule poly_tomsg_noise)

theorem poly_msg_noise_witness:
  "poly_tomsg (replicate 256 (- 834)) = replicate 32 255"
proof (rule poly_msg_noise [where e = "\<lambda>k. 830"])
  fix k :: nat
  assume k: "k < 256"
  have "byte_bit (replicate 32 255) k = bit (255 :: u8) (k mod 8)"
    using k by (simp add: byte_bit_def less_mult_imp_div_less)
  also have "\<dots>"
  proof -
    have "\<forall>j<8. bit (255 :: u8) j" by (simp add: all_less_numeral)
    then show ?thesis by (metis mod_less_divisor zero_less_numeral)
  qed
  finally show "modeq 3329 (sint (replicate 256 (- 834 :: i16) ! k)) (sint (poly_frommsg (replicate 32 255) ! k) + 830) \<and>
      \<bar>830 :: int\<bar> \<le> 831"
    using k by (simp add: poly_frommsg_nth modeq_def)
qed simp_all

end
