(* ===== verification/Ntt_Tree.thy ===== *)
theory Ntt_Tree
  imports Prelude
begin

text \<open>
  The mathematics both transforms share, over integer-valued functions modulo \<open>q\<close>.  A transform of
  length \<open>2 ^ K\<close> splits \<open>X^N + 1\<close> along a binary tree: node \<open>i\<close> of level \<open>l\<close> (\<open>2 ^ l \<le> i < 2 ^ Suc l\<close>)
  stands for the factor \<open>X^(2^(K - l)) - gam z i\<close> and is split by a square root \<open>z i\<close> of \<open>gam z i\<close>.
  The locale \<open>ntt_tree\<close> states what the table of roots has to satisfy; the two libraries interpret
  it on their own tables.
\<close>

definition gam :: "(nat \<Rightarrow> int) \<Rightarrow> nat \<Rightarrow> int" where
  "gam z i = (if i \<le> 1 then - 1 else if even i then z (i div 2) else - z (i div 2))"

text \<open>
  \<open>ntt_eval z K a l k m\<close> is coefficient \<open>m\<close> of the residue of the polynomial \<open>a\<close> modulo
  \<open>X^(2^(K - l)) - gam z (2^l + k)\<close>.
\<close>

definition ntt_eval :: "(nat \<Rightarrow> int) \<Rightarrow> nat \<Rightarrow> (nat \<Rightarrow> int) \<Rightarrow> nat \<Rightarrow> nat \<Rightarrow> nat \<Rightarrow> int" where
  "ntt_eval z K a l k m = (\<Sum>t<2 ^ l. a (t * 2 ^ (K - l) + m) * gam z (2 ^ l + k) ^ t)"

text \<open>The array \<open>r\<close> holds \<open>c\<close> times the residues of \<open>a\<close> at level \<open>l\<close>, block after block.\<close>

definition layer_rep ::
  "int \<Rightarrow> (nat \<Rightarrow> int) \<Rightarrow> nat \<Rightarrow> int \<Rightarrow> (nat \<Rightarrow> int) \<Rightarrow> nat \<Rightarrow> (nat \<Rightarrow> int) \<Rightarrow> bool" where
  "layer_rep q z K c a l r \<longleftrightarrow>
     (\<forall>k < 2 ^ l. \<forall>m < 2 ^ (K - l). modeq q (r (k * 2 ^ (K - l) + m)) (c * ntt_eval z K a l k m))"

text \<open>The product in \<open>Z[X]/(X^N + 1)\<close>, and the product in \<open>Z[X]/(X^n - g)\<close>.\<close>

definition negacyclic :: "nat \<Rightarrow> (nat \<Rightarrow> int) \<Rightarrow> (nat \<Rightarrow> int) \<Rightarrow> nat \<Rightarrow> int" where
  "negacyclic N a b k = (\<Sum>i<N. \<Sum>j<N. a i * b j * (of_bool (i + j = k) - of_bool (i + j = k + N)))"

definition block_mult :: "nat \<Rightarrow> int \<Rightarrow> (nat \<Rightarrow> int) \<Rightarrow> (nat \<Rightarrow> int) \<Rightarrow> nat \<Rightarrow> int" where
  "block_mult n g a b k = (\<Sum>i<n. \<Sum>j<n. a i * b j * (of_bool (i + j = k) + g * of_bool (i + j = k + n)))"

lemma gam_left: "0 < i \<Longrightarrow> gam z (2 * i) = z i"
  by (simp add: gam_def)

lemma gam_right: "0 < i \<Longrightarrow> gam z (Suc (2 * i)) = - z i"
  by (simp add: gam_def)

lemma gam_root [simp]: "gam z (Suc 0) = - 1"
  by (simp add: gam_def)

lemma ntt_eval_0: "ntt_eval z K a 0 0 m = a m"
  by (simp add: ntt_eval_def)

lemma layer_rep_0: "layer_rep q z K 1 a 0 a"
  by (simp add: layer_rep_def ntt_eval_0)

text \<open>
  In \<open>Z[X]/(X^n - g)\<close> with \<open>g ^ M = -1\<close>, the powers of \<open>X\<close> between \<open>0\<close> and \<open>2 * M * n\<close> fold back as
  powers of \<open>g\<close>.
\<close>

lemma fold_delta_aux:
  fixes g :: int and v M :: nat
  assumes "modeq q (g ^ M) (- 1)" "v < 2 * M"
  shows "modeq q (\<Sum>u<M. (of_bool (v = u) - of_bool (v = u + M)) * g ^ u) (g ^ v)"
proof (cases "v < M")
  case True
  have "(\<Sum>u<M. (of_bool (v = u) - of_bool (v = u + M)) * g ^ u) = (\<Sum>u<M. if u = v then g ^ u else 0)"
    using True by (intro sum.cong) auto
  then show ?thesis using True by simp
next
  case False
  have "(\<Sum>u<M. (of_bool (v = u) - of_bool (v = u + M)) * g ^ u) =
      (\<Sum>u<M. if u = v - M then - (g ^ u) else 0)"
    using False by (intro sum.cong) auto
  also have "\<dots> = - 1 * g ^ (v - M)" using False assms(2) by simp
  also have "modeq q \<dots> (g ^ M * g ^ (v - M))"
    by (intro modeq_mult modeq_refl modeq_sym [OF assms(1)])
  also have "\<dots> = g ^ v" using False by (simp flip: power_add)
  finally show ?thesis .
qed

lemma fold_delta:
  fixes g :: int
  assumes gM: "modeq q (g ^ M) (- 1)" and m: "m < n"
    and "s < M" "t < M" "i < n" "j < n"
  shows "modeq q (\<Sum>u<M. (of_bool (s * n + i + (t * n + j) = u * n + m)
        - of_bool (s * n + i + (t * n + j) = u * n + m + M * n)) * g ^ u)
    (g ^ (s + t) * (of_bool (i + j = m) + g * of_bool (i + j = m + n)))"
proof -
  have e: "s * n + i + (t * n + j) = (s + t) * n + (i + j)" by (simp add: algebra_simps)
  consider "i + j = m" | "i + j = m + n" | "i + j \<noteq> m" "i + j \<noteq> m + n" by blast
  then show ?thesis
  proof cases
    case 1
    have "((s + t) * n + (i + j) = u * n + m) = (s + t = u)"
      "((s + t) * n + (i + j) = u * n + m + M * n) = (s + t = u + M)" for u
      using 1 m by (simp_all flip: add_mult_distrib)
    then show ?thesis unfolding e using fold_delta_aux [OF gM, of "s + t"] assms 1 by simp
  next
    case 2
    have "((s + t) * n + (i + j) = u * n + m) = (Suc (s + t) = u)"
      "((s + t) * n + (i + j) = u * n + m + M * n) = (Suc (s + t) = u + M)" for u
    proof -
      have "(s + t) * n + (i + j) = Suc (s + t) * n + m" using 2 by simp
      then show "((s + t) * n + (i + j) = u * n + m) = (Suc (s + t) = u)"
        "((s + t) * n + (i + j) = u * n + m + M * n) = (Suc (s + t) = u + M)"
        using m by (simp_all del: mult_Suc flip: add_mult_distrib)
    qed
    then show ?thesis unfolding e using fold_delta_aux [OF gM, of "Suc (s + t)"] assms 2 by (simp add: ac_simps)
  next
    case 3
    have no: "(s + t) * n + (i + j) \<noteq> v * n + m" for v
    proof
      assume "(s + t) * n + (i + j) = v * n + m"
      then have "((s + t) * n + (i + j)) mod n = (v * n + m) mod n" by simp
      then have r: "(i + j) mod n = m" using m by simp
      have "i + j < 2 * n" using assms by simp
      then have "(i + j) div n < 2" by (simp add: less_mult_imp_div_less)
      then have "(i + j) div n = 0 \<or> (i + j) div n = 1" by linarith
      then show False using 3 r div_mult_mod_eq [of "i + j" n] by auto
    qed
    have "u * n + m + M * n = (u + M) * n + m" for u by (simp add: add_mult_distrib)
    then show ?thesis unfolding e using 3 no by (simp only: of_bool_eq) simp
  qed
qed

fun powmod :: "int \<Rightarrow> int \<Rightarrow> nat \<Rightarrow> int" where
  "powmod g q 0 = 1 mod q"
| "powmod g q (Suc n) = powmod g q n * g mod q"

lemma powmod_eq: "powmod g q n = g ^ n mod q"
  by (induction n) (simp_all add: mod_mult_left_eq mult.commute mod_mult_right_eq)

lemma upt_0_numeral: "2 < n \<Longrightarrow> [0..<n] = 0 # 1 # [2..<n]"
  by (simp add: upt_conv_Cons numeral_2_eq_2)

locale ntt_tree =
  fixes q :: int and K L :: nat and z :: "nat \<Rightarrow> int" and half :: int
  assumes depth: "L \<le> K"
    and root_sq: "0 < i \<Longrightarrow> i < 2 ^ L \<Longrightarrow> modeq q (z i * z i) (gam z i)"
    and root_inv: "l < L \<Longrightarrow> k < 2 ^ l \<Longrightarrow> modeq q (z (2 ^ l + k) * z (2 ^ Suc l - 1 - k)) (- 1)"
    and half: "modeq q (2 * half) 1"
begin

lemma node_lt: "l < L \<Longrightarrow> k < 2 ^ l \<Longrightarrow> 2 ^ l + k < (2 :: nat) ^ L"
proof -
  assume "l < L" "k < 2 ^ l"
  then have "2 ^ l + k < (2 :: nat) ^ Suc l" by simp
  also have "\<dots> \<le> 2 ^ L" using \<open>l < L\<close> by (intro power_increasing) auto
  finally show ?thesis .
qed

lemma half_size: "l < L \<Longrightarrow> (2 :: nat) ^ (K - l) = 2 * 2 ^ (K - Suc l)"
  using depth by (simp add: Suc_diff_Suc flip: power_Suc)

text \<open>Evaluation one level down, by a child \<open>w = \<plusminus> z i\<close> of node \<open>i\<close>.\<close>

lemma eval_step_aux:
  assumes l: "l < L" and k: "k < 2 ^ l" and w: "modeq q (w * w) (gam z (2 ^ l + k))"
  shows "modeq q (\<Sum>t<2 ^ Suc l. a (t * 2 ^ (K - Suc l) + m) * w ^ t)
    (ntt_eval z K a l k m + w * ntt_eval z K a l k (2 ^ (K - Suc l) + m))"
proof -
  define h :: nat where "h = 2 ^ (K - Suc l)"
  have n: "2 ^ (K - l) = 2 * h" using half_size [OF l] by (simp add: h_def)
  have w2: "w ^ (2 * t) = (w * w) ^ t" for t by (simp add: power_mult power2_eq_square)
  have "(\<Sum>t<2 ^ Suc l. a (t * h + m) * w ^ t) =
      (\<Sum>t<2 ^ l. a (t * (2 * h) + m) * (w * w) ^ t + a (t * (2 * h) + (h + m)) * ((w * w) ^ t * w))"
    by (simp only: power_Suc sum_upto_pairs w2) (simp add: algebra_simps)
  also have "modeq q \<dots> (\<Sum>t<2 ^ l. a (t * (2 * h) + m) * gam z (2 ^ l + k) ^ t +
      a (t * (2 * h) + (h + m)) * (gam z (2 ^ l + k) ^ t * w))"
    by (intro modeq_sum modeq_add modeq_mult modeq_power modeq_refl w)
  also have "\<dots> = ntt_eval z K a l k m + w * ntt_eval z K a l k (h + m)"
    by (simp add: ntt_eval_def n sum.distrib sum_distrib_left algebra_simps)
  finally show ?thesis by (simp add: h_def)
qed

lemma eval_left:
  assumes "l < L" "k < 2 ^ l"
  shows "modeq q (ntt_eval z K a (Suc l) (2 * k) m)
    (ntt_eval z K a l k m + z (2 ^ l + k) * ntt_eval z K a l k (2 ^ (K - Suc l) + m))"
proof -
  have "gam z (2 ^ Suc l + 2 * k) = z (2 ^ l + k)"
    using gam_left [of "2 ^ l + k" z] by simp
  then show ?thesis
    using eval_step_aux [OF assms root_sq, of a m] node_lt [OF assms]
    by (simp add: ntt_eval_def)
qed

lemma eval_right:
  assumes "l < L" "k < 2 ^ l"
  shows "modeq q (ntt_eval z K a (Suc l) (Suc (2 * k)) m)
    (ntt_eval z K a l k m - z (2 ^ l + k) * ntt_eval z K a l k (2 ^ (K - Suc l) + m))"
proof -
  have "gam z (2 ^ Suc l + Suc (2 * k)) = - z (2 ^ l + k)"
    using gam_right [of "2 ^ l + k" z] by simp
  then show ?thesis
    using eval_step_aux [OF assms, of "- z (2 ^ l + k)" a m] root_sq node_lt [OF assms]
    by (simp add: ntt_eval_def)
qed

section \<open>One forward and one inverse layer\<close>

lemma split_block:
  fixes k :: nat
  assumes "k < 2 ^ Suc l"
  obtains b where "b < 2 ^ l" "k = 2 * b" | b where "b < 2 ^ l" "k = Suc (2 * b)"
proof (cases "even k")
  case True
  with assms that(1) [of "k div 2"] show thesis by auto
next
  case False
  with assms that(2) [of "k div 2"] show thesis by (auto elim!: oddE)
qed

lemma forward_layer:
  assumes l: "l < L" and rep: "layer_rep q z K c a l r"
    and lo: "\<And>k m. k < 2 ^ l \<Longrightarrow> m < 2 ^ (K - Suc l) \<Longrightarrow>
      modeq q (r' (k * 2 ^ (K - l) + m))
        (r (k * 2 ^ (K - l) + m) + z (2 ^ l + k) * r (k * 2 ^ (K - l) + m + 2 ^ (K - Suc l)))"
    and hi: "\<And>k m. k < 2 ^ l \<Longrightarrow> m < 2 ^ (K - Suc l) \<Longrightarrow>
      modeq q (r' (k * 2 ^ (K - l) + m + 2 ^ (K - Suc l)))
        (r (k * 2 ^ (K - l) + m) - z (2 ^ l + k) * r (k * 2 ^ (K - l) + m + 2 ^ (K - Suc l)))"
  shows "layer_rep q z K c a (Suc l) r'"
  unfolding layer_rep_def
proof (intro allI impI)
  fix k m :: nat
  assume k: "k < 2 ^ Suc l" and m: "m < 2 ^ (K - Suc l)"
  define h :: nat where "h = 2 ^ (K - Suc l)"
  have n: "2 ^ (K - l) = 2 * h" using half_size [OF l] by (simp add: h_def)
  have rl: "modeq q (r (b * (2 * h) + m)) (c * ntt_eval z K a l b m)"
    and rh: "modeq q (r (b * (2 * h) + m + h)) (c * ntt_eval z K a l b (h + m))" if "b < 2 ^ l" for b
    using rep that m unfolding layer_rep_def n
    by (auto simp: h_def add.assoc add.commute [of m] dest!: spec [of _ b] spec [of _ "h + m"] spec [of _ m])
  from k show "modeq q (r' (k * 2 ^ (K - Suc l) + m)) (c * ntt_eval z K a (Suc l) k m)"
  proof (cases rule: split_block)
    case (1 b)
    have e: "k * h + m = b * (2 * h) + m" using 1 by simp
    have "modeq q (r' (k * h + m)) (r (b * (2 * h) + m) + z (2 ^ l + b) * r (b * (2 * h) + m + h))"
      unfolding e using lo [OF 1(1), of m] m by (simp only: n h_def)
    also have "modeq q \<dots> (c * ntt_eval z K a l b m + z (2 ^ l + b) * (c * ntt_eval z K a l b (h + m)))"
      by (intro modeq_add modeq_mult modeq_refl rl rh 1(1))
    also have "\<dots> = c * (ntt_eval z K a l b m + z (2 ^ l + b) * ntt_eval z K a l b (h + m))"
      by (simp add: algebra_simps)
    also have "modeq q \<dots> (c * ntt_eval z K a (Suc l) k m)"
      using eval_left [OF l 1(1), of a m] 1 by (intro modeq_mult modeq_refl) (auto simp: h_def modeq_sym)
    finally show ?thesis by (simp add: h_def)
  next
    case (2 b)
    have e: "k * h + m = b * (2 * h) + m + h" using 2 by simp
    have "modeq q (r' (k * h + m)) (r (b * (2 * h) + m) - z (2 ^ l + b) * r (b * (2 * h) + m + h))"
      unfolding e using hi [OF 2(1), of m] m by (simp only: n h_def)
    also have "modeq q \<dots> (c * ntt_eval z K a l b m - z (2 ^ l + b) * (c * ntt_eval z K a l b (h + m)))"
      by (intro modeq_diff modeq_mult modeq_refl rl rh 2(1))
    also have "\<dots> = c * (ntt_eval z K a l b m - z (2 ^ l + b) * ntt_eval z K a l b (h + m))"
      by (simp add: algebra_simps)
    also have "modeq q \<dots> (c * ntt_eval z K a (Suc l) k m)"
      using eval_right [OF l 2(1), of a m] 2 by (intro modeq_mult modeq_refl) (auto simp: h_def modeq_sym)
    finally show ?thesis by (simp add: h_def)
  qed
qed

lemma inverse_layer:
  assumes l: "l < L" and rep: "layer_rep q z K c a (Suc l) r"
    and lo: "\<And>k m. k < 2 ^ l \<Longrightarrow> m < 2 ^ (K - Suc l) \<Longrightarrow>
      modeq q (r' (k * 2 ^ (K - l) + m))
        (r (k * 2 ^ (K - l) + m) + r (k * 2 ^ (K - l) + m + 2 ^ (K - Suc l)))"
    and hi: "\<And>k m. k < 2 ^ l \<Longrightarrow> m < 2 ^ (K - Suc l) \<Longrightarrow>
      modeq q (r' (k * 2 ^ (K - l) + m + 2 ^ (K - Suc l)))
        (z (2 ^ Suc l - 1 - k) *
          (r (k * 2 ^ (K - l) + m + 2 ^ (K - Suc l)) - r (k * 2 ^ (K - l) + m)))"
  shows "layer_rep q z K (2 * c) a l r'"
  unfolding layer_rep_def
proof (intro allI impI)
  fix k m0 :: nat
  assume k: "k < 2 ^ l" and m0: "m0 < 2 ^ (K - l)"
  define h :: nat where "h = 2 ^ (K - Suc l)"
  define w where "w = z (2 ^ l + k)"
  define w' where "w' = z (2 ^ Suc l - 1 - k)"
  have n: "2 ^ (K - l) = 2 * h" using half_size [OF l] by (simp add: h_def)
  have ww: "modeq q (w * w') (- 1)" unfolding w_def w'_def using root_inv [OF l k] .
  define E where "E = ntt_eval z K a l k"
  have R: "modeq q (r (k * (2 * h) + m)) (c * (E m + w * E (h + m)))"
      "modeq q (r (k * (2 * h) + m + h)) (c * (E m - w * E (h + m)))" if "m < h" for m
  proof -
    have "modeq q (r (2 * k * h + m)) (c * ntt_eval z K a (Suc l) (2 * k) m)"
      "modeq q (r (Suc (2 * k) * h + m)) (c * ntt_eval z K a (Suc l) (Suc (2 * k)) m)"
      using rep [unfolded layer_rep_def, rule_format, of "2 * k" m]
        rep [unfolded layer_rep_def, rule_format, of "Suc (2 * k)" m] that k
      by (simp_all add: h_def)
    then show "modeq q (r (k * (2 * h) + m)) (c * (E m + w * E (h + m)))"
      "modeq q (r (k * (2 * h) + m + h)) (c * (E m - w * E (h + m)))"
      using modeq_mult [OF modeq_refl [of q c] eval_left [OF l k, of a m]]
        modeq_mult [OF modeq_refl [of q c] eval_right [OF l k, of a m]]
      unfolding E_def w_def h_def
      by (auto simp: algebra_simps intro: modeq_trans)
  qed
  consider m where "m0 = m" "m < h" | m where "m0 = m + h" "m < h"
    using m0 n by (cases "m0 < h") (auto intro: that(2) [of "m0 - h"])
  then show "modeq q (r' (k * 2 ^ (K - l) + m0)) (2 * c * ntt_eval z K a l k m0)"
  proof cases
    case (1 m)
    have "modeq q (r' (k * (2 * h) + m)) (r (k * (2 * h) + m) + r (k * (2 * h) + m + h))"
      using lo [OF k, of m] 1 by (simp only: n h_def)
    also have "modeq q \<dots> (c * (E m + w * E (h + m)) + c * (E m - w * E (h + m)))"
      using 1 by (intro modeq_add R)
    finally show ?thesis using 1 by (simp add: n E_def algebra_simps)
  next
    case (2 m)
    have "modeq q (r' (k * (2 * h) + m + h)) (w' * (r (k * (2 * h) + m + h) - r (k * (2 * h) + m)))"
      using hi [OF k, of m] 2 by (simp only: n h_def w'_def)
    also have "modeq q \<dots> (w' * (c * (E m - w * E (h + m)) - c * (E m + w * E (h + m))))"
      using 2 by (intro modeq_mult modeq_diff R modeq_refl)
    also have "\<dots> = - (2 * c * E (h + m) * (w * w'))" by (simp add: algebra_simps)
    also have "modeq q \<dots> (- (2 * c * E (h + m) * - 1))"
      by (intro modeq_minus modeq_mult modeq_refl ww)
    finally show ?thesis using 2 by (simp add: n E_def algebra_simps)
  qed
qed

section \<open>Products\<close>

lemma gam_power: "l \<le> L \<Longrightarrow> k < 2 ^ l \<Longrightarrow> modeq q (gam z (2 ^ l + k) ^ 2 ^ l) (- 1)"
proof (induction l arbitrary: k)
  case (Suc l)
  from Suc.prems(2) obtain b where b: "b < 2 ^ l" "gam z (2 ^ Suc l + k) * gam z (2 ^ Suc l + k) = z (2 ^ l + b) * z (2 ^ l + b)"
  proof (cases rule: split_block)
    case (1 b)
    then show ?thesis using that [of b] gam_left [of "2 ^ l + b" z] by simp
  next
    case (2 b)
    then show ?thesis using that [of b] gam_right [of "2 ^ l + b" z] by simp
  qed
  have "gam z (2 ^ Suc l + k) ^ 2 ^ Suc l = (gam z (2 ^ Suc l + k) * gam z (2 ^ Suc l + k)) ^ 2 ^ l"
    by (simp add: power_mult power2_eq_square)
  also have "modeq q \<dots> (gam z (2 ^ l + b) ^ 2 ^ l)"
    unfolding b using Suc.prems b(1) node_lt by (intro modeq_power root_sq) auto
  also have "modeq q \<dots> (- 1)" using Suc b(1) by simp
  finally show ?case .
qed simp

lemma eval_negacyclic:
  assumes l: "l \<le> L" and k: "k < 2 ^ l" and m: "m < 2 ^ (K - l)"
  shows "modeq q (ntt_eval z K (negacyclic (2 ^ K) a b) l k m)
    (block_mult (2 ^ (K - l)) (gam z (2 ^ l + k)) (ntt_eval z K a l k) (ntt_eval z K b l k) m)"
proof -
  define M n :: nat where "M = 2 ^ l" and "n = 2 ^ (K - l)"
  define g where "g = gam z (2 ^ l + k)"
  have g': "gam z (M + k) = g" by (simp add: g_def M_def)
  have N: "2 ^ K = M * n" using l depth by (simp add: M_def n_def flip: power_add)
  have mn: "m < n" using m by (simp add: n_def)
  have gM: "modeq q (g ^ M) (- 1)" unfolding g_def M_def using l k by (rule gam_power)
  define D where "D x = (\<Sum>u<M. (of_bool (x = u * n + m) - of_bool (x = u * n + m + M * n)) * g ^ u)" for x
  define W where "W i j = of_bool (i + j = m) + g * of_bool (i + j = m + n)" for i j
  have "ntt_eval z K (negacyclic (2 ^ K) a b) l k m =
      (\<Sum>u<M. (\<Sum>i<M * n. \<Sum>j<M * n. a i * b j *
        (of_bool (i + j = u * n + m) - of_bool (i + j = u * n + m + M * n))) * g ^ u)"
    by (simp only: ntt_eval_def negacyclic_def N M_def [symmetric] n_def [symmetric] g')
  also have "\<dots> = (\<Sum>u<M. \<Sum>i<M * n. \<Sum>j<M * n. a i * b j *
        ((of_bool (i + j = u * n + m) - of_bool (i + j = u * n + m + M * n)) * g ^ u))"
    by (simp add: sum_distrib_right mult.assoc)
  also have "\<dots> = (\<Sum>i<M * n. \<Sum>u<M. \<Sum>j<M * n. a i * b j *
        ((of_bool (i + j = u * n + m) - of_bool (i + j = u * n + m + M * n)) * g ^ u))"
    by (rule sum.swap)
  also have "\<dots> = (\<Sum>i<M * n. \<Sum>j<M * n. \<Sum>u<M. a i * b j *
        ((of_bool (i + j = u * n + m) - of_bool (i + j = u * n + m + M * n)) * g ^ u))"
    by (rule sum.cong [OF refl]) (rule sum.swap)
  also have "\<dots> = (\<Sum>i<M * n. \<Sum>j<M * n. a i * b j * D (i + j))"
    by (simp only: D_def sum_distrib_left)
  also have "\<dots> = (\<Sum>s<M. \<Sum>i<n. \<Sum>t<M. \<Sum>j<n. a (s * n + i) * b (t * n + j) * D (s * n + i + (t * n + j)))"
    by (simp only: sum_upto_blocks)
  also have "modeq q \<dots> (\<Sum>s<M. \<Sum>i<n. \<Sum>t<M. \<Sum>j<n. a (s * n + i) * b (t * n + j) * (g ^ (s + t) * W i j))"
    unfolding D_def W_def
    by (intro modeq_sum modeq_mult modeq_refl fold_delta [OF gM mn]) auto
  also have "\<dots> = (\<Sum>i<n. \<Sum>s<M. \<Sum>t<M. \<Sum>j<n. a (s * n + i) * b (t * n + j) * (g ^ (s + t) * W i j))"
    by (rule sum.swap)
  also have "\<dots> = (\<Sum>i<n. \<Sum>s<M. \<Sum>j<n. \<Sum>t<M. a (s * n + i) * b (t * n + j) * (g ^ (s + t) * W i j))"
    by (rule sum.cong [OF refl], rule sum.cong [OF refl], rule sum.swap)
  also have "\<dots> = (\<Sum>i<n. \<Sum>j<n. \<Sum>s<M. \<Sum>t<M. a (s * n + i) * b (t * n + j) * (g ^ (s + t) * W i j))"
    by (rule sum.cong [OF refl], rule sum.swap)
  also have "\<dots> = (\<Sum>i<n. \<Sum>j<n. \<Sum>s<M. \<Sum>t<M. a (s * n + i) * g ^ s * (b (t * n + j) * g ^ t) * W i j)"
    by (simp add: power_add mult_ac)
  also have "\<dots> = block_mult n g (ntt_eval z K a l k) (ntt_eval z K b l k) m"
    by (simp only: block_mult_def ntt_eval_def W_def M_def [symmetric] n_def [symmetric] g' sum_product)
      (simp only: sum_distrib_right)
  finally show ?thesis by (simp add: n_def g_def)
qed

section \<open>Every array is the transform of exactly one polynomial modulo \<open>q\<close>\<close>

lemma half_power: "modeq q (2 ^ l * half ^ l) 1"
  using modeq_power [OF half, of l] by (simp add: power_mult_distrib)

lemma layer_rep_exists: "l \<le> L \<Longrightarrow> \<exists>a. layer_rep q z K 1 a l r"
proof (induction l arbitrary: r)
  case 0
  then show ?case using layer_rep_0 by blast
next
  case (Suc l)
  then have l: "l < L" by simp
  define h :: nat where "h = 2 ^ (K - Suc l)"
  have n: "2 ^ (K - l) = 2 * h" and h0: "0 < h" using half_size [OF l] by (simp_all add: h_def)
  define r0 where "r0 p = (if p mod (2 * h) < h then half * (r p + r (p + h))
      else half * (z (2 ^ Suc l - 1 - p div (2 * h)) * (r p - r (p - h))))" for p
  have r0: "r0 (k * (2 * h) + m) = half * (r (k * (2 * h) + m) + r (k * (2 * h) + m + h))"
    "r0 (k * (2 * h) + m + h) =
      half * (z (2 ^ Suc l - 1 - k) * (r (k * (2 * h) + m + h) - r (k * (2 * h) + m)))"
    if "m < h" for k m
  proof -
    have "(k * (2 * h) + m) mod (2 * h) = m" "(k * (2 * h) + (m + h)) mod (2 * h) = m + h"
      "(k * (2 * h) + (m + h)) div (2 * h) = k"
      using that h0 by (simp_all del: mult_Suc_right)
    then show "r0 (k * (2 * h) + m) = half * (r (k * (2 * h) + m) + r (k * (2 * h) + m + h))"
      "r0 (k * (2 * h) + m + h) =
        half * (z (2 ^ Suc l - 1 - k) * (r (k * (2 * h) + m + h) - r (k * (2 * h) + m)))"
      using that by (simp_all add: r0_def add.assoc)
  qed
  from Suc obtain a where a: "layer_rep q z K 1 a l r0" by (metis Suc_leD)
  have "layer_rep q z K 1 a (Suc l) r"
  proof (rule forward_layer [OF l a])
    fix k m :: nat
    assume k: "k < 2 ^ l" and m: "m < 2 ^ (K - Suc l)"
    then have mh: "m < h" by (simp add: h_def)
    define x y where "x = r (k * (2 * h) + m)" and "y = r (k * (2 * h) + m + h)"
    have "modeq q (z (2 ^ l + k) * (half * (z (2 ^ Suc l - 1 - k) * (y - x)))) (half * (- 1 * (y - x)))"
      using modeq_mult [OF modeq_refl [of q half] modeq_mult [OF root_inv [OF l k] modeq_refl [of q "y - x"]]]
      by (simp only: mult.assoc mult.left_commute)
    also have "half * (- 1 * (y - x)) = half * (x - y)" by simp
    finally have z: "modeq q (z (2 ^ l + k) * r0 (k * (2 * h) + m + h)) (half * (x - y))"
      using r0(2) [OF mh, of k] by (simp only: x_def y_def)
    have "modeq q (half * (x + y) + half * (x - y)) (2 * half * x)" "modeq q (half * (x + y) - half * (x - y)) (2 * half * y)"
      by (simp_all add: algebra_simps)
    then have "modeq q (half * (x + y) + half * (x - y)) x" "modeq q (half * (x + y) - half * (x - y)) y"
      using modeq_mult [OF half modeq_refl [of q x]] modeq_mult [OF half modeq_refl [of q y]]
      by (auto intro: modeq_trans)
    then have "modeq q (r0 (k * (2 * h) + m) + z (2 ^ l + k) * r0 (k * (2 * h) + m + h)) x"
      "modeq q (r0 (k * (2 * h) + m) - z (2 ^ l + k) * r0 (k * (2 * h) + m + h)) y"
      using r0(1) [OF mh, of k] modeq_add [OF modeq_refl z] modeq_diff [OF modeq_refl z]
      by (auto simp: x_def y_def intro: modeq_trans)
    then show "modeq q (r (k * 2 ^ (K - l) + m))
        (r0 (k * 2 ^ (K - l) + m) + z (2 ^ l + k) * r0 (k * 2 ^ (K - l) + m + 2 ^ (K - Suc l)))"
      "modeq q (r (k * 2 ^ (K - l) + m + 2 ^ (K - Suc l)))
        (r0 (k * 2 ^ (K - l) + m) - z (2 ^ l + k) * r0 (k * 2 ^ (K - l) + m + 2 ^ (K - Suc l)))"
      by (simp_all add: n x_def y_def modeq_sym flip: h_def)
  qed
  then show ?case by blast
qed

end

end
