(* ===== verification/Ntt_Layer.thy ===== *)
theory Ntt_Layer
  imports Loops Ntt_Tree
begin

text \<open>
  One pass of a transform over the array: the butterflies of \<open>Loops\<close> meet the tree of \<open>Ntt_Tree\<close>.
  \<open>rd\<close> reads an element as an integer and \<open>f b\<close> is the butterfly of block \<open>b\<close>; a library shows what
  its butterfly does to two bounded elements and obtains the layer, congruences and bounds together.
\<close>

definition ntt_pass :: "(nat \<Rightarrow> 'a \<Rightarrow> 'a \<Rightarrow> 'a \<times> 'a) \<Rightarrow> nat \<Rightarrow> nat \<Rightarrow> 'a list \<Rightarrow> 'a list" where
  "ntt_pass f len nb r =
     fold (\<lambda>c. fold (bfly (f c) len) [c * (2 * len)..<c * (2 * len) + len]) [0..<nb] r"

lemma length_ntt_pass [simp]: "length (ntt_pass f len nb r) = length r"
  by (simp add: ntt_pass_def)

lemma block_index:
  fixes p :: nat
  assumes "p < nb * (2 * len)"
  obtains (lo) b m where "b < nb" "m < len" "p = b * (2 * len) + m"
    | (hi) b m where "b < nb" "m < len" "p = b * (2 * len) + m + len"
proof -
  define b where "b = p div (2 * len)"
  have len: "0 < len" using assms by (cases len) auto
  have b: "b < nb" using assms by (simp add: b_def less_mult_imp_div_less)
  have p: "p = b * (2 * len) + p mod (2 * len)" unfolding b_def by (rule div_mult_mod_eq [symmetric])
  have m: "p mod (2 * len) < 2 * len" using len by simp
  show thesis
  proof (cases "p mod (2 * len) < len")
    case True
    then show thesis using lo [OF b _ p] by simp
  next
    case False
    then have "p mod (2 * len) - len < len" "p = b * (2 * len) + (p mod (2 * len) - len) + len"
      using p m by linarith+
    then show thesis by (rule hi [OF b])
  qed
qed

text \<open>What a forward and an inverse butterfly do to two elements bounded by \<open>B\<close>, with root \<open>w\<close>.\<close>

definition fwd_bfly :: "int \<Rightarrow> ('a \<Rightarrow> int) \<Rightarrow> int \<Rightarrow> int \<Rightarrow> int \<Rightarrow> ('a \<Rightarrow> 'a \<Rightarrow> 'a \<times> 'a) \<Rightarrow> bool" where
  "fwd_bfly q rd B B' w f \<longleftrightarrow> (\<forall>x y. \<bar>rd x\<bar> \<le> B \<longrightarrow> \<bar>rd y\<bar> \<le> B \<longrightarrow>
     modeq q (rd (fst (f x y))) (rd x + w * rd y) \<and> modeq q (rd (snd (f x y))) (rd x - w * rd y) \<and>
     \<bar>rd (fst (f x y))\<bar> \<le> B' \<and> \<bar>rd (snd (f x y))\<bar> \<le> B')"

definition inv_bfly :: "int \<Rightarrow> ('a \<Rightarrow> int) \<Rightarrow> int \<Rightarrow> int \<Rightarrow> int \<Rightarrow> ('a \<Rightarrow> 'a \<Rightarrow> 'a \<times> 'a) \<Rightarrow> bool" where
  "inv_bfly q rd B B' w f \<longleftrightarrow> (\<forall>x y. \<bar>rd x\<bar> \<le> B \<longrightarrow> \<bar>rd y\<bar> \<le> B \<longrightarrow>
     modeq q (rd (fst (f x y))) (rd x + rd y) \<and> modeq q (rd (snd (f x y))) (w * (rd y - rd x)) \<and>
     \<bar>rd (fst (f x y))\<bar> \<le> B' \<and> \<bar>rd (snd (f x y))\<bar> \<le> B')"

context ntt_tree
begin

lemma pass_size: "l < L \<Longrightarrow> (2 :: nat) ^ K = 2 ^ l * (2 * 2 ^ (K - Suc l))"
  using depth by (simp flip: power_Suc power_add)

lemma pass_nth:
  fixes r :: "'a list"
  assumes l: "l < L" and len: "length r = 2 ^ K" and b: "b < 2 ^ l" and m: "m < 2 ^ (K - Suc l)"
  shows "ntt_pass f (2 ^ (K - Suc l)) (2 ^ l) r ! (b * 2 ^ (K - l) + m) =
      fst (f b (r ! (b * 2 ^ (K - l) + m)) (r ! (b * 2 ^ (K - l) + m + 2 ^ (K - Suc l))))"
    and "ntt_pass f (2 ^ (K - Suc l)) (2 ^ l) r ! (b * 2 ^ (K - l) + m + 2 ^ (K - Suc l)) =
      snd (f b (r ! (b * 2 ^ (K - l) + m)) (r ! (b * 2 ^ (K - l) + m + 2 ^ (K - Suc l))))"
  using nth_bfly_layer [of "2 ^ (K - Suc l)" r "2 ^ l" b m f] assms
  unfolding ntt_pass_def half_size [OF l] by (simp_all add: pass_size)

lemma pass_index:
  fixes b m :: nat
  assumes l: "l < L" and b: "b < 2 ^ l" and m: "m < 2 ^ (K - Suc l)"
  shows "b * 2 ^ (K - l) + m + 2 ^ (K - Suc l) < 2 ^ K"
proof -
  have "b * 2 ^ (K - l) + m + 2 ^ (K - Suc l) < (b + 1) * 2 ^ (K - l)"
    unfolding half_size [OF l] using m by simp
  also have "\<dots> \<le> 2 ^ l * 2 ^ (K - l)" using b by (intro mult_right_mono) auto
  also have "\<dots> = 2 ^ K" using l depth by (simp flip: power_add)
  finally show ?thesis .
qed

lemma pass_bounded:
  fixes r :: "'a list" and rd :: "'a \<Rightarrow> int"
  assumes l: "l < L" and len: "length r = 2 ^ K"
    and f: "\<And>b m. b < 2 ^ l \<Longrightarrow> m < 2 ^ (K - Suc l) \<Longrightarrow>
      \<bar>rd (fst (f b (r ! (b * 2 ^ (K - l) + m)) (r ! (b * 2 ^ (K - l) + m + 2 ^ (K - Suc l)))))\<bar> \<le> B \<and>
      \<bar>rd (snd (f b (r ! (b * 2 ^ (K - l) + m)) (r ! (b * 2 ^ (K - l) + m + 2 ^ (K - Suc l)))))\<bar> \<le> B"
  shows "\<forall>x \<in> set (ntt_pass f (2 ^ (K - Suc l)) (2 ^ l) r). \<bar>rd x\<bar> \<le> B"
proof
  fix x
  assume "x \<in> set (ntt_pass f (2 ^ (K - Suc l)) (2 ^ l) r)"
  then obtain p where x: "x = ntt_pass f (2 ^ (K - Suc l)) (2 ^ l) r ! p"
    and p: "p < 2 ^ l * (2 * 2 ^ (K - Suc l))"
    using len pass_size [OF l] by (auto simp: in_set_conv_nth)
  from p show "\<bar>rd x\<bar> \<le> B"
  proof (cases rule: block_index)
    case (lo b m)
    then show ?thesis using pass_nth(1) [OF l len lo(1,2), of f] f [OF lo(1,2)]
      by (simp add: x half_size [OF l])
  next
    case (hi b m)
    then show ?thesis using pass_nth(2) [OF l len hi(1,2), of f] f [OF hi(1,2)]
      by (simp add: x half_size [OF l])
  qed
qed

lemma forward_pass:
  fixes r :: "'a list" and rd :: "'a \<Rightarrow> int"
  assumes l: "l < L" and len: "length r = 2 ^ K"
    and rep: "layer_rep q z K c a l (\<lambda>i. rd (r ! i))" and B: "\<forall>x \<in> set r. \<bar>rd x\<bar> \<le> B"
    and f: "\<And>b. b < 2 ^ l \<Longrightarrow> fwd_bfly q rd B B' (z (2 ^ l + b)) (f b)"
  defines "r' \<equiv> ntt_pass f (2 ^ (K - Suc l)) (2 ^ l) r"
  shows "layer_rep q z K c a (Suc l) (\<lambda>i. rd (r' ! i))" and "\<forall>x \<in> set r'. \<bar>rd x\<bar> \<le> B'"
proof -
  have mem: "r ! (b * 2 ^ (K - l) + m) \<in> set r" "r ! (b * 2 ^ (K - l) + m + 2 ^ (K - Suc l)) \<in> set r"
    if "b < 2 ^ l" "m < 2 ^ (K - Suc l)" for b m
    using pass_index [OF l that] by (auto intro!: nth_mem simp: len)
  note F = f [unfolded fwd_bfly_def, rule_format]
  show "layer_rep q z K c a (Suc l) (\<lambda>i. rd (r' ! i))"
    using l rep by (rule forward_layer) (use B F mem in \<open>auto simp: r'_def pass_nth [OF l len]\<close>)
  show "\<forall>x \<in> set r'. \<bar>rd x\<bar> \<le> B'"
    unfolding r'_def using l len by (rule pass_bounded) (use B F mem in auto)
qed

lemma inverse_pass:
  fixes r :: "'a list" and rd :: "'a \<Rightarrow> int"
  assumes l: "l < L" and len: "length r = 2 ^ K"
    and rep: "layer_rep q z K c a (Suc l) (\<lambda>i. rd (r ! i))" and B: "\<forall>x \<in> set r. \<bar>rd x\<bar> \<le> B"
    and f: "\<And>b. b < 2 ^ l \<Longrightarrow> inv_bfly q rd B B' (z (2 ^ Suc l - 1 - b)) (f b)"
  defines "r' \<equiv> ntt_pass f (2 ^ (K - Suc l)) (2 ^ l) r"
  shows "layer_rep q z K (2 * c) a l (\<lambda>i. rd (r' ! i))" and "\<forall>x \<in> set r'. \<bar>rd x\<bar> \<le> B'"
proof -
  have mem: "r ! (b * 2 ^ (K - l) + m) \<in> set r" "r ! (b * 2 ^ (K - l) + m + 2 ^ (K - Suc l)) \<in> set r"
    if "b < 2 ^ l" "m < 2 ^ (K - Suc l)" for b m
    using pass_index [OF l that] by (auto intro!: nth_mem simp: len)
  note F = f [unfolded inv_bfly_def, rule_format]
  show "layer_rep q z K (2 * c) a l (\<lambda>i. rd (r' ! i))"
    using l rep by (rule inverse_layer) (use B F mem in \<open>auto simp: r'_def pass_nth [OF l len]\<close>)
  show "\<forall>x \<in> set r'. \<bar>rd x\<bar> \<le> B'"
    unfolding r'_def using l len by (rule pass_bounded) (use B F mem in auto)
qed

end

end
