(* ===== verification/Bitrev.thy ===== *)
theory Bitrev
  imports Ntt_Tree
begin

text \<open>
  Bit reversal and the roots of a transform.  Both tables hold the powers of a root of unity in
  bit-reversed order; the lemmas show that this order alone gives the laws of \<open>ntt_tree\<close>, so that a
  library only has to check its table against the powers of its generator.
\<close>

fun bitrev :: "nat \<Rightarrow> nat \<Rightarrow> nat" where
  "bitrev 0 k = 0"
| "bitrev (Suc n) k = (k mod 2) * 2 ^ n + bitrev n (k div 2)"

lemma bitrev_0 [simp]: "bitrev n 0 = 0"
  by (induction n) simp_all

lemma bitrev_less: "bitrev n k < 2 ^ n"
proof (induction n arbitrary: k)
  case (Suc n)
  have "(k mod 2) * 2 ^ n \<le> 1 * 2 ^ n" by (intro mult_right_mono) auto
  then show ?case unfolding bitrev.simps power_Suc using Suc.IH [of "k div 2"] by linarith
qed simp

lemma bitrev_even: "bitrev (Suc n) (2 * j) = bitrev n j"
  and bitrev_odd: "bitrev (Suc n) (Suc (2 * j)) = 2 ^ n + bitrev n j"
  by simp_all

lemma bitrev_low: "j < 2 ^ n \<Longrightarrow> bitrev (Suc n) j = 2 * bitrev n j"
proof (induction n arbitrary: j)
  case (Suc n)
  then have "j div 2 < 2 ^ n" by (simp add: less_mult_imp_div_less mult.commute)
  then show ?case using Suc.IH [of "j div 2"] by simp
qed simp

lemma bitrev_high: "j < 2 ^ n \<Longrightarrow> bitrev (Suc n) (2 ^ n + j) = 2 * bitrev n j + 1"
proof (induction n arbitrary: j)
  case (Suc n)
  then have "j div 2 < 2 ^ n" by (simp add: less_mult_imp_div_less mult.commute)
  then have "bitrev (Suc n) (2 ^ n + j div 2) = 2 * bitrev n (j div 2) + 1" by (rule Suc.IH)
  moreover have "(2 ^ Suc n + j) mod 2 = j mod 2" "(2 ^ Suc n + j) div 2 = 2 ^ n + j div 2" by simp_all
  ultimately show ?case by (simp only: bitrev.simps(2) [of "Suc n"]) simp
qed simp

text \<open>A node and its mirror image at the same level have exponents that add up to \<open>2^n\<close>.\<close>

lemma bitrev_mirror:
  "l < n \<Longrightarrow> k < 2 ^ l \<Longrightarrow> bitrev n (2 ^ l + k) + bitrev n (2 ^ Suc l - 1 - k) = 2 ^ n"
proof (induction l arbitrary: n k)
  case 0
  then obtain m where "n = Suc m" by (cases n) auto
  then show ?case using 0 by simp
next
  case (Suc l)
  then obtain m where n: "n = Suc m" by (cases n) auto
  define j where "j = k div 2"
  have j: "j < 2 ^ l" using Suc.prems(2) by (simp add: j_def less_mult_imp_div_less mult.commute)
  have IH: "bitrev m (2 ^ l + j) + bitrev m (2 ^ Suc l - 1 - j) = 2 ^ m"
    using Suc.prems(1) j by (intro Suc.IH) (simp_all add: n)
  have J: "Suc j \<le> 2 ^ l" using j by simp
  show ?case
  proof (cases "even k")
    case True
    then have k: "k = 2 * j" by (simp add: j_def)
    have "2 ^ Suc l + k = 2 * (2 ^ l + j)" "2 ^ Suc (Suc l) - 1 - k = Suc (2 * (2 ^ Suc l - 1 - j))"
      using J by (simp_all add: k)
    then show ?thesis using IH by (simp only: n bitrev_even bitrev_odd) simp
  next
    case False
    then have k: "k = Suc (2 * j)" by (simp add: j_def)
    have "2 ^ Suc l + k = Suc (2 * (2 ^ l + j))" "2 ^ Suc (Suc l) - 1 - k = 2 * (2 ^ Suc l - 1 - j)"
      using J by (simp_all add: k)
    then show ?thesis using IH by (simp only: n bitrev_even bitrev_odd) simp
  qed
qed

section \<open>Tables of roots in bit-reversed order\<close>

lemma gam_power_bitrev:
  fixes g :: int
  assumes gen: "modeq q (g ^ 2 ^ n) (- 1)"
    and pow: "\<And>k. 0 < k \<Longrightarrow> k < 2 ^ n \<Longrightarrow> modeq q (z k) (g ^ bitrev n k)"
    and i: "0 < i" "i < 2 * 2 ^ n"
  shows "modeq q (gam z i) (g ^ bitrev (Suc n) i)"
proof (cases "i = 1")
  case True
  then show ?thesis using gen by (simp add: modeq_sym)
next
  case False
  define j where "j = i div 2"
  have j: "0 < j" "j < 2 ^ n" using False i by (auto simp: j_def less_mult_imp_div_less mult.commute)
  show ?thesis
  proof (cases "even i")
    case True
    then have e: "i = 2 * j" by (simp add: j_def)
    show ?thesis using pow [OF j] unfolding e gam_left [OF j(1)] bitrev_even .
  next
    case False
    then have e: "i = Suc (2 * j)" by (simp add: j_def)
    have "modeq q (- 1 * z j) (g ^ 2 ^ n * g ^ bitrev n j)"
      by (intro modeq_mult modeq_sym [OF gen] pow j)
    then show ?thesis unfolding e gam_right [OF j(1)] bitrev_odd by (simp only: power_add mult_minus1)
  qed
qed

lemma ntt_tree_powers:
  fixes g :: int
  assumes gen: "modeq q (g ^ 2 ^ L) (- 1)"
    and pow: "\<And>k. 0 < k \<Longrightarrow> k < 2 ^ L \<Longrightarrow> modeq q (z k) (g ^ bitrev L k)"
    and "L \<le> K" "modeq q (2 * half) 1"
  shows "ntt_tree q K L z half"
proof
  show "modeq q (z i * z i) (gam z i)" if i: "0 < i" "i < 2 ^ L" for i
  proof -
    have "modeq q (z i * z i) (g ^ bitrev L i * g ^ bitrev L i)" by (intro modeq_mult pow i)
    also have "\<dots> = g ^ bitrev (Suc L) i" by (simp only: bitrev_low [OF i(2)] mult_2 power_add)
    also have "modeq q \<dots> (gam z i)"
      using i by (intro modeq_sym [OF gam_power_bitrev [where n = L]] gen pow) simp_all
    finally show ?thesis .
  qed
  show "modeq q (z (2 ^ l + k) * z (2 ^ Suc l - 1 - k)) (- 1)" if l: "l < L" "k < 2 ^ l" for l k
  proof -
    have "(2 :: nat) ^ Suc l \<le> 2 ^ L" using l(1) by (intro power_increasing) auto
    then have "2 ^ l + k < 2 ^ L" "2 ^ Suc l - 1 - k < 2 ^ L" "0 < 2 ^ l + k" "0 < 2 ^ Suc l - 1 - k"
      using l(2) by simp_all
    then have "modeq q (z (2 ^ l + k) * z (2 ^ Suc l - 1 - k))
        (g ^ bitrev L (2 ^ l + k) * g ^ bitrev L (2 ^ Suc l - 1 - k))"
      by (intro modeq_mult pow)
    also have "\<dots> = g ^ 2 ^ L" by (simp only: power_add [symmetric] bitrev_mirror [OF l])
    also have "modeq q \<dots> (- 1)" by (rule gen)
    finally show ?thesis .
  qed
qed (use assms in simp_all)

text \<open>
  The powers in bit-reversed order, computed by doubling; a table is checked against this list
  entry by entry.
\<close>

fun bitrev_powers :: "int \<Rightarrow> nat \<Rightarrow> int \<Rightarrow> int list" where
  "bitrev_powers q 0 g = [1]"
| "bitrev_powers q (Suc n) g =
     (let ps = bitrev_powers q n (g * g mod q) in ps @ map (\<lambda>p. p * g mod q) ps)"

lemma length_bitrev_powers [simp]: "length (bitrev_powers q n g) = 2 ^ n"
  by (induction n arbitrary: g) (simp_all add: Let_def)

lemma nth_bitrev_powers: "k < 2 ^ n \<Longrightarrow> modeq q (bitrev_powers q n g ! k) (g ^ bitrev n k)"
proof (induction n arbitrary: g k)
  case (Suc n)
  let ?ps = "bitrev_powers q n (g * g mod q)"
  have sq: "modeq q (?ps ! j) (g ^ (2 * bitrev n j))" if "j < 2 ^ n" for j
  proof -
    have "modeq q (?ps ! j) ((g * g mod q) ^ bitrev n j)" by (rule Suc.IH [OF that])
    also have "modeq q \<dots> ((g * g) ^ bitrev n j)" by (intro modeq_power modeq_mod)
    also have "\<dots> = g ^ (2 * bitrev n j)" by (simp only: power_mult power2_eq_square)
    finally show ?thesis .
  qed
  show ?case
  proof (cases "k < 2 ^ n")
    case True
    then show ?thesis using sq [OF True] by (simp only: bitrev_low) (simp add: Let_def nth_append)
  next
    case False
    define j where "j = k - 2 ^ n"
    have k: "k = 2 ^ n + j" and j: "j < 2 ^ n" using False Suc.prems by (simp_all add: j_def)
    have "bitrev_powers q (Suc n) g ! k = ?ps ! j * g mod q"
      using j by (simp add: k Let_def nth_append)
    also have "modeq q \<dots> (g ^ (2 * bitrev n j) * g)"
      by (intro modeq_trans [OF modeq_mod(1)] modeq_mult sq j modeq_refl)
    also have "\<dots> = g ^ bitrev (Suc n) k" unfolding k bitrev_high [OF j] by simp
    finally show ?thesis .
  qed
qed simp

lemma table_powers:
  assumes "list_all2 (\<lambda>x p. (x * r - p) mod q = 0) (tl tab) (tl (bitrev_powers q n g))"
    and "0 < k" "k < 2 ^ n"
  shows "modeq q (tab ! k * r) (g ^ bitrev n k)"
proof -
  obtain j where k: "k = Suc j" using assms(2) by (cases k) auto
  have l: "length (tl tab) = 2 ^ n - 1" using list_all2_lengthD [OF assms(1)] by simp
  have j: "j < 2 ^ n - 1" using assms(3) k by simp
  have "(tl tab ! j * r - tl (bitrev_powers q n g) ! j) mod q = 0"
    using list_all2_nthD [OF assms(1)] j l by simp
  then have "modeq q (tab ! k * r) (bitrev_powers q n g ! k)"
    using j l by (simp add: nth_tl k modeq_iff_dvd mod_0_imp_dvd)
  then show ?thesis using nth_bitrev_powers [OF assms(3)] by (rule modeq_trans)
qed

end
