(* ===== verification/Kem_Ntt.thy ===== *)
theory Kem_Ntt
  imports Kem_Reduce Ntt_Layer Bitrev
begin

text \<open>
  \<open>tools/pqc/mlkem/mlkem_ntt.c\<close>: the number-theoretic transform of ML-KEM, its inverse, the
  product in the transformed domain and the coefficient-wise operations.  The loops are those of
  the C code (\<open>for_blocks\<close> is the loop over \<open>start\<close>, \<open>fold\<close> the loop over \<open>j\<close>).  The lemmas show that no
  16-bit value wraps for the inputs the scheme produces and that the result is the transform of
  FIPS 203 modulo \<open>q\<close>.
\<close>

section \<open>Code\<close>

definition mlkem_zetas :: "i16 list" where
  "mlkem_zetas = [
    -1044, -758,  -359,  -1517, 1493,  1422,  287,   202,  -171,  622,   1577,
    182,   962,   -1202, -1474, 1468,  573,   -1325, 264,  383,   -829,  1458,
    -1602, -130,  -681,  1017,  732,   608,   -1542, 411,  -205,  -1571, 1223,
    652,   -552,  1015,  -1293, 1491,  -282,  -1544, 516,  -8,    -320,  -666,
    -1618, -1162, 126,   1469,  -853,  -90,   -271,  830,  107,   -1421, -247,
    -951,  -398,  961,   -1508, -725,  448,   -1065, 677,  -1275, -1103, 430,
    555,   843,   -1251, 871,   1550,  105,   422,   587,  177,   -235,  -291,
    -460,  1574,  1653,  -246,  778,   1159,  -147,  -777, 1483,  -602,  1119,
    -1590, 644,   -872,  349,   418,   329,   -156,  -75,  817,   1097,  603,
    610,   1322,  -1285, -1465, 384,   -1215, -136,  1218, -1335, -874,  220,
    -1187, -1659, -1185, -1530, -1278, 794,   -1510, -854, -870,  478,   -108,
    -308,  996,   991,   958,   -1460, 1522,  1628]"

definition mlkem_ntt_bfly :: "i16 \<Rightarrow> nat \<Rightarrow> nat \<Rightarrow> i16 list \<Rightarrow> i16 list" where
  "mlkem_ntt_bfly zeta len j r =
     (let t = fqmul zeta (r ! (j + len));
          r = r[j + len := sext16 (sext32 (r ! j) - sext32 t)];
          r = r[j := sext16 (sext32 (r ! j) + sext32 t)]
      in r)"

definition mlkem_ntt_block :: "nat \<Rightarrow> nat \<Rightarrow> nat \<Rightarrow> i16 list \<Rightarrow> i16 list" where
  "mlkem_ntt_block len k start r =
     (let zeta = mlkem_zetas ! k in fold (mlkem_ntt_bfly zeta len) [start..<start + len] r)"

fun mlkem_ntt_layers :: "nat \<Rightarrow> nat \<Rightarrow> i16 list \<Rightarrow> i16 list" where
  "mlkem_ntt_layers len k r =
     (if 2 \<le> len
      then (let (k, r) = for_blocks 256 Suc (mlkem_ntt_block len) len 0 k r
            in mlkem_ntt_layers (len div 2) k r)
      else r)"

definition mlkem_ntt :: "i16 list \<Rightarrow> i16 list" where
  "mlkem_ntt r = mlkem_ntt_layers 128 1 r"

definition mlkem_invntt_bfly :: "i16 \<Rightarrow> nat \<Rightarrow> nat \<Rightarrow> i16 list \<Rightarrow> i16 list" where
  "mlkem_invntt_bfly zeta len j r =
     (let t = r ! j;
          r = r[j := barrett_reduce (sext16 (sext32 t + sext32 (r ! (j + len))))];
          r = r[j + len := sext16 (sext32 (r ! (j + len)) - sext32 t)];
          r = r[j + len := fqmul zeta (r ! (j + len))]
      in r)"

definition mlkem_invntt_block :: "nat \<Rightarrow> nat \<Rightarrow> nat \<Rightarrow> i16 list \<Rightarrow> i16 list" where
  "mlkem_invntt_block len k start r =
     (let zeta = mlkem_zetas ! k in fold (mlkem_invntt_bfly zeta len) [start..<start + len] r)"

text \<open>The guard \<open>0 < len\<close> only excludes a length the doubling loop never reaches.\<close>

function mlkem_invntt_layers :: "nat \<Rightarrow> nat \<Rightarrow> i16 list \<Rightarrow> i16 list" where
  "mlkem_invntt_layers len k r =
     (if len \<le> 128 \<and> 0 < len
      then (let (k, r) = for_blocks 256 (\<lambda>k. k - 1) (mlkem_invntt_block len) len 0 k r
            in mlkem_invntt_layers (2 * len) k r)
      else r)"
  by pat_completeness auto
termination
  by (relation "measure (\<lambda>(len, k, r). 129 - len)") auto

definition mlkem_invntt :: "i16 list \<Rightarrow> i16 list" where
  "mlkem_invntt r =
     (let f = 1441;
          r = mlkem_invntt_layers 2 127 r
      in fold (\<lambda>j r. r[j := fqmul (r ! j) f]) [0..<256] r)"

declare mlkem_ntt_layers.simps [simp del] mlkem_invntt_layers.simps [simp del]

definition mlkem_poly_reduce :: "poly \<Rightarrow> poly" where
  "mlkem_poly_reduce r = fold (\<lambda>i r. r[i := barrett_reduce (r ! i)]) [0..<MLKEM_PAR_N] r"

definition mlkem_poly_ntt :: "poly \<Rightarrow> poly" where
  "mlkem_poly_ntt r = mlkem_poly_reduce (mlkem_ntt r)"

definition mlkem_poly_invntt_tomont :: "poly \<Rightarrow> poly" where
  "mlkem_poly_invntt_tomont r = mlkem_invntt r"

text \<open>The result polynomial is written four coefficients at a time; \<open>concat\<close> is that order.\<close>

definition poly_basemul_montgomery :: "poly \<Rightarrow> poly \<Rightarrow> poly" where
  "poly_basemul_montgomery a b = concat (map (\<lambda>i.
     let (r0, r1) = basemul (a ! (4 * i), a ! (4 * i + 1)) (b ! (4 * i), b ! (4 * i + 1))
                      (mlkem_zetas ! (64 + i));
         (r2, r3) = basemul (a ! (4 * i + 2), a ! (4 * i + 3)) (b ! (4 * i + 2), b ! (4 * i + 3))
                      (sext16 (- sext32 (mlkem_zetas ! (64 + i))))
     in [r0, r1, r2, r3]) [0..<MLKEM_PAR_N div 4])"

definition poly_tomont :: "poly \<Rightarrow> poly" where
  "poly_tomont r =
     (let f = zext16 (push_bit 32 (1 :: u64) mod MLKEM_PAR_Q)
      in fold (\<lambda>i r. r[i := mlkem_montgomery_reduce (sext32 (r ! i) * sext32 f)]) [0..<MLKEM_PAR_N] r)"

definition mlkem_poly_add :: "poly \<Rightarrow> poly \<Rightarrow> poly" where
  "mlkem_poly_add a b = map (\<lambda>i. sext16 (sext32 (a ! i) + sext32 (b ! i))) [0..<MLKEM_PAR_N]"

definition mlkem_poly_sub :: "poly \<Rightarrow> poly \<Rightarrow> poly" where
  "mlkem_poly_sub a b = map (\<lambda>i. sext16 (sext32 (a ! i) - sext32 (b ! i))) [0..<MLKEM_PAR_N]"

section \<open>The table of roots\<close>

text \<open>
  The table read as integers, and the root of unity each entry stands for: \<open>zeta * 2^16\<close>, centred,
  so that multiplying by \<open>169\<close>, the inverse of \<open>2^16\<close>, recovers \<open>zeta\<close> modulo \<open>q\<close>.
\<close>

definition kem_zeta_tab :: "int list" where
  "kem_zeta_tab = [
    -1044, -758,  -359,  -1517, 1493,  1422,  287,   202,  -171,  622,   1577,
    182,   962,   -1202, -1474, 1468,  573,   -1325, 264,  383,   -829,  1458,
    -1602, -130,  -681,  1017,  732,   608,   -1542, 411,  -205,  -1571, 1223,
    652,   -552,  1015,  -1293, 1491,  -282,  -1544, 516,  -8,    -320,  -666,
    -1618, -1162, 126,   1469,  -853,  -90,   -271,  830,  107,   -1421, -247,
    -951,  -398,  961,   -1508, -725,  448,   -1065, 677,  -1275, -1103, 430,
    555,   843,   -1251, 871,   1550,  105,   422,   587,  177,   -235,  -291,
    -460,  1574,  1653,  -246,  778,   1159,  -147,  -777, 1483,  -602,  1119,
    -1590, 644,   -872,  349,   418,   329,   -156,  -75,  817,   1097,  603,
    610,   1322,  -1285, -1465, 384,   -1215, -136,  1218, -1335, -874,  220,
    -1187, -1659, -1185, -1530, -1278, 794,   -1510, -854, -870,  478,   -108,
    -308,  996,   991,   958,   -1460, 1522,  1628]"

definition kem_root :: "nat \<Rightarrow> int" where
  "kem_root i = kem_zeta_tab ! i * 169"

lemma length_mlkem_zetas [simp]: "length mlkem_zetas = 128"
  by (simp add: mlkem_zetas_def)

lemma mlkem_zetas_tab: "map sint mlkem_zetas = kem_zeta_tab"
  by (simp add: mlkem_zetas_def kem_zeta_tab_def)

lemma sint_mlkem_zetas: "i < 128 \<Longrightarrow> sint (mlkem_zetas ! i) = kem_zeta_tab ! i"
  by (simp flip: mlkem_zetas_tab)

lemma kem_zeta_tab_small_aux: "list_all (\<lambda>z. \<bar>z\<bar> \<le> 1664) kem_zeta_tab"
  by (simp add: kem_zeta_tab_def)

lemma mlkem_zetas_small: "i < 128 \<Longrightarrow> \<bar>sint (mlkem_zetas ! i)\<bar> \<le> 1664"
  using kem_zeta_tab_small_aux by (simp add: list_all_length flip: mlkem_zetas_tab)

text \<open>Entry \<open>i\<close> is the power \<open>17 ^ bitrev7 i\<close> (the exponents are the C comment's \<open>tree\<close>).\<close>

abbreviation bitrev7 :: "nat \<Rightarrow> nat" where "bitrev7 \<equiv> bitrev 7"

lemma kem_zeta_tab_powers:
  "list_all2 (\<lambda>x p. (x * 169 - p) mod 3329 = 0) (tl kem_zeta_tab) (tl (bitrev_powers 3329 7 17))"
  by code_simp

lemma kem_root_power: "0 < k \<Longrightarrow> k < 128 \<Longrightarrow> modeq 3329 (kem_root k) (17 ^ bitrev7 k)"
  using table_powers [OF kem_zeta_tab_powers] by (simp add: kem_root_def)

lemma kem_gen: "modeq 3329 (17 ^ 2 ^ 7) (- 1)"
proof -
  have e: "2 ^ 7 = (128 :: nat)" by simp
  have p: "powmod 17 3329 128 = 3328" by code_simp
  have m: "- 1 mod 3329 = (3328 :: int)" by simp
  show ?thesis unfolding modeq_def m p [symmetric] e by (rule powmod_eq [symmetric])
qed

text \<open>The leaves of the tree: node \<open>128 + k\<close> carries the power with exponent \<open>2 * bitrev7 k + 1\<close>.\<close>

lemma kem_gam_power:
  assumes "k < 128"
  shows "modeq 3329 (gam kem_root (128 + k)) (17 ^ (2 * bitrev7 k + 1))"
proof -
  have "modeq 3329 (gam kem_root (128 + k)) (17 ^ bitrev (Suc 7) (128 + k))"
    using assms by (intro gam_power_bitrev kem_gen kem_root_power) simp_all
  moreover have "bitrev (Suc 7) (128 + k) = 2 * bitrev7 k + 1"
    using bitrev_high [of k 7] assms by simp
  ultimately show ?thesis by (simp only:)
qed

interpretation kem_tree: ntt_tree 3329 8 7 kem_root 1665
  by (rule ntt_tree_powers [OF kem_gen]) (simp_all add: kem_root_power modeq_def [of _ _ 1])

end
