(* ===== verification/Kem_Ntt_Correct.thy ===== *)
theory Kem_Ntt_Correct
  imports Kem_Ntt
begin

text \<open>
  Correctness of the transforms of \<open>mlkem_ntt.c\<close>.  Each layer of the code is one \<open>ntt_pass\<close> of a
  butterfly on words; the butterflies are shown to be the tree's butterflies on bounded operands, so
  that the layers follow from the interpretation \<open>kem_tree\<close> by induction on the level.
\<close>

section \<open>The forward transform\<close>

definition kem_ct :: "i16 \<Rightarrow> i16 \<Rightarrow> i16 \<Rightarrow> i16 \<times> i16" where
  "kem_ct zeta x y = (let t = fqmul zeta y
     in (sext16 (sext32 x + sext32 t), sext16 (sext32 x - sext32 t)))"

lemma mlkem_ntt_bfly_eq: "0 < len \<Longrightarrow> mlkem_ntt_bfly zeta len j r = bfly (kem_ct zeta) len j r"
  by (simp add: mlkem_ntt_bfly_def bfly_def kem_ct_def Let_def list_update_swap)

text \<open>The product with a table entry is the product with the root it stands for.\<close>

lemma fqmul_zeta:
  assumes "k < 128"
  shows "modeq 3329 (sint (fqmul (mlkem_zetas ! k) y)) (kem_root k * sint y)"
    and "\<bar>sint (fqmul (mlkem_zetas ! k) y)\<bar> < 3329"
proof -
  let ?t = "sint (fqmul (mlkem_zetas ! k) y)"
  have s: "\<bar>sint (mlkem_zetas ! k) * sint y\<bar> < 32768 * 3329"
    using mlkem_zetas_small [OF assms] by (rule fqmul_small_ok)
  show "\<bar>?t\<bar> < 3329" using s by (rule fqmul_bound)
  have "?t = 169 * (?t * 65536) - 3329 * (3327 * ?t)" by simp
  also have "modeq 3329 \<dots> (169 * (?t * 65536))" by (simp add: modeq_iff_dvd)
  also have "modeq 3329 \<dots> (169 * (sint (mlkem_zetas ! k) * sint y))"
    by (intro modeq_mult modeq_refl fqmul_modeq s)
  also have "\<dots> = kem_root k * sint y" by (simp add: kem_root_def sint_mlkem_zetas assms)
  finally show "modeq 3329 ?t (kem_root k * sint y)" .
qed

lemma kem_ct_fwd:
  assumes "k < 128" "B + 3328 \<le> 32767"
  shows "fwd_bfly 3329 sint B (B + 3328) (kem_root k) (kem_ct (mlkem_zetas ! k))"
  unfolding fwd_bfly_def
proof (intro allI impI)
  fix x y :: i16
  assume x: "\<bar>sint x\<bar> \<le> B" and y: "\<bar>sint y\<bar> \<le> B"
  let ?t = "fqmul (mlkem_zetas ! k) y"
  note t = fqmul_zeta [OF assms(1), of y]
  have "sint (fst (kem_ct (mlkem_zetas ! k) x y)) = sint x + sint ?t"
    "sint (snd (kem_ct (mlkem_zetas ! k) x y)) = sint x - sint ?t"
    using t(2) x assms(2) by (simp_all add: kem_ct_def Let_def sint_store_add sint_store_diff)
  then show "modeq 3329 (sint (fst (kem_ct (mlkem_zetas ! k) x y))) (sint x + kem_root k * sint y) \<and>
      modeq 3329 (sint (snd (kem_ct (mlkem_zetas ! k) x y))) (sint x - kem_root k * sint y) \<and>
      \<bar>sint (fst (kem_ct (mlkem_zetas ! k) x y))\<bar> \<le> B + 3328 \<and>
      \<bar>sint (snd (kem_ct (mlkem_zetas ! k) x y))\<bar> \<le> B + 3328"
    using t x by (auto intro: modeq_add modeq_diff)
qed

lemma mlkem_ntt_block_eq:
  "0 < len \<Longrightarrow> mlkem_ntt_block len k start = fold (bfly (kem_ct (mlkem_zetas ! k)) len) [start..<start + len]"
  unfolding mlkem_ntt_block_def Let_def fun_eq_iff
  by (intro allI fold_cong) (auto simp: fun_eq_iff mlkem_ntt_bfly_eq)

lemma mlkem_ntt_layers_step:
  assumes "l < 7"
  shows "mlkem_ntt_layers (2 ^ (8 - Suc l)) (2 ^ l) r =
    mlkem_ntt_layers (2 ^ (7 - Suc l)) (2 ^ Suc l)
      (ntt_pass (\<lambda>b. kem_ct (mlkem_zetas ! (2 ^ l + b))) (2 ^ (8 - Suc l)) (2 ^ l) r)"
proof -
  let ?len = "2 ^ (8 - Suc l) :: nat"
  have n: "256 = 2 ^ l * (2 * ?len)" using kem_tree.pass_size [OF assms] by simp
  have len: "2 \<le> ?len" "?len div 2 = 2 ^ (7 - Suc l)"
    using assms by (auto simp: Suc_diff_Suc le_Suc_eq power_eq_if)
  have "for_blocks 256 Suc (mlkem_ntt_block ?len) ?len 0 (2 ^ l) r =
     (2 ^ Suc l, ntt_pass (\<lambda>b. kem_ct (mlkem_zetas ! (2 ^ l + b))) ?len (2 ^ l) r)"
    using for_blocks_fold [of ?len 0 "2 ^ l" Suc "mlkem_ntt_block ?len" "2 ^ l" r]
    by (simp add: n ntt_pass_def mlkem_ntt_block_eq funpow_Suc del: Suc_funpow)
  then show ?thesis using len by (subst mlkem_ntt_layers.simps) (simp only: if_True prod.case Let_def)
qed

lemma mlkem_ntt_layers_rep:
  assumes "l \<le> 7" "length r = 256" "layer_rep 3329 kem_root 8 1 a l (\<lambda>i. sint (r ! i))"
    and "\<forall>x \<in> set r. \<bar>sint x\<bar> \<le> B" "B + 3328 * (7 - int l) \<le> 32767"
  defines "r' \<equiv> mlkem_ntt_layers (2 ^ (8 - Suc l)) (2 ^ l) r"
  shows "length r' = 256 \<and> layer_rep 3329 kem_root 8 1 a 7 (\<lambda>i. sint (r' ! i)) \<and>
    (\<forall>x \<in> set r'. \<bar>sint x\<bar> \<le> B + 3328 * (7 - int l))"
  using assms(1-5) unfolding r'_def
proof (induction "7 - l" arbitrary: l r B)
  case 0
  then show ?case by (simp add: mlkem_ntt_layers.simps)
next
  case (Suc d)
  then have l: "l < 7" "d = 7 - Suc l" by auto
  let ?r = "ntt_pass (\<lambda>b. kem_ct (mlkem_zetas ! (2 ^ l + b))) (2 ^ (8 - Suc l)) (2 ^ l) r"
  have f: "fwd_bfly 3329 sint B (B + 3328) (kem_root (2 ^ l + b)) (kem_ct (mlkem_zetas ! (2 ^ l + b)))"
    if "b < 2 ^ l" for b
    using kem_tree.node_lt [OF l(1) that] Suc.prems(5) l(1) by (intro kem_ct_fwd) auto
  have len: "length r = 2 ^ 8" using Suc.prems(2) by simp
  note P = kem_tree.forward_pass [OF l(1) len Suc.prems(3,4) f]
  have B: "B + 3328 + 3328 * (7 - int (Suc l)) = B + 3328 * (7 - int l)" using l(1) by simp
  have "2 ^ (8 - Suc (Suc l)) = (2 ^ (7 - Suc l) :: nat)" by simp
  then show ?case
    using Suc.hyps(1) [OF l(2) _ _ P] Suc.prems(2,5) l(1) B
    unfolding mlkem_ntt_layers_step [OF l(1)] by (simp add: algebra_simps)
qed

lemma mlkem_ntt_rep:
  assumes "length r = 256" "\<forall>x \<in> set r. \<bar>sint x\<bar> \<le> B" "B \<le> 9471"
  shows "length (mlkem_ntt r) = 256 \<and>
    layer_rep 3329 kem_root 8 1 (\<lambda>i. sint (r ! i)) 7 (\<lambda>i. sint (mlkem_ntt r ! i)) \<and>
    (\<forall>x \<in> set (mlkem_ntt r). \<bar>sint x\<bar> \<le> B + 23296)"
  using mlkem_ntt_layers_rep [of 0 r "\<lambda>i. sint (r ! i)" B] assms
  by (simp add: layer_rep_0 mlkem_ntt_def)

section \<open>The inverse transform\<close>

definition kem_gs :: "i16 \<Rightarrow> i16 \<Rightarrow> i16 \<Rightarrow> i16 \<times> i16" where
  "kem_gs zeta x y =
     (barrett_reduce (sext16 (sext32 x + sext32 y)), fqmul zeta (sext16 (sext32 y - sext32 x)))"

lemma mlkem_invntt_bfly_eq:
  "0 < len \<Longrightarrow> mlkem_invntt_bfly zeta len j r = bfly (kem_gs zeta) len j r"
  by (cases "j + len < length r") (simp_all add: mlkem_invntt_bfly_def bfly_def kem_gs_def Let_def list_update_beyond)

lemma mlkem_invntt_block_eq:
  "0 < len \<Longrightarrow> mlkem_invntt_block len k start = fold (bfly (kem_gs (mlkem_zetas ! k)) len) [start..<start + len]"
  unfolding mlkem_invntt_block_def Let_def fun_eq_iff
  by (intro allI fold_cong) (auto simp: fun_eq_iff mlkem_invntt_bfly_eq)

lemma kem_gs_inv:
  assumes "k < 128"
  shows "inv_bfly 3329 sint 16383 16383 (kem_root k) (kem_gs (mlkem_zetas ! k))"
  unfolding inv_bfly_def
proof (intro allI impI)
  fix x y :: i16
  assume x: "\<bar>sint x\<bar> \<le> 16383" and y: "\<bar>sint y\<bar> \<le> 16383"
  let ?s = "sext16 (sext32 x + sext32 y)" and ?d = "sext16 (sext32 y - sext32 x)"
  have s: "sint ?s = sint x + sint y" using x y by (intro sint_store_add) auto
  have d: "sint ?d = sint y - sint x" using x y by (intro sint_store_diff) auto
  show "modeq 3329 (sint (fst (kem_gs (mlkem_zetas ! k) x y))) (sint x + sint y) \<and>
      modeq 3329 (sint (snd (kem_gs (mlkem_zetas ! k) x y))) (kem_root k * (sint y - sint x)) \<and>
      \<bar>sint (fst (kem_gs (mlkem_zetas ! k) x y))\<bar> \<le> 16383 \<and>
      \<bar>sint (snd (kem_gs (mlkem_zetas ! k) x y))\<bar> \<le> 16383"
    using barrett_reduce_modeq [of ?s] barrett_reduce_centred [of ?s] fqmul_zeta [OF assms, of ?d]
    by (simp add: kem_gs_def s d)
qed

lemma mlkem_invntt_layers_step:
  assumes "l < 7"
  shows "mlkem_invntt_layers (2 ^ (8 - Suc l)) (2 ^ Suc l - 1) r =
    mlkem_invntt_layers (2 ^ (8 - l)) (2 ^ l - 1)
      (ntt_pass (\<lambda>b. kem_gs (mlkem_zetas ! (2 ^ Suc l - 1 - b))) (2 ^ (8 - Suc l)) (2 ^ l) r)"
proof -
  let ?len = "2 ^ (8 - Suc l) :: nat"
  have n: "256 = 2 ^ l * (2 * ?len)" using kem_tree.pass_size [OF assms] by simp
  have "?len \<le> 2 ^ 7" by (intro power_increasing) auto
  then have len: "?len \<le> 128" "2 * ?len = 2 ^ (8 - l)" "0 < ?len"
    using assms by (auto simp: Suc_diff_le simp flip: power_Suc)
  have "for_blocks 256 (\<lambda>k. k - 1) (mlkem_invntt_block ?len) ?len 0 (2 ^ Suc l - 1) r =
     (2 ^ l - 1, ntt_pass (\<lambda>b. kem_gs (mlkem_zetas ! (2 ^ Suc l - 1 - b))) ?len (2 ^ l) r)"
    using for_blocks_fold [of ?len 0 "2 ^ l" "\<lambda>k. k - 1" "mlkem_invntt_block ?len" "2 ^ Suc l - 1" r]
    by (simp add: n ntt_pass_def mlkem_invntt_block_eq funpow_pred)
  then show ?thesis using len
    by (subst mlkem_invntt_layers.simps) (simp only: if_True prod.case Let_def simp_thms)
qed

lemma mlkem_invntt_layers_rep:
  assumes "l \<le> 7" "length r = 256" "layer_rep 3329 kem_root 8 c a l (\<lambda>i. sint (r ! i))"
    and "\<forall>x \<in> set r. \<bar>sint x\<bar> \<le> 16383"
  shows "length (mlkem_invntt_layers (2 ^ (8 - l)) (2 ^ l - 1) r) = 256 \<and>
    layer_rep 3329 kem_root 8 (2 ^ l * c) a 0
      (\<lambda>i. sint (mlkem_invntt_layers (2 ^ (8 - l)) (2 ^ l - 1) r ! i))"
  using assms
proof (induction l arbitrary: r c)
  case 0
  then show ?case by (simp add: mlkem_invntt_layers.simps)
next
  case (Suc l)
  then have l: "l < 7" and len: "length r = 2 ^ 8" by simp_all
  let ?r = "ntt_pass (\<lambda>b. kem_gs (mlkem_zetas ! (2 ^ Suc l - 1 - b))) (2 ^ (8 - Suc l)) (2 ^ l) r"
  have f: "inv_bfly 3329 sint 16383 16383 (kem_root (2 ^ Suc l - 1 - b))
      (kem_gs (mlkem_zetas ! (2 ^ Suc l - 1 - b)))" for b
  proof (rule kem_gs_inv)
    have "(2 :: nat) ^ Suc l \<le> 2 ^ 7" using l by (intro power_increasing) auto
    then show "2 ^ Suc l - 1 - b < 128" by simp
  qed
  note P = kem_tree.inverse_pass [OF l len Suc.prems(3,4) f]
  have "length ?r = 256" using len by simp
  from Suc.IH [OF _ this P] l show ?case
    unfolding mlkem_invntt_layers_step [OF l] by (simp add: mult_ac)
qed

lemma mlkem_invntt_rep:
  assumes "length r = 256" "layer_rep 3329 kem_root 8 c a 7 (\<lambda>i. sint (r ! i))"
    and "\<forall>x \<in> set r. \<bar>sint x\<bar> \<le> 16383" "i < 256"
  shows "length (mlkem_invntt r) = 256"
    and "modeq 3329 (sint (mlkem_invntt r ! i)) (65536 * c * a i)"
    and "\<bar>sint (mlkem_invntt r ! i)\<bar> < 3329"
proof -
  let ?r = "mlkem_invntt_layers 2 127 r"
  have R: "length ?r = 256" "layer_rep 3329 kem_root 8 (128 * c) a 0 (\<lambda>i. sint (?r ! i))"
    using mlkem_invntt_layers_rep [OF _ assms(1,2,3)] by simp_all
  have e: "mlkem_invntt r = map (\<lambda>x. fqmul x 1441) ?r"
    using fold_upt_map [of "\<lambda>x. fqmul x 1441" ?r] R(1) by (simp add: mlkem_invntt_def)
  then show "length (mlkem_invntt r) = 256" using R(1) by simp
  let ?y = "sint (fqmul (?r ! i) 1441)"
  have s: "\<bar>sint (?r ! i) * sint (1441 :: i16)\<bar> < 32768 * 3329"
    using fqmul_small_ok [of "1441 :: i16" "?r ! i"] by (simp add: mult.commute)
  then show "\<bar>sint (mlkem_invntt r ! i)\<bar> < 3329"
    using fqmul_bound [OF s] e R(1) assms(4) by simp
  have ri: "modeq 3329 (sint (?r ! i)) (128 * c * a i)"
    using R(2) assms(4) by (auto simp: layer_rep_def ntt_eval_0)
  have "?y = 169 * (?y * 65536) - 3329 * (3327 * ?y)" by simp
  also have "modeq 3329 \<dots> (169 * (?y * 65536))" by (simp add: modeq_iff_dvd)
  also have "modeq 3329 \<dots> (169 * (sint (?r ! i) * sint (1441 :: i16)))"
    by (intro modeq_mult modeq_refl fqmul_modeq s)
  also have "modeq 3329 \<dots> (169 * ((128 * c * a i) * sint (1441 :: i16)))"
    by (intro modeq_mult modeq_refl ri)
  also have "\<dots> = 65536 * c * a i + 3329 * (9344 * (c * a i))" by simp
  also have "modeq 3329 \<dots> (65536 * c * a i)" by (simp add: modeq_iff_dvd)
  finally show "modeq 3329 (sint (mlkem_invntt r ! i)) (65536 * c * a i)"
    using e R(1) assms(4) by simp
qed

section \<open>Products in the transformed domain\<close>

lemma small_mult:
  fixes x y :: int
  assumes "\<bar>x\<bar> \<le> 4095" "\<bar>y\<bar> \<le> 4095"
  shows "\<bar>x * y\<bar> < 32768 * 3329"
proof -
  have "\<bar>x * y\<bar> \<le> 4095 * 4095" unfolding abs_mult using assms by (intro mult_mono) auto
  then show ?thesis by simp
qed

text \<open>The product of two residues \<open>a0 + a1 X\<close> and \<open>b0 + b1 X\<close> modulo \<open>X^2 - w\<close>, divided by \<open>2^16\<close>.\<close>

lemma basemul_correct:
  assumes a: "\<bar>sint (fst a)\<bar> \<le> 4095" "\<bar>sint (snd a)\<bar> \<le> 4095"
    and b: "\<bar>sint (fst b)\<bar> \<le> 4095" "\<bar>sint (snd b)\<bar> \<le> 4095"
    and z: "\<bar>sint zeta\<bar> \<le> 1664" "modeq 3329 (sint zeta * 169) w"
  shows "modeq 3329 (sint (fst (basemul a b zeta)))
      (169 * (sint (fst a) * sint (fst b) + w * (sint (snd a) * sint (snd b))))"
    and "modeq 3329 (sint (snd (basemul a b zeta)))
      (169 * (sint (fst a) * sint (snd b) + sint (snd a) * sint (fst b)))"
    and "\<bar>sint (fst (basemul a b zeta))\<bar> \<le> 6656" and "\<bar>sint (snd (basemul a b zeta))\<bar> \<le> 6656"
proof -
  let ?p = "fqmul (snd a) (snd b)"
  note ab = small_mult [OF a(1) b(1)] small_mult [OF a(1) b(2)] small_mult [OF a(2) b(1)]
    small_mult [OF a(2) b(2)]
  have pz: "\<bar>sint ?p * sint zeta\<bar> < 32768 * 3329"
    using fqmul_small_ok [OF z(1), of ?p] by (simp add: mult.commute)
  note bnd = fqmul_bound [OF ab(1)] fqmul_bound [OF ab(2)] fqmul_bound [OF ab(3)] fqmul_bound [OF pz]
  have e0: "sint (fst (basemul a b zeta)) = sint (fqmul ?p zeta) + sint (fqmul (fst a) (fst b))"
    and e1: "sint (snd (basemul a b zeta)) = sint (fqmul (fst a) (snd b)) + sint (fqmul (snd a) (fst b))"
    using bnd by (simp_all add: basemul_def Let_def sint_store_add)
  show "\<bar>sint (fst (basemul a b zeta))\<bar> \<le> 6656" "\<bar>sint (snd (basemul a b zeta))\<bar> \<le> 6656"
    unfolding e0 e1 using bnd by linarith+
  have "modeq 3329 (sint (fqmul ?p zeta)) (169 * (169 * (sint (snd a) * sint (snd b)) * sint zeta))"
    by (rule modeq_trans [OF fqmul_modeq_inv [OF pz]]) (intro modeq_mult modeq_refl fqmul_modeq_inv ab)
  also have "\<dots> = 169 * (sint (snd a) * sint (snd b)) * (sint zeta * 169)" by simp
  also have "modeq 3329 \<dots> (169 * (sint (snd a) * sint (snd b)) * w)"
    by (intro modeq_mult modeq_refl z)
  finally have "modeq 3329 (sint (fst (basemul a b zeta)))
      (169 * (sint (snd a) * sint (snd b)) * w + 169 * (sint (fst a) * sint (fst b)))"
    unfolding e0 by (intro modeq_add fqmul_modeq_inv ab)
  then show "modeq 3329 (sint (fst (basemul a b zeta)))
      (169 * (sint (fst a) * sint (fst b) + w * (sint (snd a) * sint (snd b))))"
    by (simp add: algebra_simps)
  have "modeq 3329 (sint (snd (basemul a b zeta)))
      (169 * (sint (fst a) * sint (snd b)) + 169 * (sint (snd a) * sint (fst b)))"
    unfolding e1 by (intro modeq_add fqmul_modeq_inv ab)
  then show "modeq 3329 (sint (snd (basemul a b zeta)))
      (169 * (sint (fst a) * sint (snd b) + sint (snd a) * sint (fst b)))"
    by (simp add: algebra_simps)
qed

lemma lessThan_two: "{..<2 :: nat} = {0, 1}"
  by auto

lemma block_mult_2:
  "block_mult 2 g u v 0 = u 0 * v 0 + g * (u 1 * v 1)"
  "block_mult 2 g u v (Suc 0) = u 0 * v 1 + u 1 * v 0"
  by (simp_all add: block_mult_def lessThan_two algebra_simps)

text \<open>The two loop bodies for block \<open>k = 2 * i\<close> and \<open>k = 2 * i + 1\<close> as one: the root is that of leaf \<open>k\<close>.\<close>

definition kem_leaf_zeta :: "nat \<Rightarrow> i16" where
  "kem_leaf_zeta k = (if even k then mlkem_zetas ! (64 + k div 2)
     else sext16 (- sext32 (mlkem_zetas ! (64 + k div 2))))"

lemma kem_leaf_zeta_gam:
  assumes "k < 128"
  shows "\<bar>sint (kem_leaf_zeta k)\<bar> \<le> 1664" and "sint (kem_leaf_zeta k) * 169 = gam kem_root (128 + k)"
proof -
  let ?z = "mlkem_zetas ! (64 + k div 2)"
  have k: "64 + k div 2 < 128" using assms by simp
  have "sint (- sext32 ?z) = - sint ?z" using i16_range [of ?z] by (subst sint_minus_fit) auto
  then have s: "sint (kem_leaf_zeta k) = (if even k then sint ?z else - sint ?z)"
    using mlkem_zetas_small [OF k] by (auto simp: kem_leaf_zeta_def sint_scast_fit)
  then show "\<bar>sint (kem_leaf_zeta k)\<bar> \<le> 1664" using mlkem_zetas_small [OF k] by simp
  have "(128 + k) div 2 = 64 + k div 2" by simp
  then show "sint (kem_leaf_zeta k) * 169 = gam kem_root (128 + k)"
    using k by (auto simp del: div_add simp: s gam_def kem_root_def sint_mlkem_zetas)
qed

lemma poly_basemul_nth:
  assumes "k < 128"
  shows "poly_basemul_montgomery a b ! (2 * k) =
      fst (basemul (a ! (2 * k), a ! Suc (2 * k)) (b ! (2 * k), b ! Suc (2 * k)) (kem_leaf_zeta k))"
    and "poly_basemul_montgomery a b ! Suc (2 * k) =
      snd (basemul (a ! (2 * k), a ! Suc (2 * k)) (b ! (2 * k), b ! Suc (2 * k)) (kem_leaf_zeta k))"
proof -
  let ?f = "\<lambda>i.
     let (r0, r1) = basemul (a ! (4 * i), a ! (4 * i + 1)) (b ! (4 * i), b ! (4 * i + 1))
                      (mlkem_zetas ! (64 + i));
         (r2, r3) = basemul (a ! (4 * i + 2), a ! (4 * i + 3)) (b ! (4 * i + 2), b ! (4 * i + 3))
                      (sext16 (- sext32 (mlkem_zetas ! (64 + i))))
     in [r0, r1, r2, r3]"
  define i where "i = k div 2"
  have i: "i < 64" "k = 2 * i \<or> k = Suc (2 * i)" using assms by (auto simp: i_def)
  have N: "poly_basemul_montgomery a b ! (4 * i + j) = ?f i ! j" if "j < 4" for j
    unfolding poly_basemul_montgomery_def using i(1) that
    by (intro nth_concat_chunks) (auto split: prod.split)
  from i(2) show "poly_basemul_montgomery a b ! (2 * k) =
      fst (basemul (a ! (2 * k), a ! Suc (2 * k)) (b ! (2 * k), b ! Suc (2 * k)) (kem_leaf_zeta k))"
    by (elim disjE)
      (use N [of 0] N [of 2] in \<open>simp_all add: kem_leaf_zeta_def numeral_3_eq_3 split: prod.splits\<close>)
  from i(2) show "poly_basemul_montgomery a b ! Suc (2 * k) =
      snd (basemul (a ! (2 * k), a ! Suc (2 * k)) (b ! (2 * k), b ! Suc (2 * k)) (kem_leaf_zeta k))"
    by (elim disjE)
      (use N [of 1] N [of 3] in \<open>simp_all add: kem_leaf_zeta_def numeral_3_eq_3 split: prod.splits\<close>)
qed

lemma mlkem_poly_reduce_eq: "length r = 256 \<Longrightarrow> mlkem_poly_reduce r = map barrett_reduce r"
  using fold_upt_map [of barrett_reduce r] by (simp add: mlkem_poly_reduce_def)

lemma mlkem_poly_ntt_rep:
  assumes "length r = 256" "\<forall>x \<in> set r. \<bar>sint x\<bar> \<le> 9471"
  shows "length (mlkem_poly_ntt r) = 256 \<and> (\<forall>x \<in> set (mlkem_poly_ntt r). \<bar>sint x\<bar> \<le> 1664) \<and>
    layer_rep 3329 kem_root 8 1 (\<lambda>i. sint (r ! i)) 7 (\<lambda>i. sint (mlkem_poly_ntt r ! i))"
proof -
  from mlkem_ntt_rep [OF assms order_refl] have N: "length (mlkem_ntt r) = 256"
    "layer_rep 3329 kem_root 8 1 (\<lambda>i. sint (r ! i)) 7 (\<lambda>i. sint (mlkem_ntt r ! i))" by auto
  have "layer_rep 3329 kem_root 8 1 (\<lambda>i. sint (r ! i)) 7 (\<lambda>i. sint (mlkem_poly_ntt r ! i))"
    unfolding layer_rep_def
  proof (intro allI impI)
    fix k m :: nat
    assume k: "k < 2 ^ 7" and m: "m < 2 ^ (8 - 7)"
    then have "k * 2 ^ (8 - 7) + m < 256" by simp
    then have "mlkem_poly_ntt r ! (k * 2 ^ (8 - 7) + m) = barrett_reduce (mlkem_ntt r ! (k * 2 ^ (8 - 7) + m))"
      using N(1) by (simp add: mlkem_poly_ntt_def mlkem_poly_reduce_eq)
    with N(2) k m show "modeq 3329 (sint (mlkem_poly_ntt r ! (k * 2 ^ (8 - 7) + m)))
        (1 * ntt_eval kem_root 8 (\<lambda>i. sint (r ! i)) 7 k m)"
      by (auto simp: layer_rep_def intro: modeq_trans [OF barrett_reduce_modeq])
  qed
  then show ?thesis using N(1) barrett_reduce_centred
    by (auto simp: mlkem_poly_ntt_def mlkem_poly_reduce_eq)
qed

lemma length_poly_basemul [simp]: "length (poly_basemul_montgomery a b) = 256"
  unfolding poly_basemul_montgomery_def by (subst length_concat_chunks [of _ _ 4]) (auto split: prod.split)

lemma poly_index: 
  assumes "p < 256"
  obtains k where "k < 128" "p = 2 * k" | k where "k < 128" "p = Suc (2 * k)"
proof (cases "even p")
  case True
  then show thesis using assms that(1) [of "p div 2"] by auto
next
  case False
  then show thesis using assms that(2) [of "p div 2"] by auto
qed

lemma poly_basemul_bound:
  assumes "length a = 256" "\<forall>x \<in> set a. \<bar>sint x\<bar> \<le> 4095" "length b = 256" "\<forall>x \<in> set b. \<bar>sint x\<bar> \<le> 4095"
  shows "\<forall>x \<in> set (poly_basemul_montgomery a b). \<bar>sint x\<bar> \<le> 6656"
proof
  fix x
  assume "x \<in> set (poly_basemul_montgomery a b)"
  then obtain p where "p < 256" "x = poly_basemul_montgomery a b ! p" by (auto simp: in_set_conv_nth)
  then show "\<bar>sint x\<bar> \<le> 6656"
    by (cases rule: poly_index)
      (use assms kem_leaf_zeta_gam in \<open>auto simp: poly_basemul_nth intro!: basemul_correct(3,4) modeq_refl\<close>)
qed

lemma poly_basemul_rep:
  assumes a: "length a = 256" "\<forall>x \<in> set a. \<bar>sint x\<bar> \<le> 4095" "layer_rep 3329 kem_root 8 1 f 7 (\<lambda>i. sint (a ! i))"
    and b: "length b = 256" "\<forall>x \<in> set b. \<bar>sint x\<bar> \<le> 4095" "layer_rep 3329 kem_root 8 1 g 7 (\<lambda>i. sint (b ! i))"
  shows "layer_rep 3329 kem_root 8 169 (negacyclic 256 f g) 7 (\<lambda>i. sint (poly_basemul_montgomery a b ! i))"
  unfolding layer_rep_def
proof (intro allI impI)
  fix k m :: nat
  assume k: "k < 2 ^ 7" and m: "m < 2 ^ (8 - 7)"
  then have k': "k < 128" and m': "m = 0 \<or> m = Suc 0" by auto
  define F G where "F = ntt_eval kem_root 8 f 7 k" and "G = ntt_eval kem_root 8 g 7 k"
  define w where "w = gam kem_root (128 + k)"
  have A: "modeq 3329 (sint (a ! (2 * k))) (F 0)" "modeq 3329 (sint (a ! Suc (2 * k))) (F 1)"
    and B: "modeq 3329 (sint (b ! (2 * k))) (G 0)" "modeq 3329 (sint (b ! Suc (2 * k))) (G 1)"
    using a(3)[unfolded layer_rep_def, rule_format, of k 0] a(3)[unfolded layer_rep_def, rule_format, of k 1]
      b(3)[unfolded layer_rep_def, rule_format, of k 0] b(3)[unfolded layer_rep_def, rule_format, of k 1] k
    by (simp_all add: F_def G_def mult.commute)
  have mem: "a ! (2 * k) \<in> set a" "a ! Suc (2 * k) \<in> set a" "b ! (2 * k) \<in> set b" "b ! Suc (2 * k) \<in> set b"
    using k' a(1) b(1) by auto
  have Z: "\<bar>sint (kem_leaf_zeta k)\<bar> \<le> 1664" "modeq 3329 (sint (kem_leaf_zeta k) * 169) w"
    using kem_leaf_zeta_gam [OF k'] by (simp_all add: w_def)
  note C = basemul_correct(1,2) [of "(a ! (2 * k), a ! Suc (2 * k))" "(b ! (2 * k), b ! Suc (2 * k))"
      "kem_leaf_zeta k" w, unfolded fst_conv snd_conv, OF _ _ _ _ Z]
  have "modeq 3329 (sint (poly_basemul_montgomery a b ! (2 * k + m))) (169 * block_mult 2 w F G m)"
    using m'
  proof
    assume m0: "m = 0"
    have "modeq 3329 (sint (poly_basemul_montgomery a b ! (2 * k)))
        (169 * (sint (a ! (2 * k)) * sint (b ! (2 * k)) + w * (sint (a ! Suc (2 * k)) * sint (b ! Suc (2 * k)))))"
      unfolding poly_basemul_nth [OF k'] using a(2) b(2) mem by (intro C) auto
    also have "modeq 3329 \<dots> (169 * (F 0 * G 0 + w * (F 1 * G 1)))"
      by (intro modeq_mult modeq_add modeq_refl A B)
    finally show ?thesis by (simp add: m0 block_mult_2)
  next
    assume m1: "m = Suc 0"
    have "modeq 3329 (sint (poly_basemul_montgomery a b ! Suc (2 * k)))
        (169 * (sint (a ! (2 * k)) * sint (b ! Suc (2 * k)) + sint (a ! Suc (2 * k)) * sint (b ! (2 * k))))"
      unfolding poly_basemul_nth [OF k'] using a(2) b(2) mem by (intro C) auto
    also have "modeq 3329 \<dots> (169 * (F 0 * G 1 + F 1 * G 0))"
      by (intro modeq_mult modeq_add modeq_refl A B)
    finally show ?thesis by (simp add: m1 block_mult_2)
  qed
  also have "modeq 3329 (169 * block_mult 2 w F G m) (169 * ntt_eval kem_root 8 (negacyclic 256 f g) 7 k m)"
    using kem_tree.eval_negacyclic [of 7 k m f g] k m
    by (intro modeq_mult modeq_refl) (simp add: F_def G_def w_def modeq_sym)
  finally show "modeq 3329 (sint (poly_basemul_montgomery a b ! (k * 2 ^ (8 - 7) + m)))
      (169 * ntt_eval kem_root 8 (negacyclic 256 f g) 7 k m)" by (simp add: mult.commute)
qed

section \<open>The transform theorems\<close>

text \<open>C10: \<open>mlkem_ntt\<close> never wraps on coefficients up to \<open>9471\<close> in magnitude (seven layers of growth
  below \<open>q\<close>), and word \<open>2 k + m\<close> of its result is the coefficient of \<open>X^m\<close> of the input modulo
  \<open>X^2 - 17^(2 bitrev7 k + 1)\<close>: the number-theoretic transform of FIPS 203.\<close>

theorem mlkem_ntt_correct:
  assumes "poly_bounded B r" "B \<le> 9471" "k < 128" "m < 2"
  shows "poly_bounded (B + 23296) (mlkem_ntt r) \<and>
    modeq 3329 (sint (mlkem_ntt r ! (2 * k + m)))
      (\<Sum>t<128. sint (r ! (2 * t + m)) * (17 ^ (2 * bitrev7 k + 1)) ^ t)"
proof -
  have r: "length r = 256" "\<forall>x \<in> set r. \<bar>sint x\<bar> \<le> B" using assms(1) by (auto simp: poly_bounded_def)
  note N = mlkem_ntt_rep [OF r assms(2)]
  have "modeq 3329 (sint (mlkem_ntt r ! (2 * k + m))) (ntt_eval kem_root 8 (\<lambda>i. sint (r ! i)) 7 k m)"
    using N assms(3,4) by (auto simp: layer_rep_def mult.commute)
  also have "ntt_eval kem_root 8 (\<lambda>i. sint (r ! i)) 7 k m =
      (\<Sum>t<128. sint (r ! (2 * t + m)) * gam kem_root (128 + k) ^ t)"
    by (simp add: ntt_eval_def mult.commute)
  also have "modeq 3329 \<dots> (\<Sum>t<128. sint (r ! (2 * t + m)) * (17 ^ (2 * bitrev7 k + 1)) ^ t)"
    by (intro modeq_sum modeq_mult modeq_power modeq_refl kem_gam_power assms(3))
  finally show ?thesis using N by (auto simp: poly_bounded_def)
qed

theorem mlkem_ntt_correct_witness:
  "poly_bounded 9471 (replicate 256 (9471 :: i16)) \<and>
   modeq 3329 (sint (mlkem_ntt (replicate 256 (9471 :: i16)) ! 5))
     (\<Sum>t<128. sint (replicate 256 (9471 :: i16) ! (2 * t + 1)) * (17 ^ (2 * bitrev7 2 + 1)) ^ t)"
  using mlkem_ntt_correct [of 9471 "replicate 256 9471" 2 1] replicate_bounded [of 9471 9471]
  by simp

text \<open>C25: the inverse transform undoes the forward one, up to the Montgomery factor \<open>2^16\<close> it is
  documented to leave, and returns coefficients below \<open>q\<close> in magnitude.\<close>

theorem mlkem_invntt_ntt:
  assumes "poly_bounded 9471 r" "i < 256"
  shows "modeq 3329 (sint (mlkem_poly_invntt_tomont (mlkem_poly_ntt r) ! i)) (2 ^ 16 * sint (r ! i)) \<and>
    \<bar>sint (mlkem_poly_invntt_tomont (mlkem_poly_ntt r) ! i)\<bar> < 3329"
proof -
  have r: "length r = 256" "\<forall>x \<in> set r. \<bar>sint x\<bar> \<le> 9471" using assms(1) by (auto simp: poly_bounded_def)
  from mlkem_poly_ntt_rep [OF r] have N: "length (mlkem_poly_ntt r) = 256"
    "layer_rep 3329 kem_root 8 1 (\<lambda>i. sint (r ! i)) 7 (\<lambda>i. sint (mlkem_poly_ntt r ! i))"
    "\<forall>x \<in> set (mlkem_poly_ntt r). \<bar>sint x\<bar> \<le> 16383" by force+
  from mlkem_invntt_rep(2,3) [OF N assms(2)] show ?thesis by (simp add: mlkem_poly_invntt_tomont_def)
qed

theorem mlkem_invntt_ntt_witness:
  "modeq 3329 (sint (mlkem_poly_invntt_tomont (mlkem_poly_ntt (replicate 256 1234)) ! 7)) (2 ^ 16 * 1234)"
  using mlkem_invntt_ntt [of "replicate 256 1234" 7] replicate_bounded [of 1234 9471] by simp

text \<open>C26: multiplying in the transformed domain is multiplication in \<open>Z_q[X]/(X^256 + 1)\<close>.\<close>

theorem mlkem_basemul_convolution:
  assumes "poly_bounded 9471 a" "poly_bounded 9471 b" "i < 256"
  shows "modeq 3329
    (sint (mlkem_poly_invntt_tomont (poly_basemul_montgomery (mlkem_poly_ntt a) (mlkem_poly_ntt b)) ! i))
    (negacyclic 256 (\<lambda>j. sint (a ! j)) (\<lambda>j. sint (b ! j)) i)"
proof -
  let ?p = "poly_basemul_montgomery (mlkem_poly_ntt a) (mlkem_poly_ntt b)"
  let ?c = "negacyclic 256 (\<lambda>j. sint (a ! j)) (\<lambda>j. sint (b ! j))"
  have ab: "length a = 256" "\<forall>x \<in> set a. \<bar>sint x\<bar> \<le> 9471" "length b = 256" "\<forall>x \<in> set b. \<bar>sint x\<bar> \<le> 9471"
    using assms by (auto simp: poly_bounded_def)
  from mlkem_poly_ntt_rep [OF ab(1,2)] have A: "length (mlkem_poly_ntt a) = 256"
    "\<forall>x \<in> set (mlkem_poly_ntt a). \<bar>sint x\<bar> \<le> 4095"
    "layer_rep 3329 kem_root 8 1 (\<lambda>i. sint (a ! i)) 7 (\<lambda>i. sint (mlkem_poly_ntt a ! i))" by force+
  from mlkem_poly_ntt_rep [OF ab(3,4)] have B: "length (mlkem_poly_ntt b) = 256"
    "\<forall>x \<in> set (mlkem_poly_ntt b). \<bar>sint x\<bar> \<le> 4095"
    "layer_rep 3329 kem_root 8 1 (\<lambda>i. sint (b ! i)) 7 (\<lambda>i. sint (mlkem_poly_ntt b ! i))" by force+
  have bnd: "\<forall>x \<in> set ?p. \<bar>sint x\<bar> \<le> 16383" using poly_basemul_bound [OF A(1,2) B(1,2)] by force
  have "modeq 3329 (sint (mlkem_invntt ?p ! i)) (65536 * 169 * ?c i)"
    using poly_basemul_rep [OF A B] bnd assms(3) by (intro mlkem_invntt_rep(2)) simp_all
  also have "65536 * 169 * ?c i = ?c i + 3329 * (3327 * ?c i)" by simp
  also have "modeq 3329 \<dots> (?c i)" by (simp add: modeq_iff_dvd)
  finally show ?thesis by (simp add: mlkem_poly_invntt_tomont_def)
qed

theorem mlkem_basemul_convolution_witness:
  "modeq 3329
    (sint (mlkem_poly_invntt_tomont (poly_basemul_montgomery (mlkem_poly_ntt (replicate 256 3))
       (mlkem_poly_ntt (replicate 256 (- 2)))) ! 10))
    (negacyclic 256 (\<lambda>j. sint (replicate 256 (3 :: i16) ! j)) (\<lambda>j. sint (replicate 256 (- 2 :: i16) ! j)) 10)"
  using mlkem_basemul_convolution [of "replicate 256 3" "replicate 256 (- 2)" 10]
    replicate_bounded [of 3 9471] replicate_bounded [of "- 2" 9471] by simp

end
