(* ===== verification/Kem_Polyvec.thy ===== *)
theory Kem_Polyvec
  imports Kem_Poly_Correct Kem_Ntt_Correct
begin

text \<open>
  \<open>tools/pqc/mlkem/polyvec.c\<close>: vectors of polynomials.  A vector is a list of \<open>k\<close> polynomials (the C
  structure has room for four and uses the first \<open>k\<close>).  What a function writes through its output
  pointer, polynomial after polynomial, is the concatenation of the parts.
\<close>

section \<open>Code\<close>

text \<open>The loop bodies of \<open>polyvec_compress\<close>: one coefficient, then one group of bytes.\<close>

definition polyvec_compress_d11 :: "i16 \<Rightarrow> u16" where
  "polyvec_compress_d11 a =
     (let t = a;
          t = t + (sar t 15 AND MLKEM_PAR_Q);
          d0 = zext64 t;
          d0 = shl d0 11;
          d0 = d0 + 1664;
          d0 = d0 * 645084;
          d0 = shr d0 31
      in zext16 (d0 AND 0x7ff))"

definition polyvec_compress_d10 :: "i16 \<Rightarrow> u16" where
  "polyvec_compress_d10 a =
     (let t = a;
          t = t + (sar t 15 AND MLKEM_PAR_Q);
          d0 = zext64 t;
          d0 = shl d0 10;
          d0 = d0 + 1665;
          d0 = d0 * 1290167;
          d0 = shr d0 32
      in zext16 (d0 AND 0x3ff))"

definition pack11 :: "u16 list \<Rightarrow> u8 list" where
  "pack11 t = [zext8 (shr (t ! 0) 0),
     zext8 (shr (t ! 0) 8 OR shl (t ! 1) 3),
     zext8 (shr (t ! 1) 5 OR shl (t ! 2) 6),
     zext8 (shr (t ! 2) 2),
     zext8 (shr (t ! 2) 10 OR shl (t ! 3) 1),
     zext8 (shr (t ! 3) 7 OR shl (t ! 4) 4),
     zext8 (shr (t ! 4) 4 OR shl (t ! 5) 7),
     zext8 (shr (t ! 5) 1),
     zext8 (shr (t ! 5) 9 OR shl (t ! 6) 2),
     zext8 (shr (t ! 6) 6 OR shl (t ! 7) 5),
     zext8 (shr (t ! 7) 3)]"

definition pack10 :: "u16 list \<Rightarrow> u8 list" where
  "pack10 t = [zext8 (shr (t ! 0) 0),
     zext8 (shr (t ! 0) 8 OR shl (t ! 1) 2),
     zext8 (shr (t ! 1) 6 OR shl (t ! 2) 4),
     zext8 (shr (t ! 2) 4 OR shl (t ! 3) 6),
     zext8 (shr (t ! 3) 2)]"

definition polyvec_compress :: "mlkem_param \<Rightarrow> pvec \<Rightarrow> bytes" where
  "polyvec_compress par a =
     (if par_du par = 11
      then concat (map (\<lambda>i. map_chunks 8 (MLKEM_PAR_N div 8) (\<lambda>c. pack11 (map polyvec_compress_d11 c)) (a ! i)) [0..<par_k par])
      else concat (map (\<lambda>i. map_chunks 4 (MLKEM_PAR_N div 4) (\<lambda>c. pack10 (map polyvec_compress_d10 c)) (a ! i)) [0..<par_k par]))"

definition unpack11 :: "u8 list \<Rightarrow> u16 list" where
  "unpack11 a = [zext16 (shr (a ! 0) 0) OR shl (zext16 (a ! 1)) 8,
     zext16 (shr (a ! 1) 3) OR shl (zext16 (a ! 2)) 5,
     zext16 (shr (a ! 2) 6) OR shl (zext16 (a ! 3)) 2 OR shl (zext16 (a ! 4)) 10,
     zext16 (shr (a ! 4) 1) OR shl (zext16 (a ! 5)) 7,
     zext16 (shr (a ! 5) 4) OR shl (zext16 (a ! 6)) 4,
     zext16 (shr (a ! 6) 7) OR shl (zext16 (a ! 7)) 1 OR shl (zext16 (a ! 8)) 9,
     zext16 (shr (a ! 8) 2) OR shl (zext16 (a ! 9)) 6,
     zext16 (shr (a ! 9) 5) OR shl (zext16 (a ! 10)) 3]"

definition unpack10 :: "u8 list \<Rightarrow> u16 list" where
  "unpack10 a = [zext16 (shr (a ! 0) 0) OR shl (zext16 (a ! 1)) 8,
     zext16 (shr (a ! 1) 2) OR shl (zext16 (a ! 2)) 6,
     zext16 (shr (a ! 2) 4) OR shl (zext16 (a ! 3)) 4,
     zext16 (shr (a ! 3) 6) OR shl (zext16 (a ! 4)) 2]"

definition polyvec_decompress_d11 :: "u16 \<Rightarrow> i16" where
  "polyvec_decompress_d11 t = zext16 (shr (zext32 (t AND 0x7FF) * (MLKEM_PAR_Q :: u32) + 1024) 11)"

definition polyvec_decompress_d10 :: "u16 \<Rightarrow> i16" where
  "polyvec_decompress_d10 t = zext16 (shr (zext32 (t AND 0x3FF) * (MLKEM_PAR_Q :: u32) + 512) 10)"

text \<open>Polynomial \<open>i\<close> starts where the pointer \<open>a\<close> has advanced to: \<open>i\<close> times the compressed size.\<close>

definition polyvec_decompress :: "mlkem_param \<Rightarrow> bytes \<Rightarrow> pvec" where
  "polyvec_decompress par a =
     (if par_du par = 11
      then map (\<lambda>i. map_chunks 11 (MLKEM_PAR_N div 8) (\<lambda>a. map polyvec_decompress_d11 (unpack11 a)) (drop (352 * i) a)) [0..<par_k par]
      else map (\<lambda>i. map_chunks 5 (MLKEM_PAR_N div 4) (\<lambda>a. map polyvec_decompress_d10 (unpack10 a)) (drop (320 * i) a)) [0..<par_k par])"

definition polyvec_tobytes :: "mlkem_param \<Rightarrow> pvec \<Rightarrow> bytes" where
  "polyvec_tobytes par a = concat (map (\<lambda>i. poly_tobytes (a ! i)) [0..<par_k par])"

definition polyvec_frombytes :: "mlkem_param \<Rightarrow> bytes \<Rightarrow> pvec" where
  "polyvec_frombytes par a = map (\<lambda>i. poly_frombytes (drop (i * MLKEM_POLY_SZ) a)) [0..<par_k par]"

definition polyvec_ntt :: "mlkem_param \<Rightarrow> pvec \<Rightarrow> pvec" where
  "polyvec_ntt par r = fold (\<lambda>i r. r[i := mlkem_poly_ntt (r ! i)]) [0..<par_k par] r"

definition polyvec_invntt_tomont :: "mlkem_param \<Rightarrow> pvec \<Rightarrow> pvec" where
  "polyvec_invntt_tomont par r = fold (\<lambda>i r. r[i := mlkem_poly_invntt_tomont (r ! i)]) [0..<par_k par] r"

definition polyvec_basemul_acc_montgomery :: "mlkem_param \<Rightarrow> pvec \<Rightarrow> pvec \<Rightarrow> poly" where
  "polyvec_basemul_acc_montgomery par a b =
     (let r = poly_basemul_montgomery (a ! 0) (b ! 0);
          r = fold (\<lambda>i r. let t = poly_basemul_montgomery (a ! i) (b ! i) in mlkem_poly_add r t) [1..<par_k par] r
      in mlkem_poly_reduce r)"

definition polyvec_reduce :: "mlkem_param \<Rightarrow> pvec \<Rightarrow> pvec" where
  "polyvec_reduce par r = fold (\<lambda>i r. r[i := mlkem_poly_reduce (r ! i)]) [0..<par_k par] r"

definition polyvec_add :: "mlkem_param \<Rightarrow> pvec \<Rightarrow> pvec \<Rightarrow> pvec" where
  "polyvec_add par a b = map (\<lambda>i. mlkem_poly_add (a ! i) (b ! i)) [0..<par_k par]"

end
