(* ===== verification/Kem_Kpke.thy ===== *)
theory Kem_Kpke
  imports Kem_Symmetric Kem_Polyvec
begin

text \<open>
  \<open>tools/pqc/mlkem/mlkem_kpke.c\<close> and the noise samplers of \<open>mlkem_poly.c\<close>: the public-key encryption
  scheme under the KEM.  Sampling the matrix draws from the extendable output function until enough
  candidates were below \<open>q\<close>; that loop has no bound, so it is a partial function and its callers
  return an option, \<open>None\<close> standing for a call that does not return.
\<close>

section \<open>Noise\<close>

definition poly_getnoise_eta1 :: "mlkem_param \<Rightarrow> bytes \<Rightarrow> u8 \<Rightarrow> poly" where
  "poly_getnoise_eta1 par seed nonce =
     (let buf = prf (par_eta1 par * (MLKEM_PAR_N div 4)) seed nonce
      in poly_cbd_eta1 par buf)"

definition poly_getnoise_eta2 :: "bytes \<Rightarrow> u8 \<Rightarrow> poly" where
  "poly_getnoise_eta2 seed nonce =
     (let buf = prf (MLKEM_PAR_ETA2 * MLKEM_PAR_N div 4) seed nonce
      in poly_cbd_eta2 buf)"

text \<open>The loop \<open>for (i = 0; i < par->k; i++) getnoise(&v.vec[i], seed, nonce++)\<close>, with the nonce after it.\<close>

definition getnoise_loop :: "(u8 \<Rightarrow> poly) \<Rightarrow> mlkem_param \<Rightarrow> u8 \<Rightarrow> pvec \<times> u8" where
  "getnoise_loop getnoise par nonce =
     fold (\<lambda>i (v, nonce). (v @ [getnoise nonce], nonce + 1)) [0..<par_k par] ([], nonce)"

section \<open>Serialised keys and ciphertexts\<close>

definition pack_ek :: "mlkem_param \<Rightarrow> pvec \<Rightarrow> bytes \<Rightarrow> bytes" where
  "pack_ek par ek seed = polyvec_tobytes par ek @ take MLKEM_SYM_SZ seed"

definition unpack_ek :: "mlkem_param \<Rightarrow> bytes \<Rightarrow> pvec \<times> bytes" where
  "unpack_ek par packedek =
     (polyvec_frombytes par packedek, take MLKEM_SYM_SZ (drop (par_k par * MLKEM_POLY_SZ) packedek))"

definition pack_dk :: "mlkem_param \<Rightarrow> pvec \<Rightarrow> bytes" where
  "pack_dk par dk = polyvec_tobytes par dk"

definition unpack_dk :: "mlkem_param \<Rightarrow> bytes \<Rightarrow> pvec" where
  "unpack_dk par packeddk = polyvec_frombytes par packeddk"

definition pack_ciphertext :: "mlkem_param \<Rightarrow> pvec \<Rightarrow> poly \<Rightarrow> bytes" where
  "pack_ciphertext par b v = polyvec_compress par b @ poly_compress par v"

definition unpack_ciphertext :: "mlkem_param \<Rightarrow> bytes \<Rightarrow> pvec \<times> poly" where
  "unpack_ciphertext par c =
     (polyvec_decompress par c, poly_decompress par (drop (par_k par * par_du par * (MLKEM_PAR_N div 8)) c))"

section \<open>Sampling the matrix\<close>

text \<open>
  \<open>mlkem_rej_uniform\<close> writes at most \<open>len\<close> coefficients through its pointer, here the array \<open>r\<close> from
  index \<open>off\<close> on, and returns how many it wrote.
\<close>

function mlkem_rej_uniform_loop :: "poly \<Rightarrow> nat \<Rightarrow> nat \<Rightarrow> bytes \<Rightarrow> nat \<Rightarrow> nat \<Rightarrow> nat \<Rightarrow> poly \<times> nat" where
  "mlkem_rej_uniform_loop r off len buf buflen ctr pos =
     (if ctr < len \<and> pos + 3 \<le> buflen
      then let val0 = (zext16 (shr (buf ! (pos + 0)) 0) OR shl (zext16 (buf ! (pos + 1))) 8) AND 0xFFF;
               val1 = (zext16 (shr (buf ! (pos + 1)) 4) OR shl (zext16 (buf ! (pos + 2))) 4) AND 0xFFF;
               pos = pos + 3;
               (r, ctr) = (if val0 < (MLKEM_PAR_Q :: u16) then (r[off + ctr := val0], ctr + 1) else (r, ctr));
               (r, ctr) = (if ctr < len \<and> val1 < (MLKEM_PAR_Q :: u16) then (r[off + ctr := val1], ctr + 1) else (r, ctr))
           in mlkem_rej_uniform_loop r off len buf buflen ctr pos
      else (r, ctr))"
  by pat_completeness auto
termination
  by (relation "measure (\<lambda>(r, off, len, buf, buflen, ctr, pos). buflen - pos)") auto

definition mlkem_rej_uniform :: "poly \<Rightarrow> nat \<Rightarrow> nat \<Rightarrow> bytes \<Rightarrow> nat \<Rightarrow> poly \<times> nat" where
  "mlkem_rej_uniform r off len buf buflen = mlkem_rej_uniform_loop r off len buf buflen 0 0"

abbreviation (input) GEN_MATRIX_NBLOCKS :: nat where
  "GEN_MATRIX_NBLOCKS \<equiv> (12 * MLKEM_PAR_N div 8 * 2 ^ 12 div MLKEM_PAR_Q + XOF_BLOCKBYTES) div XOF_BLOCKBYTES"

partial_function (option) gen_matrix_refill :: "poly \<Rightarrow> nat \<Rightarrow> keccak_state \<Rightarrow> poly option" where
  "gen_matrix_refill a ctr state =
     (if ctr < MLKEM_PAR_N
      then let (buf, state) = xof_squeezeblocks 1 state;
               buflen = XOF_BLOCKBYTES;
               (a, n) = mlkem_rej_uniform a ctr (MLKEM_PAR_N - ctr) buf buflen
           in gen_matrix_refill a (ctr + n) state
      else Some a)"

text \<open>The body of the two loops: one entry.  Its coefficients are uninitialised before.\<close>

definition gen_matrix_entry :: "bytes \<Rightarrow> nat \<Rightarrow> nat \<Rightarrow> bool \<Rightarrow> poly option" where
  "gen_matrix_entry seed i j transposed =
     (let state = (if transposed then xof_absorb seed (of_nat i) (of_nat j)
                   else xof_absorb seed (of_nat j) (of_nat i));
          (buf, state) = xof_squeezeblocks GEN_MATRIX_NBLOCKS state;
          buflen = GEN_MATRIX_NBLOCKS * XOF_BLOCKBYTES;
          (a, ctr) = mlkem_rej_uniform (replicate MLKEM_PAR_N 0) 0 MLKEM_PAR_N buf buflen
      in gen_matrix_refill a ctr state)"

definition gen_matrix :: "mlkem_param \<Rightarrow> bytes \<Rightarrow> bool \<Rightarrow> pvec list option" where
  "gen_matrix par seed transposed =
     those (map (\<lambda>i. those (map (\<lambda>j. gen_matrix_entry seed i j transposed) [0..<par_k par])) [0..<par_k par])"

section \<open>Key generation, encryption and decryption\<close>

text \<open>The arithmetic of \<open>kpke_keygen\<close>: the transforms and the matrix-vector product.\<close>

definition kpke_keygen_arith :: "mlkem_param \<Rightarrow> pvec list \<Rightarrow> pvec \<Rightarrow> pvec \<Rightarrow> pvec \<times> pvec" where
  "kpke_keygen_arith par a dkpv e =
     (let dkpv = polyvec_ntt par dkpv;
          e = polyvec_ntt par e;
          ekpv = map (\<lambda>i. poly_tomont (polyvec_basemul_acc_montgomery par (a ! i) dkpv)) [0..<par_k par];
          ekpv = polyvec_add par ekpv e;
          ekpv = polyvec_reduce par ekpv
      in (ekpv, dkpv))"

definition kpke_keygen :: "mlkem_param \<Rightarrow> bytes \<Rightarrow> (bytes \<times> bytes) option" where
  "kpke_keygen par d =
     (let buf = take MLKEM_SYM_SZ d @ [of_nat (par_k par)];
          buf = hash_g buf;
          publicseed = take MLKEM_SYM_SZ buf;
          noiseseed = drop MLKEM_SYM_SZ buf
      in Option.bind (gen_matrix par publicseed False) (\<lambda>a.
         let (dkpv, nonce) = getnoise_loop (poly_getnoise_eta1 par noiseseed) par 0;
             (e, nonce) = getnoise_loop (poly_getnoise_eta1 par noiseseed) par nonce;
             (ekpv, dkpv) = kpke_keygen_arith par a dkpv e
         in Some (pack_ek par ekpv publicseed, pack_dk par dkpv)))"

text \<open>The arithmetic of \<open>kpke_encrypt\<close>, from the sampled vectors to the two ciphertext components.\<close>

definition kpke_encrypt_arith :: "mlkem_param \<Rightarrow> pvec list \<Rightarrow> pvec \<Rightarrow> pvec \<Rightarrow> pvec \<Rightarrow> poly \<Rightarrow> poly \<Rightarrow> pvec \<times> poly" where
  "kpke_encrypt_arith par at ekpv sp ep epp k =
     (let sp = polyvec_ntt par sp;
          b = map (\<lambda>i. polyvec_basemul_acc_montgomery par (at ! i) sp) [0..<par_k par];
          v = polyvec_basemul_acc_montgomery par ekpv sp;
          b = polyvec_invntt_tomont par b;
          v = mlkem_poly_invntt_tomont v;
          b = polyvec_add par b ep;
          v = mlkem_poly_add v epp;
          v = mlkem_poly_add v k;
          b = polyvec_reduce par b;
          v = mlkem_poly_reduce v
      in (b, v))"

definition kpke_encrypt :: "mlkem_param \<Rightarrow> bytes \<Rightarrow> bytes \<Rightarrow> bytes \<Rightarrow> bytes option" where
  "kpke_encrypt par ek m r =
     (let (ekpv, seed) = unpack_ek par ek;
          k = poly_frommsg m
      in Option.bind (gen_matrix par seed True) (\<lambda>at.
         let (sp, nonce) = getnoise_loop (poly_getnoise_eta1 par r) par 0;
             (ep, nonce) = getnoise_loop (poly_getnoise_eta2 r) par nonce;
             epp = poly_getnoise_eta2 r nonce;
             (b, v) = kpke_encrypt_arith par at ekpv sp ep epp k
         in Some (pack_ciphertext par b v)))"

definition kpke_decrypt :: "mlkem_param \<Rightarrow> bytes \<Rightarrow> bytes \<Rightarrow> bytes" where
  "kpke_decrypt par dk c =
     (let (b, v) = unpack_ciphertext par c;
          dkpv = unpack_dk par dk;
          b = polyvec_ntt par b;
          mp = polyvec_basemul_acc_montgomery par dkpv b;
          mp = mlkem_poly_invntt_tomont mp;
          mp = mlkem_poly_sub v mp;
          mp = mlkem_poly_reduce mp
      in poly_tomsg mp)"

declare mlkem_rej_uniform_loop.simps [simp del]

end
