(* ===== verification/Rej_Sampling.thy ===== *)
theory Rej_Sampling
  imports Fips202_Api Bits
begin

text \<open>
  Rejection sampling from the output of an extendable output function, as both libraries do it: a
  routine scans a buffer for acceptable candidates and writes them into an array, and a loop squeezes
  one more block as long as the array is not full.  The locale \<open>rej_sampler\<close> states what the loop
  relies on; its result is the first acceptable candidates of the byte stream, whatever the blocks.
\<close>

section \<open>Placing candidates\<close>

text \<open>One candidate after the other: written and counted while there is room.\<close>

definition place :: "('c \<Rightarrow> bool) \<Rightarrow> ('c \<Rightarrow> 'a) \<Rightarrow> nat \<Rightarrow> nat \<Rightarrow> 'c \<Rightarrow> 'a list \<times> nat \<Rightarrow> 'a list \<times> nat" where
  "place P g off len c = (\<lambda>(r, ctr). if ctr < len \<and> P c then (r[off + ctr := g c], ctr + 1) else (r, ctr))"

lemma fold_place:
  assumes "off + len \<le> length r" "ctr \<le> len"
  shows "fold (place P g off len) cs (r, ctr) =
    (overwrite (off + ctr) (take (len - ctr) (map g (filter P cs))) r,
     ctr + min (len - ctr) (length (filter P cs)))"
  using assms
proof (induction cs arbitrary: r ctr)
  case (Cons c cs)
  show ?case
  proof (cases "ctr < len \<and> P c")
    case True
    then have n: "len - ctr = Suc (len - Suc ctr)" by auto
    have "fold (place P g off len) (c # cs) (r, ctr) = fold (place P g off len) cs (r[off + ctr := g c], Suc ctr)"
      using True by (simp add: place_def)
    also have "\<dots> = (overwrite (off + Suc ctr) (take (len - Suc ctr) (map g (filter P cs))) (r[off + ctr := g c]),
        Suc ctr + min (len - Suc ctr) (length (filter P cs)))"
      using Cons.prems True by (intro Cons.IH) simp_all
    finally show ?thesis using True Cons.prems by (simp add: n overwrite_Cons)
  next
    case False
    then have "fold (place P g off len) (c # cs) (r, ctr) = fold (place P g off len) cs (r, ctr)"
      by (auto simp: place_def)
    then show ?thesis using Cons.IH [OF Cons.prems] False Cons.prems(2) by (cases "ctr = len") auto
  qed
qed simp

lemma place_full: "len \<le> ctr \<Longrightarrow> fold (place P g off len) cs (r, ctr) = (r, ctr)"
  by (induction cs) (simp_all add: place_def)

text \<open>A loop that places \<open>k\<close> candidates per iteration, while there is room and input.\<close>

lemma scan_fold:
  assumes L: "\<And>r ctr t. L r ctr t = (if ctr < len \<and> t < n
    then case fold (place P g off len) [k * t..<k * Suc t] (r, ctr) of (r, ctr) \<Rightarrow> L r ctr (Suc t) else (r, ctr))"
  shows "L r ctr t = fold (place P g off len) [k * t..<k * n] (r, ctr)"
proof (induction "n - t" arbitrary: t r ctr)
  case 0
  then show ?case by (subst L) simp
next
  case (Suc d)
  show ?case
  proof (cases "ctr < len")
    case False
    then show ?thesis by (subst L) (simp add: place_full)
  next
    case True
    obtain r' ctr' where e: "fold (place P g off len) [k * t..<k * Suc t] (r, ctr) = (r', ctr')" by fastforce
    have "k * Suc t \<le> k * n" using Suc.hyps(2) by (intro mult_left_mono) auto
    then have "[k * t..<k * n] = [k * t..<k * Suc t] @ [k * Suc t..<k * n]"
      using upt_add_eq_append [of "k * t" "k * Suc t" "k * n - k * Suc t"] by simp
    moreover have "L r ctr t = L r' ctr' (Suc t)"
      using True Suc.hyps(2) by (subst L) (auto simp add: e simp del: mult_Suc_right)
    ultimately show ?thesis using Suc.hyps(1) [of "Suc t" r' ctr'] Suc.hyps(2) by (simp add: e del: mult_Suc_right)
  qed
qed

section \<open>The refill loop\<close>

locale rej_sampler = xof_blocks blocks rate stream
  for blocks :: "nat \<Rightarrow> 's \<Rightarrow> 'b list \<times> 's" and rate :: nat and stream :: "'s \<Rightarrow> nat \<Rightarrow> 'b" +
  fixes N :: nat
    and accept :: "'b list \<Rightarrow> 'a list"
    and rej :: "'a list \<Rightarrow> nat \<Rightarrow> nat \<Rightarrow> 'b list \<Rightarrow> 'a list \<times> nat"
    and refill :: "'a list \<Rightarrow> nat \<Rightarrow> 's \<Rightarrow> 'a list option"
  assumes accept_append: "length xs = n * rate \<Longrightarrow> accept (xs @ ys) = accept xs @ accept ys"
    and rej_accept: "off + len \<le> length a \<Longrightarrow> length buf = n * rate \<Longrightarrow>
      rej a off len buf = (overwrite off (take len (accept buf)) a, min len (length (accept buf)))"
    and refill_step: "refill a ctr st =
      (if ctr < N
       then let (buf, st) = blocks 1 st; (a, n) = rej a ctr (N - ctr) buf in refill a (ctr + n) st
       else Some a)"
    and refill_induct: "(\<And>f a ctr st r. (\<And>a ctr st r. f a ctr st = Some r \<Longrightarrow> P a ctr st r) \<Longrightarrow>
        (if ctr < N
         then let (buf, st) = blocks 1 st; (a, n) = rej a ctr (N - ctr) buf in f a (ctr + n) st
         else Some a) = Some r \<Longrightarrow> P a ctr st r) \<Longrightarrow>
      refill a ctr st = Some r \<Longrightarrow> P a ctr st r"
begin

definition accepted :: "'s \<Rightarrow> nat \<Rightarrow> 'a list" where
  "accepted st n = accept (fst (blocks n st))"

lemma rej_blocks:
  "off + len \<le> length a \<Longrightarrow>
    rej a off len (fst (blocks n st)) = (overwrite off (take len (accepted st n)) a, min len (length (accepted st n)))"
  unfolding accepted_def by (rule rej_accept [OF _ blocks_length])

lemma accepted_0: "accepted st 0 = []"
proof -
  have "accept [] = accept [] @ accept []" using accept_append [of "[]" 0 "[]"] by simp
  then show ?thesis by (simp add: accepted_def blocks_out)
qed

lemma accepted_add: "accepted st (m + n) = accepted st m @ accepted (snd (blocks m st)) n"
  by (simp add: accepted_def blocks_add accept_append [of _ m])

lemma accepted_Suc: "accepted st (Suc n) = accepted st 1 @ accepted (snd (blocks 1 st)) n"
  using accepted_add [of st 1 n] by simp

lemma refill_unfold:
  fixes st :: 's
  assumes "length a = N" "ctr < N"
  defines "xs \<equiv> accepted st 1"
  shows "refill a ctr st =
    refill (overwrite ctr (take (N - ctr) xs) a) (ctr + min (N - ctr) (length xs)) (snd (blocks 1 st))"
proof -
  have "rej a ctr (N - ctr) (fst (blocks 1 st)) = (overwrite ctr (take (N - ctr) xs) a, min (N - ctr) (length xs))"
    unfolding xs_def using assms(1,2) by (intro rej_blocks) simp
  then show ?thesis using assms(2) by (subst refill_step) (simp add: case_prod_beta)
qed

lemma refill_enough:
  assumes "length a = N" "ctr \<le> N" "N \<le> ctr + length (accepted st n)"
  shows "refill a ctr st = Some (take ctr a @ take (N - ctr) (accepted st n))"
  using assms
proof (induction n arbitrary: a ctr st)
  case 0
  then show ?case by (subst refill_step) (simp add: accepted_0)
next
  case (Suc n)
  show ?case
  proof (cases "ctr < N")
    case False
    then show ?thesis using Suc.prems by (subst refill_step) simp
  next
    case True
    define xs ys where "xs = accepted st 1" and "ys = accepted (snd (blocks 1 st)) n"
    define a' ctr' where "a' = overwrite ctr (take (N - ctr) xs) a" and "ctr' = ctr + min (N - ctr) (length xs)"
    have l: "length a' = N" "ctr' \<le> N" using True Suc.prems(1) by (simp_all add: a'_def ctr'_def)
    have "refill a ctr st = refill a' ctr' (snd (blocks 1 st))"
      unfolding a'_def ctr'_def xs_def by (rule refill_unfold [OF Suc.prems(1) True])
    also have "\<dots> = Some (take ctr' a' @ take (N - ctr') ys)"
      unfolding ys_def using Suc.prems(3) l
      by (intro Suc.IH) (auto simp: accepted_Suc [of st n] ctr'_def xs_def)
    also have "take ctr' a' @ take (N - ctr') ys = take ctr a @ take (N - ctr) (xs @ ys)"
      using True Suc.prems(1) by (simp add: a'_def ctr'_def overwrite_def) (auto simp: min_def)
    finally show ?thesis by (simp add: accepted_Suc [of st n] xs_def ys_def)
  qed
qed

lemma refill_terminates_only:
  assumes "refill a ctr st = Some r" "length a = N" "ctr \<le> N"
  shows "\<exists>n. N \<le> ctr + length (accepted st n)"
proof -
  have "length a = N \<longrightarrow> ctr \<le> N \<longrightarrow> (\<exists>n. N \<le> ctr + length (accepted st n))"
    using assms(1)
  proof (rule refill_induct [rotated])
    fix f a ctr st r
    assume IH: "\<And>a ctr st r. f a ctr st = Some r \<Longrightarrow>
        length a = N \<longrightarrow> ctr \<le> N \<longrightarrow> (\<exists>n. N \<le> ctr + length (accepted st n))"
      and body: "(if ctr < N
        then let (buf, st) = blocks 1 st; (a, n) = rej a ctr (N - ctr) buf in f a (ctr + n) st
        else Some a) = Some r"
    show "length a = N \<longrightarrow> ctr \<le> N \<longrightarrow> (\<exists>n. N \<le> ctr + length (accepted st n))"
    proof (intro impI)
      assume l: "length a = N" "ctr \<le> N"
      show "\<exists>n. N \<le> ctr + length (accepted st n)"
      proof (cases "ctr < N")
        case True
        define xs where "xs = accepted st 1"
        have "rej a ctr (N - ctr) (fst (blocks 1 st)) = (overwrite ctr (take (N - ctr) xs) a, min (N - ctr) (length xs))"
          unfolding xs_def using l by (intro rej_blocks) simp
        with body True have "f (overwrite ctr (take (N - ctr) xs) a) (ctr + min (N - ctr) (length xs)) (snd (blocks 1 st)) = Some r"
          by (simp add: case_prod_beta)
        from IH [OF this] l True obtain n where
          "N \<le> ctr + min (N - ctr) (length xs) + length (accepted (snd (blocks 1 st)) n)" by auto
        then have "N \<le> ctr + length (accepted st (Suc n))" by (simp add: accepted_Suc [of st n] xs_def)
        then show ?thesis by blast
      qed (use l in auto)
    qed
  qed
  then show ?thesis using assms(2,3) by blast
qed

text \<open>Sampling that starts with \<open>m\<close> blocks and refills block by block.\<close>

definition sample :: "nat \<Rightarrow> 's \<Rightarrow> 'a list \<Rightarrow> 'a list option" where
  "sample m st a = (let (buf, st) = blocks m st; (a, ctr) = rej a 0 N buf in refill a ctr st)"

lemma sample_iff:
  assumes "length a = N"
  shows "sample m st a = Some r \<longleftrightarrow> (\<exists>n. N \<le> length (accepted st n) \<and> r = take N (accepted st n))"
proof -
  define xs where "xs = accepted st m"
  define a' ctr where "a' = overwrite 0 (take N xs) a" and "ctr = min N (length xs)"
  have l: "length a' = N" "ctr \<le> N" "take ctr a' = take N xs"
    using assms by (simp_all add: a'_def ctr_def overwrite_def min_def)
  have "rej a 0 N (fst (blocks m st)) = (a', ctr)"
    unfolding a'_def ctr_def xs_def using assms by (intro rej_blocks) simp
  then have s: "sample m st a = refill a' ctr (snd (blocks m st))" by (simp add: sample_def case_prod_beta)
  have some: "sample m st a = Some (take N (accepted st (m + n)))" if "N \<le> length (accepted st (m + n))" for n
  proof -
    have "refill a' ctr (snd (blocks m st)) = Some (take ctr a' @ take (N - ctr) (accepted (snd (blocks m st)) n))"
      using that by (intro refill_enough l) (auto simp: accepted_add ctr_def xs_def)
    moreover have "take N (accepted st (m + n)) = take N xs @ take (N - ctr) (accepted (snd (blocks m st)) n)"
      by (auto simp: accepted_add xs_def ctr_def min_def)
    ultimately show ?thesis by (simp add: s l(3))
  qed
  have mono: "N \<le> length (accepted st (n + k)) \<and> take N (accepted st (n + k)) = take N (accepted st n)"
    if "N \<le> length (accepted st n)" for n k using that by (simp add: accepted_add)
  show ?thesis
  proof
    assume "sample m st a = Some r"
    then have "refill a' ctr (snd (blocks m st)) = Some r" by (simp add: s)
    from refill_terminates_only [OF this] l obtain n where "N \<le> ctr + length (accepted (snd (blocks m st)) n)" by auto
    then have n: "N \<le> length (accepted st (m + n))" by (simp add: accepted_add ctr_def xs_def)
    from some [OF n] n \<open>sample m st a = Some r\<close> show "\<exists>n. N \<le> length (accepted st n) \<and> r = take N (accepted st n)" by auto
  next
    assume "\<exists>n. N \<le> length (accepted st n) \<and> r = take N (accepted st n)"
    then obtain n where n: "N \<le> length (accepted st n)" "r = take N (accepted st n)" by blast
    have "N \<le> length (accepted st (m + n)) \<and> take N (accepted st (m + n)) = take N (accepted st n)"
      using mono [OF n(1), of m] by (simp add: add.commute)
    then show "sample m st a = Some r" using some [of n] n(2) by simp
  qed
qed

end

end
