(* ===== verification/Negacyclic.thy ===== *)
theory Negacyclic
  imports Ntt_Tree
begin

text \<open>
  The ring \<open>Z[X]/(X^N + 1)\<close>: the laws of the product \<open>negacyclic\<close> that the correctness proofs of the
  two schemes use, and the linearity of the transform.  Polynomials are functions on indices; only
  the values below \<open>N\<close> matter.
\<close>

section \<open>Ring laws\<close>

text \<open>The antiperiodic extension of a polynomial to all integer exponents: \<open>X^N = -1\<close>.\<close>

definition antiperiodic :: "nat \<Rightarrow> (nat \<Rightarrow> int) \<Rightarrow> int \<Rightarrow> int" where
  "antiperiodic N b n = (if even (n div int N) then b (nat (n mod int N)) else - b (nat (n mod int N)))"

lemma antiperiodic_shift:
  assumes "0 < N"
  shows "antiperiodic N b (x + int N * t) = (if even t then antiperiodic N b x else - antiperiodic N b x)"
  using assms by (simp add: antiperiodic_def)

lemma negacyclic_antiperiodic:
  assumes "k < N"
  shows "negacyclic N a b k = (\<Sum>i<N. a i * antiperiodic N b (int k - int i))"
  unfolding negacyclic_def
proof (rule sum.cong [OF refl])
  fix i
  assume "i \<in> {..<N}"
  then have i: "i < N" by simp
  show "(\<Sum>j<N. a i * b j * (of_bool (i + j = k) - of_bool (i + j = k + N))) =
      a i * antiperiodic N b (int k - int i)"
  proof (cases "i \<le> k")
    case True
    have "(\<Sum>j<N. a i * b j * (of_bool (i + j = k) - of_bool (i + j = k + N))) =
        (\<Sum>j<N. if j = k - i then a i * b j else 0)"
      using True i by (intro sum.cong) auto
    also have "\<dots> = a i * b (k - i)" using assms less_imp_diff_less [of k N i] by simp
    also have "b (k - i) = antiperiodic N b (int k - int i)"
      using True assms by (simp add: antiperiodic_def flip: of_nat_diff)
    finally show ?thesis .
  next
    case False
    have "(\<Sum>j<N. a i * b j * (of_bool (i + j = k) - of_bool (i + j = k + N))) =
        (\<Sum>j<N. if j = k + N - i then - (a i * b j) else 0)"
      using False i by (intro sum.cong) auto
    also have "\<dots> = a i * - b (k + N - i)"
    proof -
      have "k + N - i < N" using False i by simp
      then show ?thesis by simp
    qed
    also have "- b (k + N - i) = antiperiodic N b (int k - int i)"
    proof -
      have "antiperiodic N b (int k - int i) = - antiperiodic N b (int k - int i + int N * 1)"
        using i by (subst antiperiodic_shift) auto
      also have "int k - int i + int N * 1 = int (k + N - i)" using i by simp
      also have "antiperiodic N b (int (k + N - i)) = b (k + N - i)"
      proof -
        have "k + N - i < N" using False i by simp
        then show ?thesis unfolding antiperiodic_def by (simp del: of_nat_diff of_nat_add)
      qed
      finally show ?thesis by simp
    qed
    finally show ?thesis by simp
  qed
qed

lemma antiperiodic_negacyclic:
  assumes "0 < N"
  shows "antiperiodic N (negacyclic N a b) n = (\<Sum>i<N. a i * antiperiodic N b (n - int i))"
proof -
  define k where "k = nat (n mod int N)"
  have k: "k < N" "n = int k + int N * (n div int N)" using assms by (simp_all add: k_def nat_less_iff)
  have "antiperiodic N b (n - int i) =
      (if even (n div int N) then antiperiodic N b (int k - int i) else - antiperiodic N b (int k - int i))" for i
    using antiperiodic_shift [OF assms, of b "int k - int i" "n div int N"] k(2)
    by (simp add: algebra_simps)
  then have "(\<Sum>i<N. a i * antiperiodic N b (n - int i)) =
      (if even (n div int N) then negacyclic N a b k else - negacyclic N a b k)"
    by (simp add: negacyclic_antiperiodic [OF k(1)] sum_negf)
  then show ?thesis by (simp add: antiperiodic_def k_def)
qed

lemma negacyclic_commute: "negacyclic N a b = negacyclic N b a"
proof
  fix k
  have "negacyclic N a b k =
      (\<Sum>j<N. \<Sum>i<N. a i * b j * (of_bool (i + j = k) - of_bool (i + j = k + N)))"
    unfolding negacyclic_def by (rule sum.swap)
  also have "\<dots> = negacyclic N b a k" by (simp add: negacyclic_def mult.commute add.commute)
  finally show "negacyclic N a b k = negacyclic N b a k" .
qed

lemma negacyclic_assoc:
  assumes "k < N"
  shows "negacyclic N (negacyclic N a b) c k = negacyclic N a (negacyclic N b c) k"
proof -
  have N: "0 < N" using assms by simp
  have "negacyclic N (negacyclic N a b) c k = negacyclic N c (negacyclic N a b) k"
    by (simp only: negacyclic_commute)
  also have "\<dots> = (\<Sum>l<N. \<Sum>i<N. c l * (a i * antiperiodic N b (int k - int l - int i)))"
    by (simp add: negacyclic_antiperiodic [OF assms] antiperiodic_negacyclic [OF N] sum_distrib_left)
  also have "\<dots> = (\<Sum>i<N. \<Sum>l<N. c l * (a i * antiperiodic N b (int k - int l - int i)))"
    by (rule sum.swap)
  also have "\<dots> = (\<Sum>i<N. \<Sum>l<N. a i * (c l * antiperiodic N b (int k - int i - int l)))"
    by (simp add: algebra_simps)
  also have "\<dots> = negacyclic N a (negacyclic N c b) k"
    by (simp add: negacyclic_antiperiodic [OF assms] antiperiodic_negacyclic [OF N] sum_distrib_left)
  also have "negacyclic N c b = negacyclic N b c" by (rule negacyclic_commute)
  finally show ?thesis .
qed

lemma negacyclic_add_right: "negacyclic N a (\<lambda>i. b i + c i) k = negacyclic N a b k + negacyclic N a c k"
  by (simp add: negacyclic_def distrib_left distrib_right sum.distrib)

lemma negacyclic_add_left: "negacyclic N (\<lambda>i. a i + b i) c k = negacyclic N a c k + negacyclic N b c k"
  by (simp add: negacyclic_def distrib_left distrib_right sum.distrib)

lemma negacyclic_diff_right: "negacyclic N a (\<lambda>i. b i - c i) k = negacyclic N a b k - negacyclic N a c k"
  by (simp only: negacyclic_def right_diff_distrib [of "a _"] left_diff_distrib [of _ _ "of_bool _ - of_bool _"] sum_subtractf)

lemma negacyclic_sum_right:
  "negacyclic N a (\<lambda>i. \<Sum>j\<in>J. f j i) k = (\<Sum>j\<in>J. negacyclic N a (f j) k)"
proof (induction J rule: infinite_finite_induct)
  case (insert x J)
  then show ?case by (simp add: negacyclic_add_right)
qed (simp_all add: negacyclic_def)

lemma negacyclic_sum_left:
  "negacyclic N (\<lambda>i. \<Sum>j\<in>J. f j i) a k = (\<Sum>j\<in>J. negacyclic N (f j) a k)"
  using negacyclic_sum_right [of N a f J k] by (simp add: negacyclic_commute [of N _ a])

lemma negacyclic_modeq:
  assumes "\<And>i. i < N \<Longrightarrow> modeq q (a i) (a' i)" "\<And>i. i < N \<Longrightarrow> modeq q (b i) (b' i)"
  shows "modeq q (negacyclic N a b k) (negacyclic N a' b' k)"
  unfolding negacyclic_def using assms by (intro modeq_sum modeq_mult modeq_refl) auto

lemma negacyclic_scale_left: "negacyclic N (\<lambda>i. c * a i) b k = c * negacyclic N a b k"
  by (simp add: negacyclic_def sum_distrib_left mult.assoc)

section \<open>Linearity of the transform\<close>

lemma ntt_eval_add: "ntt_eval z K (\<lambda>i. a i + b i) l k m = ntt_eval z K a l k m + ntt_eval z K b l k m"
  by (simp add: ntt_eval_def sum.distrib algebra_simps)

lemma ntt_eval_diff: "ntt_eval z K (\<lambda>i. a i - b i) l k m = ntt_eval z K a l k m - ntt_eval z K b l k m"
  by (simp add: ntt_eval_def sum_subtractf algebra_simps)

lemma ntt_eval_scale: "ntt_eval z K (\<lambda>i. d * a i) l k m = d * ntt_eval z K a l k m"
  by (simp add: ntt_eval_def sum_distrib_left mult.assoc)

lemma layer_rep_add:
  assumes "layer_rep q z K c a l r" "layer_rep q z K c b l s"
  shows "layer_rep q z K c (\<lambda>i. a i + b i) l (\<lambda>i. r i + s i)"
  using assms unfolding layer_rep_def ntt_eval_add distrib_left by (blast intro: modeq_add)

lemma layer_rep_diff:
  assumes "layer_rep q z K c a l r" "layer_rep q z K c b l s"
  shows "layer_rep q z K c (\<lambda>i. a i - b i) l (\<lambda>i. r i - s i)"
  using assms unfolding layer_rep_def ntt_eval_diff right_diff_distrib by (blast intro: modeq_diff)

lemma layer_rep_scale:
  assumes "layer_rep q z K c a l r"
  shows "layer_rep q z K (d * c) a l (\<lambda>i. d * r i)"
  using assms unfolding layer_rep_def mult.assoc by (blast intro: modeq_mult)

lemma layer_rep_factor: "modeq q c c' \<Longrightarrow> layer_rep q z K c a l r \<Longrightarrow> layer_rep q z K c' a l r"
  unfolding layer_rep_def by (blast intro: modeq_trans modeq_mult)

lemma layer_rep_cong:
  assumes "layer_rep q z K c a l r" "l \<le> K" "\<And>i. i < 2 ^ K \<Longrightarrow> modeq q (s i) (r i)"
  shows "layer_rep q z K c a l s"
  unfolding layer_rep_def
proof (intro allI impI)
  fix k m :: nat
  assume k: "k < 2 ^ l" and m: "m < 2 ^ (K - l)"
  have "k * 2 ^ (K - l) + m < Suc k * 2 ^ (K - l)" using m by simp
  also have "\<dots> \<le> 2 ^ l * 2 ^ (K - l)" using k by (intro mult_right_mono) auto
  also have "\<dots> = 2 ^ K" using assms(2) by (simp flip: power_add)
  finally have i: "k * 2 ^ (K - l) + m < 2 ^ K" .
  have "modeq q (r (k * 2 ^ (K - l) + m)) (c * ntt_eval z K a l k m)"
    using assms(1) k m unfolding layer_rep_def by blast
  then show "modeq q (s (k * 2 ^ (K - l) + m)) (c * ntt_eval z K a l k m)"
    using assms(3) [OF i] modeq_trans by blast
qed

lemma layer_rep_sum:
  assumes "finite J" "\<And>j. j \<in> J \<Longrightarrow> layer_rep q z K c (a j) l (r j)"
  shows "layer_rep q z K c (\<lambda>i. \<Sum>j\<in>J. a j i) l (\<lambda>i. \<Sum>j\<in>J. r j i)"
  using assms
proof (induction J rule: finite_induct)
  case empty
  then show ?case by (simp add: layer_rep_def ntt_eval_def)
next
  case (insert x J)
  then show ?case by (simp add: layer_rep_add)
qed

end
