(* ===== verification/Kem_Polyvec_Correct.thy ===== *)
theory Kem_Polyvec_Correct
  imports Kem_Polyvec Negacyclic
begin

text \<open>
  Correctness of \<open>polyvec.c\<close>: the divisions of \<open>polyvec_compress\<close> are the exact roundings of FIPS 203,
  what is packed into the \<open>du\<close>-bit fields comes back, and the operations on transformed vectors are
  those of vectors of polynomials modulo \<open>q\<close>.
\<close>

text \<open>
  The two constants are not exact reciprocals: the quotient would be off for a few remainders of a
  large numerator, which the values \<open>2 ^ d * x + 1664\<close> do not have.
\<close>

lemma dvd_of_inverse:
  fixes q :: int
  assumes "a * y = q * z" "u * a = 1 + q * w"
  shows "q dvd y"
proof -
  have "u * (a * y) = y + q * (w * y)" using assms(2) by (metis distrib_right mult.assoc mult_1)
  then have "y = q * (u * z - w * y)" using assms(1) by (simp add: algebra_simps)
  then show ?thesis by (metis dvd_triv_left)
qed

lemma compress_div_11:
  fixes x :: int
  assumes "0 \<le> x" "x < 3329"
  shows "(2048 * x + 1664) * 645084 div 2 ^ 31 = (2048 * x + 1664) div 3329"
proof -
  define k r where "k = (2048 * x + 1664) div 3329" and "r = (2048 * x + 1664) mod 3329"
  have N: "2048 * x + 1664 = 3329 * k + r" by (simp add: k_def r_def)
  have r: "0 \<le> r" "r < 3329" by (simp_all add: r_def)
  have k: "0 \<le> k" "k \<le> 2047" using N assms r by linarith+
  have u: "x = x0 \<and> k = k0" if "2048 * (x - x0) = 3329 * (k - k0)" "0 \<le> x0" "x0 < 3329" for x0 k0
  proof -
    have "3329 dvd (x - x0)" by (rule dvd_of_inverse [OF that(1), of 2079 1279]) simp
    then obtain t where t: "x - x0 = 3329 * t" by (auto simp: dvd_def)
    have "t = 0" using t assms that(2,3) by linarith
    then show ?thesis using that(1) t by simp
  qed
  consider "r < 3326" | "r = 3326" | "r = 3327" | "r = 3328" using r by linarith
  then have "r < 3326 \<or> r = 3326 \<and> k \<le> 1957 \<or> r = 3327 \<and> k \<le> 1304 \<or> r = 3328 \<and> k \<le> 651"
  proof cases
    case 2 then show ?thesis using u [of 3125 1922] N by simp
  next
    case 3 then show ?thesis using u [of 1875 1153] N by simp
  next
    case 4 then show ?thesis using u [of 625 384] N by simp
  qed simp
  then show ?thesis unfolding k_def [symmetric] N
    using r k by (intro int_div_pos_eq [where r = "988 * k + 645084 * r"]) auto
qed

lemma compress_div_10:
  fixes x :: int
  assumes "0 \<le> x" "x < 3329"
  shows "(1024 * x + 1665) * 1290167 div 2 ^ 32 = (1024 * x + 1664) div 3329"
proof -
  define k r where "k = (1024 * x + 1664) div 3329" and "r = (1024 * x + 1664) mod 3329"
  have N: "1024 * x + 1664 = 3329 * k + r" by (simp add: k_def r_def)
  have r: "0 \<le> r" "r < 3329" by (simp_all add: r_def)
  have k: "0 \<le> k" "k \<le> 1024" using N assms r by linarith+
  have "0 < r \<or> k \<le> 953"
  proof (cases "r = 0")
    case True
    then have e: "1024 * (x - 2079) = 3329 * (k - 640)" using N by simp
    have "3329 dvd (x - 2079)" by (rule dvd_of_inverse [OF e, of 829 255]) simp
    then obtain t where t: "x - 2079 = 3329 * t" by (auto simp: dvd_def)
    have "t = 0" using t assms by linarith
    then show ?thesis using e t by simp
  qed (use r in linarith)
  moreover have "(1024 * x + 1665) * 1290167 = 2 ^ 32 * k + (1290167 * r + 1290167 - 1353 * k)"
    using N by simp
  ultimately show ?thesis unfolding k_def [symmetric]
    using r k by (intro int_div_pos_eq [where r = "1290167 * r + 1290167 - 1353 * k"]) auto
qed

lemma polyvec_norm:
  fixes a :: i16
  assumes "\<bar>sint a\<bar> < 3329"
  shows "uint (zext64 (a + (sar a 15 AND MLKEM_PAR_Q))) = sint a mod 3329"
proof -
  have "unat (poly_tobytes_norm a) = nat (sint a mod 3329)"
    using assms poly_tobytes_norm_rep [of a] mod_pos_pos_trivial [of "sint a + 3329" 3329]
    by (cases "sint a < 0") simp_all
  then have "uint (poly_tobytes_norm a) = sint a mod 3329" by (simp add: uint_nat)
  then show ?thesis by (simp add: poly_tobytes_norm_def)
qed

lemma polyvec_compress_d11_exact:
  assumes "\<bar>sint a\<bar> < 3329"
  shows "uint (polyvec_compress_d11 a) = compress_spec 11 (sint a)"
proof -
  define x where "x = sint a mod 3329"
  define u where "u = zext64 (a + (sar a 15 AND MLKEM_PAR_Q))"
  have x: "0 \<le> x" "x < 3329" by (simp_all add: x_def)
  have u: "uint u = x" unfolding u_def x_def using assms by (rule polyvec_norm)
  have v: "uint (shl u 11 + 1664) = 2048 * x + 1664"
    using x u by (simp add: uint_word_ariths unsigned_push_bit_eq push_bit_eq_mult take_bit_eq_mod)
  have "uint (shr ((shl u 11 + 1664) * 645084) 31 AND mask 11) = (2048 * x + 1664) * 645084 div 2 ^ 31 mod 2 ^ 11"
    by (subst uint_mult_field) (simp_all add: v)
  also have "\<dots> = (2048 * x + 1664) div 3329 mod 2 ^ 11" using compress_div_11 [OF x] by simp
  also have "\<dots> = compress_spec 11 (sint a)"
    using compress_spec_div [OF x, of 11] by (simp only: x_def compress_spec_mod) simp
  finally have w: "uint (shr ((shl u 11 + 1664) * 645084) 31 AND 0x7ff) = compress_spec 11 (sint a)"
    by (simp add: mask_eq_exp_minus_1)
  then show ?thesis using compress_spec_range [of 11 "sint a"]
    by (simp add: polyvec_compress_d11_def Let_def u_def [symmetric] uint_ucast_fit)
qed

lemma polyvec_compress_d10_exact:
  assumes "\<bar>sint a\<bar> < 3329"
  shows "uint (polyvec_compress_d10 a) = compress_spec 10 (sint a)"
proof -
  define x where "x = sint a mod 3329"
  define u where "u = zext64 (a + (sar a 15 AND MLKEM_PAR_Q))"
  have x: "0 \<le> x" "x < 3329" by (simp_all add: x_def)
  have u: "uint u = x" unfolding u_def x_def using assms by (rule polyvec_norm)
  have v: "uint (shl u 10 + 1665) = 1024 * x + 1665"
    using x u by (simp add: uint_word_ariths unsigned_push_bit_eq push_bit_eq_mult take_bit_eq_mod)
  have "uint (shr ((shl u 10 + 1665) * 1290167) 32 AND mask 10) = (1024 * x + 1665) * 1290167 div 2 ^ 32 mod 2 ^ 10"
    by (subst uint_mult_field) (simp_all add: v)
  also have "\<dots> = (1024 * x + 1664) div 3329 mod 2 ^ 10" using compress_div_10 [OF x] by simp
  also have "\<dots> = compress_spec 10 (sint a)"
    using compress_spec_div [OF x, of 10] by (simp only: x_def compress_spec_mod) simp
  finally have w: "uint (shr ((shl u 10 + 1665) * 1290167) 32 AND 0x3ff) = compress_spec 10 (sint a)"
    by (simp add: mask_eq_exp_minus_1)
  then show ?thesis using compress_spec_range [of 10 "sint a"]
    by (simp add: polyvec_compress_d10_def Let_def u_def [symmetric] uint_ucast_fit)
qed

section \<open>Packed fields\<close>

lemma pack11_field:
  assumes "length t = 8" "\<And>k. k < 8 \<Longrightarrow> unat (t ! k) < 2048" "k < 8"
  shows "field 11 (pack11 t) k = unat (t ! k)"
proof (rule field_eq_unat)
  have z: "\<not> bit (t ! k) j" if "k < 8" "11 \<le> j" for k j
    using assms(2) [OF that(1)] that(2) small_iff_bits [of "t ! k" 11] by simp
  then show "\<not> bit (t ! k) j" if "11 \<le> j" for j using assms(3) that by simp
  have "\<forall>k<8. \<forall>j<11. byte_bit (pack11 t) (11 * k + j) = bit (t ! k) j"
    by (simp add: all_less_numeral byte_bit_def pack11_def bit_fields z del: push_bit_Suc flip: One_nat_def)
  then show "byte_bit (pack11 t) (11 * k + j) = bit (t ! k) j" if "j < 11" for j using assms(3) that by blast
qed

lemma pack10_field:
  assumes "length t = 4" "\<And>k. k < 4 \<Longrightarrow> unat (t ! k) < 1024" "k < 4"
  shows "field 10 (pack10 t) k = unat (t ! k)"
proof (rule field_eq_unat)
  have z: "\<not> bit (t ! k) j" if "k < 4" "10 \<le> j" for k j
    using assms(2) [OF that(1)] that(2) small_iff_bits [of "t ! k" 10] by simp
  then show "\<not> bit (t ! k) j" if "10 \<le> j" for j using assms(3) that by simp
  have "\<forall>k<4. \<forall>j<10. byte_bit (pack10 t) (10 * k + j) = bit (t ! k) j"
    by (simp add: all_less_numeral byte_bit_def pack10_def bit_fields z flip: One_nat_def)
  then show "byte_bit (pack10 t) (10 * k + j) = bit (t ! k) j" if "j < 10" for j using assms(3) that by blast
qed

lemma unpack11_field:
  assumes "k < 8"
  shows "unat (unpack11 a ! k) mod 2048 = field 11 a k"
proof -
  have "\<forall>k<8. \<forall>j<11. byte_bit a (11 * k + j) = bit (unpack11 a ! k) j"
    by (simp add: all_less_numeral byte_bit_def unpack11_def bit_fields del: push_bit_Suc flip: One_nat_def)
  then have b: "byte_bit a (11 * k + j) = bit (unpack11 a ! k) j" if "j < 11" for j using assms that by blast
  have "field 11 a k = unat (take_bit 11 (unpack11 a ! k))"
    by (rule field_eq_unat) (simp_all add: b bit_take_bit_iff)
  then show ?thesis using unat_and_mask [of "unpack11 a ! k" 11] by (simp add: take_bit_eq_mask)
qed

lemma unpack10_field:
  assumes "k < 4"
  shows "unat (unpack10 a ! k) mod 1024 = field 10 a k"
proof -
  have "\<forall>k<4. \<forall>j<10. byte_bit a (10 * k + j) = bit (unpack10 a ! k) j"
    by (simp add: all_less_numeral byte_bit_def unpack10_def bit_fields flip: One_nat_def)
  then have b: "byte_bit a (10 * k + j) = bit (unpack10 a ! k) j" if "j < 10" for j using assms that by blast
  have "field 10 a k = unat (take_bit 10 (unpack10 a ! k))"
    by (rule field_eq_unat) (simp_all add: b bit_take_bit_iff)
  then show ?thesis using unat_and_mask [of "unpack10 a ! k" 10] by (simp add: take_bit_eq_mask)
qed

lemma polyvec_decompress_d11_exact: "sint (polyvec_decompress_d11 t) = decompress_spec 11 (int (unat t mod 2048))"
proof -
  define y where "y = int (unat t mod 2048)"
  have y: "0 \<le> y" "y < 2048" by (simp_all add: y_def)
  have m: "uint (t AND 0x7FF) = y"
    using uint_and_mask [of t 11] by (simp only: y_def uint_nat of_nat_mod) (simp add: mask_eq_exp_minus_1)
  have "uint (zext32 (t AND 0x7FF) * (3329 :: u32) + 1024) = y * 3329 + 1024"
    using y by (simp add: uint_word_ariths m)
  then have v: "uint (shr (zext32 (t AND 0x7FF) * (3329 :: u32) + 1024) 11) = (y * 3329 + 1024) div 2048"
    by (simp add: uint_shr)
  also have "\<dots> = decompress_spec 11 y"
  proof -
    have "2 * 3329 * y + 2 ^ 11 = 2 * (y * 3329 + 1024)" "2 ^ Suc 11 = 2 * (2048 :: int)" by simp_all
    then show ?thesis by (simp only: decompress_spec_def zdiv_zmult2_eq) simp
  qed
  finally show ?thesis unfolding polyvec_decompress_d11_def y_def [symmetric]
    using decompress_spec_range [of y 11] y by (subst sint_eq_uint_small; simp add: uint_ucast_fit)
qed

lemma polyvec_decompress_d10_exact: "sint (polyvec_decompress_d10 t) = decompress_spec 10 (int (unat t mod 1024))"
proof -
  define y where "y = int (unat t mod 1024)"
  have y: "0 \<le> y" "y < 1024" by (simp_all add: y_def)
  have m: "uint (t AND 0x3FF) = y"
    using uint_and_mask [of t 10] by (simp only: y_def uint_nat of_nat_mod) (simp add: mask_eq_exp_minus_1)
  have "uint (zext32 (t AND 0x3FF) * (3329 :: u32) + 512) = y * 3329 + 512"
    using y by (simp add: uint_word_ariths m)
  then have v: "uint (shr (zext32 (t AND 0x3FF) * (3329 :: u32) + 512) 10) = (y * 3329 + 512) div 1024"
    by (simp add: uint_shr)
  also have "\<dots> = decompress_spec 10 y"
  proof -
    have "2 * 3329 * y + 2 ^ 10 = 2 * (y * 3329 + 512)" "2 ^ Suc 10 = 2 * (1024 :: int)" by simp_all
    then show ?thesis by (simp only: decompress_spec_def zdiv_zmult2_eq) simp
  qed
  finally show ?thesis unfolding polyvec_decompress_d10_def y_def [symmetric]
    using decompress_spec_range [of y 10] y by (subst sint_eq_uint_small; simp add: uint_ucast_fit)
qed

section \<open>Ciphertext vectors\<close>

lemma polyvec_compress_chunks:
  "polyvec_compress par a =
     map_chunks 1 (par_k par) (\<lambda>p. if par_du par = 11
       then map_chunks 8 32 (\<lambda>c. pack11 (map polyvec_compress_d11 c)) (p ! 0)
       else map_chunks 4 64 (\<lambda>c. pack10 (map polyvec_compress_d10 c)) (p ! 0)) a"
  by (simp add: polyvec_compress_def map_chunks_def [of "Suc 0"])

lemma compressed_poly_field:
  assumes "length p = 256" "\<forall>x \<in> set p. \<bar>sint x\<bar> < 3329" "i < 256"
  shows "field 11 (map_chunks 8 32 (\<lambda>c. pack11 (map polyvec_compress_d11 c)) p) i = nat (compress_spec 11 (sint (p ! i)))"
    and "field 10 (map_chunks 4 64 (\<lambda>c. pack10 (map polyvec_compress_d10 c)) p) i = nat (compress_spec 10 (sint (p ! i)))"
proof -
  have u: "unat (polyvec_compress_d11 x) = nat (compress_spec 11 (sint x))"
    "unat (polyvec_compress_d10 x) = nat (compress_spec 10 (sint x))" if "x \<in> set p" for x
    using assms(2) that by (simp_all add: unat_eq_nat polyvec_compress_d11_exact polyvec_compress_d10_exact)
  have lt: "nat (compress_spec 11 x) < 2048" "nat (compress_spec 10 x) < 1024" for x
    using compress_spec_range [of 11 x] compress_spec_range [of 10 x] by simp_all
  show "field 11 (map_chunks 8 32 (\<lambda>c. pack11 (map polyvec_compress_d11 c)) p) i = nat (compress_spec 11 (sint (p ! i)))"
  proof (rule pack_chunks_field [where d = 11 and v = 11 and g = 8 and n = 32
        and enc = "\<lambda>x. nat (compress_spec 11 (sint x))"])
    fix c :: "i16 list" and k :: nat
    assume c: "length c = 8" "set c \<subseteq> set p" "k < 8"
    have m: "c ! j \<in> set p" if "j < 8" for j using c(1,2) that by auto
    have "field 11 (pack11 (map polyvec_compress_d11 c)) k = unat (map polyvec_compress_d11 c ! k)"
      using c lt(1) m by (intro pack11_field) (simp_all add: u(1))
    then show "field 11 (pack11 (map polyvec_compress_d11 c)) k = nat (compress_spec 11 (sint (c ! k)))"
      using c m by (simp add: u(1))
  qed (use assms in \<open>simp_all add: pack11_def\<close>)
  show "field 10 (map_chunks 4 64 (\<lambda>c. pack10 (map polyvec_compress_d10 c)) p) i = nat (compress_spec 10 (sint (p ! i)))"
  proof (rule pack_chunks_field [where d = 10 and v = 5 and g = 4 and n = 64
        and enc = "\<lambda>x. nat (compress_spec 10 (sint x))"])
    fix c :: "i16 list" and k :: nat
    assume c: "length c = 4" "set c \<subseteq> set p" "k < 4"
    have m: "c ! j \<in> set p" if "j < 4" for j using c(1,2) that by auto
    have "field 10 (pack10 (map polyvec_compress_d10 c)) k = unat (map polyvec_compress_d10 c ! k)"
      using c lt(2) m by (intro pack10_field) (simp_all add: u(2))
    then show "field 10 (pack10 (map polyvec_compress_d10 c)) k = nat (compress_spec 10 (sint (c ! k)))"
      using c m by (simp add: u(2))
  qed (use assms in \<open>simp_all add: pack10_def\<close>)
qed

lemma length_compressed_poly:
  "length (map_chunks 8 32 (\<lambda>c. pack11 (map polyvec_compress_d11 c)) p) = 352"
  "length (map_chunks 4 64 (\<lambda>c. pack10 (map polyvec_compress_d10 c)) p) = 320"
  by (simp_all add: length_map_chunks [where v = 11] length_map_chunks [where v = 5] pack11_def pack10_def)

lemma length_polyvec_compress:
  assumes "par_du par \<in> {10, 11}"
  shows "length (polyvec_compress par a) = par_k par * (32 * par_du par)"
  using assms unfolding polyvec_compress_chunks
  by (auto simp: length_compressed_poly length_map_chunks [where w = "Suc 0" and v = 352] length_map_chunks [where w = "Suc 0" and v = 320])

text \<open>A vector of \<open>k\<close> polynomials of 256 coefficients.\<close>

definition pvec_ok :: "mlkem_param \<Rightarrow> (i16 \<Rightarrow> bool) \<Rightarrow> pvec \<Rightarrow> bool" where
  "pvec_ok par P a \<longleftrightarrow> length a = par_k par \<and> (\<forall>p \<in> set a. length p = 256 \<and> (\<forall>x \<in> set p. P x))"

lemma pvec_ok_nth:
  assumes "pvec_ok par P a" "i < par_k par"
  shows "length (a ! i) = 256" "\<And>x. x \<in> set (a ! i) \<Longrightarrow> P x" "\<And>j. j < 256 \<Longrightarrow> P (a ! i ! j)"
proof -
  have "a ! i \<in> set a" using assms by (simp add: pvec_ok_def)
  then have p: "length (a ! i) = 256" "\<forall>x \<in> set (a ! i). P x" using assms(1) unfolding pvec_ok_def by blast+
  then show "length (a ! i) = 256" "\<And>x. x \<in> set (a ! i) \<Longrightarrow> P x" "\<And>j. j < 256 \<Longrightarrow> P (a ! i ! j)" by simp_all
qed

lemma pvec_okI:
  assumes "length a = par_k par" "\<And>i. i < par_k par \<Longrightarrow> length (a ! i) = 256"
    "\<And>i j. i < par_k par \<Longrightarrow> j < 256 \<Longrightarrow> P (a ! i ! j)"
  shows "pvec_ok par P a"
  using assms by (fastforce simp: pvec_ok_def in_set_conv_nth)

lemma pvec_ok_mono: "pvec_ok par P a \<Longrightarrow> (\<And>x. P x \<Longrightarrow> Q x) \<Longrightarrow> pvec_ok par Q a"
  by (auto simp: pvec_ok_def)

lemma polyvec_compress_field:
  assumes "pvec_ok par (\<lambda>x. \<bar>sint x\<bar> < 3329) a" "par_du par \<in> {10, 11}" "i < par_k par" "j < 256"
  shows "int (field (par_du par) (polyvec_compress par a) (256 * i + j)) = compress_spec (par_du par) (sint (a ! i ! j))"
proof -
  note p = pvec_ok_nth [OF assms(1,3)]
  have "field (par_du par) (polyvec_compress par a) (256 * i + j) =
      field (par_du par) (if par_du par = 11
       then map_chunks 8 32 (\<lambda>c. pack11 (map polyvec_compress_d11 c)) (a ! i)
       else map_chunks 4 64 (\<lambda>c. pack10 (map polyvec_compress_d10 c)) (a ! i)) j"
    unfolding polyvec_compress_chunks using assms(2-4)
    by (subst field_map_chunks [where v = "32 * par_du par"]) (auto simp: length_compressed_poly)
  also have "\<dots> = nat (compress_spec (par_du par) (sint (a ! i ! j)))"
    using assms(2) compressed_poly_field [OF p(1) _ assms(4)] p(2) by auto
  finally show ?thesis using compress_spec_range(1) by simp
qed

lemma decompressed_poly_nth:
  assumes "i < 256"
  shows "sint (map_chunks 11 32 (\<lambda>a. map polyvec_decompress_d11 (unpack11 a)) bs ! i) = decompress_spec 11 (int (field 11 bs i))"
    and "sint (map_chunks 5 64 (\<lambda>a. map polyvec_decompress_d10 (unpack10 a)) bs ! i) = decompress_spec 10 (int (field 10 bs i))"
proof -
  have l: "length (unpack11 c) = 8" "length (unpack10 c) = 4" for c by (simp_all add: unpack11_def unpack10_def)
  show "sint (map_chunks 11 32 (\<lambda>a. map polyvec_decompress_d11 (unpack11 a)) bs ! i) = decompress_spec 11 (int (field 11 bs i))"
    using assms by (intro unpack_chunks_nth [where g = 8 and d = 11 and P = "\<lambda>f x. sint x = decompress_spec 11 (int f)"])
      (simp_all add: l polyvec_decompress_d11_exact unpack11_field)
  show "sint (map_chunks 5 64 (\<lambda>a. map polyvec_decompress_d10 (unpack10 a)) bs ! i) = decompress_spec 10 (int (field 10 bs i))"
    using assms by (intro unpack_chunks_nth [where g = 4 and d = 10 and P = "\<lambda>f x. sint x = decompress_spec 10 (int f)"])
      (simp_all add: l polyvec_decompress_d10_exact unpack10_field)
qed

lemma length_polyvec_decompress [simp]: "length (polyvec_decompress par bs) = par_k par"
  by (simp add: polyvec_decompress_def)

lemma length_decompressed_poly:
  "length (map_chunks 11 32 (\<lambda>a. map polyvec_decompress_d11 (unpack11 a)) bs) = 256"
  "length (map_chunks 5 64 (\<lambda>a. map polyvec_decompress_d10 (unpack10 a)) bs) = 256"
  by (simp_all add: length_map_chunks [where v = 8] length_map_chunks [where v = 4] unpack11_def unpack10_def)

lemma length_polyvec_decompress_nth [simp]: "i < par_k par \<Longrightarrow> length (polyvec_decompress par bs ! i) = 256"
  by (simp add: polyvec_decompress_def length_decompressed_poly)

lemma field_drop:
  assumes "g * d = 8 * v" "v * i + v \<le> length bs" "k < g"
  shows "field d (drop (v * i) bs) k = field d bs (g * i + k)"
proof -
  have "chunk v 0 (drop (v * i) bs) = chunk v i bs"
    using assms(2) by (simp add: chunk_def)
  then have "field d (chunk v 0 (drop (v * i) bs)) k = field d (chunk v i bs) k" by simp
  then show ?thesis using field_chunk [OF assms(1,3), of 0 "drop (v * i) bs"] field_chunk [OF assms(1,3), of i bs] by simp
qed

lemma polyvec_decompress_field:
  assumes "par_du par \<in> {10, 11}" "par_k par * (32 * par_du par) \<le> length bs" "i < par_k par" "j < 256"
  shows "sint (polyvec_decompress par bs ! i ! j) = decompress_spec (par_du par) (int (field (par_du par) bs (256 * i + j)))"
proof -
  let ?d = "par_du par"
  have "Suc i * (32 * ?d) \<le> par_k par * (32 * ?d)" using assms(3) by (intro mult_le_mono1) simp
  then have "(32 * ?d) * i + 32 * ?d \<le> length bs" using assms(2) by (simp add: algebra_simps)
  then have "field ?d (drop ((32 * ?d) * i) bs) j = field ?d bs (256 * i + j)"
    using assms(4) by (intro field_drop) auto
  moreover from assms(1) have "?d = 10 \<or> ?d = 11" by blast
  ultimately show ?thesis
    using assms(3,4) by (auto simp: polyvec_decompress_def decompressed_poly_nth)
qed

lemma polyvec_decompress_range:
  assumes "par_du par \<in> {10, 11}" "par_k par * (32 * par_du par) \<le> length bs"
  shows "pvec_ok par (\<lambda>x. 0 \<le> sint x \<and> sint x < 3329) (polyvec_decompress par bs)"
proof (rule pvec_okI)
  fix i j
  assume ij: "i < par_k par" "j < (256 :: nat)"
  have "field (par_du par) bs (256 * i + j) < 2 ^ par_du par" by (rule field_less)
  then have "int (field (par_du par) bs (256 * i + j)) < 2 ^ par_du par" by (simp flip: of_nat_less_iff)
  moreover have "par_du par < 12" using assms(1) by auto
  ultimately show "0 \<le> sint (polyvec_decompress par bs ! i ! j) \<and> sint (polyvec_decompress par bs ! i ! j) < 3329"
    unfolding polyvec_decompress_field [OF assms ij] by (intro conjI decompress_spec_range) simp_all
qed simp_all

lemma polyvec_compress_decompress:
  assumes "par_du par \<in> {10, 11}" "length bs = par_k par * (32 * par_du par)"
  shows "polyvec_compress par (polyvec_decompress par bs) = bs"
proof (rule fields_inj)
  let ?d = "par_du par" and ?p = "polyvec_decompress par bs"
  show "length (polyvec_compress par ?p) = par_k par * (32 * ?d)" "length bs = par_k par * (32 * ?d)"
    "8 * (par_k par * (32 * ?d)) = ?d * (256 * par_k par)"
    using assms by (simp_all add: length_polyvec_compress)
  fix m :: nat
  assume "m < 256 * par_k par"
  then obtain i j where ij: "m = 256 * i + j" "i < par_k par" "j < 256"
    using index_group [of m 256 "par_k par"] by (metis zero_less_numeral)
  have le: "par_k par * (32 * par_du par) \<le> length bs" using assms(2) by simp
  have "int (field ?d (polyvec_compress par ?p) m) = compress_spec ?d (sint (?p ! i ! j))"
    unfolding ij(1) using polyvec_decompress_range [OF assms(1) le] assms(1) ij
    by (intro polyvec_compress_field) (auto elim!: pvec_ok_mono)
  also have "\<dots> = compress_spec ?d (decompress_spec ?d (int (field ?d bs m)))"
    by (simp only: polyvec_decompress_field [OF assms(1) le ij(2,3)] ij(1))
  also have "\<dots> = int (field ?d bs m)"
    using field_less [of ?d bs m] assms(1)
    by (intro compress_decompress_spec) (auto simp flip: of_nat_less_iff)
  finally show "field ?d (polyvec_compress par ?p) m = field ?d bs m" by simp
qed

section \<open>Serialised vectors\<close>

lemma length_polyvec_tobytes [simp]: "length (polyvec_tobytes par a) = par_k par * 384"
  by (simp add: polyvec_tobytes_def length_concat_chunks [where w = 384])

lemma length_polyvec_frombytes [simp]: "length (polyvec_frombytes par bs) = par_k par"
  by (simp add: polyvec_frombytes_def)

lemma polyvec_frombytes_nth:
  assumes "par_k par * 384 \<le> length bs" "i < par_k par" "j < 256"
  shows "sint (polyvec_frombytes par bs ! i ! j) = int (field 12 bs (256 * i + j))"
proof -
  have "384 * i + 384 \<le> length bs" using assms(1,2) by linarith
  then have "field 12 (drop (384 * i) bs) j = field 12 bs (256 * i + j)"
    using assms(3) by (intro field_drop) simp_all
  then show ?thesis using assms by (simp add: polyvec_frombytes_def poly_frombytes_field mult.commute)
qed

lemma polyvec_frombytes_ok:
  assumes "par_k par * 384 \<le> length bs"
  shows "pvec_ok par (\<lambda>x. 0 \<le> sint x \<and> sint x < 4096) (polyvec_frombytes par bs)"
proof (rule pvec_okI)
  fix i j assume ij: "i < par_k par" "j < (256 :: nat)"
  show "0 \<le> sint (polyvec_frombytes par bs ! i ! j) \<and> sint (polyvec_frombytes par bs ! i ! j) < 4096"
    unfolding polyvec_frombytes_nth [OF assms ij] using field_less [of 12 bs "256 * i + j"] by simp
qed (simp_all add: polyvec_frombytes_def)

lemma polyvec_tobytes_nth:
  assumes "pvec_ok par (\<lambda>x. - 3329 < sint x \<and> sint x < 4096) a" "i < par_k par" "j < 256"
  shows "int (field 12 (polyvec_tobytes par a @ ys) (256 * i + j)) =
    (if sint (a ! i ! j) < 0 then sint (a ! i ! j) + 3329 else sint (a ! i ! j))"
proof -
  note p = pvec_ok_nth [OF assms(1,2)]
  have e: "polyvec_tobytes par a = map_chunks 1 (par_k par) (\<lambda>p. poly_tobytes (p ! 0)) a"
    by (simp add: polyvec_tobytes_def map_chunks_def [of "Suc 0"])
  have "12 * Suc (256 * i + j) \<le> 12 * (256 * par_k par)" using assms(2,3) by (intro mult_left_mono) linarith+
  then have "field 12 (polyvec_tobytes par a @ ys) (256 * i + j) = field 12 (polyvec_tobytes par a) (256 * i + j)"
    by (intro field_append) simp
  also have "\<dots> = field 12 (poly_tobytes (a ! i)) j"
    unfolding e using assms(2,3) by (subst field_map_chunks [where v = 384]) simp_all
  finally show ?thesis using poly_tobytes_field [OF p(1) _ assms(3)] p(2) by simp
qed

text \<open>A vector written and read back: the same residues, now non-negative.\<close>

lemma polyvec_frombytes_tobytes:
  assumes "pvec_ok par (\<lambda>x. \<bar>sint x\<bar> < 3329) a" "i < par_k par" "j < 256"
  shows "sint (polyvec_frombytes par (polyvec_tobytes par a @ ys) ! i ! j) = sint (a ! i ! j) mod 3329"
proof -
  have ok: "pvec_ok par (\<lambda>x. - 3329 < sint x \<and> sint x < 4096) a"
    using assms(1) by (rule pvec_ok_mono) linarith
  have "\<bar>sint (a ! i ! j)\<bar> < 3329" using pvec_ok_nth(3) [OF assms(1-3)] .
  then have "(if sint (a ! i ! j) < 0 then sint (a ! i ! j) + 3329 else sint (a ! i ! j)) = sint (a ! i ! j) mod 3329"
    using mod_pos_pos_trivial [of "sint (a ! i ! j) + 3329" 3329] by (cases "sint (a ! i ! j) < 0") simp_all
  then show ?thesis
    using polyvec_frombytes_nth [of par "polyvec_tobytes par a @ ys" i j] assms(2,3) polyvec_tobytes_nth [OF ok assms(2,3), of ys]
    by simp
qed

section \<open>Loops over a vector\<close>

lemma polyvec_ntt_eq: "length r = par_k par \<Longrightarrow> polyvec_ntt par r = map mlkem_poly_ntt r"
  using fold_upt_map [of mlkem_poly_ntt r] by (simp add: polyvec_ntt_def)

lemma polyvec_invntt_eq: "length r = par_k par \<Longrightarrow> polyvec_invntt_tomont par r = map mlkem_poly_invntt_tomont r"
  using fold_upt_map [of mlkem_poly_invntt_tomont r] by (simp add: polyvec_invntt_tomont_def)

lemma polyvec_reduce_eq: "length r = par_k par \<Longrightarrow> polyvec_reduce par r = map mlkem_poly_reduce r"
  using fold_upt_map [of mlkem_poly_reduce r] by (simp add: polyvec_reduce_def)

section \<open>Transformed polynomials\<close>

text \<open>The array \<open>r\<close> is \<open>c\<close> times the transform of the polynomial \<open>f\<close>, with coefficients up to \<open>B\<close>.\<close>

definition kem_rep :: "int \<Rightarrow> int \<Rightarrow> (nat \<Rightarrow> int) \<Rightarrow> poly \<Rightarrow> bool" where
  "kem_rep B c f r \<longleftrightarrow> poly_bounded B r \<and> layer_rep 3329 kem_root 8 c f 7 (\<lambda>i. sint (r ! i))"

lemma poly_bounded_nth: "poly_bounded B r \<Longrightarrow> i < 256 \<Longrightarrow> \<bar>sint (r ! i)\<bar> \<le> B"
  by (simp add: poly_bounded_def)

lemma poly_boundedI: "length r = 256 \<Longrightarrow> (\<And>i. i < 256 \<Longrightarrow> \<bar>sint (r ! i)\<bar> \<le> B) \<Longrightarrow> poly_bounded B r"
  by (auto simp: poly_bounded_def in_set_conv_nth)

lemma poly_bounded_mono: "poly_bounded B r \<Longrightarrow> B \<le> B' \<Longrightarrow> poly_bounded B' r"
  by (auto simp: poly_bounded_def)

lemma kem_rep_ntt: "poly_bounded 9471 r \<Longrightarrow> kem_rep 1664 1 (\<lambda>i. sint (r ! i)) (mlkem_poly_ntt r)"
  using mlkem_poly_ntt_rep [of r] by (auto simp: kem_rep_def poly_bounded_def)

lemma kem_rep_invntt:
  assumes "kem_rep B c f r" "B \<le> 16383"
  shows "poly_bounded 3328 (mlkem_poly_invntt_tomont r)"
    and "i < 256 \<Longrightarrow> modeq 3329 (sint (mlkem_poly_invntt_tomont r ! i)) (65536 * c * f i)"
proof -
  have r: "length r = 256" "\<forall>x \<in> set r. \<bar>sint x\<bar> \<le> 16383" "layer_rep 3329 kem_root 8 c f 7 (\<lambda>i. sint (r ! i))"
    using assms by (auto simp: kem_rep_def poly_bounded_def)
  note I = mlkem_invntt_rep [OF r(1,3,2)]
  show "poly_bounded 3328 (mlkem_poly_invntt_tomont r)"
  proof (rule poly_boundedI)
    show "\<bar>sint (mlkem_poly_invntt_tomont r ! i)\<bar> \<le> 3328" if "i < 256" for i
      using I(3) [OF that] by (simp add: mlkem_poly_invntt_tomont_def)
  qed (use I(1) [of 0] in \<open>simp add: mlkem_poly_invntt_tomont_def\<close>)
  show "modeq 3329 (sint (mlkem_poly_invntt_tomont r ! i)) (65536 * c * f i)" if "i < 256"
    using I(2) [OF that] by (simp add: mlkem_poly_invntt_tomont_def)
qed

lemma length_mlkem_poly_add [simp]: "length (mlkem_poly_add a b) = 256"
  by (simp add: mlkem_poly_add_def)

lemma length_mlkem_poly_sub [simp]: "length (mlkem_poly_sub a b) = 256"
  by (simp add: mlkem_poly_sub_def)

lemma mlkem_poly_add_nth:
  assumes "poly_bounded A a" "poly_bounded B b" "A + B < 32768" "i < 256"
  shows "sint (mlkem_poly_add a b ! i) = sint (a ! i) + sint (b ! i)"
  using assms poly_bounded_nth [OF assms(1,4)] poly_bounded_nth [OF assms(2,4)]
  by (simp add: mlkem_poly_add_def sint_store_add)

lemma mlkem_poly_sub_nth:
  assumes "poly_bounded A a" "poly_bounded B b" "A + B < 32768" "i < 256"
  shows "sint (mlkem_poly_sub a b ! i) = sint (a ! i) - sint (b ! i)"
  using assms poly_bounded_nth [OF assms(1,4)] poly_bounded_nth [OF assms(2,4)]
  by (simp add: mlkem_poly_sub_def sint_store_diff)

lemma mlkem_poly_add_bounded:
  assumes "poly_bounded A a" "poly_bounded B b" "A + B < 32768"
  shows "poly_bounded (A + B) (mlkem_poly_add a b)"
proof (rule poly_boundedI)
  show "\<bar>sint (mlkem_poly_add a b ! i)\<bar> \<le> A + B" if "i < 256" for i
    unfolding mlkem_poly_add_nth [OF assms that]
    using poly_bounded_nth [OF assms(1) that] poly_bounded_nth [OF assms(2) that] by linarith
qed simp

lemma mlkem_poly_sub_bounded:
  assumes "poly_bounded A a" "poly_bounded B b" "A + B < 32768"
  shows "poly_bounded (A + B) (mlkem_poly_sub a b)"
proof (rule poly_boundedI)
  show "\<bar>sint (mlkem_poly_sub a b ! i)\<bar> \<le> A + B" if "i < 256" for i
    unfolding mlkem_poly_sub_nth [OF assms that]
    using poly_bounded_nth [OF assms(1) that] poly_bounded_nth [OF assms(2) that] by linarith
qed simp

lemma mlkem_poly_reduce_bounded: "length r = 256 \<Longrightarrow> poly_bounded 1664 (mlkem_poly_reduce r)"
  using barrett_reduce_centred by (auto simp: mlkem_poly_reduce_eq poly_bounded_def)

lemma mlkem_poly_reduce_modeq:
  "length r = 256 \<Longrightarrow> i < 256 \<Longrightarrow> modeq 3329 (sint (mlkem_poly_reduce r ! i)) (sint (r ! i))"
  by (simp add: mlkem_poly_reduce_eq barrett_reduce_modeq)

lemma kem_rep_modeq:
  assumes "kem_rep B c f r" "poly_bounded B' s" "\<And>i. i < 256 \<Longrightarrow> modeq 3329 (sint (s ! i)) (sint (r ! i))"
  shows "kem_rep B' c f s"
  using assms layer_rep_cong [of 3329 kem_root 8 c f 7 "\<lambda>i. sint (r ! i)" "\<lambda>i. sint (s ! i)"]
  by (simp add: kem_rep_def)

lemma kem_rep_add:
  assumes "kem_rep A c f a" "kem_rep B c g b" "A + B < 32768"
  shows "kem_rep (A + B) c (\<lambda>i. f i + g i) (mlkem_poly_add a b)"
proof -
  have ab: "poly_bounded A a" "poly_bounded B b" using assms by (simp_all add: kem_rep_def)
  have "layer_rep 3329 kem_root 8 c (\<lambda>i. f i + g i) 7 (\<lambda>i. sint (a ! i) + sint (b ! i))"
    using assms by (intro layer_rep_add) (simp_all add: kem_rep_def)
  then have "layer_rep 3329 kem_root 8 c (\<lambda>i. f i + g i) 7 (\<lambda>i. sint (mlkem_poly_add a b ! i))"
    by (rule layer_rep_cong) (simp_all add: mlkem_poly_add_nth [OF ab assms(3)])
  then show ?thesis using mlkem_poly_add_bounded [OF ab assms(3)] by (simp add: kem_rep_def)
qed

lemma kem_rep_reduce: "kem_rep B c f r \<Longrightarrow> kem_rep 1664 c f (mlkem_poly_reduce r)"
  by (rule kem_rep_modeq, assumption) (auto simp: kem_rep_def poly_bounded_def mlkem_poly_reduce_modeq
      intro!: mlkem_poly_reduce_bounded [unfolded poly_bounded_def, THEN conjunct2, rule_format]
        mlkem_poly_reduce_bounded [unfolded poly_bounded_def, THEN conjunct1])

lemma kem_rep_basemul:
  assumes "kem_rep 4095 1 f a" "kem_rep 4095 1 g b"
  shows "kem_rep 6656 169 (negacyclic 256 f g) (poly_basemul_montgomery a b)"
  using assms poly_basemul_rep [of a f b g] poly_basemul_bound [of a b]
  by (auto simp: kem_rep_def poly_bounded_def)

lemma poly_tomont_nth:
  assumes "length r = 256" "i < 256"
  shows "poly_tomont r ! i = mlkem_montgomery_reduce (sext32 (r ! i) * sext32 (1353 :: i16))"
proof -
  have f: "(zext16 (push_bit 32 (1 :: u64) mod 3329) :: i16) = 1353" by simp
  show ?thesis using fold_upt_map [of "\<lambda>x. mlkem_montgomery_reduce (sext32 x * sext32 (1353 :: i16))" r] assms
    by (simp add: poly_tomont_def f)
qed

lemma kem_rep_tomont:
  assumes "kem_rep B c f r"
  shows "kem_rep 3328 (65536 * c) f (poly_tomont r)"
proof -
  have l: "length r = 256" using assms by (simp add: kem_rep_def poly_bounded_def)
  have lt: "length (poly_tomont r) = 256"
    using fold_upt_map [of "\<lambda>x. mlkem_montgomery_reduce (sext32 x * sext32 (zext16 (push_bit 32 (1 :: u64) mod 3329) :: i16))" r] l
    by (simp add: poly_tomont_def)
  have v: "poly_tomont r ! i = fqmul (r ! i) 1353" if "i < 256" for i
    by (simp add: poly_tomont_nth l that fqmul_def)
  have ok: "\<bar>sint (r ! i) * sint (1353 :: i16)\<bar> < 32768 * 3329" for i
    using fqmul_small_ok [of 1353 "r ! i"] by (simp add: mult.commute)
  have L: "layer_rep 3329 kem_root 8 (65536 * c) f 7 (\<lambda>i. 65536 * sint (r ! i))"
    using assms by (intro layer_rep_scale) (simp add: kem_rep_def)
  have M: "modeq 3329 (sint (poly_tomont r ! i)) (65536 * sint (r ! i))" if "i < 256" for i
  proof -
    have "modeq 3329 (sint (poly_tomont r ! i)) (169 * (sint (r ! i) * 1353))"
      using fqmul_modeq_inv [OF ok [of i]] v [OF that] by simp
    also have "modeq 3329 \<dots> (65536 * sint (r ! i))"
      by (rule modeqI [where k = "sint (r ! i) * 49"]) simp
    finally show ?thesis .
  qed
  have "layer_rep 3329 kem_root 8 (65536 * c) f 7 (\<lambda>i. sint (poly_tomont r ! i))"
    by (rule layer_rep_cong [OF L]) (use M in simp_all)
  moreover have "poly_bounded 3328 (poly_tomont r)"
  proof (rule poly_boundedI [OF lt])
    show "\<bar>sint (poly_tomont r ! i)\<bar> \<le> 3328" if "i < 256" for i
      using fqmul_bound [OF ok [of i]] v [OF that] by simp
  qed
  ultimately show ?thesis by (simp add: kem_rep_def)
qed

text \<open>The inner product of two transformed vectors.\<close>

lemma polyvec_basemul_acc_rep:
  assumes "\<And>j. j < par_k par \<Longrightarrow> kem_rep 4095 1 (f j) (a ! j)"
    and "\<And>j. j < par_k par \<Longrightarrow> kem_rep 4095 1 (g j) (b ! j)"
    and k: "1 \<le> par_k par" "par_k par \<le> 4"
  shows "kem_rep 1664 169 (\<lambda>i. \<Sum>j<par_k par. negacyclic 256 (f j) (g j) i) (polyvec_basemul_acc_montgomery par a b)"
proof -
  let ?step = "\<lambda>i r. mlkem_poly_add r (poly_basemul_montgomery (a ! i) (b ! i))"
  let ?r0 = "poly_basemul_montgomery (a ! 0) (b ! 0)"
  have "kem_rep (6656 * int n) 169 (\<lambda>i. \<Sum>j<n. negacyclic 256 (f j) (g j) i) (fold ?step [1..<n] ?r0)"
    if "1 \<le> n" "n \<le> par_k par" for n
    using that
  proof (induction n rule: dec_induct)
    case base
    then show ?case using kem_rep_basemul [OF assms(1,2), of 0 0] by simp
  next
    case (step n)
    then have "kem_rep (6656 * int n + 6656) 169
        (\<lambda>i. (\<Sum>j<n. negacyclic 256 (f j) (g j) i) + negacyclic 256 (f n) (g n) i)
        (mlkem_poly_add (fold ?step [1..<n] ?r0) (poly_basemul_montgomery (a ! n) (b ! n)))"
      using k by (intro kem_rep_add kem_rep_basemul assms) simp_all
    then show ?case using step.hyps by (simp add: algebra_simps)
  qed
  from this [OF k(1) order_refl] show ?thesis
    unfolding polyvec_basemul_acc_montgomery_def Let_def by (rule kem_rep_reduce)
qed

section \<open>Properties\<close>

text \<open>C36: \<open>polyvec_compress\<close> writes the standard's rounding of every coefficient (the multiplications by
  \<open>645084\<close> and \<open>1290167\<close> are exact for every residue), decompressing loses at most \<open>2\<close> (\<open>du = 10\<close>) or
  \<open>1\<close> (\<open>du = 11\<close>), and a ciphertext vector that is decompressed and compressed again is unchanged.\<close>

theorem polyvec_compress_correct:
  assumes "pvec_ok par (\<lambda>x. \<bar>sint x\<bar> < 3329) a" "par_du par \<in> {10, 11}"
    and "length bs = par_k par * (32 * par_du par)" "i < par_k par" "j < 256"
  shows "int (field (par_du par) (polyvec_compress par a) (256 * i + j)) = compress_spec (par_du par) (sint (a ! i ! j)) \<and>
    \<bar>centred 3329 (sint (polyvec_decompress par (polyvec_compress par a) ! i ! j) - sint (a ! i ! j))\<bar>
      \<le> (if par_du par = 10 then 2 else 1) \<and>
    polyvec_compress par (polyvec_decompress par bs) = bs"
proof -
  have "sint (polyvec_decompress par (polyvec_compress par a) ! i ! j) =
      decompress_spec (par_du par) (compress_spec (par_du par) (sint (a ! i ! j)))"
    using assms by (simp add: polyvec_decompress_field polyvec_compress_field length_polyvec_compress)
  then show ?thesis
    using assms compress_spec_error [of "par_du par" "sint (a ! i ! j)"]
    by (auto simp: polyvec_compress_field polyvec_compress_decompress)
qed

theorem polyvec_compress_correct_witness:
  "int (field 11 (polyvec_compress mlkem_1024 (replicate 4 (replicate 256 (- 1)))) (256 * 3 + 200)) = 2047 \<and>
   polyvec_compress mlkem_1024 (polyvec_decompress mlkem_1024 (replicate 1408 77)) = replicate 1408 77"
  using polyvec_compress_correct [of mlkem_1024 "replicate 4 (replicate 256 (- 1))" "replicate 1408 77" 3 200]
  by (simp add: mlkem_1024_def pvec_ok_def compress_spec_def)

text \<open>The inner product of two vectors, computed between the transforms with one reduction at the
  end, is the inner product in \<open>Z_q[X]/(X^256 + 1)\<close>; no 16-bit accumulator wraps for a rank up to four.\<close>

theorem polyvec_inner_product:
  assumes "pvec_ok par (\<lambda>x. \<bar>sint x\<bar> \<le> 9471) a" "pvec_ok par (\<lambda>x. \<bar>sint x\<bar> \<le> 9471) b"
    and "1 \<le> par_k par" "par_k par \<le> 4" "i < 256"
  shows "modeq 3329
    (sint (mlkem_poly_invntt_tomont (polyvec_basemul_acc_montgomery par (polyvec_ntt par a) (polyvec_ntt par b)) ! i))
    (\<Sum>j<par_k par. negacyclic 256 (\<lambda>m. sint (a ! j ! m)) (\<lambda>m. sint (b ! j ! m)) i)"
proof -
  have rep: "kem_rep 4095 1 (\<lambda>m. sint (c ! j ! m)) (polyvec_ntt par c ! j)"
    if "pvec_ok par (\<lambda>x. \<bar>sint x\<bar> \<le> 9471) c" "j < par_k par" for c j
  proof -
    have "poly_bounded 9471 (c ! j)" using pvec_ok_nth [OF that] by (simp add: poly_bounded_def)
    then have "kem_rep 1664 1 (\<lambda>m. sint (c ! j ! m)) (mlkem_poly_ntt (c ! j))" by (rule kem_rep_ntt)
    then show ?thesis using that
      by (auto simp: kem_rep_def polyvec_ntt_eq pvec_ok_def elim: poly_bounded_mono)
  qed
  have P: "kem_rep 1664 169 (\<lambda>i. \<Sum>j<par_k par. negacyclic 256 (\<lambda>m. sint (a ! j ! m)) (\<lambda>m. sint (b ! j ! m)) i)
      (polyvec_basemul_acc_montgomery par (polyvec_ntt par a) (polyvec_ntt par b))"
    using assms by (intro polyvec_basemul_acc_rep rep)
  note kem_rep_invntt(2) [OF P _ assms(5)]
  also have "modeq 3329 (65536 * 169 * (\<Sum>j<par_k par. negacyclic 256 (\<lambda>m. sint (a ! j ! m)) (\<lambda>m. sint (b ! j ! m)) i))
      (1 * (\<Sum>j<par_k par. negacyclic 256 (\<lambda>m. sint (a ! j ! m)) (\<lambda>m. sint (b ! j ! m)) i))"
    by (intro modeq_mult modeq_refl) (simp add: modeq_def)
  finally show ?thesis by simp
qed

theorem polyvec_inner_product_witness:
  "modeq 3329
    (sint (mlkem_poly_invntt_tomont (polyvec_basemul_acc_montgomery mlkem_512
       (polyvec_ntt mlkem_512 (replicate 2 (replicate 256 2))) (polyvec_ntt mlkem_512 (replicate 2 (replicate 256 (- 3))))) ! 255))
    (\<Sum>j<2. negacyclic 256 (\<lambda>m. sint (replicate 2 (replicate 256 (2 :: i16)) ! j ! m))
      (\<lambda>m. sint (replicate 2 (replicate 256 (- 3 :: i16)) ! j ! m)) 255)"
  using polyvec_inner_product [of mlkem_512 "replicate 2 (replicate 256 2)" "replicate 2 (replicate 256 (- 3))" 255]
  by (simp add: mlkem_512_def pvec_ok_def)

end
