(* ===== verification/Kem_Sampling.thy ===== *)
theory Kem_Sampling
  imports Kem_Kpke Rej_Sampling Kem_Polyvec_Correct
begin

text \<open>
  The sampling of the matrix in \<open>mlkem_kpke.c\<close>: one pass of \<open>mlkem_rej_uniform\<close> keeps exactly the
  12-bit fields of its buffer below \<open>q\<close>, in order, and an entry is the first 256 of those of the byte
  stream; the call returns exactly when the stream has that many.
\<close>

definition kem_accept :: "bytes \<Rightarrow> poly" where
  "kem_accept buf = map of_nat (filter (\<lambda>x. x < 3329) (map (field 12 buf) [0..<2 * (length buf div 3)]))"

lemma rej_uniform_candidate:
  assumes "3 * t + 3 \<le> length buf"
  shows "(zext16 (shr (buf ! (3 * t + 0)) 0) OR shl (zext16 (buf ! (3 * t + 1))) 8) AND 0xFFF = (of_nat (field 12 buf (2 * t)) :: u16)"
    and "(zext16 (shr (buf ! (3 * t + 1)) 4) OR shl (zext16 (buf ! (3 * t + 2))) 4) AND 0xFFF = (of_nat (field 12 buf (2 * t + 1)) :: u16)"
proof -
  have f: "unat (poly_frombytes_triple (chunk 3 t buf) ! k) = field 12 buf (2 * t + k)" if "k < 2" for k
    using poly_frombytes_triple_field [OF that, of "chunk 3 t buf"] field_chunk [of 2 12 3 k t buf] that by simp
  have "poly_frombytes_triple (chunk 3 t buf) ! k = of_nat (field 12 buf (2 * t + k))" if "k < 2" for k
    using f [OF that] by (simp flip: f [OF that])
  from this [of 0] this [of 1] show
    "(zext16 (shr (buf ! (3 * t + 0)) 0) OR shl (zext16 (buf ! (3 * t + 1))) 8) AND 0xFFF = (of_nat (field 12 buf (2 * t)) :: u16)"
    "(zext16 (shr (buf ! (3 * t + 1)) 4) OR shl (zext16 (buf ! (3 * t + 2))) 4) AND 0xFFF = (of_nat (field 12 buf (2 * t + 1)) :: u16)"
    by (simp_all add: poly_frombytes_triple_def chunk_def upt_rec)
qed

lemma field12_less_q: "(of_nat (field 12 buf i) :: u16) < 3329 \<longleftrightarrow> field 12 buf i < 3329"
  using field_less [of 12 buf i] by (simp add: word_less_nat_alt unat_of_nat)

abbreviation (input) kem_place :: "bytes \<Rightarrow> nat \<Rightarrow> nat \<Rightarrow> nat \<Rightarrow> poly \<times> nat \<Rightarrow> poly \<times> nat" where
  "kem_place buf off len \<equiv> place (\<lambda>x. field 12 buf x < 3329) (\<lambda>x. of_nat (field 12 buf x)) off len"

lemma rej_uniform_loop_place:
  "mlkem_rej_uniform_loop r off len buf (length buf) ctr (3 * t) =
    fold (kem_place buf off len) [2 * t..<2 * (length buf div 3)] (r, ctr)"
proof (rule scan_fold)
  fix r ctr t
  have g: "3 * t + 3 \<le> length buf \<longleftrightarrow> t < length buf div 3" by linarith
  show "mlkem_rej_uniform_loop r off len buf (length buf) ctr (3 * t) =
      (if ctr < len \<and> t < length buf div 3
       then case fold (kem_place buf off len) [2 * t..<2 * Suc t] (r, ctr) of (r, ctr) \<Rightarrow>
         mlkem_rej_uniform_loop r off len buf (length buf) ctr (3 * Suc t)
       else (r, ctr))"
  proof (cases "ctr < len \<and> t < length buf div 3")
    case True
    then have "3 * t + 3 \<le> length buf" using g by simp
    note C = rej_uniform_candidate [OF this]
    have u: "[2 * t..<2 * Suc t] = [2 * t, Suc (2 * t)]" "3 * Suc t = 3 * t + 3" by (simp_all add: upt_conv_Cons)
    show ?thesis
      unfolding u using True g
      by (subst mlkem_rej_uniform_loop.simps)
        (cases "field 12 buf (2 * t) < 3329"; cases "field 12 buf (Suc (2 * t)) < 3329"; cases "Suc ctr < len";
         simp add: C [simplified] field12_less_q place_def)
  next
    case False
    then show ?thesis using g by (subst mlkem_rej_uniform_loop.simps) auto
  qed
qed

lemma mlkem_rej_uniform_eq:
  assumes "off + len \<le> length r"
  shows "mlkem_rej_uniform r off len buf (length buf) =
    (overwrite off (take len (kem_accept buf)) r, min len (length (kem_accept buf)))"
  using rej_uniform_loop_place [where t = 0 and r = r and off = off and len = len and buf = buf and ctr = 0] assms
  by (simp add: mlkem_rej_uniform_def fold_place kem_accept_def filter_map comp_def)

lemma kem_accept_append:
  assumes "length xs = n * 168"
  shows "kem_accept (xs @ ys) = kem_accept xs @ kem_accept ys"
proof -
  have l: "length xs div 3 = 56 * n" "length (xs @ ys) div 3 = 56 * n + length ys div 3" using assms by simp_all
  have "map (field 12 (xs @ ys)) [0..<2 * (56 * n) + 2 * (length ys div 3)] =
      map (field 12 xs) [0..<2 * (56 * n)] @ map (field 12 ys) [0..<2 * (length ys div 3)]"
    using assms by (intro map_field_append) simp
  then show ?thesis unfolding kem_accept_def l add_mult_distrib2 by (simp only: map_append filter_append)
qed

lemma length_squeezeblocks: "length (fst (shake128_squeezeblocks n st)) = n * 168"
  by (rule shake128.blocks_length)

lemma refill_body_eq:
  "(let (buf, state) = shake128_squeezeblocks 1 state; buflen = 168;
        (a, n) = mlkem_rej_uniform a ctr (256 - ctr) buf buflen in f a (ctr + n) state) =
   (let (buf, state) = shake128_squeezeblocks 1 state;
        (a, n) = mlkem_rej_uniform a ctr (256 - ctr) buf (length buf) in f a (ctr + n) state)"
proof -
  obtain buf st where e: "shake128_squeezeblocks 1 state = (buf, st)" by fastforce
  have "length buf = 168" using length_squeezeblocks [of 1 state] unfolding e by simp
  then show ?thesis unfolding e by simp
qed

interpretation kem_sampler: rej_sampler shake128_squeezeblocks 168 shake128_stream 256 kem_accept
  "\<lambda>a off len buf. mlkem_rej_uniform a off len buf (length buf)" gen_matrix_refill
proof
  show "kem_accept (xs @ ys) = kem_accept xs @ kem_accept ys" if "length xs = n * 168" for xs ys n
    using that by (rule kem_accept_append)
  show "mlkem_rej_uniform a off len buf (length buf) =
      (overwrite off (take len (kem_accept buf)) a, min len (length (kem_accept buf)))"
    if "off + len \<le> length a" "length buf = n * 168" for off len a buf n
    using that(1) by (rule mlkem_rej_uniform_eq)
  show "gen_matrix_refill a ctr st = (if ctr < 256
      then let (buf, st) = shake128_squeezeblocks 1 st; (a, n) = mlkem_rej_uniform a ctr (256 - ctr) buf (length buf)
        in gen_matrix_refill a (ctr + n) st
      else Some a)" for a ctr st
    unfolding refill_body_eq [symmetric] by (rule gen_matrix_refill.simps)
  fix P :: "poly \<Rightarrow> nat \<Rightarrow> keccak_state \<Rightarrow> poly \<Rightarrow> bool" and a ctr st r
  assume step: "\<And>f a ctr st r. (\<And>a ctr st r. f a ctr st = Some r \<Longrightarrow> P a ctr st r) \<Longrightarrow>
      (if ctr < 256
       then let (buf, st) = shake128_squeezeblocks 1 st; (a, n) = mlkem_rej_uniform a ctr (256 - ctr) buf (length buf)
         in f a (ctr + n) st
       else Some a) = Some r \<Longrightarrow> P a ctr st r"
    and r: "gen_matrix_refill a ctr st = Some r"
  show "P a ctr st r"
    by (rule gen_matrix_refill.raw_induct [OF step r]) (unfold refill_body_eq, assumption+)
qed

text \<open>The stream of an entry, and the entry it determines.\<close>

definition kem_entry_stream :: "bytes \<Rightarrow> nat \<Rightarrow> nat \<Rightarrow> nat \<Rightarrow> bytes" where
  "kem_entry_stream seed x y n = fst (shake128_squeezeblocks n (kyber_shake128_absorb seed (of_nat x) (of_nat y)))"

lemma gen_matrix_entry_iff:
  "gen_matrix_entry seed i j tr = Some r \<longleftrightarrow>
   (\<exists>n. 256 \<le> length (kem_accept (kem_entry_stream seed (if tr then i else j) (if tr then j else i) n)) \<and>
        r = take 256 (kem_accept (kem_entry_stream seed (if tr then i else j) (if tr then j else i) n)))"
proof -
  define st where "st = kyber_shake128_absorb seed (of_nat (if tr then i else j)) (of_nat (if tr then j else i))"
  have "gen_matrix_entry seed i j tr = kem_sampler.sample 3 st (replicate 256 0)"
  proof -
    have n: "(12 * 256 div 8 * 2 ^ 12 div 3329 + 168) div 168 = (3 :: nat)" by simp
    obtain buf st' where e: "shake128_squeezeblocks 3 st = (buf, st')" by fastforce
    have "length buf = 504" using length_squeezeblocks [of 3 st] unfolding e by simp
    moreover have "(if tr then kyber_shake128_absorb seed (of_nat i) (of_nat j) else kyber_shake128_absorb seed (of_nat j) (of_nat i)) = st"
      by (simp add: st_def)
    ultimately show ?thesis unfolding gen_matrix_entry_def kem_sampler.sample_def n Let_def by (simp add: e)
  qed
  then show ?thesis by (simp add: kem_sampler.sample_iff kem_sampler.accepted_def kem_entry_stream_def st_def)
qed

section \<open>Properties\<close>

text \<open>One pass of rejection sampling: from a buffer of any size, \<open>mlkem_rej_uniform\<close> writes the
  12-bit fields below \<open>q\<close> in their order, as many as there is room for, leaves the rest of the array
  alone and returns how many it wrote.\<close>

theorem mlkem_rej_uniform_correct:
  assumes "off + len \<le> length r"
  shows "mlkem_rej_uniform r off len buf (length buf) =
    (overwrite off (take len (kem_accept buf)) r, min len (length (kem_accept buf)))"
  using assms by (rule mlkem_rej_uniform_eq)

theorem mlkem_rej_uniform_correct_witness:
  "mlkem_rej_uniform [9, 9, 9, 9] 1 2 [0x01, 0x20, 0x03, 0xFF, 0x0F, 0xD0] 6 = ([9, 1, 50, 9], 2) \<and>
   mlkem_rej_uniform [9, 9, 9, 9] 0 4 [0x01, 0x20, 0x03, 0xFF, 0x0F, 0xD0] 6 = ([1, 50, 3328, 9], 3)"
proof -
  have "kem_accept [0x01, 0x20, 0x03, 0xFF, 0x0F, 0xD0] = [1, 50, 3328]" by code_simp
  then show ?thesis
    using mlkem_rej_uniform_correct [of 1 2 "[9, 9, 9, 9]" "[0x01, 0x20, 0x03, 0xFF, 0x0F, 0xD0]"]
      mlkem_rej_uniform_correct [of 0 4 "[9, 9, 9, 9]" "[0x01, 0x20, 0x03, 0xFF, 0x0F, 0xD0]"]
    by (simp add: overwrite_def numeral_eq_Suc)
qed

text \<open>C29: an entry of the matrix: the call returns exactly when some prefix of the SHAKE128 stream of the
  seed and the two indices holds 256 candidates below \<open>q\<close>, and then the entry is the first 256 of them,
  independent of how the stream was cut into blocks; transposing swaps the two indices.\<close>

theorem gen_matrix_entry_correct:
  "(gen_matrix_entry seed i j False = Some r) =
     (\<exists>n. 256 \<le> length (kem_accept (kem_entry_stream seed j i n)) \<and> r = take 256 (kem_accept (kem_entry_stream seed j i n))) \<and>
   gen_matrix_entry seed i j True = gen_matrix_entry seed j i False"
  using gen_matrix_entry_iff [of seed i j False r] by (simp add: gen_matrix_entry_def)

end
