(* ===== verification/Kem_Kpke_Correct.thy ===== *)
theory Kem_Kpke_Correct
  imports Kem_Sampling
begin

text \<open>
  Correctness of \<open>mlkem_kpke.c\<close>: the sampled matrix and vectors, the arithmetic of key generation,
  encryption and decryption as products in \<open>Z_q[X]/(X^256 + 1)\<close>, and the noise that separates a message
  from what its encryption decrypts to.
\<close>

section \<open>Sampled matrices and vectors\<close>

lemma gen_matrix_iff:
  "gen_matrix par seed tr = Some A \<longleftrightarrow> length A = par_k par \<and>
     (\<forall>i<par_k par. length (A ! i) = par_k par \<and> (\<forall>j<par_k par. gen_matrix_entry seed i j tr = Some (A ! i ! j)))"
  by (simp add: gen_matrix_def those_map_iff)

text \<open>The transposed matrix is the matrix transposed, and is generated whenever the matrix is.\<close>

definition transposed :: "mlkem_param \<Rightarrow> pvec list \<Rightarrow> pvec list" where
  "transposed par A = map (\<lambda>i. map (\<lambda>j. A ! j ! i) [0..<par_k par]) [0..<par_k par]"

lemma gen_matrix_entry_swap: "gen_matrix_entry seed i j True = gen_matrix_entry seed j i False"
  by (simp add: gen_matrix_entry_def)

lemma gen_matrix_transposed:
  "gen_matrix par seed True = map_option (transposed par) (gen_matrix par seed False)"
proof (cases "gen_matrix par seed False")
  case (Some A)
  then have "\<forall>i<par_k par. \<forall>j<par_k par. gen_matrix_entry seed i j False = Some (A ! i ! j)"
    by (simp add: gen_matrix_iff)
  then have "gen_matrix par seed True = Some (transposed par A)"
    by (simp add: gen_matrix_iff transposed_def gen_matrix_entry_swap)
  then show ?thesis using Some by simp
next
  case None
  have "gen_matrix par seed True = None"
  proof (rule ccontr)
    assume "gen_matrix par seed True \<noteq> None"
    then obtain A where "gen_matrix par seed True = Some A" by blast
    then have "gen_matrix par seed False = Some (transposed par A)"
      by (simp add: gen_matrix_iff transposed_def gen_matrix_entry_swap)
    then show False using None by simp
  qed
  then show ?thesis using None by simp
qed

lemma kem_accept_range: "x \<in> set (kem_accept buf) \<Longrightarrow> 0 \<le> sint x \<and> sint x < 3329"
  by (auto simp: kem_accept_def sint_eq_unat unat_of_nat)

lemma gen_matrix_entry_ok:
  assumes "gen_matrix_entry seed i j tr = Some a"
  shows "length a = 256" "\<And>x. x \<in> set a \<Longrightarrow> 0 \<le> sint x \<and> sint x < 3329"
proof -
  from assms obtain buf where "256 \<le> length (kem_accept buf)" "a = take 256 (kem_accept buf)"
    unfolding gen_matrix_entry_iff by blast
  then show "length a = 256" "\<And>x. x \<in> set a \<Longrightarrow> 0 \<le> sint x \<and> sint x < 3329"
    using kem_accept_range by (auto dest!: in_set_takeD)
qed

text \<open>A matrix as \<open>gen_matrix\<close> returns it.\<close>

definition matrix_ok :: "mlkem_param \<Rightarrow> pvec list \<Rightarrow> bool" where
  "matrix_ok par A \<longleftrightarrow> length A = par_k par \<and>
     (\<forall>i<par_k par. pvec_ok par (\<lambda>x. 0 \<le> sint x \<and> sint x < 3329) (A ! i))"

lemma gen_matrix_ok: "gen_matrix par seed tr = Some A \<Longrightarrow> matrix_ok par A"
  unfolding gen_matrix_iff matrix_ok_def pvec_ok_def
  by (auto simp: in_set_conv_nth dest: gen_matrix_entry_ok) (metis gen_matrix_entry_ok nth_mem)+

lemma getnoise_loop_eq:
  "getnoise_loop g par nonce = (map (\<lambda>i. g (nonce + of_nat i)) [0..<par_k par], nonce + of_nat (par_k par))"
proof -
  have "fold (\<lambda>i (v, nonce). (v @ [g nonce], nonce + 1)) [0..<n] ([], nonce) =
      (map (\<lambda>i. g (nonce + of_nat i)) [0..<n], nonce + of_nat n)" for n
    by (induction n) (simp_all add: add.assoc add.commute)
  then show ?thesis by (simp add: getnoise_loop_def)
qed

lemma poly_bounded_cbd:
  assumes "length p = 256" "\<And>k. k < 256 \<Longrightarrow> sint (p ! k) = cbd_spec eta b k"
  shows "poly_bounded (int eta) p"
  by (rule poly_boundedI [OF assms(1)]) (simp add: assms(2) cbd_spec_bound)

lemma poly_getnoise_eta1_bounded: "par_eta1 par \<in> {2, 3} \<Longrightarrow> poly_bounded 3 (poly_getnoise_eta1 par seed nonce)"
  by (rule poly_bounded_mono [OF poly_bounded_cbd [where eta = "par_eta1 par"
        and b = "byte_bit (kyber_shake256_prf (par_eta1 par * 64) seed nonce)"]])
    (auto simp: poly_getnoise_eta1_def Let_def poly_cbd_eta1_def cbd2_nth cbd3_nth)

lemma poly_getnoise_eta2_bounded: "poly_bounded 2 (poly_getnoise_eta2 seed nonce)"
  using poly_bounded_cbd [where eta = 2] by (auto simp: poly_getnoise_eta2_def Let_def poly_cbd_eta2_def cbd2_nth)

text \<open>A vector of short polynomials.\<close>

definition short_vec :: "mlkem_param \<Rightarrow> pvec \<Rightarrow> bool" where
  "short_vec par v \<longleftrightarrow> length v = par_k par \<and> (\<forall>p \<in> set v. poly_bounded 3 p)"

lemma short_vec_nth: "short_vec par v \<Longrightarrow> i < par_k par \<Longrightarrow> poly_bounded 3 (v ! i)"
  by (simp add: short_vec_def)

lemma getnoise_loop_short:
  assumes "\<And>n. poly_bounded 3 (g n)"
  shows "short_vec par (fst (getnoise_loop g par nonce))"
  using assms by (auto simp: getnoise_loop_eq short_vec_def)

section \<open>The arithmetic of the scheme\<close>

abbreviation (input) coeff_fun :: "poly \<Rightarrow> nat \<Rightarrow> int" where
  "coeff_fun p \<equiv> \<lambda>m. sint (p ! m)"

lemma pvec_ok_bounded: "pvec_ok par (\<lambda>x. \<bar>sint x\<bar> \<le> B) v \<Longrightarrow> i < par_k par \<Longrightarrow> poly_bounded B (v ! i)"
  using pvec_ok_nth [of par "\<lambda>x. \<bar>sint x\<bar> \<le> B" v i] by (simp add: poly_bounded_def)

lemma kem_rep_exists: "poly_bounded B r \<Longrightarrow> \<exists>f. kem_rep B 1 f r"
  using kem_tree.layer_rep_exists [of 7 "\<lambda>i. sint (r ! i)"] by (auto simp: kem_rep_def)

lemma kem_rep_mono: "kem_rep B c f r \<Longrightarrow> B \<le> B' \<Longrightarrow> kem_rep B' c f r"
  by (auto simp: kem_rep_def elim: poly_bounded_mono)

lemma kem_rep_factor: "modeq 3329 c c' \<Longrightarrow> kem_rep B c f r \<Longrightarrow> kem_rep B c' f r"
  by (auto simp: kem_rep_def elim: layer_rep_factor)

lemma kem_rep_ntt_nth:
  assumes "length v = par_k par" "poly_bounded 9471 (v ! i)" "i < par_k par"
  shows "kem_rep 1664 1 (coeff_fun (v ! i)) (polyvec_ntt par v ! i)"
  using kem_rep_ntt [OF assms(2)] assms by (simp add: polyvec_ntt_eq)

text \<open>
  What the arithmetic relies on: a matrix whose entry \<open>(i, j)\<close> is the transform of some polynomial
  \<open>F i j\<close> (every array is the transform of one), short vectors and an encoded message.
\<close>

definition kpke_setup ::
  "mlkem_param \<Rightarrow> pvec list \<Rightarrow> (nat \<Rightarrow> nat \<Rightarrow> nat \<Rightarrow> int) \<Rightarrow> pvec \<Rightarrow> pvec \<Rightarrow> pvec \<Rightarrow> pvec \<Rightarrow> poly \<Rightarrow> poly \<Rightarrow> bool" where
  "kpke_setup par A F s e y e1 e2 mu \<longleftrightarrow>
     1 \<le> par_k par \<and> par_k par \<le> 4 \<and>
     (\<forall>i<par_k par. \<forall>j<par_k par. kem_rep 4095 1 (F i j) (A ! i ! j)) \<and>
     short_vec par s \<and> short_vec par e \<and> short_vec par y \<and> short_vec par e1 \<and> poly_bounded 3 e2 \<and>
     poly_bounded 1665 mu"

lemma kpke_setupD:
  assumes "kpke_setup par A F s e y e1 e2 mu"
  shows "1 \<le> par_k par" "par_k par \<le> 4"
    and "i < par_k par \<Longrightarrow> j < par_k par \<Longrightarrow> kem_rep 4095 1 (F i j) (A ! i ! j)"
    and "short_vec par s" "short_vec par e" "short_vec par y" "short_vec par e1" "poly_bounded 3 e2" "poly_bounded 1665 mu"
  using assms by (auto simp: kpke_setup_def)

text \<open>The public vector \<open>t = A s + e\<close> as polynomials.\<close>

definition kpke_pub :: "mlkem_param \<Rightarrow> (nat \<Rightarrow> nat \<Rightarrow> nat \<Rightarrow> int) \<Rightarrow> pvec \<Rightarrow> pvec \<Rightarrow> nat \<Rightarrow> nat \<Rightarrow> int" where
  "kpke_pub par F s e i m = (\<Sum>j<par_k par. negacyclic 256 (F i j) (coeff_fun (s ! j)) m) + sint (e ! i ! m)"

lemma short_ntt:
  assumes "short_vec par v" "i < par_k par"
  shows "kem_rep 1664 1 (coeff_fun (v ! i)) (polyvec_ntt par v ! i)"
proof (rule kem_rep_ntt_nth)
  show "poly_bounded 9471 (v ! i)" using short_vec_nth [OF assms] by (rule poly_bounded_mono) simp
qed (use assms in \<open>simp_all add: short_vec_def\<close>)

lemma short_ntt_4095: "short_vec par v \<Longrightarrow> i < par_k par \<Longrightarrow> kem_rep 4095 1 (coeff_fun (v ! i)) (polyvec_ntt par v ! i)"
  by (rule kem_rep_mono [OF short_ntt]) simp_all

lemma length_ntt: "short_vec par v \<Longrightarrow> length (polyvec_ntt par v) = par_k par"
  by (simp add: short_vec_def polyvec_ntt_eq)

lemma kpke_dk_rep:
  "short_vec par s \<Longrightarrow> j < par_k par \<Longrightarrow> kem_rep 1664 1 (coeff_fun (s ! j)) (snd (kpke_keygen_arith par A s e) ! j)"
  by (simp add: kpke_keygen_arith_def Let_def short_ntt)

lemma length_kpke_keygen_arith:
  assumes "short_vec par s"
  shows "length (fst (kpke_keygen_arith par A s e)) = par_k par" "length (snd (kpke_keygen_arith par A s e)) = par_k par"
  using length_ntt [OF assms] by (simp_all add: kpke_keygen_arith_def Let_def polyvec_reduce_eq polyvec_add_def)

lemma kpke_ek_rep:
  assumes S: "kpke_setup par A F s e y e1 e2 mu" and i: "i < par_k par"
  shows "kem_rep 1664 1 (kpke_pub par F s e i) (fst (kpke_keygen_arith par A s e) ! i)"
proof -
  note D = kpke_setupD [OF S]
  let ?ip = "polyvec_basemul_acc_montgomery par (A ! i) (polyvec_ntt par s)"
  have "kem_rep 1664 169 (\<lambda>m. \<Sum>j<par_k par. negacyclic 256 (F i j) (coeff_fun (s ! j)) m) ?ip"
    using i by (intro polyvec_basemul_acc_rep short_ntt_4095 D)
  then have "kem_rep 3328 (65536 * 169) (\<lambda>m. \<Sum>j<par_k par. negacyclic 256 (F i j) (coeff_fun (s ! j)) m) (poly_tomont ?ip)"
    by (rule kem_rep_tomont)
  then have "kem_rep 3328 1 (\<lambda>m. \<Sum>j<par_k par. negacyclic 256 (F i j) (coeff_fun (s ! j)) m) (poly_tomont ?ip)"
    by (rule kem_rep_factor [rotated]) (simp add: modeq_def)
  then have "kem_rep (3328 + 1664) 1 (kpke_pub par F s e i) (mlkem_poly_add (poly_tomont ?ip) (polyvec_ntt par e ! i))"
    unfolding kpke_pub_def using short_ntt [OF D(5) i] by (intro kem_rep_add) simp_all
  then have "kem_rep 1664 1 (kpke_pub par F s e i) (mlkem_poly_reduce (mlkem_poly_add (poly_tomont ?ip) (polyvec_ntt par e ! i)))"
    by (rule kem_rep_reduce)
  then show ?thesis using i
    by (simp add: kpke_keygen_arith_def Let_def polyvec_reduce_eq polyvec_add_def)
qed

text \<open>Encryption under any representation \<open>ek'\<close> of the public vector, with the transposed matrix.\<close>

lemma length_kpke_encrypt_arith: "length (fst (kpke_encrypt_arith par at ek' y e1 e2 mu)) = par_k par"
  by (simp add: kpke_encrypt_arith_def Let_def polyvec_reduce_eq polyvec_add_def)

lemma kpke_u_coeff:
  fixes ek' :: pvec
  assumes S: "kpke_setup par A F s e y e1 e2 mu" and i: "i < par_k par"
  defines "u \<equiv> fst (kpke_encrypt_arith par (transposed par A) ek' y e1 e2 mu)"
  shows "poly_bounded 1664 (u ! i)"
    and "m < 256 \<Longrightarrow> modeq 3329 (sint (u ! i ! m))
      ((\<Sum>j<par_k par. negacyclic 256 (F j i) (coeff_fun (y ! j)) m) + sint (e1 ! i ! m))"
proof -
  note D = kpke_setupD [OF S]
  let ?ip = "polyvec_basemul_acc_montgomery par (transposed par A ! i) (polyvec_ntt par y)"
  let ?w = "mlkem_poly_invntt_tomont ?ip"
  have ip: "kem_rep 1664 169 (\<lambda>m. \<Sum>j<par_k par. negacyclic 256 (F j i) (coeff_fun (y ! j)) m) ?ip"
    using i by (intro polyvec_basemul_acc_rep short_ntt_4095 D) (simp_all add: transposed_def D)
  have u: "u ! i = mlkem_poly_reduce (mlkem_poly_add ?w (e1 ! i))"
    using i by (simp add: u_def kpke_encrypt_arith_def Let_def polyvec_reduce_eq polyvec_add_def polyvec_invntt_eq)
  have w: "poly_bounded 3328 ?w" using kem_rep_invntt(1) [OF ip] by simp
  show "poly_bounded 1664 (u ! i)" unfolding u by (rule mlkem_poly_reduce_bounded) simp
  assume m: "m < 256"
  have "modeq 3329 (sint (u ! i ! m)) (sint (mlkem_poly_add ?w (e1 ! i) ! m))"
    unfolding u using m by (intro mlkem_poly_reduce_modeq) simp_all
  also have "sint (mlkem_poly_add ?w (e1 ! i) ! m) = sint (?w ! m) + sint (e1 ! i ! m)"
    by (rule mlkem_poly_add_nth [OF w short_vec_nth [OF D(7) i] _ m]) simp
  also have "modeq 3329 \<dots> ((\<Sum>j<par_k par. negacyclic 256 (F j i) (coeff_fun (y ! j)) m) + sint (e1 ! i ! m))"
  proof (intro modeq_add modeq_refl)
    have "modeq 3329 (sint (?w ! m)) (65536 * 169 * (\<Sum>j<par_k par. negacyclic 256 (F j i) (coeff_fun (y ! j)) m))"
      by (rule kem_rep_invntt(2) [OF ip _ m]) simp
    also have "modeq 3329 \<dots> (1 * (\<Sum>j<par_k par. negacyclic 256 (F j i) (coeff_fun (y ! j)) m))"
      by (intro modeq_mult modeq_refl) (simp add: modeq_def)
    finally show "modeq 3329 (sint (?w ! m)) (\<Sum>j<par_k par. negacyclic 256 (F j i) (coeff_fun (y ! j)) m)" by simp
  qed
  finally show "modeq 3329 (sint (u ! i ! m)) ((\<Sum>j<par_k par. negacyclic 256 (F j i) (coeff_fun (y ! j)) m) + sint (e1 ! i ! m))" .
qed

lemma kpke_v_coeff:
  assumes S: "kpke_setup par A F s e y e1 e2 mu"
    and ek': "\<And>i. i < par_k par \<Longrightarrow> kem_rep 4095 1 (kpke_pub par F s e i) (ek' ! i)"
  defines "v \<equiv> snd (kpke_encrypt_arith par (transposed par A) ek' y e1 e2 mu)"
  shows "poly_bounded 1664 v"
    and "m < 256 \<Longrightarrow> modeq 3329 (sint (v ! m))
      ((\<Sum>i<par_k par. negacyclic 256 (kpke_pub par F s e i) (coeff_fun (y ! i)) m) + sint (e2 ! m) + sint (mu ! m))"
proof -
  note D = kpke_setupD [OF S]
  let ?ip = "polyvec_basemul_acc_montgomery par ek' (polyvec_ntt par y)"
  let ?w = "mlkem_poly_invntt_tomont ?ip"
  have ip: "kem_rep 1664 169 (\<lambda>m. \<Sum>i<par_k par. negacyclic 256 (kpke_pub par F s e i) (coeff_fun (y ! i)) m) ?ip"
    by (intro polyvec_basemul_acc_rep short_ntt_4095 D ek')
  have v: "v = mlkem_poly_reduce (mlkem_poly_add (mlkem_poly_add ?w e2) mu)"
    by (simp add: v_def kpke_encrypt_arith_def Let_def)
  show "poly_bounded 1664 v" unfolding v by (rule mlkem_poly_reduce_bounded) simp
  assume m: "m < 256"
  have w: "poly_bounded 3328 ?w" using kem_rep_invntt(1) [OF ip] by simp
  have w2: "poly_bounded (3328 + 3) (mlkem_poly_add ?w e2)"
    by (rule mlkem_poly_add_bounded [OF w D(8)]) simp
  have "modeq 3329 (sint (v ! m)) (sint (mlkem_poly_add (mlkem_poly_add ?w e2) mu ! m))"
    unfolding v using m by (intro mlkem_poly_reduce_modeq) simp_all
  also have "\<dots> = sint (?w ! m) + sint (e2 ! m) + sint (mu ! m)"
    using mlkem_poly_add_nth [OF w2 D(9) _ m] mlkem_poly_add_nth [OF w D(8) _ m] by simp
  also have "modeq 3329 \<dots> ((\<Sum>i<par_k par. negacyclic 256 (kpke_pub par F s e i) (coeff_fun (y ! i)) m) + sint (e2 ! m) + sint (mu ! m))"
  proof (intro modeq_add modeq_refl)
    have "modeq 3329 (sint (?w ! m)) (65536 * 169 * (\<Sum>i<par_k par. negacyclic 256 (kpke_pub par F s e i) (coeff_fun (y ! i)) m))"
      by (rule kem_rep_invntt(2) [OF ip _ m]) simp
    also have "modeq 3329 \<dots> (1 * (\<Sum>i<par_k par. negacyclic 256 (kpke_pub par F s e i) (coeff_fun (y ! i)) m))"
      by (intro modeq_mult modeq_refl) (simp add: modeq_def)
    finally show "modeq 3329 (sint (?w ! m)) (\<Sum>i<par_k par. negacyclic 256 (kpke_pub par F s e i) (coeff_fun (y ! i)) m)" by simp
  qed
  finally show "modeq 3329 (sint (v ! m))
      ((\<Sum>i<par_k par. negacyclic 256 (kpke_pub par F s e i) (coeff_fun (y ! i)) m) + sint (e2 ! m) + sint (mu ! m))" .
qed

text \<open>The two products with the matrix cancel: what is left is the noise.\<close>

lemma kpke_cross_terms:
  assumes "m < 256"
  shows "(\<Sum>i<par_k par. negacyclic 256 (\<lambda>m. \<Sum>j<par_k par. negacyclic 256 (F i j) (coeff_fun (s ! j)) m) (coeff_fun (y ! i)) m) =
    (\<Sum>j<par_k par. negacyclic 256 (coeff_fun (s ! j)) (\<lambda>m. \<Sum>i<par_k par. negacyclic 256 (F i j) (coeff_fun (y ! i)) m) m)"
proof -
  have "(\<Sum>i<par_k par. negacyclic 256 (\<lambda>m. \<Sum>j<par_k par. negacyclic 256 (F i j) (coeff_fun (s ! j)) m) (coeff_fun (y ! i)) m) =
      (\<Sum>i<par_k par. \<Sum>j<par_k par. negacyclic 256 (negacyclic 256 (F i j) (coeff_fun (s ! j))) (coeff_fun (y ! i)) m)"
    by (simp only: negacyclic_sum_left)
  also have "\<dots> = (\<Sum>i<par_k par. \<Sum>j<par_k par. negacyclic 256 (coeff_fun (s ! j)) (negacyclic 256 (F i j) (coeff_fun (y ! i))) m)"
    by (simp only: negacyclic_commute [of 256 "F _ _" "coeff_fun (s ! _)"] negacyclic_assoc [OF assms])
  also have "\<dots> = (\<Sum>j<par_k par. \<Sum>i<par_k par. negacyclic 256 (coeff_fun (s ! j)) (negacyclic 256 (F i j) (coeff_fun (y ! i))) m)"
    by (rule sum.swap)
  finally show ?thesis by (simp only: negacyclic_sum_right)
qed

lemma kpke_decrypt_coeff:
  assumes S: "kpke_setup par A F s e y e1 e2 mu"
    and ek': "\<And>i. i < par_k par \<Longrightarrow> kem_rep 4095 1 (kpke_pub par F s e i) (ek' ! i)"
    and dk': "\<And>j. j < par_k par \<Longrightarrow> kem_rep 4095 1 (coeff_fun (s ! j)) (dk' ! j)"
    and u': "pvec_ok par (\<lambda>x. \<bar>sint x\<bar> \<le> 3328) u'" and v': "poly_bounded 3328 v'" and m: "m < 256"
  defines "u \<equiv> fst (kpke_encrypt_arith par (transposed par A) ek' y e1 e2 mu)"
    and "v \<equiv> snd (kpke_encrypt_arith par (transposed par A) ek' y e1 e2 mu)"
    and "mp \<equiv> mlkem_poly_reduce (mlkem_poly_sub v'
      (mlkem_poly_invntt_tomont (polyvec_basemul_acc_montgomery par dk' (polyvec_ntt par u'))))"
  shows "poly_bounded 1664 mp"
    and "modeq 3329 (sint (mp ! m)) (sint (mu ! m) +
      ((\<Sum>i<par_k par. negacyclic 256 (coeff_fun (e ! i)) (coeff_fun (y ! i)) m) + sint (e2 ! m) + (sint (v' ! m) - sint (v ! m))
       - (\<Sum>j<par_k par. negacyclic 256 (coeff_fun (s ! j))
            (\<lambda>n. sint (e1 ! j ! n) + (sint (u' ! j ! n) - sint (u ! j ! n))) m)))"
proof -
  note D = kpke_setupD [OF S]
  let ?ip = "polyvec_basemul_acc_montgomery par dk' (polyvec_ntt par u')"
  let ?w = "mlkem_poly_invntt_tomont ?ip"
  have lu: "length u' = par_k par" using u' by (simp add: pvec_ok_def)
  have un: "kem_rep 4095 1 (coeff_fun (u' ! j)) (polyvec_ntt par u' ! j)" if "j < par_k par" for j
    using pvec_ok_bounded [OF u' that] that lu
    by (intro kem_rep_mono [OF kem_rep_ntt_nth]) (auto elim: poly_bounded_mono)
  have ip: "kem_rep 1664 169 (\<lambda>m. \<Sum>j<par_k par. negacyclic 256 (coeff_fun (s ! j)) (coeff_fun (u' ! j)) m) ?ip"
    by (intro polyvec_basemul_acc_rep D dk' un)
  show "poly_bounded 1664 mp" unfolding mp_def by (rule mlkem_poly_reduce_bounded) simp
  have w: "poly_bounded 3328 ?w" using kem_rep_invntt(1) [OF ip] by simp
  have W: "modeq 3329 (sint (?w ! m)) (\<Sum>j<par_k par. negacyclic 256 (coeff_fun (s ! j)) (coeff_fun (u' ! j)) m)"
  proof -
    have "modeq 3329 (sint (?w ! m)) (65536 * 169 * (\<Sum>j<par_k par. negacyclic 256 (coeff_fun (s ! j)) (coeff_fun (u' ! j)) m))"
      by (rule kem_rep_invntt(2) [OF ip _ m]) simp
    also have "modeq 3329 \<dots> (1 * (\<Sum>j<par_k par. negacyclic 256 (coeff_fun (s ! j)) (coeff_fun (u' ! j)) m))"
      by (intro modeq_mult modeq_refl) (simp add: modeq_def)
    finally show ?thesis by simp
  qed
  define G where "G j n = (\<Sum>i<par_k par. negacyclic 256 (F i j) (coeff_fun (y ! i)) n)" for j n
  define d where "d = (\<lambda>j n. sint (e1 ! j ! n) + (sint (u' ! j ! n) - sint (u ! j ! n)))"
  have U: "modeq 3329 (sint (u' ! j ! n)) (G j n + d j n)" if "j < par_k par" "n < 256" for j n
    using modeq_add [OF kpke_u_coeff(2) [OF S that, of ek', folded u_def] modeq_refl [of 3329 "sint (u' ! j ! n) - sint (u ! j ! n)"]]
    by (simp add: G_def d_def add.assoc)
  have "modeq 3329 (sint (mp ! m)) (sint (mlkem_poly_sub v' ?w ! m))"
    unfolding mp_def using m by (intro mlkem_poly_reduce_modeq) simp_all
  also have "sint (mlkem_poly_sub v' ?w ! m) = (sint (v ! m) + (sint (v' ! m) - sint (v ! m))) - sint (?w ! m)"
    using mlkem_poly_sub_nth [OF v' w _ m] by simp
  also have "modeq 3329 \<dots> (((\<Sum>i<par_k par. negacyclic 256 (kpke_pub par F s e i) (coeff_fun (y ! i)) m) + sint (e2 ! m) + sint (mu ! m)
      + (sint (v' ! m) - sint (v ! m))) - (\<Sum>j<par_k par. negacyclic 256 (coeff_fun (s ! j)) (\<lambda>n. G j n + d j n) m))"
    by (intro modeq_diff modeq_add modeq_refl kpke_v_coeff(2) [OF S ek' m, folded v_def] modeq_trans [OF W] modeq_sum negacyclic_modeq U) auto
  also have "(\<Sum>i<par_k par. negacyclic 256 (kpke_pub par F s e i) (coeff_fun (y ! i)) m) =
      (\<Sum>j<par_k par. negacyclic 256 (coeff_fun (s ! j)) (G j) m) + (\<Sum>i<par_k par. negacyclic 256 (coeff_fun (e ! i)) (coeff_fun (y ! i)) m)"
    unfolding kpke_pub_def negacyclic_add_left sum.distrib kpke_cross_terms [OF m] G_def ..
  also have "(\<Sum>j<par_k par. negacyclic 256 (coeff_fun (s ! j)) (\<lambda>n. G j n + d j n) m) =
      (\<Sum>j<par_k par. negacyclic 256 (coeff_fun (s ! j)) (G j) m) + (\<Sum>j<par_k par. negacyclic 256 (coeff_fun (s ! j)) (d j) m)"
    by (simp add: negacyclic_add_right sum.distrib)
  finally have "modeq 3329 (sint (mp ! m)) (sint (mu ! m) +
      ((\<Sum>i<par_k par. negacyclic 256 (coeff_fun (e ! i)) (coeff_fun (y ! i)) m) + sint (e2 ! m) + (sint (v' ! m) - sint (v ! m))
       - (\<Sum>j<par_k par. negacyclic 256 (coeff_fun (s ! j)) (d j) m)))"
    by (simp add: algebra_simps)
  then show "modeq 3329 (sint (mp ! m)) (sint (mu ! m) +
      ((\<Sum>i<par_k par. negacyclic 256 (coeff_fun (e ! i)) (coeff_fun (y ! i)) m) + sint (e2 ! m) + (sint (v' ! m) - sint (v ! m))
       - (\<Sum>j<par_k par. negacyclic 256 (coeff_fun (s ! j))
            (\<lambda>n. sint (e1 ! j ! n) + (sint (u' ! j ! n) - sint (u ! j ! n))) m)))"
    unfolding d_def .
qed

section \<open>From bytes to bytes\<close>

lemma param_okD:
  assumes "mlkem_param_ok par"
  shows "1 \<le> par_k par" "par_k par \<le> 4" "par_eta1 par \<in> {2, 3}" "par_du par \<in> {10, 11}" "par_dv par \<in> {4, 5}"
    and "par_ek_sz par = par_k par * 384 + 32" "par_dk_sz par = par_k par * 384 + par_ek_sz par + 64"
    and "par_ct_sz par = par_k par * (32 * par_du par) + 32 * par_dv par"
  using assms by (auto simp: mlkem_param_ok_def algebra_simps)

lemma length_pack_ciphertext:
  assumes "mlkem_param_ok par"
  shows "length (pack_ciphertext par u v) = par_ct_sz par"
proof -
  note P = param_okD [OF assms]
  show ?thesis
    by (simp add: pack_ciphertext_def length_polyvec_compress [OF P(4)] length_poly_compress [OF P(5)] P(8))
qed

lemma polyvec_decompress_append:
  assumes "par_du par \<in> {10, 11}" "length xs = par_k par * (32 * par_du par)"
  shows "polyvec_decompress par (xs @ ys) = polyvec_decompress par xs"
proof (rule nth_equalityI)
  fix i
  assume "i < length (polyvec_decompress par (xs @ ys))"
  then have i: "i < par_k par" by simp
  show "polyvec_decompress par (xs @ ys) ! i = polyvec_decompress par xs ! i"
  proof (rule nth_equalityI)
    fix j
    assume "j < length (polyvec_decompress par (xs @ ys) ! i)"
    then have j: "j < 256" using i by simp
    have "Suc (256 * i + j) \<le> 256 * par_k par" using i j by linarith
    then have "par_du par * Suc (256 * i + j) \<le> par_du par * (256 * par_k par)" by (rule mult_le_mono2)
    also have "\<dots> = 8 * length xs" using assms(2) by simp
    finally have "field (par_du par) (xs @ ys) (256 * i + j) = field (par_du par) xs (256 * i + j)"
      by (rule field_append)
    then have "sint (polyvec_decompress par (xs @ ys) ! i ! j) = sint (polyvec_decompress par xs ! i ! j)"
      using assms i j by (simp add: polyvec_decompress_field)
    then show "polyvec_decompress par (xs @ ys) ! i ! j = polyvec_decompress par xs ! i ! j"
      by (rule signed_word_eqI)
  qed (use i in simp)
qed simp

lemma unpack_pack_ciphertext:
  assumes "mlkem_param_ok par"
  shows "unpack_ciphertext par (pack_ciphertext par u v) =
    (polyvec_decompress par (polyvec_compress par u), poly_decompress par (poly_compress par v))"
proof -
  note P = param_okD [OF assms]
  have l: "length (polyvec_compress par u) = par_k par * (32 * par_du par)" by (rule length_polyvec_compress [OF P(4)])
  have "par_k par * par_du par * (256 div 8) = length (polyvec_compress par u)" by (simp add: l)
  then show ?thesis
    by (simp add: unpack_ciphertext_def pack_ciphertext_def polyvec_decompress_append [OF P(4) l])
qed

text \<open>A transformed vector written as bytes and read back represents the same polynomials.\<close>

lemma kem_rep_frombytes_tobytes:
  assumes "length w = par_k par" "\<And>i. i < par_k par \<Longrightarrow> kem_rep 1664 1 (f i) (w ! i)" "i < par_k par"
  shows "kem_rep 4095 1 (f i) (polyvec_frombytes par (polyvec_tobytes par w @ ys) ! i)"
proof -
  have W: "pvec_ok par (\<lambda>x. \<bar>sint x\<bar> < 3329) w"
  proof (rule pvec_okI [OF assms(1)])
    fix i assume i: "i < par_k par"
    then have b: "poly_bounded 1664 (w ! i)" using assms(2) by (simp add: kem_rep_def)
    then show "length (w ! i) = 256" by (simp add: poly_bounded_def)
    show "\<bar>sint (w ! i ! j)\<bar> < 3329" if "j < 256" for j using poly_bounded_nth [OF b that] by simp
  qed
  have v: "sint (polyvec_frombytes par (polyvec_tobytes par w @ ys) ! i ! j) = sint (w ! i ! j) mod 3329" if "j < 256" for j
    using polyvec_frombytes_tobytes [OF W assms(3) that] .
  show ?thesis
  proof (rule kem_rep_modeq [OF assms(2) [OF assms(3)]])
    show "poly_bounded 4095 (polyvec_frombytes par (polyvec_tobytes par w @ ys) ! i)"
    proof (rule poly_boundedI)
      show "\<bar>sint (polyvec_frombytes par (polyvec_tobytes par w @ ys) ! i ! j)\<bar> \<le> 4095" if "j < 256" for j
        unfolding v [OF that] using pos_mod_bound [of 3329 "sint (w ! i ! j)"] by simp
    qed (use assms(3) in \<open>simp add: polyvec_frombytes_def\<close>)
  qed (simp add: v)
qed

text \<open>What decryption makes of a perturbed message: a bit is set when the residue is nearer to \<open>q / 2\<close>.\<close>

definition message_decode :: "(nat \<Rightarrow> int) \<Rightarrow> bytes" where
  "message_decode f = map (\<lambda>i. \<Sum>j<8. of_bool (833 \<le> \<bar>centred 3329 (f (8 * i + j))\<bar>) * 2 ^ j) [0..<32]"

lemma bit_sum_u8:
  assumes "n < 8"
  shows "bit (\<Sum>j<8. of_bool (P j) * 2 ^ j :: u8) n = P n"
proof -
  have "(\<Sum>j<8. of_bool (P j) * 2 ^ j :: u8) = horner_sum of_bool 2 (map P [0..<8])"
    by (simp add: horner_sum_eq_sum lessThan_atLeast0)
  then show ?thesis using assms by (simp add: bit_horner_sum_bit_word_iff)
qed

lemma message_decode_bit: "m < 256 \<Longrightarrow> byte_bit (message_decode f) m = (833 \<le> \<bar>centred 3329 (f m)\<bar>)"
  by (simp add: byte_bit_def message_decode_def bit_sum_u8 less_mult_imp_div_less del: sum_of_bool_mult_eq)

lemma poly_tomsg_decode:
  assumes "poly_bounded 1664 p" "\<And>m. m < 256 \<Longrightarrow> modeq 3329 (sint (p ! m)) (f m)"
  shows "poly_tomsg p = message_decode f"
proof (rule fields_inj [where w = 1 and N = 256])
  fix m :: nat
  assume m: "m < 256"
  have "centred 3329 (f m) = sint (p ! m)"
    using assms(2) [OF m] poly_bounded_nth [OF assms(1) m] by (intro centred_unique) (auto intro: modeq_sym)
  then have "byte_bit (poly_tomsg p) m = byte_bit (message_decode f) m"
    using assms(1) m by (simp add: poly_tomsg_bits poly_bounded_def message_decode_bit)
  then show "field 1 (poly_tomsg p) m = field 1 (message_decode f) m" by (simp add: field_def)
qed (simp_all add: message_decode_def)

text \<open>A message plus noise of fewer than \<open>832\<close> decodes to the message.\<close>

lemma message_decode_noise:
  assumes "length msg = 32" "\<And>m. m < 256 \<Longrightarrow> \<bar>centred 3329 (noise m)\<bar> \<le> 831"
  shows "message_decode (\<lambda>m. sint (poly_frommsg msg ! m) + noise m) = msg"
proof (rule fields_inj [where w = 1 and N = 256])
  fix m :: nat
  assume m: "m < 256"
  define c where "c = centred 3329 (noise m)"
  have c: "\<bar>c\<bar> \<le> 831" "modeq 3329 (noise m) c" using assms(2) [OF m] modeq_sym [OF centred_modeq] by (simp_all add: c_def)
  have "(833 \<le> \<bar>centred 3329 (sint (poly_frommsg msg ! m) + noise m)\<bar>) = byte_bit msg m"
  proof (cases "byte_bit msg m")
    case False
    then have "centred 3329 (sint (poly_frommsg msg ! m) + noise m) = c"
      using c m by (intro centred_unique) (simp_all add: poly_frommsg_nth)
    then show ?thesis using c False by simp
  next
    case True
    define d where "d = (if c < 0 then 1665 + c else c - 1664)"
    have "modeq 3329 (1665 + noise m) (1665 + c)" by (intro modeq_add modeq_refl c)
    moreover have "modeq 3329 (1665 + c) d" by (cases "c < 0") (auto simp: d_def intro: modeqI [where k = 1])
    ultimately have "modeq 3329 (1665 + noise m) d" by (rule modeq_trans)
    then have "centred 3329 (sint (poly_frommsg msg ! m) + noise m) = d"
      using c m True by (intro centred_unique) (auto simp: poly_frommsg_nth d_def)
    then show ?thesis using c True by (auto simp: d_def)
  qed
  then show "field 1 (message_decode (\<lambda>m. sint (poly_frommsg msg ! m) + noise m)) m = field 1 msg m"
    using m by (simp add: field_def message_decode_bit)
qed (use assms in \<open>simp_all add: message_decode_def\<close>)

text \<open>The noise of one encryption under one key.\<close>

definition kpke_noise :: "mlkem_param \<Rightarrow> pvec \<Rightarrow> pvec \<Rightarrow> pvec \<Rightarrow> pvec \<Rightarrow> poly \<Rightarrow> pvec \<Rightarrow> poly \<Rightarrow> nat \<Rightarrow> int" where
  "kpke_noise par s e y e1 e2 u v m =
     (\<Sum>i<par_k par. negacyclic 256 (coeff_fun (e ! i)) (coeff_fun (y ! i)) m) + sint (e2 ! m)
     + (sint (poly_decompress par (poly_compress par v) ! m) - sint (v ! m))
     - (\<Sum>j<par_k par. negacyclic 256 (coeff_fun (s ! j))
          (\<lambda>n. sint (e1 ! j ! n) + (sint (polyvec_decompress par (polyvec_compress par u) ! j ! n) - sint (u ! j ! n))) m)"

lemma kpke_decrypt_arith:
  assumes P: "mlkem_param_ok par" and A: "matrix_ok par A"
    and short: "short_vec par s" "short_vec par e" "short_vec par y" "short_vec par e1" "poly_bounded 3 e2"
    and k: "kpke_keygen_arith par A s e = (ekpv, dkpv)"
    and c: "kpke_encrypt_arith par (transposed par A) (polyvec_frombytes par (polyvec_tobytes par ekpv @ ys)) y e1 e2 (poly_frommsg msg) = (u, v)"
  shows "kpke_decrypt par (pack_dk par dkpv) (pack_ciphertext par u v) =
    message_decode (\<lambda>m. sint (poly_frommsg msg ! m) + kpke_noise par s e y e1 e2 u v m)"
proof -
  note Q = param_okD [OF P]
  have ij: "\<exists>f. kem_rep 4095 1 f (A ! i ! j)" if "i < par_k par" "j < par_k par" for i j
  proof (rule kem_rep_exists, rule poly_boundedI)
    from A that(1) have ok: "pvec_ok par (\<lambda>x. 0 \<le> sint x \<and> sint x < 3329) (A ! i)" by (simp add: matrix_ok_def)
    show "length (A ! i ! j) = 256" by (rule pvec_ok_nth(1) [OF ok that(2)])
    show "\<bar>sint (A ! i ! j ! m)\<bar> \<le> 4095" if "m < 256" for m
      using pvec_ok_nth(3) [OF ok \<open>j < par_k par\<close> that] by simp
  qed
  define F where "F i j = (SOME f. kem_rep 4095 1 f (A ! i ! j))" for i j
  have F: "kem_rep 4095 1 (F i j) (A ! i ! j)" if "i < par_k par" "j < par_k par" for i j
    unfolding F_def by (rule someI_ex [OF ij [OF that]])
  have mu: "poly_bounded 1665 (poly_frommsg msg)" by (rule poly_boundedI) (simp_all add: poly_frommsg_nth)
  have S: "kpke_setup par A F s e y e1 e2 (poly_frommsg msg)"
    using Q F short mu by (simp add: kpke_setup_def)
  define ek' where "ek' = polyvec_frombytes par (polyvec_tobytes par ekpv @ ys)"
  define dk' where "dk' = polyvec_frombytes par (polyvec_tobytes par dkpv)"
  have l: "length ekpv = par_k par" "length dkpv = par_k par"
    using length_kpke_keygen_arith [OF short(1), of A e] k by simp_all
  have ek': "kem_rep 4095 1 (kpke_pub par F s e i) (ek' ! i)" if "i < par_k par" for i
    unfolding ek'_def using kpke_ek_rep [OF S] k that l by (intro kem_rep_frombytes_tobytes) simp_all
  have dk': "kem_rep 4095 1 (coeff_fun (s ! j)) (dk' ! j)" if "j < par_k par" for j
    unfolding dk'_def using kem_rep_frombytes_tobytes [OF l(2), of "\<lambda>j. coeff_fun (s ! j)" j "[]"]
      kpke_dk_rep [OF short(1), of _ A e] k that by simp
  have uv: "u = fst (kpke_encrypt_arith par (transposed par A) ek' y e1 e2 (poly_frommsg msg))"
    "v = snd (kpke_encrypt_arith par (transposed par A) ek' y e1 e2 (poly_frommsg msg))"
    using c by (simp_all add: ek'_def)
  define u' v' where "u' = polyvec_decompress par (polyvec_compress par u)" and "v' = poly_decompress par (poly_compress par v)"
  have u': "pvec_ok par (\<lambda>x. \<bar>sint x\<bar> \<le> 3328) u'"
    unfolding u'_def
    by (rule pvec_ok_mono [OF polyvec_decompress_range [OF Q(4)]]) (auto simp: length_polyvec_compress [OF Q(4)])
  have v': "poly_bounded 3328 v'"
    unfolding poly_bounded_def v'_def using poly_decompress_range [OF Q(5)] by force
  let ?mp = "mlkem_poly_reduce (mlkem_poly_sub v'
      (mlkem_poly_invntt_tomont (polyvec_basemul_acc_montgomery par dk' (polyvec_ntt par u'))))"
  have D: "kpke_decrypt par (pack_dk par dkpv) (pack_ciphertext par u v) = poly_tomsg ?mp"
    by (simp add: kpke_decrypt_def unpack_pack_ciphertext [OF P] pack_dk_def unpack_dk_def Let_def u'_def v'_def dk'_def)
  show ?thesis unfolding D
  proof (rule poly_tomsg_decode)
    show "poly_bounded 1664 ?mp" by (rule mlkem_poly_reduce_bounded) simp
    fix m :: nat
    assume m: "m < 256"
    show "modeq 3329 (sint (?mp ! m)) (sint (poly_frommsg msg ! m) + kpke_noise par s e y e1 e2 u v m)"
      using kpke_decrypt_coeff(2) [OF S ek' dk' u' v' m]
      unfolding kpke_noise_def uv [symmetric] u'_def v'_def .
  qed
qed

section \<open>The whole scheme\<close>

definition kpke_seeds :: "mlkem_param \<Rightarrow> bytes \<Rightarrow> bytes \<times> bytes" where
  "kpke_seeds par d =
     (take 32 (sha3_512 (take 32 d @ [of_nat (par_k par)])), drop 32 (sha3_512 (take 32 d @ [of_nat (par_k par)])))"

text \<open>The short vectors a seed stands for, in the order of the nonces.\<close>

definition key_vectors :: "mlkem_param \<Rightarrow> bytes \<Rightarrow> pvec \<times> pvec" where
  "key_vectors par seed =
     (map (\<lambda>i. poly_getnoise_eta1 par seed (of_nat i)) [0..<par_k par],
      map (\<lambda>i. poly_getnoise_eta1 par seed (of_nat (par_k par + i))) [0..<par_k par])"

definition enc_vectors :: "mlkem_param \<Rightarrow> bytes \<Rightarrow> pvec \<times> pvec \<times> poly" where
  "enc_vectors par r =
     (map (\<lambda>i. poly_getnoise_eta1 par r (of_nat i)) [0..<par_k par],
      map (\<lambda>i. poly_getnoise_eta2 r (of_nat (par_k par + i))) [0..<par_k par],
      poly_getnoise_eta2 r (of_nat (2 * par_k par)))"

lemma key_vectors_short:
  assumes "mlkem_param_ok par" "key_vectors par seed = (s, e)"
  shows "short_vec par s" "short_vec par e"
  using assms(2) poly_getnoise_eta1_bounded [OF param_okD(3) [OF assms(1)]]
  by (auto simp: key_vectors_def short_vec_def)

lemma enc_vectors_short:
  assumes "mlkem_param_ok par" "enc_vectors par r = (y, e1, e2)"
  shows "short_vec par y" "short_vec par e1" "poly_bounded 3 e2"
  using assms(2) poly_getnoise_eta1_bounded [OF param_okD(3) [OF assms(1)]]
    poly_bounded_mono [OF poly_getnoise_eta2_bounded, of 3]
  by (auto simp: enc_vectors_def short_vec_def)

lemma kpke_keygen_eq:
  "kpke_keygen par d =
     map_option (\<lambda>A. let (s, e) = key_vectors par (snd (kpke_seeds par d));
                         (ekpv, dkpv) = kpke_keygen_arith par A s e
                     in (pack_ek par ekpv (fst (kpke_seeds par d)), pack_dk par dkpv))
       (gen_matrix par (fst (kpke_seeds par d)) False)"
  by (cases "gen_matrix par (fst (kpke_seeds par d)) False")
    (simp_all add: kpke_keygen_def kpke_seeds_def getnoise_loop_eq key_vectors_def Let_def split: prod.split)

lemma kpke_encrypt_eq:
  "kpke_encrypt par ek m r =
     map_option (\<lambda>at. let (y, e1, e2) = enc_vectors par r;
                          (u, v) = kpke_encrypt_arith par at (fst (unpack_ek par ek)) y e1 e2 (poly_frommsg m)
                      in pack_ciphertext par u v)
       (gen_matrix par (snd (unpack_ek par ek)) True)"
proof -
  have n: "of_nat (par_k par) + of_nat (par_k par) = (of_nat (2 * par_k par) :: u8)" by simp
  show ?thesis
    by (cases "gen_matrix par (snd (unpack_ek par ek)) True")
      (simp_all add: kpke_encrypt_def getnoise_loop_eq enc_vectors_def Let_def case_prod_beta n)
qed

lemma length_kpke_encrypt: "mlkem_param_ok par \<Longrightarrow> kpke_encrypt par ek m r = Some c \<Longrightarrow> length c = par_ct_sz par"
  by (auto simp: kpke_encrypt_eq Let_def length_pack_ciphertext case_prod_beta)

lemma length_kpke_keygen:
  assumes "kpke_keygen par d = Some (ek, dk)"
  shows "length ek = par_k par * 384 + 32" "length dk = par_k par * 384"
  using assms by (auto simp: kpke_keygen_eq Let_def pack_ek_def pack_dk_def kpke_seeds_def case_prod_beta)

text \<open>The perturbation a message suffers between encryption with coins \<open>r\<close> and decryption.\<close>

definition kpke_error :: "mlkem_param \<Rightarrow> pvec list \<Rightarrow> bytes \<Rightarrow> bytes \<Rightarrow> bytes \<Rightarrow> nat \<Rightarrow> int" where
  "kpke_error par A d msg r =
     (let (s, e) = key_vectors par (snd (kpke_seeds par d));
          (y, e1, e2) = enc_vectors par r;
          (ekpv, dkpv) = kpke_keygen_arith par A s e;
          (u, v) = kpke_encrypt_arith par (transposed par A)
            (polyvec_frombytes par (polyvec_tobytes par ekpv @ fst (kpke_seeds par d))) y e1 e2 (poly_frommsg msg)
      in kpke_noise par s e y e1 e2 u v)"

lemma kpke_decrypt_encrypt:
  assumes P: "mlkem_param_ok par" and k: "kpke_keygen par d = Some (ek, dk)" and c: "kpke_encrypt par ek msg r = Some c"
  obtains A where "gen_matrix par (fst (kpke_seeds par d)) False = Some A"
    "kpke_decrypt par dk c = message_decode (\<lambda>m. sint (poly_frommsg msg ! m) + kpke_error par A d msg r m)"
proof -
  obtain A where A: "gen_matrix par (fst (kpke_seeds par d)) False = Some A" using k by (auto simp: kpke_keygen_eq)
  obtain s e where se: "key_vectors par (snd (kpke_seeds par d)) = (s, e)" by fastforce
  obtain y e1 e2 where ye: "enc_vectors par r = (y, e1, e2)" by (cases "enc_vectors par r") auto
  obtain ekpv dkpv where kk: "kpke_keygen_arith par A s e = (ekpv, dkpv)" by fastforce
  have ek: "ek = polyvec_tobytes par ekpv @ fst (kpke_seeds par d)" and dk: "dk = pack_dk par dkpv"
    using k A se kk by (simp_all add: kpke_keygen_eq pack_ek_def kpke_seeds_def)
  have un: "unpack_ek par ek = (polyvec_frombytes par (polyvec_tobytes par ekpv @ fst (kpke_seeds par d)), fst (kpke_seeds par d))"
    by (simp add: unpack_ek_def ek kpke_seeds_def)
  obtain u v where uv: "kpke_encrypt_arith par (transposed par A)
      (polyvec_frombytes par (polyvec_tobytes par ekpv @ fst (kpke_seeds par d))) y e1 e2 (poly_frommsg msg) = (u, v)" by fastforce
  have cc: "c = pack_ciphertext par u v"
    using c A ye uv by (simp add: kpke_encrypt_eq un gen_matrix_transposed)
  have "kpke_decrypt par dk c = message_decode (\<lambda>m. sint (poly_frommsg msg ! m) + kpke_noise par s e y e1 e2 u v m)"
    unfolding dk cc using P gen_matrix_ok [OF A] key_vectors_short [OF P se] enc_vectors_short [OF P ye] kk uv
    by (intro kpke_decrypt_arith)
  then show thesis using that [OF A] by (simp add: kpke_error_def se ye kk uv)
qed

section \<open>Properties\<close>

lemma negacyclic_bound:
  assumes "m < N" "\<And>i. i < N \<Longrightarrow> \<bar>a i\<bar> \<le> A" "\<And>i. i < N \<Longrightarrow> \<bar>b i\<bar> \<le> B" "0 \<le> B"
  shows "\<bar>negacyclic N a b m\<bar> \<le> int N * (A * B)"
proof -
  have b: "\<bar>antiperiodic N b n\<bar> \<le> B" for n
    using assms(1) assms(3) [of "nat (n mod int N)"] by (auto simp: antiperiodic_def nat_less_iff)
  have "\<bar>negacyclic N a b m\<bar> \<le> (\<Sum>i<N. \<bar>a i * antiperiodic N b (int m - int i)\<bar>)"
    unfolding negacyclic_antiperiodic [OF assms(1)] by (rule sum_abs)
  also have "\<dots> \<le> (\<Sum>i<N. A * B)"
  proof (rule sum_mono)
    fix i
    assume "i \<in> {..<N}"
    then have "\<bar>a i\<bar> \<le> A" using assms(2) by simp
    then show "\<bar>a i * antiperiodic N b (int m - int i)\<bar> \<le> A * B"
      unfolding abs_mult using b assms(4) by (intro mult_mono) auto
  qed
  finally show ?thesis by simp
qed

lemma kpke_encrypt_arith_bounded: "poly_bounded 1664 (snd (kpke_encrypt_arith par at ek' y e1 e2 mu))"
  unfolding kpke_encrypt_arith_def Let_def by (simp add: mlkem_poly_reduce_bounded)

lemma poly_compress_error:
  assumes "poly_bounded 1664 v" "par_dv par \<in> {4, 5}" "m < 256"
  shows "\<bar>centred 3329 (sint (poly_decompress par (poly_compress par v) ! m) - sint (v ! m))\<bar> \<le> 104"
proof -
  have "length v = 256" "\<forall>x \<in> set v. \<bar>sint x\<bar> < 3329" using assms(1) by (auto simp: poly_bounded_def)
  then have "sint (poly_decompress par (poly_compress par v) ! m) =
      decompress_spec (par_dv par) (compress_spec (par_dv par) (sint (v ! m)))"
    using assms(2,3) by (simp add: poly_decompress_field poly_compress_field)
  then show ?thesis using assms(2) compress_spec_error [of "par_dv par" "sint (v ! m)"] by auto
qed

text \<open>C1: decryption inverts encryption: for a matrix as it is sampled, short secret, error and
  randomness vectors, keys that went through their byte encodings and a ciphertext that went through
  compression and packing, the message comes back whenever every coefficient of the noise
  \<open>e y + e2 + c_v - s (e1 + c_u)\<close> is at most \<open>831\<close> modulo \<open>q\<close>.\<close>

theorem kpke_decrypt_correct:
  assumes "mlkem_param_ok par" "matrix_ok par A" "short_vec par s" "short_vec par e" "short_vec par y"
    and "short_vec par e1" "poly_bounded 3 e2" "length msg = 32"
    and "kpke_keygen_arith par A s e = (ekpv, dkpv)"
    and "kpke_encrypt_arith par (transposed par A) (fst (unpack_ek par (pack_ek par ekpv seed))) y e1 e2 (poly_frommsg msg) = (u, v)"
    and "\<And>m. m < 256 \<Longrightarrow> \<bar>centred 3329 (kpke_noise par s e y e1 e2 u v m)\<bar> \<le> 831"
  shows "kpke_decrypt par (pack_dk par dkpv) (pack_ciphertext par u v) = msg"
  using kpke_decrypt_arith [OF assms(1-7,9), of "take 32 seed" msg u v] message_decode_noise [OF assms(8,11)] assms(10)
  by (simp add: unpack_ek_def pack_ek_def)

theorem kpke_decrypt_correct_witness:
  "(let A = replicate 2 (replicate 2 (replicate 256 3000)); z = replicate 2 (replicate 256 0); w = replicate 2 (replicate 256 1);
        (ekpv, dkpv) = kpke_keygen_arith mlkem_512 A z w;
        (u, v) = kpke_encrypt_arith mlkem_512 (transposed mlkem_512 A) (fst (unpack_ek mlkem_512 (pack_ek mlkem_512 ekpv (replicate 32 5))))
          w w (replicate 256 2) (poly_frommsg (replicate 32 170))
    in kpke_decrypt mlkem_512 (pack_dk mlkem_512 dkpv) (pack_ciphertext mlkem_512 u v)) = replicate 32 170"
proof -
  let ?A = "replicate 2 (replicate 2 (replicate 256 (3000 :: i16)))"
  let ?z = "replicate 2 (replicate 256 (0 :: i16))" and ?w = "replicate 2 (replicate 256 (1 :: i16))"
  obtain ekpv dkpv where k: "kpke_keygen_arith mlkem_512 ?A ?z ?w = (ekpv, dkpv)" by fastforce
  let ?at = "transposed mlkem_512 ?A" and ?ek = "fst (unpack_ek mlkem_512 (pack_ek mlkem_512 ekpv (replicate 32 5)))"
  obtain u v where c: "kpke_encrypt_arith mlkem_512 ?at ?ek ?w ?w (replicate 256 2) (poly_frommsg (replicate 32 170)) = (u, v)" by fastforce
  have P: "mlkem_param_ok mlkem_512" by (simp add: mlkem_par_ok mlkem_par_def)
  have K: "par_k mlkem_512 = 2" "par_dv mlkem_512 = 4" by (simp_all add: mlkem_512_def)
  have short: "short_vec mlkem_512 ?z" "short_vec mlkem_512 ?w" by (simp_all add: short_vec_def K replicate_bounded)
  have A: "matrix_ok mlkem_512 ?A" by (simp add: matrix_ok_def pvec_ok_def K)
  have noise: "\<bar>centred 3329 (kpke_noise mlkem_512 ?z ?w ?w ?w (replicate 256 2) u v m)\<bar> \<le> 831" if m: "m < 256" for m
  proof -
    define n where "n = negacyclic 256 (\<lambda>_. 1) (\<lambda>_. 1) m"
    have n: "\<bar>n\<bar> \<le> 256" using negacyclic_bound [OF m, of "\<lambda>_. 1" 1 "\<lambda>_. 1" 1] by (simp add: n_def)
    define cv where "cv = sint (poly_decompress mlkem_512 (poly_compress mlkem_512 v) ! m) - sint (v ! m)"
    have cv: "\<bar>centred 3329 cv\<bar> \<le> 104"
      unfolding cv_def using kpke_encrypt_arith_bounded [of mlkem_512 ?at ?ek ?w ?w "replicate 256 2" "poly_frommsg (replicate 32 170)"] c m K
      by (intro poly_compress_error) simp_all
    have b: "\<bar>2 * n + 2 + centred 3329 cv\<bar> \<le> 618" using n cv unfolding abs_le_iff by linarith
    have ey: "negacyclic 256 (\<lambda>n. sint (?w ! i ! n)) (\<lambda>n. sint (?w ! i ! n)) m = n" if "i < 2" for i
      unfolding n_def negacyclic_def using that by (intro sum.cong) simp_all
    have z: "negacyclic 256 (\<lambda>n. sint (?z ! i ! n)) f m = 0" if "i < 2" for i f
      unfolding negacyclic_def using that by (intro sum.neutral ballI) simp
    have "kpke_noise mlkem_512 ?z ?w ?w ?w (replicate 256 2) u v m = 2 * n + 2 + cv"
    proof -
      have "(\<Sum>i<2. negacyclic 256 (\<lambda>n. sint (?w ! i ! n)) (\<lambda>n. sint (?w ! i ! n)) m) = (\<Sum>i<(2 :: nat). n)"
        by (rule sum.cong [OF refl], rule ey) simp
      moreover have "(\<Sum>i<2. negacyclic 256 (\<lambda>n. sint (?z ! i ! n)) (f i) m) = (\<Sum>i<(2 :: nat). 0)" for f
        by (rule sum.cong [OF refl], rule z) simp
      ultimately show ?thesis using m unfolding kpke_noise_def K by (simp only:) (simp add: cv_def)
    qed
    moreover have "modeq 3329 (2 * n + 2 + cv) (2 * n + 2 + centred 3329 cv)"
      by (intro modeq_add modeq_refl modeq_sym [OF centred_modeq])
    ultimately have "centred 3329 (kpke_noise mlkem_512 ?z ?w ?w ?w (replicate 256 2) u v m) = 2 * n + 2 + centred 3329 cv"
    proof (intro centred_unique)
      have "2 * \<bar>2 * n + 2 + centred 3329 cv\<bar> \<le> 2 * 618" using b by (rule mult_left_mono) simp
      then show "2 * \<bar>2 * n + 2 + centred 3329 cv\<bar> < 3329" by (rule le_less_trans) simp
    qed simp_all
    then show ?thesis using b by simp
  qed
  have "kpke_decrypt mlkem_512 (pack_dk mlkem_512 dkpv) (pack_ciphertext mlkem_512 u v) = replicate 32 170"
    by (rule kpke_decrypt_correct [OF P A short(1) short(2) short(2) short(2) _ _ k c noise])
      (simp_all add: replicate_bounded)
  then show ?thesis using k c by simp
qed

text \<open>C6: the whole path from bytes to bytes, for every seed, message and coins of the three parameter
  sets: decrypting an encryption under a generated key returns the message perturbed by the explicit
  error of the sampled vectors, and the three functions return together exactly when the sampling of
  the matrix does.\<close>

theorem kpke_roundtrip:
  assumes "par \<in> set mlkem_par"
  shows "Option.bind (kpke_keygen par d) (\<lambda>(ek, dk). map_option (kpke_decrypt par dk) (kpke_encrypt par ek msg r)) =
    map_option (\<lambda>A. message_decode (\<lambda>m. sint (poly_frommsg msg ! m) + kpke_error par A d msg r m))
      (gen_matrix par (fst (kpke_seeds par d)) False)"
proof -
  have P: "mlkem_param_ok par" using assms by (rule mlkem_par_ok)
  show ?thesis
  proof (cases "kpke_keygen par d")
    case None
    then have "gen_matrix par (fst (kpke_seeds par d)) False = None" by (simp add: kpke_keygen_eq)
    then show ?thesis using None by simp
  next
    case (Some p)
    then obtain ek dk where k: "kpke_keygen par d = Some (ek, dk)" by (cases p) simp
    then obtain A where A: "gen_matrix par (fst (kpke_seeds par d)) False = Some A" by (auto simp: kpke_keygen_eq)
    have "snd (unpack_ek par ek) = fst (kpke_seeds par d)"
      using k by (auto simp: kpke_keygen_eq unpack_ek_def pack_ek_def kpke_seeds_def Let_def case_prod_beta)
    then obtain c where c: "kpke_encrypt par ek msg r = Some c"
      using A by (simp add: kpke_encrypt_eq gen_matrix_transposed)
    from kpke_decrypt_encrypt [OF P k c] A
    have "kpke_decrypt par dk c = message_decode (\<lambda>m. sint (poly_frommsg msg ! m) + kpke_error par A d msg r m)" by auto
    then show ?thesis by (simp add: k c A)
  qed
qed

theorem kpke_roundtrip_witness:
  "Option.bind (kpke_keygen mlkem_768 (replicate 32 1)) (\<lambda>(ek, dk).
      map_option (kpke_decrypt mlkem_768 dk) (kpke_encrypt mlkem_768 ek (replicate 32 2) (replicate 32 3))) =
    map_option (\<lambda>A. message_decode (\<lambda>m. sint (poly_frommsg (replicate 32 2) ! m)
        + kpke_error mlkem_768 A (replicate 32 1) (replicate 32 2) (replicate 32 3) m))
      (gen_matrix mlkem_768 (fst (kpke_seeds mlkem_768 (replicate 32 1))) False)"
  by (rule kpke_roundtrip) (simp add: mlkem_par_def)



end
