(* ===== verification/Kem_Mlkem_Correct.thy ===== *)
theory Kem_Mlkem_Correct
  imports Kem_Mlkem
begin

text \<open>
  Correctness of \<open>mlkem.c\<close>: the C functions implement the abstract transform on the byte layout of the
  keys, and the scheme of \<open>mlkem_kpke.c\<close> is an instance of the interface the transform relies on.
\<close>

section \<open>The C functions implement the transform\<close>

text \<open>The decapsulation key: the decryption key, the encapsulation key, its hash and the rejection seed.\<close>

definition dk_parts :: "mlkem_param \<Rightarrow> bytes \<Rightarrow> bytes \<times> bytes \<times> bytes \<times> bytes" where
  "dk_parts par dk =
     (take (par_k par * 384) dk, take (par_ek_sz par) (drop (par_k par * 384) dk),
      take 32 (drop (par_k par * 384 + par_ek_sz par) dk), drop (par_k par * 384 + par_ek_sz par + 32) dk)"

definition kem_G :: "bytes \<Rightarrow> bytes \<Rightarrow> bytes \<times> bytes" where
  "kem_G m h = (take 32 (sha3_512 (m @ h)), drop 32 (sha3_512 (m @ h)))"

definition kem_J :: "bytes \<Rightarrow> bytes \<Rightarrow> bytes" where
  "kem_J z c = shake256 32 (z @ c)"

lemma polyvec_frombytes_prefix:
  assumes "par_k par * 384 \<le> length xs"
  shows "polyvec_frombytes par (xs @ ys) = polyvec_frombytes par xs"
proof (rule nth_equalityI)
  fix i
  assume "i < length (polyvec_frombytes par (xs @ ys))"
  then have i: "i < par_k par" by simp
  show "polyvec_frombytes par (xs @ ys) ! i = polyvec_frombytes par xs ! i"
  proof (rule nth_equalityI)
    show "length (polyvec_frombytes par (xs @ ys) ! i) = length (polyvec_frombytes par xs ! i)"
      using i by (simp add: polyvec_frombytes_def)
    fix j
    assume "j < length (polyvec_frombytes par (xs @ ys) ! i)"
    then have j: "j < 256" using i by (simp add: polyvec_frombytes_def)
    have "Suc (256 * i + j) \<le> 256 * par_k par" using i j by linarith
    then have "field 12 (xs @ ys) (256 * i + j) = field 12 xs (256 * i + j)"
      using assms by (intro field_append) simp
    then have "sint (polyvec_frombytes par (xs @ ys) ! i ! j) = sint (polyvec_frombytes par xs ! i ! j)"
      using assms i j by (simp add: polyvec_frombytes_nth)
    then show "polyvec_frombytes par (xs @ ys) ! i ! j = polyvec_frombytes par xs ! i ! j" by (rule signed_word_eqI)
  qed
qed simp

lemma kpke_encrypt_prefix:
  assumes "mlkem_param_ok par" "par_ek_sz par \<le> length ek"
  shows "kpke_encrypt par ek m r = kpke_encrypt par (take (par_ek_sz par) ek) m r"
proof -
  note P = param_okD [OF assms(1)]
  have "polyvec_frombytes par (take (par_ek_sz par) ek @ drop (par_ek_sz par) ek) = polyvec_frombytes par (take (par_ek_sz par) ek)"
    using assms(2) P by (intro polyvec_frombytes_prefix) simp
  moreover have "take 32 (drop (par_k par * 384) ek) = take 32 (drop (par_k par * 384) (take (par_ek_sz par) ek))"
    by (simp add: P take_drop)
  ultimately have "unpack_ek par ek = unpack_ek par (take (par_ek_sz par) ek)" by (simp add: unpack_ek_def)
  then show ?thesis by (simp add: kpke_encrypt_def)
qed

lemma kpke_decrypt_prefix:
  assumes "par_k par * 384 \<le> length dk"
  shows "kpke_decrypt par dk c = kpke_decrypt par (take (par_k par * 384) dk) c"
  using polyvec_frombytes_prefix [of par "take (par_k par * 384) dk" "drop (par_k par * 384) dk"] assms
  by (simp add: kpke_decrypt_def unpack_dk_def)

lemma length_kpke_decrypt [simp]: "length (kpke_decrypt par dk c) = 32"
  by (simp add: kpke_decrypt_def Let_def split: prod.split)

lemma poly_frommsg_prefix:
  assumes "length m = 32"
  shows "poly_frommsg (m @ h) = poly_frommsg m"
proof (rule nth_equalityI)
  fix k
  assume "k < length (poly_frommsg (m @ h))"
  then have "k < 256" by simp
  then show "poly_frommsg (m @ h) ! k = poly_frommsg m ! k"
    using assms by (simp add: poly_frommsg_nth byte_bit_def nth_append less_mult_imp_div_less)
qed simp

lemma kpke_encrypt_message_prefix: "length m = 32 \<Longrightarrow> kpke_encrypt par ek (m @ h) r = kpke_encrypt par ek m r"
  by (simp add: kpke_encrypt_def poly_frommsg_prefix)

lemma mlkem_encaps_eq:
  assumes "mlkem_param_ok par" "length ek = par_ek_sz par" "length m = 32"
  shows "mlkem_encaps_internal par ek m = fo_encaps (kpke_encrypt par) sha3_256 kem_G ek m"
  using assms
  by (cases "kpke_encrypt par ek m (drop 32 (sha3_512 (m @ sha3_256 ek)))")
    (simp_all add: mlkem_encaps_internal_def fo_encaps_def kem_G_def Let_def kpke_encrypt_message_prefix)

lemma mlkem_decaps_eq:
  assumes P: "mlkem_param_ok par" and dk: "length dk = par_dk_sz par" and ct: "length ct = par_ct_sz par"
  shows "mlkem_decaps_internal par dk ct =
    fo_decaps (kpke_encrypt par) (kpke_decrypt par) kem_G kem_J (dk_parts par dk) ct"
proof -
  note Q = param_okD [OF P]
  define pk where "pk = take (par_ek_sz par) (drop (par_k par * 384) dk)"
  define m where "m = kpke_decrypt par dk ct"
  define h where "h = take 32 (drop (par_k par * 384 + par_ek_sz par) dk)"
  define z where "z = drop (par_k par * 384 + par_ek_sz par + 32) dk"
  have sz: "par_dk_sz par - 64 = par_k par * 384 + par_ek_sz par" "par_dk_sz par - 32 = par_k par * 384 + par_ek_sz par + 32"
    by (simp_all add: Q)
  have enc: "kpke_encrypt par (drop (par_k par * 384) dk) (m @ h) r = kpke_encrypt par pk m r" for r
    using kpke_encrypt_prefix [OF P, of "drop (par_k par * 384) dk"] dk Q
    by (simp add: kpke_encrypt_message_prefix m_def pk_def)
  have dec: "m = kpke_decrypt par (take (par_k par * 384) dk) ct"
    unfolding m_def using dk Q by (intro kpke_decrypt_prefix) simp
  have lz: "length z = 32" using dk Q by (simp add: z_def)
  have rk: "kyber_shake256_rkprf par z ct = kem_J z ct"
    using lz ct by (simp add: kyber_shake256_rkprf_eq kem_J_def)
  have sel: "cmov (kyber_shake256_rkprf par z ct) kr 32 (if verify ct c (par_ct_sz par) = 0 then 1 else 0) =
      (if ct = c then take 32 kr else kem_J z ct)" if "length c = par_ct_sz par" "length kr = 64" for c kr
    using that ct by (simp add: verify_iff cmov_1 cmov_0 rk kem_J_def)
  have "fo_decaps (kpke_encrypt par) (kpke_decrypt par) kem_G kem_J (dk_parts par dk) ct =
      map_option (\<lambda>c. if ct = c then take 32 (sha3_512 (m @ h)) else kem_J z ct)
        (kpke_encrypt par pk m (drop 32 (sha3_512 (m @ h))))"
    unfolding fo_decaps_def dk_parts_def Let_def prod.case dec [symmetric] pk_def [symmetric] h_def [symmetric]
      z_def [symmetric] kem_G_def fst_conv snd_conv ..
  also have "\<dots> = mlkem_decaps_internal par dk ct"
    using enc sel [OF length_kpke_encrypt [OF P], of pk m _ _ "sha3_512 (m @ h)"]
    by (cases "kpke_encrypt par pk m (drop 32 (sha3_512 (m @ h)))")
      (simp_all add: mlkem_decaps_internal_def Let_def sz flip: m_def h_def z_def)
  finally show ?thesis ..
qed

lemma mlkem_keygen_parts:
  assumes P: "mlkem_param_ok par" and z: "length z = 32" and k: "mlkem_keygen_internal par d z = Some (ek, dk)"
  shows "length ek = par_ek_sz par" "length dk = par_dk_sz par"
    and "\<exists>dkp. kpke_keygen par d = Some (ek, dkp) \<and> dk_parts par dk = (dkp, ek, sha3_256 ek, z)"
proof -
  note Q = param_okD [OF P]
  obtain dkp where kp: "kpke_keygen par d = Some (ek, dkp)"
    and dk: "dk = overwrite (par_dk_sz par - 32) (take 32 z) (overwrite (par_dk_sz par - 64) (sha3_256 (take (par_ek_sz par) ek))
      (overwrite (par_k par * 384) (take (par_ek_sz par) ek) (overwrite 0 dkp (replicate (par_dk_sz par) 0))))"
    using k by (auto simp: mlkem_keygen_internal_def Let_def split: Option.bind_splits)
  have l: "length ek = par_ek_sz par" "length dkp = par_k par * 384"
    using length_kpke_keygen [OF kp] Q by simp_all
  have "dk = dkp @ ek @ sha3_256 ek @ z"
  proof -
    have "par_dk_sz par - 64 = par_k par * 384 + par_ek_sz par" "par_dk_sz par - 32 = par_k par * 384 + par_ek_sz par + 32"
      by (simp_all add: Q)
    then show ?thesis using l z Q by (simp add: dk overwrite_def)
  qed
  then show "length ek = par_ek_sz par" "length dk = par_dk_sz par"
    "\<exists>dkp. kpke_keygen par d = Some (ek, dkp) \<and> dk_parts par dk = (dkp, ek, sha3_256 ek, z)"
    using l z kp Q by (simp_all add: dk_parts_def)
qed

text \<open>
  The scheme is good on generated keys and messages of 32 bytes whose error stays within the decoding
  radius.
\<close>

definition kpke_good :: "mlkem_param \<Rightarrow> bytes \<Rightarrow> bytes \<Rightarrow> bytes \<Rightarrow> bytes \<Rightarrow> bool" where
  "kpke_good par ek dk m r \<longleftrightarrow> mlkem_param_ok par \<and> length m = 32 \<and>
     (\<exists>d A. kpke_keygen par d = Some (ek, dk) \<and> gen_matrix par (fst (kpke_seeds par d)) False = Some A \<and>
        (\<forall>i<256. \<bar>centred 3329 (kpke_error par A d m r i)\<bar> \<le> 831))"

interpretation kpke: fo_scheme "kpke_encrypt par" "kpke_decrypt par" "kpke_good par" for par
proof
  fix ek dk m r c
  assume g: "kpke_good par ek dk m r" and c: "kpke_encrypt par ek m r = Some c"
  from g obtain d A where k: "mlkem_param_ok par" "length m = 32" "kpke_keygen par d = Some (ek, dk)"
    "gen_matrix par (fst (kpke_seeds par d)) False = Some A"
    and e: "\<forall>i<256. \<bar>centred 3329 (kpke_error par A d m r i)\<bar> \<le> 831" by (auto simp: kpke_good_def)
  obtain A' where A': "gen_matrix par (fst (kpke_seeds par d)) False = Some A'"
    "kpke_decrypt par dk c = message_decode (\<lambda>i. sint (poly_frommsg m ! i) + kpke_error par A' d m r i)"
    by (rule kpke_decrypt_encrypt [OF k(1,3) c])
  then have "A' = A" using k(4) by simp
  then show "kpke_decrypt par dk c = m"
    using A'(2) message_decode_noise [OF k(2), of "kpke_error par A d m r"] e by simp
qed

text \<open>Agreement for the C functions: encapsulation and decapsulation share the secret.\<close>

lemma mlkem_agreement:
  assumes P: "mlkem_param_ok par" and l: "length z = 32" "length m = 32"
    and k: "mlkem_keygen_internal par d z = Some (ek, dk)" and e: "mlkem_encaps_internal par ek m = Some (K, ct)"
    and g: "\<And>A i. gen_matrix par (fst (kpke_seeds par d)) False = Some A \<Longrightarrow> i < 256 \<Longrightarrow>
      \<bar>centred 3329 (kpke_error par A d m (snd (kem_G m (sha3_256 ek))) i)\<bar> \<le> 831"
  shows "mlkem_decaps_internal par dk ct = Some K"
proof -
  note K = mlkem_keygen_parts [OF P l(1) k]
  obtain dkp where dkp: "kpke_keygen par d = Some (ek, dkp)" "dk_parts par dk = (dkp, ek, sha3_256 ek, z)" using K(3) by blast
  have e': "fo_encaps (kpke_encrypt par) sha3_256 kem_G ek m = Some (K, ct)"
    using e mlkem_encaps_eq [OF P K(1) l(2)] by simp
  then have ct: "length ct = par_ct_sz par" using length_kpke_encrypt [OF P] by (auto simp: fo_encaps_def)
  obtain A where A: "gen_matrix par (fst (kpke_seeds par d)) False = Some A" using dkp(1) by (auto simp: kpke_keygen_eq)
  have good: "kpke_good par ek dkp m (snd (kem_G m (sha3_256 ek)))"
    unfolding kpke_good_def using P l(2) dkp(1) A g [OF A] by blast
  show ?thesis unfolding mlkem_decaps_eq [OF P K(2) ct] dkp(2) by (rule kpke.agreement [OF good e'])
qed

section \<open>Properties\<close>

text \<open>C5: encapsulation and decapsulation are the Fujisaki-Okamoto transform with implicit rejection on
  their byte layouts, for every key and ciphertext of the right length, well formed or not: the coins
  and the key are SHA3-512 of message and key hash, the branch-free selection returns the key when the
  re-encryption equals the ciphertext and SHAKE256 of rejection seed and ciphertext otherwise.\<close>

theorem mlkem_fo_transform:
  assumes "par \<in> set mlkem_par" "length ek = par_ek_sz par" "length m = 32"
    and "length dk = par_dk_sz par" "length ct = par_ct_sz par"
  shows "mlkem_encaps_internal par ek m = fo_encaps (kpke_encrypt par) sha3_256 kem_G ek m \<and>
    mlkem_decaps_internal par dk ct = fo_decaps (kpke_encrypt par) (kpke_decrypt par) kem_G kem_J (dk_parts par dk) ct"
  using mlkem_encaps_eq [OF mlkem_par_ok] mlkem_decaps_eq [OF mlkem_par_ok] assms by blast

theorem mlkem_fo_transform_witness:
  "mlkem_decaps_internal mlkem_512 (replicate 1632 7) (replicate 768 9) =
    map_option (\<lambda>c. if replicate 768 9 = c
        then take 32 (sha3_512 (kpke_decrypt mlkem_512 (replicate 768 7) (replicate 768 9) @ replicate 32 7))
        else shake256 32 (replicate 32 7 @ replicate 768 9))
      (kpke_encrypt mlkem_512 (replicate 800 7) (kpke_decrypt mlkem_512 (replicate 768 7) (replicate 768 9))
        (drop 32 (sha3_512 (kpke_decrypt mlkem_512 (replicate 768 7) (replicate 768 9) @ replicate 32 7))))"
proof -
  have P: "dk_parts mlkem_512 (replicate 1632 7) = (replicate 768 7, replicate 800 7, replicate 32 7, replicate 32 7)"
    by (simp add: dk_parts_def mlkem_512_def)
  have "mlkem_512 \<in> set mlkem_par" by (simp add: mlkem_par_def)
  then have "mlkem_decaps_internal mlkem_512 (replicate 1632 7) (replicate 768 9) =
      fo_decaps (kpke_encrypt mlkem_512) (kpke_decrypt mlkem_512) kem_G kem_J (dk_parts mlkem_512 (replicate 1632 7)) (replicate 768 9)"
    using mlkem_fo_transform [of mlkem_512 "replicate 800 0" "replicate 32 0" "replicate 1632 7" "replicate 768 9"]
    by (simp add: mlkem_512_def)
  then show ?thesis unfolding P fo_decaps_def Let_def prod.case kem_G_def kem_J_def fst_conv snd_conv .
qed

text \<open>C3: the three functions of the mechanism together, for every seed and message: when what decryption
  recovers, the message perturbed by the explicit error, is the message, both sides hold the same
  secret; otherwise the decapsulated secret is the one of implicit rejection (or of a colliding
  re-encryption).\<close>

theorem mlkem_encaps_decaps:
  assumes "par \<in> set mlkem_par" "length z = 32" "length m = 32"
  shows "Option.bind (mlkem_keygen_internal par d z) (\<lambda>(ek, dk). Option.bind (mlkem_encaps_internal par ek m) (\<lambda>(K, ct).
      map_option (Pair K) (mlkem_decaps_internal par dk ct))) =
    Option.bind (gen_matrix par (fst (kpke_seeds par d)) False) (\<lambda>A. Option.bind (kpke_keygen par d) (\<lambda>(ek, dk).
      let h = sha3_256 ek; (K, r) = kem_G m h;
          m' = message_decode (\<lambda>i. sint (poly_frommsg m ! i) + kpke_error par A d m r i)
      in Option.bind (kpke_encrypt par ek m r) (\<lambda>ct.
           if m' = m then Some (K, K)
           else map_option (\<lambda>c. (K, if ct = c then fst (kem_G m' h) else kem_J z ct))
             (kpke_encrypt par ek m' (snd (kem_G m' h))))))"
proof -
  have P: "mlkem_param_ok par" using assms(1) by (rule mlkem_par_ok)
  show ?thesis
  proof (cases "mlkem_keygen_internal par d z")
    case None
    then have "kpke_keygen par d = None" by (auto simp: mlkem_keygen_internal_def Let_def split: Option.bind_splits)
    then show ?thesis using None by (simp add: case_prod_beta)
  next
    case (Some p)
    then obtain ek dk where k: "mlkem_keygen_internal par d z = Some (ek, dk)" by (cases p) simp
    note L = mlkem_keygen_parts [OF P assms(2) k]
    obtain dkp where kp: "kpke_keygen par d = Some (ek, dkp)" and parts: "dk_parts par dk = (dkp, ek, sha3_256 ek, z)"
      using L(3) by blast
    obtain A where A: "gen_matrix par (fst (kpke_seeds par d)) False = Some A" using kp by (auto simp: kpke_keygen_eq)
    obtain K r where G: "kem_G m (sha3_256 ek) = (K, r)" by fastforce
    have E: "mlkem_encaps_internal par ek m = map_option (Pair K) (kpke_encrypt par ek m r)"
      using mlkem_encaps_eq [OF P L(1) assms(3)] G by (simp add: fo_encaps_def)
    show ?thesis
    proof (cases "kpke_encrypt par ek m r")
      case None
      then show ?thesis by (simp add: k kp A E G)
    next
      case (Some ct)
      define m' where "m' = message_decode (\<lambda>i. sint (poly_frommsg m ! i) + kpke_error par A d m r i)"
      have m': "kpke_decrypt par dkp ct = m'"
        using kpke_decrypt_encrypt [OF P kp Some] A by (auto simp: m'_def)
      have "mlkem_decaps_internal par dk ct =
          map_option (\<lambda>c. if ct = c then fst (kem_G m' (sha3_256 ek)) else kem_J z ct) (kpke_encrypt par ek m' (snd (kem_G m' (sha3_256 ek))))"
        unfolding mlkem_decaps_eq [OF P L(2) length_kpke_encrypt [OF P Some]] parts fo_decaps_def Let_def prod.case m' ..
      then show ?thesis
        by (cases "m' = m") (simp_all add: k kp A E G Some comp_def option.map_comp Let_def flip: m'_def cong del: if_weak_cong)
    qed
  qed
qed

theorem mlkem_encaps_decaps_witness:
  "Option.bind (mlkem_keygen_internal mlkem_1024 (replicate 32 1) (replicate 32 2)) (\<lambda>(ek, dk).
      Option.bind (mlkem_encaps_internal mlkem_1024 ek (replicate 32 3)) (\<lambda>(K, ct).
        map_option (Pair K) (mlkem_decaps_internal mlkem_1024 dk ct))) =
    Option.bind (gen_matrix mlkem_1024 (fst (kpke_seeds mlkem_1024 (replicate 32 1))) False) (\<lambda>A.
      Option.bind (kpke_keygen mlkem_1024 (replicate 32 1)) (\<lambda>(ek, dk).
      let h = sha3_256 ek; (K, r) = kem_G (replicate 32 3) h;
          m' = message_decode (\<lambda>i. sint (poly_frommsg (replicate 32 3) ! i) + kpke_error mlkem_1024 A (replicate 32 1) (replicate 32 3) r i)
      in Option.bind (kpke_encrypt mlkem_1024 ek (replicate 32 3) r) (\<lambda>ct.
           if m' = replicate 32 3 then Some (K, K)
           else map_option (\<lambda>c. (K, if ct = c then fst (kem_G m' h) else kem_J (replicate 32 2) ct))
             (kpke_encrypt mlkem_1024 ek m' (snd (kem_G m' h))))))"
  by (rule mlkem_encaps_decaps) (simp_all add: mlkem_par_def)

text \<open>The sizes of the parameter sets are those of the objects: a generated key pair has the two key
  sizes and the decapsulation key is decryption key, encapsulation key, hash and rejection seed; every
  ciphertext has the ciphertext size and every secret 32 bytes.\<close>

theorem mlkem_sizes:
  assumes "par \<in> set mlkem_par" "length z = 32" "length m = 32" "length ek = par_ek_sz par"
  shows "map_option (\<lambda>(ek, dk). (length ek, length dk, dk_parts par dk)) (mlkem_keygen_internal par d z) =
      map_option (\<lambda>(ek, dkp). (par_ek_sz par, par_dk_sz par, (dkp, ek, sha3_256 ek, z))) (kpke_keygen par d) \<and>
    map_option (\<lambda>(K, ct). (length K, length ct)) (mlkem_encaps_internal par ek m) =
      map_option (\<lambda>_. (32, par_ct_sz par)) (gen_matrix par (drop (par_k par * 384) ek) True)"
proof
  have P: "mlkem_param_ok par" using assms(1) by (rule mlkem_par_ok)
  show "map_option (\<lambda>(ek, dk). (length ek, length dk, dk_parts par dk)) (mlkem_keygen_internal par d z) =
      map_option (\<lambda>(ek, dkp). (par_ek_sz par, par_dk_sz par, (dkp, ek, sha3_256 ek, z))) (kpke_keygen par d)"
  proof (cases "mlkem_keygen_internal par d z")
    case None
    then have "kpke_keygen par d = None" by (auto simp: mlkem_keygen_internal_def Let_def split: Option.bind_splits)
    then show ?thesis using None by simp
  next
    case (Some p)
    then obtain ek' dk where k: "mlkem_keygen_internal par d z = Some (ek', dk)" by (cases p) simp
    from mlkem_keygen_parts [OF P assms(2) k] k show ?thesis by auto
  qed
  have u: "snd (unpack_ek par ek) = drop (par_k par * 384) ek"
    using assms(4) param_okD(6) [OF P] by (simp add: unpack_ek_def)
  show "map_option (\<lambda>(K, ct). (length K, length ct)) (mlkem_encaps_internal par ek m) =
      map_option (\<lambda>_. (32, par_ct_sz par)) (gen_matrix par (drop (par_k par * 384) ek) True)"
    unfolding mlkem_encaps_eq [OF P assms(4,3)] fo_encaps_def kpke_encrypt_eq u
    by (simp add: option.map_comp comp_def case_prod_beta length_pack_ciphertext [OF P] kem_G_def Let_def)
qed

theorem mlkem_sizes_witness:
  "map_option (\<lambda>(K, ct). (length K, length ct)) (mlkem_encaps_internal mlkem_768 (replicate 1184 4) (replicate 32 1)) =
     map_option (\<lambda>_. (32, 1088)) (gen_matrix mlkem_768 (replicate 32 4) True) \<and>
   map_option (\<lambda>(ek, dk). (length ek, length dk, dk_parts mlkem_768 dk)) (mlkem_keygen_internal mlkem_768 [] (replicate 32 0)) =
     map_option (\<lambda>(ek, dkp). (1184, 2400, (dkp, ek, sha3_256 ek, replicate 32 0))) (kpke_keygen mlkem_768 [])"
proof -
  have k: "par_k mlkem_768 = 3" "par_ek_sz mlkem_768 = 1184" "par_dk_sz mlkem_768 = 2400" "par_ct_sz mlkem_768 = 1088"
    by (simp_all add: mlkem_768_def)
  show ?thesis
    using mlkem_sizes [of mlkem_768 "replicate 32 0" "replicate 32 1" "replicate 1184 4" "[]"]
    by (simp add: k mlkem_par_def)
qed



end
