(* ===== verification/Dsa_Params.thy ===== *)
theory Dsa_Params
  imports Prelude
begin

text \<open>
  \<open>tools/pqc/mldsa/mldsa_params.h\<close> and the parameter sets of \<open>mldsa.c\<close>: the structure
  \<open>mldsa_param_t\<close> as a record, the static parameters as abbreviations (they are C macros, used at
  several integer types) and the three parameter sets.  Fields that only count or compare are
  natural numbers; those that take part in 32-bit arithmetic (\<open>beta\<close>, \<open>gamma1\<close>, \<open>gamma2\<close>) are words.
\<close>

text \<open>Static parameters.\<close>

abbreviation (input) MLDSA_SEED_SZ :: nat where "MLDSA_SEED_SZ \<equiv> 32"
abbreviation (input) MLDSA_CRH_SZ :: nat where "MLDSA_CRH_SZ \<equiv> 64"
abbreviation (input) MLDSA_TR_SZ :: nat where "MLDSA_TR_SZ \<equiv> 64"
abbreviation (input) MLDSA_RND_SZ :: nat where "MLDSA_RND_SZ \<equiv> 32"
abbreviation (input) MLDSA_PAR_N :: nat where "MLDSA_PAR_N \<equiv> 256"
abbreviation (input) MLDSA_PAR_Q :: "'a::numeral" where "MLDSA_PAR_Q \<equiv> 8380417"
abbreviation (input) MLDSA_PAR_D :: nat where "MLDSA_PAR_D \<equiv> 13"
abbreviation (input) MLDSA_PAR_QINV :: "'a::numeral" where "MLDSA_PAR_QINV \<equiv> 58728449"
abbreviation (input) MLDSA_POLY_T1_SZ :: nat where "MLDSA_POLY_T1_SZ \<equiv> 320"
abbreviation (input) MLDSA_POLY_T0_SZ :: nat where "MLDSA_POLY_T0_SZ \<equiv> 416"

text \<open>
  A polynomial is the C array \<open>int32_t coeffs[256]\<close>; a vector holds the entries the parameter set
  uses of the fixed-size C array (\<open>k\<close> or \<open>ell\<close> of them), a matrix is a list of rows.
\<close>

type_synonym dpoly = "i32 list"
type_synonym dvec = "dpoly list"
type_synonym dmat = "dvec list"

record mldsa_param =
  dsa_name :: string
  dsa_level :: nat
  dsa_k :: nat
  dsa_ell :: nat
  dsa_eta :: nat
  dsa_tau :: nat
  dsa_beta :: u32
  dsa_gamma1 :: u32
  dsa_gamma2 :: u32
  dsa_omega :: nat
  dsa_cp_sz :: nat
  dsa_pzp_sz :: nat
  dsa_w1p_sz :: nat
  dsa_eta_sz :: nat
  dsa_sk_sz :: nat
  dsa_pk_sz :: nat
  dsa_sig_sz :: nat

definition mldsa_44 :: mldsa_param where
  "mldsa_44 = \<lparr>dsa_name = ''ML-DSA-44'', dsa_level = 2, dsa_k = 4, dsa_ell = 4, dsa_eta = 2,
     dsa_tau = 39, dsa_beta = 78, dsa_gamma1 = shl 1 17, dsa_gamma2 = (MLDSA_PAR_Q - 1) div 88,
     dsa_omega = 80, dsa_cp_sz = 32, dsa_pzp_sz = 576, dsa_w1p_sz = 192, dsa_eta_sz = 96,
     dsa_sk_sz = 2560, dsa_pk_sz = 1312, dsa_sig_sz = 2420\<rparr>"

definition mldsa_65 :: mldsa_param where
  "mldsa_65 = \<lparr>dsa_name = ''ML-DSA-65'', dsa_level = 3, dsa_k = 6, dsa_ell = 5, dsa_eta = 4,
     dsa_tau = 49, dsa_beta = 196, dsa_gamma1 = shl 1 19, dsa_gamma2 = (MLDSA_PAR_Q - 1) div 32,
     dsa_omega = 55, dsa_cp_sz = 48, dsa_pzp_sz = 640, dsa_w1p_sz = 128, dsa_eta_sz = 128,
     dsa_sk_sz = 4032, dsa_pk_sz = 1952, dsa_sig_sz = 3309\<rparr>"

definition mldsa_87 :: mldsa_param where
  "mldsa_87 = \<lparr>dsa_name = ''ML-DSA-87'', dsa_level = 5, dsa_k = 8, dsa_ell = 7, dsa_eta = 2,
     dsa_tau = 60, dsa_beta = 120, dsa_gamma1 = shl 1 19, dsa_gamma2 = (MLDSA_PAR_Q - 1) div 32,
     dsa_omega = 75, dsa_cp_sz = 64, dsa_pzp_sz = 640, dsa_w1p_sz = 128, dsa_eta_sz = 96,
     dsa_sk_sz = 4896, dsa_pk_sz = 2592, dsa_sig_sz = 4627\<rparr>"

definition mldsa_par :: "mldsa_param list" where
  "mldsa_par = [mldsa_44, mldsa_65, mldsa_87]"

lemmas mldsa_par_defs = mldsa_44_def mldsa_65_def mldsa_87_def

text \<open>
  What the code relies on in a parameter set: the dimensions its arrays allow, the values of
  \<open>eta\<close>, \<open>gamma1\<close> and \<open>gamma2\<close> it distinguishes together with the byte sizes that go with them, the
  challenge weight, the bound \<open>beta = eta * tau\<close> on a product with the challenge, and the layout of
  the keys and the signature.
\<close>

definition mldsa_param_ok :: "mldsa_param \<Rightarrow> bool" where
  "mldsa_param_ok par \<longleftrightarrow>
     1 \<le> dsa_k par \<and> dsa_k par \<le> 8 \<and> 1 \<le> dsa_ell par \<and> dsa_ell par \<le> 7 \<and>
     (dsa_eta par, dsa_eta_sz par) \<in> {(2, 96), (4, 128)} \<and>
     dsa_tau par \<le> 60 \<and> unat (dsa_beta par) = dsa_eta par * dsa_tau par \<and>
     (dsa_gamma1 par, dsa_pzp_sz par) \<in> {(131072, 576), (524288, 640)} \<and>
     (dsa_gamma2 par, dsa_w1p_sz par) \<in> {(95232, 192), (261888, 128)} \<and>
     dsa_omega par \<le> 80 \<and> dsa_cp_sz par \<le> 64 \<and>
     dsa_pk_sz par = MLDSA_SEED_SZ + dsa_k par * MLDSA_POLY_T1_SZ \<and>
     dsa_sk_sz par = 2 * MLDSA_SEED_SZ + MLDSA_TR_SZ + (dsa_ell par + dsa_k par) * dsa_eta_sz par
       + dsa_k par * MLDSA_POLY_T0_SZ \<and>
     dsa_sig_sz par = dsa_cp_sz par + dsa_ell par * dsa_pzp_sz par + dsa_omega par + dsa_k par"

lemma mldsa_par_ok: "par \<in> set mldsa_par \<Longrightarrow> mldsa_param_ok par"
  by (auto simp: mldsa_par_def mldsa_par_defs mldsa_param_ok_def)

end
