(* ===== verification/Dsa_Reduce.thy ===== *)
theory Dsa_Reduce
  imports Dsa_Params
begin

text \<open>
  \<open>tools/pqc/mldsa/mldsa_reduce.h\<close>: reduction modulo \<open>q = 8380417\<close> on 32-bit coefficients.  The lemmas
  give each routine's exact integer result, its class modulo \<open>q\<close> and its range, on the whole input
  range the C comment allows.
\<close>

definition mldsa_montgomery_reduce :: "i64 \<Rightarrow> i32" where
  "mldsa_montgomery_reduce a =
     (let t = sext32 (sext64 (sext32 a) * MLDSA_PAR_QINV);
          t = sext32 (sar (a - sext64 t * MLDSA_PAR_Q) 32)
      in t)"

definition reduce32 :: "i32 \<Rightarrow> i32" where
  "reduce32 a =
     (let t = sar (a + shl 1 22) 23;
          t = a - t * MLDSA_PAR_Q
      in t)"

definition caddq :: "i32 \<Rightarrow> i32" where
  "caddq a = a + (sar a 31 AND MLDSA_PAR_Q)"

definition freeze :: "i32 \<Rightarrow> i32" where
  "freeze a = (let a = reduce32 a; a = caddq a in a)"

section \<open>Montgomery reduction\<close>

lemma mldsa_montgomery_reduce_exact:
  fixes a :: i64
  assumes "\<bar>sint a\<bar> \<le> 2147483648 * 8380417"
  obtains t where "sint (mldsa_montgomery_reduce a) * 4294967296 = sint a - t * 8380417"
    and "- 2147483648 \<le> t" "t < 2147483648"
proof -
  define t where "t = sext32 (sext64 (sext32 a) * (MLDSA_PAR_QINV :: i64))"
  have tr: "- 2147483648 \<le> sint t" "sint t < 2147483648" by (rule i32_range)+
  have m: "sint (sext64 t * (MLDSA_PAR_Q :: i64)) = sint t * 8380417"
    using tr by (subst sint_mult_fit) (simp_all)
  have d: "sint (a - sext64 t * MLDSA_PAR_Q) = sint a - sint t * 8380417"
    using tr assms by (subst sint_diff_fit) (simp_all add: m abs_le_iff)
  have "modeq 4294967296 (sint t) (sint (sext64 (sext32 a) * (MLDSA_PAR_QINV :: i64)))"
    using sint_scast_modeq [where 'b = 32] by (simp add: t_def)
  also have "modeq 4294967296 \<dots> (sint (sext32 a) * 58728449)"
    using i32_range [of "sext32 a"] by (subst sint_mult_fit) simp_all
  also have "modeq 4294967296 \<dots> (sint a * 58728449)"
    using sint_scast_modeq [where 'b = 32 and a = a] by (intro modeq_mult modeq_refl) simp
  finally have tm: "modeq 4294967296 (sint t) (sint a * 58728449)" .
  have "modeq 4294967296 (sint a - sint t * 8380417) (sint a - (sint a * 58728449) * 8380417)"
    by (intro modeq_diff modeq_mult modeq_refl tm)
  also have "\<dots> = 0 + 4294967296 * (- 114592 * sint a)" by simp
  also have "modeq 4294967296 \<dots> 0" by (rule modeqI) simp
  finally have "4294967296 dvd sint a - sint t * 8380417" by (simp add: modeq_iff_dvd)
  then obtain k where k: "sint a - sint t * 8380417 = 4294967296 * k" by (elim dvdE)
  have "- 8380417 \<le> k" "k \<le> 8380417" using k tr assms by linarith+
  moreover have "sint (sar (a - sext64 t * MLDSA_PAR_Q) 32) = k" by (simp add: sint_sar d k)
  moreover have "mldsa_montgomery_reduce a = sext32 (sar (a - sext64 t * MLDSA_PAR_Q) 32)"
    by (simp only: mldsa_montgomery_reduce_def Let_def t_def)
  ultimately have "sint (mldsa_montgomery_reduce a) = k" by (simp add: sint_scast_fit)
  then show thesis using k tr by (intro that [of "sint t"]) simp_all
qed

text \<open>The bound is strict except at the upper end of the input range, where it is attained.\<close>

lemma mldsa_montgomery_reduce_bound:
  assumes "- (2147483648 * 8380417) \<le> sint a" "sint a < 2147483648 * 8380417"
  shows "\<bar>sint (mldsa_montgomery_reduce a)\<bar> < 8380417"
proof -
  have "\<bar>sint a\<bar> \<le> 2147483648 * 8380417" using assms by linarith
  then show ?thesis
    by (rule mldsa_montgomery_reduce_exact [of a]) (use assms in linarith)
qed

lemma mldsa_montgomery_reduce_modeq:
  assumes "\<bar>sint a\<bar> \<le> 2147483648 * 8380417"
  shows "modeq 8380417 (sint (mldsa_montgomery_reduce a) * 4294967296) (sint a)"
  by (rule mldsa_montgomery_reduce_exact [OF assms]) (simp add: modeq_iff_dvd)

text \<open>\<open>8265825\<close> is the inverse of \<open>2^32\<close> modulo \<open>q\<close>.\<close>

lemma mldsa_montgomery_reduce_inv:
  assumes "\<bar>sint a\<bar> \<le> 2147483648 * 8380417"
  shows "modeq 8380417 (sint (mldsa_montgomery_reduce a)) (8265825 * sint a)"
proof -
  let ?y = "sint (mldsa_montgomery_reduce a)"
  have "?y = 8265825 * (?y * 4294967296) - 8380417 * (4236238847 * ?y)" by simp
  also have "modeq 8380417 \<dots> (8265825 * (?y * 4294967296))" by (simp add: modeq_iff_dvd)
  also have "modeq 8380417 \<dots> (8265825 * sint a)"
    by (intro modeq_mult modeq_refl mldsa_montgomery_reduce_modeq assms)
  finally show ?thesis .
qed

text \<open>The product of two 32-bit values in a 64-bit integer, and its reduction.\<close>

lemma sint_mult_i32: "sint (sext64 (a :: i32) * sext64 (b :: i32)) = sint a * sint b"
proof -
  have "\<bar>sint a * sint b\<bar> \<le> 2147483648 * 2147483648"
    unfolding abs_mult using i32_range [of a] i32_range [of b] by (intro mult_mono) auto
  then show ?thesis by (subst sint_mult_fit) auto
qed

definition dsa_mulr :: "i32 \<Rightarrow> i32 \<Rightarrow> i32" where
  "dsa_mulr a b = mldsa_montgomery_reduce (sext64 a * sext64 b)"

lemma dsa_mulr_correct:
  assumes "\<bar>sint a * sint b\<bar> < 2147483648 * 8380417"
  shows dsa_mulr_bound: "\<bar>sint (dsa_mulr a b)\<bar> < 8380417"
    and dsa_mulr_modeq: "modeq 8380417 (sint (dsa_mulr a b)) (8265825 * (sint a * sint b))"
  using assms mldsa_montgomery_reduce_bound [of "sext64 a * sext64 b"]
    mldsa_montgomery_reduce_inv [of "sext64 a * sext64 b"]
  by (auto simp: dsa_mulr_def sint_mult_i32 abs_less_iff)

text \<open>A factor below \<open>q\<close>, such as a table entry, is small enough for every 32-bit operand.\<close>

lemma dsa_mulr_small_ok:
  fixes a b :: i32
  assumes "\<bar>sint a\<bar> < 8380417"
  shows "\<bar>sint a * sint b\<bar> < 2147483648 * 8380417"
proof -
  have "\<bar>sint a\<bar> * \<bar>sint b\<bar> \<le> 8380416 * 2147483648"
    using i32_range [of b] assms by (intro mult_mono) auto
  then show ?thesis by (simp add: abs_mult)
qed

section \<open>Reduction and freezing\<close>

lemma reduce32_exact:
  assumes "sint a < 2143289344"
  shows "sint (reduce32 a) = sint a - 8380417 * ((sint a + 4194304) div 8388608)"
    and "- 6283009 \<le> sint (reduce32 a)" "sint (reduce32 a) \<le> 6283008"
    and "sint (reduce32 a) = - 6283009 \<Longrightarrow> sint a = - 2143289344"
proof -
  define T where "T = (sint a + 4194304) div 8388608"
  have A: "- 2147483648 \<le> sint a" "sint a < 2147483648" by (rule i32_range)+
  have T: "8388608 * T \<le> sint a + 4194304" "sint a + 4194304 < 8388608 * T + 8388608"
    unfolding T_def by (rule div_bounds; simp)+
  have Tb: "- 256 \<le> T" "T \<le> 255" using T A assms by linarith+
  define S where "S = sar (a + shl 1 22) 23"
  have "sint (a + shl 1 22) = sint a + 4194304"
    using A assms by (subst sint_add_fit) simp_all
  then have t: "sint S = T" by (simp only: S_def sint_sar T_def) simp
  have tq: "sint (S * (MLDSA_PAR_Q :: i32)) = T * 8380417"
    using Tb by (subst sint_mult_fit) (simp_all add: t)
  have "T = - 256 \<or> - 255 \<le> T" using Tb(1) by linarith
  then have R: "- 6283009 \<le> sint a - T * 8380417" "sint a - T * 8380417 \<le> 6283008"
    using T Tb A by auto
  have E: "sint a = - 2143289344" if "sint a - T * 8380417 = - 6283009"
  proof -
    have "T \<le> - 255" using that T(1) by linarith
    moreover have "T \<noteq> - 256" using that A by auto
    ultimately have "T = - 255" using Tb by linarith
    then show ?thesis using that by simp
  qed
  have "sint (reduce32 a) = sint a - T * 8380417"
    unfolding reduce32_def Let_def S_def [symmetric] using R by (subst sint_diff_fit) (simp_all add: tq)
  then show "sint (reduce32 a) = sint a - 8380417 * ((sint a + 4194304) div 8388608)"
    and "- 6283009 \<le> sint (reduce32 a)" "sint (reduce32 a) \<le> 6283008"
    and "sint (reduce32 a) = - 6283009 \<Longrightarrow> sint a = - 2143289344"
    using R E by (simp_all add: T_def mult.commute)
qed

lemma reduce32_bound:
  assumes "sint a < 2143289344"
  shows "\<bar>sint (reduce32 a)\<bar> \<le> 6283009"
  using reduce32_exact(2,3) [OF assms] by simp

lemma reduce32_modeq:
  assumes "sint a < 2143289344"
  shows "modeq 8380417 (sint (reduce32 a)) (sint a)"
  by (simp add: reduce32_exact(1) [OF assms] modeq_iff_dvd)

text \<open>The sign mask \<open>a >> 31\<close>.\<close>

lemma sar31_cases: "sar a 31 = (if sint a < 0 then - 1 else (0 :: i32))"
proof -
  have "sint (sar a 31) = sint a div 2147483648" by (simp add: sint_sar)
  also have "\<dots> = sint (if sint a < 0 then - 1 else (0 :: i32))"
    using i32_range [of a] by (cases "sint a < 0") (simp_all add: div_pos_neg_trivial)
  finally show ?thesis by (rule signed_word_eqI)
qed

lemma caddq_exact: "sint (caddq a) = (if sint a < 0 then sint a + 8380417 else sint a)"
  using i32_range [of a] by (auto simp: caddq_def sar31_cases sint_add_fit)

lemma caddq_modeq: "modeq 8380417 (sint (caddq a)) (sint a)"
  by (simp add: caddq_exact modeq_iff_dvd)

lemma caddq_range:
  assumes "\<bar>sint a\<bar> < 8380417"
  shows "0 \<le> sint (caddq a)" "sint (caddq a) < 8380417"
  using assms by (auto simp: caddq_exact)

lemma freeze_exact:
  assumes "sint a < 2143289344"
  shows "sint (freeze a) = sint a mod 8380417"
proof -
  have b: "\<bar>sint (reduce32 a)\<bar> < 8380417" using reduce32_bound [OF assms] by simp
  have "modeq 8380417 (sint (freeze a)) (sint a mod 8380417)"
    unfolding freeze_def Let_def
    by (rule modeq_trans [OF caddq_modeq modeq_trans [OF reduce32_modeq [OF assms]]]) simp
  then show ?thesis
    by (rule modeq_bounded_eq) (use caddq_range [OF b] in \<open>simp_all add: freeze_def\<close>)
qed

text \<open>The shape of a polynomial whose coefficients are bounded by \<open>B\<close>.\<close>

definition dpoly_bounded :: "int \<Rightarrow> dpoly \<Rightarrow> bool" where
  "dpoly_bounded B r \<longleftrightarrow> length r = 256 \<and> (\<forall>x \<in> set r. \<bar>sint x\<bar> \<le> B)"

lemma replicate_dbounded: "\<bar>sint c\<bar> \<le> B \<Longrightarrow> dpoly_bounded B (replicate 256 c)"
  by (simp add: dpoly_bounded_def)

lemma dpoly_bounded_mono: "dpoly_bounded B r \<Longrightarrow> B \<le> B' \<Longrightarrow> dpoly_bounded B' r"
  by (auto simp: dpoly_bounded_def)

lemma dpoly_bounded_nth: "dpoly_bounded B r \<Longrightarrow> i < 256 \<Longrightarrow> \<bar>sint (r ! i)\<bar> \<le> B"
  by (simp add: dpoly_bounded_def)

lemma dpoly_bounded_length: "dpoly_bounded B r \<Longrightarrow> length r = 256"
  by (simp add: dpoly_bounded_def)

lemma dpoly_boundedI: "length r = 256 \<Longrightarrow> (\<And>i. i < 256 \<Longrightarrow> \<bar>sint (r ! i)\<bar> \<le> B) \<Longrightarrow> dpoly_bounded B r"
  by (auto simp: dpoly_bounded_def in_set_conv_nth)

text \<open>The coefficients as integers.\<close>

definition dcoeff :: "dpoly \<Rightarrow> nat \<Rightarrow> int" where
  "dcoeff r i = sint (r ! i)"

lemma dpoly_bounded_iff: "dpoly_bounded B r \<longleftrightarrow> length r = 256 \<and> (\<forall>i<256. \<bar>dcoeff r i\<bar> \<le> B)"
  by (auto simp: dpoly_bounded_def dcoeff_def all_set_conv_all_nth)

text \<open>C38: Montgomery reduction is exact division by \<open>2^32\<close> modulo \<open>q\<close> on the whole documented range
  \<open>- 2^31 q \<le> a \<le> 2^31 q\<close>; the documented strict bound on the result holds everywhere but at the
  upper end of that range, where the result is \<open>q\<close> itself.\<close>

theorem mldsa_montgomery_reduce_correct:
  assumes "\<bar>sint a\<bar> \<le> 2 ^ 31 * 8380417"
  shows "modeq 8380417 (sint (mldsa_montgomery_reduce a) * 2 ^ 32) (sint a) \<and>
    (sint a < 2 ^ 31 * 8380417 \<longrightarrow> \<bar>sint (mldsa_montgomery_reduce a)\<bar> < 8380417) \<and>
    (sint a = 2 ^ 31 * 8380417 \<longrightarrow> sint (mldsa_montgomery_reduce a) = 8380417)"
proof -
  have a: "\<bar>sint a\<bar> \<le> 2147483648 * 8380417" using assms by simp
  have "sint (mldsa_montgomery_reduce a) = 8380417" if "sint a = 2147483648 * 8380417"
  proof -
    have "a = word_of_int (sint a)" by simp
    also have "\<dots> = 17996808470921216" by (simp only: that) simp
    finally show ?thesis by (simp add: mldsa_montgomery_reduce_def)
  qed
  with mldsa_montgomery_reduce_modeq [OF a] mldsa_montgomery_reduce_bound [of a] a show ?thesis
    by (simp add: abs_le_iff)
qed

theorem mldsa_montgomery_reduce_correct_witness:
  "sint (mldsa_montgomery_reduce 17996808470921216) = 8380417"
  using mldsa_montgomery_reduce_correct [of 17996808470921216] by simp

text \<open>C39: \<open>freeze\<close> returns the standard representative of every input below \<open>2^31 - 2^22\<close>, negative
  ones included; \<open>reduce32\<close> alone returns a representative in \<open>[-6283008, 6283008]\<close>, except for the
  single input \<open>-2^31 + 2^22\<close>, whose result is one below the documented range.\<close>

theorem mldsa_freeze_correct:
  assumes "sint a < 2 ^ 31 - 2 ^ 22"
  shows "sint (freeze a) = sint a mod 8380417 \<and> modeq 8380417 (sint (reduce32 a)) (sint a) \<and>
    (if sint a = - (2 ^ 31) + 2 ^ 22 then sint (reduce32 a) = - 6283009
     else \<bar>sint (reduce32 a)\<bar> \<le> 6283008)"
proof -
  have a: "sint a < 2143289344" using assms by simp
  have "sint (reduce32 a) = - 6283009" if "sint a = - 2143289344"
    using reduce32_exact(1) [OF a] that by simp
  moreover have "\<bar>sint (reduce32 a)\<bar> \<le> 6283008" if "sint a \<noteq> - 2143289344"
  proof -
    have "sint (reduce32 a) \<noteq> - 6283009" using reduce32_exact(4) [OF a] that by blast
    then show ?thesis using reduce32_exact(2,3) [OF a] by linarith
  qed
  ultimately show ?thesis using freeze_exact [OF a] reduce32_modeq [OF a] by simp
qed

theorem mldsa_freeze_correct_witness:
  "sint (reduce32 (- 2143289344)) = - 6283009 \<and> sint (freeze (- 2143289344)) = 2097408"
  using mldsa_freeze_correct [of "- 2143289344"] by simp

end
