(* ===== verification/Dsa_Ntt.thy ===== *)
theory Dsa_Ntt
  imports Dsa_Reduce Ntt_Layer Bitrev
begin

text \<open>
  \<open>tools/pqc/mldsa/mldsa_ntt.c\<close>: the number-theoretic transform of ML-DSA and its inverse.  It is the
  complete transform: eight layers down to linear factors, with \<open>k\<close> advanced before every use of the
  table.  The lemmas on the table interpret the tree of \<open>Ntt_Tree\<close> with the root of unity \<open>1753\<close>.
\<close>

section \<open>Code\<close>

definition mldsa_zetas :: "i32 list" where
  "mldsa_zetas = [
    0, 25847, -2608894, -518909, 237124, -777960, -876248, 466468,
    1826347, 2353451, -359251, -2091905, 3119733, -2884855, 3111497, 2680103,
    2725464, 1024112, -1079900, 3585928, -549488, -1119584, 2619752, -2108549,
    -2118186, -3859737, -1399561, -3277672, 1757237, -19422, 4010497, 280005,
    2706023, 95776, 3077325, 3530437, -1661693, -3592148, -2537516, 3915439,
    -3861115, -3043716, 3574422, -2867647, 3539968, -300467, 2348700, -539299,
    -1699267, -1643818, 3505694, -3821735, 3507263, -2140649, -1600420, 3699596,
    811944, 531354, 954230, 3881043, 3900724, -2556880, 2071892, -2797779,
    -3930395, -1528703, -3677745, -3041255, -1452451, 3475950, 2176455, -1585221,
    -1257611, 1939314, -4083598, -1000202, -3190144, -3157330, -3632928, 126922,
    3412210, -983419, 2147896, 2715295, -2967645, -3693493, -411027, -2477047,
    -671102, -1228525, -22981, -1308169, -381987, 1349076, 1852771, -1430430,
    -3343383, 264944, 508951, 3097992, 44288, -1100098, 904516, 3958618,
    -3724342, -8578, 1653064, -3249728, 2389356, -210977, 759969, -1316856,
    189548, -3553272, 3159746, -1851402, -2409325, -177440, 1315589, 1341330,
    1285669, -1584928, -812732, -1439742, -3019102, -3881060, -3628969, 3839961,
    2091667, 3407706, 2316500, 3817976, -3342478, 2244091, -2446433, -3562462,
    266997, 2434439, -1235728, 3513181, -3520352, -3759364, -1197226, -3193378,
    900702, 1859098, 909542, 819034, 495491, -1613174, -43260, -522500,
    -655327, -3122442, 2031748, 3207046, -3556995, -525098, -768622, -3595838,
    342297, 286988, -2437823, 4108315, 3437287, -3342277, 1735879, 203044,
    2842341, 2691481, -2590150, 1265009, 4055324, 1247620, 2486353, 1595974,
    -3767016, 1250494, 2635921, -3548272, -2994039, 1869119, 1903435, -1050970,
    -1333058, 1237275, -3318210, -1430225, -451100, 1312455, 3306115, -1962642,
    -1279661, 1917081, -2546312, -1374803, 1500165, 777191, 2235880, 3406031,
    -542412, -2831860, -1671176, -1846953, -2584293, -3724270, 594136, -3776993,
    -2013608, 2432395, 2454455, -164721, 1957272, 3369112, 185531, -1207385,
    -3183426, 162844, 1616392, 3014001, 810149, 1652634, -3694233, -1799107,
    -3038916, 3523897, 3866901, 269760, 2213111, -975884, 1717735, 472078,
    -426683, 1723600, -1803090, 1910376, -1667432, -1104333, -260646, -3833893,
    -2939036, -2235985, -420899, -2286327, 183443, -976891, 1612842, -3545687,
    -554416, 3919660, -48306, -1362209, 3937738, 1400424, -846154, 1976782]"

definition mldsa_ntt_bfly :: "i32 \<Rightarrow> nat \<Rightarrow> nat \<Rightarrow> i32 list \<Rightarrow> i32 list" where
  "mldsa_ntt_bfly zeta len j a =
     (let t = mldsa_montgomery_reduce (sext64 zeta * sext64 (a ! (j + len)));
          a = a[j + len := a ! j - t];
          a = a[j := a ! j + t]
      in a)"

definition mldsa_ntt_block :: "nat \<Rightarrow> nat \<Rightarrow> nat \<Rightarrow> i32 list \<Rightarrow> i32 list" where
  "mldsa_ntt_block len k start a =
     (let zeta = mldsa_zetas ! Suc k in fold (mldsa_ntt_bfly zeta len) [start..<start + len] a)"

fun mldsa_ntt_layers :: "nat \<Rightarrow> nat \<Rightarrow> i32 list \<Rightarrow> i32 list" where
  "mldsa_ntt_layers len k a =
     (if 0 < len
      then (let (k, a) = for_blocks MLDSA_PAR_N Suc (mldsa_ntt_block len) len 0 k a
            in mldsa_ntt_layers (len div 2) k a)
      else a)"

definition mldsa_ntt :: "i32 list \<Rightarrow> i32 list" where
  "mldsa_ntt a = mldsa_ntt_layers 128 0 a"

definition mldsa_invntt_bfly :: "i32 \<Rightarrow> nat \<Rightarrow> nat \<Rightarrow> i32 list \<Rightarrow> i32 list" where
  "mldsa_invntt_bfly zeta len j a =
     (let t = a ! j;
          a = a[j := t + a ! (j + len)];
          a = a[j + len := t - a ! (j + len)];
          a = a[j + len := mldsa_montgomery_reduce (sext64 zeta * sext64 (a ! (j + len)))]
      in a)"

definition mldsa_invntt_block :: "nat \<Rightarrow> nat \<Rightarrow> nat \<Rightarrow> i32 list \<Rightarrow> i32 list" where
  "mldsa_invntt_block len k start a =
     (let zeta = - (mldsa_zetas ! (k - 1)) in fold (mldsa_invntt_bfly zeta len) [start..<start + len] a)"

text \<open>The guard \<open>0 < len\<close> only excludes a length the doubling loop never reaches.\<close>

function mldsa_invntt_layers :: "nat \<Rightarrow> nat \<Rightarrow> i32 list \<Rightarrow> i32 list" where
  "mldsa_invntt_layers len k a =
     (if len < MLDSA_PAR_N \<and> 0 < len
      then (let (k, a) = for_blocks MLDSA_PAR_N (\<lambda>k. k - 1) (mldsa_invntt_block len) len 0 k a
            in mldsa_invntt_layers (2 * len) k a)
      else a)"
  by pat_completeness auto
termination
  by (relation "measure (\<lambda>(len, k, a). 256 - len)") auto

definition mldsa_invntt :: "i32 list \<Rightarrow> i32 list" where
  "mldsa_invntt a =
     (let f = 41978;
          a = mldsa_invntt_layers 1 256 a
      in fold (\<lambda>j a. a[j := mldsa_montgomery_reduce (sext64 (f :: i32) * sext64 (a ! j))]) [0..<MLDSA_PAR_N] a)"

declare mldsa_ntt_layers.simps [simp del] mldsa_invntt_layers.simps [simp del]

section \<open>The table of roots\<close>

text \<open>
  The table read as integers; entry \<open>i\<close> is \<open>zeta * 2^32\<close>, centred, so that multiplying by \<open>8265825\<close>, the
  inverse of \<open>2^32\<close>, recovers \<open>zeta\<close> modulo \<open>q\<close>.
\<close>

definition dsa_zeta_tab :: "int list" where
  "dsa_zeta_tab = [
    0, 25847, -2608894, -518909, 237124, -777960, -876248, 466468,
    1826347, 2353451, -359251, -2091905, 3119733, -2884855, 3111497, 2680103,
    2725464, 1024112, -1079900, 3585928, -549488, -1119584, 2619752, -2108549,
    -2118186, -3859737, -1399561, -3277672, 1757237, -19422, 4010497, 280005,
    2706023, 95776, 3077325, 3530437, -1661693, -3592148, -2537516, 3915439,
    -3861115, -3043716, 3574422, -2867647, 3539968, -300467, 2348700, -539299,
    -1699267, -1643818, 3505694, -3821735, 3507263, -2140649, -1600420, 3699596,
    811944, 531354, 954230, 3881043, 3900724, -2556880, 2071892, -2797779,
    -3930395, -1528703, -3677745, -3041255, -1452451, 3475950, 2176455, -1585221,
    -1257611, 1939314, -4083598, -1000202, -3190144, -3157330, -3632928, 126922,
    3412210, -983419, 2147896, 2715295, -2967645, -3693493, -411027, -2477047,
    -671102, -1228525, -22981, -1308169, -381987, 1349076, 1852771, -1430430,
    -3343383, 264944, 508951, 3097992, 44288, -1100098, 904516, 3958618,
    -3724342, -8578, 1653064, -3249728, 2389356, -210977, 759969, -1316856,
    189548, -3553272, 3159746, -1851402, -2409325, -177440, 1315589, 1341330,
    1285669, -1584928, -812732, -1439742, -3019102, -3881060, -3628969, 3839961,
    2091667, 3407706, 2316500, 3817976, -3342478, 2244091, -2446433, -3562462,
    266997, 2434439, -1235728, 3513181, -3520352, -3759364, -1197226, -3193378,
    900702, 1859098, 909542, 819034, 495491, -1613174, -43260, -522500,
    -655327, -3122442, 2031748, 3207046, -3556995, -525098, -768622, -3595838,
    342297, 286988, -2437823, 4108315, 3437287, -3342277, 1735879, 203044,
    2842341, 2691481, -2590150, 1265009, 4055324, 1247620, 2486353, 1595974,
    -3767016, 1250494, 2635921, -3548272, -2994039, 1869119, 1903435, -1050970,
    -1333058, 1237275, -3318210, -1430225, -451100, 1312455, 3306115, -1962642,
    -1279661, 1917081, -2546312, -1374803, 1500165, 777191, 2235880, 3406031,
    -542412, -2831860, -1671176, -1846953, -2584293, -3724270, 594136, -3776993,
    -2013608, 2432395, 2454455, -164721, 1957272, 3369112, 185531, -1207385,
    -3183426, 162844, 1616392, 3014001, 810149, 1652634, -3694233, -1799107,
    -3038916, 3523897, 3866901, 269760, 2213111, -975884, 1717735, 472078,
    -426683, 1723600, -1803090, 1910376, -1667432, -1104333, -260646, -3833893,
    -2939036, -2235985, -420899, -2286327, 183443, -976891, 1612842, -3545687,
    -554416, 3919660, -48306, -1362209, 3937738, 1400424, -846154, 1976782]"

definition dsa_root :: "nat \<Rightarrow> int" where
  "dsa_root i = dsa_zeta_tab ! i * 8265825"

lemma length_mldsa_zetas [simp]: "length mldsa_zetas = 256"
  by (simp add: mldsa_zetas_def)

lemma mldsa_zetas_tab: "map sint mldsa_zetas = dsa_zeta_tab"
  by (simp add: mldsa_zetas_def dsa_zeta_tab_def)

lemma sint_mldsa_zetas: "i < 256 \<Longrightarrow> sint (mldsa_zetas ! i) = dsa_zeta_tab ! i"
  by (simp flip: mldsa_zetas_tab)

lemma dsa_zeta_tab_small_aux: "list_all (\<lambda>z. \<bar>z\<bar> \<le> 4190208) dsa_zeta_tab"
  by (simp add: dsa_zeta_tab_def)

lemma mldsa_zetas_small: "i < 256 \<Longrightarrow> \<bar>sint (mldsa_zetas ! i)\<bar> \<le> 4190208"
  using dsa_zeta_tab_small_aux by (simp add: list_all_length flip: mldsa_zetas_tab)

text \<open>Entry \<open>i\<close> is the power of \<open>1753\<close> with the bit-reversed exponent; entry \<open>0\<close> is never read.\<close>

abbreviation bitrev8 :: "nat \<Rightarrow> nat" where "bitrev8 \<equiv> bitrev 8"

lemma dsa_zeta_tab_powers:
  "list_all2 (\<lambda>x p. (x * 8265825 - p) mod 8380417 = 0) (tl dsa_zeta_tab) (tl (bitrev_powers 8380417 8 1753))"
  by code_simp

lemma dsa_root_power: "0 < k \<Longrightarrow> k < 256 \<Longrightarrow> modeq 8380417 (dsa_root k) (1753 ^ bitrev8 k)"
  using table_powers [OF dsa_zeta_tab_powers] by (simp add: dsa_root_def)

lemma dsa_gen: "modeq 8380417 (1753 ^ 2 ^ 8) (- 1)"
proof -
  have e: "2 ^ 8 = (256 :: nat)" by simp
  have p: "powmod 1753 8380417 256 = 8380416" by code_simp
  have m: "- 1 mod 8380417 = (8380416 :: int)" by simp
  show ?thesis unfolding modeq_def m p [symmetric] e by (rule powmod_eq [symmetric])
qed

text \<open>The leaves of the tree: node \<open>256 + k\<close> carries the power with exponent \<open>2 * bitrev8 k + 1\<close>.\<close>

lemma dsa_gam_power:
  assumes "k < 256"
  shows "modeq 8380417 (gam dsa_root (256 + k)) (1753 ^ (2 * bitrev8 k + 1))"
proof -
  have "modeq 8380417 (gam dsa_root (256 + k)) (1753 ^ bitrev (Suc 8) (256 + k))"
    using assms by (intro gam_power_bitrev dsa_gen dsa_root_power) simp_all
  moreover have "bitrev (Suc 8) (256 + k) = 2 * bitrev8 k + 1"
    using bitrev_high [of k 8] assms by simp
  ultimately show ?thesis by (simp only:)
qed

interpretation dsa_tree: ntt_tree 8380417 8 8 dsa_root 4190209
  by (rule ntt_tree_powers [OF dsa_gen]) (simp_all add: dsa_root_power modeq_def [of _ _ 1])

end
