(* ===== verification/Dsa_Rounding.thy ===== *)
theory Dsa_Rounding
  imports Dsa_Reduce
begin

text \<open>
  The rounding routines of \<open>tools/pqc/mldsa/mldsa_poly.c\<close>: \<open>power2round\<close>, the two versions of
  \<open>decompose\<close>, and the hints.  A routine with an out-parameter returns the pair of its result and that
  parameter.  The lemmas show that the multiply-and-shift versions are the decompositions of FIPS 204
  and that a hint lets the verifier recover the signer's high bits.
\<close>

section \<open>Code\<close>

definition power2round :: "i32 \<Rightarrow> i32 \<times> i32" where
  "power2round a =
     (let a1 = sar (a + shl 1 (MLDSA_PAR_D - 1) - 1) MLDSA_PAR_D;
          a0 = a - shl a1 MLDSA_PAR_D
      in (a1, a0))"

definition decompose_32 :: "i32 \<Rightarrow> i32 \<times> i32" where
  "decompose_32 a =
     (let a1 = sar (a + 127) 7;
          a1 = sar (a1 * 1025 + shl 1 21) 22;
          a1 = a1 AND 15;
          a0 = a - a1 * 2 * ((MLDSA_PAR_Q - 1) div 32);
          a0 = a0 - (sar ((MLDSA_PAR_Q - 1) div 2 - a0) 31 AND MLDSA_PAR_Q)
      in (a1, a0))"

definition decompose_88 :: "i32 \<Rightarrow> i32 \<times> i32" where
  "decompose_88 a =
     (let a1 = sar (a + 127) 7;
          a1 = sar (a1 * 11275 + shl 1 23) 24;
          a1 = a1 XOR (sar (43 - a1) 31 AND a1);
          a0 = a - a1 * 2 * ((MLDSA_PAR_Q - 1) div 88);
          a0 = a0 - (sar ((MLDSA_PAR_Q - 1) div 2 - a0) 31 AND MLDSA_PAR_Q)
      in (a1, a0))"

definition make_hint :: "i32 \<Rightarrow> i32 \<Rightarrow> i32 \<Rightarrow> u32" where
  "make_hint a0 a1 gamma2 =
     (if gamma2 <s a0 \<or> a0 <s - gamma2 \<or> (a0 = - gamma2 \<and> a1 \<noteq> 0) then 1 else 0)"

definition use_hint_32 :: "i32 \<Rightarrow> u32 \<Rightarrow> i32" where
  "use_hint_32 a hint =
     (let (a1, a0) = decompose_32 a
      in if hint = 0 then a1
         else if 0 <s a0 then (a1 + 1) AND 15 else (a1 - 1) AND 15)"

definition use_hint_88 :: "i32 \<Rightarrow> u32 \<Rightarrow> i32" where
  "use_hint_88 a hint =
     (let (a1, a0) = decompose_88 a
      in if hint = 0 then a1
         else if 0 <s a0 then (if a1 = 43 then 0 else a1 + 1)
         else (if a1 = 0 then 43 else a1 - 1))"

section \<open>Specification\<close>

text \<open>FIPS 204: \<open>a mod\<plusminus> m\<close> for even \<open>m\<close>, \<open>Power2Round\<close>, \<open>Decompose\<close>, \<open>MakeHint\<close> and \<open>UseHint\<close>.\<close>

definition mod_pm :: "int \<Rightarrow> int \<Rightarrow> int" where
  "mod_pm a m = (let r = a mod m in if m div 2 < r then r - m else r)"

definition power2round_spec :: "int \<Rightarrow> int \<times> int" where
  "power2round_spec r = (let rp = r mod 8380417; r0 = mod_pm rp 8192 in ((rp - r0) div 8192, r0))"

definition decompose_spec :: "int \<Rightarrow> int \<Rightarrow> int \<times> int" where
  "decompose_spec gamma2 r =
     (let rp = r mod 8380417; r0 = mod_pm rp (2 * gamma2)
      in if rp - r0 = 8380416 then (0, r0 - 1) else ((rp - r0) div (2 * gamma2), r0))"

definition use_hint_spec :: "int \<Rightarrow> bool \<Rightarrow> int \<Rightarrow> int" where
  "use_hint_spec gamma2 h r =
     (let m = 8380416 div (2 * gamma2); (r1, r0) = decompose_spec gamma2 r
      in if h then (if 0 < r0 then (r1 + 1) mod m else (r1 - 1) mod m) else r1)"

text \<open>Both specifications through the rounded quotient.\<close>

lemma mod_pm_quot:
  assumes "0 < g"
  shows "mod_pm a (2 * g) = a - (a + g - 1) div (2 * g) * (2 * g)"
proof -
  define r k where "r = a mod (2 * g)" and "k = a div (2 * g)"
  have a: "a = k * (2 * g) + r" unfolding r_def k_def by (rule div_mult_mod_eq [symmetric])
  have r: "0 \<le> r" "r < 2 * g" using assms by (simp_all add: r_def)
  have q: "(a + g - 1) div (2 * g) = k + (r + g - 1) div (2 * g)"
  proof -
    have "a + g - 1 = (r + g - 1) + k * (2 * g)" by (simp add: a)
    moreover have "2 * g \<noteq> 0" using assms by simp
    ultimately show ?thesis by (simp only: div_mult_self1 simp_thms)
  qed
  show ?thesis
  proof (cases "g < r")
    case True
    then have "(r + g - 1) div (2 * g) = 1" using r by (intro int_div_pos_eq [where r = "r - g - 1"]) auto
    then show ?thesis using True by (simp add: mod_pm_def Let_def q r_def [symmetric]) (simp add: a algebra_simps)
  next
    case False
    then have "(r + g - 1) div (2 * g) = 0" using r assms by (intro div_pos_pos_trivial) auto
    then show ?thesis using False by (simp add: mod_pm_def Let_def q r_def [symmetric]) (simp add: a algebra_simps)
  qed
qed

lemma decompose_spec_quot:
  assumes "0 < g" "0 \<le> a" "a < 8380417" "m = (a + g - 1) div (2 * g)"
  shows "decompose_spec g a = (if m * (2 * g) = 8380416 then (0, a - 8380417) else (m, a - m * (2 * g)))"
  using assms by (simp add: decompose_spec_def Let_def mod_pm_quot)

text \<open>The position of \<open>a\<close> around the multiple \<open>m * 2 g\<close>.\<close>

lemma quot_unique:
  assumes "0 < g" "- g < a - m * (2 * g)" "a - m * (2 * g) \<le> g"
  shows "(a + g - 1) div (2 * g) = (m :: int)"
  using assms by (intro int_div_pos_eq [where r = "a + g - 1 - m * (2 * g)"]) (auto simp: algebra_simps)

section \<open>Power2Round\<close>

lemma power2round_exact:
  assumes "0 \<le> sint a" "sint a < 8380417"
  shows "(sint (fst (power2round a)), sint (snd (power2round a))) = power2round_spec (sint a)"
    and "0 \<le> sint (fst (power2round a))" "sint (fst (power2round a)) < 1024"
    and "- 4096 < sint (snd (power2round a))" "sint (snd (power2round a)) \<le> 4096"
    and "sint (fst (power2round a)) * 8192 + sint (snd (power2round a)) = sint a"
proof -
  define m where "m = (sint a + 4096 - 1) div (2 * 4096)"
  define a1 where "a1 = sar (a + shl 1 12 - 1) 13"
  have "sint (a + 4096) = sint a + 4096" using assms by (subst sint_add_fit) simp_all
  then have "sint (a + 4096 - 1) = sint a + 4096 - 1" using assms by (subst sint_diff_fit) simp_all
  then have a1: "sint a1 = m" by (simp add: a1_def sint_sar m_def)
  have m: "8192 * m \<le> sint a + 4095" "sint a + 4095 < 8192 * m + 8192"
    unfolding m_def using div_bounds [of 8192 "sint a + 4095"] by simp_all
  then have mb: "0 \<le> m" "m \<le> 1023" using assms by linarith+
  have s: "sint (shl a1 13) = m * 8192"
  proof -
    have "shl a1 13 = a1 * 8192" by (simp add: push_bit_eq_mult)
    moreover have "sint (a1 * 8192) = m * 8192" using mb a1 by (subst sint_mult_fit) simp_all
    ultimately show ?thesis by simp
  qed
  have a0: "sint (a - shl a1 13) = sint a - m * 8192" using m assms by (subst sint_diff_fit) (simp_all add: s)
  have e: "power2round a = (a1, a - shl a1 13)" by (simp add: power2round_def a1_def Let_def)
  show "0 \<le> sint (fst (power2round a))" "sint (fst (power2round a)) < 1024"
    "- 4096 < sint (snd (power2round a))" "sint (snd (power2round a)) \<le> 4096"
    "sint (fst (power2round a)) * 8192 + sint (snd (power2round a)) = sint a"
    using a1 a0 mb m by (simp_all add: e)
  have "mod_pm (sint a) (2 * 4096) = sint a - m * 8192" unfolding m_def by (subst mod_pm_quot) simp_all
  then show "(sint (fst (power2round a)), sint (snd (power2round a))) = power2round_spec (sint a)"
    using a1 a0 assms by (simp add: e power2round_spec_def)
qed

section \<open>Decompose\<close>

text \<open>The quotients: \<open>1025 / 2^22\<close> and \<open>11275 / 2^24\<close> are close enough to \<open>1 / 4092\<close> and \<open>1 / 1488\<close>.\<close>

lemma decompose_quot_32:
  fixes a :: int
  assumes "0 \<le> a" "a < 8380417"
  shows "((a + 127) div 128 * 1025 + 2097152) div 4194304 = (a + 261888 - 1) div (2 * 261888)"
proof -
  define c m where "c = (a + 127) div 128" and "m = (a + 261888 - 1) div (2 * 261888)"
  have c: "128 * c \<le> a + 127" "a + 127 < 128 * c + 128" unfolding c_def by (rule div_bounds; simp)+
  have m: "523776 * m \<le> a + 261887" "a + 261887 < 523776 * m + 523776"
    using div_bounds [of 523776 "a + 261887"] by (simp_all add: m_def)
  have mb: "0 \<le> m" "m \<le> 16" using m assms by linarith+
  have "4092 * m \<le> c + 2045" "c + 2045 < 4092 * m + 4092" using c m by linarith+
  then have "4194304 * m \<le> c * 1025 + 2097152" "c * 1025 + 2097152 < 4194304 * m + 4194304"
    using mb by linarith+
  then have "(c * 1025 + 2097152) div 4194304 = m"
    by (intro int_div_pos_eq [where r = "c * 1025 + 2097152 - 4194304 * m"]) auto
  then show ?thesis by (simp add: c_def m_def)
qed

lemma decompose_quot_88:
  fixes a :: int
  assumes "0 \<le> a" "a < 8380417"
  shows "((a + 127) div 128 * 11275 + 8388608) div 16777216 = (a + 95232 - 1) div (2 * 95232)"
proof -
  define c m where "c = (a + 127) div 128" and "m = (a + 95232 - 1) div (2 * 95232)"
  have c: "128 * c \<le> a + 127" "a + 127 < 128 * c + 128" unfolding c_def by (rule div_bounds; simp)+
  have m: "190464 * m \<le> a + 95231" "a + 95231 < 190464 * m + 190464"
    using div_bounds [of 190464 "a + 95231"] by (simp_all add: m_def)
  have mb: "0 \<le> m" "m \<le> 44" using m assms by linarith+
  have "1488 * m \<le> c + 743" "c + 743 < 1488 * m + 1488" using c m by linarith+
  then have "16777216 * m \<le> c * 11275 + 8388608" "c * 11275 + 8388608 < 16777216 * m + 16777216"
    using mb by linarith+
  then have "(c * 11275 + 8388608) div 16777216 = m"
    by (intro int_div_pos_eq [where r = "c * 11275 + 8388608 - 16777216 * m"]) auto
  then show ?thesis by (simp add: c_def m_def)
qed

text \<open>The common tail: with the quotient reduced modulo its period, \<open>a0\<close> is centred.\<close>

lemma decompose_low:
  fixes a a1 g2 :: i32
  assumes "0 \<le> sint a" "sint a < 8380417" "0 \<le> sint a1" "sint a1 * (2 * sint g2) < 8380416"
    and "0 < sint g2" "sint g2 \<le> 261888"
    and "- 261888 < sint a - sint a1 * (2 * sint g2)"
  shows "sint (a - a1 * 2 * g2 - (sar (4190208 - (a - a1 * 2 * g2)) 31 AND 8380417)) =
    (if 4190208 < sint a - sint a1 * (2 * sint g2) then sint a - sint a1 * (2 * sint g2) - 8380417
     else sint a - sint a1 * (2 * sint g2))"
proof -
  have le: "sint a1 * 2 \<le> sint a1 * (2 * sint g2)" using assms(3,5) by (intro mult_left_mono) auto
  have m2: "sint (a1 * 2) = sint a1 * 2" using assms(3,4) le by (subst sint_mult_fit) simp_all
  have m: "sint (a1 * 2 * g2) = sint a1 * (2 * sint g2)"
  proof -
    have "0 \<le> sint a1 * (2 * sint g2)" using assms(3,5) by simp
    then show ?thesis using assms(4) by (subst sint_mult_fit) (simp_all add: m2 mult.assoc)
  qed
  define d where "d = a - a1 * 2 * g2"
  have nonneg: "0 \<le> sint a1 * (2 * sint g2)" using assms(3,5) by simp
  have d: "sint d = sint a - sint a1 * (2 * sint g2)"
    unfolding d_def using assms(1,2,4) nonneg by (subst sint_diff_fit) (simp_all add: m)
  have db: "- 261888 < sint d" "sint d < 8380417" using d assms(2,7) nonneg by linarith+
  have "sint (4190208 - d) = 4190208 - sint d" using db by (subst sint_diff_fit) simp_all
  then have "sar (4190208 - d) 31 = (if 4190208 < sint d then - 1 else 0)" by (simp add: sar31_cases)
  moreover have "sint (d - 8380417) = sint d - 8380417" if "4190208 < sint d"
    using db that by (subst sint_diff_fit) simp_all
  ultimately show ?thesis unfolding d_def [symmetric] by (simp add: d)
qed

lemma decompose_words:
  fixes a :: i32 and n k c :: nat
  assumes "0 \<le> sint a" "sint a < 8380417"
  shows "sint (sar (a + 127) 7) = (sint a + 127) div 128"
    and "0 \<le> (sint a + 127) div 128" "(sint a + 127) div 128 \<le> 65473"
proof -
  have "sint (a + 127) = sint a + 127" using assms by (subst sint_add_fit) simp_all
  then show "sint (sar (a + 127) 7) = (sint a + 127) div 128" by (simp add: sint_sar)
  show "0 \<le> (sint a + 127) div 128" "(sint a + 127) div 128 \<le> 65473"
    using assms div_bounds [of 128 "sint a + 127"] by linarith+
qed

lemma decompose_32_exact:
  assumes "0 \<le> sint a" "sint a < 8380417"
  shows "(sint (fst (decompose_32 a)), sint (snd (decompose_32 a))) = decompose_spec 261888 (sint a)"
proof -
  define m where "m = (sint a + 261888 - 1) div (2 * 261888)"
  have m: "523776 * m \<le> sint a + 261887" "sint a + 261887 < 523776 * m + 523776"
    using div_bounds [of 523776 "sint a + 261887"] by (simp_all add: m_def)
  have mb: "0 \<le> m" "m \<le> 16" using m assms by linarith+
  note W = decompose_words [OF assms]
  define u where "u = sar (sar (a + 127) 7 * 1025 + shl 1 21) 22"
  have "sint (sar (a + 127) 7 * 1025) = (sint a + 127) div 128 * 1025"
    using W by (subst sint_mult_fit) simp_all
  then have "sint (sar (a + 127) 7 * 1025 + 2097152) = (sint a + 127) div 128 * 1025 + 2097152"
    using W by (subst sint_add_fit) simp_all
  then have u: "sint u = m"
    using decompose_quot_32 [OF assms] by (simp add: u_def sint_sar m_def)
  define a1 where "a1 = u AND 15"
  have a1: "sint a1 = (if m = 16 then 0 else m)"
  proof -
    have "uint u = m" using u mb sint_mod_width [of u] by simp
    moreover have "(15 :: i32) = mask 4" by (simp add: mask_eq_decr_exp)
    ultimately have "uint a1 = m mod 16" using uint_and_mask [of u 4] by (simp add: a1_def)
    then have "sint a1 = m mod 16" using mb by (subst sint_eq_uint_small) simp_all
    then show ?thesis using mb by auto
  qed
  have e: "decompose_32 a = (a1, a - a1 * 2 * 261888 - (sar (4190208 - (a - a1 * 2 * 261888)) 31 AND 8380417))"
    by (simp add: decompose_32_def Let_def a1_def u_def)
  have low: "sint (snd (decompose_32 a)) = (if 4190208 < sint a - sint a1 * 523776 then sint a - sint a1 * 523776 - 8380417
     else sint a - sint a1 * 523776)"
    using decompose_low [OF assms, of a1 261888] a1 m mb assms by (simp add: e split: if_splits)
  have spec: "decompose_spec 261888 (sint a) =
      (if m * (2 * 261888) = 8380416 then (0, sint a - 8380417) else (m, sint a - m * (2 * 261888)))"
    using assms by (intro decompose_spec_quot) (simp_all add: m_def)
  show ?thesis
  proof (cases "m = 16")
    case True
    then show ?thesis using low a1 m spec by (simp add: e)
  next
    case False
    then have "m \<le> 15" using mb by simp
    then show ?thesis using False low a1 m spec by (simp add: e)
  qed
qed

lemma decompose_88_exact:
  assumes "0 \<le> sint a" "sint a < 8380417"
  shows "(sint (fst (decompose_88 a)), sint (snd (decompose_88 a))) = decompose_spec 95232 (sint a)"
proof -
  define m where "m = (sint a + 95232 - 1) div (2 * 95232)"
  have m: "190464 * m \<le> sint a + 95231" "sint a + 95231 < 190464 * m + 190464"
    using div_bounds [of 190464 "sint a + 95231"] by (simp_all add: m_def)
  have mb: "0 \<le> m" "m \<le> 44" using m assms by linarith+
  note W = decompose_words [OF assms]
  define u where "u = sar (sar (a + 127) 7 * 11275 + shl 1 23) 24"
  have "sint (sar (a + 127) 7 * 11275) = (sint a + 127) div 128 * 11275"
    using W by (subst sint_mult_fit) simp_all
  then have "sint (sar (a + 127) 7 * 11275 + 8388608) = (sint a + 127) div 128 * 11275 + 8388608"
    using W by (subst sint_add_fit) simp_all
  then have u: "sint u = m"
    using decompose_quot_88 [OF assms] by (simp add: u_def sint_sar m_def)
  define a1 where "a1 = u XOR (sar (43 - u) 31 AND u)"
  have a1: "sint a1 = (if m = 44 then 0 else m)"
  proof -
    have "sint (43 - u) = 43 - m" using u mb by (subst sint_diff_fit) simp_all
    then have "sar (43 - u) 31 = (if 43 < m then - 1 else 0)" by (simp add: sar31_cases)
    then show ?thesis using mb u by (auto simp: a1_def)
  qed
  have e: "decompose_88 a = (a1, a - a1 * 2 * 95232 - (sar (4190208 - (a - a1 * 2 * 95232)) 31 AND 8380417))"
    by (simp add: decompose_88_def Let_def a1_def u_def)
  have low: "sint (snd (decompose_88 a)) = (if 4190208 < sint a - sint a1 * 190464 then sint a - sint a1 * 190464 - 8380417
     else sint a - sint a1 * 190464)"
    using decompose_low [OF assms, of a1 95232] a1 m mb assms by (simp add: e split: if_splits)
  have spec: "decompose_spec 95232 (sint a) =
      (if m * (2 * 95232) = 8380416 then (0, sint a - 8380417) else (m, sint a - m * (2 * 95232)))"
    using assms by (intro decompose_spec_quot) (simp_all add: m_def)
  show ?thesis
  proof (cases "m = 44")
    case True
    then show ?thesis using low a1 m spec by (simp add: e)
  next
    case False
    then have "m \<le> 43" using mb by simp
    then show ?thesis using False low a1 m spec by (simp add: e)
  qed
qed

text \<open>The range of a decomposition and how it reads back.\<close>

lemma decompose_spec_at:
  assumes "0 < g" "0 \<le> a" "a < 8380417" "- g < a - k * (2 * g)" "a - k * (2 * g) \<le> g"
  shows "decompose_spec g a = (if k * (2 * g) = 8380416 then (0, a - 8380417) else (k, a - k * (2 * g)))"
  using decompose_spec_quot [OF assms(1-3) quot_unique [OF assms(1,4,5), symmetric]] .

lemma decompose_spec_range:
  assumes "0 < g" "m * (2 * g) = 8380416" "0 \<le> r" "r < 8380417"
  shows "0 \<le> fst (decompose_spec g r)" "fst (decompose_spec g r) < m"
    and "\<bar>snd (decompose_spec g r)\<bar> \<le> g"
    and "modeq 8380417 (fst (decompose_spec g r) * (2 * g) + snd (decompose_spec g r)) r"
proof -
  define k where "k = (r + g - 1) div (2 * g)"
  have k: "2 * g * k \<le> r + g - 1" "r + g - 1 < 2 * g * k + 2 * g"
    unfolding k_def using assms(1) by (intro div_bounds; simp)+
  have k0: "0 \<le> k" unfolding k_def using assms by (intro pos_imp_zdiv_nonneg_iff [THEN iffD2]) auto
  have m0: "0 < m" using assms(1,2) by (metis mult_pos_pos not_less_iff_gr_or_eq zero_less_mult_pos2 zero_less_numeral)
  have spec: "decompose_spec g r = (if k * (2 * g) = 8380416 then (0, r - 8380417) else (k, r - k * (2 * g)))"
    using decompose_spec_quot [OF assms(1,3,4) k_def] .
  have km: "k \<le> m"
  proof (rule ccontr)
    assume "\<not> k \<le> m"
    then have "2 * g * (m + 1) \<le> 2 * g * k" using assms(1) by (intro mult_left_mono) auto
    then show False using k(1) assms by (simp add: algebra_simps)
  qed
  show "0 \<le> fst (decompose_spec g r)" using spec k0 by simp
  show "fst (decompose_spec g r) < m"
  proof (cases "k = m")
    case False
    then show ?thesis using spec km m0 by simp
  qed (use spec assms(2) m0 in simp)
  show "\<bar>snd (decompose_spec g r)\<bar> \<le> g" using spec k assms by (auto simp: algebra_simps abs_le_iff)
  show "modeq 8380417 (fst (decompose_spec g r) * (2 * g) + snd (decompose_spec g r)) r"
    using spec by (simp add: modeq_iff_dvd)
qed

section \<open>Hints\<close>

lemma mod_neg_small: "- q \<le> t \<Longrightarrow> t < 0 \<Longrightarrow> t mod q = t + q" for t q :: int
  by (subst mod_add_self2 [symmetric]) (rule mod_pos_pos_trivial, simp_all)

lemma sint_eq_iff: "(x :: 'a::len word) = y \<longleftrightarrow> sint x = sint y"
  by (auto intro: signed_word_eqI)

definition hint_needed :: "int \<Rightarrow> int \<Rightarrow> int \<Rightarrow> bool" where
  "hint_needed g t a1 \<longleftrightarrow> g < t \<or> t < - g \<or> t = - g \<and> a1 \<noteq> 0"

text \<open>
  The verifier sees \<open>a1 * 2 g + t\<close> modulo \<open>q\<close>, where \<open>t\<close> is the signer's low part after its corrections;
  as long as \<open>t\<close> stays below \<open>2 g\<close> in magnitude, one hint bit recovers \<open>a1\<close>.
\<close>

lemma use_hint_spec_recovers:
  assumes g: "0 < g" and m: "m * (2 * g) = 8380416" "2 \<le> m" and a1: "0 \<le> a1" "a1 < m" and t: "\<bar>t\<bar> < 2 * g"
  shows "use_hint_spec g (hint_needed g t a1) ((a1 * (2 * g) + t) mod 8380417) = a1"
proof -
  define G where "G = 2 * g"
  have mG: "m * G = 8380416" and G: "0 < G" "G = 2 * g" using m(1) g by (simp_all add: G_def)
  have mm: "8380416 div G = m" using mG G(1) by (intro int_div_pos_eq [where r = 0]) (auto simp: mult.commute)
  have "(a1 + 1) * G \<le> m * G" using a1 G(1) by (intro mult_right_mono) auto
  then have a1G: "a1 * G + G \<le> 8380416" "0 \<le> a1 * G" using mG a1(1) G(1) by (simp_all add: algebra_simps)
  have GG: "2 * G \<le> 8380416" using mult_right_mono [OF m(2), of G] G(1) mG by linarith
  have at: "decompose_spec g r = (if k = m then (0, r - 8380417) else (k, r - k * G))"
    if "0 \<le> r" "r < 8380417" "- g < r - k * G" "r - k * G \<le> g" for r k
  proof -
    have "k * G = 8380416 \<longleftrightarrow> k = m" using mG G(1) by (metis mult_cancel_right less_irrefl)
    then show ?thesis using decompose_spec_at [OF g that(1,2), of k] that(3,4) by (simp add: G_def)
  qed
  have U: "use_hint_spec g h r = (if h then (if 0 < snd (decompose_spec g r) then (fst (decompose_spec g r) + 1) mod m
      else (fst (decompose_spec g r) - 1) mod m) else fst (decompose_spec g r))" for h r
    by (simp add: use_hint_spec_def mm case_prod_beta Let_def flip: G_def)
  define r where "r = (a1 * G + t) mod 8380417"
  consider (mid) "- g < t" "t \<le> g" "0 \<le> a1 * G + t" | (zero) "- g \<le> t" "t < 0" "a1 = 0"
    | (high) "g < t" | (low) "t \<le> - g" "0 \<le> a1 * G + t" "a1 \<noteq> 0" | (wrap) "t < - g" "a1 = 0"
    using t a1G a1 G by (smt (verit, best) mult_less_cancel_right2 mult_cancel_right1)
  then have "use_hint_spec g (hint_needed g t a1) r = a1"
  proof cases
    case mid
    then have r: "r = a1 * G + t" unfolding r_def using a1G G by (intro mod_pos_pos_trivial) auto
    have "decompose_spec g r = (a1, t)" using mid a1 a1G G at [of r a1] by (simp add: r)
    then show ?thesis using mid by (simp add: U hint_needed_def)
  next
    case zero
    have r: "r = t + 8380417"
      unfolding r_def using zero GG G g by (simp add: mod_neg_small)
    have "0 \<le> r" "r < 8380417" "- g < r - m * G" "r - m * G \<le> g"
      using zero mG GG G g unfolding r by linarith+
    from at [OF this] have "decompose_spec g r = (0, t)" by (simp add: r)
    then show ?thesis using zero by (simp add: U hint_needed_def)
  next
    case high
    then have r: "r = a1 * G + t" unfolding r_def using a1G G t g by (intro mod_pos_pos_trivial) auto
    have D: "decompose_spec g r = (if a1 + 1 = m then (0, t - G - 1) else (a1 + 1, t - G))"
      using high a1 a1G G t g at [of r "a1 + 1"] mG by (auto simp: r algebra_simps)
    show ?thesis
    proof (cases "a1 + 1 = m")
      case True
      have "(- 1) mod m = m - 1" using m(2) by (simp add: zmod_minus1)
      then show ?thesis using D True high t G m(2) by (simp add: U hint_needed_def)
    next
      case False
      then show ?thesis using D high t G a1 by (simp add: U hint_needed_def)
    qed
  next
    case low
    then have r: "r = a1 * G + t" unfolding r_def using a1G G t g by (intro mod_pos_pos_trivial) auto
    have "decompose_spec g r = (a1 - 1, t + G)"
      using low a1 a1G G t g at [of r "a1 - 1"] by (auto simp: r algebra_simps)
    moreover have "hint_needed g t a1" using low by (auto simp: hint_needed_def)
    ultimately show ?thesis using low t G a1 by (simp add: U)
  next
    case wrap
    then have r: "r = t + 8380417"
      unfolding r_def using GG G t g by (simp add: mod_neg_small)
    have k: "(m - 1) * G = 8380416 - G" using mG by (simp add: algebra_simps)
    have "0 \<le> r" "r < 8380417" "- g < r - (m - 1) * G" "r - (m - 1) * G \<le> g"
      using wrap GG G g t unfolding r k by linarith+
    from at [OF this] have "decompose_spec g r = (m - 1, t + G + 1)" by (simp add: r k)
    then show ?thesis using wrap t G m(2) by (simp add: U hint_needed_def)
  qed
  then show ?thesis by (simp add: r_def G_def)
qed

lemma make_hint_eq:
  assumes "- 2147483648 < sint gamma2"
  shows "make_hint a0 a1 gamma2 = of_bool (hint_needed (sint gamma2) (sint a0) (sint a1))"
proof -
  have n: "sint (- gamma2) = - sint gamma2" using assms by (intro sint_minus_fit) simp
  have "a0 = - gamma2 \<longleftrightarrow> sint a0 = - sint gamma2" using n by (simp add: sint_eq_iff)
  moreover have "a1 = 0 \<longleftrightarrow> sint a1 = 0" by (simp add: sint_eq_iff)
  ultimately show ?thesis by (simp add: make_hint_def hint_needed_def word_sless_alt n)
qed

lemma use_hint_32_exact:
  assumes "0 \<le> sint a" "sint a < 8380417"
  shows "sint (use_hint_32 a h) = use_hint_spec 261888 (h \<noteq> 0) (sint a)"
proof -
  obtain a1 a0 where d: "decompose_32 a = (a1, a0)" by fastforce
  have s: "decompose_spec 261888 (sint a) = (sint a1, sint a0)" using decompose_32_exact [OF assms] by (simp add: d)
  have r: "0 \<le> sint a1" "sint a1 < 16" using decompose_spec_range(1,2) [of 261888 16 "sint a"] assms by (simp_all add: s)
  have mask: "sint (x AND 15) = sint x mod 16" for x :: i32
  proof -
    have "uint (x AND mask 4) = uint x mod 2 ^ 4" by (rule uint_and_mask)
    then have u: "uint (x AND 15) = uint x mod 16" by (simp add: mask_eq_decr_exp)
    also have "uint x mod 16 = sint x mod 2 ^ LENGTH(32) mod 16" by (simp only: sint_mod_width)
    also have "\<dots> = sint x mod 16" by (simp add: mod_mod_cancel)
    finally have "uint (x AND 15) = sint x mod 16" .
    moreover have "uint (x AND 15) < 16" by (simp add: u)
    then have "sint (x AND 15) = uint (x AND 15)" by (intro sint_eq_uint_small) simp
    ultimately show ?thesis by simp
  qed
  have "sint (a1 + 1) = sint a1 + 1" "sint (a1 - 1) = sint a1 - 1"
    using r by (subst sint_add_fit sint_diff_fit; simp)+
  then show ?thesis
    by (simp add: use_hint_32_def use_hint_spec_def d s mask word_sless_alt)
qed

lemma use_hint_88_exact:
  assumes "0 \<le> sint a" "sint a < 8380417"
  shows "sint (use_hint_88 a h) = use_hint_spec 95232 (h \<noteq> 0) (sint a)"
proof -
  obtain a1 a0 where d: "decompose_88 a = (a1, a0)" by fastforce
  have s: "decompose_spec 95232 (sint a) = (sint a1, sint a0)" using decompose_88_exact [OF assms] by (simp add: d)
  have r: "0 \<le> sint a1" "sint a1 < 44" using decompose_spec_range(1,2) [of 95232 44 "sint a"] assms by (simp_all add: s)
  have "sint (a1 + 1) = sint a1 + 1" "sint (a1 - 1) = sint a1 - 1"
    using r by (subst sint_add_fit sint_diff_fit; simp)+
  moreover have "a1 = 43 \<longleftrightarrow> sint a1 = 43" "a1 = 0 \<longleftrightarrow> sint a1 = 0"
    by (simp_all add: sint_eq_iff)
  moreover have "(- 1) mod 44 = (43 :: int)" by simp
  ultimately show ?thesis using r
    by (auto simp: use_hint_88_def use_hint_spec_def d s word_sless_alt)
qed

text \<open>The words of the code: one hint bit is enough for the verifier.\<close>

lemma hint_recovers:
  assumes "(g, m, use) \<in> {(261888, 16, use_hint_32), (95232, 44, use_hint_88)}"
    and "0 \<le> sint a1" "sint a1 < m" "\<bar>sint t\<bar> < 2 * g"
    and "sint r = (sint a1 * (2 * g) + sint t) mod 8380417"
  shows "use r (make_hint t a1 (word_of_int g)) = a1"
proof -
  have g: "0 < g" "m * (2 * g) = 8380416" "2 \<le> m" "sint (word_of_int g :: i32) = g" using assms(1) by auto
  have r: "0 \<le> sint r" "sint r < 8380417" using assms(5) by simp_all
  have h: "(make_hint t a1 (word_of_int g) \<noteq> 0) = hint_needed g (sint t) (sint a1)"
    using g by (simp add: make_hint_eq)
  have "sint (use r (make_hint t a1 (word_of_int g))) = use_hint_spec g (hint_needed g (sint t) (sint a1)) (sint r)"
    using assms(1) use_hint_32_exact [OF r] use_hint_88_exact [OF r] unfolding h [symmetric] by auto
  also have "\<dots> = sint a1" unfolding assms(5) by (rule use_hint_spec_recovers [OF g(1-3) assms(2-4)])
  finally show ?thesis by (rule signed_word_eqI)
qed

section \<open>Properties\<close>

text \<open>C34: both versions of \<open>decompose\<close> compute \<open>Decompose\<close> of FIPS 204 on every standard representative: the
  high part is below the number of intervals, the low part at most \<open>gamma2\<close> in magnitude, and together
  they read back as the input modulo \<open>q\<close>.\<close>

theorem mldsa_decompose_correct:
  assumes "0 \<le> sint a" "sint a < 8380417"
    and "(g, m, d) \<in> {(261888, 16, decompose_32 a), (95232, 44, decompose_88 a)}"
  shows "(sint (fst d), sint (snd d)) = decompose_spec g (sint a) \<and>
    0 \<le> sint (fst d) \<and> sint (fst d) < m \<and> \<bar>sint (snd d)\<bar> \<le> g \<and>
    (sint (fst d) * (2 * g) + sint (snd d)) mod 8380417 = sint a"
proof -
  have g: "0 < g" "m * (2 * g) = 8380416" using assms(3) by auto
  have d: "decompose_spec g (sint a) = (sint (fst d), sint (snd d))"
    using assms(3) decompose_32_exact [OF assms(1,2)] decompose_88_exact [OF assms(1,2)] by auto
  note R = decompose_spec_range [OF g assms(1,2), unfolded d fst_conv snd_conv]
  have "(sint (fst d) * (2 * g) + sint (snd d)) mod 8380417 = sint a"
    using R(4) assms(1,2) by (simp add: modeq_def)
  then show ?thesis using R d by simp
qed

theorem mldsa_decompose_correct_witness:
  "decompose_spec 261888 8118529 = (0, - 261888) \<and> decompose_32 8118529 = (0, - 261888) \<and>
   decompose_88 8285184 = (43, 95232)"
proof -
  have "decompose_32 8118529 = (0, - 261888)" "decompose_88 8285184 = (43, 95232)"
    by (simp_all add: decompose_32_def decompose_88_def)
  then show ?thesis using mldsa_decompose_correct [of 8118529 261888 16 "decompose_32 8118529"]
    by simp
qed

text \<open>C35: the hint: whenever the signer's low part \<open>t\<close> is below \<open>2 gamma2\<close> in magnitude, the hint bit
  \<open>make_hint t a1\<close> lets the verifier, who only sees \<open>a1 * 2 gamma2 + t\<close> modulo \<open>q\<close>, recover the high part
  \<open>a1\<close>, also across the wrap-around at \<open>q - 1\<close>.\<close>

theorem mldsa_hint_recovers:
  assumes "(g, m, use) \<in> {(261888, 16, use_hint_32), (95232, 44, use_hint_88)}"
    and "0 \<le> sint a1" "sint a1 < m" "\<bar>sint t\<bar> < 2 * g"
    and "sint r = (sint a1 * (2 * g) + sint t) mod 8380417"
  shows "use r (make_hint t a1 (word_of_int g)) = a1"
  by (rule hint_recovers [OF assms])

theorem mldsa_hint_recovers_witness:
  "use_hint_88 8289952 (make_hint 100000 43 95232) = 43"
  using mldsa_hint_recovers [of 95232 44 use_hint_88 43 100000 "8289952"] by simp

end
