(* ===== verification/Dsa_Poly.thy ===== *)
theory Dsa_Poly
  imports Dsa_Ntt Dsa_Rounding
begin

text \<open>
  The coefficient-wise operations of \<open>tools/pqc/mldsa/mldsa_poly.c\<close>.  An operation that updates its
  argument in place returns the new polynomial; one with two results returns the pair.
\<close>

definition mldsa_poly_reduce :: "dpoly \<Rightarrow> dpoly" where
  "mldsa_poly_reduce a = fold (\<lambda>i a. a[i := reduce32 (a ! i)]) [0..<MLDSA_PAR_N] a"

definition poly_caddq :: "dpoly \<Rightarrow> dpoly" where
  "poly_caddq a = fold (\<lambda>i a. a[i := caddq (a ! i)]) [0..<MLDSA_PAR_N] a"

definition mldsa_poly_add :: "dpoly \<Rightarrow> dpoly \<Rightarrow> dpoly" where
  "mldsa_poly_add a b = map (\<lambda>i. a ! i + b ! i) [0..<MLDSA_PAR_N]"

definition mldsa_poly_sub :: "dpoly \<Rightarrow> dpoly \<Rightarrow> dpoly" where
  "mldsa_poly_sub a b = map (\<lambda>i. a ! i - b ! i) [0..<MLDSA_PAR_N]"

definition poly_shiftl :: "dpoly \<Rightarrow> dpoly" where
  "poly_shiftl a = fold (\<lambda>i a. a[i := shl (a ! i) MLDSA_PAR_D]) [0..<MLDSA_PAR_N] a"

definition mldsa_poly_ntt :: "dpoly \<Rightarrow> dpoly" where
  "mldsa_poly_ntt a = mldsa_ntt a"

definition mldsa_poly_invntt_tomont :: "dpoly \<Rightarrow> dpoly" where
  "mldsa_poly_invntt_tomont a = mldsa_invntt a"

definition poly_pointwise_montgomery :: "dpoly \<Rightarrow> dpoly \<Rightarrow> dpoly" where
  "poly_pointwise_montgomery a b =
     map (\<lambda>i. mldsa_montgomery_reduce (sext64 (a ! i) * sext64 (b ! i))) [0..<MLDSA_PAR_N]"

definition poly_power2round :: "dpoly \<Rightarrow> dpoly \<times> dpoly" where
  "poly_power2round a =
     (map (\<lambda>i. fst (power2round (a ! i))) [0..<MLDSA_PAR_N],
      map (\<lambda>i. snd (power2round (a ! i))) [0..<MLDSA_PAR_N])"

definition poly_decompose :: "mldsa_param \<Rightarrow> dpoly \<Rightarrow> dpoly \<times> dpoly" where
  "poly_decompose par a =
     (if dsa_gamma2 par = (MLDSA_PAR_Q - 1) div 32
      then (map (\<lambda>i. fst (decompose_32 (a ! i))) [0..<MLDSA_PAR_N],
            map (\<lambda>i. snd (decompose_32 (a ! i))) [0..<MLDSA_PAR_N])
      else (map (\<lambda>i. fst (decompose_88 (a ! i))) [0..<MLDSA_PAR_N],
            map (\<lambda>i. snd (decompose_88 (a ! i))) [0..<MLDSA_PAR_N]))"

text \<open>The count and the hint polynomial.\<close>

definition poly_make_hint :: "mldsa_param \<Rightarrow> dpoly \<Rightarrow> dpoly \<Rightarrow> u32 \<times> dpoly" where
  "poly_make_hint par a0 a1 =
     fold (\<lambda>i (s, h). let h = h @ [make_hint (a0 ! i) (a1 ! i) (dsa_gamma2 par)] in (s + h ! i, h))
       [0..<MLDSA_PAR_N] (0, [])"

definition poly_use_hint :: "mldsa_param \<Rightarrow> dpoly \<Rightarrow> dpoly \<Rightarrow> dpoly" where
  "poly_use_hint par a h =
     (if dsa_gamma2 par = (MLDSA_PAR_Q - 1) div 32
      then map (\<lambda>i. use_hint_32 (a ! i) (h ! i)) [0..<MLDSA_PAR_N]
      else map (\<lambda>i. use_hint_88 (a ! i) (h ! i)) [0..<MLDSA_PAR_N])"

text \<open>\<open>True\<close> is the return value 1: the norm reaches the bound, or the bound is out of range.\<close>

definition poly_chknorm :: "dpoly \<Rightarrow> i32 \<Rightarrow> bool" where
  "poly_chknorm a bb =
     (if (MLDSA_PAR_Q - 1) div 8 <s bb then True
      else list_ex (\<lambda>i. let t = sar (a ! i) 31; t = a ! i - (t AND 2 * a ! i) in bb <=s t) [0..<MLDSA_PAR_N])"

end
