(* ===== verification/Dsa_Pack.thy ===== *)
theory Dsa_Pack
  imports Dsa_Params Bits
begin

text \<open>
  The serialisation routines of \<open>tools/pqc/mldsa/mldsa_poly.c\<close>.  A loop that packs groups of
  coefficients into groups of bytes is \<open>map_chunks\<close> of its body.  C evaluates the disjunctions at
  \<open>int\<close> or \<open>unsigned\<close> width and stores the low byte; a byte-wise disjunction of the low bytes is the same.
  For a parameter none of the branches mentions the C routines write nothing; no parameter set is such,
  and the model then returns an empty string or a zero polynomial.
\<close>

section \<open>Coefficients in \<open>[-eta, eta]\<close>\<close>

definition polyeta_pack2 :: "i32 list \<Rightarrow> u8 list" where
  "polyeta_pack2 a =
     (let t = map (\<lambda>x. sext8 (2 - x)) a
      in [shr (t ! 0) 0 OR shl (t ! 1) 3 OR shl (t ! 2) 6,
          shr (t ! 2) 2 OR shl (t ! 3) 1 OR shl (t ! 4) 4 OR shl (t ! 5) 7,
          shr (t ! 5) 1 OR shl (t ! 6) 2 OR shl (t ! 7) 5])"

definition polyeta_pack4 :: "i32 list \<Rightarrow> u8 list" where
  "polyeta_pack4 a = (let t = map (\<lambda>x. sext8 (4 - x)) a in [t ! 0 OR shl (t ! 1) 4])"

definition polyeta_pack :: "mldsa_param \<Rightarrow> dpoly \<Rightarrow> u8 list" where
  "polyeta_pack par a =
     (if dsa_eta par = 2 then map_chunks 8 (MLDSA_PAR_N div 8) polyeta_pack2 a
      else if dsa_eta par = 4 then map_chunks 2 (MLDSA_PAR_N div 2) polyeta_pack4 a
      else [])"

definition polyeta_unpack2 :: "u8 list \<Rightarrow> i32 list" where
  "polyeta_unpack2 b =
     (let a = map zext32 b
      in map (\<lambda>x. 2 - x)
        [shr (a ! 0) 0 AND 7,
         shr (a ! 0) 3 AND 7,
         (shr (a ! 0) 6 OR shl (a ! 1) 2) AND 7,
         shr (a ! 1) 1 AND 7,
         shr (a ! 1) 4 AND 7,
         (shr (a ! 1) 7 OR shl (a ! 2) 1) AND 7,
         shr (a ! 2) 2 AND 7,
         shr (a ! 2) 5 AND 7])"

definition polyeta_unpack4 :: "u8 list \<Rightarrow> i32 list" where
  "polyeta_unpack4 b = (let a = map zext32 b in map (\<lambda>x. 4 - x) [a ! 0 AND 0x0F, shr (a ! 0) 4])"

definition polyeta_unpack :: "mldsa_param \<Rightarrow> u8 list \<Rightarrow> dpoly" where
  "polyeta_unpack par a =
     (if dsa_eta par = 2 then map_chunks 3 (MLDSA_PAR_N div 8) polyeta_unpack2 a
      else if dsa_eta par = 4 then map_chunks 1 (MLDSA_PAR_N div 2) polyeta_unpack4 a
      else replicate MLDSA_PAR_N 0)"

section \<open>The high part of the public vector\<close>

definition polyt1_pack_group :: "i32 list \<Rightarrow> u8 list" where
  "polyt1_pack_group a =
     [zext8 (sar (a ! 0) 0),
      zext8 (sar (a ! 0) 8 OR shl (a ! 1) 2),
      zext8 (sar (a ! 1) 6 OR shl (a ! 2) 4),
      zext8 (sar (a ! 2) 4 OR shl (a ! 3) 6),
      zext8 (sar (a ! 3) 2)]"

definition polyt1_pack :: "dpoly \<Rightarrow> u8 list" where
  "polyt1_pack a = map_chunks 4 (MLDSA_PAR_N div 4) polyt1_pack_group a"

definition polyt1_unpack_group :: "u8 list \<Rightarrow> i32 list" where
  "polyt1_unpack_group b =
     (let a = map zext32 b
      in [(shr (a ! 0) 0 OR shl (a ! 1) 8) AND 0x3FF,
          (shr (a ! 1) 2 OR shl (a ! 2) 6) AND 0x3FF,
          (shr (a ! 2) 4 OR shl (a ! 3) 4) AND 0x3FF,
          (shr (a ! 3) 6 OR shl (a ! 4) 2) AND 0x3FF])"

definition polyt1_unpack :: "u8 list \<Rightarrow> dpoly" where
  "polyt1_unpack a = map_chunks 5 (MLDSA_PAR_N div 4) polyt1_unpack_group a"

section \<open>The low part of the public vector\<close>

definition polyt0_pack_group :: "i32 list \<Rightarrow> u8 list" where
  "polyt0_pack_group a =
     (let t = map (\<lambda>x. shl 1 (MLDSA_PAR_D - 1) - x) a
      in [zext8 (t ! 0),
          zext8 (shr (t ! 0) 8) OR zext8 (shl (t ! 1) 5),
          zext8 (shr (t ! 1) 3),
          zext8 (shr (t ! 1) 11) OR zext8 (shl (t ! 2) 2),
          zext8 (shr (t ! 2) 6) OR zext8 (shl (t ! 3) 7),
          zext8 (shr (t ! 3) 1),
          zext8 (shr (t ! 3) 9) OR zext8 (shl (t ! 4) 4),
          zext8 (shr (t ! 4) 4),
          zext8 (shr (t ! 4) 12) OR zext8 (shl (t ! 5) 1),
          zext8 (shr (t ! 5) 7) OR zext8 (shl (t ! 6) 6),
          zext8 (shr (t ! 6) 2),
          zext8 (shr (t ! 6) 10) OR zext8 (shl (t ! 7) 3),
          zext8 (shr (t ! 7) 5)])"

definition polyt0_pack :: "dpoly \<Rightarrow> u8 list" where
  "polyt0_pack a = map_chunks 8 (MLDSA_PAR_N div 8) polyt0_pack_group a"

definition polyt0_unpack_group :: "u8 list \<Rightarrow> i32 list" where
  "polyt0_unpack_group b =
     (let a = map zext32 b
      in map (\<lambda>x. shl 1 (MLDSA_PAR_D - 1) - x)
        [(a ! 0 OR shl (a ! 1) 8) AND 0x1FFF,
         (shr (a ! 1) 5 OR shl (a ! 2) 3 OR shl (a ! 3) 11) AND 0x1FFF,
         (shr (a ! 3) 2 OR shl (a ! 4) 6) AND 0x1FFF,
         (shr (a ! 4) 7 OR shl (a ! 5) 1 OR shl (a ! 6) 9) AND 0x1FFF,
         (shr (a ! 6) 4 OR shl (a ! 7) 4 OR shl (a ! 8) 12) AND 0x1FFF,
         (shr (a ! 8) 1 OR shl (a ! 9) 7) AND 0x1FFF,
         (shr (a ! 9) 6 OR shl (a ! 10) 2 OR shl (a ! 11) 10) AND 0x1FFF,
         (shr (a ! 11) 3 OR shl (a ! 12) 5) AND 0x1FFF])"

definition polyt0_unpack :: "u8 list \<Rightarrow> dpoly" where
  "polyt0_unpack a = map_chunks 13 (MLDSA_PAR_N div 8) polyt0_unpack_group a"

section \<open>The response vector\<close>

definition polyz_pack17 :: "i32 list \<Rightarrow> u8 list" where
  "polyz_pack17 a =
     (let t = map (\<lambda>x. shl 1 17 - x) a
      in [zext8 (t ! 0),
          zext8 (shr (t ! 0) 8),
          zext8 (shr (t ! 0) 16) OR zext8 (shl (t ! 1) 2),
          zext8 (shr (t ! 1) 6),
          zext8 (shr (t ! 1) 14) OR zext8 (shl (t ! 2) 4),
          zext8 (shr (t ! 2) 4),
          zext8 (shr (t ! 2) 12) OR zext8 (shl (t ! 3) 6),
          zext8 (shr (t ! 3) 2),
          zext8 (shr (t ! 3) 10)])"

definition polyz_pack19 :: "i32 list \<Rightarrow> u8 list" where
  "polyz_pack19 a =
     (let t = map (\<lambda>x. shl 1 19 - x) a
      in [zext8 (t ! 0),
          zext8 (shr (t ! 0) 8),
          zext8 (shr (t ! 0) 16) OR zext8 (shl (t ! 1) 4),
          zext8 (shr (t ! 1) 4),
          zext8 (shr (t ! 1) 12)])"

definition polyz_pack :: "mldsa_param \<Rightarrow> dpoly \<Rightarrow> u8 list" where
  "polyz_pack par a =
     (if dsa_gamma1 par = shl 1 17 then map_chunks 4 (MLDSA_PAR_N div 4) polyz_pack17 a
      else if dsa_gamma1 par = shl 1 19 then map_chunks 2 (MLDSA_PAR_N div 2) polyz_pack19 a
      else [])"

definition polyz_unpack17 :: "u8 list \<Rightarrow> i32 list" where
  "polyz_unpack17 b =
     (let a = map zext32 b
      in map (\<lambda>x. shl 1 17 - x)
        [(a ! 0 OR shl (a ! 1) 8 OR shl (a ! 2) 16) AND 0x3FFFF,
         (shr (a ! 2) 2 OR shl (a ! 3) 6 OR shl (a ! 4) 14) AND 0x3FFFF,
         (shr (a ! 4) 4 OR shl (a ! 5) 4 OR shl (a ! 6) 12) AND 0x3FFFF,
         (shr (a ! 6) 6 OR shl (a ! 7) 2 OR shl (a ! 8) 10) AND 0x3FFFF])"

definition polyz_unpack19 :: "u8 list \<Rightarrow> i32 list" where
  "polyz_unpack19 b =
     (let a = map zext32 b
      in map (\<lambda>x. shl 1 19 - x)
        [(a ! 0 OR shl (a ! 1) 8 OR shl (a ! 2) 16) AND 0xFFFFF,
         shr (a ! 2) 4 OR shl (a ! 3) 4 OR shl (a ! 4) 12])"

definition polyz_unpack :: "mldsa_param \<Rightarrow> u8 list \<Rightarrow> dpoly" where
  "polyz_unpack par a =
     (if dsa_gamma1 par = shl 1 17 then map_chunks 9 (MLDSA_PAR_N div 4) polyz_unpack17 a
      else if dsa_gamma1 par = shl 1 19 then map_chunks 5 (MLDSA_PAR_N div 2) polyz_unpack19 a
      else replicate MLDSA_PAR_N 0)"

section \<open>The high part of the commitment\<close>

definition polyw1_pack88 :: "i32 list \<Rightarrow> u8 list" where
  "polyw1_pack88 a =
     [zext8 (a ! 0) OR zext8 (shl (a ! 1) 6),
      zext8 (sar (a ! 1) 2) OR zext8 (shl (a ! 2) 4),
      zext8 (sar (a ! 2) 4) OR zext8 (shl (a ! 3) 2)]"

definition polyw1_pack32 :: "i32 list \<Rightarrow> u8 list" where
  "polyw1_pack32 a = [zext8 (a ! 0 OR shl (a ! 1) 4)]"

definition polyw1_pack :: "mldsa_param \<Rightarrow> dpoly \<Rightarrow> u8 list" where
  "polyw1_pack par a =
     (if dsa_gamma2 par = (MLDSA_PAR_Q - 1) div 88 then map_chunks 4 (MLDSA_PAR_N div 4) polyw1_pack88 a
      else map_chunks 2 (MLDSA_PAR_N div 2) polyw1_pack32 a)"

end
