(* ===== verification/Dsa_Sample.thy ===== *)
theory Dsa_Sample
  imports Dsa_Pack Dsa_Reduce Fips202_Api
begin

text \<open>
  \<open>tools/pqc/mldsa/symmetric-shake.c\<close> and the samplers of \<open>mldsa_poly.c\<close>.  The rejection loops have no
  bound, so they are partial functions and their callers return an option, \<open>None\<close> standing for a
  call that does not return.
\<close>

section \<open>Streams\<close>

text \<open>The \<open>keccak_state\<close> of the callers is uninitialised; the \<open>init\<close> functions set every part of it.\<close>

definition keccak_fresh :: keccak_state where
  "keccak_fresh = \<lparr>ks_s = replicate 25 0, ks_pos = 0\<rparr>"

definition dilithium_shake128_stream_init :: "keccak_state \<Rightarrow> u8 list \<Rightarrow> u16 \<Rightarrow> keccak_state" where
  "dilithium_shake128_stream_init state seed nonce =
     (let t = [zext8 nonce, zext8 (shr nonce 8)];
          state = shake128_init state;
          state = shake128_absorb state (take MLDSA_SEED_SZ seed);
          state = shake128_absorb state t
      in shake128_finalize state)"

definition dilithium_shake256_stream_init :: "keccak_state \<Rightarrow> u8 list \<Rightarrow> u16 \<Rightarrow> keccak_state" where
  "dilithium_shake256_stream_init state seed nonce =
     (let t = [zext8 nonce, zext8 (shr nonce 8)];
          state = shake256_init state;
          state = shake256_absorb state (take MLDSA_CRH_SZ seed);
          state = shake256_absorb state t
      in shake256_finalize state)"

abbreviation (input) STREAM128_BLOCKBYTES :: nat where "STREAM128_BLOCKBYTES \<equiv> SHAKE128_RATE"
abbreviation (input) STREAM256_BLOCKBYTES :: nat where "STREAM256_BLOCKBYTES \<equiv> SHAKE256_RATE"
abbreviation (input) "stream128_init \<equiv> dilithium_shake128_stream_init"
abbreviation (input) "stream256_init \<equiv> dilithium_shake256_stream_init"
abbreviation (input) "stream128_squeezeblocks \<equiv> shake128_squeezeblocks"
abbreviation (input) "stream256_squeezeblocks \<equiv> shake256_squeezeblocks"

section \<open>Uniform coefficients\<close>

text \<open>
  The samplers write through their pointer at most \<open>len\<close> coefficients, here into the array \<open>a\<close> from
  index \<open>off\<close> on, and return how many they wrote.
\<close>

function mldsa_rej_uniform_loop :: "dpoly \<Rightarrow> nat \<Rightarrow> nat \<Rightarrow> u8 list \<Rightarrow> nat \<Rightarrow> nat \<Rightarrow> nat \<Rightarrow> dpoly \<times> nat" where
  "mldsa_rej_uniform_loop a off len buf buflen ctr pos =
     (if ctr < len \<and> pos + 3 \<le> buflen
      then let t = zext32 (buf ! pos);
               t = t OR shl (zext32 (buf ! (pos + 1))) 8;
               t = t OR shl (zext32 (buf ! (pos + 2))) 16;
               t = t AND 0x7FFFFF;
               (a, ctr) = (if t < (MLDSA_PAR_Q :: u32) then (a[off + ctr := t], ctr + 1) else (a, ctr))
           in mldsa_rej_uniform_loop a off len buf buflen ctr (pos + 3)
      else (a, ctr))"
  by pat_completeness auto
termination
  by (relation "measure (\<lambda>(a, off, len, buf, buflen, ctr, pos). buflen - pos)") auto

definition mldsa_rej_uniform :: "dpoly \<Rightarrow> nat \<Rightarrow> nat \<Rightarrow> u8 list \<Rightarrow> nat \<Rightarrow> dpoly \<times> nat" where
  "mldsa_rej_uniform a off len buf buflen = mldsa_rej_uniform_loop a off len buf buflen 0 0"

abbreviation (input) POLY_UNIFORM_NBLOCKS :: nat where
  "POLY_UNIFORM_NBLOCKS \<equiv> (768 + STREAM128_BLOCKBYTES - 1) div STREAM128_BLOCKBYTES"

text \<open>The loop keeps the bytes the last pass left over at the end of its buffer.\<close>

partial_function (option) poly_uniform_refill ::
  "dpoly \<Rightarrow> nat \<Rightarrow> u8 list \<Rightarrow> nat \<Rightarrow> keccak_state \<Rightarrow> dpoly option" where
  "poly_uniform_refill a ctr buf buflen state =
     (if ctr < MLDSA_PAR_N
      then let off = buflen mod 3;
               rest = map (\<lambda>i. buf ! (buflen - off + i)) [0..<off];
               (out, state) = stream128_squeezeblocks 1 state;
               buf = rest @ out;
               buflen = STREAM128_BLOCKBYTES + off;
               (a, n) = mldsa_rej_uniform a ctr (MLDSA_PAR_N - ctr) buf buflen
           in poly_uniform_refill a (ctr + n) buf buflen state
      else Some a)"

text \<open>The coefficients are uninitialised before.\<close>

definition poly_uniform :: "u8 list \<Rightarrow> u16 \<Rightarrow> dpoly option" where
  "poly_uniform seed nonce =
     (let buflen = POLY_UNIFORM_NBLOCKS * STREAM128_BLOCKBYTES;
          state = stream128_init keccak_fresh seed nonce;
          (buf, state) = stream128_squeezeblocks POLY_UNIFORM_NBLOCKS state;
          (a, ctr) = mldsa_rej_uniform (replicate MLDSA_PAR_N 0) 0 MLDSA_PAR_N buf buflen
      in poly_uniform_refill a ctr buf buflen state)"

section \<open>Short coefficients\<close>

function rej_eta_2_loop :: "dpoly \<Rightarrow> nat \<Rightarrow> nat \<Rightarrow> u8 list \<Rightarrow> nat \<Rightarrow> nat \<Rightarrow> nat \<Rightarrow> dpoly \<times> nat" where
  "rej_eta_2_loop a off len buf buflen ctr pos =
     (if ctr < len \<and> pos < buflen
      then let t0 = zext32 (buf ! pos) AND 0x0F;
               t1 = shr (zext32 (buf ! pos)) 4;
               pos = pos + 1;
               (a, ctr) = (if t0 < 15
                 then (a[off + ctr := 2 - (t0 - shr (205 * t0) 10 * 5)], ctr + 1) else (a, ctr));
               (a, ctr) = (if t1 < 15 \<and> ctr < len
                 then (a[off + ctr := 2 - (t1 - shr (205 * t1) 10 * 5)], ctr + 1) else (a, ctr))
           in rej_eta_2_loop a off len buf buflen ctr pos
      else (a, ctr))"
  by pat_completeness auto
termination
  by (relation "measure (\<lambda>(a, off, len, buf, buflen, ctr, pos). buflen - pos)") auto

definition rej_eta_2 :: "dpoly \<Rightarrow> nat \<Rightarrow> nat \<Rightarrow> u8 list \<Rightarrow> nat \<Rightarrow> dpoly \<times> nat" where
  "rej_eta_2 a off len buf buflen = rej_eta_2_loop a off len buf buflen 0 0"

function rej_eta_4_loop :: "dpoly \<Rightarrow> nat \<Rightarrow> nat \<Rightarrow> u8 list \<Rightarrow> nat \<Rightarrow> nat \<Rightarrow> nat \<Rightarrow> dpoly \<times> nat" where
  "rej_eta_4_loop a off len buf buflen ctr pos =
     (if ctr < len \<and> pos < buflen
      then let t0 = zext32 (buf ! pos) AND 0x0F;
               t1 = shr (zext32 (buf ! pos)) 4;
               pos = pos + 1;
               (a, ctr) = (if t0 < 9 then (a[off + ctr := 4 - t0], ctr + 1) else (a, ctr));
               (a, ctr) = (if t1 < 9 \<and> ctr < len then (a[off + ctr := 4 - t1], ctr + 1) else (a, ctr))
           in rej_eta_4_loop a off len buf buflen ctr pos
      else (a, ctr))"
  by pat_completeness auto
termination
  by (relation "measure (\<lambda>(a, off, len, buf, buflen, ctr, pos). buflen - pos)") auto

definition rej_eta_4 :: "dpoly \<Rightarrow> nat \<Rightarrow> nat \<Rightarrow> u8 list \<Rightarrow> nat \<Rightarrow> dpoly \<times> nat" where
  "rej_eta_4 a off len buf buflen = rej_eta_4_loop a off len buf buflen 0 0"

abbreviation (input) POLY_UNIFORM_ETA_NBLOCKS_2 :: nat where
  "POLY_UNIFORM_ETA_NBLOCKS_2 \<equiv> (136 + STREAM256_BLOCKBYTES - 1) div STREAM256_BLOCKBYTES"
abbreviation (input) POLY_UNIFORM_ETA_NBLOCKS_4 :: nat where
  "POLY_UNIFORM_ETA_NBLOCKS_4 \<equiv> (227 + STREAM256_BLOCKBYTES - 1) div STREAM256_BLOCKBYTES"

partial_function (option) poly_uniform_eta_2_refill :: "dpoly \<Rightarrow> nat \<Rightarrow> keccak_state \<Rightarrow> dpoly option" where
  "poly_uniform_eta_2_refill a ctr state =
     (if ctr < MLDSA_PAR_N
      then let (buf, state) = stream256_squeezeblocks 1 state;
               (a, n) = rej_eta_2 a ctr (MLDSA_PAR_N - ctr) buf STREAM256_BLOCKBYTES
           in poly_uniform_eta_2_refill a (ctr + n) state
      else Some a)"

definition poly_uniform_eta_2 :: "u8 list \<Rightarrow> u16 \<Rightarrow> dpoly option" where
  "poly_uniform_eta_2 seed nonce =
     (let buflen = POLY_UNIFORM_ETA_NBLOCKS_2 * STREAM256_BLOCKBYTES;
          state = stream256_init keccak_fresh seed nonce;
          (buf, state) = stream256_squeezeblocks POLY_UNIFORM_ETA_NBLOCKS_2 state;
          (a, ctr) = rej_eta_2 (replicate MLDSA_PAR_N 0) 0 MLDSA_PAR_N buf buflen
      in poly_uniform_eta_2_refill a ctr state)"

partial_function (option) poly_uniform_eta_4_refill :: "dpoly \<Rightarrow> nat \<Rightarrow> keccak_state \<Rightarrow> dpoly option" where
  "poly_uniform_eta_4_refill a ctr state =
     (if ctr < MLDSA_PAR_N
      then let (buf, state) = stream256_squeezeblocks 1 state;
               (a, n) = rej_eta_4 a ctr (MLDSA_PAR_N - ctr) buf STREAM256_BLOCKBYTES
           in poly_uniform_eta_4_refill a (ctr + n) state
      else Some a)"

definition poly_uniform_eta_4 :: "u8 list \<Rightarrow> u16 \<Rightarrow> dpoly option" where
  "poly_uniform_eta_4 seed nonce =
     (let buflen = POLY_UNIFORM_ETA_NBLOCKS_4 * STREAM256_BLOCKBYTES;
          state = stream256_init keccak_fresh seed nonce;
          (buf, state) = stream256_squeezeblocks POLY_UNIFORM_ETA_NBLOCKS_4 state;
          (a, ctr) = rej_eta_4 (replicate MLDSA_PAR_N 0) 0 MLDSA_PAR_N buf buflen
      in poly_uniform_eta_4_refill a ctr state)"

text \<open>For another \<open>eta\<close>, which no parameter set has, C leaves the polynomial uninitialised.\<close>

definition poly_uniform_eta :: "mldsa_param \<Rightarrow> u8 list \<Rightarrow> u16 \<Rightarrow> dpoly option" where
  "poly_uniform_eta par seed nonce =
     (if dsa_eta par = 2 then poly_uniform_eta_2 seed nonce
      else if dsa_eta par = 4 then poly_uniform_eta_4 seed nonce
      else Some (replicate MLDSA_PAR_N 0))"

section \<open>The mask and the challenge\<close>

definition poly_uniform_gamma1 :: "mldsa_param \<Rightarrow> u8 list \<Rightarrow> u16 \<Rightarrow> dpoly" where
  "poly_uniform_gamma1 par seed nonce =
     (let state = stream256_init keccak_fresh seed nonce;
          (buf, state) = stream256_squeezeblocks
            ((dsa_pzp_sz par + STREAM256_BLOCKBYTES - 1) div STREAM256_BLOCKBYTES) state
      in polyz_unpack par buf)"

text \<open>The \<open>do ... while (b > i)\<close> loop: the accepted byte with the buffer, position and state after it.\<close>

partial_function (option) challenge_byte ::
  "nat \<Rightarrow> u8 list \<Rightarrow> nat \<Rightarrow> keccak_state \<Rightarrow> (nat \<times> u8 list \<times> nat \<times> keccak_state) option" where
  "challenge_byte i buf pos state =
     (let (buf, pos, state) =
            (if SHAKE256_RATE \<le> pos then let (buf, state) = shake256_squeezeblocks 1 state in (buf, 0, state)
             else (buf, pos, state));
          b = unat (buf ! pos);
          pos = pos + 1
      in if i < b then challenge_byte i buf pos state else Some (b, buf, pos, state))"

fun challenge_loop :: "nat list \<Rightarrow> u8 list \<Rightarrow> nat \<Rightarrow> keccak_state \<Rightarrow> u64 \<Rightarrow> dpoly \<Rightarrow> dpoly option" where
  "challenge_loop [] buf pos state signs c = Some c"
| "challenge_loop (i # is) buf pos state signs c =
     Option.bind (challenge_byte i buf pos state) (\<lambda>(b, buf, pos, state).
       let c = c[i := c ! b];
           c = c[b := sext32 (1 - 2 * (signs AND 1))];
           signs = shr signs 1
       in challenge_loop is buf pos state signs c)"

definition poly_challenge :: "mldsa_param \<Rightarrow> u8 list \<Rightarrow> dpoly option" where
  "poly_challenge par seed =
     (let state = shake256_init keccak_fresh;
          state = shake256_absorb state (take (dsa_cp_sz par) seed);
          state = shake256_finalize state;
          (buf, state) = shake256_squeezeblocks 1 state;
          signs = fold (\<lambda>i signs. signs OR shl (zext64 (buf ! i)) (8 * i)) [0..<8] 0;
          pos = 8
      in challenge_loop [MLDSA_PAR_N - dsa_tau par..<MLDSA_PAR_N] buf pos state signs (replicate MLDSA_PAR_N 0))"

declare mldsa_rej_uniform_loop.simps [simp del] rej_eta_2_loop.simps [simp del] rej_eta_4_loop.simps [simp del]

end
