(* ===== verification/Dsa_Polyvec.thy ===== *)
theory Dsa_Polyvec
  imports Dsa_Poly Dsa_Sample
begin

text \<open>
  \<open>tools/pqc/mldsa/polyvec.c\<close>: the operations on vectors of length \<open>ell\<close> and \<open>k\<close>.  Each loop over the
  entries is \<open>map\<close> over the indices; a sampling loop returns when every one of its calls does.
\<close>

definition polyvec_matrix_expand :: "mldsa_param \<Rightarrow> u8 list \<Rightarrow> dmat option" where
  "polyvec_matrix_expand par rho =
     those (map (\<lambda>i. those (map (\<lambda>j.
         poly_uniform rho (zext16 (shl (of_nat i :: u32) 8 + of_nat j))) [0..<dsa_ell par])) [0..<dsa_k par])"

definition polyvecl_uniform_eta :: "mldsa_param \<Rightarrow> u8 list \<Rightarrow> u16 \<Rightarrow> dvec option" where
  "polyvecl_uniform_eta par seed nonce =
     those (map (\<lambda>i. poly_uniform_eta par seed (nonce + of_nat i)) [0..<dsa_ell par])"

definition polyvecl_uniform_gamma1 :: "mldsa_param \<Rightarrow> u8 list \<Rightarrow> u16 \<Rightarrow> dvec" where
  "polyvecl_uniform_gamma1 par seed nonce =
     map (\<lambda>i. poly_uniform_gamma1 par seed (zext16 ((of_nat (dsa_ell par) :: u32) * zext32 nonce + of_nat i)))
       [0..<dsa_ell par]"

definition polyvecl_reduce :: "mldsa_param \<Rightarrow> dvec \<Rightarrow> dvec" where
  "polyvecl_reduce par v = map (\<lambda>i. mldsa_poly_reduce (v ! i)) [0..<dsa_ell par]"

definition polyvecl_add :: "mldsa_param \<Rightarrow> dvec \<Rightarrow> dvec \<Rightarrow> dvec" where
  "polyvecl_add par u v = map (\<lambda>i. mldsa_poly_add (u ! i) (v ! i)) [0..<dsa_ell par]"

definition polyvecl_ntt :: "mldsa_param \<Rightarrow> dvec \<Rightarrow> dvec" where
  "polyvecl_ntt par v = map (\<lambda>i. mldsa_poly_ntt (v ! i)) [0..<dsa_ell par]"

definition polyvecl_invntt_tomont :: "mldsa_param \<Rightarrow> dvec \<Rightarrow> dvec" where
  "polyvecl_invntt_tomont par v = map (\<lambda>i. mldsa_poly_invntt_tomont (v ! i)) [0..<dsa_ell par]"

definition polyvecl_pointwise_poly_montgomery :: "mldsa_param \<Rightarrow> dpoly \<Rightarrow> dvec \<Rightarrow> dvec" where
  "polyvecl_pointwise_poly_montgomery par a v =
     map (\<lambda>i. poly_pointwise_montgomery a (v ! i)) [0..<dsa_ell par]"

definition polyvecl_pointwise_acc_montgomery :: "mldsa_param \<Rightarrow> dvec \<Rightarrow> dvec \<Rightarrow> dpoly" where
  "polyvecl_pointwise_acc_montgomery par u v =
     (let w = poly_pointwise_montgomery (u ! 0) (v ! 0)
      in fold (\<lambda>i w. let t = poly_pointwise_montgomery (u ! i) (v ! i) in mldsa_poly_add w t)
           [1..<dsa_ell par] w)"

definition polyvec_matrix_pointwise_montgomery :: "mldsa_param \<Rightarrow> dmat \<Rightarrow> dvec \<Rightarrow> dvec" where
  "polyvec_matrix_pointwise_montgomery par mat v =
     map (\<lambda>i. polyvecl_pointwise_acc_montgomery par (mat ! i) v) [0..<dsa_k par]"

definition polyvecl_chknorm :: "mldsa_param \<Rightarrow> dvec \<Rightarrow> i32 \<Rightarrow> bool" where
  "polyvecl_chknorm par v bound = list_ex (\<lambda>i. poly_chknorm (v ! i) bound) [0..<dsa_ell par]"

definition polyveck_uniform_eta :: "mldsa_param \<Rightarrow> u8 list \<Rightarrow> u16 \<Rightarrow> dvec option" where
  "polyveck_uniform_eta par seed nonce =
     those (map (\<lambda>i. poly_uniform_eta par seed (nonce + of_nat i)) [0..<dsa_k par])"

definition polyveck_reduce :: "mldsa_param \<Rightarrow> dvec \<Rightarrow> dvec" where
  "polyveck_reduce par v = map (\<lambda>i. mldsa_poly_reduce (v ! i)) [0..<dsa_k par]"

definition polyveck_caddq :: "mldsa_param \<Rightarrow> dvec \<Rightarrow> dvec" where
  "polyveck_caddq par v = map (\<lambda>i. poly_caddq (v ! i)) [0..<dsa_k par]"

definition polyveck_add :: "mldsa_param \<Rightarrow> dvec \<Rightarrow> dvec \<Rightarrow> dvec" where
  "polyveck_add par u v = map (\<lambda>i. mldsa_poly_add (u ! i) (v ! i)) [0..<dsa_k par]"

definition polyveck_sub :: "mldsa_param \<Rightarrow> dvec \<Rightarrow> dvec \<Rightarrow> dvec" where
  "polyveck_sub par u v = map (\<lambda>i. mldsa_poly_sub (u ! i) (v ! i)) [0..<dsa_k par]"

definition polyveck_shiftl :: "mldsa_param \<Rightarrow> dvec \<Rightarrow> dvec" where
  "polyveck_shiftl par v = map (\<lambda>i. poly_shiftl (v ! i)) [0..<dsa_k par]"

definition polyveck_ntt :: "mldsa_param \<Rightarrow> dvec \<Rightarrow> dvec" where
  "polyveck_ntt par v = map (\<lambda>i. mldsa_poly_ntt (v ! i)) [0..<dsa_k par]"

definition polyveck_invntt_tomont :: "mldsa_param \<Rightarrow> dvec \<Rightarrow> dvec" where
  "polyveck_invntt_tomont par v = map (\<lambda>i. mldsa_poly_invntt_tomont (v ! i)) [0..<dsa_k par]"

definition polyveck_pointwise_poly_montgomery :: "mldsa_param \<Rightarrow> dpoly \<Rightarrow> dvec \<Rightarrow> dvec" where
  "polyveck_pointwise_poly_montgomery par a v =
     map (\<lambda>i. poly_pointwise_montgomery a (v ! i)) [0..<dsa_k par]"

definition polyveck_chknorm :: "mldsa_param \<Rightarrow> dvec \<Rightarrow> i32 \<Rightarrow> bool" where
  "polyveck_chknorm par v bound = list_ex (\<lambda>i. poly_chknorm (v ! i) bound) [0..<dsa_k par]"

definition polyveck_power2round :: "mldsa_param \<Rightarrow> dvec \<Rightarrow> dvec \<times> dvec" where
  "polyveck_power2round par v =
     (map (\<lambda>i. fst (poly_power2round (v ! i))) [0..<dsa_k par],
      map (\<lambda>i. snd (poly_power2round (v ! i))) [0..<dsa_k par])"

definition polyveck_decompose :: "mldsa_param \<Rightarrow> dvec \<Rightarrow> dvec \<times> dvec" where
  "polyveck_decompose par v =
     (map (\<lambda>i. fst (poly_decompose par (v ! i))) [0..<dsa_k par],
      map (\<lambda>i. snd (poly_decompose par (v ! i))) [0..<dsa_k par])"

definition polyveck_make_hint :: "mldsa_param \<Rightarrow> dvec \<Rightarrow> dvec \<Rightarrow> u32 \<times> dvec" where
  "polyveck_make_hint par v0 v1 =
     fold (\<lambda>i (s, h). let (n, p) = poly_make_hint par (v0 ! i) (v1 ! i) in (s + n, h @ [p]))
       [0..<dsa_k par] (0, [])"

definition polyveck_use_hint :: "mldsa_param \<Rightarrow> dvec \<Rightarrow> dvec \<Rightarrow> dvec" where
  "polyveck_use_hint par u h = map (\<lambda>i. poly_use_hint par (u ! i) (h ! i)) [0..<dsa_k par]"

definition polyveck_pack_w1 :: "mldsa_param \<Rightarrow> dvec \<Rightarrow> u8 list" where
  "polyveck_pack_w1 par w1 = concat (map (\<lambda>i. polyw1_pack par (w1 ! i)) [0..<dsa_k par])"

end
