(* ===== verification/Dsa_Ntt_Correct.thy ===== *)
theory Dsa_Ntt_Correct
  imports Dsa_Ntt Negacyclic
begin

text \<open>
  Correctness of \<open>mldsa_ntt.c\<close>.  As for ML-KEM each layer of the code is one \<open>ntt_pass\<close>, here of
  butterflies without reduction: the forward bound grows by \<open>q\<close> per layer and the inverse bound
  doubles, and the lemmas show how large the operands may be for no 32-bit value to wrap.
\<close>

section \<open>The forward transform\<close>

definition dsa_ct :: "i32 \<Rightarrow> i32 \<Rightarrow> i32 \<Rightarrow> i32 \<times> i32" where
  "dsa_ct zeta x y = (let t = dsa_mulr zeta y in (x + t, x - t))"

lemma mldsa_ntt_bfly_eq: "0 < len \<Longrightarrow> mldsa_ntt_bfly zeta len j a = bfly (dsa_ct zeta) len j a"
  by (simp add: mldsa_ntt_bfly_def bfly_def dsa_ct_def dsa_mulr_def Let_def list_update_swap)

text \<open>The product with a table entry is the product with the root it stands for.\<close>

lemma dsa_mulr_zeta:
  assumes "k < 256"
  shows "modeq 8380417 (sint (dsa_mulr (mldsa_zetas ! k) y)) (dsa_root k * sint y)"
    and "\<bar>sint (dsa_mulr (mldsa_zetas ! k) y)\<bar> < 8380417"
proof -
  have s: "\<bar>sint (mldsa_zetas ! k) * sint y\<bar> < 2147483648 * 8380417"
    using mldsa_zetas_small [OF assms] by (intro dsa_mulr_small_ok) simp
  show "\<bar>sint (dsa_mulr (mldsa_zetas ! k) y)\<bar> < 8380417" using s by (rule dsa_mulr_bound)
  have "modeq 8380417 (8265825 * (sint (mldsa_zetas ! k) * sint y)) (dsa_root k * sint y)"
    by (simp add: dsa_root_def sint_mldsa_zetas assms mult_ac)
  with dsa_mulr_modeq [OF s] show "modeq 8380417 (sint (dsa_mulr (mldsa_zetas ! k) y)) (dsa_root k * sint y)"
    by (rule modeq_trans)
qed

lemma dsa_ct_fwd:
  assumes "k < 256" "B + 8380416 \<le> 2147483647"
  shows "fwd_bfly 8380417 sint B (B + 8380416) (dsa_root k) (dsa_ct (mldsa_zetas ! k))"
  unfolding fwd_bfly_def
proof (intro allI impI)
  fix x y :: i32
  assume x: "\<bar>sint x\<bar> \<le> B" and y: "\<bar>sint y\<bar> \<le> B"
  let ?t = "dsa_mulr (mldsa_zetas ! k) y"
  note t = dsa_mulr_zeta [OF assms(1), of y]
  have "sint (x + ?t) = sint x + sint ?t"
    using t(2) x assms(2) by (intro sint_add_fit) (simp_all add: abs_le_iff abs_less_iff)
  moreover have "sint (x - ?t) = sint x - sint ?t"
    using t(2) x assms(2) by (intro sint_diff_fit) (simp_all add: abs_le_iff abs_less_iff)
  ultimately show "modeq 8380417 (sint (fst (dsa_ct (mldsa_zetas ! k) x y))) (sint x + dsa_root k * sint y) \<and>
      modeq 8380417 (sint (snd (dsa_ct (mldsa_zetas ! k) x y))) (sint x - dsa_root k * sint y) \<and>
      \<bar>sint (fst (dsa_ct (mldsa_zetas ! k) x y))\<bar> \<le> B + 8380416 \<and>
      \<bar>sint (snd (dsa_ct (mldsa_zetas ! k) x y))\<bar> \<le> B + 8380416"
    using t x by (auto simp: dsa_ct_def Let_def intro: modeq_add modeq_diff)
qed

lemma mldsa_ntt_block_eq:
  "0 < len \<Longrightarrow> mldsa_ntt_block len k start = fold (bfly (dsa_ct (mldsa_zetas ! Suc k)) len) [start..<start + len]"
  unfolding mldsa_ntt_block_def Let_def fun_eq_iff
  by (intro allI fold_cong) (auto simp: fun_eq_iff mldsa_ntt_bfly_eq)

lemma mldsa_ntt_layers_step:
  assumes "l < 8"
  shows "mldsa_ntt_layers (2 ^ (8 - Suc l)) (2 ^ l - 1) a =
    mldsa_ntt_layers (2 ^ (8 - Suc l) div 2) (2 ^ Suc l - 1)
      (ntt_pass (\<lambda>b. dsa_ct (mldsa_zetas ! (2 ^ l + b))) (2 ^ (8 - Suc l)) (2 ^ l) a)"
proof -
  let ?len = "2 ^ (8 - Suc l) :: nat"
  have n: "256 = 2 ^ l * (2 * ?len)" using dsa_tree.pass_size [OF assms] by simp
  have k: "Suc (2 ^ l - 1 + b) = (2 :: nat) ^ l + b" "(2 :: nat) ^ l - 1 + 2 ^ l = 2 ^ Suc l - 1" for b
    using one_le_power [of "2 :: nat" l] by simp_all
  have "for_blocks 256 Suc (mldsa_ntt_block ?len) ?len 0 (2 ^ l - 1) a =
     (2 ^ Suc l - 1, ntt_pass (\<lambda>b. dsa_ct (mldsa_zetas ! (2 ^ l + b))) ?len (2 ^ l) a)"
    using for_blocks_fold [of ?len 0 "2 ^ l" Suc "mldsa_ntt_block ?len" "2 ^ l - 1" a]
    unfolding n [symmetric] ntt_pass_def funpow_Suc k
    by (simp add: mldsa_ntt_block_eq k del: One_nat_def)
  then show ?thesis by (subst mldsa_ntt_layers.simps) (simp only: if_True prod.case Let_def, simp)
qed

lemma mldsa_ntt_layers_rep:
  assumes "l \<le> 8" "length r = 256" "layer_rep 8380417 dsa_root 8 1 a l (\<lambda>i. sint (r ! i))"
    and "\<forall>x \<in> set r. \<bar>sint x\<bar> \<le> B" "B + 8380416 * (8 - int l) \<le> 2147483647"
  defines "r' \<equiv> mldsa_ntt_layers (2 ^ (8 - l) div 2) (2 ^ l - 1) r"
  shows "length r' = 256 \<and> layer_rep 8380417 dsa_root 8 1 a 8 (\<lambda>i. sint (r' ! i)) \<and>
    (\<forall>x \<in> set r'. \<bar>sint x\<bar> \<le> B + 8380416 * (8 - int l))"
  using assms(1-5) unfolding r'_def
proof (induction "8 - l" arbitrary: l r B)
  case 0
  then show ?case by (simp add: mldsa_ntt_layers.simps)
next
  case (Suc d)
  then have l: "l < 8" "d = 8 - Suc l" by auto
  let ?r = "ntt_pass (\<lambda>b. dsa_ct (mldsa_zetas ! (2 ^ l + b))) (2 ^ (8 - Suc l)) (2 ^ l) r"
  have f: "fwd_bfly 8380417 sint B (B + 8380416) (dsa_root (2 ^ l + b)) (dsa_ct (mldsa_zetas ! (2 ^ l + b)))"
    if "b < 2 ^ l" for b
    using dsa_tree.node_lt [OF l(1) that] Suc.prems(5) l(1) by (intro dsa_ct_fwd) auto
  have len: "length r = 2 ^ 8" using Suc.prems(2) by simp
  note P = dsa_tree.forward_pass [OF l(1) len Suc.prems(3,4) f]
  have B: "B + 8380416 + 8380416 * (8 - int (Suc l)) = B + 8380416 * (8 - int l)" using l(1) by simp
  have e: "2 ^ (8 - l) div 2 = (2 ^ (8 - Suc l) :: nat)" using l(1) by (simp add: dsa_tree.half_size)
  show ?case
    using Suc.hyps(1) [OF l(2) _ _ P] Suc.prems(2,5) l(1) unfolding e mldsa_ntt_layers_step [OF l(1)] B
    by simp
qed

lemma mldsa_ntt_rep:
  assumes "dpoly_bounded B r" "B \<le> 2080440319"
  shows "dpoly_bounded (B + 67043328) (mldsa_ntt r)"
    and "layer_rep 8380417 dsa_root 8 1 (\<lambda>i. sint (r ! i)) 8 (\<lambda>i. sint (mldsa_ntt r ! i))"
  using mldsa_ntt_layers_rep [of 0 r "\<lambda>i. sint (r ! i)" B] assms
  by (simp_all add: layer_rep_0 mldsa_ntt_def dpoly_bounded_def)

section \<open>The inverse transform\<close>

definition dsa_gs :: "i32 \<Rightarrow> i32 \<Rightarrow> i32 \<Rightarrow> i32 \<times> i32" where
  "dsa_gs zeta x y = (x + y, dsa_mulr zeta (x - y))"

lemma mldsa_invntt_bfly_eq:
  "0 < len \<Longrightarrow> mldsa_invntt_bfly zeta len j r = bfly (dsa_gs zeta) len j r"
  by (cases "j + len < length r")
    (simp_all add: mldsa_invntt_bfly_def bfly_def dsa_gs_def dsa_mulr_def Let_def list_update_beyond)

lemma mldsa_invntt_block_eq:
  "0 < len \<Longrightarrow> mldsa_invntt_block len k start =
     fold (bfly (dsa_gs (- (mldsa_zetas ! (k - 1)))) len) [start..<start + len]"
  unfolding mldsa_invntt_block_def Let_def fun_eq_iff
  by (intro allI fold_cong) (auto simp: fun_eq_iff mldsa_invntt_bfly_eq)

lemma dsa_mulr_neg_zeta:
  assumes "k < 256"
  shows "modeq 8380417 (sint (dsa_mulr (- (mldsa_zetas ! k)) y)) (- dsa_root k * sint y)"
    and "\<bar>sint (dsa_mulr (- (mldsa_zetas ! k)) y)\<bar> < 8380417"
proof -
  have z: "\<bar>sint (mldsa_zetas ! k)\<bar> \<le> 4190208" by (rule mldsa_zetas_small [OF assms])
  have n: "sint (- (mldsa_zetas ! k)) = - sint (mldsa_zetas ! k)"
    using z by (subst sint_minus_fit) (simp_all add: abs_le_iff)
  have s: "\<bar>sint (- (mldsa_zetas ! k)) * sint y\<bar> < 2147483648 * 8380417"
    using z by (intro dsa_mulr_small_ok) (simp add: n)
  show "\<bar>sint (dsa_mulr (- (mldsa_zetas ! k)) y)\<bar> < 8380417" using s by (rule dsa_mulr_bound)
  have "modeq 8380417 (8265825 * (sint (- (mldsa_zetas ! k)) * sint y)) (- dsa_root k * sint y)"
    by (simp add: dsa_root_def n sint_mldsa_zetas assms mult_ac)
  with dsa_mulr_modeq [OF s] show
    "modeq 8380417 (sint (dsa_mulr (- (mldsa_zetas ! k)) y)) (- dsa_root k * sint y)"
    by (rule modeq_trans)
qed

lemma dsa_gs_inv:
  assumes "k < 256" "8380417 \<le> B" "2 * B \<le> 2147483647"
  shows "inv_bfly 8380417 sint B (2 * B) (dsa_root k) (dsa_gs (- (mldsa_zetas ! k)))"
  unfolding inv_bfly_def
proof (intro allI impI)
  fix x y :: i32
  assume x: "\<bar>sint x\<bar> \<le> B" and y: "\<bar>sint y\<bar> \<le> B"
  have s: "sint (x + y) = sint x + sint y"
    using x y assms(3) by (intro sint_add_fit) (simp_all add: abs_le_iff)
  have d: "sint (x - y) = sint x - sint y"
    using x y assms(3) by (intro sint_diff_fit) (simp_all add: abs_le_iff)
  have "modeq 8380417 (sint (snd (dsa_gs (- (mldsa_zetas ! k)) x y))) (dsa_root k * (sint y - sint x))"
    using dsa_mulr_neg_zeta(1) [OF assms(1), of "x - y"] by (simp add: dsa_gs_def d algebra_simps)
  moreover have "\<bar>sint (snd (dsa_gs (- (mldsa_zetas ! k)) x y))\<bar> \<le> 2 * B"
    using dsa_mulr_neg_zeta(2) [OF assms(1), of "x - y"] assms(2) by (simp add: dsa_gs_def)
  ultimately show "modeq 8380417 (sint (fst (dsa_gs (- (mldsa_zetas ! k)) x y))) (sint x + sint y) \<and>
      modeq 8380417 (sint (snd (dsa_gs (- (mldsa_zetas ! k)) x y))) (dsa_root k * (sint y - sint x)) \<and>
      \<bar>sint (fst (dsa_gs (- (mldsa_zetas ! k)) x y))\<bar> \<le> 2 * B \<and>
      \<bar>sint (snd (dsa_gs (- (mldsa_zetas ! k)) x y))\<bar> \<le> 2 * B"
    using x y s by (simp add: dsa_gs_def)
qed

lemma mldsa_invntt_layers_step:
  assumes "l < 8"
  shows "mldsa_invntt_layers (2 ^ (8 - Suc l)) (2 ^ Suc l) r =
    mldsa_invntt_layers (2 ^ (8 - l)) (2 ^ l)
      (ntt_pass (\<lambda>b. dsa_gs (- (mldsa_zetas ! (2 ^ Suc l - 1 - b)))) (2 ^ (8 - Suc l)) (2 ^ l) r)"
proof -
  let ?len = "2 ^ (8 - Suc l) :: nat"
  have n: "256 = 2 ^ l * (2 * ?len)" using dsa_tree.pass_size [OF assms] by simp
  have "?len \<le> 2 ^ 7" by (intro power_increasing) auto
  then have len: "?len < 256" "2 * ?len = 2 ^ (8 - l)" "0 < ?len"
    using assms by (auto simp: Suc_diff_le simp flip: power_Suc)
  have "for_blocks 256 (\<lambda>k. k - 1) (mldsa_invntt_block ?len) ?len 0 (2 ^ Suc l) r =
     (2 ^ l, ntt_pass (\<lambda>b. dsa_gs (- (mldsa_zetas ! (2 ^ Suc l - 1 - b)))) ?len (2 ^ l) r)"
    using for_blocks_fold [of ?len 0 "2 ^ l" "\<lambda>k. k - 1" "mldsa_invntt_block ?len" "2 ^ Suc l" r]
    by (simp add: n ntt_pass_def mldsa_invntt_block_eq funpow_pred)
  then show ?thesis using len
    by (subst mldsa_invntt_layers.simps) (simp only: if_True prod.case Let_def simp_thms)
qed

text \<open>The operands may double over eight layers: \<open>8388607 = 2^23 - 1\<close> is the largest admissible bound.\<close>

lemma mldsa_invntt_layers_rep:
  assumes "l \<le> 8" "length r = 256" "layer_rep 8380417 dsa_root 8 c a l (\<lambda>i. sint (r ! i))"
    and "\<forall>x \<in> set r. \<bar>sint x\<bar> \<le> 2 ^ (8 - l) * 8388607"
  shows "length (mldsa_invntt_layers (2 ^ (8 - l)) (2 ^ l) r) = 256 \<and>
    layer_rep 8380417 dsa_root 8 (2 ^ l * c) a 0
      (\<lambda>i. sint (mldsa_invntt_layers (2 ^ (8 - l)) (2 ^ l) r ! i))"
  using assms
proof (induction l arbitrary: r c)
  case 0
  then show ?case by (simp add: mldsa_invntt_layers.simps)
next
  case (Suc l)
  then have l: "l < 8" and len: "length r = 2 ^ 8" by simp_all
  let ?r = "ntt_pass (\<lambda>b. dsa_gs (- (mldsa_zetas ! (2 ^ Suc l - 1 - b)))) (2 ^ (8 - Suc l)) (2 ^ l) r"
  have "(2 :: int) ^ (8 - Suc l) \<le> 2 ^ 7" by (intro power_increasing) auto
  then have "(2 :: int) ^ (8 - Suc l) \<le> 128" "(1 :: int) \<le> 2 ^ (8 - Suc l)" by simp_all
  then have B: "8380417 \<le> (2 :: int) ^ (8 - Suc l) * 8388607" "2 * ((2 :: int) ^ (8 - Suc l) * 8388607) \<le> 2147483647"
    by linarith+
  have f: "inv_bfly 8380417 sint (2 ^ (8 - Suc l) * 8388607) (2 * (2 ^ (8 - Suc l) * 8388607))
      (dsa_root (2 ^ Suc l - 1 - b)) (dsa_gs (- (mldsa_zetas ! (2 ^ Suc l - 1 - b))))" for b
  proof (rule dsa_gs_inv [OF _ B])
    have "(2 :: nat) ^ Suc l \<le> 2 ^ 8" using l by (intro power_increasing) auto
    then show "2 ^ Suc l - 1 - b < 256" by simp
  qed
  note P = dsa_tree.inverse_pass [OF l len Suc.prems(3,4) f]
  have e: "2 * (2 ^ (8 - Suc l) * 8388607) = (2 :: int) ^ (8 - l) * 8388607"
    using l by (simp add: Suc_diff_Suc [symmetric])
  have "length ?r = 256" using len by simp
  from Suc.IH [OF _ this P [unfolded e]] l show ?case
    unfolding mldsa_invntt_layers_step [OF l] by (simp add: mult_ac)
qed

text \<open>The last multiplication brings every word down to about half the modulus, whatever it was before.\<close>

lemma mldsa_invntt_rep:
  assumes "dpoly_bounded 8388607 r" "layer_rep 8380417 dsa_root 8 c a 8 (\<lambda>i. sint (r ! i))"
  shows "dpoly_bounded 4211197 (mldsa_invntt r)"
    and "i < 256 \<Longrightarrow> modeq 8380417 (sint (mldsa_invntt r ! i)) (4294967296 * c * a i)"
proof -
  let ?r = "mldsa_invntt_layers 1 256 r"
  have R: "length ?r = 256" "layer_rep 8380417 dsa_root 8 (256 * c) a 0 (\<lambda>i. sint (?r ! i))"
    using mldsa_invntt_layers_rep [OF _ _ assms(2)] assms(1) by (simp_all add: dpoly_bounded_def)
  have e: "mldsa_invntt r = map (dsa_mulr 41978) ?r"
    using fold_upt_map [of "dsa_mulr 41978" ?r] R(1) by (simp add: mldsa_invntt_def dsa_mulr_def)
  have s: "\<bar>sint (41978 :: i32) * sint x\<bar> < 2147483648 * 8380417" for x :: i32
    by (intro dsa_mulr_small_ok) simp
  have m: "\<bar>sint (dsa_mulr 41978 x)\<bar> \<le> 4211197" for x
  proof -
    have p: "sint (sext64 (41978 :: i32) * sext64 x) = 41978 * sint x" by (simp only: sint_mult_i32) simp
    have "\<bar>sint (sext64 (41978 :: i32) * sext64 x)\<bar> \<le> 2147483648 * 8380417"
      unfolding p using i32_range [of x] by linarith
    then obtain t where "sint (dsa_mulr 41978 x) * 4294967296 = 41978 * sint x - t * 8380417"
      "- 2147483648 \<le> t" "t < 2147483648"
      unfolding dsa_mulr_def p [symmetric] by (rule mldsa_montgomery_reduce_exact)
    then show ?thesis using i32_range [of x] by linarith
  qed
  show "dpoly_bounded 4211197 (mldsa_invntt r)"
    using R(1) m by (simp add: dpoly_bounded_def e)
  assume i: "i < 256"
  have ri: "modeq 8380417 (sint (?r ! i)) (256 * c * a i)"
    using R(2) i by (auto simp: layer_rep_def ntt_eval_0)
  have "modeq 8380417 (sint (dsa_mulr 41978 (?r ! i))) (8265825 * (sint (41978 :: i32) * (256 * c * a i)))"
    by (intro modeq_trans [OF dsa_mulr_modeq [OF s]] modeq_mult modeq_refl ri)
  also have "8265825 * (sint (41978 :: i32) * (256 * c * a i)) = 4294967296 * c * a i + 8380417 * (10598912 * (c * a i))"
    by simp
  also have "modeq 8380417 \<dots> (4294967296 * c * a i)" by (simp add: modeq_iff_dvd)
  finally show "modeq 8380417 (sint (mldsa_invntt r ! i)) (4294967296 * c * a i)"
    using R(1) i by (simp add: e)
qed

end
