(* ===== verification/Dsa_Poly_Correct.thy ===== *)
theory Dsa_Poly_Correct
  imports Dsa_Poly Dsa_Ntt_Correct
begin

text \<open>
  The coefficient-wise operations on bounded polynomials, and what a polynomial in the transformed
  domain represents.  \<open>dsa_rep B c f r\<close>: the array \<open>r\<close>, bounded by \<open>B\<close>, is \<open>c\<close> times the transform of the
  polynomial \<open>f\<close> modulo \<open>q\<close>.
\<close>

section \<open>Operations on coefficients\<close>

lemma length_mldsa_poly [simp]:
  "length (mldsa_poly_add a b) = 256" "length (mldsa_poly_sub a b) = 256"
  "length (poly_pointwise_montgomery a b) = 256"
  by (simp_all add: mldsa_poly_add_def mldsa_poly_sub_def poly_pointwise_montgomery_def)

lemma mldsa_poly_reduce_eq: "length r = 256 \<Longrightarrow> mldsa_poly_reduce r = map reduce32 r"
  using fold_upt_map [of reduce32 r] by (simp add: mldsa_poly_reduce_def)

lemma poly_caddq_eq: "length r = 256 \<Longrightarrow> poly_caddq r = map caddq r"
  using fold_upt_map [of caddq r] by (simp add: poly_caddq_def)

lemma poly_shiftl_eq: "length r = 256 \<Longrightarrow> poly_shiftl r = map (\<lambda>x. shl x 13) r"
  using fold_upt_map [of "\<lambda>x. shl x 13" r] by (simp add: poly_shiftl_def)

lemma dcoeff_add:
  assumes "dpoly_bounded A a" "dpoly_bounded B b" "A + B \<le> 2147483647" "i < 256"
  shows "dcoeff (mldsa_poly_add a b) i = dcoeff a i + dcoeff b i"
  using assms dpoly_bounded_nth [OF assms(1,4)] dpoly_bounded_nth [OF assms(2,4)]
  by (simp add: mldsa_poly_add_def dcoeff_def sint_add_fit abs_le_iff)

lemma dcoeff_sub:
  assumes "dpoly_bounded A a" "dpoly_bounded B b" "A + B \<le> 2147483647" "i < 256"
  shows "dcoeff (mldsa_poly_sub a b) i = dcoeff a i - dcoeff b i"
  using assms dpoly_bounded_nth [OF assms(1,4)] dpoly_bounded_nth [OF assms(2,4)]
  by (simp add: mldsa_poly_sub_def dcoeff_def sint_diff_fit abs_le_iff)

lemma dpoly_bounded_add:
  assumes "dpoly_bounded A a" "dpoly_bounded B b" "A + B \<le> 2147483647"
  shows "dpoly_bounded (A + B) (mldsa_poly_add a b)"
  unfolding dpoly_bounded_iff
  using dcoeff_add [OF assms] assms(1,2) [unfolded dpoly_bounded_iff]
  by (auto simp: abs_le_iff intro: order_trans [OF abs_triangle_ineq add_mono]) (smt (verit))+

lemma dpoly_bounded_sub:
  assumes "dpoly_bounded A a" "dpoly_bounded B b" "A + B \<le> 2147483647"
  shows "dpoly_bounded (A + B) (mldsa_poly_sub a b)"
  unfolding dpoly_bounded_iff
  using dcoeff_sub [OF assms] assms(1,2) [unfolded dpoly_bounded_iff]
  by (auto simp: abs_le_iff) (smt (verit))+

lemma dpoly_reduce:
  assumes "dpoly_bounded B r" "B < 2143289344"
  shows "dpoly_bounded 6283009 (mldsa_poly_reduce r)"
    and "i < 256 \<Longrightarrow> modeq 8380417 (dcoeff (mldsa_poly_reduce r) i) (dcoeff r i)"
proof -
  have r: "length r = 256" "sint x < 2143289344" if "x \<in> set r" for x
    using assms that by (auto simp: dpoly_bounded_def)
  have l: "length r = 256" using assms by (simp add: dpoly_bounded_def)
  show "dpoly_bounded 6283009 (mldsa_poly_reduce r)"
    using reduce32_bound [OF r(2)] l by (simp add: dpoly_bounded_def mldsa_poly_reduce_eq)
  show "modeq 8380417 (dcoeff (mldsa_poly_reduce r) i) (dcoeff r i)" if "i < 256"
    using reduce32_modeq [OF r(2), of "r ! i"] l that by (simp add: dcoeff_def mldsa_poly_reduce_eq)
qed

text \<open>Reducing a small polynomial does nothing.\<close>

lemma reduce32_small:
  assumes "\<bar>sint a\<bar> < 4194304"
  shows "reduce32 a = a"
proof (rule signed_word_eqI)
  have b: "- 4194304 < sint a" "sint a < 4194304" using assms by (simp_all only: abs_less_iff) linarith+
  then have "(sint a + 4194304) div 8388608 = 0" by (intro div_pos_pos_trivial) simp_all
  then show "sint (reduce32 a) = sint a" using b by (simp add: reduce32_exact(1))
qed

lemma dpoly_caddq:
  assumes "dpoly_bounded 8380416 r"
  shows "length (poly_caddq r) = 256"
    and "i < 256 \<Longrightarrow> dcoeff (poly_caddq r) i = dcoeff r i mod 8380417"
proof -
  have l: "length r = 256" using assms by (simp add: dpoly_bounded_def)
  then show "length (poly_caddq r) = 256" by (simp add: poly_caddq_eq)
  assume i: "i < 256"
  then have b: "\<bar>sint (r ! i)\<bar> < 8380417" using dpoly_bounded_nth [OF assms i] by simp
  have "modeq 8380417 (sint (caddq (r ! i))) (sint (r ! i) mod 8380417)"
    using caddq_modeq [of "r ! i"] by (simp add: modeq_def)
  then have "sint (caddq (r ! i)) = sint (r ! i) mod 8380417"
    by (rule modeq_bounded_eq) (use caddq_range [OF b] in simp_all)
  then show "dcoeff (poly_caddq r) i = dcoeff r i mod 8380417"
    using l i by (simp add: dcoeff_def poly_caddq_eq)
qed

lemma dpoly_shiftl:
  assumes "\<And>i. i < 256 \<Longrightarrow> 0 \<le> dcoeff r i \<and> dcoeff r i < 1024" "length r = 256"
  shows "dpoly_bounded 8380416 (poly_shiftl r)"
    and "i < 256 \<Longrightarrow> dcoeff (poly_shiftl r) i = 8192 * dcoeff r i"
proof -
  have e: "sint (shl (r ! i) 13) = 8192 * sint (r ! i)" if "i < 256" for i
  proof -
    have "shl (r ! i) 13 = r ! i * 8192" by (simp add: push_bit_eq_mult)
    moreover have "sint (r ! i * 8192) = sint (r ! i) * 8192"
      using assms(1) [OF that] by (subst sint_mult_fit) (simp_all add: dcoeff_def)
    ultimately show ?thesis by simp
  qed
  show d: "dcoeff (poly_shiftl r) i = 8192 * dcoeff r i" if "i < 256" for i
    using e [OF that] that assms(2) by (simp add: dcoeff_def poly_shiftl_eq)
  show "dpoly_bounded 8380416 (poly_shiftl r)"
  proof (rule dpoly_boundedI)
    fix i :: nat
    assume i: "i < 256"
    show "\<bar>sint (poly_shiftl r ! i)\<bar> \<le> 8380416"
      using d [OF i] assms(1) [OF i] by (simp add: dcoeff_def abs_le_iff)
  qed (use assms(2) in \<open>simp add: poly_shiftl_eq\<close>)
qed

text \<open>The infinity norm check is exact on every polynomial except at \<open>- 2^31\<close>, whose absolute value wraps.\<close>

lemma abs_word_eq:
  fixes x :: i32
  assumes "- 1073741824 \<le> sint x" "sint x < 1073741824"
  shows "sint (x - (sar x 31 AND 2 * x)) = \<bar>sint x\<bar>"
proof -
  have "sint (2 * x) = 2 * sint x" using assms by (subst sint_mult_fit) simp_all
  then show ?thesis using assms by (auto simp: sar31_cases sint_diff_fit)
qed

lemma poly_chknorm_iff:
  assumes "dpoly_bounded 1073741823 a"
  shows "poly_chknorm a b \<longleftrightarrow> 1047552 < sint b \<or> (\<exists>i<256. sint b \<le> \<bar>dcoeff a i\<bar>)"
proof -
  have "sint (a ! i - (sar (a ! i) 31 AND 2 * a ! i)) = \<bar>dcoeff a i\<bar>" if "i < 256" for i
    using dpoly_bounded_nth [OF assms that] by (simp add: dcoeff_def abs_word_eq abs_le_iff)
  then show ?thesis
    by (auto simp: poly_chknorm_def list_ex_iff word_sless_alt word_sle_eq Let_def)
qed

section \<open>Transformed polynomials\<close>

definition dsa_rep :: "int \<Rightarrow> int \<Rightarrow> (nat \<Rightarrow> int) \<Rightarrow> dpoly \<Rightarrow> bool" where
  "dsa_rep B c f r \<longleftrightarrow> dpoly_bounded B r \<and> layer_rep 8380417 dsa_root 8 c f 8 (dcoeff r)"

lemma dsa_rep_bounded: "dsa_rep B c f r \<Longrightarrow> dpoly_bounded B r"
  by (simp add: dsa_rep_def)

lemma dsa_rep_mono: "dsa_rep B c f r \<Longrightarrow> B \<le> B' \<Longrightarrow> dsa_rep B' c f r"
  by (auto simp: dsa_rep_def elim: dpoly_bounded_mono)

lemma dsa_rep_exists: "dpoly_bounded B r \<Longrightarrow> \<exists>f. dsa_rep B 1 f r"
  using dsa_tree.layer_rep_exists [of 8 "dcoeff r"] by (auto simp: dsa_rep_def)

lemma dsa_rep_modeq:
  assumes "dsa_rep B c f r" "dpoly_bounded B' s" "\<And>i. i < 256 \<Longrightarrow> modeq 8380417 (dcoeff s i) (dcoeff r i)"
  shows "dsa_rep B' c f s"
  using assms layer_rep_cong [of 8380417 dsa_root 8 c f 8 "dcoeff r" "dcoeff s"]
  by (simp add: dsa_rep_def)

lemma dsa_rep_ntt:
  assumes "dpoly_bounded B r" "B \<le> 2080440319"
  shows "dsa_rep (B + 67043328) 1 (dcoeff r) (mldsa_poly_ntt r)"
  using mldsa_ntt_rep [OF assms] by (simp add: dsa_rep_def mldsa_poly_ntt_def dcoeff_def [abs_def])

lemma dsa_rep_invntt:
  assumes "dsa_rep B c f r" "B \<le> 8388607"
  shows "dpoly_bounded 4211197 (mldsa_poly_invntt_tomont r)"
    and "i < 256 \<Longrightarrow> modeq 8380417 (dcoeff (mldsa_poly_invntt_tomont r) i) (4294967296 * c * f i)"
  using mldsa_invntt_rep [of r c f] dsa_rep_mono [OF assms]
  by (simp_all add: dsa_rep_def mldsa_poly_invntt_tomont_def dcoeff_def [abs_def])

lemma dsa_rep_add:
  assumes "dsa_rep A c f a" "dsa_rep B c g b" "A + B \<le> 2147483647"
  shows "dsa_rep (A + B) c (\<lambda>i. f i + g i) (mldsa_poly_add a b)"
proof -
  have ab: "dpoly_bounded A a" "dpoly_bounded B b" using assms by (simp_all add: dsa_rep_def)
  have "layer_rep 8380417 dsa_root 8 c (\<lambda>i. f i + g i) 8 (\<lambda>i. dcoeff a i + dcoeff b i)"
    using assms by (intro layer_rep_add) (simp_all add: dsa_rep_def)
  then have "layer_rep 8380417 dsa_root 8 c (\<lambda>i. f i + g i) 8 (dcoeff (mldsa_poly_add a b))"
    by (rule layer_rep_cong) (simp_all add: dcoeff_add [OF ab assms(3)])
  then show ?thesis using dpoly_bounded_add [OF ab assms(3)] by (simp add: dsa_rep_def)
qed

lemma dsa_rep_sub:
  assumes "dsa_rep A c f a" "dsa_rep B c g b" "A + B \<le> 2147483647"
  shows "dsa_rep (A + B) c (\<lambda>i. f i - g i) (mldsa_poly_sub a b)"
proof -
  have ab: "dpoly_bounded A a" "dpoly_bounded B b" using assms by (simp_all add: dsa_rep_def)
  have "layer_rep 8380417 dsa_root 8 c (\<lambda>i. f i - g i) 8 (\<lambda>i. dcoeff a i - dcoeff b i)"
    using assms by (intro layer_rep_diff) (simp_all add: dsa_rep_def)
  then have "layer_rep 8380417 dsa_root 8 c (\<lambda>i. f i - g i) 8 (dcoeff (mldsa_poly_sub a b))"
    by (rule layer_rep_cong) (simp_all add: dcoeff_sub [OF ab assms(3)])
  then show ?thesis using dpoly_bounded_sub [OF ab assms(3)] by (simp add: dsa_rep_def)
qed

lemma dsa_rep_reduce:
  assumes "dsa_rep B c f r" "B < 2143289344"
  shows "dsa_rep 6283009 c f (mldsa_poly_reduce r)"
proof (rule dsa_rep_modeq [OF assms(1)])
  note R = dpoly_reduce [OF dsa_rep_bounded [OF assms(1)] assms(2)]
  show "dpoly_bounded 6283009 (mldsa_poly_reduce r)" by (rule R(1))
  show "modeq 8380417 (dcoeff (mldsa_poly_reduce r) i) (dcoeff r i)" if "i < 256" for i
    using that by (rule R(2))
qed

text \<open>The product of the transforms is the transform of the product; \<open>8265825\<close> is \<open>2^-32\<close>.\<close>

lemma block_mult_1: "block_mult (Suc 0) g u v 0 = u 0 * v 0"
  by (simp add: block_mult_def)

lemma dsa_rep_pointwise:
  assumes a: "dsa_rep A 1 f a" and b: "dsa_rep B 1 g b" and AB: "A * B < 2147483648 * 8380417" "0 \<le> A"
  shows "dsa_rep 8380416 8265825 (negacyclic 256 f g) (poly_pointwise_montgomery a b)"
proof -
  have s: "\<bar>sint (a ! i) * sint (b ! i)\<bar> < 2147483648 * 8380417" if "i < 256" for i
  proof -
    have "\<bar>sint (a ! i) * sint (b ! i)\<bar> \<le> A * B"
      unfolding abs_mult using a b that AB(2)
      by (intro mult_mono dpoly_bounded_nth) (auto simp: dsa_rep_def)
    then show ?thesis using AB(1) by simp
  qed
  have n: "poly_pointwise_montgomery a b ! i = dsa_mulr (a ! i) (b ! i)" if "i < 256" for i
    using that by (simp add: poly_pointwise_montgomery_def dsa_mulr_def)
  have "dpoly_bounded 8380416 (poly_pointwise_montgomery a b)"
  proof (rule dpoly_boundedI)
    show "\<bar>sint (poly_pointwise_montgomery a b ! i)\<bar> \<le> 8380416" if "i < 256" for i
      using dsa_mulr_bound [OF s [OF that]] by (simp add: n that)
  qed simp
  moreover have "layer_rep 8380417 dsa_root 8 8265825 (negacyclic 256 f g) 8 (dcoeff (poly_pointwise_montgomery a b))"
    unfolding layer_rep_def
  proof (intro allI impI)
    fix k m :: nat
    assume k: "k < 2 ^ 8" and "m < 2 ^ (8 - 8)"
    then have m: "m = 0" and k': "k < 256" by simp_all
    define F G where "F = ntt_eval dsa_root 8 f 8 k" and "G = ntt_eval dsa_root 8 g 8 k"
    have A: "modeq 8380417 (sint (a ! k)) (F 0)" and B: "modeq 8380417 (sint (b ! k)) (G 0)"
      using a b k by (auto simp: dsa_rep_def layer_rep_def dcoeff_def F_def G_def)
    have "modeq 8380417 (dcoeff (poly_pointwise_montgomery a b) k) (8265825 * (sint (a ! k) * sint (b ! k)))"
      using dsa_mulr_modeq [OF s [OF k']] by (simp add: dcoeff_def n k')
    also have "modeq 8380417 \<dots> (8265825 * (F 0 * G 0))" by (intro modeq_mult modeq_refl A B)
    also have "F 0 * G 0 = block_mult (2 ^ (8 - 8)) (gam dsa_root (2 ^ 8 + k)) F G 0"
      by (simp add: block_mult_1)
    also have "modeq 8380417 (8265825 * block_mult (2 ^ (8 - 8)) (gam dsa_root (2 ^ 8 + k)) F G 0)
        (8265825 * ntt_eval dsa_root 8 (negacyclic (2 ^ 8) f g) 8 k 0)"
      unfolding F_def G_def
      by (intro modeq_mult modeq_refl modeq_sym [OF dsa_tree.eval_negacyclic]) (use k in simp_all)
    finally show "modeq 8380417 (dcoeff (poly_pointwise_montgomery a b) (k * 2 ^ (8 - 8) + m))
        (8265825 * ntt_eval dsa_root 8 (negacyclic 256 f g) 8 k m)"
      by (simp add: m)
  qed
  ultimately show ?thesis by (simp add: dsa_rep_def)
qed

text \<open>Transforming back what was multiplied: the factor \<open>2^32\<close> of the inverse transform cancels \<open>2^-32\<close>.\<close>

lemma dsa_mont_cancel: "modeq 8380417 (4294967296 * 8265825 * x) x"
proof -
  have "4294967296 * 8265825 * x = x + 8380417 * (4236238847 * x)" by simp
  then show ?thesis by (simp only: modeq_iff_dvd) simp
qed

lemma dsa_rep_invntt_mont:
  assumes "dsa_rep B 8265825 f r" "B \<le> 8388607" "i < 256"
  shows "modeq 8380417 (dcoeff (mldsa_poly_invntt_tomont r) i) (f i)"
  using dsa_rep_invntt(2) [OF assms] dsa_mont_cancel by (rule modeq_trans)


lemma dsa_pointwise_convolution:
  assumes "dpoly_bounded 67043328 a" "dpoly_bounded 67043328 b"
  shows "dsa_rep 8380416 8265825 (negacyclic 256 (dcoeff a) (dcoeff b))
    (poly_pointwise_montgomery (mldsa_poly_ntt a) (mldsa_poly_ntt b))"
  using dsa_rep_pointwise [OF dsa_rep_ntt [OF assms(1)] dsa_rep_ntt [OF assms(2)]] by simp

section \<open>Properties\<close>

text \<open>C11: \<open>mldsa_ntt\<close> reduces nothing, and no 32-bit value wraps for coefficients up to \<open>2080440319\<close> in magnitude:
  the bound grows by eight times \<open>q - 1\<close>, and word \<open>k\<close> of the result is the value of the input
  at \<open>1753^(2 bitrev8 k + 1)\<close>, the number-theoretic transform of FIPS 204.\<close>

theorem mldsa_ntt_correct:
  assumes "dpoly_bounded B r" "B \<le> 2080440319" "k < 256"
  shows "dpoly_bounded (B + 67043328) (mldsa_ntt r) \<and>
    modeq 8380417 (sint (mldsa_ntt r ! k)) (\<Sum>t<256. sint (r ! t) * (1753 ^ (2 * bitrev8 k + 1)) ^ t)"
proof -
  note N = mldsa_ntt_rep [OF assms(1,2)]
  have "modeq 8380417 (sint (mldsa_ntt r ! k)) (ntt_eval dsa_root 8 (\<lambda>i. sint (r ! i)) 8 k 0)"
    using N assms(3) by (auto simp: layer_rep_def)
  also have "ntt_eval dsa_root 8 (\<lambda>i. sint (r ! i)) 8 k 0 = (\<Sum>t<256. sint (r ! t) * gam dsa_root (256 + k) ^ t)"
    by (simp add: ntt_eval_def)
  also have "modeq 8380417 \<dots> (\<Sum>t<256. sint (r ! t) * (1753 ^ (2 * bitrev8 k + 1)) ^ t)"
    by (intro modeq_sum modeq_mult modeq_power modeq_refl dsa_gam_power assms(3))
  finally show ?thesis using N by simp
qed

theorem mldsa_ntt_correct_witness:
  "dpoly_bounded 2080440319 (replicate 256 (2080440319 :: i32)) \<and>
   modeq 8380417 (sint (mldsa_ntt (replicate 256 (2080440319 :: i32)) ! 5))
     (\<Sum>t<256. sint (replicate 256 (2080440319 :: i32) ! t) * (1753 ^ (2 * bitrev8 5 + 1)) ^ t)"
  using mldsa_ntt_correct [of 2080440319 "replicate 256 2080440319" 5] replicate_dbounded [of 2080440319 2080440319]
  by (simp del: power_mult_distrib power_mult)

text \<open>C27: multiplying between the transforms is multiplication in \<open>Z_q[X]/(X^256 + 1)\<close>: on operands up to eight times
  \<open>q - 1\<close> nothing wraps, the Montgomery factors cancel, and the product comes back at most
  \<open>(q + 41978) / 2\<close> in magnitude.\<close>

theorem mldsa_pointwise_convolution:
  assumes "dpoly_bounded 67043328 a" "dpoly_bounded 67043328 b" "i < 256"
  shows "modeq 8380417
      (sint (mldsa_poly_invntt_tomont (poly_pointwise_montgomery (mldsa_poly_ntt a) (mldsa_poly_ntt b)) ! i))
      (negacyclic 256 (\<lambda>j. sint (a ! j)) (\<lambda>j. sint (b ! j)) i) \<and>
    \<bar>sint (mldsa_poly_invntt_tomont (poly_pointwise_montgomery (mldsa_poly_ntt a) (mldsa_poly_ntt b)) ! i)\<bar> \<le> 4211197"
proof -
  note C = dsa_pointwise_convolution [OF assms(1,2)]
  have "modeq 8380417
      (dcoeff (mldsa_poly_invntt_tomont (poly_pointwise_montgomery (mldsa_poly_ntt a) (mldsa_poly_ntt b))) i)
      (negacyclic 256 (dcoeff a) (dcoeff b) i)"
    by (rule dsa_rep_invntt_mont [OF C _ assms(3)]) simp
  moreover have "dpoly_bounded 4211197
      (mldsa_poly_invntt_tomont (poly_pointwise_montgomery (mldsa_poly_ntt a) (mldsa_poly_ntt b)))"
    by (rule dsa_rep_invntt(1) [OF C]) simp
  ultimately show ?thesis
    using assms(3) by (auto simp: dpoly_bounded_iff dcoeff_def [abs_def])
qed

theorem mldsa_pointwise_convolution_witness:
  "modeq 8380417
     (sint (mldsa_poly_invntt_tomont (poly_pointwise_montgomery (mldsa_poly_ntt (replicate 256 67043328))
        (mldsa_poly_ntt (replicate 256 (- 3)))) ! 10))
     (negacyclic 256 (\<lambda>j. sint (replicate 256 (67043328 :: i32) ! j)) (\<lambda>j. sint (replicate 256 (- 3 :: i32) ! j)) 10)"
  using mldsa_pointwise_convolution [of "replicate 256 67043328" "replicate 256 (- 3)" 10]
    replicate_dbounded [of 67043328 67043328] replicate_dbounded [of "- 3" 67043328] by simp

text \<open>The norm check is exact for every polynomial with coefficients below \<open>2^30\<close> in magnitude: it reports 1 exactly
  when the bound is beyond \<open>(q - 1) / 8\<close> or a coefficient reaches it; a polynomial that passes has every coefficient
  strictly inside the bound.\<close>

theorem mldsa_chknorm_correct:
  assumes "dpoly_bounded 1073741823 a"
  shows "poly_chknorm a b \<longleftrightarrow> 1047552 < sint b \<or> (\<exists>i<256. sint b \<le> \<bar>sint (a ! i)\<bar>)"
  using poly_chknorm_iff [OF assms, of b] by (simp add: dcoeff_def)

theorem mldsa_chknorm_correct_witness:
  "\<not> poly_chknorm (replicate 256 (- 77)) 78 \<and> poly_chknorm (replicate 256 (- 78)) 78 \<and>
   poly_chknorm (replicate 256 0) 1047553"
  using mldsa_chknorm_correct [of "replicate 256 (- 77)" 78] mldsa_chknorm_correct [of "replicate 256 (- 78)" 78]
    mldsa_chknorm_correct [of "replicate 256 0" 1047553]
    replicate_dbounded [of "- 77" 100] replicate_dbounded [of "- 78" 100] replicate_dbounded [of 0 100]
    dpoly_bounded_mono [of 100 _ 1073741823]
  by (auto intro!: exI [of _ 0])

end
