(* ===== verification/Dsa_Sampling.thy ===== *)
theory Dsa_Sampling
  imports Dsa_Sample Rej_Sampling
begin

text \<open>
  The rejection samplers of \<open>tools/pqc/mldsa/mldsa_poly.c\<close>: each is the loop of \<open>rej_sampler\<close> over its
  own candidates, so the polynomial is the first 256 acceptable candidates of its stream and the call
  returns exactly when the stream has that many.
\<close>

section \<open>Uniform coefficients\<close>

abbreviation (input) dsa_cand :: "u8 list \<Rightarrow> nat \<Rightarrow> nat" where
  "dsa_cand buf i \<equiv> field 24 buf i mod 8388608"

definition dsa_accept :: "u8 list \<Rightarrow> dpoly" where
  "dsa_accept buf = map of_nat (filter (\<lambda>x. x < 8380417) (map (\<lambda>i. field 24 buf i mod 8388608) [0..<length buf div 3]))"

lemma dsa_candidate:
  assumes "3 * t + 3 \<le> length buf"
  shows "((zext32 (buf ! (3 * t)) OR shl (zext32 (buf ! (3 * t + 1))) 8) OR shl (zext32 (buf ! (3 * t + 2))) 16) AND 0x7FFFFF =
    (of_nat (dsa_cand buf t) :: u32)"
proof -
  let ?c = "chunk 3 t buf"
  define w where "w = (zext32 (?c ! 0) OR shl (zext32 (?c ! 1)) 8) OR shl (zext32 (?c ! 2)) 16"
  have z: "\<forall>j\<ge>24. \<not> bit w j"
    unfolding w_def by (simp add: bit_fields chunk_def)
  have f: "\<forall>j<24. byte_bit ?c (24 * 0 + j) = bit w j"
    unfolding w_def by (simp add: all_less_numeral byte_bit_def bit_fields flip: One_nat_def)
  have "field 24 ?c 0 = unat w" by (rule field_eq_unat) (use z f in auto)
  then have u: "unat w = field 24 buf t" using field_chunk [of 1 24 3 0 t buf] by simp
  have m: "(0x7FFFFF :: u32) = mask 23" by (simp add: mask_eq_exp_minus_1)
  have "unat (w AND 0x7FFFFF) = dsa_cand buf t" unfolding m unat_and_mask u by simp
  then have "of_nat (unat (w AND 0x7FFFFF)) = (of_nat (dsa_cand buf t) :: u32)" by (rule arg_cong)
  then have "w AND 0x7FFFFF = of_nat (dsa_cand buf t)" by simp
  then show ?thesis by (simp add: w_def chunk_def upt_rec)
qed

lemma dsa_cand_less_q: "(of_nat (dsa_cand buf i) :: u32) < 8380417 \<longleftrightarrow> dsa_cand buf i < 8380417"
proof -
  have "dsa_cand buf i < 8388608" by simp
  then show ?thesis by (simp add: word_less_nat_alt unat_of_nat)
qed

abbreviation (input) dsa_place :: "u8 list \<Rightarrow> nat \<Rightarrow> nat \<Rightarrow> nat \<Rightarrow> dpoly \<times> nat \<Rightarrow> dpoly \<times> nat" where
  "dsa_place buf off len \<equiv> place (\<lambda>x. dsa_cand buf x < 8380417) (\<lambda>x. of_nat (dsa_cand buf x)) off len"

lemma mldsa_rej_uniform_eq:
  assumes "off + len \<le> length r"
  shows "mldsa_rej_uniform r off len buf (length buf) =
    (overwrite off (take len (dsa_accept buf)) r, min len (length (dsa_accept buf)))"
proof -
  have "mldsa_rej_uniform_loop r off len buf (length buf) ctr (3 * t) =
      fold (dsa_place buf off len) [1 * t..<1 * (length buf div 3)] (r, ctr)" for r ctr t
  proof (rule scan_fold)
    fix r ctr t
    have g: "3 * t + 3 \<le> length buf \<longleftrightarrow> t < length buf div 3" by linarith
    show "mldsa_rej_uniform_loop r off len buf (length buf) ctr (3 * t) =
        (if ctr < len \<and> t < length buf div 3
         then case fold (dsa_place buf off len) [1 * t..<1 * Suc t] (r, ctr) of (r, ctr) \<Rightarrow>
           mldsa_rej_uniform_loop r off len buf (length buf) ctr (3 * Suc t)
         else (r, ctr))"
    proof (cases "ctr < len \<and> t < length buf div 3")
      case True
      then have "3 * t + 3 \<le> length buf" using g by simp
      note C = dsa_candidate [OF this]
      have s: "3 * Suc t = 3 * t + 3" by simp
      show ?thesis
        unfolding s using True g
        by (subst mldsa_rej_uniform_loop.simps) (simp add: C [simplified] Let_def place_def dsa_cand_less_q)
    next
      case False
      then show ?thesis using g by (subst mldsa_rej_uniform_loop.simps) auto
    qed
  qed
  from this [of r 0 0] show ?thesis
    using assms by (simp add: mldsa_rej_uniform_def fold_place dsa_accept_def filter_map comp_def)
qed

lemma dsa_accept_append:
  assumes "length xs = n * 168"
  shows "dsa_accept (xs @ ys) = dsa_accept xs @ dsa_accept ys"
proof -
  have l: "length xs div 3 = 56 * n" "length (xs @ ys) div 3 = 56 * n + length ys div 3" using assms by simp_all
  have "map (field 24 (xs @ ys)) [0..<56 * n + length ys div 3] =
      map (field 24 xs) [0..<56 * n] @ map (field 24 ys) [0..<length ys div 3]"
    using assms by (intro map_field_append) simp
  then have "map (\<lambda>x. x mod 8388608) (map (field 24 (xs @ ys)) [0..<56 * n + length ys div 3]) =
      map (\<lambda>x. x mod 8388608) (map (field 24 xs) [0..<56 * n]) @
      map (\<lambda>x. x mod 8388608) (map (field 24 ys) [0..<length ys div 3])" by (simp only: map_append)
  then show ?thesis unfolding dsa_accept_def l by (simp add: comp_def)
qed


text \<open>
  The buffer of \<open>poly_uniform\<close> always holds a multiple of three bytes, so the loop that keeps left-over
  bytes never has any to keep, and the refill loop does not depend on the buffer.
\<close>

lemma poly_uniform_refill_body:
  assumes "buflen mod 3 = 0"
  shows "poly_uniform_refill a ctr buf buflen st =
    (if ctr < 256
     then let (out, st) = shake128_squeezeblocks 1 st; (a, n) = mldsa_rej_uniform a ctr (256 - ctr) out (length out)
       in poly_uniform_refill a (ctr + n) out 168 st
     else Some a)"
  by (subst poly_uniform_refill.simps)
    (simp add: assms case_prod_beta Let_def shake128.blocks_length [of 1, simplified])

lemma poly_uniform_refill_buf:
  "buflen mod 3 = 0 \<Longrightarrow> poly_uniform_refill a ctr buf buflen st = poly_uniform_refill a ctr [] 0 st"
  by (simp add: poly_uniform_refill_body [of buflen] poly_uniform_refill_body [of 0])

interpretation dsa_sampler: rej_sampler shake128_squeezeblocks 168 shake128_stream 256 dsa_accept
  "\<lambda>a off len buf. mldsa_rej_uniform a off len buf (length buf)" "\<lambda>a ctr st. poly_uniform_refill a ctr [] 0 st"
proof
  show "dsa_accept (xs @ ys) = dsa_accept xs @ dsa_accept ys" if "length xs = n * 168" for xs ys n
    using that by (rule dsa_accept_append)
  show "mldsa_rej_uniform a off len buf (length buf) =
      (overwrite off (take len (dsa_accept buf)) a, min len (length (dsa_accept buf)))"
    if "off + len \<le> length a" "length buf = n * 168" for off len a buf n
    using that(1) by (rule mldsa_rej_uniform_eq)
  show "poly_uniform_refill a ctr [] 0 st = (if ctr < 256
      then let (buf, st) = shake128_squeezeblocks 1 st; (a, n) = mldsa_rej_uniform a ctr (256 - ctr) buf (length buf)
        in poly_uniform_refill a (ctr + n) [] 0 st
      else Some a)" for a ctr st
    by (subst poly_uniform_refill_body) (simp_all add: poly_uniform_refill_buf [of 168])
  fix P :: "dpoly \<Rightarrow> nat \<Rightarrow> keccak_state \<Rightarrow> dpoly \<Rightarrow> bool" and a ctr st r
  assume step: "\<And>f a ctr st r. (\<And>a ctr st r. f a ctr st = Some r \<Longrightarrow> P a ctr st r) \<Longrightarrow>
      (if ctr < 256
       then let (buf, st) = shake128_squeezeblocks 1 st; (a, n) = mldsa_rej_uniform a ctr (256 - ctr) buf (length buf)
         in f a (ctr + n) st
       else Some a) = Some r \<Longrightarrow> P a ctr st r"
    and r: "poly_uniform_refill a ctr [] 0 st = Some r"
  have "(0 :: nat) mod 3 = 0 \<longrightarrow> P a ctr st r"
  proof (rule poly_uniform_refill.raw_induct [where P = "\<lambda>a ctr buf buflen st r. buflen mod 3 = 0 \<longrightarrow> P a ctr st r", OF _ r], intro impI)
    fix f a ctr buf buflen st r
    assume IH: "\<And>a ctr buf buflen st r. f a ctr buf buflen st = Some r \<Longrightarrow> buflen mod 3 = 0 \<longrightarrow> P a ctr st r"
      and body: "(if ctr < 256 then let off = buflen mod 3; rest = map (\<lambda>i. buf ! (buflen - off + i)) [0..<off];
          (out, state) = shake128_squeezeblocks 1 st; buf = rest @ out; buflen = 168 + off;
          (a, n) = mldsa_rej_uniform a ctr (256 - ctr) buf buflen
        in f a (ctr + n) buf buflen state else Some a) = Some r"
      and z: "buflen mod 3 = 0"
    show "P a ctr st r"
    proof (rule step [of "\<lambda>a ctr st'. f a ctr (fst (shake128_squeezeblocks 1 st)) 168 st'"])
      show "P a ctr st' r" if "f a ctr (fst (shake128_squeezeblocks 1 st)) 168 st' = Some r" for a ctr st' r
        using IH [OF that] by simp
      show "(if ctr < 256
         then let (buf, st') = shake128_squeezeblocks 1 st; (a, n) = mldsa_rej_uniform a ctr (256 - ctr) buf (length buf)
           in f a (ctr + n) (fst (shake128_squeezeblocks 1 st)) 168 st'
         else Some a) = Some r"
        using body
        by (cases "ctr < 256") (simp_all add: z case_prod_beta Let_def shake128.blocks_length [of 1, simplified])
    qed
  qed
  then show "P a ctr st r" by simp
qed

text \<open>The stream of a call, and the polynomial it determines.\<close>

definition nonce_bytes :: "u16 \<Rightarrow> u8 list" where
  "nonce_bytes nonce = [zext8 nonce, zext8 (shr nonce 8)]"

definition dsa_stream128 :: "u8 list \<Rightarrow> u16 \<Rightarrow> nat \<Rightarrow> u8 list" where
  "dsa_stream128 seed nonce n = shake128 (n * 168) (take 32 seed @ nonce_bytes nonce)"

lemma dsa_stream128_eq:
  "fst (shake128_squeezeblocks n (dilithium_shake128_stream_init keccak_fresh seed nonce)) = dsa_stream128 seed nonce n"
proof -
  have "dilithium_shake128_stream_init keccak_fresh seed nonce = shake128_absorb_once (take 32 seed @ nonce_bytes nonce)"
    using shake128_finalize_absorbs [of keccak_fresh "[take 32 seed, nonce_bytes nonce]"]
    by (simp add: dilithium_shake128_stream_init_def nonce_bytes_def keccak_fresh_def Let_def)
  then show ?thesis unfolding shake128.blocks_out dsa_stream128_def by (simp add: shake128_stream_once)
qed

lemma poly_uniform_iff:
  "poly_uniform seed nonce = Some r \<longleftrightarrow>
   (\<exists>n. 256 \<le> length (dsa_accept (dsa_stream128 seed nonce n)) \<and> r = take 256 (dsa_accept (dsa_stream128 seed nonce n)))"
proof -
  define st where "st = dilithium_shake128_stream_init keccak_fresh seed nonce"
  have n: "(768 + 168 - 1) div 168 = (5 :: nat)" by simp
  obtain buf st' where e: "shake128_squeezeblocks 5 st = (buf, st')" by fastforce
  have b: "length buf = 840" using shake128.blocks_length [of 5 st] unfolding e by simp
  obtain a ctr where f: "mldsa_rej_uniform (replicate 256 0) 0 256 buf 840 = (a, ctr)" by fastforce
  have "poly_uniform seed nonce = dsa_sampler.sample 5 st (replicate 256 0)"
    unfolding poly_uniform_def dsa_sampler.sample_def n Let_def st_def [symmetric]
    by (simp add: e b f poly_uniform_refill_buf [of 840])
  then show ?thesis by (simp add: dsa_sampler.sample_iff dsa_sampler.accepted_def dsa_stream128_eq st_def)
qed

text \<open>Its coefficients are standard representatives.\<close>

lemma dsa_accept_range: "x \<in> set (dsa_accept buf) \<Longrightarrow> 0 \<le> sint x \<and> sint x < 8380417"
  by (auto simp: dsa_accept_def sint_eq_unat unat_of_nat)

lemma poly_uniform_range:
  assumes "poly_uniform seed nonce = Some r"
  shows "length r = 256 \<and> (\<forall>i<256. 0 \<le> dcoeff r i \<and> dcoeff r i < 8380417)"
proof -
  obtain n where n: "256 \<le> length (dsa_accept (dsa_stream128 seed nonce n))"
    "r = take 256 (dsa_accept (dsa_stream128 seed nonce n))" using assms by (auto simp: poly_uniform_iff)
  then have "set r \<subseteq> set (dsa_accept (dsa_stream128 seed nonce n))" by (auto dest: in_set_takeD)
  moreover have l: "length r = 256" using n by simp
  ultimately have "r ! i \<in> set (dsa_accept (dsa_stream128 seed nonce n))" if "i < 256" for i using that by auto
  then show ?thesis using l dsa_accept_range by (auto simp: dcoeff_def)
qed

section \<open>Short coefficients\<close>

definition eta2_accept :: "u8 list \<Rightarrow> dpoly" where
  "eta2_accept buf = map (\<lambda>x. 2 - of_nat (x mod 5)) (filter (\<lambda>x. x < 15) (map (field 4 buf) [0..<2 * length buf]))"

definition eta4_accept :: "u8 list \<Rightarrow> dpoly" where
  "eta4_accept buf = map (\<lambda>x. 4 - of_nat x) (filter (\<lambda>x. x < 9) (map (field 4 buf) [0..<2 * length buf]))"

lemma eta_candidate:
  assumes "t < length buf"
  shows "zext32 (buf ! t) AND 0x0F = (of_nat (field 4 buf (2 * t)) :: u32)"
    and "shr (zext32 (buf ! t)) 4 = (of_nat (field 4 buf (2 * t + 1)) :: u32)"
proof -
  let ?c = "chunk 1 t buf"
  have m: "(0x0F :: u32) = mask 4" by (simp add: mask_eq_exp_minus_1)
  have "field 4 ?c 0 = unat (zext32 (?c ! 0) AND 0x0F)"
  proof (rule field_eq_unat)
    have "\<forall>j<4. byte_bit ?c (4 * 0 + j) = bit (zext32 (?c ! 0) AND 0x0F) j"
      unfolding m by (simp add: all_less_numeral byte_bit_def bit_fields bit_mask_iff flip: One_nat_def)
    then show "byte_bit ?c (4 * 0 + j) = bit (zext32 (?c ! 0) AND 0x0F) j" if "j < 4" for j using that by blast
  qed (simp add: m bit_and_iff bit_mask_iff)
  moreover have "field 4 ?c 1 = unat (shr (zext32 (?c ! 0)) 4 :: u32)"
  proof (rule field_eq_unat)
    have "\<forall>j<4. byte_bit ?c (4 * 1 + j) = bit (shr (zext32 (?c ! 0)) 4 :: u32) j"
      by (simp add: all_less_numeral byte_bit_def bit_fields flip: One_nat_def)
    then show "byte_bit ?c (4 * 1 + j) = bit (shr (zext32 (?c ! 0)) 4 :: u32) j" if "j < 4" for j using that by blast
  qed (simp add: bit_fields)
  ultimately have
    "(of_nat (field 4 buf (2 * t)) :: u32) = of_nat (unat (zext32 (buf ! t) AND 0x0F :: u32))"
    "(of_nat (field 4 buf (2 * t + 1)) :: u32) = of_nat (unat (shr (zext32 (buf ! t)) 4 :: u32))"
    using field_chunk [of 2 4 1 0 t buf] field_chunk [of 2 4 1 1 t buf] by (simp_all add: chunk_def)
  then show "zext32 (buf ! t) AND 0x0F = (of_nat (field 4 buf (2 * t)) :: u32)"
    and "shr (zext32 (buf ! t)) 4 = (of_nat (field 4 buf (2 * t + 1)) :: u32)" by simp_all
qed

lemma eta_field_less: "field 4 buf i < 16"
  using field_less [of 4 buf i] by simp

lemma field4_word_less: "m < 16 \<Longrightarrow> (of_nat (field 4 buf i) :: u32) < of_nat m \<longleftrightarrow> field 4 buf i < m"
  using eta_field_less [of buf i] by (simp add: word_less_nat_alt unat_of_nat)

text \<open>The multiplication by 205 divides by 5.\<close>

lemma eta2_div5: "\<forall>x<16. (of_nat x - shr (205 * of_nat x) 10 * 5 :: u32) = of_nat (x mod 5)"
  by (simp add: all_less_numeral all_less_1)


lemma rej_eta_2_eq:
  assumes "off + len \<le> length r"
  shows "rej_eta_2 r off len buf (length buf) =
    (overwrite off (take len (eta2_accept buf)) r, min len (length (eta2_accept buf)))"
proof -
  let ?p = "place (\<lambda>x. field 4 buf x < 15) (\<lambda>x. 2 - of_nat (field 4 buf x mod 5) :: i32) off len"
  have "rej_eta_2_loop r off len buf (length buf) ctr t = fold ?p [2 * t..<2 * length buf] (r, ctr)" for r ctr t
  proof (rule scan_fold)
    fix r ctr t
    show "rej_eta_2_loop r off len buf (length buf) ctr t =
        (if ctr < len \<and> t < length buf
         then case fold ?p [2 * t..<2 * Suc t] (r, ctr) of (r, ctr) \<Rightarrow> rej_eta_2_loop r off len buf (length buf) ctr (Suc t)
         else (r, ctr))"
    proof (cases "ctr < len \<and> t < length buf")
      case True
      then have "t < length buf" by simp
      note C = eta_candidate [OF this]
      have u: "[2 * t..<2 * Suc t] = [2 * t, Suc (2 * t)]" by (simp add: upt_conv_Cons)
      show ?thesis
        unfolding u using True
        by (subst rej_eta_2_loop.simps)
          (cases "field 4 buf (2 * t) < 15"; cases "field 4 buf (Suc (2 * t)) < 15"; cases "Suc ctr < len";
            simp add: C [simplified] Let_def place_def field4_word_less [of 15, simplified] eta2_div5 [rule_format] eta_field_less)
    next
      case False
      then show ?thesis by (subst rej_eta_2_loop.simps) auto
    qed
  qed
  from this [of r 0 0] show ?thesis
    using assms by (simp add: rej_eta_2_def fold_place eta2_accept_def filter_map comp_def)
qed

lemma eta2_accept_append: "eta2_accept (xs @ ys) = eta2_accept xs @ eta2_accept ys"
  using map_field_append [of 4 "2 * length xs" xs ys "2 * length ys"]
  by (simp add: eta2_accept_def add_mult_distrib2 del: upt_add_eq_append)

lemma eta2_refill_body:
  "(let (buf, state) = shake256_squeezeblocks 1 state; (a, n) = rej_eta_2 a ctr (256 - ctr) buf 136 in f a (ctr + n) state) =
   (let (buf, state) = shake256_squeezeblocks 1 state; (a, n) = rej_eta_2 a ctr (256 - ctr) buf (length buf) in f a (ctr + n) state)"
  by (simp add: case_prod_beta Let_def shake256.blocks_length [of 1, simplified])

interpretation eta2_sampler: rej_sampler shake256_squeezeblocks 136 shake256_stream 256 eta2_accept
  "\<lambda>a off len buf. rej_eta_2 a off len buf (length buf)" poly_uniform_eta_2_refill
proof
  show "rej_eta_2 a off len buf (length buf) =
      (overwrite off (take len (eta2_accept buf)) a, min len (length (eta2_accept buf)))"
    if "off + len \<le> length a" for off len a buf
    using that by (rule rej_eta_2_eq)
  show "poly_uniform_eta_2_refill a ctr st = (if ctr < 256
      then let (buf, st) = shake256_squeezeblocks 1 st; (a, n) = rej_eta_2 a ctr (256 - ctr) buf (length buf)
        in poly_uniform_eta_2_refill a (ctr + n) st
      else Some a)" for a ctr st
    unfolding eta2_refill_body [symmetric] by (rule poly_uniform_eta_2_refill.simps)
  fix P :: "dpoly \<Rightarrow> nat \<Rightarrow> keccak_state \<Rightarrow> dpoly \<Rightarrow> bool" and a ctr st r
  assume step: "\<And>f a ctr st r. (\<And>a ctr st r. f a ctr st = Some r \<Longrightarrow> P a ctr st r) \<Longrightarrow>
      (if ctr < 256
       then let (buf, st) = shake256_squeezeblocks 1 st; (a, n) = rej_eta_2 a ctr (256 - ctr) buf (length buf)
         in f a (ctr + n) st
       else Some a) = Some r \<Longrightarrow> P a ctr st r"
    and r: "poly_uniform_eta_2_refill a ctr st = Some r"
  show "P a ctr st r"
    by (rule poly_uniform_eta_2_refill.raw_induct [OF step r]) (unfold eta2_refill_body, assumption+)
qed (rule eta2_accept_append)

lemma eta2_accept_range: "x \<in> set (eta2_accept buf) \<Longrightarrow> \<bar>sint x\<bar> \<le> 2"
proof -
  have "\<forall>k<5. \<bar>sint (2 - of_nat k :: i32)\<bar> \<le> 2" by (simp add: all_less_numeral all_less_1)
  then show "x \<in> set (eta2_accept buf) \<Longrightarrow> \<bar>sint x\<bar> \<le> 2" by (auto simp: eta2_accept_def)
qed

lemma rej_eta_4_eq:
  assumes "off + len \<le> length r"
  shows "rej_eta_4 r off len buf (length buf) =
    (overwrite off (take len (eta4_accept buf)) r, min len (length (eta4_accept buf)))"
proof -
  let ?p = "place (\<lambda>x. field 4 buf x < 9) (\<lambda>x. 4 - of_nat (field 4 buf x) :: i32) off len"
  have "rej_eta_4_loop r off len buf (length buf) ctr t = fold ?p [2 * t..<2 * length buf] (r, ctr)" for r ctr t
  proof (rule scan_fold)
    fix r ctr t
    show "rej_eta_4_loop r off len buf (length buf) ctr t =
        (if ctr < len \<and> t < length buf
         then case fold ?p [2 * t..<2 * Suc t] (r, ctr) of (r, ctr) \<Rightarrow> rej_eta_4_loop r off len buf (length buf) ctr (Suc t)
         else (r, ctr))"
    proof (cases "ctr < len \<and> t < length buf")
      case True
      then have "t < length buf" by simp
      note C = eta_candidate [OF this]
      have u: "[2 * t..<2 * Suc t] = [2 * t, Suc (2 * t)]" by (simp add: upt_conv_Cons)
      show ?thesis
        unfolding u using True
        by (subst rej_eta_4_loop.simps)
          (cases "field 4 buf (2 * t) < 9"; cases "field 4 buf (Suc (2 * t)) < 9"; cases "Suc ctr < len";
            simp add: C [simplified] Let_def place_def field4_word_less [of 9, simplified])
    next
      case False
      then show ?thesis by (subst rej_eta_4_loop.simps) auto
    qed
  qed
  from this [of r 0 0] show ?thesis
    using assms by (simp add: rej_eta_4_def fold_place eta4_accept_def filter_map comp_def)
qed

lemma eta4_accept_append: "eta4_accept (xs @ ys) = eta4_accept xs @ eta4_accept ys"
  using map_field_append [of 4 "2 * length xs" xs ys "2 * length ys"]
  by (simp add: eta4_accept_def add_mult_distrib2 del: upt_add_eq_append)

lemma eta4_refill_body:
  "(let (buf, state) = shake256_squeezeblocks 1 state; (a, n) = rej_eta_4 a ctr (256 - ctr) buf 136 in f a (ctr + n) state) =
   (let (buf, state) = shake256_squeezeblocks 1 state; (a, n) = rej_eta_4 a ctr (256 - ctr) buf (length buf) in f a (ctr + n) state)"
  by (simp add: case_prod_beta Let_def shake256.blocks_length [of 1, simplified])

interpretation eta4_sampler: rej_sampler shake256_squeezeblocks 136 shake256_stream 256 eta4_accept
  "\<lambda>a off len buf. rej_eta_4 a off len buf (length buf)" poly_uniform_eta_4_refill
proof
  show "rej_eta_4 a off len buf (length buf) =
      (overwrite off (take len (eta4_accept buf)) a, min len (length (eta4_accept buf)))"
    if "off + len \<le> length a" for off len a buf
    using that by (rule rej_eta_4_eq)
  show "poly_uniform_eta_4_refill a ctr st = (if ctr < 256
      then let (buf, st) = shake256_squeezeblocks 1 st; (a, n) = rej_eta_4 a ctr (256 - ctr) buf (length buf)
        in poly_uniform_eta_4_refill a (ctr + n) st
      else Some a)" for a ctr st
    unfolding eta4_refill_body [symmetric] by (rule poly_uniform_eta_4_refill.simps)
  fix P :: "dpoly \<Rightarrow> nat \<Rightarrow> keccak_state \<Rightarrow> dpoly \<Rightarrow> bool" and a ctr st r
  assume step: "\<And>f a ctr st r. (\<And>a ctr st r. f a ctr st = Some r \<Longrightarrow> P a ctr st r) \<Longrightarrow>
      (if ctr < 256
       then let (buf, st) = shake256_squeezeblocks 1 st; (a, n) = rej_eta_4 a ctr (256 - ctr) buf (length buf)
         in f a (ctr + n) st
       else Some a) = Some r \<Longrightarrow> P a ctr st r"
    and r: "poly_uniform_eta_4_refill a ctr st = Some r"
  show "P a ctr st r"
    by (rule poly_uniform_eta_4_refill.raw_induct [OF step r]) (unfold eta4_refill_body, assumption+)
qed (rule eta4_accept_append)

lemma eta4_accept_range: "x \<in> set (eta4_accept buf) \<Longrightarrow> \<bar>sint x\<bar> \<le> 4"
proof -
  have "\<forall>k<9. \<bar>sint (4 - of_nat k :: i32)\<bar> \<le> 4" by (simp add: all_less_numeral all_less_1)
  then show "x \<in> set (eta4_accept buf) \<Longrightarrow> \<bar>sint x\<bar> \<le> 4" by (auto simp: eta4_accept_def)
qed

definition dsa_stream256 :: "u8 list \<Rightarrow> u16 \<Rightarrow> nat \<Rightarrow> u8 list" where
  "dsa_stream256 seed nonce n = shake256 (n * 136) (take 64 seed @ nonce_bytes nonce)"

lemma dsa_stream256_eq:
  "fst (shake256_squeezeblocks n (dilithium_shake256_stream_init keccak_fresh seed nonce)) = dsa_stream256 seed nonce n"
proof -
  have "dilithium_shake256_stream_init keccak_fresh seed nonce = shake256_absorb_once (take 64 seed @ nonce_bytes nonce)"
    using shake256_finalize_absorbs [of keccak_fresh "[take 64 seed, nonce_bytes nonce]"]
    by (simp add: dilithium_shake256_stream_init_def nonce_bytes_def keccak_fresh_def Let_def)
  then show ?thesis unfolding shake256.blocks_out dsa_stream256_def by (simp add: shake256_stream_once)
qed

text \<open>The candidates of the two distributions.\<close>

definition eta_accept :: "mldsa_param \<Rightarrow> u8 list \<Rightarrow> dpoly" where
  "eta_accept par = (if dsa_eta par = 2 then eta2_accept else eta4_accept)"

lemma poly_uniform_eta_iff:
  assumes "dsa_eta par = 2 \<or> dsa_eta par = 4"
  shows "poly_uniform_eta par seed nonce = Some r \<longleftrightarrow>
    (\<exists>n. 256 \<le> length (eta_accept par (dsa_stream256 seed nonce n)) \<and> r = take 256 (eta_accept par (dsa_stream256 seed nonce n)))"
proof -
  define st where "st = dilithium_shake256_stream_init keccak_fresh seed nonce"
  have "poly_uniform_eta_2 seed nonce = eta2_sampler.sample 1 st (replicate 256 0)"
  proof -
    obtain buf st' where e: "shake256_squeezeblocks 1 st = (buf, st')" by fastforce
    have "length buf = 136" using shake256.blocks_length [of 1 st] unfolding e by simp
    then show ?thesis
      unfolding poly_uniform_eta_2_def eta2_sampler.sample_def Let_def st_def [symmetric] by (simp add: e [simplified])
  qed
  note s2 = this
  have "poly_uniform_eta_4 seed nonce = eta4_sampler.sample 2 st (replicate 256 0)"
  proof -
    obtain buf st' where e: "shake256_squeezeblocks 2 st = (buf, st')" by fastforce
    have "length buf = 272" using shake256.blocks_length [of 2 st] unfolding e by simp
    then show ?thesis
      unfolding poly_uniform_eta_4_def eta4_sampler.sample_def Let_def st_def [symmetric] by (simp add: e [simplified])
  qed
  note s4 = this
  show ?thesis
    using assms
    by (auto simp: poly_uniform_eta_def eta_accept_def s2 s4 eta2_sampler.sample_iff eta2_sampler.accepted_def
        eta4_sampler.sample_iff eta4_sampler.accepted_def dsa_stream256_eq st_def)
qed

lemma poly_uniform_eta_bounded:
  assumes "mldsa_param_ok par" "poly_uniform_eta par seed nonce = Some r"
  shows "dpoly_bounded (int (dsa_eta par)) r"
proof -
  have e: "dsa_eta par = 2 \<or> dsa_eta par = 4" using assms(1) by (auto simp: mldsa_param_ok_def)
  obtain n where n: "256 \<le> length (eta_accept par (dsa_stream256 seed nonce n))"
    "r = take 256 (eta_accept par (dsa_stream256 seed nonce n))" using assms(2) by (auto simp: poly_uniform_eta_iff [OF e])
  have "\<bar>sint x\<bar> \<le> int (dsa_eta par)" if "x \<in> set (eta_accept par bs)" for x bs
    using that e eta2_accept_range eta4_accept_range by (auto simp: eta_accept_def)
  then show ?thesis using n by (auto simp: dpoly_bounded_def dest: in_set_takeD)
qed

section \<open>Properties\<close>

text \<open>C30: sampling a uniform polynomial returns exactly when some prefix of the SHAKE128 stream of the seed and the
  nonce holds 256 candidates below \<open>q\<close> (three bytes each, the top bit dropped), and returns the first
  256 of them: \<open>RejNTTPoly\<close> of FIPS 204, however the loops cut the stream into blocks.\<close>

theorem mldsa_poly_uniform_correct:
  "poly_uniform seed nonce = Some r \<longleftrightarrow>
   (\<exists>n. 256 \<le> length (dsa_accept (shake128 (n * 168) (take 32 seed @ nonce_bytes nonce))) \<and>
      r = take 256 (dsa_accept (shake128 (n * 168) (take 32 seed @ nonce_bytes nonce))))"
  unfolding poly_uniform_iff dsa_stream128_def ..

text \<open>C31: sampling a short polynomial returns exactly when some prefix of the SHAKE256 stream holds 256 acceptable
  half-bytes, and returns the values of the first 256 of them, \<open>RejBoundedPoly\<close> of FIPS 204; all of them
  are in \<open>[- eta, eta]\<close>, so that the secret vectors can be packed.\<close>

theorem mldsa_eta_correct:
  assumes "par \<in> set mldsa_par"
  shows "(poly_uniform_eta par seed nonce = Some r \<longleftrightarrow>
    (\<exists>n. 256 \<le> length (eta_accept par (shake256 (n * 136) (take 64 seed @ nonce_bytes nonce))) \<and>
       r = take 256 (eta_accept par (shake256 (n * 136) (take 64 seed @ nonce_bytes nonce))))) \<and>
    pred_option (dpoly_bounded (int (dsa_eta par))) (poly_uniform_eta par seed nonce)"
proof -
  note ok = mldsa_par_ok [OF assms]
  then have e: "dsa_eta par = 2 \<or> dsa_eta par = 4" by (auto simp: mldsa_param_ok_def)
  have "pred_option (dpoly_bounded (int (dsa_eta par))) (poly_uniform_eta par seed nonce)"
    using poly_uniform_eta_bounded [OF ok] by (auto simp: pred_option_def)
  with poly_uniform_eta_iff [OF e, of seed nonce r] show ?thesis unfolding dsa_stream256_def by blast
qed

theorem mldsa_eta_correct_witness:
  "pred_option (dpoly_bounded 4) (poly_uniform_eta mldsa_65 (replicate 64 9) 3)"
  using mldsa_eta_correct [of mldsa_65 "replicate 64 9" 3] by (simp add: mldsa_par_def mldsa_65_def)

end
