(* ===== verification/Dsa_Challenge.thy ===== *)
theory Dsa_Challenge
  imports Dsa_Sampling
begin

text \<open>
  \<open>poly_challenge\<close> of \<open>mldsa_poly.c\<close>: the shape of the challenge as an invariant of the loop, and the
  function against \<open>SampleInBall\<close> of FIPS 204 on the SHAKE256 output of the seed.
\<close>

section \<open>The shape of the challenge\<close>

definition challenge_poly :: "nat \<Rightarrow> dpoly \<Rightarrow> bool" where
  "challenge_poly tau c \<longleftrightarrow> length c = 256 \<and> (\<forall>i<256. c ! i \<in> {- 1, 0, 1}) \<and> card {i. i < 256 \<and> c ! i \<noteq> 0} = tau"

lemma challenge_byte_le:
  assumes "challenge_byte i buf pos state = Some (b, buf', pos', state')"
  shows "b \<le> i"
proof -
  have "fst (b, buf', pos', state') \<le> i"
  proof (rule challenge_byte.raw_induct [where P = "\<lambda>i _ _ _ r. fst r \<le> i", OF _ assms])
    fix f i buf pos state and r :: "nat \<times> u8 list \<times> nat \<times> keccak_state"
    assume IH: "\<And>i buf pos state r. f i buf pos state = Some r \<Longrightarrow> fst r \<le> i"
      and body: "(let (buf, pos, state) =
            if 136 \<le> pos then let (buf, state) = shake256_squeezeblocks 1 state in (buf, 0, state) else (buf, pos, state);
          b = unat (buf ! pos); pos = pos + 1
        in if i < b then f i buf pos state else Some (b, buf, pos, state)) = Some r"
    obtain buf1 pos1 state1 where e: "(if 136 \<le> pos then let (buf, state) = shake256_squeezeblocks 1 state in (buf, 0, state)
        else (buf, pos, state)) = (buf1, pos1, state1)" by (metis prod_cases3)
    show "fst r \<le> i"
      using body IH unfolding e by (auto simp: Let_def split: if_splits)
  qed
  then show ?thesis by simp
qed

text \<open>Before index \<open>i\<close> the coefficients from \<open>i\<close> on are zero; each iteration adds one nonzero coefficient.\<close>

definition challenge_inv :: "nat \<Rightarrow> nat \<Rightarrow> dpoly \<Rightarrow> bool" where
  "challenge_inv n i c \<longleftrightarrow> challenge_poly n c \<and> (\<forall>j<256. i \<le> j \<longrightarrow> c ! j = 0)"

lemma challenge_sign: "sext32 (1 - 2 * (signs AND 1) :: u64) \<in> {1, - 1 :: i32}"
proof -
  have "signs AND 1 = of_bool (bit signs 0)" using shr_and_1 [of 0 signs] by simp
  then show ?thesis by simp
qed

lemma challenge_step:
  assumes "challenge_inv n i c" "i < 256" "b \<le> i" "s \<in> {1, - 1}"
  shows "challenge_inv (Suc n) (Suc i) (c[i := c ! b, b := s])"
proof -
  define d where "d = c[i := c ! b, b := s]"
  let ?S = "{j. j < 256 \<and> c ! j \<noteq> 0}"
  have l: "length c = 256" and r: "\<And>j. j < 256 \<Longrightarrow> c ! j \<in> {- 1, 0, 1}" and S: "card ?S = n"
    and z: "\<And>j. j < 256 \<Longrightarrow> i \<le> j \<Longrightarrow> c ! j = 0"
    using assms(1) by (auto simp: challenge_inv_def challenge_poly_def)
  have n: "d ! j = (if j = b then s else if j = i then c ! b else c ! j)" if "j < 256" for j
    using that assms(2,3) l by (auto simp: d_def nth_list_update)
  have s: "s \<noteq> 0" using assms(4) by auto
  have "{j. j < 256 \<and> d ! j \<noteq> 0} = insert (if c ! b = 0 then b else i) ?S"
    using n s z [of i] assms(2,3) by (auto split: if_splits)
  moreover have "(if c ! b = 0 then b else i) \<notin> ?S" using z [of i] assms(2) by auto
  ultimately have "card {j. j < 256 \<and> d ! j \<noteq> 0} = Suc n" using S by simp
  moreover have "d ! j \<in> {- 1, 0, 1}" if "j < 256" for j
    unfolding n [OF that] using r [OF that] r [of b] assms by auto
  moreover have "d ! j = 0" if "j < 256" "Suc i \<le> j" for j
    unfolding n [OF that(1)] using z that assms(3) by auto
  moreover have "length d = 256" using l by (simp add: d_def)
  ultimately show ?thesis unfolding d_def [symmetric] by (simp add: challenge_inv_def challenge_poly_def)
qed

lemma challenge_loop_inv:
  assumes "challenge_loop [i..<256] buf pos state signs c = Some r" "challenge_inv n i c" "i \<le> 256"
  shows "challenge_poly (n + (256 - i)) r"
  using assms
proof (induction "256 - i" arbitrary: i buf pos state signs c n)
  case 0
  then show ?case by (simp add: challenge_inv_def)
next
  case (Suc d)
  then have i: "i < 256" "[i..<256] = i # [Suc i..<256]" by (simp_all add: upt_conv_Cons)
  from Suc.prems(1) obtain b buf' pos' state' where b: "challenge_byte i buf pos state = Some (b, buf', pos', state')"
    and r: "challenge_loop [Suc i..<256] buf' pos' state' (shr signs 1)
      (c[i := c ! b, b := sext32 (1 - 2 * (signs AND 1))]) = Some r"
    unfolding i(2) by (auto simp: bind_eq_Some_conv Let_def challenge_byte_le nth_list_update_eq split: prod.splits)
  have "challenge_poly (Suc n + (256 - Suc i)) r"
    using Suc.hyps(2) i(1) challenge_step [OF Suc.prems(2) i(1) challenge_byte_le [OF b] challenge_sign]
    by (intro Suc.hyps(1) [OF _ r]) simp_all
  moreover have "Suc n + (256 - Suc i) = n + (256 - i)" using i(1) by simp
  ultimately show ?case by (simp only:)
qed

lemma poly_challenge_inv:
  assumes "poly_challenge par seed = Some c" "dsa_tau par \<le> 256"
  shows "challenge_poly (dsa_tau par) c"
proof -
  have "challenge_inv 0 (256 - dsa_tau par) (replicate 256 0)"
    by (simp add: challenge_inv_def challenge_poly_def)
  with assms show ?thesis
    by (auto simp: poly_challenge_def case_prod_beta Let_def dest: challenge_loop_inv)
qed

section \<open>The reference\<close>

text \<open>
  \<open>SampleInBall\<close> of FIPS 204 on a given string of bytes: eight bytes of signs, then candidates for the
  position to swap with; \<open>None\<close> when the string is too short.
\<close>

fun ball_from :: "nat list \<Rightarrow> u8 list \<Rightarrow> (nat \<Rightarrow> bool) \<Rightarrow> dpoly \<Rightarrow> dpoly option" where
  "ball_from [] bs s c = Some c"
| "ball_from (i # is) [] s c = None"
| "ball_from (i # is) (b # bs) s c =
     (if unat b \<le> i then ball_from is bs s (c[i := c ! unat b, unat b := if s i then - 1 else 1])
      else ball_from (i # is) bs s c)"

definition sample_in_ball :: "nat \<Rightarrow> u8 list \<Rightarrow> dpoly option" where
  "sample_in_ball tau bs =
     (if length bs < 8 then None
      else ball_from [256 - tau..<256] (drop 8 bs) (\<lambda>i. byte_bit bs (i + tau - 256)) (replicate 256 0))"

lemma ball_from_Cons:
  "ball_from (i # is) bs s c = Some r \<longleftrightarrow>
    (\<exists>m<length bs. (\<forall>j<m. i < unat (bs ! j)) \<and> unat (bs ! m) \<le> i \<and>
      ball_from is (drop (Suc m) bs) s (c[i := c ! unat (bs ! m), unat (bs ! m) := if s i then - 1 else 1]) = Some r)"
proof (induction bs)
  case (Cons b bs)
  show ?case
  proof (cases "unat b \<le> i")
    case True
    have m0: "m = 0" if "\<forall>j<m. i < unat ((b # bs) ! j)" for m using that True by (cases m) auto
    then show ?thesis using True by (auto dest: m0)
  next
    case False
    have "(\<exists>m<Suc (length bs). (\<forall>j<m. i < unat ((b # bs) ! j)) \<and> unat ((b # bs) ! m) \<le> i \<and> Q m) \<longleftrightarrow>
        (\<exists>m<length bs. (\<forall>j<m. i < unat (bs ! j)) \<and> unat (bs ! m) \<le> i \<and> Q (Suc m))" for Q
      unfolding Ex_less_Suc2 All_less_Suc2 using False by (auto simp: All_less_Suc2)
    then show ?thesis using False Cons.IH by simp
  qed
qed simp

text \<open>The buffer, the position and the state stand for the stream from position \<open>p\<close> on.\<close>

definition reads :: "(nat \<Rightarrow> u8) \<Rightarrow> nat \<Rightarrow> u8 list \<Rightarrow> nat \<Rightarrow> keccak_state \<Rightarrow> bool" where
  "reads S p buf pos state \<longleftrightarrow> pos \<le> 136 \<and>
     (\<forall>k. S (p + k) = (if pos + k < 136 then buf ! (pos + k) else shake256_stream state (pos + k - 136)))"

lemma challenge_byte_step:
  assumes "reads S p buf pos state"
  obtains buf' pos' state' where "reads S (Suc p) buf' pos' state'"
    and "\<And>f. (let (buf, pos, state) =
            if 136 \<le> pos then let (buf, state) = shake256_squeezeblocks 1 state in (buf, 0, state) else (buf, pos, state);
          b = unat (buf ! pos); pos = pos + 1
        in if i < b then f i buf pos state else Some (b, buf, pos, state)) =
      (if i < unat (S p) then f i buf' pos' state' else Some (unat (S p), buf', pos', state'))"
proof (cases "136 \<le> pos")
  case False
  have "reads S (Suc p) buf (Suc pos) state"
  proof -
    have "S (Suc p + k) = (if Suc pos + k < 136 then buf ! (Suc pos + k) else shake256_stream state (Suc pos + k - 136))" for k
      using assms [unfolded reads_def, THEN conjunct2, rule_format, of "Suc k"] by simp
    then show ?thesis using False by (simp add: reads_def)
  qed
  moreover have "S p = buf ! pos" using assms [unfolded reads_def, THEN conjunct2, rule_format, of 0] False by simp
  ultimately show ?thesis using False by (intro that [of buf "Suc pos" state]) (simp_all add: Let_def)
next
  case True
  define out st where "out = fst (shake256_squeezeblocks 1 state)" and "st = snd (shake256_squeezeblocks 1 state)"
  have e: "shake256_squeezeblocks 1 state = (out, st)" by (simp add: out_def st_def)
  have o: "out ! k = shake256_stream state k" if "k < 136" for k
    using that unfolding out_def shake256.blocks_out by simp
  have n: "shake256_stream st k = shake256_stream state (136 + k)" for k
    unfolding st_def using shake256.blocks_next [of 1 state k] by simp
  have p: "pos = 136" using assms True by (simp add: reads_def)
  have S: "S (p + k) = shake256_stream state k" for k
    using assms [unfolded reads_def, THEN conjunct2, rule_format, of k] p by simp
  have "reads S (Suc p) out 1 st"
  proof -
    have "S (Suc p + k) = (if 1 + k < 136 then out ! (1 + k) else shake256_stream st (1 + k - 136))" for k
      using S [of "Suc k"] o [of "1 + k"] n [of "1 + k - 136"] by simp
    then show ?thesis by (simp add: reads_def)
  qed
  moreover have "S p = out ! 0" using S [of 0] o [of 0] by simp
  ultimately show ?thesis using True by (intro that [of out 1 st]) (simp_all add: e [simplified] Let_def)
qed

lemma challenge_byte_unfold:
  assumes "reads S p buf pos state"
  obtains buf' pos' state' where "reads S (Suc p) buf' pos' state'"
    and "challenge_byte i buf pos state =
      (if i < unat (S p) then challenge_byte i buf' pos' state' else Some (unat (S p), buf', pos', state'))"
proof (rule challenge_byte_step [OF assms, where i = i])
  fix buf' pos' state'
  assume R: "reads S (Suc p) buf' pos' state'"
    and e: "\<And>f. (let (buf, pos, state) =
            if 136 \<le> pos then let (buf, state) = shake256_squeezeblocks 1 state in (buf, 0, state) else (buf, pos, state);
          b = unat (buf ! pos); pos = pos + 1
        in if i < b then f i buf pos state else Some (b, buf, pos, state)) =
      (if i < unat (S p) then f i buf' pos' state' else Some (unat (S p), buf', pos', state'))"
  show thesis by (rule that [OF R], subst challenge_byte.simps, rule e)
qed

lemma challenge_byte_some:
  assumes "reads S p buf pos state" "\<forall>j<m. i < unat (S (p + j))" "unat (S (p + m)) \<le> i"
  shows "\<exists>buf' pos' state'. challenge_byte i buf pos state = Some (unat (S (p + m)), buf', pos', state') \<and>
    reads S (Suc (p + m)) buf' pos' state'"
  using assms
proof (induction m arbitrary: p buf pos state)
  case 0
  obtain buf' pos' state' where "reads S (Suc p) buf' pos' state'"
    "challenge_byte i buf pos state = (if i < unat (S p) then challenge_byte i buf' pos' state' else Some (unat (S p), buf', pos', state'))"
    by (rule challenge_byte_unfold [OF 0(1)])
  then show ?case using 0 by simp
next
  case (Suc m)
  obtain buf' pos' state' where R: "reads S (Suc p) buf' pos' state'"
    and e: "challenge_byte i buf pos state = (if i < unat (S p) then challenge_byte i buf' pos' state' else Some (unat (S p), buf', pos', state'))"
    by (rule challenge_byte_unfold [OF Suc.prems(1)])
  have 0: "i < unat (S p)" using Suc.prems(2) [rule_format, of 0] by simp
  have "i < unat (S (Suc p + j))" if "j < m" for j using Suc.prems(2) [rule_format, of "Suc j"] that by simp
  then show ?case using Suc.IH [OF R] Suc.prems(3) e 0 by simp
qed

lemma challenge_byte_only:
  assumes "challenge_byte i buf pos state = Some r" "reads S p buf pos state"
  shows "\<exists>m. (\<forall>j<m. i < unat (S (p + j))) \<and> unat (S (p + m)) \<le> i"
proof -
  have "\<forall>p. reads S p buf pos state \<longrightarrow> (\<exists>m. (\<forall>j<m. i < unat (S (p + j))) \<and> unat (S (p + m)) \<le> i)"
  proof (rule challenge_byte.raw_induct [where P = "\<lambda>i buf pos state _.
      \<forall>p. reads S p buf pos state \<longrightarrow> (\<exists>m. (\<forall>j<m. i < unat (S (p + j))) \<and> unat (S (p + m)) \<le> i)", OF _ assms(1)], intro allI impI)
    fix f i buf pos state r p
    assume IH: "\<And>i buf pos state r. f i buf pos state = Some r \<Longrightarrow>
        \<forall>p. reads S p buf pos state \<longrightarrow> (\<exists>m. (\<forall>j<m. i < unat (S (p + j))) \<and> unat (S (p + m)) \<le> i)"
      and body: "(let (buf, pos, state) =
            if 136 \<le> pos then let (buf, state) = shake256_squeezeblocks 1 state in (buf, 0, state) else (buf, pos, state);
          b = unat (buf ! pos); pos = pos + 1
        in if i < b then f i buf pos state else Some (b, buf, pos, state)) = Some r"
      and R: "reads S p buf pos state"
    obtain buf' pos' state' where R': "reads S (Suc p) buf' pos' state'"
      and e: "(if i < unat (S p) then f i buf' pos' state' else Some (unat (S p), buf', pos', state')) = Some r"
    proof (rule challenge_byte_step [OF R, where i = i])
      fix buf' pos' state'
      assume R': "reads S (Suc p) buf' pos' state'"
        and "\<And>f. (let (buf, pos, state) =
            if 136 \<le> pos then let (buf, state) = shake256_squeezeblocks 1 state in (buf, 0, state) else (buf, pos, state);
          b = unat (buf ! pos); pos = pos + 1
        in if i < b then f i buf pos state else Some (b, buf, pos, state)) =
          (if i < unat (S p) then f i buf' pos' state' else Some (unat (S p), buf', pos', state'))"
      from this(2) [of f] have "(if i < unat (S p) then f i buf' pos' state' else Some (unat (S p), buf', pos', state')) = Some r"
        unfolding body by (rule sym)
      with R' show thesis by (rule that)
    qed
    show "\<exists>m. (\<forall>j<m. i < unat (S (p + j))) \<and> unat (S (p + m)) \<le> i"
    proof (cases "i < unat (S p)")
      case True
      with e have "f i buf' pos' state' = Some r" by simp
      from IH [OF this, rule_format, OF R'] obtain m where
        "\<forall>j<m. i < unat (S (Suc p + j))" "unat (S (Suc p + m)) \<le> i" by blast
      then show ?thesis using True by (intro exI [of _ "Suc m"]) (auto simp: All_less_Suc2)
    qed (intro exI [of _ 0], simp)
  qed
  then show ?thesis using assms(2) by blast
qed


text \<open>The least accepted byte, as both the loop and the reference find it.\<close>

lemma challenge_byte_iff:
  assumes "reads S p buf pos state"
  shows "(\<exists>m. (\<forall>j<m. i < unat (S (p + j))) \<and> unat (S (p + m)) \<le> i \<and> (\<exists>buf' pos' state'.
      challenge_byte i buf pos state = Some (unat (S (p + m)), buf', pos', state') \<and> reads S (Suc (p + m)) buf' pos' state')) \<or>
    (challenge_byte i buf pos state = None \<and> (\<forall>m. i < unat (S (p + m))))"
proof (cases "challenge_byte i buf pos state")
  case None
  have "i < unat (S (p + m))" for m
  proof (induction m rule: less_induct)
    case (less m)
    show ?case
    proof (rule ccontr)
      assume "\<not> i < unat (S (p + m))"
      with challenge_byte_some [OF assms, of m i] less None show False by simp
    qed
  qed
  then show ?thesis using None by blast
next
  case (Some r)
  then obtain m where "\<forall>j<m. i < unat (S (p + j))" "unat (S (p + m)) \<le> i"
    using challenge_byte_only [OF Some assms] by blast
  then show ?thesis using challenge_byte_some [OF assms, of m i] by blast
qed

lemma least_unique:
  fixes P :: "nat \<Rightarrow> bool"
  assumes "\<forall>j<m. \<not> P j" "P m" "\<forall>j<m'. \<not> P j" "P m'"
  shows "m = m'"
  using assms by (metis linorder_neqE_nat)

lemma challenge_loop_iff:
  assumes "reads S p buf pos state" "i \<le> 256" "\<And>j. i \<le> j \<Longrightarrow> j < 256 \<Longrightarrow> bit signs (j - i) = s j"
  shows "challenge_loop [i..<256] buf pos state signs c = Some r \<longleftrightarrow>
    (\<exists>n. ball_from [i..<256] (map S [p..<p + n]) s c = Some r)"
  using assms
proof (induction "256 - i" arbitrary: i p buf pos state signs c)
  case 0
  then show ?case by simp
next
  case (Suc d)
  then have i: "i < 256" "[i..<256] = i # [Suc i..<256]" by (simp_all add: upt_conv_Cons)
  have sgn: "sext32 (1 - 2 * (signs AND 1) :: u64) = (if s i then - 1 else (1 :: i32))"
    using shr_and_1 [of 0 signs] Suc.prems(3) [of i] i(1) by simp
  have s': "bit (shr signs 1) (j - Suc i) = s j" if "Suc i \<le> j" "j < 256" for j
    using Suc.prems(3) [of j] that by (simp add: bit_drop_bit_eq Suc_diff_Suc)
  let ?c = "\<lambda>b. c[i := c ! b, b := if s i then - 1 else 1]"
  have B: "(\<exists>n. ball_from [i..<256] (map S [p..<p + n]) s c = Some r) \<longleftrightarrow>
      (\<exists>m. (\<forall>j<m. i < unat (S (p + j))) \<and> unat (S (p + m)) \<le> i \<and>
        (\<exists>n. ball_from [Suc i..<256] (map S [Suc (p + m)..<Suc (p + m) + n]) s (?c (unat (S (p + m)))) = Some r))"
    (is "?L \<longleftrightarrow> ?R")
  proof
    assume ?L
    then obtain n m where m: "m < n" "\<forall>j<m. i < unat (S (p + j))" "unat (S (p + m)) \<le> i"
      and b: "ball_from [Suc i..<256] (drop (Suc m) (map S [p..<p + n])) s (?c (unat (S (p + m)))) = Some r"
      unfolding i(2) ball_from_Cons by auto
    have "drop (Suc m) (map S [p..<p + n]) = map S [Suc (p + m)..<Suc (p + m) + (n - Suc m)]"
      using m(1) by (simp add: drop_map)
    with b m show ?R by metis
  next
    assume ?R
    then obtain m n where m: "\<forall>j<m. i < unat (S (p + j))" "unat (S (p + m)) \<le> i"
      and b: "ball_from [Suc i..<256] (map S [Suc (p + m)..<Suc (p + m) + n]) s (?c (unat (S (p + m)))) = Some r" by blast
    define bs where "bs = map S [p..<p + (Suc m + n)]"
    have bs: "length bs = Suc m + n" "drop (Suc m) bs = map S [Suc (p + m)..<Suc (p + m) + n]"
      by (simp_all add: bs_def drop_map add.assoc del: upt_Suc)
    have bsn: "bs ! j = S (p + j)" if "j \<le> m" for j using that by (simp add: bs_def del: upt_Suc)
    have "ball_from [i..<256] bs s c = Some r"
      unfolding i(2) ball_from_Cons
      by (intro exI [of _ m]) (use m b bs bsn in simp)
    then show ?L unfolding bs_def by blast
  qed
  from challenge_byte_iff [OF Suc.prems(1), of i] show ?case
  proof (elim disjE exE conjE)
    fix m buf' pos' state'
    assume m: "\<forall>j<m. i < unat (S (p + j))" "unat (S (p + m)) \<le> i"
      and e: "challenge_byte i buf pos state = Some (unat (S (p + m)), buf', pos', state')"
      and R: "reads S (Suc (p + m)) buf' pos' state'"
    have "challenge_loop [i..<256] buf pos state signs c = Some r \<longleftrightarrow>
        challenge_loop [Suc i..<256] buf' pos' state' (shr signs 1) (?c (unat (S (p + m)))) = Some r"
      unfolding i(2) by (simp add: e Let_def sgn [simplified])
    also have "\<dots> \<longleftrightarrow> (\<exists>n. ball_from [Suc i..<256] (map S [Suc (p + m)..<Suc (p + m) + n]) s (?c (unat (S (p + m)))) = Some r)"
      using Suc.hyps(2) i(1) by (intro Suc.hyps(1) R s') simp_all
    also have "\<dots> \<longleftrightarrow> (\<exists>n. ball_from [i..<256] (map S [p..<p + n]) s c = Some r)"
      unfolding B using m least_unique [of m "\<lambda>j. unat (S (p + j)) \<le> i"] by (metis not_le)
    finally show ?thesis .
  next
    assume "challenge_byte i buf pos state = None" "\<forall>m. i < unat (S (p + m))"
    then show ?thesis unfolding B unfolding i(2) by (auto simp: not_le)
  qed
qed

lemma ball_from_cong: "(\<And>j. j \<in> set is \<Longrightarrow> s j = s' j) \<Longrightarrow> ball_from is bs s c = ball_from is bs s' c"
  by (induction "is" bs s c rule: ball_from.induct) auto

lemma poly_challenge_iff:
  assumes "dsa_tau par \<le> 64"
  shows "poly_challenge par seed = Some c \<longleftrightarrow>
    (\<exists>n. sample_in_ball (dsa_tau par) (shake256 n (take (dsa_cp_sz par) seed)) = Some c)"
proof -
  define m where "m = take (dsa_cp_sz par) seed"
  define st where "st = shake256_absorb_once m"
  define S where "S = shake256_stream st"
  define buf st' where "buf = fst (shake256_squeezeblocks 1 st)" and "st' = snd (shake256_squeezeblocks 1 st)"
  define signs where "signs = fold (\<lambda>i signs. signs OR shl (zext64 (buf ! i)) (8 * i)) [0..<8] (0 :: u64)"
  define i where "i = 256 - dsa_tau par"
  have st: "shake256_finalize (shake256_absorb (shake256_init keccak_fresh) m) = st"
    using shake256_finalize_absorbs [of keccak_fresh "[m]"] by (simp add: st_def keccak_fresh_def)
  have b: "buf ! k = S k" if "k < 136" for k
    using that unfolding buf_def shake256.blocks_out S_def by simp
  have n: "shake256_stream st' k = S (136 + k)" for k
    unfolding st'_def S_def using shake256.blocks_next [of 1 st k] by simp
  have R: "reads S 8 buf 8 st'" by (simp add: reads_def b n)
  have sb: "bit signs k = byte_bit (map S [0..<n]) k" if "k < 64" "8 \<le> n" for k n
  proof -
    have "\<forall>k<64. bit signs k = bit (S (k div 8)) (k mod 8)"
      unfolding signs_def by (simp add: upt_rec all_less_numeral bit_fields b flip: One_nat_def)
    moreover have "k div 8 < n" using that by linarith
    ultimately show ?thesis using that(1) by (simp add: byte_bit_def)
  qed
  have "poly_challenge par seed = challenge_loop [i..<256] buf 8 st' signs (replicate 256 0)"
    unfolding poly_challenge_def m_def [symmetric] st Let_def case_prod_beta buf_def [symmetric] st'_def [symmetric]
      signs_def [symmetric] i_def [symmetric] ..
  then have "poly_challenge par seed = Some c \<longleftrightarrow>
      (\<exists>n. ball_from [i..<256] (map S [8..<8 + n]) (\<lambda>j. bit signs (j - i)) (replicate 256 0) = Some c)"
    using challenge_loop_iff [OF R, of i signs "\<lambda>j. bit signs (j - i)" "replicate 256 0" c] by (simp add: i_def)
  also have "\<dots> \<longleftrightarrow> (\<exists>n. sample_in_ball (dsa_tau par) (map S [0..<n]) = Some c)"
  proof -
    have c: "ball_from [i..<256] bs (\<lambda>j. bit signs (j - i)) c0 = ball_from [i..<256] bs (\<lambda>j. byte_bit (map S [0..<n]) (j + dsa_tau par - 256)) c0"
      if "8 \<le> n" for n bs c0
    proof (rule ball_from_cong)
      show "bit signs (j - i) = byte_bit (map S [0..<n]) (j + dsa_tau par - 256)" if "j \<in> set [i..<256]" for j
      proof -
        have "j - i = j + dsa_tau par - 256" "j - i < 64" using that assms by (auto simp: i_def)
        then show ?thesis using sb [of "j - i" n] \<open>8 \<le> n\<close> by simp
      qed
    qed
    show ?thesis
    proof
      assume "\<exists>n. ball_from [i..<256] (map S [8..<8 + n]) (\<lambda>j. bit signs (j - i)) (replicate 256 0) = Some c"
      then obtain n where "ball_from [i..<256] (map S [8..<8 + n]) (\<lambda>j. bit signs (j - i)) (replicate 256 0) = Some c" ..
      then have "sample_in_ball (dsa_tau par) (map S [0..<8 + n]) = Some c"
        unfolding sample_in_ball_def i_def [symmetric] by (simp add: drop_map c [of "8 + n"])
      then show "\<exists>n. sample_in_ball (dsa_tau par) (map S [0..<n]) = Some c" by blast
    next
      assume "\<exists>n. sample_in_ball (dsa_tau par) (map S [0..<n]) = Some c"
      then obtain n where n: "sample_in_ball (dsa_tau par) (map S [0..<n]) = Some c" ..
      then have "8 \<le> n" by (auto simp: sample_in_ball_def split: if_splits)
      with n have "ball_from [i..<256] (map S [8..<8 + (n - 8)]) (\<lambda>j. bit signs (j - i)) (replicate 256 0) = Some c"
        unfolding sample_in_ball_def i_def [symmetric] by (simp add: drop_map c [of n])
      then show "\<exists>n. ball_from [i..<256] (map S [8..<8 + n]) (\<lambda>j. bit signs (j - i)) (replicate 256 0) = Some c" by blast
    qed
  qed
  finally show ?thesis unfolding S_def st_def m_def shake256_stream_once .
qed

section \<open>Properties\<close>

text \<open>C33: the invariant of the challenge loop, at its end: whenever \<open>poly_challenge\<close> returns, the polynomial has
  exactly \<open>tau\<close> coefficients \<open>1\<close> or \<open>- 1\<close> and the rest are zero.\<close>

theorem mldsa_challenge_weight:
  assumes "par \<in> set mldsa_par"
  shows "pred_option (challenge_poly (dsa_tau par)) (poly_challenge par seed)"
  using poly_challenge_inv [of par seed] mldsa_par_ok [OF assms]
  by (auto simp: pred_option_def mldsa_param_ok_def)

theorem mldsa_challenge_weight_witness: "pred_option (challenge_poly 39) (poly_challenge mldsa_44 (replicate 32 5))"
  using mldsa_challenge_weight [of mldsa_44 "replicate 32 5"] by (simp add: mldsa_par_def mldsa_44_def)

text \<open>C32: \<open>poly_challenge\<close> computes \<open>SampleInBall\<close> of FIPS 204: it returns exactly when the reference succeeds
  on some finite prefix of the SHAKE256 output of the seed, with the same polynomial.\<close>

theorem mldsa_challenge_correct:
  assumes "par \<in> set mldsa_par"
  shows "poly_challenge par seed = Some c \<longleftrightarrow>
    (\<exists>n. sample_in_ball (dsa_tau par) (shake256 n (take (dsa_cp_sz par) seed)) = Some c)"
  using mldsa_par_ok [OF assms] by (intro poly_challenge_iff) (auto simp: mldsa_param_ok_def)

theorem mldsa_challenge_correct_witness:
  "poly_challenge mldsa_44 (replicate 40 1) = Some (replicate 256 0) \<longleftrightarrow>
    (\<exists>n. sample_in_ball 39 (shake256 n (replicate 32 1)) = Some (replicate 256 0))"
  using mldsa_challenge_correct [of mldsa_44 "replicate 40 1" "replicate 256 0"] by (simp add: mldsa_par_def mldsa_44_def)

end
