(* ===== verification/Dsa_Sign.thy ===== *)
theory Dsa_Sign
  imports Dsa_Polyvec
begin

text \<open>
  \<open>tools/pqc/mldsa/mldsa.c\<close>: packing of keys and signatures, key generation, signing and verification.
  The rejection loop of \<open>mldsa_sign_internal\<close> is the partial function \<open>mldsa_sign_loop\<close> over its body
  \<open>sign_attempt\<close>; \<open>None\<close> stands for a call that does not return.  The instrumentation (\<open>TAP\<close>, \<open>DBG_*\<close>,
  \<open>mldsa_sign_iters\<close>) is left out.
\<close>

section \<open>Keys\<close>

definition pack_pk :: "mldsa_param \<Rightarrow> u8 list \<Rightarrow> dvec \<Rightarrow> u8 list" where
  "pack_pk par rho t1 =
     take MLDSA_SEED_SZ rho @ concat (map (\<lambda>i. polyt1_pack (t1 ! i)) [0..<dsa_k par])"

definition unpack_pk :: "mldsa_param \<Rightarrow> u8 list \<Rightarrow> u8 list \<times> dvec" where
  "unpack_pk par pk =
     (let rho = take MLDSA_SEED_SZ pk;
          pk = drop MLDSA_SEED_SZ pk;
          t1 = map (\<lambda>i. polyt1_unpack (drop (i * MLDSA_POLY_T1_SZ) pk)) [0..<dsa_k par]
      in (rho, t1))"

definition pack_sk :: "mldsa_param \<Rightarrow> u8 list \<Rightarrow> u8 list \<Rightarrow> u8 list \<Rightarrow> dvec \<Rightarrow> dvec \<Rightarrow> dvec \<Rightarrow> u8 list" where
  "pack_sk par rho tr key t0 s1 s2 =
     take MLDSA_SEED_SZ rho @ take MLDSA_SEED_SZ key @ take MLDSA_TR_SZ tr @
     concat (map (\<lambda>i. polyeta_pack par (s1 ! i)) [0..<dsa_ell par]) @
     concat (map (\<lambda>i. polyeta_pack par (s2 ! i)) [0..<dsa_k par]) @
     concat (map (\<lambda>i. polyt0_pack (t0 ! i)) [0..<dsa_k par])"

text \<open>The parts in the order of the C function's out-parameters: \<open>rho\<close>, \<open>tr\<close>, \<open>key\<close>, \<open>t0\<close>, \<open>s1\<close>, \<open>s2\<close>.\<close>

definition unpack_sk ::
  "mldsa_param \<Rightarrow> u8 list \<Rightarrow> u8 list \<times> u8 list \<times> u8 list \<times> dvec \<times> dvec \<times> dvec" where
  "unpack_sk par sk =
     (let rho = take MLDSA_SEED_SZ sk;
          sk = drop MLDSA_SEED_SZ sk;
          key = take MLDSA_SEED_SZ sk;
          sk = drop MLDSA_SEED_SZ sk;
          tr = take MLDSA_TR_SZ sk;
          sk = drop MLDSA_TR_SZ sk;
          s1 = map (\<lambda>i. polyeta_unpack par (drop (i * dsa_eta_sz par) sk)) [0..<dsa_ell par];
          sk = drop (dsa_ell par * dsa_eta_sz par) sk;
          s2 = map (\<lambda>i. polyeta_unpack par (drop (i * dsa_eta_sz par) sk)) [0..<dsa_k par];
          sk = drop (dsa_k par * dsa_eta_sz par) sk;
          t0 = map (\<lambda>i. polyt0_unpack (drop (i * MLDSA_POLY_T0_SZ) sk)) [0..<dsa_k par]
      in (rho, tr, key, t0, s1, s2))"

section \<open>Signatures\<close>

text \<open>The hint area: \<open>omega\<close> positions and \<open>k\<close> running totals, zeroed first; \<open>k\<close> counts the positions.\<close>

definition pack_hint_row :: "nat \<Rightarrow> dvec \<Rightarrow> nat \<Rightarrow> u8 list \<times> nat \<Rightarrow> u8 list \<times> nat" where
  "pack_hint_row omega h i sk =
     (let (sig, k) = fold (\<lambda>j (sig, k). if h ! i ! j \<noteq> 0 then (sig[k := of_nat j], k + 1) else (sig, k))
            [0..<MLDSA_PAR_N] sk
      in (sig[omega + i := of_nat k], k))"

definition pack_hint :: "mldsa_param \<Rightarrow> dvec \<Rightarrow> u8 list" where
  "pack_hint par h =
     fst (fold (pack_hint_row (dsa_omega par) h) [0..<dsa_k par]
       (replicate (dsa_omega par + dsa_k par) 0, 0))"

definition pack_sig :: "mldsa_param \<Rightarrow> u8 list \<Rightarrow> dvec \<Rightarrow> dvec \<Rightarrow> u8 list" where
  "pack_sig par c z h =
     take (dsa_cp_sz par) c @
     concat (map (\<lambda>i. polyz_pack par (z ! i)) [0..<dsa_ell par]) @
     pack_hint par h"

text \<open>The inner loop over the positions of one row; \<open>None\<close> is \<open>return 1\<close>.\<close>

function unpack_hint_row :: "u8 list \<Rightarrow> nat \<Rightarrow> nat \<Rightarrow> nat \<Rightarrow> dpoly \<Rightarrow> dpoly option" where
  "unpack_hint_row sig k n j h =
     (if j < n
      then if k < j \<and> sig ! j \<le> sig ! (j - 1) then None
           else unpack_hint_row sig k n (j + 1) (h[unat (sig ! j) := 1])
      else Some h)"
  by pat_completeness auto
termination
  by (relation "measure (\<lambda>(sig, k, n, j, h). n - j)") auto

fun unpack_hint_rows :: "nat \<Rightarrow> u8 list \<Rightarrow> nat list \<Rightarrow> nat \<Rightarrow> dvec \<Rightarrow> (nat \<times> dvec) option" where
  "unpack_hint_rows omega sig [] k h = Some (k, h)"
| "unpack_hint_rows omega sig (i # is) k h =
     (let n = unat (sig ! (omega + i))
      in if n < k \<or> omega < n then None
         else Option.bind (unpack_hint_row sig k n k (replicate MLDSA_PAR_N 0)) (\<lambda>p.
           unpack_hint_rows omega sig is n (h @ [p])))"

definition unpack_hint :: "mldsa_param \<Rightarrow> u8 list \<Rightarrow> dvec option" where
  "unpack_hint par sig =
     Option.bind (unpack_hint_rows (dsa_omega par) sig [0..<dsa_k par] 0 []) (\<lambda>(k, h).
       if list_ex (\<lambda>j. sig ! j \<noteq> 0) [k..<dsa_omega par] then None else Some h)"

definition unpack_sig :: "mldsa_param \<Rightarrow> u8 list \<Rightarrow> (u8 list \<times> dvec \<times> dvec) option" where
  "unpack_sig par sig =
     (let c = take (dsa_cp_sz par) sig;
          sig = drop (dsa_cp_sz par) sig;
          z = map (\<lambda>i. polyz_unpack par (drop (i * dsa_pzp_sz par) sig)) [0..<dsa_ell par];
          sig = drop (dsa_ell par * dsa_pzp_sz par) sig
      in Option.bind (unpack_hint par sig) (\<lambda>h. Some (c, z, h)))"

section \<open>Key generation\<close>

text \<open>The arithmetic of key generation: \<open>t = A s1 + s2\<close>, rounded.\<close>

definition keygen_arith :: "mldsa_param \<Rightarrow> dmat \<Rightarrow> dvec \<Rightarrow> dvec \<Rightarrow> dvec \<times> dvec" where
  "keygen_arith par mat s1 s2 =
     (let s1hat = s1;
          s1hat = polyvecl_ntt par s1hat;
          t1 = polyvec_matrix_pointwise_montgomery par mat s1hat;
          t1 = polyveck_reduce par t1;
          t1 = polyveck_invntt_tomont par t1;
          t1 = polyveck_add par t1 s2;
          t1 = polyveck_caddq par t1
      in polyveck_power2round par t1)"

definition mldsa_keygen_internal :: "mldsa_param \<Rightarrow> u8 list \<Rightarrow> (u8 list \<times> u8 list) option" where
  "mldsa_keygen_internal par seed =
     (let seedbuf = take MLDSA_SEED_SZ seed @ [of_nat (dsa_k par), of_nat (dsa_ell par)];
          seedbuf = shake256 (2 * MLDSA_SEED_SZ + MLDSA_CRH_SZ) seedbuf;
          rho = take MLDSA_SEED_SZ seedbuf;
          rhop = take MLDSA_CRH_SZ (drop MLDSA_SEED_SZ seedbuf);
          key = take MLDSA_SEED_SZ (drop (MLDSA_SEED_SZ + MLDSA_CRH_SZ) seedbuf)
      in Option.bind (polyvec_matrix_expand par rho) (\<lambda>mat.
         Option.bind (polyvecl_uniform_eta par rhop 0) (\<lambda>s1.
         Option.bind (polyveck_uniform_eta par rhop (of_nat (dsa_ell par))) (\<lambda>s2.
         let (t1, t0) = keygen_arith par mat s1 s2;
             pk = pack_pk par rho t1;
             tr = shake256 MLDSA_TR_SZ (take (dsa_pk_sz par) pk);
             sk = pack_sk par rho tr key t0 s1 s2
         in Some (pk, sk)))))"

section \<open>Signing\<close>

text \<open>\<open>shake256\<close> over two pieces, as the signer and the verifier call it.\<close>

definition shake256_two :: "nat \<Rightarrow> u8 list \<Rightarrow> u8 list \<Rightarrow> u8 list" where
  "shake256_two n a b =
     (let state = shake256_init keccak_fresh;
          state = shake256_absorb state a;
          state = shake256_absorb state b;
          state = shake256_finalize state
      in fst (shake256_squeeze n state))"

text \<open>The commitment: \<open>w = A y\<close> and its decomposition.\<close>

definition sign_commit :: "mldsa_param \<Rightarrow> dmat \<Rightarrow> dvec \<Rightarrow> dvec \<times> dvec" where
  "sign_commit par mat y =
     (let z = y;
          z = polyvecl_ntt par z;
          w1 = polyvec_matrix_pointwise_montgomery par mat z;
          w1 = polyveck_reduce par w1;
          w1 = polyveck_invntt_tomont par w1;
          w1 = polyveck_caddq par w1
      in polyveck_decompose par w1)"

text \<open>
  The response to a challenge: \<open>None\<close> is a jump back to \<open>rej\<close>.  \<open>s1\<close>, \<open>s2\<close>, \<open>t0\<close> and \<open>cp\<close> are transformed.
\<close>

definition sign_respond ::
  "mldsa_param \<Rightarrow> dvec \<Rightarrow> dvec \<Rightarrow> dvec \<Rightarrow> dpoly \<Rightarrow> dvec \<Rightarrow> dvec \<Rightarrow> dvec \<Rightarrow> (dvec \<times> dvec) option" where
  "sign_respond par s1 s2 t0 cp y w1 w0 =
     (let z = polyvecl_pointwise_poly_montgomery par cp s1;
          z = polyvecl_invntt_tomont par z;
          z = polyvecl_add par z y;
          z = polyvecl_reduce par z
      in if polyvecl_chknorm par z (dsa_gamma1 par - dsa_beta par) then None
      else
      let h = polyveck_pointwise_poly_montgomery par cp s2;
          h = polyveck_invntt_tomont par h;
          w0 = polyveck_sub par w0 h;
          w0 = polyveck_reduce par w0
      in if polyveck_chknorm par w0 (dsa_gamma2 par - dsa_beta par) then None
      else
      let h = polyveck_pointwise_poly_montgomery par cp t0;
          h = polyveck_invntt_tomont par h;
          h = polyveck_reduce par h
      in if polyveck_chknorm par h (dsa_gamma2 par) then None
      else
      let w0 = polyveck_add par w0 h;
          (n, h) = polyveck_make_hint par w0 w1
      in if dsa_omega par < unat n then None else Some (z, h))"

datatype sign_outcome = Sign_reject | Sign_done "u8 list" dvec dvec

text \<open>One pass from \<open>rej\<close>: the challenge bytes, the response and the hints, or a rejection.\<close>

definition sign_attempt ::
  "mldsa_param \<Rightarrow> dmat \<Rightarrow> u8 list \<Rightarrow> u8 list \<Rightarrow> dvec \<Rightarrow> dvec \<Rightarrow> dvec \<Rightarrow> u16 \<Rightarrow> sign_outcome option" where
  "sign_attempt par mat mu rhop s1 s2 t0 nonce =
     (let y = polyvecl_uniform_gamma1 par rhop nonce;
          (w1, w0) = sign_commit par mat y;
          sig = polyveck_pack_w1 par w1;
          sig = shake256_two (dsa_cp_sz par) mu (take (dsa_k par * dsa_w1p_sz par) sig)
      in Option.bind (poly_challenge par sig) (\<lambda>cp.
         let cp = mldsa_poly_ntt cp
         in case sign_respond par s1 s2 t0 cp y w1 w0 of
              None \<Rightarrow> Some Sign_reject
            | Some (z, h) \<Rightarrow> Some (Sign_done sig z h)))"

partial_function (option) mldsa_sign_loop ::
  "mldsa_param \<Rightarrow> dmat \<Rightarrow> u8 list \<Rightarrow> u8 list \<Rightarrow> dvec \<Rightarrow> dvec \<Rightarrow> dvec \<Rightarrow> u16 \<Rightarrow> u8 list option" where
  "mldsa_sign_loop par mat mu rhop s1 s2 t0 nonce =
     Option.bind (sign_attempt par mat mu rhop s1 s2 t0 nonce) (\<lambda>out.
       case out of Sign_reject \<Rightarrow> mldsa_sign_loop par mat mu rhop s1 s2 t0 (nonce + 1)
       | Sign_done c z h \<Rightarrow> Some (pack_sig par c z h))"

text \<open>The signature and the size stored through \<open>sig_sz\<close>.\<close>

definition mldsa_sign_internal ::
  "mldsa_param \<Rightarrow> u8 list \<Rightarrow> u8 list \<Rightarrow> u8 list \<Rightarrow> (u8 list \<times> nat) option" where
  "mldsa_sign_internal par sk m rnd =
     (let (rho, tr, key, t0, s1, s2) = unpack_sk par sk;
          mu = shake256_two MLDSA_CRH_SZ tr m;
          rhop = shake256 MLDSA_CRH_SZ (key @ take MLDSA_RND_SZ rnd @ mu)
      in Option.bind (polyvec_matrix_expand par rho) (\<lambda>mat.
         let s1 = polyvecl_ntt par s1;
             s2 = polyveck_ntt par s2;
             t0 = polyveck_ntt par t0
         in Option.bind (mldsa_sign_loop par mat mu rhop s1 s2 t0 0) (\<lambda>sig.
            Some (sig, dsa_sig_sz par))))"

section \<open>Verification\<close>

text \<open>The arithmetic of verification: \<open>A z - c t1 2^d\<close>, corrected by the hints.\<close>

definition verify_arith :: "mldsa_param \<Rightarrow> dmat \<Rightarrow> dpoly \<Rightarrow> dvec \<Rightarrow> dvec \<Rightarrow> dvec \<Rightarrow> dvec" where
  "verify_arith par mat cp z t1 h =
     (let z = polyvecl_ntt par z;
          w1 = polyvec_matrix_pointwise_montgomery par mat z;
          cp = mldsa_poly_ntt cp;
          t1 = polyveck_shiftl par t1;
          t1 = polyveck_ntt par t1;
          t1 = polyveck_pointwise_poly_montgomery par cp t1;
          w1 = polyveck_sub par w1 t1;
          w1 = polyveck_reduce par w1;
          w1 = polyveck_invntt_tomont par w1;
          w1 = polyveck_caddq par w1
      in polyveck_use_hint par w1 h)"

text \<open>\<open>True\<close> is the return value 1, a valid signature.\<close>

definition mldsa_verify_internal ::
  "mldsa_param \<Rightarrow> u8 list \<Rightarrow> u8 list \<Rightarrow> u8 list \<Rightarrow> nat \<Rightarrow> bool option" where
  "mldsa_verify_internal par pk m sig sig_sz =
     (if sig_sz \<noteq> dsa_sig_sz par then Some False
      else
      let (rho, t1) = unpack_pk par pk
      in case unpack_sig par sig of
        None \<Rightarrow> Some False
      | Some (c, z, h) \<Rightarrow>
          if polyvecl_chknorm par z (dsa_gamma1 par - dsa_beta par) then Some False
          else
          let mu = shake256 MLDSA_TR_SZ (take (dsa_pk_sz par) pk);
              mu = shake256_two MLDSA_CRH_SZ mu m
          in Option.bind (poly_challenge par c) (\<lambda>cp.
             Option.bind (polyvec_matrix_expand par rho) (\<lambda>mat.
             let w1 = verify_arith par mat cp z t1 h;
                 buf = polyveck_pack_w1 par w1;
                 c2 = shake256_two (dsa_cp_sz par) mu (take (dsa_k par * dsa_w1p_sz par) buf)
             in Some (list_all (\<lambda>i. c ! i = c2 ! i) [0..<dsa_cp_sz par]))))"

declare unpack_hint_row.simps [simp del]

end
