(* ===== verification/Dsa_Pack_Correct.thy ===== *)
theory Dsa_Pack_Correct
  imports Dsa_Pack Dsa_Reduce
begin

text \<open>
  Serialisation in \<open>mldsa_poly.c\<close>.  Each pair of routines writes the coefficients as little-endian fields of
  \<open>d\<close> bits, most of them after subtracting them from a constant.  The locale \<open>coeff_codec\<close> states what a
  group of coefficients needs for that; both directions of the round trip follow for the loops over
  the whole polynomial.
\<close>

section \<open>Codecs\<close>

locale coeff_codec =
  fixes g v d n :: nat
    and pk :: "i32 list \<Rightarrow> u8 list" and up :: "u8 list \<Rightarrow> i32 list" and enc :: "int \<Rightarrow> int"
  assumes groups: "0 < g" "g * n = 256" "g * d = 8 * v"
    and enc_enc: "enc (enc x) = x"
    and length_pk: "length c = g \<Longrightarrow> length (pk c) = v"
    and length_up: "length b = v \<Longrightarrow> length (up b) = g"
    and pk_field: "length c = g \<Longrightarrow> (\<And>k. k < g \<Longrightarrow> 0 \<le> enc (sint (c ! k)) \<and> enc (sint (c ! k)) < 2 ^ d) \<Longrightarrow>
      k < g \<Longrightarrow> int (field d (pk c) k) = enc (sint (c ! k))"
    and up_field: "length b = v \<Longrightarrow> k < g \<Longrightarrow> sint (up b ! k) = enc (int (field d b k))"
begin

lemma length_pack: "length (map_chunks g n pk a) = n * v"
  by (rule length_map_chunks) (rule length_pk)

lemma length_unpack: "length (map_chunks v n up bs) = 256"
proof -
  have "length (map_chunks v n up bs) = n * g" by (rule length_map_chunks) (rule length_up)
  then show ?thesis using groups(2) by (simp add: mult.commute)
qed

lemma bits: "8 * (n * v) = d * 256"
  using groups by (metis mult.assoc mult.commute)

lemma unpack_nth: "i < 256 \<Longrightarrow> sint (map_chunks v n up bs ! i) = enc (int (field d bs i))"
  using unpack_chunks_nth [of g d v up "\<lambda>x y. sint y = enc (int x)" i n bs] groups length_up up_field
  by simp

lemma pack_field:
  assumes "length a = 256" "\<And>i. i < 256 \<Longrightarrow> 0 \<le> enc (sint (a ! i)) \<and> enc (sint (a ! i)) < 2 ^ d" "i < 256"
  shows "int (field d (map_chunks g n pk a) i) = enc (sint (a ! i))"
proof -
  have r: "0 \<le> enc (sint x) \<and> enc (sint x) < 2 ^ d" if "x \<in> set a" for x
    using that assms(1,2) by (auto simp: in_set_conv_nth)
  have "field d (map_chunks g n pk a) i = nat (enc (sint (a ! i)))"
  proof (rule pack_chunks_field [where v = v])
    fix c k
    assume c: "length c = g" "set c \<subseteq> set a" and k: "k < g"
    have "int (field d (pk c) k) = enc (sint (c ! k))"
      using c by (intro pk_field c(1) k r) auto
    then show "field d (pk c) k = nat (enc (sint (c ! k)))" by simp
  qed (use assms groups length_pk in simp_all)
  then show ?thesis using assms(2) [OF assms(3)] by simp
qed

lemma valid_unpack:
  "i < 256 \<Longrightarrow> 0 \<le> enc (sint (map_chunks v n up bs ! i)) \<and> enc (sint (map_chunks v n up bs ! i)) < 2 ^ d"
  using field_less [of d bs i] by (simp add: unpack_nth enc_enc)

lemma unpack_pack:
  assumes "length a = 256" "\<And>i. i < 256 \<Longrightarrow> 0 \<le> enc (sint (a ! i)) \<and> enc (sint (a ! i)) < 2 ^ d"
  shows "map_chunks v n up (map_chunks g n pk a @ rest) = a"
proof (rule nth_equalityI)
  show "length (map_chunks v n up (map_chunks g n pk a @ rest)) = length a" by (simp add: length_unpack assms)
next
  fix i
  assume "i < length (map_chunks v n up (map_chunks g n pk a @ rest))"
  then have i: "i < 256" by (simp add: length_unpack)
  have "d * Suc i \<le> 8 * length (map_chunks g n pk a)"
    unfolding length_pack bits using i by (intro mult_left_mono) auto
  then have "field d (map_chunks g n pk a @ rest) i = field d (map_chunks g n pk a) i" by (rule field_append)
  then have "sint (map_chunks v n up (map_chunks g n pk a @ rest) ! i) = sint (a ! i)"
    using i by (simp add: unpack_nth pack_field assms enc_enc)
  then show "map_chunks v n up (map_chunks g n pk a @ rest) ! i = a ! i" by (rule signed_word_eqI)
qed

lemma pack_unpack:
  assumes "length bs = n * v"
  shows "map_chunks g n pk (map_chunks v n up bs) = bs"
proof (rule fields_inj [where w = d and N = 256 and n = "n * v"])
  fix i :: nat
  assume i: "i < 256"
  have "int (field d (map_chunks g n pk (map_chunks v n up bs)) i) = enc (sint (map_chunks v n up bs ! i))"
    by (rule pack_field [OF length_unpack valid_unpack i])
  also have "\<dots> = int (field d bs i)" using i by (simp add: unpack_nth enc_enc)
  finally show "field d (map_chunks g n pk (map_chunks v n up bs)) i = field d bs i" by simp
qed (use assms bits length_pack in simp_all)

lemma unpack_inj:
  assumes "map_chunks v n up bs = map_chunks v n up bs'" "length bs = n * v" "length bs' = n * v"
  shows "bs = bs'"
  using assms pack_unpack by metis

end

section \<open>The groups\<close>

text \<open>A word whose low \<open>d\<close> bits are those of a field and whose other bits are zero is the value of the field.\<close>

lemma field_offset:
  fixes r C :: i32
  assumes "\<And>j. j < d \<Longrightarrow> byte_bit bs (d * i + j) = bit (C - r) j" "\<And>j. d \<le> j \<Longrightarrow> \<not> bit (C - r) j"
    and "d \<le> 20" "0 \<le> sint C" "sint C \<le> 524288"
  shows "sint r = sint C - int (field d bs i)"
proof -
  have f: "field d bs i = unat (C - r)" by (rule field_eq_unat [OF assms(1,2)])
  have "unat (C - r) < 2 ^ d" using field_less [of d bs i] by (simp add: f)
  also have "(2 :: nat) ^ d \<le> 2 ^ 20" using assms(3) by (intro power_increasing) simp_all
  finally have u: "unat (C - r) < 1048576" by simp
  then have s: "sint (C - r) = int (unat (C - r))" by (subst sint_eq_unat) simp_all
  have "0 \<le> sint (C - r)" "sint (C - r) < 1048576" using u s by linarith+
  then have "sint (C - (C - r)) = sint C - sint (C - r)"
    using assms(4,5) by (intro sint_diff_fit) simp_all
  then show ?thesis by (simp add: f s)
qed

text \<open>The other direction: the constant minus a coefficient, when it fits the field.\<close>

lemma unat_offset:
  fixes x C :: i32
  assumes "0 \<le> sint C - sint x" "sint C - sint x < 2147483648"
  shows "int (unat (C - x)) = sint C - sint x"
proof -
  have "sint (C - x) = sint C - sint x" using assms by (intro sint_diff_fit) simp_all
  then show ?thesis using assms(1) by (simp only: unat_sint_nonneg)
qed

lemma pack_field_offset:
  fixes t :: "'a::len word list"
  assumes "\<And>k. k < g \<Longrightarrow> int (unat (t ! k)) = e k" "\<And>k. k < g \<Longrightarrow> 0 \<le> e k \<and> e k < 2 ^ d" "k < g"
    and "\<And>k j. (\<And>k j. k < g \<Longrightarrow> d \<le> j \<Longrightarrow> \<not> bit (t ! k) j) \<Longrightarrow> k < g \<Longrightarrow> j < d \<Longrightarrow>
      byte_bit bs (d * k + j) = bit (t ! k) j"
  shows "int (field d bs k) = e k"
proof -
  have "unat (t ! k) < 2 ^ d" if "k < g" for k
  proof -
    have "int (unat (t ! k)) < int (2 ^ d)" using assms(1,2) [OF that] by simp
    then show ?thesis by (simp only: of_nat_less_iff)
  qed
  then have z: "\<not> bit (t ! k) j" if "k < g" "d \<le> j" for k j
    using that small_iff_bits [of "t ! k" d] by simp
  have "field d bs k = unat (t ! k)"
    by (rule field_eq_unat) (use z assms(3,4) in auto)
  then show ?thesis using assms(1,3) by simp
qed

lemma unat_sext8_offset:
  fixes C x :: i32
  assumes "0 \<le> sint C - sint x" "sint C - sint x < 128"
  shows "int (unat (sext8 (C - x))) = sint C - sint x"
proof -
  have "sint (C - x) = sint C - sint x" using assms by (intro sint_diff_fit) simp_all
  then have "sint (sext8 (C - x)) = sint C - sint x" using assms by (subst sint_scast_fit) simp_all
  then show ?thesis using assms(1) by (simp only: unat_sint_nonneg)
qed

lemma polyt0_pack_group_field:
  assumes "length c = 8" "\<And>k. k < 8 \<Longrightarrow> 0 \<le> 4096 - sint (c ! k) \<and> 4096 - sint (c ! k) < 2 ^ 13" "k < 8"
  shows "int (field 13 (polyt0_pack_group c) k) = 4096 - sint (c ! k)"
proof -
  define t where "t = map (\<lambda>x. shl 1 (13 - 1) - x) c"
  show ?thesis
  proof (rule pack_field_offset [where t = t and g = 8])
    fix k j :: nat
    assume z: "\<And>k j. k < 8 \<Longrightarrow> 13 \<le> j \<Longrightarrow> \<not> bit (t ! k) j" and kj: "k < 8" "j < 13"
    have "\<forall>k<8. \<forall>j<13. byte_bit (polyt0_pack_group c) (13 * k + j) = bit (t ! k) j"
      unfolding polyt0_pack_group_def t_def [symmetric] Let_def
      by (simp add: all_less_numeral byte_bit_def bit_fields z flip: One_nat_def)
    then show "byte_bit (polyt0_pack_group c) (13 * k + j) = bit (t ! k) j" using kj by blast
  next
    fix k :: nat
    assume "k < 8"
    then show "int (unat (t ! k)) = 4096 - sint (c ! k)"
      unfolding t_def using assms(1) assms(2) [of k] unat_offset [of 4096 "c ! k"] by simp
  qed (use assms in auto)
qed

lemma polyt0_unpack_group_field:
  assumes "length b = 13" "k < 8"
  shows "sint (polyt0_unpack_group b ! k) = 4096 - int (field 13 b k)"
proof -
  have m: "(0x1FFF :: i32) = mask 13" by (simp add: mask_eq_exp_minus_1)
  have z: "\<forall>k<8. \<forall>j\<ge>13. \<not> bit (4096 - polyt0_unpack_group b ! k) j"
    unfolding polyt0_unpack_group_def m Let_def
    using assms(1) by (simp add: all_less_numeral bit_fields bit_mask_iff flip: One_nat_def)
  have f: "\<forall>k<8. \<forall>j<13. byte_bit b (13 * k + j) = bit (4096 - polyt0_unpack_group b ! k) j"
    unfolding polyt0_unpack_group_def m Let_def
    using assms(1)
    by (simp add: all_less_numeral byte_bit_def bit_fields bit_mask_iff flip: One_nat_def)
  show ?thesis using f z assms(2) field_offset [of 13 b k 4096 "polyt0_unpack_group b ! k"] by auto
qed

lemma polyt1_pack_group_field:
  assumes "length c = 4" "\<And>k. k < 4 \<Longrightarrow> 0 \<le> sint (c ! k) \<and> sint (c ! k) < 2 ^ 10" "k < 4"
  shows "int (field 10 (polyt1_pack_group c) k) = sint (c ! k)"
proof -
  show ?thesis
  proof (rule pack_field_offset [where t = c and g = 4])
    fix k j :: nat
    assume z: "\<And>k j. k < 4 \<Longrightarrow> 10 \<le> j \<Longrightarrow> \<not> bit (c ! k) j" and kj: "k < 4" "j < 10"
    have "\<forall>k<4. \<forall>j<10. byte_bit (polyt1_pack_group c) (10 * k + j) = bit (c ! k) j"
      unfolding polyt1_pack_group_def 
      by (simp add: all_less_numeral byte_bit_def bit_fields bit_signed_drop_bit_iff z flip: One_nat_def)
    then show "byte_bit (polyt1_pack_group c) (10 * k + j) = bit (c ! k) j" using kj by blast
  next
    fix k :: nat
    assume "k < 4"
    then show "int (unat (c ! k)) = sint (c ! k)"
      using assms(2) [of k] by (simp only: unat_sint_nonneg)
  qed (use assms in auto)
qed

lemma polyt1_unpack_group_field:
  assumes "length b = 5" "k < 4"
  shows "sint (polyt1_unpack_group b ! k) = int (field 10 b k)"
proof -
  have m: "(0x3FF :: i32) = mask 10" by (simp add: mask_eq_exp_minus_1)
  have z: "\<forall>k<4. \<forall>j\<ge>10. \<not> bit (polyt1_unpack_group b ! k) j"
    unfolding polyt1_unpack_group_def m Let_def
    using assms(1) by (simp add: all_less_numeral bit_fields bit_mask_iff flip: One_nat_def)
  have f: "\<forall>k<4. \<forall>j<10. byte_bit b (10 * k + j) = bit (polyt1_unpack_group b ! k) j"
    unfolding polyt1_unpack_group_def m Let_def
    using assms(1)
    by (simp add: all_less_numeral byte_bit_def bit_fields bit_mask_iff flip: One_nat_def)
  have "field 10 b k = unat (polyt1_unpack_group b ! k)" by (rule field_eq_unat) (use f z assms(2) in auto)
  then show ?thesis using field_less [of 10 b k] by (subst sint_eq_unat) simp_all
qed

lemma polyeta_pack2_field:
  assumes "length c = 8" "\<And>k. k < 8 \<Longrightarrow> 0 \<le> 2 - sint (c ! k) \<and> 2 - sint (c ! k) < 2 ^ 3" "k < 8"
  shows "int (field 3 (polyeta_pack2 c) k) = 2 - sint (c ! k)"
proof -
  define t where "t = map (\<lambda>x. sext8 (2 - x)) c"
  show ?thesis
  proof (rule pack_field_offset [where t = t and g = 8])
    fix k j :: nat
    assume z: "\<And>k j. k < 8 \<Longrightarrow> 3 \<le> j \<Longrightarrow> \<not> bit (t ! k) j" and kj: "k < 8" "j < 3"
    have "\<forall>k<8. \<forall>j<3. byte_bit (polyeta_pack2 c) (3 * k + j) = bit (t ! k) j"
      unfolding polyeta_pack2_def t_def [symmetric] Let_def
      by (simp add: all_less_numeral byte_bit_def bit_fields z flip: One_nat_def)
    then show "byte_bit (polyeta_pack2 c) (3 * k + j) = bit (t ! k) j" using kj by blast
  next
    fix k :: nat
    assume "k < 8"
    then show "int (unat (t ! k)) = 2 - sint (c ! k)"
      unfolding t_def using assms(1) assms(2) [of k] unat_sext8_offset [of 2 "c ! k"] by simp
  qed (use assms in auto)
qed

lemma polyeta_unpack2_field:
  assumes "length b = 3" "k < 8"
  shows "sint (polyeta_unpack2 b ! k) = 2 - int (field 3 b k)"
proof -
  have m: "(7 :: i32) = mask 3" by (simp add: mask_eq_exp_minus_1)
  have z: "\<forall>k<8. \<forall>j\<ge>3. \<not> bit (2 - polyeta_unpack2 b ! k) j"
    unfolding polyeta_unpack2_def m Let_def
    using assms(1) by (simp add: all_less_numeral bit_fields bit_mask_iff flip: One_nat_def)
  have f: "\<forall>k<8. \<forall>j<3. byte_bit b (3 * k + j) = bit (2 - polyeta_unpack2 b ! k) j"
    unfolding polyeta_unpack2_def m Let_def
    using assms(1)
    by (simp add: all_less_numeral byte_bit_def bit_fields bit_mask_iff flip: One_nat_def)
  show ?thesis using f z assms(2) field_offset [of 3 b k 2 "polyeta_unpack2 b ! k"] by auto
qed

lemma polyeta_pack4_field:
  assumes "length c = 2" "\<And>k. k < 2 \<Longrightarrow> 0 \<le> 4 - sint (c ! k) \<and> 4 - sint (c ! k) < 2 ^ 4" "k < 2"
  shows "int (field 4 (polyeta_pack4 c) k) = 4 - sint (c ! k)"
proof -
  define t where "t = map (\<lambda>x. sext8 (4 - x)) c"
  show ?thesis
  proof (rule pack_field_offset [where t = t and g = 2])
    fix k j :: nat
    assume z: "\<And>k j. k < 2 \<Longrightarrow> 4 \<le> j \<Longrightarrow> \<not> bit (t ! k) j" and kj: "k < 2" "j < 4"
    have "\<forall>k<2. \<forall>j<4. byte_bit (polyeta_pack4 c) (4 * k + j) = bit (t ! k) j"
      unfolding polyeta_pack4_def t_def [symmetric] Let_def
      by (simp add: all_less_numeral byte_bit_def bit_fields z flip: One_nat_def)
    then show "byte_bit (polyeta_pack4 c) (4 * k + j) = bit (t ! k) j" using kj by blast
  next
    fix k :: nat
    assume "k < 2"
    then show "int (unat (t ! k)) = 4 - sint (c ! k)"
      unfolding t_def using assms(1) assms(2) [of k] unat_sext8_offset [of 4 "c ! k"] by simp
  qed (use assms in auto)
qed

lemma polyeta_unpack4_field:
  assumes "length b = 1" "k < 2"
  shows "sint (polyeta_unpack4 b ! k) = 4 - int (field 4 b k)"
proof -
  have m: "(0x0F :: i32) = mask 4" by (simp add: mask_eq_exp_minus_1)
  have z: "\<forall>k<2. \<forall>j\<ge>4. \<not> bit (4 - polyeta_unpack4 b ! k) j"
    unfolding polyeta_unpack4_def m Let_def
    using assms(1) by (simp add: all_less_numeral bit_fields bit_mask_iff flip: One_nat_def)
  have f: "\<forall>k<2. \<forall>j<4. byte_bit b (4 * k + j) = bit (4 - polyeta_unpack4 b ! k) j"
    unfolding polyeta_unpack4_def m Let_def
    using assms(1)
    by (simp add: all_less_numeral byte_bit_def bit_fields bit_mask_iff flip: One_nat_def)
  show ?thesis using f z assms(2) field_offset [of 4 b k 4 "polyeta_unpack4 b ! k"] by auto
qed

lemma polyz_pack17_field:
  assumes "length c = 4" "\<And>k. k < 4 \<Longrightarrow> 0 \<le> 131072 - sint (c ! k) \<and> 131072 - sint (c ! k) < 2 ^ 18" "k < 4"
  shows "int (field 18 (polyz_pack17 c) k) = 131072 - sint (c ! k)"
proof -
  define t where "t = map (\<lambda>x. shl 1 17 - x) c"
  show ?thesis
  proof (rule pack_field_offset [where t = t and g = 4])
    fix k j :: nat
    assume z: "\<And>k j. k < 4 \<Longrightarrow> 18 \<le> j \<Longrightarrow> \<not> bit (t ! k) j" and kj: "k < 4" "j < 18"
    have "\<forall>k<4. \<forall>j<18. byte_bit (polyz_pack17 c) (18 * k + j) = bit (t ! k) j"
      unfolding polyz_pack17_def t_def [symmetric] Let_def
      by (simp add: all_less_numeral byte_bit_def bit_fields z flip: One_nat_def)
    then show "byte_bit (polyz_pack17 c) (18 * k + j) = bit (t ! k) j" using kj by blast
  next
    fix k :: nat
    assume "k < 4"
    then show "int (unat (t ! k)) = 131072 - sint (c ! k)"
      unfolding t_def using assms(1) assms(2) [of k] unat_offset [of 131072 "c ! k"] by simp
  qed (use assms in auto)
qed

lemma polyz_unpack17_field:
  assumes "length b = 9" "k < 4"
  shows "sint (polyz_unpack17 b ! k) = 131072 - int (field 18 b k)"
proof -
  have m: "(0x3FFFF :: i32) = mask 18" by (simp add: mask_eq_exp_minus_1)
  have z: "\<forall>k<4. \<forall>j\<ge>18. \<not> bit (131072 - polyz_unpack17 b ! k) j"
    unfolding polyz_unpack17_def m Let_def
    using assms(1) by (simp add: all_less_numeral bit_fields bit_mask_iff flip: One_nat_def)
  have f: "\<forall>k<4. \<forall>j<18. byte_bit b (18 * k + j) = bit (131072 - polyz_unpack17 b ! k) j"
    unfolding polyz_unpack17_def m Let_def
    using assms(1)
    by (simp add: all_less_numeral byte_bit_def bit_fields bit_mask_iff flip: One_nat_def)
  show ?thesis using f z assms(2) field_offset [of 18 b k 131072 "polyz_unpack17 b ! k"] by auto
qed

lemma polyz_pack19_field:
  assumes "length c = 2" "\<And>k. k < 2 \<Longrightarrow> 0 \<le> 524288 - sint (c ! k) \<and> 524288 - sint (c ! k) < 2 ^ 20" "k < 2"
  shows "int (field 20 (polyz_pack19 c) k) = 524288 - sint (c ! k)"
proof -
  define t where "t = map (\<lambda>x. shl 1 19 - x) c"
  show ?thesis
  proof (rule pack_field_offset [where t = t and g = 2])
    fix k j :: nat
    assume z: "\<And>k j. k < 2 \<Longrightarrow> 20 \<le> j \<Longrightarrow> \<not> bit (t ! k) j" and kj: "k < 2" "j < 20"
    have "\<forall>k<2. \<forall>j<20. byte_bit (polyz_pack19 c) (20 * k + j) = bit (t ! k) j"
      unfolding polyz_pack19_def t_def [symmetric] Let_def
      by (simp add: all_less_numeral byte_bit_def bit_fields z flip: One_nat_def)
    then show "byte_bit (polyz_pack19 c) (20 * k + j) = bit (t ! k) j" using kj by blast
  next
    fix k :: nat
    assume "k < 2"
    then show "int (unat (t ! k)) = 524288 - sint (c ! k)"
      unfolding t_def using assms(1) assms(2) [of k] unat_offset [of 524288 "c ! k"] by simp
  qed (use assms in auto)
qed

lemma polyz_unpack19_field:
  assumes "length b = 5" "k < 2"
  shows "sint (polyz_unpack19 b ! k) = 524288 - int (field 20 b k)"
proof -
  have m: "(0xFFFFF :: i32) = mask 20" by (simp add: mask_eq_exp_minus_1)
  have z: "\<forall>k<2. \<forall>j\<ge>20. \<not> bit (524288 - polyz_unpack19 b ! k) j"
    unfolding polyz_unpack19_def m Let_def
    using assms(1) by (simp add: all_less_numeral bit_fields bit_mask_iff flip: One_nat_def)
  have f: "\<forall>k<2. \<forall>j<20. byte_bit b (20 * k + j) = bit (524288 - polyz_unpack19 b ! k) j"
    unfolding polyz_unpack19_def m Let_def
    using assms(1)
    by (simp add: all_less_numeral byte_bit_def bit_fields bit_mask_iff flip: One_nat_def)
  show ?thesis using f z assms(2) field_offset [of 20 b k 524288 "polyz_unpack19 b ! k"] by auto
qed

lemma polyw1_pack88_field:
  assumes "length c = 4" "\<And>k. k < 4 \<Longrightarrow> 0 \<le> sint (c ! k) \<and> sint (c ! k) < 2 ^ 6" "k < 4"
  shows "int (field 6 (polyw1_pack88 c) k) = sint (c ! k)"
proof -
  show ?thesis
  proof (rule pack_field_offset [where t = c and g = 4])
    fix k j :: nat
    assume z: "\<And>k j. k < 4 \<Longrightarrow> 6 \<le> j \<Longrightarrow> \<not> bit (c ! k) j" and kj: "k < 4" "j < 6"
    have "\<forall>k<4. \<forall>j<6. byte_bit (polyw1_pack88 c) (6 * k + j) = bit (c ! k) j"
      unfolding polyw1_pack88_def 
      by (simp add: all_less_numeral byte_bit_def bit_fields bit_signed_drop_bit_iff z flip: One_nat_def)
    then show "byte_bit (polyw1_pack88 c) (6 * k + j) = bit (c ! k) j" using kj by blast
  next
    fix k :: nat
    assume "k < 4"
    then show "int (unat (c ! k)) = sint (c ! k)"
      using assms(2) [of k] by (simp only: unat_sint_nonneg)
  qed (use assms in auto)
qed

lemma polyw1_pack32_field:
  assumes "length c = 2" "\<And>k. k < 2 \<Longrightarrow> 0 \<le> sint (c ! k) \<and> sint (c ! k) < 2 ^ 4" "k < 2"
  shows "int (field 4 (polyw1_pack32 c) k) = sint (c ! k)"
proof -
  show ?thesis
  proof (rule pack_field_offset [where t = c and g = 2])
    fix k j :: nat
    assume z: "\<And>k j. k < 2 \<Longrightarrow> 4 \<le> j \<Longrightarrow> \<not> bit (c ! k) j" and kj: "k < 2" "j < 4"
    have "\<forall>k<2. \<forall>j<4. byte_bit (polyw1_pack32 c) (4 * k + j) = bit (c ! k) j"
      unfolding polyw1_pack32_def 
      by (simp add: all_less_numeral byte_bit_def bit_fields bit_signed_drop_bit_iff z flip: One_nat_def)
    then show "byte_bit (polyw1_pack32 c) (4 * k + j) = bit (c ! k) j" using kj by blast
  next
    fix k :: nat
    assume "k < 2"
    then show "int (unat (c ! k)) = sint (c ! k)"
      using assms(2) [of k] by (simp only: unat_sint_nonneg)
  qed (use assms in auto)
qed

section \<open>The loops over a polynomial\<close>

interpretation t0_codec: coeff_codec 8 13 13 32 polyt0_pack_group polyt0_unpack_group "\<lambda>x. 4096 - x"
  by unfold_locales (simp_all add: polyt0_pack_group_field polyt0_unpack_group_field,
      simp_all add: polyt0_pack_group_def polyt0_unpack_group_def Let_def)

interpretation t1_codec: coeff_codec 4 5 10 64 polyt1_pack_group polyt1_unpack_group "\<lambda>x. x"
  by unfold_locales (simp_all add: polyt1_pack_group_field polyt1_unpack_group_field,
      simp_all add: polyt1_pack_group_def polyt1_unpack_group_def Let_def)

interpretation eta2_codec: coeff_codec 8 3 3 32 polyeta_pack2 polyeta_unpack2 "\<lambda>x. 2 - x"
  by unfold_locales (simp_all add: polyeta_pack2_field polyeta_unpack2_field,
      simp_all add: polyeta_pack2_def polyeta_unpack2_def Let_def)

interpretation eta4_codec: coeff_codec 2 1 4 128 polyeta_pack4 polyeta_unpack4 "\<lambda>x. 4 - x"
  by unfold_locales (simp_all add: polyeta_pack4_field polyeta_unpack4_field,
      simp_all add: polyeta_pack4_def polyeta_unpack4_def Let_def)

interpretation z17_codec: coeff_codec 4 9 18 64 polyz_pack17 polyz_unpack17 "\<lambda>x. 131072 - x"
  by unfold_locales (simp_all add: polyz_pack17_field polyz_unpack17_field,
      simp_all add: polyz_pack17_def polyz_unpack17_def Let_def)

interpretation z19_codec: coeff_codec 2 5 20 128 polyz_pack19 polyz_unpack19 "\<lambda>x. 524288 - x"
  by unfold_locales (simp_all add: polyz_pack19_field polyz_unpack19_field,
      simp_all add: polyz_pack19_def polyz_unpack19_def Let_def)

end
