(* ===== verification/Dsa_Keys_Correct.thy ===== *)
theory Dsa_Keys_Correct
  imports Dsa_Sign Dsa_Pack_Correct
begin

text \<open>
  The encodings of \<open>mldsa.c\<close>: what the coefficient codecs give for the routines under a parameter set,
  vectors laid out one polynomial after the other, and the two keys.
\<close>

section \<open>Polynomials under a parameter set\<close>

definition z_poly :: "mldsa_param \<Rightarrow> dpoly \<Rightarrow> bool" where
  "z_poly par a \<longleftrightarrow> length a = 256 \<and>
     (\<forall>i<256. - sint (dsa_gamma1 par) < dcoeff a i \<and> dcoeff a i \<le> sint (dsa_gamma1 par))"

definition t1_poly :: "dpoly \<Rightarrow> bool" where
  "t1_poly a \<longleftrightarrow> length a = 256 \<and> (\<forall>i<256. 0 \<le> dcoeff a i \<and> dcoeff a i < 1024)"

definition t0_poly :: "dpoly \<Rightarrow> bool" where
  "t0_poly a \<longleftrightarrow> length a = 256 \<and> (\<forall>i<256. - 4096 < dcoeff a i \<and> dcoeff a i \<le> 4096)"

lemmas dsa_poly_defs = z_poly_def t1_poly_def t0_poly_def dcoeff_def

lemma mldsa_param_cases:
  assumes "mldsa_param_ok par"
  obtains (eta2) "dsa_eta par = 2" "dsa_eta_sz par = 96" | (eta4) "dsa_eta par = 4" "dsa_eta_sz par = 128"
  using assms by (auto simp: mldsa_param_ok_def)

lemma mldsa_gamma1_cases:
  assumes "mldsa_param_ok par"
  obtains (g17) "dsa_gamma1 par = 131072" "dsa_pzp_sz par = 576" | (g19) "dsa_gamma1 par = 524288" "dsa_pzp_sz par = 640"
  using assms by (auto simp: mldsa_param_ok_def)

lemma length_polyeta_pack: "mldsa_param_ok par \<Longrightarrow> length (polyeta_pack par a) = dsa_eta_sz par"
  by (erule mldsa_param_cases) (simp_all add: polyeta_pack_def eta2_codec.length_pack eta4_codec.length_pack)

lemma length_polyeta_unpack: "mldsa_param_ok par \<Longrightarrow> length (polyeta_unpack par b) = 256"
  by (erule mldsa_param_cases)
    (simp_all add: polyeta_unpack_def eta2_codec.length_unpack eta4_codec.length_unpack [simplified])

lemma polyeta_unpack_pack:
  assumes "mldsa_param_ok par" "dpoly_bounded (int (dsa_eta par)) a"
  shows "polyeta_unpack par (polyeta_pack par a @ rest) = a"
  using assms(1)
proof (cases rule: mldsa_param_cases)
  case eta2
  then show ?thesis using assms(2)
    by (auto simp: polyeta_pack_def polyeta_unpack_def dpoly_bounded_iff dcoeff_def abs_le_iff
        intro!: eta2_codec.unpack_pack)
next
  case eta4
  then show ?thesis using assms(2)
    by (auto simp: polyeta_pack_def polyeta_unpack_def dpoly_bounded_iff dcoeff_def abs_le_iff
        intro!: eta4_codec.unpack_pack [unfolded One_nat_def])
qed

lemma polyeta_pack_unpack:
  assumes "mldsa_param_ok par" "length b = dsa_eta_sz par"
  shows "polyeta_pack par (polyeta_unpack par b) = b"
  using assms(1)
  by (cases rule: mldsa_param_cases)
    (use assms(2) in \<open>simp_all add: polyeta_pack_def polyeta_unpack_def eta2_codec.pack_unpack eta4_codec.pack_unpack [simplified]\<close>)

lemma length_polyt1 [simp]: "length (polyt1_pack a) = 320" "length (polyt1_unpack b) = 256"
  by (simp_all add: polyt1_pack_def polyt1_unpack_def t1_codec.length_pack t1_codec.length_unpack)

lemma length_polyt0 [simp]: "length (polyt0_pack a) = 416" "length (polyt0_unpack b) = 256"
  by (simp_all add: polyt0_pack_def polyt0_unpack_def t0_codec.length_pack t0_codec.length_unpack)

lemma polyt1_unpack_pack: "t1_poly a \<Longrightarrow> polyt1_unpack (polyt1_pack a @ rest) = a"
  using t1_codec.unpack_pack [of a rest] by (auto simp: polyt1_pack_def polyt1_unpack_def dsa_poly_defs)

lemma polyt1_pack_unpack: "length b = 320 \<Longrightarrow> polyt1_pack (polyt1_unpack b) = b"
  using t1_codec.pack_unpack [of b] by (simp add: polyt1_pack_def polyt1_unpack_def)

lemma polyt1_unpack_valid: "t1_poly (polyt1_unpack b)"
  using t1_codec.valid_unpack [of _ b] t1_codec.length_unpack by (auto simp: polyt1_unpack_def dsa_poly_defs)

lemma polyt0_unpack_pack: "t0_poly a \<Longrightarrow> polyt0_unpack (polyt0_pack a @ rest) = a"
  using t0_codec.unpack_pack [of a rest] by (force simp: polyt0_pack_def polyt0_unpack_def dsa_poly_defs)

lemma polyt0_pack_unpack: "length b = 416 \<Longrightarrow> polyt0_pack (polyt0_unpack b) = b"
  using t0_codec.pack_unpack [of b] by (simp add: polyt0_pack_def polyt0_unpack_def)

lemma polyt0_unpack_valid: "t0_poly (polyt0_unpack b)"
  using t0_codec.valid_unpack [of _ b] t0_codec.length_unpack by (force simp: polyt0_unpack_def dsa_poly_defs)

lemma length_polyz_pack: "mldsa_param_ok par \<Longrightarrow> length (polyz_pack par a) = dsa_pzp_sz par"
  by (erule mldsa_gamma1_cases) (simp_all add: polyz_pack_def z17_codec.length_pack z19_codec.length_pack)

lemma polyz_unpack_pack:
  assumes "mldsa_param_ok par" "z_poly par a"
  shows "polyz_unpack par (polyz_pack par a @ rest) = a"
  using assms(1)
proof (cases rule: mldsa_gamma1_cases)
  case g17
  then show ?thesis using assms(2) z17_codec.unpack_pack [of a rest]
    by (force simp: polyz_pack_def polyz_unpack_def dsa_poly_defs)
next
  case g19
  then show ?thesis using assms(2) z19_codec.unpack_pack [of a rest]
    by (force simp: polyz_pack_def polyz_unpack_def dsa_poly_defs)
qed

lemma polyz_pack_unpack:
  assumes "mldsa_param_ok par" "length b = dsa_pzp_sz par"
  shows "polyz_pack par (polyz_unpack par b) = b"
  using assms(1)
  by (cases rule: mldsa_gamma1_cases)
    (use assms(2) in \<open>simp_all add: polyz_pack_def polyz_unpack_def z17_codec.pack_unpack z19_codec.pack_unpack\<close>)

lemma polyz_unpack_valid:
  assumes "mldsa_param_ok par"
  shows "z_poly par (polyz_unpack par b)"
  using assms
proof (cases rule: mldsa_gamma1_cases)
  case g17
  then show ?thesis using z17_codec.valid_unpack [of _ b] z17_codec.length_unpack [of b]
    by (force simp: polyz_unpack_def dsa_poly_defs)
next
  case g19
  then show ?thesis using z19_codec.valid_unpack [of _ b] z19_codec.length_unpack [of b]
    by (force simp: polyz_unpack_def dsa_poly_defs)
qed


section \<open>Vectors laid out one polynomial after the other\<close>

lemma drop_concat_chunks:
  assumes "\<And>i. i < n \<Longrightarrow> length (f i) = w" "i < n"
  shows "drop (i * w) (concat (map f [0..<n]) @ rest) = f i @ concat (map f [Suc i..<n]) @ rest"
proof -
  have "[0..<n] = [0..<i] @ i # [Suc i..<n]"
    using assms(2) upt_add_eq_append [of 0 i "n - i"] by (simp add: upt_conv_Cons)
  then have "concat (map f [0..<n]) = concat (map f [0..<i]) @ f i @ concat (map f [Suc i..<n])" by simp
  moreover have "length (concat (map f [0..<i])) = i * w"
    using assms by (intro length_concat_chunks) simp
  ultimately show ?thesis by simp
qed

text \<open>A vector codec from a polynomial codec, in both directions.\<close>

lemma unpack_concat:
  assumes "length xs = n" "\<And>x. x \<in> set xs \<Longrightarrow> length (pk x) = w" "\<And>x rest. x \<in> set xs \<Longrightarrow> up (pk x @ rest) = x"
  shows "map (\<lambda>i. up (drop (i * w) (concat (map (\<lambda>i. pk (xs ! i)) [0..<n]) @ rest))) [0..<n] = xs"
proof (rule nth_equalityI)
  fix i
  assume "i < length (map (\<lambda>i. up (drop (i * w) (concat (map (\<lambda>i. pk (xs ! i)) [0..<n]) @ rest))) [0..<n])"
  then have i: "i < n" by simp
  then show "map (\<lambda>i. up (drop (i * w) (concat (map (\<lambda>i. pk (xs ! i)) [0..<n]) @ rest))) [0..<n] ! i = xs ! i"
    using assms drop_concat_chunks [where f = "\<lambda>i. pk (xs ! i)" and w = w and n = n and i = i and rest = rest]
    by (simp del: drop_append)
qed (use assms in simp)

lemma concat_pack_unpack:
  assumes "n * w \<le> length bs" "\<And>b. length b = w \<Longrightarrow> pk (up b) = b" "\<And>b rest. length b = w \<Longrightarrow> up (b @ rest) = up b"
  shows "concat (map (\<lambda>i. pk (map (\<lambda>i. up (drop (i * w) bs)) [0..<n] ! i)) [0..<n]) = take (n * w) bs"
  using assms(1)
proof (induction n)
  case (Suc n)
  have b: "length (take w (drop (n * w) bs)) = w" using Suc.prems by simp
  have "pk (up (drop (n * w) bs)) = take w (drop (n * w) bs)"
    using assms(2) [OF b] assms(3) [OF b, of "drop w (drop (n * w) bs)"] by (simp only: append_take_drop_id)
  moreover have "concat (map (\<lambda>i. pk (map (\<lambda>i. up (drop (i * w) bs)) [0..<Suc n] ! i)) [0..<n]) =
      concat (map (\<lambda>i. pk (map (\<lambda>i. up (drop (i * w) bs)) [0..<n] ! i)) [0..<n])"
    by (intro arg_cong [where f = concat] map_cong) (auto simp: nth_append)
  moreover have "take (Suc n * w) bs = take (n * w) bs @ take w (drop (n * w) bs)"
    using take_add [of "n * w" w bs] by (simp add: add.commute)
  ultimately show ?case using Suc by (simp add: nth_append)
qed simp

text \<open>Decoding reads no further than its field string.\<close>

lemma map_chunks_prefix:
  assumes "length b = n * w"
  shows "map_chunks w n f (b @ rest) = map_chunks w n f b"
proof -
  have "chunk w i (b @ rest) = chunk w i b" if "i < n" for i
  proof (rule nth_equalityI)
    fix j
    assume "j < length (chunk w i (b @ rest))"
    then have j: "j < w" by simp
    have "w * i + j < w * Suc i" using j by simp
    also have "\<dots> \<le> w * n" using that by (intro mult_left_mono) auto
    finally show "chunk w i (b @ rest) ! j = chunk w i b ! j"
      using j assms by (simp add: nth_append mult.commute)
  qed simp
  then show ?thesis unfolding map_chunks_def by (intro arg_cong [where f = concat] map_cong refl) simp
qed

lemma poly_unpack_prefix:
  "length b = 320 \<Longrightarrow> polyt1_unpack (b @ rest) = polyt1_unpack b"
  "length b = 416 \<Longrightarrow> polyt0_unpack (b @ rest) = polyt0_unpack b"
  "mldsa_param_ok par \<Longrightarrow> length b = dsa_eta_sz par \<Longrightarrow> polyeta_unpack par (b @ rest) = polyeta_unpack par b"
  "mldsa_param_ok par \<Longrightarrow> length b = dsa_pzp_sz par \<Longrightarrow> polyz_unpack par (b @ rest) = polyz_unpack par b"
proof -
  assume p: "mldsa_param_ok par"
  show "polyeta_unpack par (b @ rest) = polyeta_unpack par b" if "length b = dsa_eta_sz par"
    using p that by (cases rule: mldsa_param_cases) (simp_all add: polyeta_unpack_def map_chunks_prefix)
  show "polyz_unpack par (b @ rest) = polyz_unpack par b" if "length b = dsa_pzp_sz par"
    using p that by (cases rule: mldsa_gamma1_cases) (simp_all add: polyz_unpack_def map_chunks_prefix)
qed (simp_all add: polyt1_unpack_def polyt0_unpack_def map_chunks_prefix)

section \<open>Keys\<close>

lemma length_pack_pk: "length rho = 32 \<Longrightarrow> length (pack_pk par rho t1) = 32 + dsa_k par * 320"
  by (simp add: pack_pk_def length_concat_chunks [where w = 320])

lemma unpack_pack_pk:
  assumes "length rho = 32" "length t1 = dsa_k par" "\<And>a. a \<in> set t1 \<Longrightarrow> t1_poly a"
  shows "unpack_pk par (pack_pk par rho t1) = (rho, t1)"
  using assms unpack_concat [of t1 "dsa_k par" polyt1_pack 320 polyt1_unpack "[]"]
  by (simp add: unpack_pk_def pack_pk_def polyt1_unpack_pack)

lemma pack_unpack_pk:
  assumes "length pk = 32 + dsa_k par * 320"
  shows "(case unpack_pk par pk of (rho, t1) \<Rightarrow> pack_pk par rho t1) = pk"
  using assms concat_pack_unpack [of "dsa_k par" 320 "drop 32 pk" polyt1_pack polyt1_unpack]
  by (simp add: unpack_pk_def pack_pk_def polyt1_pack_unpack poly_unpack_prefix)

definition sk_sz :: "mldsa_param \<Rightarrow> nat" where
  "sk_sz par = 2 * MLDSA_SEED_SZ + MLDSA_TR_SZ + (dsa_ell par + dsa_k par) * dsa_eta_sz par
     + dsa_k par * MLDSA_POLY_T0_SZ"

lemma dsa_sizes:
  assumes "mldsa_param_ok par"
  shows "dsa_pk_sz par = 32 + dsa_k par * 320" "dsa_sk_sz par = sk_sz par"
    "dsa_sig_sz par = dsa_cp_sz par + dsa_ell par * dsa_pzp_sz par + dsa_omega par + dsa_k par"
  using assms by (auto simp: mldsa_param_ok_def sk_sz_def)

lemma unpack_pack_sk:
  assumes "mldsa_param_ok par" "length rho = 32" "length key = 32" "length tr = 64"
    and "length s1 = dsa_ell par" "\<And>a. a \<in> set s1 \<Longrightarrow> dpoly_bounded (int (dsa_eta par)) a"
    and "length s2 = dsa_k par" "\<And>a. a \<in> set s2 \<Longrightarrow> dpoly_bounded (int (dsa_eta par)) a"
    and "length t0 = dsa_k par" "\<And>a. a \<in> set t0 \<Longrightarrow> t0_poly a"
  shows "unpack_sk par (pack_sk par rho tr key t0 s1 s2) = (rho, tr, key, t0, s1, s2)"
    and "length (pack_sk par rho tr key t0 s1 s2) = sk_sz par"
proof -
  let ?e = "\<lambda>s n. concat (map (\<lambda>i. polyeta_pack par (s ! i)) [0..<n])"
  let ?t = "concat (map (\<lambda>i. polyt0_pack (t0 ! i)) [0..<dsa_k par])"
  have l: "length (?e s n) = n * dsa_eta_sz par" for s n
    using assms(1) by (intro length_concat_chunks) (simp add: length_polyeta_pack)
  have lt: "length ?t = dsa_k par * 416" by (intro length_concat_chunks) simp
  show "length (pack_sk par rho tr key t0 s1 s2) = sk_sz par"
    using assms by (simp add: pack_sk_def sk_sz_def l lt algebra_simps)
  have "map (\<lambda>i. polyeta_unpack par (drop (i * dsa_eta_sz par) (?e s1 (dsa_ell par) @ ?e s2 (dsa_k par) @ ?t)))
      [0..<dsa_ell par] = s1"
    using assms by (intro unpack_concat) (simp_all add: length_polyeta_pack polyeta_unpack_pack)
  moreover have "map (\<lambda>i. polyeta_unpack par (drop (i * dsa_eta_sz par) (?e s2 (dsa_k par) @ ?t)))
      [0..<dsa_k par] = s2"
    using assms by (intro unpack_concat) (simp_all add: length_polyeta_pack polyeta_unpack_pack)
  moreover have "map (\<lambda>i. polyt0_unpack (drop (i * 416) (?t @ []))) [0..<dsa_k par] = t0"
    using assms by (intro unpack_concat) (simp_all add: polyt0_unpack_pack)
  ultimately show "unpack_sk par (pack_sk par rho tr key t0 s1 s2) = (rho, tr, key, t0, s1, s2)"
    using assms by (simp add: unpack_sk_def pack_sk_def Let_def l)
qed

lemma pack_unpack_sk:
  assumes "mldsa_param_ok par" "length sk = sk_sz par"
  shows "(case unpack_sk par sk of (rho, tr, key, t0, s1, s2) \<Rightarrow> pack_sk par rho tr key t0 s1 s2) = sk"
proof -
  define e k l where "e = dsa_eta_sz par" and "k = dsa_k par" and "l = dsa_ell par"
  define b where "b = drop 128 sk"
  have lb: "length b = l * e + k * e + k * 416"
    using assms(2) by (simp add: b_def sk_sz_def e_def k_def l_def algebra_simps)
  have s1: "concat (map (\<lambda>i. polyeta_pack par (map (\<lambda>i. polyeta_unpack par (drop (i * e) b)) [0..<l] ! i)) [0..<l]) = take (l * e) b"
    using assms(1) lb by (intro concat_pack_unpack) (simp_all add: polyeta_pack_unpack poly_unpack_prefix e_def)
  have s2: "concat (map (\<lambda>i. polyeta_pack par (map (\<lambda>i. polyeta_unpack par (drop (i * e) (drop (l * e) b))) [0..<k] ! i)) [0..<k])
      = take (k * e) (drop (l * e) b)"
    using assms(1) lb by (intro concat_pack_unpack) (simp_all add: polyeta_pack_unpack poly_unpack_prefix e_def)
  have t0: "concat (map (\<lambda>i. polyt0_pack (map (\<lambda>i. polyt0_unpack (drop (i * 416) (drop (k * e) (drop (l * e) b)))) [0..<k] ! i)) [0..<k])
      = take (k * 416) (drop (k * e) (drop (l * e) b))"
    using lb by (intro concat_pack_unpack) (simp_all add: polyt0_pack_unpack poly_unpack_prefix)
  have d: "drop 64 (drop 32 (drop 32 sk)) = b" by (simp add: b_def)
  have all: "take (k * 416) (drop (k * e) (drop (l * e) b)) = drop (k * e) (drop (l * e) b)" using lb by simp
  have "(case unpack_sk par sk of (rho, tr, key, t0, s1, s2) \<Rightarrow> pack_sk par rho tr key t0 s1 s2) =
      take 32 sk @ take 32 (drop 32 sk) @ take 64 (drop 32 (drop 32 sk)) @
      take (l * e) b @ take (k * e) (drop (l * e) b) @ drop (k * e) (drop (l * e) b)"
    unfolding unpack_sk_def pack_sk_def Let_def prod.case e_def [symmetric] k_def [symmetric] l_def [symmetric] d s1 s2 t0 all
    by simp
  also have "\<dots> = take 32 sk @ take 32 (drop 32 sk) @ take 64 (drop 32 (drop 32 sk)) @ drop 64 (drop 32 (drop 32 sk))"
    by (simp only: append_take_drop_id d)
  also have "\<dots> = sk" by (simp only: append_take_drop_id)
  finally show ?thesis .
qed

section \<open>Properties\<close>

text \<open>C28: the encodings of keys: every byte string of the size of a public or secret key is the encoding of what it
  is decoded to, and decoding inverts encoding on the values key generation produces.\<close>

theorem mldsa_key_roundtrip:
  assumes "par \<in> set mldsa_par" "length pk = dsa_pk_sz par" "length sk = dsa_sk_sz par"
  shows "(case unpack_pk par pk of (rho, t1) \<Rightarrow> pack_pk par rho t1) = pk \<and>
    (case unpack_sk par sk of (rho, tr, key, t0, s1, s2) \<Rightarrow> pack_sk par rho tr key t0 s1 s2) = sk \<and>
    (length rho = 32 \<longrightarrow> length t1 = dsa_k par \<longrightarrow> (\<forall>a \<in> set t1. t1_poly a) \<longrightarrow>
      unpack_pk par (pack_pk par rho t1) = (rho, t1)) \<and>
    (length rho = 32 \<longrightarrow> length key = 32 \<longrightarrow> length tr = 64 \<longrightarrow> length t0 = dsa_k par \<longrightarrow> (\<forall>a \<in> set t0. t0_poly a) \<longrightarrow>
      length s1 = dsa_ell par \<longrightarrow> length s2 = dsa_k par \<longrightarrow>
      (\<forall>a \<in> set s1 \<union> set s2. dpoly_bounded (int (dsa_eta par)) a) \<longrightarrow>
      unpack_sk par (pack_sk par rho tr key t0 s1 s2) = (rho, tr, key, t0, s1, s2))"
proof -
  note ok = mldsa_par_ok [OF assms(1)]
  show ?thesis
    using pack_unpack_pk [of pk par] pack_unpack_sk [OF ok, of sk] unpack_pack_pk [of rho t1 par]
      unpack_pack_sk(1) [OF ok, of rho key tr s1 s2 t0] assms(2,3) dsa_sizes [OF ok] by simp
qed

theorem mldsa_key_roundtrip_witness:
  "(case unpack_pk mldsa_65 (replicate 1952 0xA5) of (rho, t1) \<Rightarrow> pack_pk mldsa_65 rho t1) = replicate 1952 0xA5 \<and>
   (case unpack_sk mldsa_65 (replicate 4032 0x3C) of (rho, tr, key, t0, s1, s2) \<Rightarrow>
      pack_sk mldsa_65 rho tr key t0 s1 s2) = replicate 4032 0x3C \<and>
   unpack_pk mldsa_65 (pack_pk mldsa_65 (replicate 32 1) (replicate 6 (replicate 256 1023))) =
     (replicate 32 1, replicate 6 (replicate 256 1023))"
  using mldsa_key_roundtrip [of mldsa_65 "replicate 1952 0xA5" "replicate 4032 0x3C" "replicate 32 1"
      "replicate 6 (replicate 256 1023)"]
  by (simp add: mldsa_par_def mldsa_65_def t1_poly_def dcoeff_def)

end
