(* ===== verification/Dsa_Sig_Correct.thy ===== *)
theory Dsa_Sig_Correct
  imports Dsa_Keys_Correct Rej_Sampling
begin

text \<open>
  The encoding of signatures in \<open>mldsa.c\<close>: the hint area, whose decoder has to reject every malformed
  input, and the signature as a whole.
\<close>

section \<open>Hints\<close>

text \<open>
  A hint polynomial has coefficients 0 and 1; it is encoded as the increasing list of the positions of
  its ones.  A vector is encoded as the lists of its rows one after the other, padded with zeroes to \<open>omega\<close>
  bytes, and the running totals.
\<close>

definition positions :: "dpoly \<Rightarrow> nat list" where
  "positions p = filter (\<lambda>j. p ! j \<noteq> 0) [0..<256]"

definition hint_poly :: "dpoly \<Rightarrow> bool" where
  "hint_poly p \<longleftrightarrow> length p = 256 \<and> (\<forall>i<256. p ! i = 0 \<or> p ! i = 1)"

fun running :: "nat \<Rightarrow> dvec \<Rightarrow> nat list" where
  "running k [] = []"
| "running k (p # ps) = (k + length (positions p)) # running (k + length (positions p)) ps"

definition weight :: "dvec \<Rightarrow> nat" where
  "weight h = length (concat (map positions h))"

definition hint_ok :: "mldsa_param \<Rightarrow> dvec \<Rightarrow> bool" where
  "hint_ok par h \<longleftrightarrow> length h = dsa_k par \<and> (\<forall>p \<in> set h. hint_poly p) \<and> weight h \<le> dsa_omega par"

lemma positions_less: "x \<in> set (positions p) \<Longrightarrow> x < 256"
  by (simp add: positions_def)

lemma sorted_positions: "sorted_wrt (<) (positions p)"
  by (simp add: positions_def sorted_wrt_filter)

lemma length_running [simp]: "length (running k ps) = length ps"
  by (induction ps arbitrary: k) simp_all

lemma weight_Cons [simp]: "weight (p # ps) = length (positions p) + weight ps"
  and weight_Nil [simp]: "weight [] = 0"
  by (simp_all add: weight_def)

text \<open>A hint polynomial and its positions determine each other.\<close>

definition indicator :: "nat list \<Rightarrow> dpoly" where
  "indicator xs = map (\<lambda>i. if i \<in> set xs then 1 else 0) [0..<256]"

lemma indicator_positions: "hint_poly p \<Longrightarrow> indicator (positions p) = p"
  by (rule nth_equalityI) (auto simp: indicator_def hint_poly_def positions_def)

lemma hint_poly_indicator: "hint_poly (indicator xs)"
  by (simp add: hint_poly_def indicator_def)

lemma positions_indicator:
  assumes "sorted_wrt (<) xs" "\<And>x. x \<in> set xs \<Longrightarrow> x < 256"
  shows "positions (indicator xs) = xs"
proof (rule strict_sorted_equal)
  show "sorted_wrt (<) (positions (indicator xs))" by (rule sorted_positions)
  show "set (positions (indicator xs)) = set xs"
    using assms(2) by (auto simp: positions_def indicator_def split: if_splits)
qed (rule assms)

subsection \<open>Encoding\<close>

lemma fold_positions:
  assumes "k + length (filter P js) \<le> length s"
  shows "fold (\<lambda>j (s, k). if P j then (s[k := f j], k + 1) else (s, k)) js (s, k) =
    (overwrite k (map f (filter P js)) s, k + length (filter P js))"
  using assms
proof (induction js arbitrary: s k)
  case (Cons j js)
  then show ?case using Cons.IH [of "Suc k" "s[k := f j]"] Cons.IH [of k s]
    by (auto simp: overwrite_Cons)
qed simp

lemma pack_hint_row_eq:
  assumes "k + length (positions (h ! i)) \<le> length s"
  shows "pack_hint_row omega h i (s, k) =
    ((overwrite k (map of_nat (positions (h ! i))) s)[omega + i := of_nat (k + length (positions (h ! i)))],
     k + length (positions (h ! i)))"
  using fold_positions [of k "\<lambda>j. h ! i ! j \<noteq> 0" "[0..<256]" s of_nat] assms
  by (simp add: pack_hint_row_def positions_def)

lemma overwrite_append1:
  "k + length xs \<le> length a \<Longrightarrow> overwrite k xs (a @ b) = overwrite k xs a @ b"
  by (simp add: overwrite_def)

lemma fold_pack_hint_row:
  assumes "length a = omega" "length c = n" "k + weight (drop i h) \<le> omega" "length h = n" "i \<le> n"
  shows "fold (pack_hint_row omega h) [i..<n] (a @ c, k) =
    (overwrite k (map of_nat (concat (map positions (drop i h)))) a @
      overwrite i (map of_nat (running k (drop i h))) c, k + weight (drop i h))"
  using assms
proof (induction "n - i" arbitrary: i a c k)
  case 0
  then show ?case by simp
next
  case (Suc m)
  then have i: "i < n" "m = n - Suc i" by auto
  define p where "p = h ! i"
  have d: "drop i h = p # drop (Suc i) h" using i Suc.prems by (simp add: p_def Cons_nth_drop_Suc)
  let ?a = "overwrite k (map of_nat (positions p)) a"
  let ?c = "c[i := of_nat (k + length (positions p)) :: u8]"
  have fit: "k + length (positions p) + weight (drop (Suc i) h) \<le> omega" using Suc.prems(3) by (simp add: d)
  have "fold (pack_hint_row omega h) [i..<n] (a @ c, k) =
      fold (pack_hint_row omega h) [Suc i..<n] (?a @ ?c, k + length (positions p))"
    using i Suc.prems fit
    by (simp add: upt_conv_Cons pack_hint_row_eq overwrite_append1 list_update_append flip: p_def)
  also have "\<dots> = (overwrite (k + length (positions p)) (map of_nat (concat (map positions (drop (Suc i) h)))) ?a @
      overwrite (Suc i) (map of_nat (running (k + length (positions p)) (drop (Suc i) h))) ?c,
      k + length (positions p) + weight (drop (Suc i) h))"
    using Suc.prems i fit by (intro Suc.hyps(1)) simp_all
  also have "overwrite (k + length (positions p)) (map of_nat (concat (map positions (drop (Suc i) h)))) ?a =
      overwrite k (map of_nat (concat (map positions (drop i h)))) a"
    using Suc.prems(1) fit overwrite_append [of k "map of_nat (positions p)" "map of_nat (concat (map positions (drop (Suc i) h)))" a]
    by (simp add: d weight_def)
  also have "overwrite (Suc i) (map of_nat (running (k + length (positions p)) (drop (Suc i) h))) ?c =
      overwrite i (map of_nat (running k (drop i h))) c"
    using Suc.prems(2) i by (simp add: d overwrite_Cons)
  finally show ?case by (simp add: d add.assoc)
qed

lemma pack_hint_eq:
  assumes "hint_ok par h"
  shows "pack_hint par h = map of_nat (concat (map positions h)) @ replicate (dsa_omega par - weight h) 0 @
    map of_nat (running 0 h)"
proof -
  have h: "length h = dsa_k par" "weight h \<le> dsa_omega par" using assms by (auto simp: hint_ok_def)
  have "replicate (dsa_omega par + dsa_k par) (0 :: u8) = replicate (dsa_omega par) 0 @ replicate (dsa_k par) 0"
    by (rule replicate_add)
  then show ?thesis
    using h fold_pack_hint_row [of "replicate (dsa_omega par) 0" "dsa_omega par" "replicate (dsa_k par) 0" "dsa_k par" 0 0 h]
    by (simp add: pack_hint_def overwrite_def weight_def)
qed

lemma length_pack_hint: "hint_ok par h \<Longrightarrow> length (pack_hint par h) = dsa_omega par + dsa_k par"
  by (simp add: pack_hint_eq) (simp add: hint_ok_def weight_def)

subsection \<open>Decoding\<close>

definition hint_slice :: "u8 list \<Rightarrow> nat \<Rightarrow> nat \<Rightarrow> nat list" where
  "hint_slice sig k n = map (\<lambda>j. unat (sig ! j)) [k..<n]"

lemma unpack_hint_row_some:
  assumes "k \<le> j"
  shows "unpack_hint_row sig k n j h =
    (if \<forall>m. j \<le> m \<and> m < n \<and> k < m \<longrightarrow> sig ! (m - 1) < sig ! m
     then Some (fold (\<lambda>x h. h[x := 1]) (hint_slice sig j n) h) else None)"
  using assms
proof (induction "n - j" arbitrary: j h)
  case 0
  then show ?case by (subst unpack_hint_row.simps) (simp add: hint_slice_def)
next
  case (Suc d)
  then have j: "j < n" by auto
  have s: "hint_slice sig j n = unat (sig ! j) # hint_slice sig (Suc j) n" using j by (simp add: hint_slice_def upt_conv_Cons)
  have q: "(\<forall>m. j \<le> m \<and> m < n \<and> k < m \<longrightarrow> sig ! (m - 1) < sig ! m) \<longleftrightarrow>
      \<not> (k < j \<and> sig ! j \<le> sig ! (j - 1)) \<and> (\<forall>m. Suc j \<le> m \<and> m < n \<and> k < m \<longrightarrow> sig ! (m - 1) < sig ! m)"
  proof -
    have e: "j \<le> m \<longleftrightarrow> m = j \<or> Suc j \<le> m" for m by auto
    show ?thesis unfolding e using j by (auto simp: not_le)
  qed
  show ?case
  proof (cases "k < j \<and> sig ! j \<le> sig ! (j - 1)")
    case True
    then show ?thesis unfolding q using j by (subst unpack_hint_row.simps) simp
  next
    case False
    then have "unpack_hint_row sig k n j h = unpack_hint_row sig k n (Suc j) (h[unat (sig ! j) := 1])"
      using j by (subst unpack_hint_row.simps) auto
    then show ?thesis unfolding q s using False Suc.hyps(1) [of "Suc j"] Suc.hyps(2) Suc.prems by auto
  qed
qed

lemma fold_set_indicator: "fold (\<lambda>x h. h[x := 1]) xs (replicate 256 0) = indicator xs"
proof -
  have "fold (\<lambda>x h. h[x := 1]) xs h = map (\<lambda>i. if i \<in> set xs then 1 else h ! i) [0..<length h]" for h :: dpoly
  proof (induction xs arbitrary: h)
    case (Cons x xs)
    then show ?case by (auto simp: nth_list_update)
  qed (simp add: map_nth)
  then show ?thesis by (simp add: indicator_def)
qed

lemma sorted_slice:
  "(\<forall>m. k \<le> m \<and> m < n \<and> k < m \<longrightarrow> sig ! (m - 1) < sig ! m) \<longleftrightarrow> sorted_wrt (<) (hint_slice sig k n)"
proof -
  have "sorted_wrt (<) (hint_slice sig k n) \<longleftrightarrow> (\<forall>i. Suc i < n - k \<longrightarrow> sig ! (k + i) < sig ! (k + Suc i))"
    by (subst sorted_wrt_iff_nth_Suc_transp) (auto simp: hint_slice_def word_less_nat_alt)
  also have "\<dots> \<longleftrightarrow> (\<forall>m. k \<le> m \<and> m < n \<and> k < m \<longrightarrow> sig ! (m - 1) < sig ! m)"
  proof
    assume L: "\<forall>i. Suc i < n - k \<longrightarrow> sig ! (k + i) < sig ! (k + Suc i)"
    show "\<forall>m. k \<le> m \<and> m < n \<and> k < m \<longrightarrow> sig ! (m - 1) < sig ! m"
    proof (intro allI impI)
      fix m
      assume "k \<le> m \<and> m < n \<and> k < m"
      then show "sig ! (m - 1) < sig ! m" using L [rule_format, of "m - Suc k"] by (simp add: less_diff_conv)
    qed
  next
    assume R: "\<forall>m. k \<le> m \<and> m < n \<and> k < m \<longrightarrow> sig ! (m - 1) < sig ! m"
    show "\<forall>i. Suc i < n - k \<longrightarrow> sig ! (k + i) < sig ! (k + Suc i)"
    proof (intro allI impI)
      fix i
      assume "Suc i < n - k"
      then show "sig ! (k + i) < sig ! (k + Suc i)" using R [rule_format, of "k + Suc i"] by simp
    qed
  qed
  finally show ?thesis by simp
qed

text \<open>A row is accepted exactly when its positions increase strictly, and is then the polynomial they encode.\<close>

lemma unpack_hint_row_iff:
  "unpack_hint_row sig k n k (replicate 256 0) = Some p \<longleftrightarrow> hint_poly p \<and> hint_slice sig k n = positions p"
proof -
  have u: "unat y < 256" for y :: u8 using unsigned_less [of y] by simp
  have b: "x < 256" if "x \<in> set (hint_slice sig k n)" for x using that u by (auto simp: hint_slice_def)
  have "unpack_hint_row sig k n k (replicate 256 0) = Some p \<longleftrightarrow>
      sorted_wrt (<) (hint_slice sig k n) \<and> p = indicator (hint_slice sig k n)"
    unfolding unpack_hint_row_some [OF order_refl] sorted_slice fold_set_indicator by auto
  also have "\<dots> \<longleftrightarrow> hint_poly p \<and> hint_slice sig k n = positions p"
    using b positions_indicator hint_poly_indicator indicator_positions sorted_positions by metis
  finally show ?thesis .
qed


fun hint_rows :: "nat \<Rightarrow> u8 list \<Rightarrow> nat list \<Rightarrow> nat \<Rightarrow> dvec \<Rightarrow> nat \<Rightarrow> bool" where
  "hint_rows omega sig [] k rows k' \<longleftrightarrow> rows = [] \<and> k' = k"
| "hint_rows omega sig (i # is) k [] k' \<longleftrightarrow> False"
| "hint_rows omega sig (i # is) k (p # ps) k' \<longleftrightarrow>
     k \<le> unat (sig ! (omega + i)) \<and> unat (sig ! (omega + i)) \<le> omega \<and> hint_poly p \<and>
     hint_slice sig k (unat (sig ! (omega + i))) = positions p \<and> hint_rows omega sig is (unat (sig ! (omega + i))) ps k'"

lemma unpack_hint_rows_iff:
  "unpack_hint_rows omega sig is k h = Some (k', h') \<longleftrightarrow> (\<exists>rows. h' = h @ rows \<and> hint_rows omega sig is k rows k')"
proof (induction "is" arbitrary: k h)
  case (Cons i "is")
  define n where "n = unat (sig ! (omega + i))"
  have "unpack_hint_rows omega sig (i # is) k h = Some (k', h') \<longleftrightarrow>
      k \<le> n \<and> n \<le> omega \<and> (\<exists>p. (hint_poly p \<and> hint_slice sig k n = positions p) \<and>
        unpack_hint_rows omega sig is n (h @ [p]) = Some (k', h'))"
    by (auto simp: n_def Let_def bind_eq_Some_conv not_less unpack_hint_row_iff)
  also have "\<dots> \<longleftrightarrow> (\<exists>rows. h' = h @ rows \<and> hint_rows omega sig (i # is) k rows k')"
    unfolding Cons.IH
  proof (intro iffI)
    assume "\<exists>rows. h' = h @ rows \<and> hint_rows omega sig (i # is) k rows k'"
    then obtain rows where r: "h' = h @ rows" "hint_rows omega sig (i # is) k rows k'" by blast
    then show "k \<le> n \<and> n \<le> omega \<and> (\<exists>p. (hint_poly p \<and> hint_slice sig k n = positions p) \<and>
        (\<exists>rows. h' = (h @ [p]) @ rows \<and> hint_rows omega sig is n rows k'))"
      by (cases rows) (auto simp: n_def)
  next
    assume "k \<le> n \<and> n \<le> omega \<and> (\<exists>p. (hint_poly p \<and> hint_slice sig k n = positions p) \<and>
        (\<exists>rows. h' = (h @ [p]) @ rows \<and> hint_rows omega sig is n rows k'))"
    then obtain p rows where "k \<le> n" "n \<le> omega" "hint_poly p" "hint_slice sig k n = positions p"
      "h' = h @ p # rows" "hint_rows omega sig is n rows k'" by auto
    then show "\<exists>rows. h' = h @ rows \<and> hint_rows omega sig (i # is) k rows k'"
      by (intro exI [of _ "p # rows"]) (simp flip: n_def)
  qed
  finally show ?case .
qed auto

lemma length_slice [simp]: "length (hint_slice sig k n) = n - k"
  by (simp add: hint_slice_def)

lemma slice_split: "k \<le> n \<Longrightarrow> n \<le> m \<Longrightarrow> hint_slice sig k m = hint_slice sig k n @ hint_slice sig n m"
  using upt_add_eq_append [of k n "m - n"] by (simp add: hint_slice_def)

lemma hint_rows_upt:
  assumes "i \<le> N" "k \<le> omega"
  shows "hint_rows omega sig [i..<N] k rows k' \<longleftrightarrow>
    length rows = N - i \<and> (\<forall>p \<in> set rows. hint_poly p) \<and> k' = k + weight rows \<and> k' \<le> omega \<and>
    hint_slice sig k k' = concat (map positions rows) \<and> map (\<lambda>j. unat (sig ! (omega + j))) [i..<N] = running k rows"
  using assms
proof (induction "N - i" arbitrary: i k rows)
  case 0
  then show ?case by (auto simp: hint_slice_def)
next
  case (Suc m)
  then have i: "i < N" "m = N - Suc i" by auto
  then have u: "[i..<N] = i # [Suc i..<N]" by (simp add: upt_conv_Cons)
  define n where "n = unat (sig ! (omega + i))"
  show ?case
  proof (cases rows)
    case Nil
    then show ?thesis using i by (simp add: u)
  next
    case (Cons p ps)
    let ?R = "length ps = N - Suc i \<and> (\<forall>p \<in> set ps. hint_poly p) \<and> k' = n + weight ps \<and> k' \<le> omega \<and>
      hint_slice sig n k' = concat (map positions ps) \<and> map (\<lambda>j. unat (sig ! (omega + j))) [Suc i..<N] = running n ps"
    have "hint_rows omega sig [i..<N] k rows k' \<longleftrightarrow>
        k \<le> n \<and> n \<le> omega \<and> hint_poly p \<and> hint_slice sig k n = positions p \<and> ?R"
      using Suc.hyps(1) [of "Suc i" n ps] i by (auto simp: u Cons simp flip: n_def)
    also have "\<dots> \<longleftrightarrow> length rows = N - i \<and> (\<forall>p \<in> set rows. hint_poly p) \<and> k' = k + weight rows \<and> k' \<le> omega \<and>
        hint_slice sig k k' = concat (map positions rows) \<and> map (\<lambda>j. unat (sig ! (omega + j))) [i..<N] = running k rows"
    proof
      assume L: "k \<le> n \<and> n \<le> omega \<and> hint_poly p \<and> hint_slice sig k n = positions p \<and> ?R"
      then have "n = k + length (positions p)" using length_slice [of sig k n] by auto
      then show "length rows = N - i \<and> (\<forall>p \<in> set rows. hint_poly p) \<and> k' = k + weight rows \<and> k' \<le> omega \<and>
          hint_slice sig k k' = concat (map positions rows) \<and> map (\<lambda>j. unat (sig ! (omega + j))) [i..<N] = running k rows"
        using L i slice_split [of k n k' sig] by (auto simp: u Cons simp flip: n_def)
    next
      assume R: "length rows = N - i \<and> (\<forall>p \<in> set rows. hint_poly p) \<and> k' = k + weight rows \<and> k' \<le> omega \<and>
          hint_slice sig k k' = concat (map positions rows) \<and> map (\<lambda>j. unat (sig ! (omega + j))) [i..<N] = running k rows"
      then have n: "n = k + length (positions p)" by (simp add: u Cons n_def)
      have "hint_slice sig k k' = hint_slice sig k n @ hint_slice sig n k'"
        using R n by (intro slice_split) (simp_all add: Cons)
      moreover have "hint_slice sig k k' = positions p @ concat (map positions ps)" using R by (auto simp: Cons)
      ultimately have "hint_slice sig k n @ hint_slice sig n k' = positions p @ concat (map positions ps)"
        by (rule trans [OF sym])
      moreover have "length (hint_slice sig k n) = length (positions p)" by (simp add: n)
      ultimately have "hint_slice sig k n = positions p \<and> hint_slice sig n k' = concat (map positions ps)"
        using append_eq_append_conv [of "hint_slice sig k n" "positions p"] by blast
      then show "k \<le> n \<and> n \<le> omega \<and> hint_poly p \<and> hint_slice sig k n = positions p \<and> ?R"
        using R n i by (auto simp: u Cons)
    qed
    finally show ?thesis .
  qed
qed

lemma map_of_nat_unat: "map of_nat (map unat (bs :: u8 list)) = bs"
  by (simp add: comp_def)

lemma map_unat_of_nat: "\<forall>x \<in> set xs. x < 256 \<Longrightarrow> map unat (map of_nat xs :: u8 list) = xs"
  by (induction xs) (simp_all add: unat_of_nat)

lemma map_unat_eq_iff:
  assumes "\<forall>x \<in> set xs. x < 256"
  shows "map unat bs = xs \<longleftrightarrow> (bs :: u8 list) = map of_nat xs"
  using map_of_nat_unat [of bs] map_unat_of_nat [OF assms] by metis

lemma running_le: "x \<in> set (running k ps) \<Longrightarrow> x \<le> k + weight ps"
  by (induction ps arbitrary: k) (force simp: add.assoc)+

lemma if_None_Some: "(if c then None else Some x) = Some y \<longleftrightarrow> \<not> c \<and> x = y"
  by simp

text \<open>Decoding accepts exactly the encodings of hint vectors, each as the vector it encodes.\<close>

lemma unpack_hint_iff:
  assumes "length sig = dsa_omega par + dsa_k par" "dsa_omega par < 256"
  shows "unpack_hint par sig = Some h \<longleftrightarrow> hint_ok par h \<and> pack_hint par h = sig"
proof -
  define w K W where "w = dsa_omega par" and "K = dsa_k par" and "W = weight h"
  have l: "length sig = w + K" using assms(1) by (simp add: w_def K_def)
  have "unpack_hint par sig = Some h \<longleftrightarrow> (\<exists>k. hint_rows w sig [0..<K] 0 h k \<and> (\<forall>j. k \<le> j \<and> j < w \<longrightarrow> sig ! j = 0))"
    unfolding unpack_hint_def bind_eq_Some_conv w_def [symmetric] K_def [symmetric]
    by (simp add: unpack_hint_rows_iff list_ex_iff if_None_Some) auto
  also have "\<dots> \<longleftrightarrow> hint_ok par h \<and> hint_slice sig 0 W = concat (map positions h) \<and>
      map (\<lambda>j. unat (sig ! (w + j))) [0..<K] = running 0 h \<and> (\<forall>j. W \<le> j \<and> j < w \<longrightarrow> sig ! j = 0)"
    by (auto simp: hint_rows_upt hint_ok_def W_def w_def K_def)
  also have "\<dots> \<longleftrightarrow> hint_ok par h \<and> pack_hint par h = sig"
  proof (intro conj_cong refl)
    assume h: "hint_ok par h"
    then have W: "W \<le> w" by (simp add: hint_ok_def W_def w_def)
    have "hint_slice sig 0 W = map unat (take W sig)"
      using W l by (intro nth_equalityI) (simp_all add: hint_slice_def)
    then have A: "hint_slice sig 0 W = concat (map positions h) \<longleftrightarrow> take W sig = map of_nat (concat (map positions h))"
      using map_unat_eq_iff [of "concat (map positions h)" "take W sig"] by (auto simp: positions_less)
    have "map (\<lambda>j. unat (sig ! (w + j))) [0..<K] = map unat (drop w sig)"
      using l by (intro nth_equalityI) simp_all
    moreover have "\<forall>x \<in> set (running 0 h). x < 256"
      using running_le [of _ 0 h] W assms(2) by (fastforce simp: W_def w_def)
    ultimately have B: "map (\<lambda>j. unat (sig ! (w + j))) [0..<K] = running 0 h \<longleftrightarrow> drop w sig = map of_nat (running 0 h)"
      using map_unat_eq_iff by metis
    have C: "(\<forall>j. W \<le> j \<and> j < w \<longrightarrow> sig ! j = 0) \<longleftrightarrow> take (w - W) (drop W sig) = replicate (w - W) 0"
    proof
      assume "\<forall>j. W \<le> j \<and> j < w \<longrightarrow> sig ! j = 0"
      then show "take (w - W) (drop W sig) = replicate (w - W) 0" using l W by (intro nth_equalityI) simp_all
    next
      assume z: "take (w - W) (drop W sig) = replicate (w - W) 0"
      show "\<forall>j. W \<le> j \<and> j < w \<longrightarrow> sig ! j = 0"
      proof (intro allI impI)
        fix j
        assume j: "W \<le> j \<and> j < w"
        then have "j - W < w - W" "W + (j - W) = j" "W \<le> length sig" using l by auto
        then have "take (w - W) (drop W sig) ! (j - W) = sig ! j" by (simp only: nth_take nth_drop)
        moreover have "replicate (w - W) (0 :: u8) ! (j - W) = 0" using j by (intro nth_replicate) auto
        ultimately show "sig ! j = 0" by (simp only: z)
      qed
    qed
    have s: "sig = take W sig @ take (w - W) (drop W sig) @ drop w sig"
    proof -
      have "sig = take W sig @ take (w - W) (drop W sig) @ drop (w - W) (drop W sig)" by (simp only: append_take_drop_id)
      then show ?thesis using W by simp
    qed
    have "pack_hint par h = sig \<longleftrightarrow> map of_nat (concat (map positions h)) @ replicate (w - W) 0 @ map of_nat (running 0 h) =
        take W sig @ take (w - W) (drop W sig) @ drop w sig"
      unfolding pack_hint_eq [OF h] w_def [symmetric] W_def [symmetric] s [symmetric] ..
    also have "\<dots> \<longleftrightarrow> map of_nat (concat (map positions h)) = take W sig \<and>
        replicate (w - W) 0 = take (w - W) (drop W sig) \<and> map of_nat (running 0 h) = drop w sig"
      using W l by (subst append_eq_append_conv; (subst append_eq_append_conv)?) (auto simp: W_def weight_def)
    finally show "hint_slice sig 0 W = concat (map positions h) \<and>
        map (\<lambda>j. unat (sig ! (w + j))) [0..<K] = running 0 h \<and> (\<forall>j. W \<le> j \<and> j < w \<longrightarrow> sig ! j = 0) \<longleftrightarrow>
        pack_hint par h = sig"
      unfolding A B C by auto
  qed
  finally show ?thesis .
qed

section \<open>Signatures\<close>

lemma length_pack_sig:
  assumes "mldsa_param_ok par" "length c = dsa_cp_sz par" "hint_ok par h"
  shows "length (pack_sig par c z h) = dsa_sig_sz par"
proof -
  have "length (concat (map (\<lambda>i. polyz_pack par (z ! i)) [0..<dsa_ell par])) = dsa_ell par * dsa_pzp_sz par"
    by (intro length_concat_chunks length_polyz_pack assms(1))
  then show ?thesis using assms by (simp add: pack_sig_def dsa_sizes(3) length_pack_hint)
qed

lemma mldsa_omega_less: "mldsa_param_ok par \<Longrightarrow> dsa_omega par < 256"
  by (auto simp: mldsa_param_ok_def)

lemma unpack_sig_iff:
  assumes "mldsa_param_ok par" "length sig = dsa_sig_sz par"
  shows "unpack_sig par sig = Some (c, z, h) \<longleftrightarrow>
    length c = dsa_cp_sz par \<and> length z = dsa_ell par \<and> (\<forall>a \<in> set z. z_poly par a) \<and> hint_ok par h \<and>
    pack_sig par c z h = sig"
proof -
  define l w C where "l = dsa_ell par" and "w = dsa_pzp_sz par" and "C = dsa_cp_sz par"
  define b where "b = drop C sig"
  define z' where "z' = map (\<lambda>i. polyz_unpack par (drop (i * w) b)) [0..<l]"
  have len: "length sig = C + (l * w + (dsa_omega par + dsa_k par))"
    using assms by (simp add: dsa_sizes(3) l_def w_def C_def)
  then have lb: "length b = l * w + (dsa_omega par + dsa_k par)" "length (drop (l * w) b) = dsa_omega par + dsa_k par"
    by (simp_all add: b_def)
  have u: "unpack_sig par sig = Some (c, z, h) \<longleftrightarrow>
      c = take C sig \<and> z = z' \<and> hint_ok par h \<and> pack_hint par h = drop (l * w) b"
    unfolding unpack_sig_def Let_def bind_eq_Some_conv C_def [symmetric] b_def [symmetric] l_def [symmetric]
      w_def [symmetric] z'_def [symmetric] unpack_hint_iff [OF lb(2) mldsa_omega_less [OF assms(1)]] by auto
  have z': "length z' = l" "\<forall>a \<in> set z'. z_poly par a"
    using assms(1) by (auto simp: z'_def polyz_unpack_valid)
  have zp: "concat (map (\<lambda>i. polyz_pack par (z' ! i)) [0..<l]) = take (l * w) b"
    unfolding z'_def using assms(1) lb
    by (intro concat_pack_unpack) (simp_all add: polyz_pack_unpack poly_unpack_prefix w_def)
  show ?thesis unfolding u l_def [symmetric] C_def [symmetric]
  proof (intro iffI conjI)
    assume A: "c = take C sig \<and> z = z' \<and> hint_ok par h \<and> pack_hint par h = drop (l * w) b"
    show "length c = C" "length z = l" "\<forall>a \<in> set z. z_poly par a" "hint_ok par h"
      using A len z' by simp_all
    have "pack_sig par c z h = take C sig @ take (l * w) b @ drop (l * w) b"
      using A zp by (simp add: pack_sig_def C_def l_def)
    also have "\<dots> = sig" unfolding b_def by (simp only: append_take_drop_id)
    finally show "pack_sig par c z h = sig" .
  next
    assume B: "length c = C \<and> length z = l \<and> (\<forall>a \<in> set z. z_poly par a) \<and> hint_ok par h \<and> pack_sig par c z h = sig"
    let ?z = "concat (map (\<lambda>i. polyz_pack par (z ! i)) [0..<l])"
    have lz: "length ?z = l * w" unfolding w_def by (intro length_concat_chunks length_polyz_pack assms(1))
    have s: "sig = c @ ?z @ pack_hint par h" using B by (auto simp: pack_sig_def C_def l_def)
    then have bz: "b = ?z @ pack_hint par h" using B by (simp add: b_def)
    show "c = take C sig" "hint_ok par h" using B s by simp_all
    show "pack_hint par h = drop (l * w) b" using bz lz by simp
    have "z' = z" unfolding z'_def bz
      using B assms(1) by (intro unpack_concat) (simp_all add: length_polyz_pack polyz_unpack_pack w_def)
    then show "z = z'" ..
  qed
qed

section \<open>Properties\<close>

text \<open>C9: the encoding of signatures is a bijection between the valid triples and the byte strings \<open>unpack_sig\<close>
  accepts: a string of the length of a signature is accepted exactly when it is the encoding of a
  challenge, a response with coefficients in \<open>(- gamma1, gamma1]\<close> and a hint vector of at most \<open>omega\<close> ones,
  and is decoded to it.  So every signature has one encoding; padding, unordered or repeated positions
  and wrong totals are rejected.\<close>

theorem mldsa_sig_canonical:
  assumes "par \<in> set mldsa_par" "length sig = dsa_sig_sz par"
  shows "unpack_sig par sig = Some (c, z, h) \<longleftrightarrow>
    length c = dsa_cp_sz par \<and> length z = dsa_ell par \<and> (\<forall>a \<in> set z. z_poly par a) \<and> hint_ok par h \<and>
    pack_sig par c z h = sig"
  by (rule unpack_sig_iff [OF mldsa_par_ok [OF assms(1)] assms(2)])

text \<open>The signature of zeroes, and one whose running totals exceed \<open>omega\<close>.\<close>

lemma hint_ok_zero: "hint_ok mldsa_44 (replicate 4 (replicate 256 0))"
proof -
  have "positions (replicate 256 0) = []" by (simp add: positions_def filter_empty_conv)
  then show ?thesis by (simp add: hint_ok_def hint_poly_def weight_def map_replicate mldsa_44_def)
qed

theorem mldsa_sig_canonical_witness:
  "unpack_sig mldsa_44 (pack_sig mldsa_44 (replicate 32 7) (replicate 4 (replicate 256 131072)) (replicate 4 (replicate 256 0))) =
   Some (replicate 32 7, replicate 4 (replicate 256 131072), replicate 4 (replicate 256 0))"
proof -
  have ok: "mldsa_param_ok mldsa_44" by (rule mldsa_par_ok) (simp add: mldsa_par_def)
  let ?sig = "pack_sig mldsa_44 (replicate 32 7) (replicate 4 (replicate 256 131072)) (replicate 4 (replicate 256 0))"
  have l: "length ?sig = dsa_sig_sz mldsa_44"
    by (rule length_pack_sig [OF ok _ hint_ok_zero]) (simp add: mldsa_44_def)
  have "length (replicate 32 7 :: u8 list) = dsa_cp_sz mldsa_44" "length (replicate 4 (replicate 256 131072)) = dsa_ell mldsa_44"
    "z_poly mldsa_44 (replicate 256 131072)" "mldsa_44 \<in> set mldsa_par"
    by (simp_all add: mldsa_par_def mldsa_44_def z_poly_def dcoeff_def)
  then show ?thesis using hint_ok_zero l by (subst mldsa_sig_canonical) simp_all
qed

end
