(* ===== verification/Dsa_Polyvec_Correct.thy ===== *)
theory Dsa_Polyvec_Correct
  imports Dsa_Polyvec Dsa_Poly_Correct Dsa_Challenge Dsa_Sig_Correct
begin

text \<open>
  Correctness of the vector operations of \<open>polyvec.c\<close>: the product with the sampled matrix as products in
  \<open>Z_q[X]/(X^256 + 1)\<close>, rounding and hints coefficient by coefficient, and the norm checks.
\<close>

section \<open>Products with the matrix\<close>

text \<open>The matrix is sampled in the transformed domain; \<open>mat_rep\<close> names the polynomials it stands for.\<close>

definition mat_rep :: "mldsa_param \<Rightarrow> (nat \<Rightarrow> nat \<Rightarrow> nat \<Rightarrow> int) \<Rightarrow> dmat \<Rightarrow> bool" where
  "mat_rep par F mat \<longleftrightarrow> (\<forall>i<dsa_k par. \<forall>j<dsa_ell par. dsa_rep 8380416 1 (F i j) (mat ! i ! j))"

definition mat_vec :: "mldsa_param \<Rightarrow> (nat \<Rightarrow> nat \<Rightarrow> nat \<Rightarrow> int) \<Rightarrow> (nat \<Rightarrow> nat \<Rightarrow> int) \<Rightarrow> nat \<Rightarrow> nat \<Rightarrow> int" where
  "mat_vec par F g i n = (\<Sum>j<dsa_ell par. negacyclic 256 (F i j) (g j) n)"

lemma mat_rep_exists:
  assumes "\<And>i j. i < dsa_k par \<Longrightarrow> j < dsa_ell par \<Longrightarrow> dpoly_bounded 8380416 (mat ! i ! j)"
  shows "\<exists>F. mat_rep par F mat"
proof -
  have "\<forall>i j. \<exists>f. i < dsa_k par \<and> j < dsa_ell par \<longrightarrow> dsa_rep 8380416 1 f (mat ! i ! j)"
    using dsa_rep_exists assms by blast
  then show ?thesis unfolding mat_rep_def by metis
qed

lemma matrix_pointwise_rep:
  assumes ok: "mldsa_param_ok par" and F: "mat_rep par F mat" and i: "i < dsa_k par"
    and v: "\<And>j. j < dsa_ell par \<Longrightarrow> dsa_rep B 1 (g j) (v ! j)" and B: "B \<le> 2147483647"
  shows "dsa_rep 58662912 8265825 (mat_vec par F g i) (polyvec_matrix_pointwise_montgomery par mat v ! i)"
proof -
  let ?p = "\<lambda>j. poly_pointwise_montgomery (mat ! i ! j) (v ! j)"
  let ?s = "fold (\<lambda>j w. mldsa_poly_add w (?p j)) [1..<dsa_ell par] (?p 0)"
  have ell: "1 \<le> dsa_ell par" "dsa_ell par \<le> 7" using ok by (auto simp: mldsa_param_ok_def)
  have p: "dsa_rep 8380416 8265825 (negacyclic 256 (F i j) (g j)) (?p j)" if "j < dsa_ell par" for j
  proof (rule dsa_rep_pointwise)
    show "dsa_rep 8380416 1 (F i j) (mat ! i ! j)" using F i that by (simp add: mat_rep_def)
    show "dsa_rep 2147483647 1 (g j) (v ! j)" using v [OF that] B by (rule dsa_rep_mono)
  qed simp_all
  have "dsa_rep (int (dsa_ell par) * 8380416) 8265825 (\<lambda>n. \<Sum>j<dsa_ell par. negacyclic 256 (F i j) (g j) n) ?s"
  proof (rule fold_upt_inv [where P = "\<lambda>m s. m \<le> dsa_ell par \<and> dsa_rep (int m * 8380416) 8265825 (\<lambda>n. \<Sum>j<m. negacyclic 256 (F i j) (g j) n) s", THEN conjunct2])
    fix m s
    assume m: "1 \<le> m" "m < dsa_ell par"
      and I: "m \<le> dsa_ell par \<and> dsa_rep (int m * 8380416) 8265825 (\<lambda>n. \<Sum>j<m. negacyclic 256 (F i j) (g j) n) s"
    have "dsa_rep (int m * 8380416 + 8380416) 8265825
        (\<lambda>n. (\<Sum>j<m. negacyclic 256 (F i j) (g j) n) + negacyclic 256 (F i m) (g m) n) (mldsa_poly_add s (?p m))"
      using m ell by (intro dsa_rep_add conjunct2 [OF I] p) auto
    then show "Suc m \<le> dsa_ell par \<and> dsa_rep (int (Suc m) * 8380416) 8265825
        (\<lambda>n. \<Sum>j<Suc m. negacyclic 256 (F i j) (g j) n) (mldsa_poly_add s (?p m))"
      using m by (simp add: algebra_simps)
  qed (use ell p in auto)
  then have "dsa_rep 58662912 8265825 (\<lambda>n. \<Sum>j<dsa_ell par. negacyclic 256 (F i j) (g j) n) ?s"
    by (rule dsa_rep_mono) (use ell in auto)
  moreover have "polyvec_matrix_pointwise_montgomery par mat v ! i = ?s"
    using i by (simp add: polyvec_matrix_pointwise_montgomery_def polyvecl_pointwise_acc_montgomery_def Let_def)
  ultimately show ?thesis by (simp add: mat_vec_def [abs_def])
qed

lemma matrix_product:
  assumes "mldsa_param_ok par" "mat_rep par F mat" "i < dsa_k par"
    and "\<And>j. j < dsa_ell par \<Longrightarrow> dsa_rep B 1 (g j) (v ! j)" "B \<le> 2147483647"
  defines "w \<equiv> mldsa_poly_invntt_tomont (mldsa_poly_reduce (polyvec_matrix_pointwise_montgomery par mat v ! i))"
  shows "dpoly_bounded 4211197 w" and "n < 256 \<Longrightarrow> modeq 8380417 (dcoeff w n) (mat_vec par F g i n)"
proof -
  have r: "dsa_rep 6283009 8265825 (mat_vec par F g i) (mldsa_poly_reduce (polyvec_matrix_pointwise_montgomery par mat v ! i))"
    by (rule dsa_rep_reduce [OF matrix_pointwise_rep [OF assms(1-5)]]) simp_all
  show "dpoly_bounded 4211197 w" unfolding w_def by (rule dsa_rep_invntt(1) [OF r]) simp
  show "modeq 8380417 (dcoeff w n) (mat_vec par F g i n)" if "n < 256"
    unfolding w_def using that by (intro dsa_rep_invntt_mont [OF r]) simp_all
qed

text \<open>The product with a short polynomial, transformed back.\<close>

lemma scalar_product:
  assumes "dsa_rep A 1 c a" "dsa_rep B 1 g b" "0 \<le> A" "A \<le> 67043584" "B \<le> 134086656"
  defines "w \<equiv> mldsa_poly_invntt_tomont (poly_pointwise_montgomery a b)"
  shows "dpoly_bounded 4211197 w" and "n < 256 \<Longrightarrow> modeq 8380417 (dcoeff w n) (negacyclic 256 c g n)"
proof -
  have "dsa_rep 67043584 1 c a" "dsa_rep 134086656 1 g b" using assms dsa_rep_mono by blast+
  then have r: "dsa_rep 8380416 8265825 (negacyclic 256 c g) (poly_pointwise_montgomery a b)"
    by (rule dsa_rep_pointwise) simp_all
  show "dpoly_bounded 4211197 w" unfolding w_def by (rule dsa_rep_invntt(1) [OF r]) simp
  show "modeq 8380417 (dcoeff w n) (negacyclic 256 c g n)" if "n < 256"
    unfolding w_def using that by (intro dsa_rep_invntt_mont [OF r]) simp_all
qed

lemma mat_vec_modeq:
  assumes "\<And>j n. j < dsa_ell par \<Longrightarrow> n < 256 \<Longrightarrow> modeq 8380417 (g j n) (h j n)"
  shows "modeq 8380417 (mat_vec par F g i n) (mat_vec par F h i n)"
  unfolding mat_vec_def using assms by (intro modeq_sum negacyclic_modeq modeq_refl) auto

lemma mat_vec_add: "mat_vec par F (\<lambda>j n. g j n + h j n) i n = mat_vec par F g i n + mat_vec par F h i n"
  by (simp add: mat_vec_def negacyclic_add_right sum.distrib)

text \<open>Multiplication by a polynomial commutes with the matrix.\<close>

lemma mat_vec_mult:
  assumes "n < 256"
  shows "mat_vec par F (\<lambda>j. negacyclic 256 c (g j)) i n = negacyclic 256 c (mat_vec par F g i) n"
proof -
  have "negacyclic 256 (F i j) (negacyclic 256 c (g j)) n = negacyclic 256 c (negacyclic 256 (F i j) (g j)) n" for j
    using negacyclic_assoc [OF assms, of "F i j" c "g j"] negacyclic_assoc [OF assms, of c "F i j" "g j"]
      negacyclic_commute [of 256 "F i j" c] by simp
  then show ?thesis by (simp add: mat_vec_def [abs_def] negacyclic_sum_right)
qed

section \<open>Rounding and hints under a parameter set\<close>

lemma mldsa_gamma2_cases:
  assumes "mldsa_param_ok par"
  obtains (g88) "dsa_gamma2 par = 95232" | (g32) "dsa_gamma2 par = 261888"
  using assms by (auto simp: mldsa_param_ok_def)

definition dsa_m :: "mldsa_param \<Rightarrow> int" where
  "dsa_m par = 8380416 div (2 * sint (dsa_gamma2 par))"

lemma dsa_gamma2_facts:
  assumes "mldsa_param_ok par"
  shows "0 < sint (dsa_gamma2 par)" "sint (dsa_gamma2 par) \<le> 261888" "dsa_m par * (2 * sint (dsa_gamma2 par)) = 8380416"
    "2 \<le> dsa_m par" "dsa_m par \<le> 44"
  using assms by (cases rule: mldsa_gamma2_cases; simp add: dsa_m_def)+

lemma poly_decompose_coeff:
  assumes "mldsa_param_ok par" "0 \<le> dcoeff a n" "dcoeff a n < 8380417" "n < 256"
  defines "a1 \<equiv> dcoeff (fst (poly_decompose par a)) n" and "a0 \<equiv> dcoeff (snd (poly_decompose par a)) n"
  shows "0 \<le> a1" "a1 < dsa_m par" "\<bar>a0\<bar> \<le> sint (dsa_gamma2 par)"
    "modeq 8380417 (a1 * (2 * sint (dsa_gamma2 par)) + a0) (dcoeff a n)"
proof -
  note G = dsa_gamma2_facts [OF assms(1)]
  have "decompose_spec (sint (dsa_gamma2 par)) (dcoeff a n) = (a1, a0)"
    using assms(1)
  proof (cases rule: mldsa_gamma2_cases)
    case g88
    then show ?thesis
      using decompose_88_exact [of "a ! n"] assms(2-4) by (simp add: a1_def a0_def poly_decompose_def dcoeff_def)
  next
    case g32
    then show ?thesis
      using decompose_32_exact [of "a ! n"] assms(2-4) by (simp add: a1_def a0_def poly_decompose_def dcoeff_def)
  qed
  with decompose_spec_range [OF G(1,3) assms(2,3)]
  show "0 \<le> a1" "a1 < dsa_m par" "\<bar>a0\<bar> \<le> sint (dsa_gamma2 par)"
    "modeq 8380417 (a1 * (2 * sint (dsa_gamma2 par)) + a0) (dcoeff a n)" by simp_all
qed

lemma length_poly_decompose [simp]:
  "length (fst (poly_decompose par a)) = 256" "length (snd (poly_decompose par a)) = 256"
  by (simp_all add: poly_decompose_def)

lemma poly_use_hint_nth:
  assumes "mldsa_param_ok par" "n < 256" "0 \<le> sint a1" "sint a1 < dsa_m par" "\<bar>sint t\<bar> < 2 * sint (dsa_gamma2 par)"
    and "dcoeff r n = (sint a1 * (2 * sint (dsa_gamma2 par)) + sint t) mod 8380417"
    and "h ! n = make_hint t a1 (dsa_gamma2 par)"
  shows "poly_use_hint par r h ! n = a1"
  using assms(1)
proof (cases rule: mldsa_gamma2_cases)
  case g88
  then show ?thesis
    using hint_recovers [of 95232 44 use_hint_88 a1 t "r ! n"] assms(2-7) by (simp add: poly_use_hint_def dcoeff_def dsa_m_def)
next
  case g32
  then show ?thesis
    using hint_recovers [of 261888 16 use_hint_32 a1 t "r ! n"] assms(2-7) by (simp add: poly_use_hint_def dcoeff_def dsa_m_def)
qed

text \<open>Counting the hints.\<close>

lemma make_hint_01: "make_hint a0 a1 g = 0 \<or> make_hint a0 a1 g = 1"
  by (simp add: make_hint_def)

definition hint_row :: "mldsa_param \<Rightarrow> dpoly \<Rightarrow> dpoly \<Rightarrow> dpoly" where
  "hint_row par a0 a1 = map (\<lambda>i. make_hint (a0 ! i) (a1 ! i) (dsa_gamma2 par)) [0..<256]"

lemma hint_poly_row: "hint_poly (hint_row par a0 a1)"
  using make_hint_01 by (auto simp: hint_poly_def hint_row_def)

lemma poly_make_hint_eq:
  "poly_make_hint par a0 a1 = (of_nat (length (positions (hint_row par a0 a1))), hint_row par a0 a1)"
proof -
  let ?m = "\<lambda>i. make_hint (a0 ! i) (a1 ! i) (dsa_gamma2 par)"
  have F: "fold (\<lambda>i (s, h). let h = h @ [?m i] in (s + h ! i, h)) [0..<n] (0, []) =
      (of_nat (length (filter (\<lambda>j. ?m j \<noteq> 0) [0..<n])), map ?m [0..<n])" for n
  proof (induction n)
    case (Suc n)
    then show ?case using make_hint_01 [of "a0 ! n" "a1 ! n" "dsa_gamma2 par"] by (auto simp: nth_append)
  qed simp
  have "positions (hint_row par a0 a1) = filter (\<lambda>j. ?m j \<noteq> 0) [0..<256]"
    unfolding positions_def hint_row_def by (rule filter_cong) auto
  then show ?thesis using F [of 256] by (simp add: poly_make_hint_def hint_row_def)
qed

lemma polyveck_make_hint_eq:
  "polyveck_make_hint par v0 v1 =
    (of_nat (weight (map (\<lambda>i. hint_row par (v0 ! i) (v1 ! i)) [0..<dsa_k par])),
     map (\<lambda>i. hint_row par (v0 ! i) (v1 ! i)) [0..<dsa_k par])"
proof -
  have "fold (\<lambda>i (s, h). let (n, p) = poly_make_hint par (v0 ! i) (v1 ! i) in (s + n, h @ [p])) [0..<k] (0, []) =
      (of_nat (weight (map (\<lambda>i. hint_row par (v0 ! i) (v1 ! i)) [0..<k])), map (\<lambda>i. hint_row par (v0 ! i) (v1 ! i)) [0..<k])" for k
    by (induction k) (simp_all add: poly_make_hint_eq weight_def)
  then show ?thesis by (simp add: polyveck_make_hint_def)
qed

lemma weight_le: "weight h \<le> 256 * length h"
proof (induction h)
  case (Cons p h)
  have "length (positions p) \<le> length [0..<256]" unfolding positions_def by (rule length_filter_le)
  then show ?case using Cons by simp
qed simp

lemma hint_ok_make:
  assumes "mldsa_param_ok par" "polyveck_make_hint par v0 v1 = (n, h)" "\<not> dsa_omega par < unat n"
  shows "hint_ok par h"
proof -
  have h: "h = map (\<lambda>i. hint_row par (v0 ! i) (v1 ! i)) [0..<dsa_k par]" "n = of_nat (weight h)"
    using assms(2) by (auto simp: polyveck_make_hint_eq)
  have "weight h \<le> 256 * 8" using weight_le [of h] assms(1) h(1) by (auto simp: mldsa_param_ok_def)
  then have "unat n = weight h" by (simp add: h(2) unat_of_nat)
  then show ?thesis using assms(3) h(1) hint_poly_row by (auto simp: hint_ok_def)
qed

text \<open>A vector that passes the norm check is inside the bound.\<close>

lemma chknorm_pass:
  assumes "\<not> list_ex (\<lambda>i. poly_chknorm (v ! i) b) [0..<k]" "i < k" "n < 256" "dpoly_bounded 1073741823 (v ! i)"
  shows "\<bar>dcoeff (v ! i) n\<bar> < sint b"
  using assms poly_chknorm_iff [OF assms(4), of b] by (auto simp: list_ex_iff not_le)

end
