(* ===== verification/Dsa_Sign_Arith.thy ===== *)
theory Dsa_Sign_Arith
  imports Dsa_Polyvec_Correct Dsa_Sign
begin

text \<open>
  The arithmetic of \<open>mldsa.c\<close>: what key generation, the commitment and the response of an attempt and the
  recomputation of the commitment by the verifier compute in \<open>Z_q[X]/(X^256 + 1)\<close>, with the bounds that keep
  every intermediate value inside 32 bits.
\<close>

section \<open>Key generation\<close>

lemma short_vec_ntt:
  assumes "dpoly_bounded B a" "B \<le> 67043328"
  shows "dsa_rep 134086656 1 (dcoeff a) (mldsa_poly_ntt a)"
  by (rule dsa_rep_mono [OF dsa_rep_ntt [OF assms(1)]]) (use assms(2) in simp_all)

lemma eta_bound:
  assumes "mldsa_param_ok par" "dpoly_bounded (int (dsa_eta par)) a"
  shows "dpoly_bounded 4 a"
  using assms by (auto simp: mldsa_param_ok_def elim: dpoly_bounded_mono)

lemma poly_power2round_coeff:
  assumes "0 \<le> dcoeff a n" "dcoeff a n < 8380417" "n < 256"
  shows "0 \<le> dcoeff (fst (poly_power2round a)) n" "dcoeff (fst (poly_power2round a)) n < 1024"
    "- 4096 < dcoeff (snd (poly_power2round a)) n" "dcoeff (snd (poly_power2round a)) n \<le> 4096"
    "dcoeff (fst (poly_power2round a)) n * 8192 + dcoeff (snd (poly_power2round a)) n = dcoeff a n"
    "(dcoeff (fst (poly_power2round a)) n, dcoeff (snd (poly_power2round a)) n) = power2round_spec (dcoeff a n)"
  using power2round_exact [of "a ! n"] assms by (simp_all add: poly_power2round_def dcoeff_def)

lemma length_poly_power2round [simp]:
  "length (fst (poly_power2round a)) = 256" "length (snd (poly_power2round a)) = 256"
  by (simp_all add: poly_power2round_def)

lemma keygen_arith_spec:
  assumes ok: "mldsa_param_ok par" and F: "mat_rep par F mat"
    and s1: "length s1 = dsa_ell par" "\<forall>a \<in> set s1. dpoly_bounded (int (dsa_eta par)) a"
    and s2: "length s2 = dsa_k par" "\<forall>a \<in> set s2. dpoly_bounded (int (dsa_eta par)) a"
    and k: "keygen_arith par mat s1 s2 = (t1, t0)"
  shows "length t1 = dsa_k par" "length t0 = dsa_k par" "\<forall>a \<in> set t1. t1_poly a" "\<forall>a \<in> set t0. t0_poly a"
    and "\<And>i n. i < dsa_k par \<Longrightarrow> n < 256 \<Longrightarrow> modeq 8380417 (dcoeff (t1 ! i) n * 8192 + dcoeff (t0 ! i) n)
      (mat_vec par F (\<lambda>j. dcoeff (s1 ! j)) i n + dcoeff (s2 ! i) n)"
    and "\<And>i n. i < dsa_k par \<Longrightarrow> n < 256 \<Longrightarrow> (dcoeff (t1 ! i) n, dcoeff (t0 ! i) n) =
      power2round_spec (mat_vec par F (\<lambda>j. dcoeff (s1 ! j)) i n + dcoeff (s2 ! i) n)"
proof -
  define w where "w i = mldsa_poly_invntt_tomont (mldsa_poly_reduce
    (polyvec_matrix_pointwise_montgomery par mat (polyvecl_ntt par s1) ! i))" for i
  define t where "t i = poly_caddq (mldsa_poly_add (w i) (s2 ! i))" for i
  have s1h: "dsa_rep 134086656 1 (dcoeff (s1 ! j)) (polyvecl_ntt par s1 ! j)" if "j < dsa_ell par" for j
    using that s1 eta_bound [OF ok] by (simp add: polyvecl_ntt_def short_vec_ntt [of 4])
  have w: "dpoly_bounded 4211197 (w i)"
    "n < 256 \<Longrightarrow> modeq 8380417 (dcoeff (w i) n) (mat_vec par F (\<lambda>j. dcoeff (s1 ! j)) i n)" if "i < dsa_k par" for i n
    unfolding w_def using matrix_product [OF ok F that s1h] by simp_all
  have s2b: "dpoly_bounded 4 (s2 ! i)" if "i < dsa_k par" for i using that s2 eta_bound [OF ok] by simp
  have sum: "dpoly_bounded 8380416 (mldsa_poly_add (w i) (s2 ! i))" if "i < dsa_k par" for i
    using dpoly_bounded_add [OF w(1) [OF that] s2b [OF that]] by (rule dpoly_bounded_mono) simp_all
  have t: "dcoeff (t i) n = (dcoeff (w i) n + dcoeff (s2 ! i) n) mod 8380417" if "i < dsa_k par" "n < 256" for i n
    unfolding t_def dpoly_caddq(2) [OF sum [OF that(1)] that(2)]
    by (subst dcoeff_add [OF w(1) [OF that(1)] s2b [OF that(1)]]) (use that in simp_all)
  have t10: "t1 = fst (keygen_arith par mat s1 s2)" "t0 = snd (keygen_arith par mat s1 s2)" using k by simp_all
  have l: "length t1 = dsa_k par" "length t0 = dsa_k par"
    by (simp_all add: t10 keygen_arith_def polyveck_power2round_def Let_def)
  have e: "t1 ! i = fst (poly_power2round (t i))" "t0 ! i = snd (poly_power2round (t i))" if "i < dsa_k par" for i
    by (simp_all add: that t10 keygen_arith_def polyveck_power2round_def polyveck_caddq_def polyveck_add_def
        polyveck_invntt_tomont_def polyveck_reduce_def t_def w_def Let_def)
  show "length t1 = dsa_k par" "length t0 = dsa_k par" by (rule l)+
  have r: "0 \<le> dcoeff (t i) n" "dcoeff (t i) n < 8380417" if "i < dsa_k par" "n < 256" for i n
    using t [OF that] by simp_all
  show "\<forall>a \<in> set t1. t1_poly a"
    using poly_power2round_coeff(1,2) [OF r] l by (auto simp: e t1_poly_def in_set_conv_nth)
  show "\<forall>a \<in> set t0. t0_poly a"
    using poly_power2round_coeff(3,4) [OF r] l by (auto simp: e t0_poly_def in_set_conv_nth)
  fix i n :: nat
  assume i: "i < dsa_k par" and n: "n < 256"
  have "dcoeff (t1 ! i) n * 8192 + dcoeff (t0 ! i) n = (dcoeff (w i) n + dcoeff (s2 ! i) n) mod 8380417"
    using poly_power2round_coeff(5) [OF r [OF i n] n] t [OF i n] i by (simp add: e)
  also have "modeq 8380417 \<dots> (dcoeff (w i) n + dcoeff (s2 ! i) n)" by (simp add: modeq_def)
  also have "modeq 8380417 \<dots> (mat_vec par F (\<lambda>j. dcoeff (s1 ! j)) i n + dcoeff (s2 ! i) n)"
    by (intro modeq_add modeq_refl w(2) i n)
  finally show "modeq 8380417 (dcoeff (t1 ! i) n * 8192 + dcoeff (t0 ! i) n)
      (mat_vec par F (\<lambda>j. dcoeff (s1 ! j)) i n + dcoeff (s2 ! i) n)" .
  have "modeq 8380417 (dcoeff (w i) n + dcoeff (s2 ! i) n) (mat_vec par F (\<lambda>j. dcoeff (s1 ! j)) i n + dcoeff (s2 ! i) n)"
    by (intro modeq_add modeq_refl w(2) i n)
  then show "(dcoeff (t1 ! i) n, dcoeff (t0 ! i) n) =
      power2round_spec (mat_vec par F (\<lambda>j. dcoeff (s1 ! j)) i n + dcoeff (s2 ! i) n)"
    unfolding e(1) [OF i] e(2) [OF i] poly_power2round_coeff(6) [OF r [OF i n] n]
    by (simp add: t [OF i n] power2round_spec_def modeq_def)
qed

section \<open>Commitment\<close>

lemma z_poly_bounded:
  assumes "mldsa_param_ok par" "z_poly par a"
  shows "dpoly_bounded 524288 a"
  using assms(1) by (cases rule: mldsa_gamma1_cases) (use assms(2) in \<open>force simp: z_poly_def dpoly_bounded_iff abs_le_iff\<close>)+

lemma sign_commit_spec:
  assumes ok: "mldsa_param_ok par" and F: "mat_rep par F mat"
    and y: "length y = dsa_ell par" "\<forall>a \<in> set y. z_poly par a"
    and c: "sign_commit par mat y = (w1, w0)"
  shows "length w1 = dsa_k par" "length w0 = dsa_k par"
    and "\<And>i. i < dsa_k par \<Longrightarrow> length (w1 ! i) = 256" "\<And>i. i < dsa_k par \<Longrightarrow> dpoly_bounded 261888 (w0 ! i)"
    and "\<And>i n. i < dsa_k par \<Longrightarrow> n < 256 \<Longrightarrow> 0 \<le> dcoeff (w1 ! i) n \<and> dcoeff (w1 ! i) n < dsa_m par \<and>
      modeq 8380417 (dcoeff (w1 ! i) n * (2 * sint (dsa_gamma2 par)) + dcoeff (w0 ! i) n)
        (mat_vec par F (\<lambda>j. dcoeff (y ! j)) i n)"
proof -
  define w where "w i = mldsa_poly_invntt_tomont (mldsa_poly_reduce
    (polyvec_matrix_pointwise_montgomery par mat (polyvecl_ntt par y) ! i))" for i
  have yh: "dsa_rep 134086656 1 (dcoeff (y ! j)) (polyvecl_ntt par y ! j)" if "j < dsa_ell par" for j
    using that y z_poly_bounded [OF ok] by (simp add: polyvecl_ntt_def short_vec_ntt [of 524288])
  have w: "dpoly_bounded 8380416 (w i)"
    "n < 256 \<Longrightarrow> modeq 8380417 (dcoeff (w i) n) (mat_vec par F (\<lambda>j. dcoeff (y ! j)) i n)" if "i < dsa_k par" for i n
    unfolding w_def using matrix_product [OF ok F that yh] dpoly_bounded_mono [of 4211197 _ 8380416] by simp_all
  have w10: "w1 = fst (sign_commit par mat y)" "w0 = snd (sign_commit par mat y)" using c by simp_all
  have l: "length w1 = dsa_k par" "length w0 = dsa_k par"
    by (simp_all add: w10 sign_commit_def polyveck_decompose_def Let_def)
  have e: "w1 ! i = fst (poly_decompose par (poly_caddq (w i)))" "w0 ! i = snd (poly_decompose par (poly_caddq (w i)))"
    if "i < dsa_k par" for i
    by (simp_all add: that w10 sign_commit_def polyveck_decompose_def polyveck_caddq_def
        polyveck_invntt_tomont_def polyveck_reduce_def w_def Let_def)
  show "length w1 = dsa_k par" "length w0 = dsa_k par" by (rule l)+
  show "length (w1 ! i) = 256" if "i < dsa_k par" for i by (simp add: e that)
  have v: "dcoeff (poly_caddq (w i)) n = dcoeff (w i) n mod 8380417" if "i < dsa_k par" "n < 256" for i n
    by (rule dpoly_caddq(2) [OF w(1) [OF that(1)] that(2)])
  then have r: "0 \<le> dcoeff (poly_caddq (w i)) n" "dcoeff (poly_caddq (w i)) n < 8380417" if "i < dsa_k par" "n < 256" for i n
    using that by simp_all
  note D = poly_decompose_coeff [OF ok r]
  show "dpoly_bounded 261888 (w0 ! i)" if "i < dsa_k par" for i
    using D(3) [OF that _ that] dsa_gamma2_facts(2) [OF ok] that by (force simp: dpoly_bounded_iff e)
  fix i n :: nat
  assume i: "i < dsa_k par" and n: "n < 256"
  have "modeq 8380417 (dcoeff (w1 ! i) n * (2 * sint (dsa_gamma2 par)) + dcoeff (w0 ! i) n) (dcoeff (poly_caddq (w i)) n)"
    using D(4) [OF i n i n n] i by (simp add: e)
  also have "modeq 8380417 \<dots> (dcoeff (w i) n)" unfolding v [OF i n] by (simp add: modeq_def)
  also have "modeq 8380417 \<dots> (mat_vec par F (\<lambda>j. dcoeff (y ! j)) i n)" by (rule w(2) [OF i n])
  finally show "0 \<le> dcoeff (w1 ! i) n \<and> dcoeff (w1 ! i) n < dsa_m par \<and>
      modeq 8380417 (dcoeff (w1 ! i) n * (2 * sint (dsa_gamma2 par)) + dcoeff (w0 ! i) n)
        (mat_vec par F (\<lambda>j. dcoeff (y ! j)) i n)"
    using D(1,2) [OF i n i n n] i by (simp add: e)
qed

section \<open>Response\<close>

lemma challenge_bounded: "challenge_poly tau c \<Longrightarrow> dpoly_bounded 1 c"
  by (force simp: challenge_poly_def dpoly_bounded_iff dcoeff_def)

lemma challenge_ntt: "challenge_poly tau c \<Longrightarrow> dsa_rep 67043329 1 (dcoeff c) (mldsa_poly_ntt c)"
  using dsa_rep_ntt [of 1 c] challenge_bounded by simp

lemma dsa_beta_bounds:
  assumes "mldsa_param_ok par"
  shows "sint (dsa_gamma1 par - dsa_beta par) = sint (dsa_gamma1 par) - sint (dsa_beta par)"
    "0 \<le> sint (dsa_beta par)" and "sint (dsa_gamma1 par - dsa_beta par) \<le> sint (dsa_gamma1 par)" "sint (dsa_gamma2 par - dsa_beta par) \<le> sint (dsa_gamma2 par)"
proof -
  have "dsa_eta par * dsa_tau par \<le> 4 * 60" using assms by (intro mult_mono) (auto simp: mldsa_param_ok_def)
  then have u: "unat (dsa_beta par) \<le> 240" using assms by (simp add: mldsa_param_ok_def)
  then have b: "sint (dsa_beta par) = int (unat (dsa_beta par))" by (intro sint_eq_unat) simp
  then have b': "0 \<le> sint (dsa_beta par)" "sint (dsa_beta par) \<le> 240" using u by linarith+
  then show "0 \<le> sint (dsa_beta par)" by simp
  have "sint (dsa_gamma1 par) \<in> {131072, 524288}" "sint (dsa_gamma2 par) \<in> {95232, 261888}"
    using assms by (auto simp: mldsa_param_ok_def)
  then have "sint (dsa_gamma1 par - dsa_beta par) = sint (dsa_gamma1 par) - sint (dsa_beta par)"
    "sint (dsa_gamma2 par - dsa_beta par) = sint (dsa_gamma2 par) - sint (dsa_beta par)"
    using b' by (auto intro!: sint_diff_fit)
  then show "sint (dsa_gamma1 par - dsa_beta par) = sint (dsa_gamma1 par) - sint (dsa_beta par)" "sint (dsa_gamma1 par - dsa_beta par) \<le> sint (dsa_gamma1 par)"
    "sint (dsa_gamma2 par - dsa_beta par) \<le> sint (dsa_gamma2 par)" using b' by simp_all
qed

text \<open>What an accepted response is, coefficient by coefficient.\<close>

lemma sign_respond_spec:
  assumes ok: "mldsa_param_ok par" and c: "challenge_poly tau c"
    and s1: "length s1 = dsa_ell par" "\<forall>a \<in> set s1. dpoly_bounded (int (dsa_eta par)) a"
    and s2: "length s2 = dsa_k par" "\<forall>a \<in> set s2. dpoly_bounded (int (dsa_eta par)) a"
    and t0: "length t0 = dsa_k par" "\<forall>a \<in> set t0. t0_poly a"
    and y: "length y = dsa_ell par" "\<forall>a \<in> set y. z_poly par a"
    and w0: "\<And>i. i < dsa_k par \<Longrightarrow> dpoly_bounded 261888 (w0 ! i)"
    and r: "sign_respond par (polyvecl_ntt par s1) (polyveck_ntt par s2) (polyveck_ntt par t0)
      (mldsa_poly_ntt c) y w1 w0 = Some (z, h)"
  obtains w where "length z = dsa_ell par" "\<forall>a \<in> set z. z_poly par a"
    and "\<not> polyvecl_chknorm par z (dsa_gamma1 par - dsa_beta par)"
    and "\<And>j n. j < dsa_ell par \<Longrightarrow> n < 256 \<Longrightarrow>
      modeq 8380417 (dcoeff (z ! j) n) (dcoeff (y ! j) n + negacyclic 256 (dcoeff c) (dcoeff (s1 ! j)) n)"
    and "hint_ok par h" "\<And>i. i < dsa_k par \<Longrightarrow> h ! i = hint_row par (w ! i) (w1 ! i)"
    and "\<And>i n. i < dsa_k par \<Longrightarrow> n < 256 \<Longrightarrow> \<bar>dcoeff (w ! i) n\<bar> < 2 * sint (dsa_gamma2 par) \<and>
      modeq 8380417 (dcoeff (w ! i) n) (dcoeff (w0 ! i) n
        - negacyclic 256 (dcoeff c) (dcoeff (s2 ! i)) n + negacyclic 256 (dcoeff c) (dcoeff (t0 ! i)) n)"
proof -
  define cs1 where "cs1 = polyvecl_invntt_tomont par (polyvecl_pointwise_poly_montgomery par (mldsa_poly_ntt c) (polyvecl_ntt par s1))"
  define z' where "z' = polyvecl_reduce par (polyvecl_add par cs1 y)"
  define cs2 where "cs2 = polyveck_invntt_tomont par (polyveck_pointwise_poly_montgomery par (mldsa_poly_ntt c) (polyveck_ntt par s2))"
  define w0' where "w0' = polyveck_reduce par (polyveck_sub par w0 cs2)"
  define ct0 where "ct0 = polyveck_reduce par (polyveck_invntt_tomont par
    (polyveck_pointwise_poly_montgomery par (mldsa_poly_ntt c) (polyveck_ntt par t0)))"
  define w where "w = polyveck_add par w0' ct0"
  have R: "\<not> polyvecl_chknorm par z' (dsa_gamma1 par - dsa_beta par)" "\<not> polyveck_chknorm par w0' (dsa_gamma2 par - dsa_beta par)"
    "\<not> polyveck_chknorm par ct0 (dsa_gamma2 par)" "z = z'"
    "\<exists>n. polyveck_make_hint par w w1 = (n, h) \<and> \<not> dsa_omega par < unat n"
    using r unfolding sign_respond_def Let_def cs1_def [symmetric] z'_def [symmetric] cs2_def [symmetric]
      w0'_def [symmetric] ct0_def [symmetric] w_def [symmetric] by (auto split: if_splits prod.splits)
  note C = challenge_ntt [OF c]
  have cs1: "dpoly_bounded 4211197 (cs1 ! j)"
    "n < 256 \<Longrightarrow> modeq 8380417 (dcoeff (cs1 ! j) n) (negacyclic 256 (dcoeff c) (dcoeff (s1 ! j)) n)"
    if "j < dsa_ell par" for j n
    using that s1 scalar_product [OF C short_vec_ntt [OF eta_bound [OF ok]]]
    by (simp_all add: cs1_def polyvecl_invntt_tomont_def polyvecl_pointwise_poly_montgomery_def polyvecl_ntt_def)
  have cs2: "dpoly_bounded 4211197 (cs2 ! i)"
    "n < 256 \<Longrightarrow> modeq 8380417 (dcoeff (cs2 ! i) n) (negacyclic 256 (dcoeff c) (dcoeff (s2 ! i)) n)"
    if "i < dsa_k par" for i n
    using that s2 scalar_product [OF C short_vec_ntt [OF eta_bound [OF ok]]]
    by (simp_all add: cs2_def polyveck_invntt_tomont_def polyveck_pointwise_poly_montgomery_def polyveck_ntt_def)
  have t0b: "dpoly_bounded 4096 (t0 ! i)" if "i < dsa_k par" for i
  proof -
    have "t0_poly (t0 ! i)" using t0 that by simp
    then show ?thesis by (force simp: t0_poly_def dpoly_bounded_iff abs_le_iff)
  qed
  have ct0: "dpoly_bounded 6283009 (ct0 ! i)"
    "n < 256 \<Longrightarrow> modeq 8380417 (dcoeff (ct0 ! i) n) (negacyclic 256 (dcoeff c) (dcoeff (t0 ! i)) n)"
    if i: "i < dsa_k par" for i n
  proof -
    define u where "u = mldsa_poly_invntt_tomont (poly_pointwise_montgomery (mldsa_poly_ntt c) (mldsa_poly_ntt (t0 ! i)))"
    have u: "dpoly_bounded 4211197 u" "n < 256 \<Longrightarrow> modeq 8380417 (dcoeff u n) (negacyclic 256 (dcoeff c) (dcoeff (t0 ! i)) n)" for n
      unfolding u_def using scalar_product [OF C short_vec_ntt [OF t0b [OF i]]] by simp_all
    have e: "ct0 ! i = mldsa_poly_reduce u"
      using i by (simp add: ct0_def u_def polyveck_reduce_def polyveck_invntt_tomont_def
          polyveck_pointwise_poly_montgomery_def polyveck_ntt_def)
    show "dpoly_bounded 6283009 (ct0 ! i)" unfolding e by (rule dpoly_reduce(1) [OF u(1)]) simp
    show "modeq 8380417 (dcoeff (ct0 ! i) n) (negacyclic 256 (dcoeff c) (dcoeff (t0 ! i)) n)" if "n < 256"
      unfolding e by (rule modeq_trans [OF dpoly_reduce(2) [OF u(1)] u(2)]) (use that in simp_all)
  qed
  have z: "dpoly_bounded 6283009 (z ! j)"
    "n < 256 \<Longrightarrow> modeq 8380417 (dcoeff (z ! j) n) (dcoeff (y ! j) n + negacyclic 256 (dcoeff c) (dcoeff (s1 ! j)) n)"
    if j: "j < dsa_ell par" for j n
  proof -
    have yb: "dpoly_bounded 524288 (y ! j)" using y j z_poly_bounded [OF ok] by simp
    have e: "z ! j = mldsa_poly_reduce (mldsa_poly_add (cs1 ! j) (y ! j))"
      using j R(4) by (simp add: z'_def polyvecl_reduce_def polyvecl_add_def)
    note S = dpoly_bounded_add [OF cs1(1) [OF j] yb, simplified]
    show "dpoly_bounded 6283009 (z ! j)" unfolding e by (rule dpoly_reduce(1) [OF S]) simp
    assume n: "n < 256"
    have "modeq 8380417 (dcoeff (z ! j) n) (dcoeff (mldsa_poly_add (cs1 ! j) (y ! j)) n)"
      unfolding e by (rule dpoly_reduce(2) [OF S _ n]) simp
    also have "dcoeff (mldsa_poly_add (cs1 ! j) (y ! j)) n = dcoeff (y ! j) n + dcoeff (cs1 ! j) n"
      using dcoeff_add [OF cs1(1) [OF j] yb _ n] by simp
    also have "modeq 8380417 \<dots> (dcoeff (y ! j) n + negacyclic 256 (dcoeff c) (dcoeff (s1 ! j)) n)"
      by (intro modeq_add modeq_refl cs1(2) j n)
    finally show "modeq 8380417 (dcoeff (z ! j) n) (dcoeff (y ! j) n + negacyclic 256 (dcoeff c) (dcoeff (s1 ! j)) n)" .
  qed
  have w0': "dpoly_bounded 6283009 (w0' ! i)"
    "n < 256 \<Longrightarrow> modeq 8380417 (dcoeff (w0' ! i) n) (dcoeff (w0 ! i) n - negacyclic 256 (dcoeff c) (dcoeff (s2 ! i)) n)"
    if i: "i < dsa_k par" for i n
  proof -
    have e: "w0' ! i = mldsa_poly_reduce (mldsa_poly_sub (w0 ! i) (cs2 ! i))"
      using i by (simp add: w0'_def polyveck_reduce_def polyveck_sub_def)
    note S = dpoly_bounded_sub [OF w0 [OF i] cs2(1) [OF i], simplified]
    show "dpoly_bounded 6283009 (w0' ! i)" unfolding e by (rule dpoly_reduce(1) [OF S]) simp
    assume n: "n < 256"
    have "modeq 8380417 (dcoeff (w0' ! i) n) (dcoeff (mldsa_poly_sub (w0 ! i) (cs2 ! i)) n)"
      unfolding e by (rule dpoly_reduce(2) [OF S _ n]) simp
    also have "dcoeff (mldsa_poly_sub (w0 ! i) (cs2 ! i)) n = dcoeff (w0 ! i) n - dcoeff (cs2 ! i) n"
      using dcoeff_sub [OF w0 [OF i] cs2(1) [OF i] _ n] by simp
    also have "modeq 8380417 \<dots> (dcoeff (w0 ! i) n - negacyclic 256 (dcoeff c) (dcoeff (s2 ! i)) n)"
      by (intro modeq_diff modeq_refl cs2(2) i n)
    finally show "modeq 8380417 (dcoeff (w0' ! i) n) (dcoeff (w0 ! i) n - negacyclic 256 (dcoeff c) (dcoeff (s2 ! i)) n)" .
  qed
  show thesis
  proof (rule that [of w])
    show lz: "length z = dsa_ell par" using R(4) by (simp add: z'_def polyvecl_reduce_def)
    show "\<not> polyvecl_chknorm par z (dsa_gamma1 par - dsa_beta par)" using R(1,4) by simp
    show "\<forall>a \<in> set z. z_poly par a"
    proof
      fix a
      assume az: "a \<in> set z"
      obtain j where j: "j < dsa_ell par" "a = z ! j" using az lz by (auto simp: in_set_conv_nth)
      have "\<bar>dcoeff (z ! j) n\<bar> < sint (dsa_gamma1 par)" if "n < 256" for n
        using chknorm_pass [OF R(1) [folded R(4), unfolded polyvecl_chknorm_def] j(1) that dpoly_bounded_mono [OF z(1) [OF j(1)]]]
          dsa_beta_bounds(3) [OF ok] by simp
      then show "z_poly par a" using z(1) [OF j(1)] j(2) by (force simp: z_poly_def dpoly_bounded_iff abs_less_iff)
    qed
    obtain m where m: "polyveck_make_hint par w w1 = (m, h)" "\<not> dsa_omega par < unat m" using R(5) by blast
    then show "hint_ok par h" by (rule hint_ok_make [OF ok])
    show "h ! i = hint_row par (w ! i) (w1 ! i)" if "i < dsa_k par" for i
      using m(1) that by (auto simp: polyveck_make_hint_eq)
    show "modeq 8380417 (dcoeff (z ! j) n) (dcoeff (y ! j) n + negacyclic 256 (dcoeff c) (dcoeff (s1 ! j)) n)"
      if "j < dsa_ell par" "n < 256" for j n using z(2) that by blast
    fix i n :: nat
    assume i: "i < dsa_k par" and n: "n < 256"
    have e: "dcoeff (w ! i) n = dcoeff (w0' ! i) n + dcoeff (ct0 ! i) n"
      using dcoeff_add [OF w0'(1) [OF i] ct0(1) [OF i] _ n] i by (simp add: w_def polyveck_add_def)
    have "\<bar>dcoeff (w0' ! i) n\<bar> < sint (dsa_gamma2 par)"
      using chknorm_pass [OF R(2) [unfolded polyveck_chknorm_def] i n dpoly_bounded_mono [OF w0'(1) [OF i]]]
        dsa_beta_bounds(4) [OF ok] by simp
    moreover have "\<bar>dcoeff (ct0 ! i) n\<bar> < sint (dsa_gamma2 par)"
      using chknorm_pass [OF R(3) [unfolded polyveck_chknorm_def] i n dpoly_bounded_mono [OF ct0(1) [OF i]]] by simp
    ultimately have "\<bar>dcoeff (w ! i) n\<bar> < 2 * sint (dsa_gamma2 par)" unfolding e by linarith
    moreover have "modeq 8380417 (dcoeff (w ! i) n) (dcoeff (w0 ! i) n
        - negacyclic 256 (dcoeff c) (dcoeff (s2 ! i)) n + negacyclic 256 (dcoeff c) (dcoeff (t0 ! i)) n)"
      unfolding e by (intro modeq_add w0'(2) ct0(2) i n)
    ultimately show "\<bar>dcoeff (w ! i) n\<bar> < 2 * sint (dsa_gamma2 par) \<and>
      modeq 8380417 (dcoeff (w ! i) n) (dcoeff (w0 ! i) n
        - negacyclic 256 (dcoeff c) (dcoeff (s2 ! i)) n + negacyclic 256 (dcoeff c) (dcoeff (t0 ! i)) n)" ..
  qed
qed

section \<open>Verification\<close>

lemma poly_use_hint_coeff:
  assumes "mldsa_param_ok par" "0 \<le> dcoeff r n" "dcoeff r n < 8380417" "n < 256"
  shows "dcoeff (poly_use_hint par r h) n = use_hint_spec (sint (dsa_gamma2 par)) (h ! n \<noteq> 0) (dcoeff r n)"
  using assms(1)
  by (cases rule: mldsa_gamma2_cases)
    (use assms(2-4) in \<open>simp_all add: poly_use_hint_def dcoeff_def use_hint_32_exact use_hint_88_exact\<close>)

lemma verify_arith_spec:
  assumes ok: "mldsa_param_ok par" and F: "mat_rep par F mat" and c: "challenge_poly tau c"
    and z: "length z = dsa_ell par" "\<forall>a \<in> set z. z_poly par a"
    and t1: "length t1 = dsa_k par" "\<forall>a \<in> set t1. t1_poly a"
  obtains r where "\<And>i. i < dsa_k par \<Longrightarrow> verify_arith par mat c z t1 h ! i = poly_use_hint par (r i) (h ! i)"
    and "\<And>i n. i < dsa_k par \<Longrightarrow> n < 256 \<Longrightarrow> 0 \<le> dcoeff (r i) n \<and> dcoeff (r i) n < 8380417 \<and>
      modeq 8380417 (dcoeff (r i) n)
        (mat_vec par F (\<lambda>j. dcoeff (z ! j)) i n - negacyclic 256 (dcoeff c) (\<lambda>m. 8192 * dcoeff (t1 ! i) m) n)"
proof -
  define Az where "Az i = polyvec_matrix_pointwise_montgomery par mat (polyvecl_ntt par z) ! i" for i
  define ct where "ct i = poly_pointwise_montgomery (mldsa_poly_ntt c) (mldsa_poly_ntt (poly_shiftl (t1 ! i)))" for i
  define d where "d i = mldsa_poly_invntt_tomont (mldsa_poly_reduce (mldsa_poly_sub (Az i) (ct i)))" for i
  have zh: "dsa_rep 134086656 1 (dcoeff (z ! j)) (polyvecl_ntt par z ! j)" if "j < dsa_ell par" for j
    using that z z_poly_bounded [OF ok] by (simp add: polyvecl_ntt_def short_vec_ntt [of 524288])
  have D: "dpoly_bounded 8380416 (d i)"
    "n < 256 \<Longrightarrow> modeq 8380417 (dcoeff (d i) n)
      (mat_vec par F (\<lambda>j. dcoeff (z ! j)) i n - negacyclic 256 (dcoeff c) (\<lambda>m. 8192 * dcoeff (t1 ! i) m) n)"
    if i: "i < dsa_k par" for i n
  proof -
    have A: "dsa_rep 58662912 8265825 (mat_vec par F (\<lambda>j. dcoeff (z ! j)) i) (Az i)"
      unfolding Az_def by (rule matrix_pointwise_rep [OF ok F i zh]) simp_all
    have "t1_poly (t1 ! i)" using t1 i by simp
    then have S: "length (t1 ! i) = 256" "0 \<le> dcoeff (t1 ! i) m \<and> dcoeff (t1 ! i) m < 1024" if "m < 256" for m
      using that by (auto simp: t1_poly_def)
    note sh = dpoly_shiftl [OF S(2) S(1) [of 0]]
    have "dsa_rep 134086656 1 (dcoeff (poly_shiftl (t1 ! i))) (mldsa_poly_ntt (poly_shiftl (t1 ! i)))"
      by (rule short_vec_ntt [of 8380416]) (use sh in simp_all)
    then have "dsa_rep 8380416 8265825 (negacyclic 256 (dcoeff c) (dcoeff (poly_shiftl (t1 ! i)))) (ct i)"
      unfolding ct_def by (rule dsa_rep_pointwise [OF challenge_ntt [OF c]]) simp_all
    moreover have "negacyclic 256 (dcoeff c) (dcoeff (poly_shiftl (t1 ! i))) = negacyclic 256 (dcoeff c) (\<lambda>m. 8192 * dcoeff (t1 ! i) m)"
      unfolding negacyclic_def using sh(2) by (intro ext sum.cong refl) simp
    ultimately have B: "dsa_rep 8380416 8265825 (negacyclic 256 (dcoeff c) (\<lambda>m. 8192 * dcoeff (t1 ! i) m)) (ct i)" by simp
    have "dsa_rep 6283009 8265825
        (\<lambda>n. mat_vec par F (\<lambda>j. dcoeff (z ! j)) i n - negacyclic 256 (dcoeff c) (\<lambda>m. 8192 * dcoeff (t1 ! i) m) n)
        (mldsa_poly_reduce (mldsa_poly_sub (Az i) (ct i)))"
      by (rule dsa_rep_reduce [OF dsa_rep_sub [OF A B]]) simp_all
    note N = this
    show "dpoly_bounded 8380416 (d i)" unfolding d_def
      by (rule dpoly_bounded_mono [OF dsa_rep_invntt(1) [OF N]]) simp_all
    show "modeq 8380417 (dcoeff (d i) n)
      (mat_vec par F (\<lambda>j. dcoeff (z ! j)) i n - negacyclic 256 (dcoeff c) (\<lambda>m. 8192 * dcoeff (t1 ! i) m) n)" if "n < 256"
      unfolding d_def by (rule dsa_rep_invntt_mont [OF N _ that]) simp
  qed
  show thesis
  proof (rule that [of "\<lambda>i. poly_caddq (d i)"])
    show "verify_arith par mat c z t1 h ! i = poly_use_hint par (poly_caddq (d i)) (h ! i)" if "i < dsa_k par" for i
      using that by (simp add: verify_arith_def Let_def polyveck_use_hint_def polyveck_caddq_def polyveck_invntt_tomont_def
          polyveck_reduce_def polyveck_sub_def polyveck_pointwise_poly_montgomery_def polyveck_ntt_def polyveck_shiftl_def
          d_def Az_def ct_def)
    fix i n :: nat
    assume i: "i < dsa_k par" and n: "n < 256"
    have e: "dcoeff (poly_caddq (d i)) n = dcoeff (d i) n mod 8380417" by (rule dpoly_caddq(2) [OF D(1) [OF i] n])
    then have "modeq 8380417 (dcoeff (poly_caddq (d i)) n) (dcoeff (d i) n)" by (simp add: modeq_def)
    then show "0 \<le> dcoeff (poly_caddq (d i)) n \<and> dcoeff (poly_caddq (d i)) n < 8380417 \<and>
      modeq 8380417 (dcoeff (poly_caddq (d i)) n)
        (mat_vec par F (\<lambda>j. dcoeff (z ! j)) i n - negacyclic 256 (dcoeff c) (\<lambda>m. 8192 * dcoeff (t1 ! i) m) n)"
      using modeq_trans [OF _ D(2) [OF i n]] e by simp
  qed
qed

end
