(* ===== verification/Dsa_Sign_Verify.thy ===== *)
theory Dsa_Sign_Verify
  imports Dsa_Sign_Arith
begin

text \<open>
  Why a signature verifies: the commitment the verifier recomputes is the one the signer hashed, the signing loop
  as a finite number of rejected attempts and one that succeeds, and the composition through the encodings.
\<close>

section \<open>The verifier recovers the commitment\<close>

lemma verify_recovers:
  assumes ok: "mldsa_param_ok par" and F: "mat_rep par F mat" and c: "challenge_poly tau c"
    and s1: "length s1 = dsa_ell par" "\<forall>a \<in> set s1. dpoly_bounded (int (dsa_eta par)) a"
    and s2: "length s2 = dsa_k par" "\<forall>a \<in> set s2. dpoly_bounded (int (dsa_eta par)) a"
    and k: "keygen_arith par mat s1 s2 = (t1, t0)"
    and y: "length y = dsa_ell par" "\<forall>a \<in> set y. z_poly par a"
    and w: "sign_commit par mat y = (w1, w0)"
    and r: "sign_respond par (polyvecl_ntt par s1) (polyveck_ntt par s2) (polyveck_ntt par t0)
      (mldsa_poly_ntt c) y w1 w0 = Some (z, h)"
  shows "verify_arith par mat c z t1 h = w1"
proof -
  let ?N = "negacyclic 256 (dcoeff c)" and ?g = "2 * sint (dsa_gamma2 par)"
  let ?A = "\<lambda>v. mat_vec par F (\<lambda>j. dcoeff (v ! j))"
  note K = keygen_arith_spec [OF ok F s1 s2 k]
  note W = sign_commit_spec [OF ok F y w]
  obtain u where z: "length z = dsa_ell par" "\<forall>a \<in> set z. z_poly par a"
    and zc: "\<And>j n. j < dsa_ell par \<Longrightarrow> n < 256 \<Longrightarrow>
      modeq 8380417 (dcoeff (z ! j) n) (dcoeff (y ! j) n + ?N (dcoeff (s1 ! j)) n)"
    and h: "\<And>i. i < dsa_k par \<Longrightarrow> h ! i = hint_row par (u ! i) (w1 ! i)"
    and u: "\<And>i n. i < dsa_k par \<Longrightarrow> n < 256 \<Longrightarrow> \<bar>dcoeff (u ! i) n\<bar> < ?g \<and>
      modeq 8380417 (dcoeff (u ! i) n) (dcoeff (w0 ! i) n - ?N (dcoeff (s2 ! i)) n + ?N (dcoeff (t0 ! i)) n)"
    by (rule sign_respond_spec [OF ok c s1 s2 K(2) K(4) y W(4) r]) blast+
  obtain v where V: "\<And>i. i < dsa_k par \<Longrightarrow> verify_arith par mat c z t1 h ! i = poly_use_hint par (v i) (h ! i)"
    and v: "\<And>i n. i < dsa_k par \<Longrightarrow> n < 256 \<Longrightarrow> 0 \<le> dcoeff (v i) n \<and> dcoeff (v i) n < 8380417 \<and>
      modeq 8380417 (dcoeff (v i) n) (?A z i n - ?N (\<lambda>m. 8192 * dcoeff (t1 ! i) m) n)"
    by (rule verify_arith_spec [OF ok F c z K(1) K(3), of h]) blast+
  have val: "dcoeff (v i) n = (dcoeff (w1 ! i) n * ?g + dcoeff (u ! i) n) mod 8380417"
    if i: "i < dsa_k par" and n: "n < 256" for i n
  proof -
    have "modeq 8380417 (?A z i n) (mat_vec par F (\<lambda>j m. dcoeff (y ! j) m + ?N (dcoeff (s1 ! j)) m) i n)"
      by (rule mat_vec_modeq) (rule zc)
    also have "mat_vec par F (\<lambda>j m. dcoeff (y ! j) m + ?N (dcoeff (s1 ! j)) m) i n = ?A y i n + ?N (?A s1 i) n"
      unfolding mat_vec_add mat_vec_mult [OF n] ..
    finally have A: "modeq 8380417 (?A z i n) (?A y i n + ?N (?A s1 i) n)" .
    have "?N (\<lambda>m. 8192 * dcoeff (t1 ! i) m) n = ?N (\<lambda>m. dcoeff (t1 ! i) m * 8192 + dcoeff (t0 ! i) m) n - ?N (dcoeff (t0 ! i)) n"
      by (simp add: negacyclic_add_right mult.commute)
    also have "modeq 8380417 \<dots> (?N (\<lambda>m. ?A s1 i m + dcoeff (s2 ! i) m) n - ?N (dcoeff (t0 ! i)) n)"
      by (intro modeq_diff negacyclic_modeq modeq_refl K(5) i)
    also have "?N (\<lambda>m. ?A s1 i m + dcoeff (s2 ! i) m) n = ?N (?A s1 i) n + ?N (dcoeff (s2 ! i)) n"
      by (rule negacyclic_add_right)
    finally have B: "modeq 8380417 (?N (\<lambda>m. 8192 * dcoeff (t1 ! i) m) n)
        (?N (?A s1 i) n + ?N (dcoeff (s2 ! i)) n - ?N (dcoeff (t0 ! i)) n)" .
    have "modeq 8380417 (dcoeff (v i) n) (?A z i n - ?N (\<lambda>m. 8192 * dcoeff (t1 ! i) m) n)" using v [OF i n] by blast
    also have "modeq 8380417 \<dots> (?A y i n + ?N (?A s1 i) n - (?N (?A s1 i) n + ?N (dcoeff (s2 ! i)) n - ?N (dcoeff (t0 ! i)) n))"
      by (rule modeq_diff [OF A B])
    also have "\<dots> = ?A y i n - ?N (dcoeff (s2 ! i)) n + ?N (dcoeff (t0 ! i)) n" by simp
    finally have L: "modeq 8380417 (dcoeff (v i) n) (?A y i n - ?N (dcoeff (s2 ! i)) n + ?N (dcoeff (t0 ! i)) n)" .
    have "modeq 8380417 (dcoeff (w1 ! i) n * ?g + dcoeff (u ! i) n)
        (dcoeff (w1 ! i) n * ?g + (dcoeff (w0 ! i) n - ?N (dcoeff (s2 ! i)) n + ?N (dcoeff (t0 ! i)) n))"
      using u [OF i n] by (intro modeq_add modeq_refl) blast
    also have "\<dots> = (dcoeff (w1 ! i) n * ?g + dcoeff (w0 ! i) n) - ?N (dcoeff (s2 ! i)) n + ?N (dcoeff (t0 ! i)) n" by simp
    also have "modeq 8380417 \<dots> (?A y i n - ?N (dcoeff (s2 ! i)) n + ?N (dcoeff (t0 ! i)) n)"
      using W(5) [OF i n] by (intro modeq_add modeq_diff modeq_refl) blast
    finally have "modeq 8380417 (dcoeff (v i) n) (dcoeff (w1 ! i) n * ?g + dcoeff (u ! i) n)"
      using modeq_trans [OF L modeq_sym] by blast
    then show ?thesis using v [OF i n] by (simp add: modeq_def)
  qed
  show ?thesis
  proof (rule nth_equalityI)
    show lv: "length (verify_arith par mat c z t1 h) = length w1"
      using W(1) by (simp add: verify_arith_def polyveck_use_hint_def)
    fix i
    assume "i < length (verify_arith par mat c z t1 h)"
    then have i: "i < dsa_k par" using W(1) lv by simp
    show "verify_arith par mat c z t1 h ! i = w1 ! i" unfolding V [OF i]
    proof (rule nth_equalityI)
      show "length (poly_use_hint par (v i) (h ! i)) = length (w1 ! i)" using W(3) [OF i] by (simp add: poly_use_hint_def)
      fix n
      assume "n < length (poly_use_hint par (v i) (h ! i))"
      then have n: "n < 256" by (simp add: poly_use_hint_def split: if_splits)
      show "poly_use_hint par (v i) (h ! i) ! n = w1 ! i ! n"
      proof (rule poly_use_hint_nth [OF ok n])
        show "h ! i ! n = make_hint (u ! i ! n) (w1 ! i ! n) (dsa_gamma2 par)" using n by (simp add: h i hint_row_def)
        show "dcoeff (v i) n = (sint (w1 ! i ! n) * ?g + sint (u ! i ! n)) mod 8380417"
          using val [OF i n] by (simp add: dcoeff_def)
        show "0 \<le> sint (w1 ! i ! n)" "sint (w1 ! i ! n) < dsa_m par" using W(5) [OF i n] by (simp_all add: dcoeff_def)
        show "\<bar>sint (u ! i ! n)\<bar> < ?g" using u [OF i n] by (simp add: dcoeff_def)
      qed
    qed
  qed
qed

section \<open>Sampled vectors\<close>

lemma matrix_expand_rep:
  assumes "polyvec_matrix_expand par rho = Some mat"
  shows "\<exists>F. mat_rep par F mat"
proof (rule mat_rep_exists)
  fix i j
  assume "i < dsa_k par" "j < dsa_ell par"
  with assms obtain nonce where "poly_uniform rho nonce = Some (mat ! i ! j)"
    by (auto simp: polyvec_matrix_expand_def those_map_iff)
  from poly_uniform_range [OF this] show "dpoly_bounded 8380416 (mat ! i ! j)"
    by (force simp: dpoly_bounded_iff abs_le_iff)
qed

lemma uniform_eta_vec:
  assumes "mldsa_param_ok par" "those (map (\<lambda>i. poly_uniform_eta par seed (nonce + of_nat i)) [0..<n]) = Some s"
  shows "length s = n" "\<forall>a \<in> set s. dpoly_bounded (int (dsa_eta par)) a"
  using assms(2) poly_uniform_eta_bounded [OF assms(1)] by (force simp: those_map_iff in_set_conv_nth)+

lemma uniform_gamma1_vec:
  assumes "mldsa_param_ok par"
  shows "length (polyvecl_uniform_gamma1 par seed nonce) = dsa_ell par"
    and "\<forall>a \<in> set (polyvecl_uniform_gamma1 par seed nonce). z_poly par a"
  using assms by (auto simp: polyvecl_uniform_gamma1_def poly_uniform_gamma1_def Let_def case_prod_beta polyz_unpack_valid)

section \<open>The signing loop\<close>

text \<open>The loop returns exactly when some attempt succeeds after finitely many rejections, with that attempt's signature.\<close>

lemma mldsa_sign_loop_rejects:
  assumes "\<forall>m<n. sign_attempt par mat mu rhop s1 s2 t0 (nonce + of_nat m) = Some Sign_reject"
  shows "mldsa_sign_loop par mat mu rhop s1 s2 t0 nonce = mldsa_sign_loop par mat mu rhop s1 s2 t0 (nonce + of_nat n)"
  using assms
proof (induction n)
  case (Suc n)
  have "sign_attempt par mat mu rhop s1 s2 t0 (nonce + of_nat n) = Some Sign_reject" using Suc.prems by simp
  then have "mldsa_sign_loop par mat mu rhop s1 s2 t0 (nonce + of_nat n) =
      mldsa_sign_loop par mat mu rhop s1 s2 t0 (nonce + of_nat n + 1)"
    by (subst mldsa_sign_loop.simps) simp
  moreover have "nonce + of_nat n + 1 = nonce + of_nat (Suc n)" by simp
  ultimately show ?case using Suc by (simp only:) simp
qed simp

lemma mldsa_sign_loop_some:
  assumes "mldsa_sign_loop par mat mu rhop s1 s2 t0 nonce = Some sig"
  shows "\<exists>n c z h. (\<forall>m<n. sign_attempt par mat mu rhop s1 s2 t0 (nonce + of_nat m) = Some Sign_reject) \<and>
    sign_attempt par mat mu rhop s1 s2 t0 (nonce + of_nat n) = Some (Sign_done c z h) \<and> sig = pack_sig par c z h"
proof (rule mldsa_sign_loop.raw_induct [where P = "\<lambda>par mat mu rhop s1 s2 t0 nonce sig. \<exists>n c z h.
    (\<forall>m<n. sign_attempt par mat mu rhop s1 s2 t0 (nonce + of_nat m) = Some Sign_reject) \<and>
    sign_attempt par mat mu rhop s1 s2 t0 (nonce + of_nat n) = Some (Sign_done c z h) \<and> sig = pack_sig par c z h", OF _ assms])
  fix f par mat mu rhop s1 s2 t0 nonce sig
  assume IH: "\<And>par mat mu rhop s1 s2 t0 nonce sig. f par mat mu rhop s1 s2 t0 nonce = Some sig \<Longrightarrow> \<exists>n c z h.
      (\<forall>m<n. sign_attempt par mat mu rhop s1 s2 t0 (nonce + of_nat m) = Some Sign_reject) \<and>
      sign_attempt par mat mu rhop s1 s2 t0 (nonce + of_nat n) = Some (Sign_done c z h) \<and> sig = pack_sig par c z h"
    and body: "Option.bind (sign_attempt par mat mu rhop s1 s2 t0 nonce) (\<lambda>out.
       case out of Sign_reject \<Rightarrow> f par mat mu rhop s1 s2 t0 (nonce + 1)
       | Sign_done c z h \<Rightarrow> Some (pack_sig par c z h)) = Some sig"
  then obtain out where out: "sign_attempt par mat mu rhop s1 s2 t0 nonce = Some out" by (auto simp: bind_eq_Some_conv)
  show "\<exists>n c z h. (\<forall>m<n. sign_attempt par mat mu rhop s1 s2 t0 (nonce + of_nat m) = Some Sign_reject) \<and>
      sign_attempt par mat mu rhop s1 s2 t0 (nonce + of_nat n) = Some (Sign_done c z h) \<and> sig = pack_sig par c z h"
  proof (cases out)
    case Sign_reject
    then have "f par mat mu rhop s1 s2 t0 (nonce + 1) = Some sig" using body out by simp
    from IH [OF this] obtain n c z h where
      "\<forall>m<n. sign_attempt par mat mu rhop s1 s2 t0 (nonce + 1 + of_nat m) = Some Sign_reject"
      "sign_attempt par mat mu rhop s1 s2 t0 (nonce + 1 + of_nat n) = Some (Sign_done c z h)" "sig = pack_sig par c z h" by blast
    then show ?thesis using out Sign_reject
      by (intro exI [of _ "Suc n"] exI [of _ c] exI [of _ z] exI [of _ h]) (auto simp: All_less_Suc2 add.assoc)
  next
    case (Sign_done c z h)
    then show ?thesis using body out by (intro exI [of _ 0] exI [of _ c] exI [of _ z] exI [of _ h]) simp
  qed
qed

lemma mldsa_sign_loop_iff:
  "mldsa_sign_loop par mat mu rhop s1 s2 t0 nonce = Some sig \<longleftrightarrow>
    (\<exists>n c z h. (\<forall>m<n. sign_attempt par mat mu rhop s1 s2 t0 (nonce + of_nat m) = Some Sign_reject) \<and>
      sign_attempt par mat mu rhop s1 s2 t0 (nonce + of_nat n) = Some (Sign_done c z h) \<and> sig = pack_sig par c z h)"
    (is "?L \<longleftrightarrow> ?R")
proof
  assume ?R
  then obtain n c z h where n: "\<forall>m<n. sign_attempt par mat mu rhop s1 s2 t0 (nonce + of_nat m) = Some Sign_reject"
    and d: "sign_attempt par mat mu rhop s1 s2 t0 (nonce + of_nat n) = Some (Sign_done c z h)" "sig = pack_sig par c z h" by blast
  show ?L unfolding mldsa_sign_loop_rejects [OF n] using d by (subst mldsa_sign_loop.simps) simp
qed (rule mldsa_sign_loop_some)

text \<open>A successful attempt.\<close>

lemma sign_attempt_done:
  assumes "sign_attempt par mat mu rhop s1 s2 t0 nonce = Some (Sign_done c z h)"
  obtains w1 w0 cp where "sign_commit par mat (polyvecl_uniform_gamma1 par rhop nonce) = (w1, w0)"
    "c = shake256_two (dsa_cp_sz par) mu (take (dsa_k par * dsa_w1p_sz par) (polyveck_pack_w1 par w1))"
    "poly_challenge par c = Some cp"
    "sign_respond par s1 s2 t0 (mldsa_poly_ntt cp) (polyvecl_uniform_gamma1 par rhop nonce) w1 w0 = Some (z, h)"
proof -
  obtain w1 w0 where w: "sign_commit par mat (polyvecl_uniform_gamma1 par rhop nonce) = (w1, w0)" by fastforce
  define c' where "c' = shake256_two (dsa_cp_sz par) mu (take (dsa_k par * dsa_w1p_sz par) (polyveck_pack_w1 par w1))"
  from assms obtain cp where "poly_challenge par c' = Some cp" "c = c'"
    "sign_respond par s1 s2 t0 (mldsa_poly_ntt cp) (polyvecl_uniform_gamma1 par rhop nonce) w1 w0 = Some (z, h)"
    unfolding sign_attempt_def Let_def w prod.case c'_def [symmetric]
    by (auto simp: bind_eq_Some_conv split: option.splits)
  then show thesis by (intro that [OF w, of cp]) (simp_all add: c'_def)
qed

lemma shake256_two_eq: "shake256_two n a b = shake256 n (a @ b)"
  using shake256_finalize_absorbs [of keccak_fresh "[a, b]"] shake256_squeeze_once [of n "a @ b"]
  by (simp add: shake256_two_def keccak_fresh_def Let_def)

lemma length_shake256_two: "length (shake256_two n a b) = n"
  by (simp add: shake256_two_eq)

section \<open>Signatures verify\<close>

text \<open>The parts of a generated key pair, and that the signer and the verifier unpack them again.\<close>

lemma mldsa_keygen_parts:
  assumes ok: "mldsa_param_ok par" and K: "mldsa_keygen_internal par seed = Some (pk, sk)"
  obtains rho key tr mat F s1 s2 t1 t0 where "polyvec_matrix_expand par rho = Some mat" "mat_rep par F mat"
    and "length s1 = dsa_ell par" "\<forall>a \<in> set s1. dpoly_bounded (int (dsa_eta par)) a"
    and "length s2 = dsa_k par" "\<forall>a \<in> set s2. dpoly_bounded (int (dsa_eta par)) a"
    and "keygen_arith par mat s1 s2 = (t1, t0)" "tr = shake256 64 (take (dsa_pk_sz par) pk)"
    and "unpack_pk par pk = (rho, t1)" "unpack_sk par sk = (rho, tr, key, t0, s1, s2)"
    and "length pk = dsa_pk_sz par" "length sk = dsa_sk_sz par"
proof -
  define b where "b = shake256 128 (take 32 seed @ [of_nat (dsa_k par), of_nat (dsa_ell par)])"
  define rho rhop key where "rho = take 32 b" and "rhop = take 64 (drop 32 b)" and "key = take 32 (drop 96 b)"
  have len: "length rho = 32" "length key = 32" by (simp_all add: rho_def key_def b_def)
  obtain mat s1 s2 where mat: "polyvec_matrix_expand par rho = Some mat"
    and s1: "polyvecl_uniform_eta par rhop 0 = Some s1" and s2: "polyveck_uniform_eta par rhop (of_nat (dsa_ell par)) = Some s2"
    and pk': "Some (case keygen_arith par mat s1 s2 of (t1, t0) \<Rightarrow> let pk = pack_pk par rho t1;
       tr = shake256 64 (take (dsa_pk_sz par) pk); sk = pack_sk par rho tr key t0 s1 s2 in (pk, sk)) = Some (pk, sk)"
    using K unfolding mldsa_keygen_internal_def Let_def
    by (auto simp: bind_eq_Some_conv rho_def rhop_def key_def b_def case_prod_beta Let_def)
  obtain t1 t0 where t: "keygen_arith par mat s1 s2 = (t1, t0)" by fastforce
  define tr where "tr = shake256 64 (take (dsa_pk_sz par) pk)"
  have pk: "pk = pack_pk par rho t1" and sk: "sk = pack_sk par rho tr key t0 s1 s2"
    using pk' by (auto simp: t Let_def tr_def)
  obtain F where F: "mat_rep par F mat" using matrix_expand_rep [OF mat] by blast
  note S1 = uniform_eta_vec [OF ok s1 [unfolded polyvecl_uniform_eta_def]]
  note S2 = uniform_eta_vec [OF ok s2 [unfolded polyveck_uniform_eta_def]]
  note T = keygen_arith_spec [OF ok F S1 S2 t]
  have up: "unpack_pk par pk = (rho, t1)" unfolding pk using T(3) by (intro unpack_pack_pk len(1) T(1)) simp
  have us: "unpack_sk par sk = (rho, tr, key, t0, s1, s2)" and lsk: "length sk = sk_sz par"
    unfolding sk using S1 S2 T(2,4) len by (auto intro!: unpack_pack_sk ok simp: tr_def)
  have l: "length pk = dsa_pk_sz par" "length sk = dsa_sk_sz par"
    using lsk len(1) by (simp_all add: dsa_sizes [OF ok] pk length_pack_pk)
  show thesis by (rule that [OF mat F S1 S2 t tr_def up us l])
qed

lemma mldsa_sign_verify_aux:
  assumes ok: "mldsa_param_ok par"
    and K: "mldsa_keygen_internal par seed = Some (pk, sk)"
    and S: "mldsa_sign_internal par sk m rnd = Some (sig, sz)"
  shows "mldsa_verify_internal par pk m sig sz = Some True" "sz = dsa_sig_sz par" "length sig = dsa_sig_sz par"
proof -
  obtain rho key tr mat F s1 s2 t1 t0 where mat: "polyvec_matrix_expand par rho = Some mat" and F: "mat_rep par F mat"
    and S1: "length s1 = dsa_ell par" "\<forall>a \<in> set s1. dpoly_bounded (int (dsa_eta par)) a"
    and S2: "length s2 = dsa_k par" "\<forall>a \<in> set s2. dpoly_bounded (int (dsa_eta par)) a"
    and t: "keygen_arith par mat s1 s2 = (t1, t0)" and tr: "tr = shake256 64 (take (dsa_pk_sz par) pk)"
    and up: "unpack_pk par pk = (rho, t1)" and us: "unpack_sk par sk = (rho, tr, key, t0, s1, s2)"
    by (rule mldsa_keygen_parts [OF ok K])
  note T = keygen_arith_spec [OF ok F S1 S2 t]
  define mu where "mu = shake256_two 64 tr m"
  define rp where "rp = shake256 64 (key @ take 32 rnd @ mu)"
  have L: "mldsa_sign_loop par mat mu rp (polyvecl_ntt par s1) (polyveck_ntt par s2) (polyveck_ntt par t0) 0 = Some sig"
    and sz: "sz = dsa_sig_sz par"
    using S unfolding mldsa_sign_internal_def us prod.case Let_def mu_def [symmetric] rp_def [symmetric]
    by (simp_all add: mat bind_eq_Some_conv)
  from mldsa_sign_loop_some [OF L] obtain n c z h where
    d: "sign_attempt par mat mu rp (polyvecl_ntt par s1) (polyveck_ntt par s2) (polyveck_ntt par t0) (of_nat n) = Some (Sign_done c z h)"
    and sig: "sig = pack_sig par c z h" by auto
  define y where "y = polyvecl_uniform_gamma1 par rp (of_nat n)"
  note Y = uniform_gamma1_vec [OF ok, where seed = rp and nonce = "of_nat n", folded y_def]
  obtain w1 w0 cp where w: "sign_commit par mat y = (w1, w0)"
    and c: "c = shake256_two (dsa_cp_sz par) mu (take (dsa_k par * dsa_w1p_sz par) (polyveck_pack_w1 par w1))"
    and cp: "poly_challenge par c = Some cp"
    and r: "sign_respond par (polyvecl_ntt par s1) (polyveck_ntt par s2) (polyveck_ntt par t0) (mldsa_poly_ntt cp) y w1 w0 = Some (z, h)"
    unfolding y_def by (rule sign_attempt_done [OF d])
  have "dsa_tau par \<le> 256" using ok by (auto simp: mldsa_param_ok_def)
  then have C: "challenge_poly (dsa_tau par) cp" using cp by (intro poly_challenge_inv)
  obtain u :: dvec where z: "length z = dsa_ell par" "\<forall>a \<in> set z. z_poly par a"
      "\<not> polyvecl_chknorm par z (dsa_gamma1 par - dsa_beta par)" and h: "hint_ok par h"
    by (rule sign_respond_spec [OF ok C S1 S2 T(2) T(4) Y sign_commit_spec(4) [OF ok F Y w] r]) blast+
  have lc: "length c = dsa_cp_sz par" by (simp add: c length_shake256_two)
  show lsig: "length sig = dsa_sig_sz par" unfolding sig by (rule length_pack_sig [OF ok lc h])
  have us: "unpack_sig par sig = Some (c, z, h)"
    unfolding unpack_sig_iff [OF ok lsig] using lc z h sig by simp
  have v: "verify_arith par mat cp z t1 h = w1"
    by (rule verify_recovers [OF ok F C S1 S2 t Y w r])
  show "mldsa_verify_internal par pk m sig sz = Some True"
    unfolding mldsa_verify_internal_def up us prod.case option.case Let_def tr [symmetric] mu_def [symmetric]
    by (simp add: sz z(3) cp mat v list_all_iff flip: c)
  show "sz = dsa_sig_sz par" by (rule sz)
qed

end
