(* ===== verification/Dsa_Sign_Correct.thy ===== *)
theory Dsa_Sign_Correct
  imports Dsa_Sign_Verify
begin

text \<open>
  The properties of \<open>mldsa.c\<close>: signatures verify, when signing returns, what the verifier accepts and rejects, and
  the arithmetic against the rounding functions of FIPS 204.
\<close>

section \<open>What the verifier checks\<close>

lemma list_all_upt: "list_all P [0..<n] \<longleftrightarrow> (\<forall>m<n. P m)"
  by (auto simp: list_all_iff)

lemma chknorm_z_iff:
  assumes ok: "mldsa_param_ok par" and z: "length z = dsa_ell par" "\<forall>a \<in> set z. z_poly par a"
  shows "(\<not> polyvecl_chknorm par z (dsa_gamma1 par - dsa_beta par)) \<longleftrightarrow>
    list_all (\<lambda>a. length a = 256 \<and> list_all (\<lambda>x. \<bar>sint x\<bar> < sint (dsa_gamma1 par) - sint (dsa_beta par)) a) z"
proof -
  let ?b = "dsa_gamma1 par - dsa_beta par"
  have b: "sint ?b = sint (dsa_gamma1 par) - sint (dsa_beta par)" "sint ?b \<le> 1047552"
    using dsa_beta_bounds(1,2) [OF ok] ok by (auto simp: mldsa_param_ok_def)
  have p: "poly_chknorm a ?b \<longleftrightarrow> \<not> list_all (\<lambda>x. \<bar>sint x\<bar> < sint ?b) a" "length a = 256" if "a \<in> set z" for a
  proof -
    have a: "dpoly_bounded 524288 a" using z(2) that z_poly_bounded [OF ok] by blast
    then show l: "length a = 256" by (simp add: dpoly_bounded_def)
    have "dpoly_bounded 1073741823 a" using a by (rule dpoly_bounded_mono) simp
    from poly_chknorm_iff [OF this, of ?b] show "poly_chknorm a ?b \<longleftrightarrow> \<not> list_all (\<lambda>x. \<bar>sint x\<bar> < sint ?b) a"
      using b(2) l by (auto simp: list_all_length dcoeff_def not_less)
  qed
  have "(\<not> polyvecl_chknorm par z ?b) \<longleftrightarrow> (\<forall>a \<in> set z. \<not> poly_chknorm a ?b)"
    using z(1) by (auto simp: polyvecl_chknorm_def list_ex_iff all_set_conv_all_nth)
  also have "\<dots> \<longleftrightarrow> list_all (\<lambda>a. length a = 256 \<and> list_all (\<lambda>x. \<bar>sint x\<bar> < sint ?b) a) z"
    using p by (auto simp: list_all_iff [of _ z])
  finally show ?thesis unfolding b(1) .
qed

section \<open>Properties\<close>

text \<open>C2: signatures verify: whenever key generation and signing return, for every seed, message and randomness of the
  three parameter sets, the verifier accepts the signature under the public key: the response, the
  rounding and the hints of the signer give the verifier back the very commitment that was hashed,
  through all the byte encodings of keys and signature.\<close>

theorem mldsa_sign_verify:
  assumes "par \<in> set mldsa_par"
  shows "case mldsa_keygen_internal par seed of None \<Rightarrow> True | Some (pk, sk) \<Rightarrow>
    (case mldsa_sign_internal par sk m rnd of None \<Rightarrow> True | Some (sig, sz) \<Rightarrow>
      mldsa_verify_internal par pk m sig sz = Some True)"
  using mldsa_sign_verify_aux(1) [OF mldsa_par_ok [OF assms]] by (auto split: option.splits)

theorem mldsa_sign_verify_witness:
  "case mldsa_keygen_internal mldsa_65 (replicate 32 7) of None \<Rightarrow> True | Some (pk, sk) \<Rightarrow>
    (case mldsa_sign_internal mldsa_65 sk [1, 2, 3] (replicate 32 0) of None \<Rightarrow> True | Some (sig, sz) \<Rightarrow>
      mldsa_verify_internal mldsa_65 pk [1, 2, 3] sig sz = Some True)"
  using mldsa_sign_verify [of mldsa_65 "[1, 2, 3]" "replicate 32 0" "replicate 32 7"] by (simp add: mldsa_par_def)

text \<open>C7: when signing returns: exactly when the matrix is sampled and some attempt of the loop succeeds after finitely
  many rejected ones, the nonces counting up from 0; the result is the encoding of that attempt, and the
  size stored is the signature size.\<close>

theorem mldsa_sign_returns:
  "mldsa_sign_internal par sk m rnd = Some (sig, sz) \<longleftrightarrow>
   (case unpack_sk par sk of (rho, tr, key, t0, s1, s2) \<Rightarrow>
      \<exists>mat n c z h. polyvec_matrix_expand par rho = Some mat \<and>
        (let mu = shake256_two MLDSA_CRH_SZ tr m;
             attempt = \<lambda>k. sign_attempt par mat mu (shake256 MLDSA_CRH_SZ (key @ take MLDSA_RND_SZ rnd @ mu))
               (polyvecl_ntt par s1) (polyveck_ntt par s2) (polyveck_ntt par t0) (of_nat k)
         in list_all (\<lambda>k. attempt k = Some Sign_reject) [0..<n] \<and> attempt n = Some (Sign_done c z h)) \<and>
        sig = pack_sig par c z h \<and> sz = dsa_sig_sz par)"
proof -
  obtain rho tr key t0 s1 s2 where u: "unpack_sk par sk = (rho, tr, key, t0, s1, s2)" by (cases "unpack_sk par sk") auto
  show ?thesis
    unfolding mldsa_sign_internal_def u prod.case Let_def
    by (simp add: bind_eq_Some_conv mldsa_sign_loop_iff list_all_upt) blast
qed

text \<open>C4: what verification decides: for a string of the size of a signature it accepts exactly when the stored size is
  right, the string is the encoding of a challenge, a response and hints, every coefficient of the response is inside
  \<open>gamma1 - beta\<close>, and the challenge is the hash of the message representative and the commitment
  recomputed from the response; nothing else is accepted.\<close>

theorem mldsa_verify_correct:
  assumes "par \<in> set mldsa_par" "length sig = dsa_sig_sz par"
  shows "mldsa_verify_internal par pk m sig sz = Some True \<longleftrightarrow>
    sz = dsa_sig_sz par \<and>
    (\<exists>c z h cp mat. pack_sig par c z h = sig \<and> length c = dsa_cp_sz par \<and> length z = dsa_ell par \<and> hint_ok par h \<and>
      list_all (\<lambda>a. length a = 256 \<and> list_all (\<lambda>x. \<bar>sint x\<bar> < sint (dsa_gamma1 par) - sint (dsa_beta par)) a) z \<and>
      poly_challenge par c = Some cp \<and> polyvec_matrix_expand par (fst (unpack_pk par pk)) = Some mat \<and>
      c = shake256 (dsa_cp_sz par) (shake256 64 (shake256 64 (take (dsa_pk_sz par) pk) @ m) @
        take (dsa_k par * dsa_w1p_sz par) (polyveck_pack_w1 par (verify_arith par mat cp z (snd (unpack_pk par pk)) h))))"
proof -
  note ok = mldsa_par_ok [OF assms(1)]
  obtain rho t1 where pk: "unpack_pk par pk = (rho, t1)" by fastforce
  have l: "list_all (\<lambda>i. c ! i = c2 ! i) [0..<dsa_cp_sz par] \<longleftrightarrow> c = c2"
    if "length c = dsa_cp_sz par" "length c2 = dsa_cp_sz par" for c c2 :: "u8 list"
    using that by (auto simp: list_all_iff intro: nth_equalityI)
  have z: "\<forall>a \<in> set z. z_poly par a"
    if "list_all (\<lambda>a. length a = 256 \<and> list_all (\<lambda>x. \<bar>sint x\<bar> < sint (dsa_gamma1 par) - sint (dsa_beta par)) a) z" for z
    using that dsa_beta_bounds(2) [OF ok] by (force simp: list_all_length z_poly_def dcoeff_def in_set_conv_nth)
  have A: "(pack_sig par c z h = sig \<and> length c = dsa_cp_sz par \<and> length z = dsa_ell par \<and> hint_ok par h \<and>
      list_all (\<lambda>a. length a = 256 \<and> list_all (\<lambda>x. \<bar>sint x\<bar> < sint (dsa_gamma1 par) - sint (dsa_beta par)) a) z) \<longleftrightarrow>
      unpack_sig par sig = Some (c, z, h) \<and> \<not> polyvecl_chknorm par z (dsa_gamma1 par - dsa_beta par)" for c z h
    using unpack_sig_iff [OF ok assms(2), of c z h] chknorm_z_iff [OF ok, of z] z [of z] by blast
  have "mldsa_verify_internal par pk m sig sz = Some True \<longleftrightarrow> sz = dsa_sig_sz par \<and>
      (\<exists>c z h. (unpack_sig par sig = Some (c, z, h) \<and> \<not> polyvecl_chknorm par z (dsa_gamma1 par - dsa_beta par)) \<and>
        (\<exists>cp mat. poly_challenge par c = Some cp \<and> polyvec_matrix_expand par rho = Some mat \<and>
          c = shake256 (dsa_cp_sz par) (shake256 64 (shake256 64 (take (dsa_pk_sz par) pk) @ m) @
            take (dsa_k par * dsa_w1p_sz par) (polyveck_pack_w1 par (verify_arith par mat cp z t1 h)))))"
    (is "?V \<longleftrightarrow> _ \<and> (\<exists>c z h. ?U c z h \<and> ?C c z h)")
  proof (cases "unpack_sig par sig")
    case (Some czh)
    obtain c z h where u: "czh = (c, z, h)" by (cases czh) auto
    have lc: "length c = dsa_cp_sz par" using unpack_sig_iff [OF ok assms(2), of c z h] Some u by simp
    show ?thesis
      unfolding mldsa_verify_internal_def pk prod.case Let_def Some u option.case shake256_two_eq
      using l [OF lc] by (auto simp: bind_eq_Some_conv)
  qed (simp add: mldsa_verify_internal_def pk)
  then show ?thesis unfolding A [symmetric] pk fst_conv snd_conv by blast
qed


theorem mldsa_verify_correct_witness:
  "mldsa_verify_internal mldsa_44 (replicate 1312 9) [1] (replicate 2420 0) 17 \<noteq> Some True"
  using mldsa_verify_correct [of mldsa_44 "replicate 2420 0" "replicate 1312 9" "[1]" 17]
  by (simp add: mldsa_par_def) (simp add: mldsa_44_def)

text \<open>C23: the rejections of the verifier that need no hashing: a wrong size, a string that encodes no challenge, response
  and hints (among them every malformed hint area), or a response outside \<open>gamma1 - beta\<close> gives the
  result 0 at once, and the call returns.\<close>

theorem mldsa_verify_rejects:
  assumes "par \<in> set mldsa_par" "length sig = dsa_sig_sz par"
    and "sz \<noteq> dsa_sig_sz par \<or>
      (\<forall>c z h. length c = dsa_cp_sz par \<longrightarrow> length z = dsa_ell par \<longrightarrow> hint_ok par h \<longrightarrow>
        list_all (\<lambda>a. length a = 256 \<and> list_all (\<lambda>x. \<bar>sint x\<bar> < sint (dsa_gamma1 par) - sint (dsa_beta par)) a) z \<longrightarrow>
        pack_sig par c z h \<noteq> sig)"
  shows "mldsa_verify_internal par pk m sig sz = Some False"
proof -
  note ok = mldsa_par_ok [OF assms(1)]
  show ?thesis
  proof (cases "unpack_sig par sig")
    case (Some czh)
    obtain c z h where u: "czh = (c, z, h)" by (cases czh) auto
    have v: "length c = dsa_cp_sz par" "length z = dsa_ell par" "\<forall>a \<in> set z. z_poly par a" "hint_ok par h" "pack_sig par c z h = sig"
      using unpack_sig_iff [OF ok assms(2), of c z h] Some u by simp_all
    then have "sz \<noteq> dsa_sig_sz par \<or> polyvecl_chknorm par z (dsa_gamma1 par - dsa_beta par)"
      using assms(3) chknorm_z_iff [OF ok v(2,3)] by blast
    then show ?thesis by (auto simp: mldsa_verify_internal_def Some u case_prod_beta)
  qed (simp add: mldsa_verify_internal_def case_prod_beta)
qed

text \<open>A signature of zeroes but for its last byte, a running total of 81, more than the 80 positions there are.\<close>

lemma bad_hint_total: "unpack_sig mldsa_44 (replicate 2419 0 @ [81]) = None"
proof -
  have r: "unpack_hint_row s 0 0 0 h = Some h" for s h by (subst unpack_hint_row.simps) simp
  have "unpack_hint mldsa_44 (replicate 83 0 @ [81]) = None"
    by (simp add: unpack_hint_def mldsa_44_def upt_rec nth_append r)
  then show ?thesis by (simp add: unpack_sig_def Let_def) (simp add: mldsa_44_def)
qed

theorem mldsa_verify_rejects_witness:
  "mldsa_verify_internal mldsa_44 (replicate 1312 9) [1] (replicate 2419 0 @ [81]) 2420 = Some False"
proof -
  have p: "mldsa_44 \<in> set mldsa_par" by (simp add: mldsa_par_def)
  have l: "length (replicate 2419 0 @ [81 :: u8]) = dsa_sig_sz mldsa_44" by (simp add: mldsa_44_def)
  have z: "\<forall>a \<in> set z. z_poly mldsa_44 a"
    if "list_all (\<lambda>a. length a = 256 \<and> list_all (\<lambda>x. \<bar>sint x\<bar> < sint (dsa_gamma1 mldsa_44) - sint (dsa_beta mldsa_44)) a) z" for z
    using that by (force simp: list_all_length z_poly_def dcoeff_def in_set_conv_nth mldsa_44_def)
  have "pack_sig mldsa_44 c z' h \<noteq> replicate 2419 0 @ [81]"
    if "length c = dsa_cp_sz mldsa_44" "length z' = dsa_ell mldsa_44" "hint_ok mldsa_44 h" "\<forall>a \<in> set z'. z_poly mldsa_44 a" for c z' h
    using unpack_sig_iff [OF mldsa_par_ok [OF p] l, of c z' h] that bad_hint_total by auto
  then show ?thesis using z by (intro mldsa_verify_rejects [OF p l] disjI2) blast
qed

text \<open>C8: the arithmetic of the verifier: for the polynomials \<open>F\<close> the sampled matrix stands for, coefficient \<open>n\<close> of entry \<open>i\<close>
  of its result is \<open>UseHint\<close> of FIPS 204 applied to \<open>A z - c t1 2^d\<close>, computed without any overflow.\<close>

theorem mldsa_verify_arith_correct:
  assumes "par \<in> set mldsa_par" "mat_rep par F mat" "challenge_poly (dsa_tau par) c"
    and "length z = dsa_ell par" "\<forall>a \<in> set z. z_poly par a" "length t1 = dsa_k par" "\<forall>a \<in> set t1. t1_poly a"
    and "i < dsa_k par" "n < 256"
  shows "sint (verify_arith par mat c z t1 h ! i ! n) =
    use_hint_spec (sint (dsa_gamma2 par)) (h ! i ! n \<noteq> 0)
      (mat_vec par F (\<lambda>j. dcoeff (z ! j)) i n - negacyclic 256 (dcoeff c) (\<lambda>m. 8192 * dcoeff (t1 ! i) m) n)"
proof -
  note ok = mldsa_par_ok [OF assms(1)]
  let ?e = "mat_vec par F (\<lambda>j. dcoeff (z ! j)) i n - negacyclic 256 (dcoeff c) (\<lambda>m. 8192 * dcoeff (t1 ! i) m) n"
  obtain r where V: "verify_arith par mat c z t1 h ! i = poly_use_hint par (r i) (h ! i)"
    and r: "0 \<le> dcoeff (r i) n" "dcoeff (r i) n < 8380417" "modeq 8380417 (dcoeff (r i) n) ?e"
    by (rule verify_arith_spec [OF ok assms(2-7), of h]) (use assms(8,9) in blast)
  have "dcoeff (verify_arith par mat c z t1 h ! i) n = use_hint_spec (sint (dsa_gamma2 par)) (h ! i ! n \<noteq> 0) (dcoeff (r i) n)"
    unfolding V by (rule poly_use_hint_coeff [OF ok r(1,2) assms(9)])
  also have "\<dots> = use_hint_spec (sint (dsa_gamma2 par)) (h ! i ! n \<noteq> 0) ?e"
    using r(3) by (simp add: use_hint_spec_def decompose_spec_def modeq_def)
  finally show ?thesis by (simp add: dcoeff_def)
qed

text \<open>A matrix of constant polynomials: the transform of a constant has that constant everywhere.\<close>

lemma mat_rep_const:
  "mat_rep mldsa_44 (\<lambda>i j n. if n = 0 then 5 else 0) (replicate 4 (replicate 4 (replicate 256 5)))"
proof -
  have "ntt_eval dsa_root 8 (\<lambda>n. if n = 0 then 5 else 0) 8 k 0 = 5" for k
  proof -
    have "ntt_eval dsa_root 8 (\<lambda>n. if n = 0 then 5 else 0) 8 k 0 =
        (\<Sum>t<256. if t = 0 then 5 * gam dsa_root (256 + k) ^ t else 0)"
      unfolding ntt_eval_def by (rule sum.cong) auto
    then show ?thesis by simp
  qed
  then have "dsa_rep 8380416 1 (\<lambda>n. if n = 0 then 5 else 0) (replicate 256 5)"
    by (simp add: dsa_rep_def layer_rep_def dcoeff_def replicate_dbounded)
  then show ?thesis by (simp add: mat_rep_def mldsa_44_def)
qed

lemma challenge_poly_ones: "challenge_poly 39 (replicate 39 1 @ replicate 217 0)"
proof -
  have "{i. i < 256 \<and> (replicate 39 1 @ replicate 217 0 :: dpoly) ! i \<noteq> 0} = {..<39}" by (auto simp: nth_append)
  then show ?thesis by (simp add: challenge_poly_def nth_append)
qed

theorem mldsa_verify_arith_correct_witness:
  "sint (verify_arith mldsa_44 (replicate 4 (replicate 4 (replicate 256 5))) (replicate 39 1 @ replicate 217 0)
      (replicate 4 (replicate 256 1000)) (replicate 4 (replicate 256 1023)) (replicate 4 (replicate 256 1)) ! 2 ! 100) =
    use_hint_spec 95232 True
      (mat_vec mldsa_44 (\<lambda>i j n. if n = 0 then 5 else 0) (\<lambda>j. dcoeff (replicate 4 (replicate 256 1000) ! j)) 2 100
        - negacyclic 256 (dcoeff (replicate 39 1 @ replicate 217 0))
            (\<lambda>m. 8192 * dcoeff (replicate 4 (replicate 256 1023) ! 2) m) 100)"
proof -
  have "mldsa_44 \<in> set mldsa_par" "dsa_tau mldsa_44 = 39" "dsa_ell mldsa_44 = 4" "dsa_k mldsa_44 = 4"
    "sint (dsa_gamma2 mldsa_44) = 95232" "z_poly mldsa_44 (replicate 256 1000)" "t1_poly (replicate 256 1023)"
    by (simp_all add: mldsa_par_def z_poly_def t1_poly_def dcoeff_def) (simp_all add: mldsa_44_def)
  then show ?thesis
    using mldsa_verify_arith_correct [of mldsa_44, OF _ mat_rep_const, of "replicate 39 1 @ replicate 217 0"
        "replicate 4 (replicate 256 1000)" "replicate 4 (replicate 256 1023)" 2 100 "replicate 4 (replicate 256 1)"]
      challenge_poly_ones by simp
qed

text \<open>C22: the arithmetic of key generation: coefficient \<open>n\<close> of entry \<open>i\<close> of the two results is \<open>Power2Round\<close> of FIPS 204
  applied to \<open>A s1 + s2\<close>, exactly; the final correction is enough because the inverse transform leaves
  its result far below \<open>q\<close>.\<close>

theorem mldsa_keygen_arith_correct:
  assumes "par \<in> set mldsa_par" "mat_rep par F mat" "length s1 = dsa_ell par" "length s2 = dsa_k par"
    and "\<forall>a \<in> set s1. dpoly_bounded (int (dsa_eta par)) a" "\<forall>a \<in> set s2. dpoly_bounded (int (dsa_eta par)) a"
    and "i < dsa_k par" "n < 256"
  shows "(sint (fst (keygen_arith par mat s1 s2) ! i ! n), sint (snd (keygen_arith par mat s1 s2) ! i ! n)) =
    power2round_spec (mat_vec par F (\<lambda>j. dcoeff (s1 ! j)) i n + sint (s2 ! i ! n))"
proof -
  obtain t1 t0 where t: "keygen_arith par mat s1 s2 = (t1, t0)" by fastforce
  show ?thesis
    using keygen_arith_spec(6) [OF mldsa_par_ok [OF assms(1)] assms(2,3,5,4,6) t assms(7,8)] by (simp add: t dcoeff_def)
qed

theorem mldsa_keygen_arith_correct_witness:
  "(sint (fst (keygen_arith mldsa_44 (replicate 4 (replicate 4 (replicate 256 5))) (replicate 4 (replicate 256 1))
       (replicate 4 (replicate 256 (- 2)))) ! 3 ! 7),
    sint (snd (keygen_arith mldsa_44 (replicate 4 (replicate 4 (replicate 256 5))) (replicate 4 (replicate 256 1))
       (replicate 4 (replicate 256 (- 2)))) ! 3 ! 7)) =
   power2round_spec (mat_vec mldsa_44 (\<lambda>i j n. if n = 0 then 5 else 0) (\<lambda>j. dcoeff (replicate 4 (replicate 256 1) ! j)) 3 7 - 2)"
proof -
  have "mldsa_44 \<in> set mldsa_par" "dsa_eta mldsa_44 = 2" "dsa_ell mldsa_44 = 4" "dsa_k mldsa_44 = 4"
    by (simp_all add: mldsa_par_def) (simp_all add: mldsa_44_def)
  then show ?thesis
    using mldsa_keygen_arith_correct [of mldsa_44, OF _ mat_rep_const, of "replicate 4 (replicate 256 1)" "replicate 4 (replicate 256 (- 2))" 3 7]
      replicate_dbounded [of 1 2] replicate_dbounded [of "- 2" 2] by simp
qed

text \<open>C40: the sizes of the parameter sets are those of the objects: whenever the calls return, the keys and the signature
  have the sizes stated, and the size stored is the size of the signature.\<close>

theorem mldsa_sizes:
  assumes "par \<in> set mldsa_par"
  shows "case mldsa_keygen_internal par seed of None \<Rightarrow> True | Some (pk, sk) \<Rightarrow>
    length pk = dsa_pk_sz par \<and> length sk = dsa_sk_sz par \<and>
    (case mldsa_sign_internal par sk m rnd of None \<Rightarrow> True | Some (sig, sz) \<Rightarrow>
      sz = dsa_sig_sz par \<and> length sig = dsa_sig_sz par)"
proof (cases "mldsa_keygen_internal par seed")
  case (Some k)
  note ok = mldsa_par_ok [OF assms]
  obtain pk sk where k: "mldsa_keygen_internal par seed = Some (pk, sk)" using Some by (cases k) auto
  have "length pk = dsa_pk_sz par" "length sk = dsa_sk_sz par" by (rule mldsa_keygen_parts [OF ok k], simp)+
  then show ?thesis using mldsa_sign_verify_aux(2,3) [OF ok k] by (auto simp: k split: option.splits)
qed simp

theorem mldsa_sizes_witness:
  "case mldsa_keygen_internal mldsa_87 (replicate 32 1) of None \<Rightarrow> True | Some (pk, sk) \<Rightarrow> length pk = 2592 \<and> length sk = 4896 \<and>
    (case mldsa_sign_internal mldsa_87 sk [] (replicate 32 2) of None \<Rightarrow> True | Some (sig, sz) \<Rightarrow> sz = 4627 \<and> length sig = 4627)"
proof -
  have "mldsa_87 \<in> set mldsa_par" "dsa_pk_sz mldsa_87 = 2592" "dsa_sk_sz mldsa_87 = 4896" "dsa_sig_sz mldsa_87 = 4627"
    by (simp_all add: mldsa_par_def) (simp_all add: mldsa_87_def)
  then show ?thesis
    using mldsa_sizes [of mldsa_87, where seed = "replicate 32 1" and m = "[]" and rnd = "replicate 32 2"]
    by (auto split: option.splits)
qed

end
