(* ===== verification/Rvv.thy ===== *)
theory Rvv
  imports Ntt_Layer Rej_Sampling Bits
begin

text \<open>
  The intrinsics of \<open>riscv_vector.h\<close> the vector kernels use, one instruction of the RISC-V V extension
  each.  A vector value is the list of its active lanes; the element width is the width of its words.
  The kernels fix \<open>VLEN = 256\<close> (\<open>README.md\<close>, their \<open>vl\<close> constants), so a register group has
  \<open>VLMAX\<close> = \<open>256 * LMUL\<close> divided by the element width lanes, and a kernel that asks for all of them leaves no
  lane unspecified.  Type and policy suffixes of the C names are dropped; the \<open>vl\<close> argument is kept
  where the number of lanes does not follow from an operand.
\<close>

section \<open>Arithmetic, lane by lane\<close>

definition vadd_vv :: "'a::len word list \<Rightarrow> 'a word list \<Rightarrow> 'a word list" where
  "vadd_vv x y = map2 (\<lambda>a b. a + b) x y"

definition vadd_vx :: "'a::len word list \<Rightarrow> 'a word \<Rightarrow> 'a word list" where
  "vadd_vx x c = map (\<lambda>a. a + c) x"

definition vsub_vv :: "'a::len word list \<Rightarrow> 'a word list \<Rightarrow> 'a word list" where
  "vsub_vv x y = map2 (\<lambda>a b. a - b) x y"

definition vmul_vv :: "'a::len word list \<Rightarrow> 'a word list \<Rightarrow> 'a word list" where
  "vmul_vv x y = map2 (\<lambda>a b. a * b) x y"

definition vmul_vx :: "'a::len word list \<Rightarrow> 'a word \<Rightarrow> 'a word list" where
  "vmul_vx x c = map (\<lambda>a. a * c) x"

text \<open>The high half of the signed product.\<close>

definition mulh :: "'a::len word \<Rightarrow> 'a word \<Rightarrow> 'a word" where
  "mulh a b = word_of_int (sint a * sint b div 2 ^ LENGTH('a))"

definition vmulh_vv :: "'a::len word list \<Rightarrow> 'a word list \<Rightarrow> 'a word list" where
  "vmulh_vv x y = map2 mulh x y"

definition vmulh_vx :: "'a::len word list \<Rightarrow> 'a word \<Rightarrow> 'a word list" where
  "vmulh_vx x c = map (\<lambda>a. mulh a c) x"

text \<open>Widening signed products, narrowing, widening.\<close>

definition vwmul_vv :: "'a::len word list \<Rightarrow> 'a word list \<Rightarrow> 'b::len word list" where
  "vwmul_vv x y = map2 (\<lambda>a b. scast a * scast b) x y"

definition vwmul_vx :: "'a::len word list \<Rightarrow> 'a word \<Rightarrow> 'b::len word list" where
  "vwmul_vx x c = map (\<lambda>a. scast a * scast c) x"

definition vncvt_x_x_w :: "'b::len word list \<Rightarrow> 'a::len word list" where
  "vncvt_x_x_w x = map scast x"

definition vnsra_wx :: "'b::len word list \<Rightarrow> nat \<Rightarrow> 'a::len word list" where
  "vnsra_wx x n = map (\<lambda>a. scast (sar a n)) x"

definition vzext_vf4 :: "'a::len word list \<Rightarrow> 'b::len word list" where
  "vzext_vf4 x = map ucast x"

definition vsext_vf2 :: "'a::len word list \<Rightarrow> 'b::len word list" where
  "vsext_vf2 x = map scast x"

text \<open>Bitwise operations and shifts; the vector shifts use the low bits of the amount only.\<close>

definition vand_vx :: "'a::len word list \<Rightarrow> 'a word \<Rightarrow> 'a word list" where
  "vand_vx x c = map (\<lambda>a. a AND c) x"

definition vor_vv :: "'a::len word list \<Rightarrow> 'a word list \<Rightarrow> 'a word list" where
  "vor_vv x y = map2 (\<lambda>a b. a OR b) x y"

definition vxor_vv :: "'a::len word list \<Rightarrow> 'a word list \<Rightarrow> 'a word list" where
  "vxor_vv x y = map2 (\<lambda>a b. a XOR b) x y"

definition vxor_vx :: "'a::len word list \<Rightarrow> 'a word \<Rightarrow> 'a word list" where
  "vxor_vx x c = map (\<lambda>a. a XOR c) x"

definition vsrl_vx :: "'a::len word list \<Rightarrow> nat \<Rightarrow> 'a word list" where
  "vsrl_vx x n = map (\<lambda>a. shr a (n mod LENGTH('a))) x"

definition vsll_vx :: "'a::len word list \<Rightarrow> nat \<Rightarrow> 'a word list" where
  "vsll_vx x n = map (\<lambda>a. shl a (n mod LENGTH('a))) x"

definition vsra_vx :: "'a::len word list \<Rightarrow> nat \<Rightarrow> 'a word list" where
  "vsra_vx x n = map (\<lambda>a. sar a (n mod LENGTH('a))) x"

definition vsrl_vv :: "'a::len word list \<Rightarrow> 'a word list \<Rightarrow> 'a word list" where
  "vsrl_vv x y = map2 (\<lambda>a s. shr a (unat s mod LENGTH('a))) x y"

definition vsll_vv :: "'a::len word list \<Rightarrow> 'a word list \<Rightarrow> 'a word list" where
  "vsll_vv x y = map2 (\<lambda>a s. shl a (unat s mod LENGTH('a))) x y"

section \<open>Masks\<close>

definition vmsne_vx :: "'a::len word list \<Rightarrow> 'a word \<Rightarrow> bool list" where
  "vmsne_vx x c = map (\<lambda>a. a \<noteq> c) x"

definition vmseq_vx :: "'a::len word list \<Rightarrow> 'a word \<Rightarrow> bool list" where
  "vmseq_vx x c = map (\<lambda>a. a = c) x"

definition vmslt_vx :: "'a::len word list \<Rightarrow> 'a word \<Rightarrow> bool list" where
  "vmslt_vx x c = map (\<lambda>a. sint a < sint c) x"

definition vmsge_vx :: "'a::len word list \<Rightarrow> 'a word \<Rightarrow> bool list" where
  "vmsge_vx x c = map (\<lambda>a. sint c \<le> sint a) x"

definition vmsltu_vx :: "'a::len word list \<Rightarrow> 'a word \<Rightarrow> bool list" where
  "vmsltu_vx x c = map (\<lambda>a. a < c) x"

definition vcpop_m :: "bool list \<Rightarrow> nat" where
  "vcpop_m m = length (filter id m)"

text \<open>Addition with carry in; masked operations that keep the inactive lanes of \<open>old\<close>; selection.\<close>

definition vadc_vvm :: "'a::len word list \<Rightarrow> 'a word list \<Rightarrow> bool list \<Rightarrow> 'a word list" where
  "vadc_vvm x y m = map2 (\<lambda>(a, b) c. a + b + of_bool c) (zip x y) m"

definition vadd_vx_mu :: "bool list \<Rightarrow> 'a::len word list \<Rightarrow> 'a word list \<Rightarrow> 'a word \<Rightarrow> 'a word list" where
  "vadd_vx_mu m old x c = map2 (\<lambda>b (d, a). if b then a + c else d) m (zip old x)"

definition vsub_vx_mu :: "bool list \<Rightarrow> 'a::len word list \<Rightarrow> 'a word list \<Rightarrow> 'a word \<Rightarrow> 'a word list" where
  "vsub_vx_mu m old x c = map2 (\<lambda>b (d, a). if b then a - c else d) m (zip old x)"

definition vmerge_vvm :: "'a list \<Rightarrow> 'a list \<Rightarrow> bool list \<Rightarrow> 'a list" where
  "vmerge_vvm x y m = map2 (\<lambda>(a, b) c. if c then b else a) (zip x y) m"

text \<open>The selected lanes, packed; the lanes above them are never stored.\<close>

definition vcompress_vm :: "'a list \<Rightarrow> bool list \<Rightarrow> 'a list" where
  "vcompress_vm x m = map fst (filter snd (zip x m))"

section \<open>Permutations\<close>

definition vid_v :: "nat \<Rightarrow> 'a::len word list" where
  "vid_v vl = map of_nat [0..<vl]"

text \<open>An index past the register group reads 0.\<close>

definition vrgather_vv :: "'a::len word list \<Rightarrow> 'b::len word list \<Rightarrow> 'a word list" where
  "vrgather_vv x idx = map (\<lambda>i. if unat i < length x then x ! unat i else 0) idx"

definition vslidedown_vx :: "'a::len word list \<Rightarrow> nat \<Rightarrow> 'a word list" where
  "vslidedown_vx x n = map (\<lambda>i. if i + n < length x then x ! (i + n) else 0) [0..<length x]"

definition vslideup_vx :: "'a::len word list \<Rightarrow> 'a word list \<Rightarrow> nat \<Rightarrow> 'a word list" where
  "vslideup_vx dest x n = map (\<lambda>i. if i < n then dest ! i else x ! (i - n)) [0..<length x]"

text \<open>Register \<open>i\<close> of a group of registers of \<open>vl\<close> lanes, the group made of two registers, and lane 0.\<close>

definition vget_v :: "nat \<Rightarrow> 'a list \<Rightarrow> nat \<Rightarrow> 'a list" where
  "vget_v vl v i = take vl (drop (i * vl) v)"

definition vcreate_v :: "'a list \<Rightarrow> 'a list \<Rightarrow> 'a list" where
  "vcreate_v a b = a @ b"

definition vmv_x_s :: "'a list \<Rightarrow> 'a" where
  "vmv_x_s v = v ! 0"

section \<open>Memory\<close>

definition vle :: "'a list \<Rightarrow> nat \<Rightarrow> nat \<Rightarrow> 'a list" where
  "vle p off vl = take vl (drop off p)"

definition vse :: "'a list \<Rightarrow> nat \<Rightarrow> 'a list \<Rightarrow> nat \<Rightarrow> 'a list" where
  "vse p off v vl = overwrite off (take vl v) p"

text \<open>Sixteen-bit little-endian words read from a byte array.\<close>

definition vle16_bytes :: "u8 list \<Rightarrow> nat \<Rightarrow> nat \<Rightarrow> u16 list" where
  "vle16_bytes p off vl = map (\<lambda>i. zext16 (p ! (off + 2 * i)) OR shl (zext16 (p ! (off + 2 * i + 1))) 8) [0..<vl]"

text \<open>Segment loads and stores: field \<open>f\<close> of \<open>n\<close> interleaved fields, and the strided store.\<close>

definition vlseg_field :: "nat \<Rightarrow> 'a list \<Rightarrow> nat \<Rightarrow> nat \<Rightarrow> nat \<Rightarrow> 'a list" where
  "vlseg_field n p off vl f = map (\<lambda>i. p ! (off + n * i + f)) [0..<vl]"

definition vsse :: "'a list \<Rightarrow> nat \<Rightarrow> nat \<Rightarrow> 'a list \<Rightarrow> nat \<Rightarrow> 'a list" where
  "vsse p off stride v vl = fold (\<lambda>i p. p[off + stride * i := v ! i]) [0..<vl] p"

definition vsseg2 :: "'a list \<Rightarrow> nat \<Rightarrow> 'a list \<Rightarrow> 'a list \<Rightarrow> nat \<Rightarrow> 'a list" where
  "vsseg2 p off v0 v1 vl = fold (\<lambda>i p. p[off + 2 * i := v0 ! i, off + 2 * i + 1 := v1 ! i]) [0..<vl] p"

end
