(* ===== verification/Dsa_Rvv.thy ===== *)
theory Dsa_Rvv
  imports Rvv Dsa_Ntt Dsa_Sample
begin

text \<open>
  \<open>tools/pqc/mldsa/rvv_poly.c\<close>: the vector kernels of ML-DSA, rejection sampling of uniform coefficients and
  the two transforms, in the build with \<open>MLDSA_RVV == 1\<close>.  Vectors of eight 32-bit lanes; the functions carry
  the prefix \<open>rvv_\<close> where the scalar build has one of the same name.
\<close>

section \<open>Rejection sampling\<close>

text \<open>Eight candidates of three bytes at a time; both branches store at most \<open>len - ctr\<close> lanes.\<close>

definition rvv_mldsa_candidates :: "u8 list \<Rightarrow> nat \<Rightarrow> u32 list" where
  "rvv_mldsa_candidates buf pos =
     (let x = vzext_vf4 (vlseg_field 3 buf pos 8 0);
          x = vor_vv x (vsll_vx (vzext_vf4 (vlseg_field 3 buf pos 8 1)) 8);
          x = vor_vv x (vsll_vx (vzext_vf4 (vlseg_field 3 buf pos 8 2)) 16)
      in vand_vx x 0x7FFFFF)"

text \<open>The vector loop: the array, the counter and the position it stops at.\<close>

function rvv_mldsa_rej_loop :: "i32 list \<Rightarrow> nat \<Rightarrow> nat \<Rightarrow> u8 list \<Rightarrow> nat \<Rightarrow> nat \<Rightarrow> nat \<Rightarrow> i32 list \<times> nat \<times> nat" where
  "rvv_mldsa_rej_loop a off len buf buflen ctr pos =
     (if ctr < len \<and> pos + 24 \<le> buflen
      then (let x = rvv_mldsa_candidates buf pos;
                lt = vmsltu_vx x MLDSA_PAR_Q;
                n = vcpop_m lt
            in if n = 8
               then (let store_n = (if len - ctr < 8 then len - ctr else 8)
                     in rvv_mldsa_rej_loop (vse a (off + ctr) x store_n) off len buf buflen (ctr + store_n) (pos + 24))
               else (let y = vcompress_vm x lt;
                         n = (if ctr + n > len then len - ctr else n)
                     in rvv_mldsa_rej_loop (vse a (off + ctr) y n) off len buf buflen (ctr + n) (pos + 24)))
      else (a, ctr, pos))"
  by pat_completeness auto
termination
  by (relation "measure (\<lambda>(a, off, len, buf, buflen, ctr, pos). buflen - pos)") auto

definition rvv_mldsa_rej_uniform :: "i32 list \<Rightarrow> nat \<Rightarrow> nat \<Rightarrow> u8 list \<Rightarrow> nat \<Rightarrow> i32 list \<times> nat" where
  "rvv_mldsa_rej_uniform a off len buf buflen =
     (let (a, ctr, pos) = rvv_mldsa_rej_loop a off len buf buflen 0 0
      in mldsa_rej_uniform_loop a off len buf buflen ctr pos)"

section \<open>Reduction and butterflies\<close>

definition mldsa_fq_redc2 :: "i64 list \<Rightarrow> i32 list" where
  "mldsa_fq_redc2 a =
     (let t = vncvt_x_x_w a :: i32 list;
          t = vmul_vx t 58728449;
          a = vsub_vv a (vwmul_vx t MLDSA_PAR_Q);
          t = vnsra_wx a 32
      in t)"

text \<open>The butterfly macros, with a scalar (\<open>X\<close>) or a vector (\<open>V\<close>) of table entries.\<close>

definition RVV_BFLY_FX2 :: "i32 list \<Rightarrow> i32 list \<Rightarrow> i32 \<Rightarrow> i32 list \<times> i32 list" where
  "RVV_BFLY_FX2 u0 u1 uz =
     (let ut = mldsa_fq_redc2 (vwmul_vx u1 uz);
          u1 = vsub_vv u0 ut;
          u0 = vadd_vv u0 ut
      in (u0, u1))"

definition RVV_BFLY_FV2 :: "i32 list \<Rightarrow> i32 list \<Rightarrow> i32 list \<Rightarrow> i32 list \<times> i32 list" where
  "RVV_BFLY_FV2 u0 u1 uz =
     (let ut = mldsa_fq_redc2 (vwmul_vv u1 uz);
          u1 = vsub_vv u0 ut;
          u0 = vadd_vv u0 ut
      in (u0, u1))"

definition RVV_BFLY_RX2 :: "i32 list \<Rightarrow> i32 list \<Rightarrow> i32 \<Rightarrow> i32 list \<times> i32 list" where
  "RVV_BFLY_RX2 u0 u1 uz =
     (let ut = vsub_vv u0 u1;
          u0 = vadd_vv u0 u1;
          u1 = mldsa_fq_redc2 (vwmul_vx ut uz)
      in (u0, u1))"

definition RVV_BFLY_RV2 :: "i32 list \<Rightarrow> i32 list \<Rightarrow> i32 list \<Rightarrow> i32 list \<times> i32 list" where
  "RVV_BFLY_RV2 u0 u1 uz =
     (let ut = vsub_vv u0 u1;
          u0 = vadd_vv u0 u1;
          u1 = mldsa_fq_redc2 (vwmul_vv ut uz)
      in (u0, u1))"

text \<open>The permutation that swaps bits \<open>a\<close> and \<open>b\<close> of an index.\<close>

definition mldsa_bitswap_perm :: "nat \<Rightarrow> nat \<Rightarrow> nat \<Rightarrow> u32 list" where
  "mldsa_bitswap_perm a b vl =
     (let v2id = vid_v vl;
          xa = vsrl_vx v2id (b - a);
          xa = vxor_vv xa v2id;
          xa = vand_vx xa (shl 1 a);
          xb = vsll_vx xa (b - a);
          xa = vxor_vv xa xb;
          xa = vxor_vv v2id xa
      in xa)"

section \<open>Tables\<close>

definition rvv_zeta :: "i32 list" where
  "rvv_zeta = [
    2091667, 3407706, 2316500, 3817976, -3342478, 2244091, -2446433, -3562462,
    2725464, 2706023, 95776, -3930395, -1528703, -3677745, -3041255, 0,
    266997, 2434439, -1235728, 3513181, -3520352, -3759364, -1197226, -3193378,
    1024112, 3077325, 3530437, -1452451, 3475950, 2176455, -1585221, 25847,
    900702, 1859098, 909542, 819034, 495491, -1613174, -43260, -522500,
    -1079900, -1661693, -3592148, -1257611, 1939314, -4083598, -1000202, -2608894,
    -655327, -3122442, 2031748, 3207046, -3556995, -525098, -768622, -3595838,
    3585928, -2537516, 3915439, -3190144, -3157330, -3632928, 126922, -518909,
    342297, 286988, -2437823, 4108315, 3437287, -3342277, 1735879, 203044,
    -549488, -3861115, -3043716, 3412210, -983419, 2147896, 2715295, 237124,
    2842341, 2691481, -2590150, 1265009, 4055324, 1247620, 2486353, 1595974,
    -1119584, 3574422, -2867647, -2967645, -3693493, -411027, -2477047, -777960,
    -3767016, 1250494, 2635921, -3548272, -2994039, 1869119, 1903435, -1050970,
    2619752, 3539968, -300467, -671102, -1228525, -22981, -1308169, -876248,
    -1333058, 1237275, -3318210, -1430225, -451100, 1312455, 3306115, -1962642,
    -2108549, 2348700, -539299, -381987, 1349076, 1852771, -1430430, 466468,
    -1279661, 1917081, -2546312, -1374803, 1500165, 777191, 2235880, 3406031,
    -2118186, -1699267, -1643818, -3343383, 264944, 508951, 3097992, 1826347,
    -542412, -2831860, -1671176, -1846953, -2584293, -3724270, 594136, -3776993,
    -3859737, 3505694, -3821735, 44288, -1100098, 904516, 3958618, 2353451,
    -2013608, 2432395, 2454455, -164721, 1957272, 3369112, 185531, -1207385,
    -1399561, 3507263, -2140649, -3724342, -8578, 1653064, -3249728, -359251,
    -3183426, 162844, 1616392, 3014001, 810149, 1652634, -3694233, -1799107,
    -3277672, -1600420, 3699596, 2389356, -210977, 759969, -1316856, -2091905,
    -3038916, 3523897, 3866901, 269760, 2213111, -975884, 1717735, 472078,
    1757237, 811944, 531354, 189548, -3553272, 3159746, -1851402, 3119733,
    -426683, 1723600, -1803090, 1910376, -1667432, -1104333, -260646, -3833893,
    -19422, 954230, 3881043, -2409325, -177440, 1315589, 1341330, -2884855,
    -2939036, -2235985, -420899, -2286327, 183443, -976891, 1612842, -3545687,
    4010497, 3900724, -2556880, 1285669, -1584928, -812732, -1439742, 3111497,
    -554416, 3919660, -48306, -1362209, 3937738, 1400424, -846154, 1976782,
    280005, 2071892, -2797779, -3019102, -3881060, -3628969, 3839961, 2680103]"

definition rvv_izeta :: "i32 list" where
  "rvv_izeta = [
    -1976782, 846154, -1400424, -3937738, 1362209, 48306, -3919660, 554416,
    -280005, 2797779, -2071892, -3839961, 3628969, 3881060, 3019102, 0,
    3545687, -1612842, 976891, -183443, 2286327, 420899, 2235985, 2939036,
    -4010497, 2556880, -3900724, 1439742, 812732, 1584928, -1285669, 0,
    3833893, 260646, 1104333, 1667432, -1910376, 1803090, -1723600, 426683,
    19422, -3881043, -954230, -1341330, -1315589, 177440, 2409325, 0,
    -472078, -1717735, 975884, -2213111, -269760, -3866901, -3523897, 3038916,
    -1757237, -531354, -811944, 1851402, -3159746, 3553272, -189548, 0,
    1799107, 3694233, -1652634, -810149, -3014001, -1616392, -162844, 3183426,
    3277672, -3699596, 1600420, 1316856, -759969, 210977, -2389356, 0,
    1207385, -185531, -3369112, -1957272, 164721, -2454455, -2432395, 2013608,
    1399561, 2140649, -3507263, 3249728, -1653064, 8578, 3724342, 0,
    3776993, -594136, 3724270, 2584293, 1846953, 1671176, 2831860, 542412,
    3859737, 3821735, -3505694, -3958618, -904516, 1100098, -44288, 0,
    -3406031, -2235880, -777191, -1500165, 1374803, 2546312, -1917081, 1279661,
    2118186, 1643818, 1699267, -3097992, -508951, -264944, 3343383, 0,
    1962642, -3306115, -1312455, 451100, 1430225, 3318210, -1237275, 1333058,
    2108549, 539299, -2348700, 1430430, -1852771, -1349076, 381987, 0,
    1050970, -1903435, -1869119, 2994039, 3548272, -2635921, -1250494, 3767016,
    -2619752, 300467, -3539968, 1308169, 22981, 1228525, 671102, 0,
    -1595974, -2486353, -1247620, -4055324, -1265009, 2590150, -2691481, -2842341,
    1119584, 2867647, -3574422, 2477047, 411027, 3693493, 2967645, 0,
    -203044, -1735879, 3342277, -3437287, -4108315, 2437823, -286988, -342297,
    549488, 3043716, 3861115, -2715295, -2147896, 983419, -3412210, 0,
    3595838, 768622, 525098, 3556995, -3207046, -2031748, 3122442, 655327,
    -3585928, -3915439, 2537516, -126922, 3632928, 3157330, 3190144, 0,
    522500, 43260, 1613174, -495491, -819034, -909542, -1859098, -900702,
    1079900, 3592148, 1661693, 1000202, 4083598, -1939314, 1257611, 0,
    3193378, 1197226, 3759364, 3520352, -3513181, 1235728, -2434439, -266997,
    -1024112, -3530437, -3077325, 1585221, -2176455, -3475950, 1452451, 0,
    3562462, 2446433, -2244091, 3342478, -3817976, -2316500, -3407706, -2091667,
    -2725464, -95776, -2706023, 3041255, 3677745, 1528703, 3930395, 0]"

text \<open>The table \<open>zetas\<close> of this file.\<close>

definition rvv_zetas :: "i32 list" where
  "rvv_zetas = [
    0, 25847, -2608894, -518909, 237124, -777960, -876248, 466468,
    1826347, 2353451, -359251, -2091905, 3119733, -2884855, 3111497, 2680103,
    2725464, 1024112, -1079900, 3585928, -549488, -1119584, 2619752, -2108549,
    -2118186, -3859737, -1399561, -3277672, 1757237, -19422, 4010497, 280005,
    2706023, 95776, 3077325, 3530437, -1661693, -3592148, -2537516, 3915439,
    -3861115, -3043716, 3574422, -2867647, 3539968, -300467, 2348700, -539299,
    -1699267, -1643818, 3505694, -3821735, 3507263, -2140649, -1600420, 3699596,
    811944, 531354, 954230, 3881043, 3900724, -2556880, 2071892, -2797779,
    -3930395, -1528703, -3677745, -3041255, -1452451, 3475950, 2176455, -1585221,
    -1257611, 1939314, -4083598, -1000202, -3190144, -3157330, -3632928, 126922,
    3412210, -983419, 2147896, 2715295, -2967645, -3693493, -411027, -2477047,
    -671102, -1228525, -22981, -1308169, -381987, 1349076, 1852771, -1430430,
    -3343383, 264944, 508951, 3097992, 44288, -1100098, 904516, 3958618,
    -3724342, -8578, 1653064, -3249728, 2389356, -210977, 759969, -1316856,
    189548, -3553272, 3159746, -1851402, -2409325, -177440, 1315589, 1341330,
    1285669, -1584928, -812732, -1439742, -3019102, -3881060, -3628969, 3839961,
    2091667, 3407706, 2316500, 3817976, -3342478, 2244091, -2446433, -3562462,
    266997, 2434439, -1235728, 3513181, -3520352, -3759364, -1197226, -3193378,
    900702, 1859098, 909542, 819034, 495491, -1613174, -43260, -522500,
    -655327, -3122442, 2031748, 3207046, -3556995, -525098, -768622, -3595838,
    342297, 286988, -2437823, 4108315, 3437287, -3342277, 1735879, 203044,
    2842341, 2691481, -2590150, 1265009, 4055324, 1247620, 2486353, 1595974,
    -3767016, 1250494, 2635921, -3548272, -2994039, 1869119, 1903435, -1050970,
    -1333058, 1237275, -3318210, -1430225, -451100, 1312455, 3306115, -1962642,
    -1279661, 1917081, -2546312, -1374803, 1500165, 777191, 2235880, 3406031,
    -542412, -2831860, -1671176, -1846953, -2584293, -3724270, 594136, -3776993,
    -2013608, 2432395, 2454455, -164721, 1957272, 3369112, 185531, -1207385,
    -3183426, 162844, 1616392, 3014001, 810149, 1652634, -3694233, -1799107,
    -3038916, 3523897, 3866901, 269760, 2213111, -975884, 1717735, 472078,
    -426683, 1723600, -1803090, 1910376, -1667432, -1104333, -260646, -3833893,
    -2939036, -2235985, -420899, -2286327, 183443, -976891, 1612842, -3545687,
    -554416, 3919660, -48306, -1362209, 3937738, 1400424, -846154, 1976782]"

section \<open>The forward transform\<close>

text \<open>The last four layers of sixteen coefficients, stored at \<open>a[o]\<close>.\<close>

definition mldsa_vector_ntt2 :: "i32 list \<Rightarrow> i32 list \<Rightarrow> i32 list \<Rightarrow> nat \<Rightarrow> i32 list" where
  "mldsa_vector_ntt2 a v0 v1 off =
     (let vl = 8; vl2 = 2 * vl;
          v2p4 = mldsa_bitswap_perm 2 3 vl2;
          v2p2 = mldsa_bitswap_perm 1 3 vl2;
          v2p1 = mldsa_bitswap_perm 0 3 vl2;
          v2p0 = vrgather_vv (vrgather_vv v2p1 v2p2) v2p4;
          vid = vid_v vl :: u32 list;
          cs4 = vadd_vx (vsrl_vx vid 2) 1;
          cs2 = vadd_vx (vsrl_vx vid 1) 3;
          c8 = vle rvv_zeta off 8;
          cz = vle rvv_zeta (off + 8) 8;
          (v0, v1) = RVV_BFLY_FX2 v0 v1 (vmv_x_s cz);
          vp = vcreate_v v0 v1;
          vp = vrgather_vv vp v2p4;
          v0 = vget_v vl vp 0;
          v1 = vget_v vl vp 1;
          c0 = vrgather_vv cz cs4;
          (v0, v1) = RVV_BFLY_FV2 v0 v1 c0;
          vp = vcreate_v v0 v1;
          vp = vrgather_vv vp v2p2;
          v0 = vget_v vl vp 0;
          v1 = vget_v vl vp 1;
          c0 = vrgather_vv cz cs2;
          (v0, v1) = RVV_BFLY_FV2 v0 v1 c0;
          vp = vcreate_v v0 v1;
          vp = vrgather_vv vp v2p1;
          v0 = vget_v vl vp 0;
          v1 = vget_v vl vp 1;
          (v0, v1) = RVV_BFLY_FV2 v0 v1 c8;
          vp = vcreate_v v0 v1;
          vp = vrgather_vv vp v2p0
      in vse a off vp (2 * vl))"

text \<open>The sixteen registers of a half, through layers two to four.\<close>

definition rvv_mldsa_ntt_half :: "nat \<Rightarrow> i32 list \<Rightarrow> i32 list" where
  "rvv_mldsa_ntt_half i a =
     (let vl = 8;
          v0 = vle a (i + 0 * vl) vl;
          v1 = vle a (i + 1 * vl) vl;
          v2 = vle a (i + 2 * vl) vl;
          v3 = vle a (i + 3 * vl) vl;
          v4 = vle a (i + 4 * vl) vl;
          v5 = vle a (i + 5 * vl) vl;
          v6 = vle a (i + 6 * vl) vl;
          v7 = vle a (i + 7 * vl) vl;
          v8 = vle a (i + 8 * vl) vl;
          v9 = vle a (i + 9 * vl) vl;
          va = vle a (i + 10 * vl) vl;
          vb = vle a (i + 11 * vl) vl;
          vc = vle a (i + 12 * vl) vl;
          vd = vle a (i + 13 * vl) vl;
          ve = vle a (i + 14 * vl) vl;
          vf = vle a (i + 15 * vl) vl;
          zeta = rvv_zeta ! (0x2F + i div 8);
          (v0, v8) = RVV_BFLY_FX2 v0 v8 zeta;
          (v1, v9) = RVV_BFLY_FX2 v1 v9 zeta;
          (v2, va) = RVV_BFLY_FX2 v2 va zeta;
          (v3, vb) = RVV_BFLY_FX2 v3 vb zeta;
          (v4, vc) = RVV_BFLY_FX2 v4 vc zeta;
          (v5, vd) = RVV_BFLY_FX2 v5 vd zeta;
          (v6, ve) = RVV_BFLY_FX2 v6 ve zeta;
          (v7, vf) = RVV_BFLY_FX2 v7 vf zeta;
          zeta = rvv_zeta ! (0x4F + i div 4);
          (v0, v4) = RVV_BFLY_FX2 v0 v4 zeta;
          (v1, v5) = RVV_BFLY_FX2 v1 v5 zeta;
          (v2, v6) = RVV_BFLY_FX2 v2 v6 zeta;
          (v3, v7) = RVV_BFLY_FX2 v3 v7 zeta;
          zeta = rvv_zeta ! (0x5F + i div 4);
          (v8, vc) = RVV_BFLY_FX2 v8 vc zeta;
          (v9, vd) = RVV_BFLY_FX2 v9 vd zeta;
          (va, ve) = RVV_BFLY_FX2 va ve zeta;
          (vb, vf) = RVV_BFLY_FX2 vb vf zeta;
          zeta = rvv_zeta ! (0x8F + i div 2);
          (v0, v2) = RVV_BFLY_FX2 v0 v2 zeta;
          (v1, v3) = RVV_BFLY_FX2 v1 v3 zeta;
          zeta = rvv_zeta ! (0x9F + i div 2);
          (v4, v6) = RVV_BFLY_FX2 v4 v6 zeta;
          (v5, v7) = RVV_BFLY_FX2 v5 v7 zeta;
          zeta = rvv_zeta ! (0xAF + i div 2);
          (v8, va) = RVV_BFLY_FX2 v8 va zeta;
          (v9, vb) = RVV_BFLY_FX2 v9 vb zeta;
          zeta = rvv_zeta ! (0xBF + i div 2);
          (vc, ve) = RVV_BFLY_FX2 vc ve zeta;
          (vd, vf) = RVV_BFLY_FX2 vd vf zeta;
          a = mldsa_vector_ntt2 a v0 v1 i;
          a = mldsa_vector_ntt2 a v2 v3 (i + 2 * vl);
          a = mldsa_vector_ntt2 a v4 v5 (i + 4 * vl);
          a = mldsa_vector_ntt2 a v6 v7 (i + 6 * vl);
          a = mldsa_vector_ntt2 a v8 v9 (i + 8 * vl);
          a = mldsa_vector_ntt2 a va vb (i + 10 * vl);
          a = mldsa_vector_ntt2 a vc vd (i + 12 * vl);
          a = mldsa_vector_ntt2 a ve vf (i + 14 * vl)
      in a)"

text \<open>The first layer, eight butterflies at a time.\<close>

definition rvv_mldsa_ntt_first :: "nat \<Rightarrow> i32 list \<Rightarrow> i32 list" where
  "rvv_mldsa_ntt_first j a =
     (let vl = 8; len = MLDSA_PAR_N div 2;
          v0 = vle a j vl;
          v1 = vle a (j + len) vl;
          (v0, v1) = RVV_BFLY_FX2 v0 v1 (rvv_zeta ! 0x1F);
          a = vse a j v0 vl;
          a = vse a (j + len) v1 vl
      in a)"

definition rvv_mldsa_ntt :: "i32 list \<Rightarrow> i32 list" where
  "rvv_mldsa_ntt a =
     (let a = fold (\<lambda>k. rvv_mldsa_ntt_first (8 * k)) [0..<16] a
      in fold (\<lambda>k. rvv_mldsa_ntt_half (128 * k)) [0..<2] a)"

section \<open>The inverse transform\<close>

text \<open>The first four layers of sixteen coefficients.\<close>

definition mldsa_vector_intt2 :: "i32 list \<Rightarrow> nat \<Rightarrow> i32 list" where
  "mldsa_vector_intt2 vp off =
     (let vl = 8; vl2 = 2 * vl;
          v2p4 = mldsa_bitswap_perm 2 3 vl2;
          v2p2 = mldsa_bitswap_perm 1 3 vl2;
          v2p1 = mldsa_bitswap_perm 0 3 vl2;
          v2pi = vrgather_vv (vrgather_vv v2p4 v2p2) v2p1;
          vid = vid_v vl :: u32 list;
          cs4 = vadd_vx (vsrl_vx vid 2) 1;
          cs2 = vadd_vx (vsrl_vx vid 1) 3;
          c8 = vle rvv_izeta off 8;
          cz = vle rvv_izeta (off + 8) 8;
          vp = vrgather_vv vp v2pi;
          v0 = vget_v vl vp 0;
          v1 = vget_v vl vp 1;
          (v0, v1) = RVV_BFLY_RV2 v0 v1 c8;
          vp = vcreate_v v0 v1;
          vp = vrgather_vv vp v2p1;
          v0 = vget_v vl vp 0;
          v1 = vget_v vl vp 1;
          c0 = vrgather_vv cz cs2;
          (v0, v1) = RVV_BFLY_RV2 v0 v1 c0;
          vp = vcreate_v v0 v1;
          vp = vrgather_vv vp v2p2;
          v0 = vget_v vl vp 0;
          v1 = vget_v vl vp 1;
          c0 = vrgather_vv cz cs4;
          (v0, v1) = RVV_BFLY_RV2 v0 v1 c0;
          vp = vcreate_v v0 v1;
          vp = vrgather_vv vp v2p4;
          v0 = vget_v vl vp 0;
          v1 = vget_v vl vp 1;
          (v0, v1) = RVV_BFLY_RX2 v0 v1 (vmv_x_s cz)
      in vcreate_v v0 v1)"

definition rvv_mldsa_invntt_half :: "nat \<Rightarrow> i32 list \<Rightarrow> i32 list" where
  "rvv_mldsa_invntt_half i a =
     (let vl = 8; vl2 = 2 * vl;
          vp = mldsa_vector_intt2 (vle a i vl2) i;
          v0 = vget_v vl vp 0;
          v1 = vget_v vl vp 1;
          vp = mldsa_vector_intt2 (vle a (i + 2 * vl) vl2) (i + 2 * vl);
          v2 = vget_v vl vp 0;
          v3 = vget_v vl vp 1;
          vp = mldsa_vector_intt2 (vle a (i + 4 * vl) vl2) (i + 4 * vl);
          v4 = vget_v vl vp 0;
          v5 = vget_v vl vp 1;
          vp = mldsa_vector_intt2 (vle a (i + 6 * vl) vl2) (i + 6 * vl);
          v6 = vget_v vl vp 0;
          v7 = vget_v vl vp 1;
          vp = mldsa_vector_intt2 (vle a (i + 8 * vl) vl2) (i + 8 * vl);
          v8 = vget_v vl vp 0;
          v9 = vget_v vl vp 1;
          vp = mldsa_vector_intt2 (vle a (i + 10 * vl) vl2) (i + 10 * vl);
          va = vget_v vl vp 0;
          vb = vget_v vl vp 1;
          vp = mldsa_vector_intt2 (vle a (i + 12 * vl) vl2) (i + 12 * vl);
          vc = vget_v vl vp 0;
          vd = vget_v vl vp 1;
          vp = mldsa_vector_intt2 (vle a (i + 14 * vl) vl2) (i + 14 * vl);
          ve = vget_v vl vp 0;
          vf = vget_v vl vp 1;
          g16 = i div 32;
          g32 = i div 64;
          zeta = - (rvv_zetas ! (15 - g16));
          (v0, v2) = RVV_BFLY_RX2 v0 v2 zeta;
          (v1, v3) = RVV_BFLY_RX2 v1 v3 zeta;
          zeta = - (rvv_zetas ! (15 - (g16 + 1)));
          (v4, v6) = RVV_BFLY_RX2 v4 v6 zeta;
          (v5, v7) = RVV_BFLY_RX2 v5 v7 zeta;
          zeta = - (rvv_zetas ! (15 - (g16 + 2)));
          (v8, va) = RVV_BFLY_RX2 v8 va zeta;
          (v9, vb) = RVV_BFLY_RX2 v9 vb zeta;
          zeta = - (rvv_zetas ! (15 - (g16 + 3)));
          (vc, ve) = RVV_BFLY_RX2 vc ve zeta;
          (vd, vf) = RVV_BFLY_RX2 vd vf zeta;
          zeta = - (rvv_zetas ! (7 - g32));
          (v0, v4) = RVV_BFLY_RX2 v0 v4 zeta;
          (v1, v5) = RVV_BFLY_RX2 v1 v5 zeta;
          (v2, v6) = RVV_BFLY_RX2 v2 v6 zeta;
          (v3, v7) = RVV_BFLY_RX2 v3 v7 zeta;
          zeta = - (rvv_zetas ! (7 - (g32 + 1)));
          (v8, vc) = RVV_BFLY_RX2 v8 vc zeta;
          (v9, vd) = RVV_BFLY_RX2 v9 vd zeta;
          (va, ve) = RVV_BFLY_RX2 va ve zeta;
          (vb, vf) = RVV_BFLY_RX2 vb vf zeta;
          zeta = - (rvv_zetas ! (3 - i div 128));
          (v0, v8) = RVV_BFLY_RX2 v0 v8 zeta;
          (v1, v9) = RVV_BFLY_RX2 v1 v9 zeta;
          (v2, va) = RVV_BFLY_RX2 v2 va zeta;
          (v3, vb) = RVV_BFLY_RX2 v3 vb zeta;
          (v4, vc) = RVV_BFLY_RX2 v4 vc zeta;
          (v5, vd) = RVV_BFLY_RX2 v5 vd zeta;
          (v6, ve) = RVV_BFLY_RX2 v6 ve zeta;
          (v7, vf) = RVV_BFLY_RX2 v7 vf zeta;
          a = vse a (i + 0 * vl) v0 vl;
          a = vse a (i + 1 * vl) v1 vl;
          a = vse a (i + 2 * vl) v2 vl;
          a = vse a (i + 3 * vl) v3 vl;
          a = vse a (i + 4 * vl) v4 vl;
          a = vse a (i + 5 * vl) v5 vl;
          a = vse a (i + 6 * vl) v6 vl;
          a = vse a (i + 7 * vl) v7 vl;
          a = vse a (i + 8 * vl) v8 vl;
          a = vse a (i + 9 * vl) v9 vl;
          a = vse a (i + 10 * vl) va vl;
          a = vse a (i + 11 * vl) vb vl;
          a = vse a (i + 12 * vl) vc vl;
          a = vse a (i + 13 * vl) vd vl;
          a = vse a (i + 14 * vl) ve vl;
          a = vse a (i + 15 * vl) vf vl
      in a)"

text \<open>The last layer and the multiplication by \<open>f\<close>, eight butterflies at a time.\<close>

definition rvv_mldsa_invntt_last :: "nat \<Rightarrow> i32 list \<Rightarrow> i32 list" where
  "rvv_mldsa_invntt_last j a =
     (let vl = 8; f = 41978; zeta = - (rvv_zetas ! 1);
          v0 = vle a j vl;
          v1 = vle a (j + MLDSA_PAR_N div 2) vl;
          (v0, v1) = RVV_BFLY_RX2 v0 v1 zeta;
          v0 = mldsa_fq_redc2 (vwmul_vx v0 f);
          v1 = mldsa_fq_redc2 (vwmul_vx v1 f);
          a = vse a j v0 vl;
          a = vse a (j + MLDSA_PAR_N div 2) v1 vl
      in a)"

definition rvv_mldsa_invntt :: "i32 list \<Rightarrow> i32 list" where
  "rvv_mldsa_invntt a =
     (let a = fold (\<lambda>k. rvv_mldsa_invntt_half (128 * k)) [0..<2] a
      in fold (\<lambda>k. rvv_mldsa_invntt_last (8 * k)) [0..<16] a)"

declare rvv_mldsa_rej_loop.simps [simp del]

end
