(* ===== verification/Dsa_Rvv_Sign.thy ===== *)
theory Dsa_Rvv_Sign
  imports Dsa_Rvv Dsa_Sign
begin

text \<open>
  The functions of \<open>mldsa/mldsa_poly.c\<close>, \<open>polyvec.c\<close> and \<open>mldsa.c\<close> as the build with \<open>MLDSA_RVV == 1\<close> compiles
  them: the same C text, calling the transforms and the rejection sampling of \<open>rvv_poly.c\<close> where the scalar build calls
  those of \<open>mldsa_ntt.c\<close> and \<open>mldsa_poly.c\<close>.  Everything else is shared by both builds.
\<close>

section \<open>Code\<close>

subsection \<open>\<open>mldsa_poly.c\<close>\<close>

partial_function (option) rvv_poly_uniform_refill ::
  "dpoly \<Rightarrow> nat \<Rightarrow> u8 list \<Rightarrow> nat \<Rightarrow> keccak_state \<Rightarrow> dpoly option" where
  "rvv_poly_uniform_refill a ctr buf buflen state =
     (if ctr < MLDSA_PAR_N
      then let off = buflen mod 3;
               rest = map (\<lambda>i. buf ! (buflen - off + i)) [0..<off];
               (out, state) = stream128_squeezeblocks 1 state;
               buf = rest @ out;
               buflen = STREAM128_BLOCKBYTES + off;
               (a, n) = rvv_mldsa_rej_uniform a ctr (MLDSA_PAR_N - ctr) buf buflen
           in rvv_poly_uniform_refill a (ctr + n) buf buflen state
      else Some a)"

definition rvv_poly_uniform :: "u8 list \<Rightarrow> u16 \<Rightarrow> dpoly option" where
  "rvv_poly_uniform seed nonce =
     (let buflen = POLY_UNIFORM_NBLOCKS * STREAM128_BLOCKBYTES;
          state = stream128_init keccak_fresh seed nonce;
          (buf, state) = stream128_squeezeblocks POLY_UNIFORM_NBLOCKS state;
          (a, ctr) = rvv_mldsa_rej_uniform (replicate MLDSA_PAR_N 0) 0 MLDSA_PAR_N buf buflen
      in rvv_poly_uniform_refill a ctr buf buflen state)"

definition rvv_mldsa_poly_ntt :: "dpoly \<Rightarrow> dpoly" where
  "rvv_mldsa_poly_ntt a = rvv_mldsa_ntt a"

definition rvv_mldsa_poly_invntt_tomont :: "dpoly \<Rightarrow> dpoly" where
  "rvv_mldsa_poly_invntt_tomont a = rvv_mldsa_invntt a"

subsection \<open>\<open>polyvec.c\<close>\<close>

definition rvv_polyvec_matrix_expand :: "mldsa_param \<Rightarrow> u8 list \<Rightarrow> dmat option" where
  "rvv_polyvec_matrix_expand par rho =
     those (map (\<lambda>i. those (map (\<lambda>j.
         rvv_poly_uniform rho (zext16 (shl (of_nat i :: u32) 8 + of_nat j))) [0..<dsa_ell par])) [0..<dsa_k par])"

definition rvv_polyvecl_ntt :: "mldsa_param \<Rightarrow> dvec \<Rightarrow> dvec" where
  "rvv_polyvecl_ntt par v = map (\<lambda>i. rvv_mldsa_poly_ntt (v ! i)) [0..<dsa_ell par]"

definition rvv_polyvecl_invntt_tomont :: "mldsa_param \<Rightarrow> dvec \<Rightarrow> dvec" where
  "rvv_polyvecl_invntt_tomont par v = map (\<lambda>i. rvv_mldsa_poly_invntt_tomont (v ! i)) [0..<dsa_ell par]"

definition rvv_polyveck_ntt :: "mldsa_param \<Rightarrow> dvec \<Rightarrow> dvec" where
  "rvv_polyveck_ntt par v = map (\<lambda>i. rvv_mldsa_poly_ntt (v ! i)) [0..<dsa_k par]"

definition rvv_polyveck_invntt_tomont :: "mldsa_param \<Rightarrow> dvec \<Rightarrow> dvec" where
  "rvv_polyveck_invntt_tomont par v = map (\<lambda>i. rvv_mldsa_poly_invntt_tomont (v ! i)) [0..<dsa_k par]"

subsection \<open>\<open>mldsa.c\<close>\<close>

definition rvv_keygen_arith :: "mldsa_param \<Rightarrow> dmat \<Rightarrow> dvec \<Rightarrow> dvec \<Rightarrow> dvec \<times> dvec" where
  "rvv_keygen_arith par mat s1 s2 =
     (let s1hat = s1;
          s1hat = rvv_polyvecl_ntt par s1hat;
          t1 = polyvec_matrix_pointwise_montgomery par mat s1hat;
          t1 = polyveck_reduce par t1;
          t1 = rvv_polyveck_invntt_tomont par t1;
          t1 = polyveck_add par t1 s2;
          t1 = polyveck_caddq par t1
      in polyveck_power2round par t1)"

definition rvv_mldsa_keygen_internal :: "mldsa_param \<Rightarrow> u8 list \<Rightarrow> (u8 list \<times> u8 list) option" where
  "rvv_mldsa_keygen_internal par seed =
     (let seedbuf = take MLDSA_SEED_SZ seed @ [of_nat (dsa_k par), of_nat (dsa_ell par)];
          seedbuf = shake256 (2 * MLDSA_SEED_SZ + MLDSA_CRH_SZ) seedbuf;
          rho = take MLDSA_SEED_SZ seedbuf;
          rhop = take MLDSA_CRH_SZ (drop MLDSA_SEED_SZ seedbuf);
          key = take MLDSA_SEED_SZ (drop (MLDSA_SEED_SZ + MLDSA_CRH_SZ) seedbuf)
      in Option.bind (rvv_polyvec_matrix_expand par rho) (\<lambda>mat.
         Option.bind (polyvecl_uniform_eta par rhop 0) (\<lambda>s1.
         Option.bind (polyveck_uniform_eta par rhop (of_nat (dsa_ell par))) (\<lambda>s2.
         let (t1, t0) = rvv_keygen_arith par mat s1 s2;
             pk = pack_pk par rho t1;
             tr = shake256 MLDSA_TR_SZ (take (dsa_pk_sz par) pk);
             sk = pack_sk par rho tr key t0 s1 s2
         in Some (pk, sk)))))"

definition rvv_sign_commit :: "mldsa_param \<Rightarrow> dmat \<Rightarrow> dvec \<Rightarrow> dvec \<times> dvec" where
  "rvv_sign_commit par mat y =
     (let z = y;
          z = rvv_polyvecl_ntt par z;
          w1 = polyvec_matrix_pointwise_montgomery par mat z;
          w1 = polyveck_reduce par w1;
          w1 = rvv_polyveck_invntt_tomont par w1;
          w1 = polyveck_caddq par w1
      in polyveck_decompose par w1)"

definition rvv_sign_respond ::
  "mldsa_param \<Rightarrow> dvec \<Rightarrow> dvec \<Rightarrow> dvec \<Rightarrow> dpoly \<Rightarrow> dvec \<Rightarrow> dvec \<Rightarrow> dvec \<Rightarrow> (dvec \<times> dvec) option" where
  "rvv_sign_respond par s1 s2 t0 cp y w1 w0 =
     (let z = polyvecl_pointwise_poly_montgomery par cp s1;
          z = rvv_polyvecl_invntt_tomont par z;
          z = polyvecl_add par z y;
          z = polyvecl_reduce par z
      in if polyvecl_chknorm par z (dsa_gamma1 par - dsa_beta par) then None
      else
      let h = polyveck_pointwise_poly_montgomery par cp s2;
          h = rvv_polyveck_invntt_tomont par h;
          w0 = polyveck_sub par w0 h;
          w0 = polyveck_reduce par w0
      in if polyveck_chknorm par w0 (dsa_gamma2 par - dsa_beta par) then None
      else
      let h = polyveck_pointwise_poly_montgomery par cp t0;
          h = rvv_polyveck_invntt_tomont par h;
          h = polyveck_reduce par h
      in if polyveck_chknorm par h (dsa_gamma2 par) then None
      else
      let w0 = polyveck_add par w0 h;
          (n, h) = polyveck_make_hint par w0 w1
      in if dsa_omega par < unat n then None else Some (z, h))"

definition rvv_sign_attempt ::
  "mldsa_param \<Rightarrow> dmat \<Rightarrow> u8 list \<Rightarrow> u8 list \<Rightarrow> dvec \<Rightarrow> dvec \<Rightarrow> dvec \<Rightarrow> u16 \<Rightarrow> sign_outcome option" where
  "rvv_sign_attempt par mat mu rhop s1 s2 t0 nonce =
     (let y = polyvecl_uniform_gamma1 par rhop nonce;
          (w1, w0) = rvv_sign_commit par mat y;
          sig = polyveck_pack_w1 par w1;
          sig = shake256_two (dsa_cp_sz par) mu (take (dsa_k par * dsa_w1p_sz par) sig)
      in Option.bind (poly_challenge par sig) (\<lambda>cp.
         let cp = rvv_mldsa_poly_ntt cp
         in case rvv_sign_respond par s1 s2 t0 cp y w1 w0 of
              None \<Rightarrow> Some Sign_reject
            | Some (z, h) \<Rightarrow> Some (Sign_done sig z h)))"

partial_function (option) rvv_mldsa_sign_loop ::
  "mldsa_param \<Rightarrow> dmat \<Rightarrow> u8 list \<Rightarrow> u8 list \<Rightarrow> dvec \<Rightarrow> dvec \<Rightarrow> dvec \<Rightarrow> u16 \<Rightarrow> u8 list option" where
  "rvv_mldsa_sign_loop par mat mu rhop s1 s2 t0 nonce =
     Option.bind (rvv_sign_attempt par mat mu rhop s1 s2 t0 nonce) (\<lambda>out.
       case out of Sign_reject \<Rightarrow> rvv_mldsa_sign_loop par mat mu rhop s1 s2 t0 (nonce + 1)
       | Sign_done c z h \<Rightarrow> Some (pack_sig par c z h))"

definition rvv_mldsa_sign_internal ::
  "mldsa_param \<Rightarrow> u8 list \<Rightarrow> u8 list \<Rightarrow> u8 list \<Rightarrow> (u8 list \<times> nat) option" where
  "rvv_mldsa_sign_internal par sk m rnd =
     (let (rho, tr, key, t0, s1, s2) = unpack_sk par sk;
          mu = shake256_two MLDSA_CRH_SZ tr m;
          rhop = shake256 MLDSA_CRH_SZ (key @ take MLDSA_RND_SZ rnd @ mu)
      in Option.bind (rvv_polyvec_matrix_expand par rho) (\<lambda>mat.
         let s1 = rvv_polyvecl_ntt par s1;
             s2 = rvv_polyveck_ntt par s2;
             t0 = rvv_polyveck_ntt par t0
         in Option.bind (rvv_mldsa_sign_loop par mat mu rhop s1 s2 t0 0) (\<lambda>sig.
            Some (sig, dsa_sig_sz par))))"

definition rvv_verify_arith :: "mldsa_param \<Rightarrow> dmat \<Rightarrow> dpoly \<Rightarrow> dvec \<Rightarrow> dvec \<Rightarrow> dvec \<Rightarrow> dvec" where
  "rvv_verify_arith par mat cp z t1 h =
     (let z = rvv_polyvecl_ntt par z;
          w1 = polyvec_matrix_pointwise_montgomery par mat z;
          cp = rvv_mldsa_poly_ntt cp;
          t1 = polyveck_shiftl par t1;
          t1 = rvv_polyveck_ntt par t1;
          t1 = polyveck_pointwise_poly_montgomery par cp t1;
          w1 = polyveck_sub par w1 t1;
          w1 = polyveck_reduce par w1;
          w1 = rvv_polyveck_invntt_tomont par w1;
          w1 = polyveck_caddq par w1
      in polyveck_use_hint par w1 h)"

definition rvv_mldsa_verify_internal ::
  "mldsa_param \<Rightarrow> u8 list \<Rightarrow> u8 list \<Rightarrow> u8 list \<Rightarrow> nat \<Rightarrow> bool option" where
  "rvv_mldsa_verify_internal par pk m sig sig_sz =
     (if sig_sz \<noteq> dsa_sig_sz par then Some False
      else
      let (rho, t1) = unpack_pk par pk
      in case unpack_sig par sig of
        None \<Rightarrow> Some False
      | Some (c, z, h) \<Rightarrow>
          if polyvecl_chknorm par z (dsa_gamma1 par - dsa_beta par) then Some False
          else
          let mu = shake256 MLDSA_TR_SZ (take (dsa_pk_sz par) pk);
              mu = shake256_two MLDSA_CRH_SZ mu m
          in Option.bind (poly_challenge par c) (\<lambda>cp.
             Option.bind (rvv_polyvec_matrix_expand par rho) (\<lambda>mat.
             let w1 = rvv_verify_arith par mat cp z t1 h;
                 buf = polyveck_pack_w1 par w1;
                 c2 = shake256_two (dsa_cp_sz par) mu (take (dsa_k par * dsa_w1p_sz par) buf)
             in Some (list_all (\<lambda>i. c ! i = c2 ! i) [0..<dsa_cp_sz par]))))"

end
