(* ===== verification/Rvv_Pass.thy ===== *)
theory Rvv_Pass
  imports Rvv
begin

text \<open>
  How a pass of a transform is computed by vector registers: a pass is determined by what it leaves at each pair, it
  acts on equal chunks of the array independently, and on an array held in registers it is a pass whose
  elements are the registers.  The rounds inside a register, between two permutations, come with the libraries.
\<close>

section \<open>Passes\<close>

lemma ntt_pass_eqI:
  assumes "length r = nb * (2 * len)" "length r' = length r"
    and "\<And>b m. b < nb \<Longrightarrow> m < len \<Longrightarrow>
      r' ! (b * (2 * len) + m) = fst (f b (r ! (b * (2 * len) + m)) (r ! (b * (2 * len) + m + len))) \<and>
      r' ! (b * (2 * len) + m + len) = snd (f b (r ! (b * (2 * len) + m)) (r ! (b * (2 * len) + m + len)))"
  shows "r' = ntt_pass f len nb r"
proof (rule nth_equalityI)
  show "length r' = length (ntt_pass f len nb r)" using assms(2) by simp
  fix p
  assume "p < length r'"
  then have p: "p < nb * (2 * len)" using assms by simp
  from p show "r' ! p = ntt_pass f len nb r ! p"
  proof (cases rule: block_index)
    case (lo b m)
    have "0 < len" using lo by simp
    from nth_bfly_layer(1) [OF this assms(1) lo(1,2), of f] show ?thesis using assms(3) [OF lo(1,2)] lo(3)
      by (simp add: ntt_pass_def)
  next
    case (hi b m)
    have "0 < len" using hi by simp
    from nth_bfly_layer(2) [OF this assms(1) hi(1,2), of f] show ?thesis using assms(3) [OF hi(1,2)] hi(3)
      by (simp add: ntt_pass_def)
  qed
qed

lemma nth_ntt_pass:
  assumes "length r = nb * (2 * len)" "b < nb" "m < len"
  shows "ntt_pass f len nb r ! (b * (2 * len) + m) = fst (f b (r ! (b * (2 * len) + m)) (r ! (b * (2 * len) + m + len)))"
    and "ntt_pass f len nb r ! (b * (2 * len) + m + len) = snd (f b (r ! (b * (2 * len) + m)) (r ! (b * (2 * len) + m + len)))"
  using nth_bfly_layer [of len r nb b m f] assms by (simp_all add: ntt_pass_def)

lemma ntt_pass_cong:
  assumes "length r = nb * (2 * len)" "\<And>b. b < nb \<Longrightarrow> f b = g b"
  shows "ntt_pass f len nb r = ntt_pass g len nb r"
  by (rule ntt_pass_eqI [OF assms(1)]) (simp_all add: nth_ntt_pass [OF assms(1)] assms(2))

text \<open>Chunks of whole blocks are treated independently.\<close>

lemma chunk_index:
  fixes c :: nat
  assumes "c < n" "b < m" "k < 2 * len"
  shows "m * (2 * len) * c + (b * (2 * len) + k) < n * (m * (2 * len))"
proof -
  have "b * (2 * len) + k < Suc b * (2 * len)" using assms(3) by simp
  also have "\<dots> \<le> m * (2 * len)" using assms(2) by (intro mult_right_mono) auto
  finally have "m * (2 * len) * c + (b * (2 * len) + k) < m * (2 * len) * Suc c" by simp
  also have "\<dots> \<le> m * (2 * len) * n" using assms(1) by (intro mult_left_mono) auto
  finally show ?thesis by (simp add: mult.commute)
qed

lemma chunk_ntt_pass:
  assumes "length r = n * (m * (2 * len))" "c < n"
  shows "chunk (m * (2 * len)) c (ntt_pass f len (n * m) r) =
    ntt_pass (\<lambda>b. f (c * m + b)) len m (chunk (m * (2 * len)) c r)"
proof (rule ntt_pass_eqI)
  fix b k
  assume b: "b < m" and k: "k < len"
  have len: "length r = (n * m) * (2 * len)" using assms(1) by (simp add: mult_ac)
  have "c * m + b < Suc c * m" using b by simp
  also have "\<dots> \<le> n * m" using assms(2) by (intro mult_right_mono) auto
  finally have cb: "c * m + b < n * m" .
  have i: "(c * m + b) * (2 * len) = m * (2 * len) * c + b * (2 * len)" by (simp add: algebra_simps)
  have l: "b * (2 * len) + k < m * (2 * len)" "b * (2 * len) + k + len < m * (2 * len)"
    using chunk_index [of 0 1 b m k len] chunk_index [of 0 1 b m "k + len" len] b k by simp_all
  show "chunk (m * (2 * len)) c (ntt_pass f len (n * m) r) ! (b * (2 * len) + k) =
      fst (f (c * m + b) (chunk (m * (2 * len)) c r ! (b * (2 * len) + k)) (chunk (m * (2 * len)) c r ! (b * (2 * len) + k + len))) \<and>
    chunk (m * (2 * len)) c (ntt_pass f len (n * m) r) ! (b * (2 * len) + k + len) =
      snd (f (c * m + b) (chunk (m * (2 * len)) c r ! (b * (2 * len) + k)) (chunk (m * (2 * len)) c r ! (b * (2 * len) + k + len)))"
    using nth_ntt_pass [OF len cb k, of f] by (simp add: nth_chunk [OF l(1)] nth_chunk [OF l(2)[unfolded add.assoc]] i add.assoc)
qed simp_all

lemma chunks_equalityI:
  assumes "length xs = n * w" "length ys = n * w" "\<And>c. c < n \<Longrightarrow> chunk w c xs = chunk w c ys"
  shows "xs = ys"
proof (rule nth_equalityI)
  show "length xs = length ys" using assms by simp
  fix i
  assume "i < length xs"
  then have i: "i < w * n" "0 < w" using assms(1) by (auto simp: mult.commute intro: gr0I)
  have "chunk w (i div w) xs ! (i mod w) = chunk w (i div w) ys ! (i mod w)"
    using assms(3) [of "i div w"] index_group(2) [OF i] by simp
  then show "xs ! i = ys ! i" using i by simp
qed

section \<open>Passes over registers\<close>

definition vbf :: "('a \<Rightarrow> 'a \<Rightarrow> 'a \<times> 'a) \<Rightarrow> 'a list \<Rightarrow> 'a list \<Rightarrow> 'a list \<times> 'a list" where
  "vbf f u v = (map2 (\<lambda>x y. fst (f x y)) u v, map2 (\<lambda>x y. snd (f x y)) u v)"

lemma length_vbf [simp]:
  "length (fst (vbf f u v)) = min (length u) (length v)" "length (snd (vbf f u v)) = min (length u) (length v)"
  by (simp_all add: vbf_def)

lemma length_concat_const: "\<forall>v \<in> set vs. length v = w \<Longrightarrow> length (concat vs) = length vs * w"
  by (induction vs) auto

lemma nth_concat_const:
  assumes "\<forall>v \<in> set vs. length v = w" "i < length vs" "j < w"
  shows "concat vs ! (i * w + j) = vs ! i ! j"
  using assms
proof (induction vs arbitrary: i)
  case (Cons v vs)
  then show ?case by (cases i) (simp_all add: nth_append)
qed simp

lemma ntt_pass_const_length:
  fixes w :: nat
  assumes "length vs = nb * (2 * len)" "\<forall>v \<in> set vs. length v = w"
  shows "\<forall>v \<in> set (ntt_pass (\<lambda>b. vbf (f b)) len nb vs). length v = w"
proof
  fix v
  assume "v \<in> set (ntt_pass (\<lambda>b. vbf (f b)) len nb vs)"
  then obtain p where v: "v = ntt_pass (\<lambda>b. vbf (f b)) len nb vs ! p" and p: "p < nb * (2 * len)"
    by (auto simp: in_set_conv_nth assms(1))
  have l: "length (vs ! i) = w" if "i < nb * (2 * len)" for i using assms that by simp
  from p show "length v = w"
  proof (cases rule: block_index)
    case (lo b m)
    have "b * (2 * len) + m + len < nb * (2 * len)" using chunk_index [of 0 1 b nb "m + len" len] lo by simp
    then show ?thesis using nth_ntt_pass(1) [OF assms(1) lo(1,2), of "\<lambda>b. vbf (f b)"] lo(3) l by (simp add: v)
  next
    case (hi b m)
    have "b * (2 * len) + m + len < nb * (2 * len)" using chunk_index [of 0 1 b nb "m + len" len] hi by simp
    then show ?thesis using nth_ntt_pass(2) [OF assms(1) hi(1,2), of "\<lambda>b. vbf (f b)"] hi(3) l by (simp add: v)
  qed
qed

lemma concat_ntt_pass:
  assumes vs: "length vs = nb * (2 * len)" "\<forall>v \<in> set vs. length v = w"
  shows "concat (ntt_pass (\<lambda>b. vbf (f b)) len nb vs) = ntt_pass f (len * w) nb (concat vs)"
proof (rule ntt_pass_eqI)
  show "length (concat vs) = nb * (2 * (len * w))" using length_concat_const [OF vs(2)] vs(1) by simp
  show "length (concat (ntt_pass (\<lambda>b. vbf (f b)) len nb vs)) = length (concat vs)"
    using length_concat_const [OF vs(2)] length_concat_const [OF ntt_pass_const_length [OF vs, where f = f]] by simp
  fix b m
  assume b: "b < nb" and m: "m < len * w"
  then have w: "0 < w" "m div w < len" "m mod w < w" "m = m div w * w + m mod w"
    using less_mult_imp_div_less [of m len w] by (cases "w = 0"; simp)+
  have i: "b * (2 * len) + m div w < nb * (2 * len)" "b * (2 * len) + m div w + len < nb * (2 * len)"
    using chunk_index [of 0 1 b nb "m div w" len] chunk_index [of 0 1 b nb "m div w + len" len] b w by simp_all
  have e: "b * (2 * (len * w)) + m = (b * (2 * len) + m div w) * w + m mod w"
    "(b * (2 * len) + m div w) * w + m mod w + len * w = (b * (2 * len) + m div w + len) * w + m mod w"
    using w(4) by (simp_all add: algebra_simps)
  show "concat (ntt_pass (\<lambda>b. vbf (f b)) len nb vs) ! (b * (2 * (len * w)) + m) =
      fst (f b (concat vs ! (b * (2 * (len * w)) + m)) (concat vs ! (b * (2 * (len * w)) + m + len * w))) \<and>
    concat (ntt_pass (\<lambda>b. vbf (f b)) len nb vs) ! (b * (2 * (len * w)) + m + len * w) =
      snd (f b (concat vs ! (b * (2 * (len * w)) + m)) (concat vs ! (b * (2 * (len * w)) + m + len * w)))"
    unfolding e using i w vs
    by (simp add: nth_concat_const [OF vs(2)] nth_concat_const [OF ntt_pass_const_length [OF vs, where f = f]]
        nth_ntt_pass [OF vs(1) b w(2)] vbf_def)
qed

section \<open>Rounds inside a register group\<close>

text \<open>
  Between two permutations the elements of a pair are brought to the same lane of two registers.  \<open>gather x P\<close> is
  the array in the order \<open>P\<close>; a round on its halves, with an operand \<open>c\<close> for each lane, is the pass in that
  order, whenever \<open>P\<close> pairs the elements the pass pairs and \<open>c\<close> holds each lane's operand.
\<close>

definition gather :: "'a list \<Rightarrow> nat list \<Rightarrow> 'a list" where
  "gather x P = map (\<lambda>i. x ! i) P"

definition lane_round :: "('c \<Rightarrow> 'a \<Rightarrow> 'a \<Rightarrow> 'a \<times> 'a) \<Rightarrow> 'c list \<Rightarrow> 'a list \<Rightarrow> 'a list \<Rightarrow> 'a list \<times> 'a list" where
  "lane_round f c u v =
     (map (\<lambda>i. fst (f (c ! i) (u ! i) (v ! i))) [0..<length u], map (\<lambda>i. snd (f (c ! i) (u ! i) (v ! i))) [0..<length u])"

definition pass_order :: "(nat \<Rightarrow> 'c) \<Rightarrow> nat \<Rightarrow> nat \<Rightarrow> 'c list \<Rightarrow> nat list \<Rightarrow> nat \<Rightarrow> bool" where
  "pass_order z len nb c P n \<longleftrightarrow> length P = 2 * n \<and> 2 * n = nb * (2 * len) \<and>
     (\<forall>i<n. P ! i div (2 * len) < nb \<and> P ! i mod (2 * len) < len \<and> P ! (i + n) = P ! i + len \<and> c ! i = z (P ! i div (2 * len)))"

lemma length_gather [simp]: "length (gather x P) = length P"
  by (simp add: gather_def)

lemma gather_gather: "\<forall>i \<in> set Q. i < length P \<Longrightarrow> gather (gather x P) Q = gather x (map (\<lambda>i. P ! i) Q)"
  by (simp add: gather_def)

lemma gather_id: "length x = n \<Longrightarrow> gather x [0..<n] = x"
  using map_nth [of x] by (simp add: gather_def)

lemma lane_round_pass:
  assumes "pass_order z len nb c P n" "length x = 2 * n"
  shows "fst (lane_round f c (take n (gather x P)) (drop n (gather x P))) @
      snd (lane_round f c (take n (gather x P)) (drop n (gather x P))) =
    gather (ntt_pass (\<lambda>b. f (z b)) len nb x) P"
proof -
  have P: "length P = 2 * n" "2 * n = nb * (2 * len)" using assms(1) unfolding pass_order_def by blast+
  from assms(1) have o: "P ! i div (2 * len) < nb" "P ! i mod (2 * len) < len" "P ! (i + n) = P ! i + len" "c ! i = z (P ! i div (2 * len))"
    if "i < n" for i
    using that unfolding pass_order_def by blast+
  have x: "length x = nb * (2 * len)" using assms(2) P(2) by simp
  let ?y = "ntt_pass (\<lambda>b. f (z b)) len nb x"
  have n: "?y ! (P ! i) = fst (f (c ! i) (x ! (P ! i)) (x ! (P ! i + len)))"
    "?y ! (P ! i + len) = snd (f (c ! i) (x ! (P ! i)) (x ! (P ! i + len)))" if "i < n" for i
    using nth_ntt_pass [OF x o(1,2) [OF that], of "\<lambda>b. f (z b)"] o(4) [OF that]
    unfolding div_mult_mod_eq by simp_all
  have u: "length (take n (gather x P)) = n" using P by simp
  have h: "take n (gather x P) ! i = x ! (P ! i)" "drop n (gather x P) ! i = x ! (P ! i + len)" if "i < n" for i
  proof -
    have l: "i + n < length P" using P(1) that by simp
    show "take n (gather x P) ! i = x ! (P ! i)" using l that by (simp add: gather_def)
    show "drop n (gather x P) ! i = x ! (P ! i + len)" using l o(3) [OF that] by (simp add: gather_def add.commute)
  qed
  show ?thesis
  proof (rule nth_equalityI)
    fix p
    assume "p < length (fst (lane_round f c (take n (gather x P)) (drop n (gather x P))) @
      snd (lane_round f c (take n (gather x P)) (drop n (gather x P))))"
    then consider "p < n" | "n \<le> p" "p - n < n" "p = p - n + n" unfolding lane_round_def u by force
    then show "(fst (lane_round f c (take n (gather x P)) (drop n (gather x P))) @
      snd (lane_round f c (take n (gather x P)) (drop n (gather x P)))) ! p = gather ?y P ! p"
    proof cases
      case 1
      then show ?thesis using P(1) n(1) [OF 1] h [OF 1] by (simp add: lane_round_def u gather_def nth_append)
    next
      case 2
      have "P ! p = P ! (p - n) + len" using o(3) [OF 2(2)] 2(3) by simp
      then show ?thesis using 2 P(1) n(2) [OF 2(2)] h [OF 2(2)] by (simp add: lane_round_def u gather_def nth_append)
    qed
  qed (use P in \<open>simp add: lane_round_def u\<close>)
qed

lemma vrgather_gather: "\<forall>i \<in> set idx. unat i < length x \<Longrightarrow> vrgather_vv x idx = gather x (map unat idx)"
  by (simp add: vrgather_vv_def gather_def)

lemma gathered_round:
  assumes B: "\<And>u v. length u = n \<Longrightarrow> length v = n \<Longrightarrow> B u v = lane_round f c u v"
    and x: "length x = 2 * n" and P': "pass_order z len nb c P' n" "P' = map (\<lambda>i. P ! unat i) idx" "\<forall>i \<in> set idx. unat i < length P"
  defines "s \<equiv> vrgather_vv (gather x P) idx"
  shows "vcreate_v (fst (B (vget_v n s 0) (vget_v n s 1))) (snd (B (vget_v n s 0) (vget_v n s 1))) =
    gather (ntt_pass (\<lambda>b. f (z b)) len nb x) P'"
proof -
  have s: "s = gather x P'"
    unfolding s_def using P'(2,3) by (simp add: vrgather_gather gather_gather comp_def)
  have l: "length s = 2 * n" using P'(1) by (simp add: s pass_order_def)
  have v: "vget_v n s 0 = take n s" "vget_v n s 1 = drop n s" using l by (simp_all add: vget_v_def)
  have "B (take n s) (drop n s) = lane_round f c (take n s) (drop n s)" using l by (intro B) simp_all
  then show ?thesis unfolding v vcreate_v_def by (simp only: s lane_round_pass [OF P'(1) x])
qed

lemma vbf_pass:
  assumes "length u = n" "length v = n"
  shows "fst (vbf f u v) @ snd (vbf f u v) = ntt_pass (\<lambda>b. f) n 1 (u @ v)"
proof -
  have "ntt_pass (\<lambda>b. vbf f) 1 1 [u, v] = [fst (vbf f u v), snd (vbf f u v)]"
    by (simp add: ntt_pass_def bfly_def case_prod_beta)
  then show ?thesis using concat_ntt_pass [of "[u, v]" 1 1 n "\<lambda>b. f"] assms by simp
qed

lemma gather_all: "length x = n \<Longrightarrow> P = [0..<n] \<Longrightarrow> gather x P = x"
  by (simp add: gather_id)

section \<open>Sixteen registers\<close>

text \<open>The passes over an array held in sixteen registers, written out.\<close>

lemma ntt_pass_16:
  "ntt_pass f 8 1 [v0, v1, v2, v3, v4, v5, v6, v7, v8, v9, va, vb, vc, vd, ve, vf] = [
      fst (f 0 v0 v8), fst (f 0 v1 v9), fst (f 0 v2 va), fst (f 0 v3 vb),
      fst (f 0 v4 vc), fst (f 0 v5 vd), fst (f 0 v6 ve), fst (f 0 v7 vf),
      snd (f 0 v0 v8), snd (f 0 v1 v9), snd (f 0 v2 va), snd (f 0 v3 vb),
      snd (f 0 v4 vc), snd (f 0 v5 vd), snd (f 0 v6 ve), snd (f 0 v7 vf)]"
  "ntt_pass f 4 2 [v0, v1, v2, v3, v4, v5, v6, v7, v8, v9, va, vb, vc, vd, ve, vf] = [
      fst (f 0 v0 v4), fst (f 0 v1 v5), fst (f 0 v2 v6), fst (f 0 v3 v7),
      snd (f 0 v0 v4), snd (f 0 v1 v5), snd (f 0 v2 v6), snd (f 0 v3 v7),
      fst (f 1 v8 vc), fst (f 1 v9 vd), fst (f 1 va ve), fst (f 1 vb vf),
      snd (f 1 v8 vc), snd (f 1 v9 vd), snd (f 1 va ve), snd (f 1 vb vf)]"
  "ntt_pass f 2 4 [v0, v1, v2, v3, v4, v5, v6, v7, v8, v9, va, vb, vc, vd, ve, vf] = [
      fst (f 0 v0 v2), fst (f 0 v1 v3), snd (f 0 v0 v2), snd (f 0 v1 v3),
      fst (f 1 v4 v6), fst (f 1 v5 v7), snd (f 1 v4 v6), snd (f 1 v5 v7),
      fst (f 2 v8 va), fst (f 2 v9 vb), snd (f 2 v8 va), snd (f 2 v9 vb),
      fst (f 3 vc ve), fst (f 3 vd vf), snd (f 3 vc ve), snd (f 3 vd vf)]"
  "ntt_pass f 1 8 [v0, v1, v2, v3, v4, v5, v6, v7, v8, v9, va, vb, vc, vd, ve, vf] = [
      fst (f 0 v0 v1), snd (f 0 v0 v1), fst (f 1 v2 v3), snd (f 1 v2 v3),
      fst (f 2 v4 v5), snd (f 2 v4 v5), fst (f 3 v6 v7), snd (f 3 v6 v7),
      fst (f 4 v8 v9), snd (f 4 v8 v9), fst (f 5 va vb), snd (f 5 va vb),
      fst (f 6 vc vd), snd (f 6 vc vd), fst (f 7 ve vf), snd (f 7 ve vf)]"
  by (simp_all add: ntt_pass_def bfly_def case_prod_beta upt_rec numeral_eq_Suc)

lemma fold_pairs_16:
  "fold (\<lambda>d a. h a ([v0, v1, v2, v3, v4, v5, v6, v7, v8, v9, va, vb, vc, vd, ve, vf] ! (2 * d)) ([v0, v1, v2, v3, v4, v5, v6, v7, v8, v9, va, vb, vc, vd, ve, vf] ! (2 * d + 1)) (c d)) [0..<8] a =
    h (h (h (h (h (h (h (h a v0 v1 (c 0)) v2 v3 (c 1)) v4 v5 (c 2)) v6 v7 (c 3)) v8 v9 (c 4)) va vb (c 5)) vc vd (c 6)) ve vf (c 7)"
  by (simp add: upt_rec numeral_eq_Suc)

lemma fold_registers_16:
  "fold (\<lambda>d a. h a ([v0, v1, v2, v3, v4, v5, v6, v7, v8, v9, va, vb, vc, vd, ve, vf] ! d) (c d)) [0..<16] a =
    h (h (h (h (h (h (h (h (h (h (h (h (h (h (h (h a v0 (c 0)) v1 (c 1)) v2 (c 2)) v3 (c 3)) v4 (c 4)) v5 (c 5)) v6 (c 6)) v7 (c 7)) v8 (c 8)) v9 (c 9)) va (c 10)) vb (c 11)) vc (c 12)) vd (c 13)) ve (c 14)) vf (c 15)"
  by (simp add: upt_rec numeral_eq_Suc)

section \<open>Registers stored in order\<close>

lemma length_vse [simp]: "off + min n (length x) \<le> length a \<Longrightarrow> length (vse a off x n) = length a"
  by (simp add: vse_def min.commute)

lemma chunk_vse:
  assumes "length x = w" "w * e + w \<le> length a" "w * c + w \<le> length a"
  shows "chunk w c (vse a (w * e) x w) = (if c = e then x else chunk w c a)"
proof (rule nth_equalityI)
  fix j
  assume "j < length (chunk w c (vse a (w * e) x w))"
  then have j: "j < w" by simp
  have *: "w * c + j < w * e" if "c < e" using that j mult_le_mono2 [of "Suc c" e w] by simp
  have **: "w * e + w \<le> w * c" if "e < c" using that mult_le_mono2 [of "Suc e" c w] by simp
  show "chunk w c (vse a (w * e) x w) ! j = (if c = e then x else chunk w c a) ! j"
    using j assms * ** by (cases c e rule: linorder_cases) (auto simp: vse_def overwrite_def nth_append min_absorb1)
qed (use assms in simp)

lemma fold_vse:
  assumes "\<And>d. d < n \<Longrightarrow> length (g d) = w" "w * (e0 + n) \<le> length a"
  defines "r \<equiv> fold (\<lambda>d a. vse a (w * (e0 + d)) (g d) w) [0..<n] a"
  shows "length r = length a"
    and "\<And>e. w * e + w \<le> length a \<Longrightarrow> chunk w e r = (if e0 \<le> e \<and> e < e0 + n then g (e - e0) else chunk w e a)"
proof -
  have "length r = length a \<and> (\<forall>e. w * e + w \<le> length a \<longrightarrow>
      chunk w e r = (if e0 \<le> e \<and> e < e0 + n then g (e - e0) else chunk w e a))"
    using assms(1,2) unfolding r_def
  proof (induction n)
    case (Suc n)
    let ?r = "fold (\<lambda>d a. vse a (w * (e0 + d)) (g d) w) [0..<n] a"
    have IH: "length ?r = length a" "\<And>e. w * e + w \<le> length a \<Longrightarrow>
        chunk w e ?r = (if e0 \<le> e \<and> e < e0 + n then g (e - e0) else chunk w e a)"
      using Suc by auto
    have l: "w * (e0 + n) + w \<le> length ?r" using Suc.prems(2) IH(1) by (simp add: algebra_simps)
    have g: "length (g n) = w" using Suc.prems(1) by simp
    have "length (vse ?r (w * (e0 + n)) (g n) w) = length a" using l g IH(1) by simp
    moreover have "chunk w e (vse ?r (w * (e0 + n)) (g n) w) = (if e0 \<le> e \<and> e < e0 + Suc n then g (e - e0) else chunk w e a)"
      if "w * e + w \<le> length a" for e
      unfolding chunk_vse [OF g l that [folded IH(1)]] using IH(2) [OF that] by auto
    ultimately show ?case by simp
  qed auto
  then show "length r = length a"
    and "\<And>e. w * e + w \<le> length a \<Longrightarrow> chunk w e r = (if e0 \<le> e \<and> e < e0 + n then g (e - e0) else chunk w e a)" by auto
qed

section \<open>A layer run register by register\<close>

lemma nth_bfly_run:
  assumes "w \<le> len" "start + len + w \<le> length r" "p < length r"
  shows "fold (bfly f len) [start..<start + w] r ! p =
    (if start \<le> p \<and> p < start + w then fst (f (r ! p) (r ! (p + len)))
     else if start + len \<le> p \<and> p < start + len + w then snd (f (r ! (p - len)) (r ! p))
     else r ! p)"
proof -
  let ?P = "\<lambda>i s. length s = length r \<and> (\<forall>p<length r. s ! p =
    (if start \<le> p \<and> p < i then fst (f (r ! p) (r ! (p + len)))
     else if start + len \<le> p \<and> p < i + len then snd (f (r ! (p - len)) (r ! p))
     else r ! p))"
  have "?P (start + w) (fold (bfly f len) [start..<start + w] r)"
  proof (rule fold_upt_inv [where P = ?P])
    fix i s
    assume i: "start \<le> i" "i < start + w" and P: "?P i s"
    then have "s ! i = r ! i" "s ! (i + len) = r ! (i + len)" "i + len < length s" "0 < len"
      using assms by auto
    note at_i = this
    show "?P (Suc i) (bfly f len i s)"
    proof (intro conjI allI impI)
      fix p
      assume p: "p < length r"
      consider "p = i" | "p = i + len" | "p \<noteq> i" "p \<noteq> i + len" by blast
      then show "bfly f len i s ! p =
          (if start \<le> p \<and> p < Suc i then fst (f (r ! p) (r ! (p + len)))
           else if start + len \<le> p \<and> p < Suc i + len then snd (f (r ! (p - len)) (r ! p))
           else r ! p)"
        using i P p at_i assms(1) by cases (auto simp: nth_bfly less_Suc_eq)
    qed (use P in simp)
  qed auto
  then show ?thesis using assms(3) by (auto simp: ac_simps)
qed

lemma vse_bfly:
  assumes "w \<le> len" "j + len + w \<le> length a"
  shows "vse (vse a j (fst (vbf f (vle a j w) (vle a (j + len) w))) w) (j + len) (snd (vbf f (vle a j w) (vle a (j + len) w))) w =
    fold (bfly f len) [j..<j + w] a"
proof (rule nth_equalityI)
  have l: "length (vle a j w) = w" "length (vle a (j + len) w) = w" using assms by (simp_all add: vle_def)
  show "length (vse (vse a j (fst (vbf f (vle a j w) (vle a (j + len) w))) w) (j + len) (snd (vbf f (vle a j w) (vle a (j + len) w))) w) =
      length (fold (bfly f len) [j..<j + w] a)" using assms l by simp
  fix p
  assume "p < length (vse (vse a j (fst (vbf f (vle a j w) (vle a (j + len) w))) w) (j + len) (snd (vbf f (vle a j w) (vle a (j + len) w))) w)"
  then have p: "p < length a" using assms l by simp
  show "vse (vse a j (fst (vbf f (vle a j w) (vle a (j + len) w))) w) (j + len) (snd (vbf f (vle a j w) (vle a (j + len) w))) w ! p =
      fold (bfly f len) [j..<j + w] a ! p"
    using nth_bfly_run [OF assms p, of f] assms p l
    by (auto simp: vse_def overwrite_def nth_append vbf_def vle_def min_absorb1 add.commute)
qed

lemma fold_groups: "fold (\<lambda>k. fold g [w * k..<w * k + w]) [0..<n] a = fold g [0..<w * n] a"
proof (induction n)
  case (Suc n)
  have "[0..<w * Suc n] = [0..<w * n] @ [w * n..<w * n + w]" using upt_add_eq_append [of 0 "w * n" w] by (simp add: add.commute)
  then show ?case using Suc by simp
qed simp

lemma chunk_chunk: "d < n \<Longrightarrow> chunk w d (chunk (w * n) k x) = chunk w (n * k + d) x"
proof (rule nth_equalityI)
  fix i
  assume "d < n" "i < length (chunk w d (chunk (w * n) k x))"
  then have "w * d + i < w * n" using mult_le_mono2 [of "Suc d" n w] by simp
  then show "chunk w d (chunk (w * n) k x) ! i = chunk w (n * k + d) x ! i"
    using \<open>i < _\<close> by (simp add: algebra_simps)
qed simp

lemma pairs_chunk:
  assumes "\<forall>v \<in> set rs. length v = w" "2 * d + 1 < length rs"
  shows "rs ! (2 * d) @ rs ! (2 * d + 1) = chunk (2 * w) d (concat rs)"
proof (rule nth_equalityI)
  have l: "length (rs ! (2 * d)) = w" "length (rs ! (2 * d + 1)) = w" using assms by simp_all
  show "length (rs ! (2 * d) @ rs ! (2 * d + 1)) = length (chunk (2 * w) d (concat rs))" using l by simp
  fix i
  assume "i < length (rs ! (2 * d) @ rs ! (2 * d + 1))"
  then have i: "i < 2 * w" using l by simp
  have e: "2 * w * d + i = (2 * d) * w + i" "i \<ge> w \<Longrightarrow> 2 * w * d + i = (2 * d + 1) * w + (i - w)" by (simp_all add: algebra_simps)
  show "(rs ! (2 * d) @ rs ! (2 * d + 1)) ! i = chunk (2 * w) d (concat rs) ! i"
  proof (cases "i < w")
    case True
    then show ?thesis using i l nth_concat_const [OF assms(1), of "2 * d" i] assms(2) by (simp add: nth_append e(1) del: add_mult_distrib)
  next
    case False
    then have "concat rs ! (2 * w * d + i) = rs ! (2 * d + 1) ! (i - w)"
      using i nth_concat_const [OF assms(1,2), of "i - w"] by (simp only: e(2) not_less)
    then show ?thesis using False i l by (simp add: nth_append)
  qed
qed

lemma fold_cong_length:
  assumes "\<And>k a. k < n \<Longrightarrow> length a = N \<Longrightarrow> F k a = G k a \<and> length (G k a) = N" "length a = N"
  shows "fold F [0..<n] a = fold G [0..<n] a"
proof -
  have "m \<le> n \<Longrightarrow> length (fold G [0..<m] a) = N \<and> fold F [0..<m] a = fold G [0..<m] a" for m
    by (induction m) (use assms in auto)
  then show ?thesis by blast
qed

text \<open>The chunks of a pass, with the sizes and operands spelt as the caller has them.\<close>

lemma chunk_pass:
  assumes "length r = n * S" "S = m * (2 * len)" "nb = n * m" "c < n" "\<And>b. b < m \<Longrightarrow> f (c * m + b) = g b"
  shows "chunk S c (ntt_pass f len nb r) = ntt_pass g len m (chunk S c r)"
proof -
  have "chunk S c (ntt_pass f len nb r) = ntt_pass (\<lambda>b. f (c * m + b)) len m (chunk S c r)"
    using chunk_ntt_pass [of r n m len c f] assms by simp
  also have "\<dots> = ntt_pass g len m (chunk S c r)" by (rule ntt_pass_cong) (simp_all add: assms)
  finally show ?thesis .
qed

lemma chunk_concat_map:
  assumes "\<And>i. i < n \<Longrightarrow> length (f i) = w" "e < n"
  shows "chunk w e (concat (map f [0..<n])) = f e"
  by (rule nth_equalityI) (simp_all add: nth_concat_chunks [OF assms(1) assms(2)] assms)

section \<open>Masks of a predicate\<close>

lemma vcompress_map: "vcompress_vm x (map P x) = filter P x"
  unfolding vcompress_vm_def by (induction x) simp_all

lemma vcpop_map: "vcpop_m (map P x) = length (filter P x)"
  unfolding vcpop_m_def by (induction x) simp_all

end
