(* ===== verification/Dsa_Rvv_Layers.thy ===== *)
theory Dsa_Rvv_Layers
  imports Dsa_Rvv Rvv_Pass Dsa_Ntt_Correct Dsa_Sampling
begin

text \<open>
  The vector butterflies of \<open>mldsa/rvv_poly.c\<close> are the scalar ones lane by lane, the rows of its tables are the
  zetas of one block of sixteen coefficients, and the layers computed inside two registers, between the
  permutations, are the inner layers of the scalar transforms on such a block.
\<close>

section \<open>Butterflies\<close>

text \<open>A lane of the vector reduction is the scalar reduction: the product taken in 32 bits is the one truncated to them.\<close>

lemma scast_mult_narrow: "sext32 (sext64 (x :: i32) * 58728449) = x * 58728449"
proof -
  have "modeq (2 ^ 32) (sint (sext32 (sext64 x * 58728449 :: i64))) (sint (sext64 x * 58728449 :: i64))"
    using sint_scast_modeq [where 'b = 32 and a = "sext64 x * 58728449 :: i64"] by simp
  also have "sint (sext64 x * 58728449 :: i64) = sint x * 58728449"
    using sint_lt [of x] sint_ge [of x] by (subst sint_mult_fit) simp_all
  also have "modeq (2 ^ 32) \<dots> (sint (x * 58728449))" using sint_mult_modeq [of x 58728449] by (simp add: modeq_sym)
  finally have "sint (sext32 (sext64 x * 58728449 :: i64)) = sint (x * 58728449)"
    using sint_lt [of "x * 58728449"] sint_ge [of "x * 58728449"] by (intro sint_unique) simp_all
  then show ?thesis by (rule signed_word_eqI)
qed

lemma mldsa_fq_redc2_map: "mldsa_fq_redc2 x = map mldsa_montgomery_reduce x"
proof (rule nth_equalityI)
  fix i assume "i < length (mldsa_fq_redc2 x)"
  then have "i < length x" by (simp add: mldsa_fq_redc2_def vnsra_wx_def vsub_vv_def vwmul_vx_def vmul_vx_def vncvt_x_x_w_def)
  then show "mldsa_fq_redc2 x ! i = map mldsa_montgomery_reduce x ! i"
    by (simp add: mldsa_fq_redc2_def mldsa_montgomery_reduce_def vnsra_wx_def vsub_vv_def vwmul_vx_def vmul_vx_def vncvt_x_x_w_def
      Let_def scast_mult_narrow)
qed (simp add: mldsa_fq_redc2_def vnsra_wx_def vsub_vv_def vwmul_vx_def vmul_vx_def vncvt_x_x_w_def)

lemma redc2_vwmul_vx: "mldsa_fq_redc2 (vwmul_vx u z) = map (dsa_mulr z) u"
  by (simp add: mldsa_fq_redc2_map vwmul_vx_def dsa_mulr_def mult.commute)

lemma redc2_vwmul_vv: "length u = length z \<Longrightarrow> mldsa_fq_redc2 (vwmul_vv u z) = map (\<lambda>i. dsa_mulr (z ! i) (u ! i)) [0..<length u]"
  by (rule nth_equalityI) (simp_all add: mldsa_fq_redc2_map vwmul_vv_def dsa_mulr_def mult.commute)

lemma RVV_BFLY_FX2_eq: "RVV_BFLY_FX2 u v z = vbf (dsa_ct z) u v"
  by (auto simp: RVV_BFLY_FX2_def redc2_vwmul_vx vbf_def dsa_ct_def Let_def vsub_vv_def vadd_vv_def intro!: nth_equalityI)

lemma RVV_BFLY_RX2_eq: "RVV_BFLY_RX2 u v z = vbf (dsa_gs z) u v"
  by (auto simp: RVV_BFLY_RX2_def redc2_vwmul_vx vbf_def dsa_gs_def Let_def vsub_vv_def vadd_vv_def intro!: nth_equalityI)

lemma RVV_BFLY_FV2_round: "length u = n \<Longrightarrow> length v = n \<Longrightarrow> length z = n \<Longrightarrow> RVV_BFLY_FV2 u v z = lane_round dsa_ct z u v"
  by (auto simp: RVV_BFLY_FV2_def redc2_vwmul_vv lane_round_def dsa_ct_def Let_def vsub_vv_def vadd_vv_def intro!: nth_equalityI)

lemma RVV_BFLY_RV2_round: "length u = n \<Longrightarrow> length v = n \<Longrightarrow> length z = n \<Longrightarrow> RVV_BFLY_RV2 u v z = lane_round dsa_gs z u v"
  by (auto simp: RVV_BFLY_RV2_def redc2_vwmul_vv lane_round_def dsa_gs_def Let_def vsub_vv_def vadd_vv_def intro!: nth_equalityI)

section \<open>Permutations and tables\<close>

lemma mldsa_perms:
  "mldsa_bitswap_perm 2 3 16 = [0, 1, 2, 3, 8, 9, 10, 11, 4, 5, 6, 7, 12, 13, 14, 15]"
  "mldsa_bitswap_perm 1 3 16 = [0, 1, 8, 9, 4, 5, 12, 13, 2, 3, 10, 11, 6, 7, 14, 15]"
  "mldsa_bitswap_perm 0 3 16 = [0, 8, 2, 10, 4, 12, 6, 14, 1, 9, 3, 11, 5, 13, 7, 15]"
  by code_simp+

lemma rvv_zetas_eq: "rvv_zetas = mldsa_zetas"
  by (simp add: rvv_zetas_def mldsa_zetas_def)

text \<open>Row \<open>e\<close> of the tables: the entries of the four inner layers of block \<open>e\<close>, and one of an outer layer.\<close>

definition zeta_row :: "nat \<Rightarrow> nat list" where
  "zeta_row e = [128 + 8 * e..<136 + 8 * e] @ [16 + e] @ [32 + 2 * e..<34 + 2 * e] @ [64 + 4 * e..<68 + 4 * e] @ [e]"

lemma rvv_zeta_rows: "rvv_zeta = concat (map (\<lambda>e. map (\<lambda>i. mldsa_zetas ! i) (zeta_row e)) [0..<16])"
  by code_simp

lemma rvv_izeta_rows:
  "rvv_izeta = concat (map (\<lambda>e. map (\<lambda>i. - (mldsa_zetas ! i))
    (map (\<lambda>j. 255 - (8 * e + j)) [0..<8] @ [31 - e] @ map (\<lambda>j. 63 - (2 * e + j)) [0..<2] @ map (\<lambda>j. 127 - (4 * e + j)) [0..<4]) @ [0]) [0..<16])"
  by code_simp

lemma vle_chunk: "w * e + k + n \<le> length xs \<Longrightarrow> k + n \<le> w \<Longrightarrow> vle xs (w * e + k) n = take n (drop k (chunk w e xs))"
  by (rule nth_equalityI) (simp_all add: vle_def add.assoc)

lemma rvv_zeta_row:
  assumes "e < 16"
  shows "chunk 16 e rvv_zeta = map (\<lambda>i. mldsa_zetas ! i) (zeta_row e)"
  unfolding rvv_zeta_rows by (rule nth_equalityI) (simp_all add: nth_concat_chunks [where w = 16] assms zeta_row_def)

lemma rvv_zeta_vle:
  assumes "e < 16"
  shows "vle rvv_zeta (16 * e) 8 = map (\<lambda>j. mldsa_zetas ! (128 + 8 * e + j)) [0..<8]"
    and "vle rvv_zeta (16 * e + 8) 8 = map (\<lambda>i. mldsa_zetas ! i)
      [16 + e, 32 + 2 * e, 33 + 2 * e, 64 + 4 * e, 65 + 4 * e, 66 + 4 * e, 67 + 4 * e, e]"
proof -
  have l: "length rvv_zeta = 256" by (simp add: rvv_zeta_def)
  have z: "zeta_row e = [128 + 8 * e, 129 + 8 * e, 130 + 8 * e, 131 + 8 * e, 132 + 8 * e, 133 + 8 * e, 134 + 8 * e, 135 + 8 * e,
      16 + e, 32 + 2 * e, 33 + 2 * e, 64 + 4 * e, 65 + 4 * e, 66 + 4 * e, 67 + 4 * e, e]"
    by (simp add: zeta_row_def upt_rec)
  show "vle rvv_zeta (16 * e) 8 = map (\<lambda>j. mldsa_zetas ! (128 + 8 * e + j)) [0..<8]"
    using vle_chunk [of 16 e 0 8 rvv_zeta] assms unfolding rvv_zeta_row [OF assms] z by (simp add: l upt_rec)
  show "vle rvv_zeta (16 * e + 8) 8 = map (\<lambda>i. mldsa_zetas ! i)
      [16 + e, 32 + 2 * e, 33 + 2 * e, 64 + 4 * e, 65 + 4 * e, 66 + 4 * e, 67 + 4 * e, e]"
    using vle_chunk [of 16 e 8 8 rvv_zeta] assms unfolding rvv_zeta_row [OF assms] z by (simp add: l)
qed

lemma rvv_izeta_row:
  assumes "e < 16"
  shows "chunk 16 e rvv_izeta = map (\<lambda>i. - (mldsa_zetas ! i))
    (map (\<lambda>j. 255 - (8 * e + j)) [0..<8] @ [31 - e] @ map (\<lambda>j. 63 - (2 * e + j)) [0..<2] @ map (\<lambda>j. 127 - (4 * e + j)) [0..<4]) @ [0]"
  unfolding rvv_izeta_rows by (rule nth_equalityI) (simp_all add: nth_concat_chunks [where w = 16] assms)

lemma rvv_izeta_vle:
  assumes "e < 16"
  shows "vle rvv_izeta (16 * e) 8 = map (\<lambda>j. - (mldsa_zetas ! (255 - (8 * e + j)))) [0..<8]"
    and "vle rvv_izeta (16 * e + 8) 8 = map (\<lambda>i. - (mldsa_zetas ! i))
      [31 - e, 63 - 2 * e, 63 - (2 * e + 1), 127 - 4 * e, 127 - (4 * e + 1), 127 - (4 * e + 2), 127 - (4 * e + 3)] @ [0]"
proof -
  have l: "length rvv_izeta = 256" by (simp add: rvv_izeta_def)
  show "vle rvv_izeta (16 * e) 8 = map (\<lambda>j. - (mldsa_zetas ! (255 - (8 * e + j)))) [0..<8]"
    using vle_chunk [of 16 e 0 8 rvv_izeta] assms unfolding rvv_izeta_row [OF assms] by (simp add: l upt_rec)
  show "vle rvv_izeta (16 * e + 8) 8 = map (\<lambda>i. - (mldsa_zetas ! i))
      [31 - e, 63 - 2 * e, 63 - (2 * e + 1), 127 - 4 * e, 127 - (4 * e + 1), 127 - (4 * e + 2), 127 - (4 * e + 3)] @ [0]"
    using vle_chunk [of 16 e 8 8 rvv_izeta] assms unfolding rvv_izeta_row [OF assms] by (simp add: l upt_rec)
qed

section \<open>The inner layers of the forward transform\<close>

text \<open>The four inner layers of block \<open>e\<close> of sixteen coefficients.\<close>

definition dsa_inner :: "nat \<Rightarrow> i32 list \<Rightarrow> i32 list" where
  "dsa_inner e x =
     (let x = ntt_pass (\<lambda>b. dsa_ct (mldsa_zetas ! (16 + e))) 8 1 x;
          x = ntt_pass (\<lambda>b. dsa_ct (mldsa_zetas ! (32 + 2 * e + b))) 4 2 x;
          x = ntt_pass (\<lambda>b. dsa_ct (mldsa_zetas ! (64 + 4 * e + b))) 2 4 x
      in ntt_pass (\<lambda>b. dsa_ct (mldsa_zetas ! (128 + 8 * e + b))) 1 8 x)"

lemma dsa_lanes:
  "vadd_vx (vsrl_vx (vid_v 8 :: u32 list) 2) 1 = [1, 1, 1, 1, 2, 2, 2, 2]"
  "vadd_vx (vsrl_vx (vid_v 8 :: u32 list) 1) 3 = [3, 3, 4, 4, 5, 5, 6, 6]"
  by code_simp+

lemma dsa_perm_products:
  "vrgather_vv (vrgather_vv (mldsa_bitswap_perm 0 3 16) (mldsa_bitswap_perm 1 3 16)) (mldsa_bitswap_perm 2 3 16) =
    [0, 8, 1, 9, 2, 10, 3, 11, 4, 12, 5, 13, 6, 14, 7, 15]"
  "vrgather_vv (vrgather_vv (mldsa_bitswap_perm 2 3 16) (mldsa_bitswap_perm 1 3 16)) (mldsa_bitswap_perm 0 3 16) =
    [0, 2, 4, 6, 8, 10, 12, 14, 1, 3, 5, 7, 9, 11, 13, 15]"
  by code_simp+

lemma length_dsa_inner [simp]: "length (dsa_inner e x) = length x"
  by (simp add: dsa_inner_def)

lemma mldsa_vector_ntt2_eq:
  assumes e: "e < 16" and v: "length v0 = 8" "length v1 = 8"
  shows "mldsa_vector_ntt2 a v0 v1 (16 * e) = vse a (16 * e) (dsa_inner e (v0 @ v1)) 16"
proof -
  let ?z = "\<lambda>i. mldsa_zetas ! i"
  let ?c4 = "[?z (32 + 2 * e), ?z (32 + 2 * e), ?z (32 + 2 * e), ?z (32 + 2 * e), ?z (33 + 2 * e), ?z (33 + 2 * e), ?z (33 + 2 * e), ?z (33 + 2 * e)]"
  let ?c2 = "[?z (64 + 4 * e), ?z (64 + 4 * e), ?z (65 + 4 * e), ?z (65 + 4 * e), ?z (66 + 4 * e), ?z (66 + 4 * e), ?z (67 + 4 * e), ?z (67 + 4 * e)]"
  let ?c1 = "map (\<lambda>j. ?z (128 + 8 * e + j)) [0..<8]"
  define x1 where "x1 = ntt_pass (\<lambda>b. dsa_ct (?z (16 + e))) 8 1 (v0 @ v1)"
  define x2 where "x2 = ntt_pass (\<lambda>b. dsa_ct (?z (32 + 2 * e + b))) 4 2 x1"
  define x3 where "x3 = ntt_pass (\<lambda>b. dsa_ct (?z (64 + 4 * e + b))) 2 4 x2"
  have len: "length x1 = 2 * 8" "length x2 = 2 * 8" "length x3 = 2 * 8" using v by (simp_all add: x1_def x2_def x3_def)
  have F: "RVV_BFLY_FV2 u v c = lane_round dsa_ct c u v" if "length c = 8" "length u = 8" "length v = 8" for u v c
    using that by (intro RVV_BFLY_FV2_round) simp_all
  have "vcreate_v (fst (RVV_BFLY_FX2 v0 v1 (?z (16 + e)))) (snd (RVV_BFLY_FX2 v0 v1 (?z (16 + e)))) = gather x1 [0..<16]"
    unfolding RVV_BFLY_FX2_eq vcreate_v_def vbf_pass [OF v] using len(1) by (simp add: x1_def gather_id)
  note r1 = this
  let ?i2 = "[0, 1, 2, 3, 8, 9, 10, 11, 4, 5, 6, 7, 12, 13, 14, 15] :: u32 list"
  let ?i3 = "[0, 1, 8, 9, 4, 5, 12, 13, 2, 3, 10, 11, 6, 7, 14, 15] :: u32 list"
  let ?i4 = "[0, 8, 2, 10, 4, 12, 6, 14, 1, 9, 3, 11, 5, 13, 7, 15] :: u32 list"
  let ?P2 = "[0, 1, 2, 3, 8, 9, 10, 11, 4, 5, 6, 7, 12, 13, 14, 15] :: nat list"
  let ?P3 = "[0, 1, 4, 5, 8, 9, 12, 13, 2, 3, 6, 7, 10, 11, 14, 15] :: nat list"
  let ?P4 = "[0, 2, 4, 6, 8, 10, 12, 14, 1, 3, 5, 7, 9, 11, 13, 15] :: nat list"
  have c1: "?c1 = [?z (128 + 8 * e), ?z (129 + 8 * e), ?z (130 + 8 * e), ?z (131 + 8 * e), ?z (132 + 8 * e), ?z (133 + 8 * e), ?z (134 + 8 * e), ?z (135 + 8 * e)]"
    by (simp add: upt_rec)
  have "pass_order (\<lambda>b. ?z (32 + 2 * e + b)) 4 2 ?c4 ?P2 8" "pass_order (\<lambda>b. ?z (64 + 4 * e + b)) 2 4 ?c2 ?P3 8"
    "pass_order (\<lambda>b. ?z (128 + 8 * e + b)) 1 8 ?c1 ?P4 8"
    unfolding c1 pass_order_def by (simp_all add: all_less_numeral all_less_1 flip: One_nat_def)
  note o = this
  have "?P2 = map (\<lambda>i. [0..<16] ! unat i) ?i2" "?P3 = map (\<lambda>i. ?P2 ! unat i) ?i3" "?P4 = map (\<lambda>i. ?P3 ! unat i) ?i4"
    by simp_all
  note p = this
  have r2: "vcreate_v (fst (RVV_BFLY_FV2 (vget_v 8 s 0) (vget_v 8 s 1) ?c4)) (snd (RVV_BFLY_FV2 (vget_v 8 s 0) (vget_v 8 s 1) ?c4)) =
      gather x2 ?P2" if "s = vrgather_vv (gather x1 [0..<16]) ?i2" for s
    unfolding that x2_def by (rule gathered_round [OF F len(1) o(1) p(1)]) simp_all
  have r3: "vcreate_v (fst (RVV_BFLY_FV2 (vget_v 8 s 0) (vget_v 8 s 1) ?c2)) (snd (RVV_BFLY_FV2 (vget_v 8 s 0) (vget_v 8 s 1) ?c2)) =
      gather x3 ?P3" if "s = vrgather_vv (gather x2 ?P2) ?i3" for s
    unfolding that x3_def by (rule gathered_round [OF F len(2) o(2) p(2)]) simp_all
  have r4: "vcreate_v (fst (RVV_BFLY_FV2 (vget_v 8 s 0) (vget_v 8 s 1) ?c1)) (snd (RVV_BFLY_FV2 (vget_v 8 s 0) (vget_v 8 s 1) ?c1)) =
      gather (dsa_inner e (v0 @ v1)) ?P4" if "s = vrgather_vv (gather x3 ?P3) ?i4" for s
    unfolding that dsa_inner_def Let_def x1_def [symmetric] x2_def [symmetric] x3_def [symmetric]
    by (rule gathered_round [OF F len(3) o(3) p(3)]) simp_all
  have fin: "vrgather_vv (gather (dsa_inner e (v0 @ v1)) ?P4) [0, 8, 1, 9, 2, 10, 3, 11, 4, 12, 5, 13, 6, 14, 7, 15 :: u32] = dsa_inner e (v0 @ v1)"
    using v by (subst vrgather_gather) (simp_all add: gather_gather gather_all upt_rec)
  have g: "vmv_x_s (vle rvv_zeta (16 * e + 8) 8) = ?z (16 + e)"
    "vrgather_vv (vle rvv_zeta (16 * e + 8) 8) [1, 1, 1, 1, 2, 2, 2, 2 :: u32] = ?c4"
    "vrgather_vv (vle rvv_zeta (16 * e + 8) 8) [3, 3, 4, 4, 5, 5, 6, 6 :: u32] = ?c2"
    unfolding rvv_zeta_vle [OF e] by (simp_all add: vmv_x_s_def vrgather_vv_def)
  have n: "(2 :: nat) * 8 = 16" by simp
  show ?thesis
    unfolding mldsa_vector_ntt2_def Let_def case_prod_beta n dsa_perm_products
    unfolding mldsa_perms dsa_lanes g rvv_zeta_vle(1) [OF e] r1 r2 [OF refl] r3 [OF refl] r4 [OF refl] fin ..
qed

section \<open>The inner layers of the inverse transform\<close>

definition dsa_inner_inv :: "nat \<Rightarrow> i32 list \<Rightarrow> i32 list" where
  "dsa_inner_inv e x =
     (let x = ntt_pass (\<lambda>b. dsa_gs (- (mldsa_zetas ! (255 - (8 * e + b))))) 1 8 x;
          x = ntt_pass (\<lambda>b. dsa_gs (- (mldsa_zetas ! (127 - (4 * e + b))))) 2 4 x;
          x = ntt_pass (\<lambda>b. dsa_gs (- (mldsa_zetas ! (63 - (2 * e + b))))) 4 2 x
      in ntt_pass (\<lambda>b. dsa_gs (- (mldsa_zetas ! (31 - e)))) 8 1 x)"

lemma length_dsa_inner_inv [simp]: "length (dsa_inner_inv e x) = length x"
  by (simp add: dsa_inner_inv_def)

lemma mldsa_vector_intt2_eq:
  assumes e: "e < 16" and x: "length x = 16"
  shows "mldsa_vector_intt2 x (16 * e) = dsa_inner_inv e x"
proof -
  let ?z = "\<lambda>i. - (mldsa_zetas ! i)"
  let ?c1 = "map (\<lambda>j. ?z (255 - (8 * e + j))) [0..<8]"
  let ?c2 = "[?z (127 - 4 * e), ?z (127 - 4 * e), ?z (127 - (4 * e + 1)), ?z (127 - (4 * e + 1)),
    ?z (127 - (4 * e + 2)), ?z (127 - (4 * e + 2)), ?z (127 - (4 * e + 3)), ?z (127 - (4 * e + 3))]"
  let ?c4 = "[?z (63 - 2 * e), ?z (63 - 2 * e), ?z (63 - 2 * e), ?z (63 - 2 * e),
    ?z (63 - (2 * e + 1)), ?z (63 - (2 * e + 1)), ?z (63 - (2 * e + 1)), ?z (63 - (2 * e + 1))]"
  define x1 where "x1 = ntt_pass (\<lambda>b. dsa_gs (?z (255 - (8 * e + b)))) 1 8 x"
  define x2 where "x2 = ntt_pass (\<lambda>b. dsa_gs (?z (127 - (4 * e + b)))) 2 4 x1"
  define x3 where "x3 = ntt_pass (\<lambda>b. dsa_gs (?z (63 - (2 * e + b)))) 4 2 x2"
  have len: "length x = 2 * 8" "length x1 = 2 * 8" "length x2 = 2 * 8" "length x3 = 2 * 8"
    using x by (simp_all add: x1_def x2_def x3_def)
  have F: "RVV_BFLY_RV2 u v c = lane_round dsa_gs c u v" if "length c = 8" "length u = 8" "length v = 8" for u v c
    using that by (intro RVV_BFLY_RV2_round) simp_all
  let ?i1 = "[0, 2, 4, 6, 8, 10, 12, 14, 1, 3, 5, 7, 9, 11, 13, 15] :: u32 list"
  let ?i2 = "[0, 8, 2, 10, 4, 12, 6, 14, 1, 9, 3, 11, 5, 13, 7, 15] :: u32 list"
  let ?i3 = "[0, 1, 8, 9, 4, 5, 12, 13, 2, 3, 10, 11, 6, 7, 14, 15] :: u32 list"
  let ?i4 = "[0, 1, 2, 3, 8, 9, 10, 11, 4, 5, 6, 7, 12, 13, 14, 15] :: u32 list"
  let ?P1 = "[0, 2, 4, 6, 8, 10, 12, 14, 1, 3, 5, 7, 9, 11, 13, 15] :: nat list"
  let ?P2 = "[0, 1, 4, 5, 8, 9, 12, 13, 2, 3, 6, 7, 10, 11, 14, 15] :: nat list"
  let ?P3 = "[0, 1, 2, 3, 8, 9, 10, 11, 4, 5, 6, 7, 12, 13, 14, 15] :: nat list"
  have c1: "?c1 = [?z (255 - 8 * e), ?z (255 - (8 * e + 1)), ?z (255 - (8 * e + 2)), ?z (255 - (8 * e + 3)),
      ?z (255 - (8 * e + 4)), ?z (255 - (8 * e + 5)), ?z (255 - (8 * e + 6)), ?z (255 - (8 * e + 7))]"
    by (simp add: upt_rec)
  have "pass_order (\<lambda>b. ?z (255 - (8 * e + b))) 1 8 ?c1 ?P1 8" "pass_order (\<lambda>b. ?z (127 - (4 * e + b))) 2 4 ?c2 ?P2 8"
    "pass_order (\<lambda>b. ?z (63 - (2 * e + b))) 4 2 ?c4 ?P3 8"
    unfolding c1 pass_order_def by (simp_all add: all_less_numeral all_less_1 flip: One_nat_def)
  note o = this
  have "?P1 = map (\<lambda>i. [0..<16] ! unat i) ?i1" "?P2 = map (\<lambda>i. ?P1 ! unat i) ?i2" "?P3 = map (\<lambda>i. ?P2 ! unat i) ?i3"
    by simp_all
  note p = this
  have x0: "x = gather x [0..<16]" using x by (simp add: gather_id)
  have r1: "vcreate_v (fst (RVV_BFLY_RV2 (vget_v 8 s 0) (vget_v 8 s 1) ?c1)) (snd (RVV_BFLY_RV2 (vget_v 8 s 0) (vget_v 8 s 1) ?c1)) =
      gather x1 ?P1" if "s = vrgather_vv x ?i1" for s
  proof -
    have s: "s = vrgather_vv (gather x [0..<16]) ?i1" using that x0 by simp
    show ?thesis unfolding s x1_def by (rule gathered_round [OF F len(1) o(1) p(1)]) simp_all
  qed
  have r2: "vcreate_v (fst (RVV_BFLY_RV2 (vget_v 8 s 0) (vget_v 8 s 1) ?c2)) (snd (RVV_BFLY_RV2 (vget_v 8 s 0) (vget_v 8 s 1) ?c2)) =
      gather x2 ?P2" if "s = vrgather_vv (gather x1 ?P1) ?i2" for s
    unfolding that x2_def by (rule gathered_round [OF F len(2) o(2) p(2)]) simp_all
  have r3: "vcreate_v (fst (RVV_BFLY_RV2 (vget_v 8 s 0) (vget_v 8 s 1) ?c4)) (snd (RVV_BFLY_RV2 (vget_v 8 s 0) (vget_v 8 s 1) ?c4)) =
      gather x3 ?P3" if "s = vrgather_vv (gather x2 ?P2) ?i3" for s
    unfolding that x3_def by (rule gathered_round [OF F len(3) o(3) p(3)]) simp_all
  have fin: "vrgather_vv (gather x3 ?P3) ?i4 = x3"
    using len(4) by (subst vrgather_gather) (simp_all add: gather_gather gather_all upt_rec)
  have r4: "vcreate_v (fst (RVV_BFLY_RX2 (vget_v 8 x3 0) (vget_v 8 x3 1) (?z (31 - e)))) (snd (RVV_BFLY_RX2 (vget_v 8 x3 0) (vget_v 8 x3 1) (?z (31 - e)))) =
      dsa_inner_inv e x"
  proof -
    have v: "length (vget_v 8 x3 0) = 8" "length (vget_v 8 x3 1) = 8" "vget_v 8 x3 0 @ vget_v 8 x3 1 = x3"
      using len(4) by (simp_all add: vget_v_def)
    show ?thesis
      unfolding RVV_BFLY_RX2_eq vcreate_v_def vbf_pass [OF v(1,2)] v(3)
        dsa_inner_inv_def Let_def x1_def [symmetric] x2_def [symmetric] x3_def [symmetric] ..
  qed
  have g: "vmv_x_s (vle rvv_izeta (16 * e + 8) 8) = ?z (31 - e)"
    "vrgather_vv (vle rvv_izeta (16 * e + 8) 8) [1, 1, 1, 1, 2, 2, 2, 2 :: u32] = ?c4"
    "vrgather_vv (vle rvv_izeta (16 * e + 8) 8) [3, 3, 4, 4, 5, 5, 6, 6 :: u32] = ?c2"
    unfolding rvv_izeta_vle [OF e] by (simp_all add: vmv_x_s_def vrgather_vv_def)
  have n: "(2 :: nat) * 8 = 16" by simp
  show ?thesis
    unfolding mldsa_vector_intt2_def Let_def case_prod_beta n dsa_perm_products
    unfolding mldsa_perms dsa_lanes g rvv_izeta_vle(1) [OF e] r1 [OF refl] r2 [OF refl] r3 [OF refl] fin r4 ..
qed

end
