(* ===== verification/Dsa_Rvv_Ntt.thy ===== *)
theory Dsa_Rvv_Ntt
  imports Dsa_Rvv_Layers
begin

text \<open>
  The forward vector transform equals the scalar one: its outer layers are passes over sixteen registers.
\<close>

section \<open>The outer layers of the forward transform\<close>

lemma vle_registers:
  assumes "w * n * k + w * n \<le> length a" "j < n"
  shows "vle a (w * n * k + j * w) w = chunk w j (chunk (w * n) k a)"
proof -
  have "j * w + w \<le> n * w" using mult_le_mono1 [of "Suc j" n w] assms(2) by simp
  then have "w * n * k + j * w + w \<le> length a" "\<And>i. i < w \<Longrightarrow> j * w + i < w * n" using assms(1) by (simp_all add: mult.commute)
  then show ?thesis by (intro nth_equalityI) (simp_all add: vle_def mult.commute add.assoc)
qed

text \<open>Layers two to four of half \<open>k\<close>, on its sixteen registers.\<close>

definition dsa_outer_regs :: "nat \<Rightarrow> i32 list list \<Rightarrow> i32 list list" where
  "dsa_outer_regs k vs =
     (let vs = ntt_pass (\<lambda>b. vbf (dsa_ct (mldsa_zetas ! (2 + k + b)))) 8 1 vs;
          vs = ntt_pass (\<lambda>b. vbf (dsa_ct (mldsa_zetas ! (4 + 2 * k + b)))) 4 2 vs
      in ntt_pass (\<lambda>b. vbf (dsa_ct (mldsa_zetas ! (8 + 4 * k + b)))) 2 4 vs)"

lemma rvv_zeta_15: "e < 16 \<Longrightarrow> rvv_zeta ! (16 * e + 15) = mldsa_zetas ! e"
proof -
  assume e: "e < 16"
  have "rvv_zeta ! (16 * e + 15) = chunk 16 e rvv_zeta ! 15" by simp
  then show ?thesis unfolding rvv_zeta_row [OF e] by (simp add: zeta_row_def nth_append)
qed

lemma length_dsa_outer_regs:
  assumes "length vs = 16" "\<forall>v \<in> set vs. length v = 8"
  shows "length (dsa_outer_regs k vs) = 16" "\<forall>v \<in> set (dsa_outer_regs k vs). length v = 8"
proof -
  show "length (dsa_outer_regs k vs) = 16" using assms(1) by (simp add: dsa_outer_regs_def)
  show "\<forall>v \<in> set (dsa_outer_regs k vs). length v = 8" unfolding dsa_outer_regs_def Let_def
    by (intro ntt_pass_const_length assms(2)) (simp_all add: assms(1))
qed

lemma rvv_mldsa_ntt_half_regs:
  assumes "k < 2" "length a = 256"
  shows "rvv_mldsa_ntt_half (128 * k) a =
    (let rs = dsa_outer_regs k (map (\<lambda>j. chunk 8 j (chunk 128 k a)) [0..<16])
     in fold (\<lambda>d a. mldsa_vector_ntt2 a (rs ! (2 * d)) (rs ! (2 * d + 1)) (16 * (8 * k + d))) [0..<8] a)"
proof -
  have r: "vle a (128 * k + j * 8) 8 = chunk 8 j (chunk 128 k a)" if "j < 16" for j
    using vle_registers [of 8 16 k a j] assms that by simp
  have r0: "vle a (128 * k) 8 = chunk 8 0 (chunk 128 k a)" using r [of 0] by simp
  have z: "rvv_zeta ! (0x2F + 128 * k div 8) = mldsa_zetas ! (2 + k)" "rvv_zeta ! (0x4F + 128 * k div 4) = mldsa_zetas ! (4 + 2 * k)"
    "rvv_zeta ! (0x5F + 128 * k div 4) = mldsa_zetas ! (4 + 2 * k + 1)" "rvv_zeta ! (0x8F + 128 * k div 2) = mldsa_zetas ! (8 + 4 * k)"
    "rvv_zeta ! (0x9F + 128 * k div 2) = mldsa_zetas ! (8 + 4 * k + 1)" "rvv_zeta ! (0xAF + 128 * k div 2) = mldsa_zetas ! (8 + 4 * k + 2)"
    "rvv_zeta ! (0xBF + 128 * k div 2) = mldsa_zetas ! (8 + 4 * k + 3)"
    using rvv_zeta_15 [of "2 + k"] rvv_zeta_15 [of "4 + 2 * k"] rvv_zeta_15 [of "5 + 2 * k"]
      rvv_zeta_15 [of "8 + 4 * k"] rvv_zeta_15 [of "9 + 4 * k"] rvv_zeta_15 [of "10 + 4 * k"] rvv_zeta_15 [of "11 + 4 * k"] assms(1)
    by (simp_all add: algebra_simps)
  let ?r = "\<lambda>j. chunk 8 j (chunk 128 k a)"
  have rr: "vle a (128 * k + 0 * 8) 8 = ?r 0"
    "vle a (128 * k + 1 * 8) 8 = ?r 1"
    "vle a (128 * k + 2 * 8) 8 = ?r 2"
    "vle a (128 * k + 3 * 8) 8 = ?r 3"
    "vle a (128 * k + 4 * 8) 8 = ?r 4"
    "vle a (128 * k + 5 * 8) 8 = ?r 5"
    "vle a (128 * k + 6 * 8) 8 = ?r 6"
    "vle a (128 * k + 7 * 8) 8 = ?r 7"
    "vle a (128 * k + 8 * 8) 8 = ?r 8"
    "vle a (128 * k + 9 * 8) 8 = ?r 9"
    "vle a (128 * k + 10 * 8) 8 = ?r 10"
    "vle a (128 * k + 11 * 8) 8 = ?r 11"
    "vle a (128 * k + 12 * 8) 8 = ?r 12"
    "vle a (128 * k + 13 * 8) 8 = ?r 13"
    "vle a (128 * k + 14 * 8) 8 = ?r 14"
    "vle a (128 * k + 15 * 8) 8 = ?r 15"
    by (rule r, simp)+
  have m: "map ?r [0..<16] = [?r 0, ?r 1, ?r 2, ?r 3, ?r 4, ?r 5, ?r 6, ?r 7, ?r 8, ?r 9, ?r 10, ?r 11, ?r 12, ?r 13, ?r 14, ?r 15]"
    by (simp add: upt_rec numeral_eq_Suc)
  have o: "128 * k + 2 * 8 = 16 * (8 * k + 1)" "128 * k + 4 * 8 = 16 * (8 * k + 2)" "128 * k + 6 * 8 = 16 * (8 * k + 3)"
    "128 * k + 8 * 8 = 16 * (8 * k + 4)" "128 * k + 10 * 8 = 16 * (8 * k + 5)" "128 * k + 12 * 8 = 16 * (8 * k + 6)"
    "128 * k + 14 * 8 = 16 * (8 * k + 7)" "128 * k = 16 * (8 * k)" by simp_all
  show ?thesis
    unfolding rvv_mldsa_ntt_half_def dsa_outer_regs_def Let_def case_prod_beta RVV_BFLY_FX2_eq z rr m ntt_pass_16 fold_pairs_16 [where h = mldsa_vector_ntt2 and c = "\<lambda>d. 16 * (8 * k + d)"] o [symmetric] add_0_right
    by (rule refl)
qed

text \<open>The same layers on the whole array.\<close>

definition dsa_outer :: "i32 list \<Rightarrow> i32 list" where
  "dsa_outer a =
     (let a = ntt_pass (\<lambda>b. dsa_ct (mldsa_zetas ! (2 + b))) 64 2 a;
          a = ntt_pass (\<lambda>b. dsa_ct (mldsa_zetas ! (4 + b))) 32 4 a
      in ntt_pass (\<lambda>b. dsa_ct (mldsa_zetas ! (8 + b))) 16 8 a)"

lemma concat_registers: "concat (map (\<lambda>j. chunk w j (chunk (w * n) k a)) [0..<n]) = chunk (w * n) k a"
  by (rule concat_chunks) (simp add: mult.commute)

lemma dsa_outer_half:
  assumes "k < 2" "length a = 256"
  shows "chunk 128 k (dsa_outer a) = concat (dsa_outer_regs k (map (\<lambda>j. chunk 8 j (chunk 128 k a)) [0..<16]))"
proof -
  define vs where "vs = map (\<lambda>j. chunk 8 j (chunk 128 k a)) [0..<16]"
  define v1 where "v1 = ntt_pass (\<lambda>b. vbf (dsa_ct (mldsa_zetas ! (2 + k + b)))) 8 1 vs"
  define v2 where "v2 = ntt_pass (\<lambda>b. vbf (dsa_ct (mldsa_zetas ! (4 + 2 * k + b)))) 4 2 v1"
  define r1 where "r1 = ntt_pass (\<lambda>b. dsa_ct (mldsa_zetas ! (2 + b))) 64 2 a"
  define r2 where "r2 = ntt_pass (\<lambda>b. dsa_ct (mldsa_zetas ! (4 + b))) 32 4 r1"
  have vs: "length vs = 1 * (2 * 8)" "\<forall>v \<in> set vs. length v = 8" by (auto simp: vs_def)
  have v1: "length v1 = 2 * (2 * 4)" "\<forall>v \<in> set v1. length v = 8"
    using vs(1) ntt_pass_const_length [OF vs] by (simp_all add: v1_def)
  have v2: "length v2 = 4 * (2 * 2)" "\<forall>v \<in> set v2. length v = 8"
    using v1(1) ntt_pass_const_length [OF v1] by (simp_all add: v2_def)
  have r: "length a = 2 * (1 * (2 * 64))" "length r1 = 2 * (2 * (2 * 32))" "length r2 = 2 * (4 * (2 * 16))"
    using assms(2) by (simp_all add: r1_def r2_def)
  have z: "2 + (k * 1 + b) = 2 + k + b" "4 + (k * 2 + b) = 4 + 2 * k + b" "8 + (k * 4 + b) = 8 + 4 * k + b" for b by simp_all
  have "concat vs = chunk 128 k a" using concat_registers [of 8 16 k a] by (simp add: vs_def)
  then have "concat v1 = chunk 128 k r1"
    using concat_ntt_pass [OF vs] chunk_ntt_pass [OF r(1) assms(1)] by (simp add: v1_def r1_def z(1))
  then have "concat v2 = chunk 128 k r2"
    using concat_ntt_pass [OF v1] chunk_ntt_pass [OF r(2) assms(1)] by (simp add: v2_def r2_def z(2))
  then have "concat (ntt_pass (\<lambda>b. vbf (dsa_ct (mldsa_zetas ! (8 + 4 * k + b)))) 2 4 v2) =
      chunk 128 k (ntt_pass (\<lambda>b. dsa_ct (mldsa_zetas ! (8 + b))) 16 8 r2)"
    using concat_ntt_pass [OF v2] chunk_ntt_pass [OF r(3) assms(1)] by (simp add: z(3))
  then show ?thesis unfolding dsa_outer_def dsa_outer_regs_def Let_def vs_def v1_def v2_def r1_def r2_def by simp
qed

lemma rvv_mldsa_ntt_half_chunks:
  assumes k: "k < 2" and a: "length a = 256"
  shows "length (rvv_mldsa_ntt_half (128 * k) a) = 256"
    and "e < 16 \<Longrightarrow> chunk 16 e (rvv_mldsa_ntt_half (128 * k) a) =
      (if 8 * k \<le> e \<and> e < 8 * k + 8 then dsa_inner e (chunk 16 e (dsa_outer a)) else chunk 16 e a)"
proof -
  define rs where "rs = dsa_outer_regs k (map (\<lambda>j. chunk 8 j (chunk 128 k a)) [0..<16])"
  have rs: "length rs = 16" "\<forall>v \<in> set rs. length v = 8"
    unfolding rs_def by (rule length_dsa_outer_regs; simp)+
  let ?g = "\<lambda>d. dsa_inner (8 * k + d) (rs ! (2 * d) @ rs ! (2 * d + 1))"
  have E: "rvv_mldsa_ntt_half (128 * k) a = fold (\<lambda>d a. vse a (16 * (8 * k + d)) (?g d) 16) [0..<8] a"
    unfolding rvv_mldsa_ntt_half_regs [OF k a] Let_def rs_def [symmetric]
  proof (intro fold_cong refl ext)
    fix d a
    assume "d \<in> set [0..<8]"
    then show "mldsa_vector_ntt2 a (rs ! (2 * d)) (rs ! (2 * d + 1)) (16 * (8 * k + d)) = vse a (16 * (8 * k + d)) (?g d) 16"
      using k rs by (intro mldsa_vector_ntt2_eq) simp_all
  qed
  have "16 * (8 * k + 8) \<le> length a" using k a by simp
  note F = fold_vse [of 8 ?g 16 "8 * k" a, OF _ this, folded E]
  have l: "length (?g d) = 16" if "d < 8" for d using rs that by simp
  show "length (rvv_mldsa_ntt_half (128 * k) a) = 256" using F(1) l a by simp
  assume e: "e < 16"
  have "?g (e - 8 * k) = dsa_inner e (chunk 16 e (dsa_outer a))" if "8 * k \<le> e" "e < 8 * k + 8"
  proof -
    have d: "e - 8 * k < 8" "8 * k + (e - 8 * k) = e" using that by simp_all
    have "rs ! (2 * (e - 8 * k)) @ rs ! (2 * (e - 8 * k) + 1) = chunk 16 (e - 8 * k) (concat rs)"
      using pairs_chunk [OF rs(2), of "e - 8 * k"] d(1) rs(1) by simp
    also have "concat rs = chunk 128 k (dsa_outer a)" unfolding rs_def by (rule dsa_outer_half [OF k a, symmetric])
    also have "chunk 16 (e - 8 * k) \<dots> = chunk 16 e (dsa_outer a)"
      using chunk_chunk [OF d(1), of 16 k "dsa_outer a"] d(2) by simp
    finally show ?thesis by (simp add: d(2))
  qed
  then show "chunk 16 e (rvv_mldsa_ntt_half (128 * k) a) =
      (if 8 * k \<le> e \<and> e < 8 * k + 8 then dsa_inner e (chunk 16 e (dsa_outer a)) else chunk 16 e a)"
    using F(2) [of e] l e a by simp
qed

section \<open>The forward transform\<close>

lemma mldsa_ntt_passes:
  "mldsa_ntt a =
     (let p = \<lambda>l. ntt_pass (\<lambda>b. dsa_ct (mldsa_zetas ! (2 ^ l + b))) (2 ^ (7 - l)) (2 ^ l)
      in p 7 (p 6 (p 5 (p 4 (p 3 (p 2 (p 1 (p 0 a))))))))"
proof -
  let ?p = "\<lambda>l. ntt_pass (\<lambda>b. dsa_ct (mldsa_zetas ! (2 ^ l + b))) (2 ^ (7 - l)) (2 ^ l)"
  have s: "mldsa_ntt_layers (2 ^ (7 - l)) (2 ^ l - 1) a = mldsa_ntt_layers (2 ^ (7 - l) div 2) (2 ^ Suc l - 1) (?p l a)" if "l < 8" for l a
    using mldsa_ntt_layers_step [OF that, of a] by simp
  have e: "mldsa_ntt_layers 0 k a = a" for k a by (simp add: mldsa_ntt_layers.simps)
  show ?thesis
    using s [of 0] s [of 1] s [of 2] s [of 3] s [of 4] s [of 5] s [of 6] s [of 7]
    by (simp add: mldsa_ntt_def e Let_def)
qed

lemma mldsa_ntt_inner:
  assumes "length a = 256"
  shows "mldsa_ntt a =
    concat (map (\<lambda>e. dsa_inner e (chunk 16 e (dsa_outer (ntt_pass (\<lambda>b. dsa_ct (mldsa_zetas ! 1)) 128 1 a)))) [0..<16])"
proof -
  define r3 where "r3 = dsa_outer (ntt_pass (\<lambda>b. dsa_ct (mldsa_zetas ! 1)) 128 1 a)"
  define r4 where "r4 = ntt_pass (\<lambda>b. dsa_ct (mldsa_zetas ! (16 + b))) 8 16 r3"
  define r5 where "r5 = ntt_pass (\<lambda>b. dsa_ct (mldsa_zetas ! (32 + b))) 4 32 r4"
  define r6 where "r6 = ntt_pass (\<lambda>b. dsa_ct (mldsa_zetas ! (64 + b))) 2 64 r5"
  define r7 where "r7 = ntt_pass (\<lambda>b. dsa_ct (mldsa_zetas ! (128 + b))) 1 128 r6"
  have p0: "ntt_pass (\<lambda>b. dsa_ct (mldsa_zetas ! (1 + b))) 128 1 a = ntt_pass (\<lambda>b. dsa_ct (mldsa_zetas ! 1)) 128 1 a"
    using assms by (intro ntt_pass_cong) simp_all
  have N: "mldsa_ntt a = r7"
    unfolding mldsa_ntt_passes Let_def r7_def r6_def r5_def r4_def r3_def dsa_outer_def p0 [symmetric] by simp
  have r: "length r3 = 16 * 16" "length r4 = 16 * 16" "length r5 = 16 * 16" "length r6 = 16 * 16"
    using assms by (simp_all add: r3_def r4_def r5_def r6_def dsa_outer_def)
  have i: "chunk 16 e r7 = dsa_inner e (chunk 16 e r3)" if e: "e < 16" for e
  proof -
    have "chunk 16 e r4 = ntt_pass (\<lambda>b. dsa_ct (mldsa_zetas ! (16 + e))) 8 1 (chunk 16 e r3)"
      unfolding r4_def by (rule chunk_pass [OF r(1) _ _ e]) simp_all
    moreover have "chunk 16 e r5 = ntt_pass (\<lambda>b. dsa_ct (mldsa_zetas ! (32 + 2 * e + b))) 4 2 (chunk 16 e r4)"
      unfolding r5_def by (rule chunk_pass [OF r(2) _ _ e]) (simp_all add: mult.commute add.assoc)
    moreover have "chunk 16 e r6 = ntt_pass (\<lambda>b. dsa_ct (mldsa_zetas ! (64 + 4 * e + b))) 2 4 (chunk 16 e r5)"
      unfolding r6_def by (rule chunk_pass [OF r(3) _ _ e]) (simp_all add: mult.commute add.assoc)
    moreover have "chunk 16 e r7 = ntt_pass (\<lambda>b. dsa_ct (mldsa_zetas ! (128 + 8 * e + b))) 1 8 (chunk 16 e r6)"
      unfolding r7_def by (rule chunk_pass [OF r(4) _ _ e]) (simp_all add: mult.commute add.assoc)
    ultimately show ?thesis by (simp only: dsa_inner_def Let_def)
  qed
  have "r7 = concat (map (\<lambda>e. chunk 16 e r7) [0..<16])"
    using r(4) by (intro concat_chunks [symmetric]) (simp add: r7_def)
  also have "map (\<lambda>e. chunk 16 e r7) [0..<16] = map (\<lambda>e. dsa_inner e (chunk 16 e r3)) [0..<16]"
    by (rule map_cong) (use i in auto)
  finally show ?thesis unfolding N r3_def .
qed

lemma rvv_mldsa_ntt_first_pass:
  assumes "length a = 256"
  shows "fold (\<lambda>k. rvv_mldsa_ntt_first (8 * k)) [0..<16] a = ntt_pass (\<lambda>b. dsa_ct (mldsa_zetas ! 1)) 128 1 a"
proof -
  let ?b = "bfly (dsa_ct (mldsa_zetas ! 1)) 128"
  have z: "rvv_zeta ! 0x1F = mldsa_zetas ! 1" using rvv_zeta_15 [of 1] by simp
  have f: "rvv_mldsa_ntt_first (8 * k) a = fold ?b [8 * k..<8 * k + 8] a" if "k < 16" "length a = 256" for k a
    using vse_bfly [of 8 128 "8 * k" a "dsa_ct (mldsa_zetas ! 1)"] that
    by (simp add: rvv_mldsa_ntt_first_def Let_def case_prod_beta RVV_BFLY_FX2_eq z)
  have "fold (\<lambda>k. rvv_mldsa_ntt_first (8 * k)) [0..<16] a = fold (\<lambda>k. fold ?b [8 * k..<8 * k + 8]) [0..<16] a"
    using f by (intro fold_cong_length [OF _ assms]) simp
  then show ?thesis unfolding fold_groups by (simp add: ntt_pass_def)
qed

text \<open>The vector transform \<open>mldsa_ntt\<close> of \<open>rvv_poly.c\<close> computes exactly what the scalar one does, on every array of
  256 coefficients, overflowing ones included: the layers done in registers, the bit swaps inside a register and the
  reordered table together are the eight layers of the loop.\<close>

lemma rvv_mldsa_ntt_eq:
  assumes "length a = 256"
  shows "rvv_mldsa_ntt a = mldsa_ntt a"
proof -
  define r where "r = ntt_pass (\<lambda>b. dsa_ct (mldsa_zetas ! 1)) 128 1 a"
  define h where "h = rvv_mldsa_ntt_half (128 * 0) r"
  have r: "length r = 256" using assms by (simp add: r_def)
  note H = rvv_mldsa_ntt_half_chunks [of 0 r, folded h_def, OF _ r, simplified]
  have e: "rvv_mldsa_ntt a = rvv_mldsa_ntt_half (128 * 1) h"
    unfolding rvv_mldsa_ntt_def Let_def rvv_mldsa_ntt_first_pass [OF assms] by (simp add: h_def r_def upt_rec)
  note G = rvv_mldsa_ntt_half_chunks [of 1 h, folded e, OF _ H(1), simplified]
  have c: "chunk 128 1 (dsa_outer h) = chunk 128 1 (dsa_outer r)"
  proof -
    have "chunk 128 1 h = chunk 128 1 r"
    proof (rule chunks_equalityI [of _ 8 16])
      fix c :: nat
      assume "c < 8"
      then show "chunk 16 c (chunk 128 1 h) = chunk 16 c (chunk 128 1 r)"
        using chunk_chunk [of c 8 16 1 h] chunk_chunk [of c 8 16 1 r] H(2) [of "8 + c"] by simp
    qed simp_all
    then show ?thesis using dsa_outer_half [of 1 h] dsa_outer_half [of 1 r] H(1) r by simp
  qed
  have "chunk 16 e (rvv_mldsa_ntt a) = dsa_inner e (chunk 16 e (dsa_outer r))" if "e < 16" for e
  proof (cases "8 \<le> e")
    case True
    then have "chunk 16 e (dsa_outer h) = chunk 16 e (dsa_outer r)"
      using chunk_chunk [of "e - 8" 8 16 1 "dsa_outer h"] chunk_chunk [of "e - 8" 8 16 1 "dsa_outer r"] c that by simp
    then show ?thesis using G(2) [OF that] True that by simp
  next
    case False
    then show ?thesis using G(2) [OF that] H(2) [OF that] that by simp
  qed
  then have "map (\<lambda>e. chunk 16 e (rvv_mldsa_ntt a)) [0..<16] = map (\<lambda>e. dsa_inner e (chunk 16 e (dsa_outer r))) [0..<16]"
    by simp
  moreover have "concat (map (\<lambda>e. chunk 16 e (rvv_mldsa_ntt a)) [0..<16]) = rvv_mldsa_ntt a"
    using G(1) by (intro concat_chunks) simp
  ultimately show ?thesis using mldsa_ntt_inner [OF assms] by (simp only: r_def)
qed

end
