(* ===== verification/Dsa_Rvv_Invntt.thy ===== *)
theory Dsa_Rvv_Invntt
  imports Dsa_Rvv_Ntt
begin

text \<open>
  The inverse vector transform equals the scalar one.
\<close>

section \<open>The outer layers of the inverse transform\<close>

text \<open>Layers five to seven of half \<open>k\<close>, on its sixteen registers.\<close>

definition dsa_outer_inv_regs :: "nat \<Rightarrow> i32 list list \<Rightarrow> i32 list list" where
  "dsa_outer_inv_regs k vs =
     (let vs = ntt_pass (\<lambda>b. vbf (dsa_gs (- (mldsa_zetas ! (15 - (4 * k + b)))))) 2 4 vs;
          vs = ntt_pass (\<lambda>b. vbf (dsa_gs (- (mldsa_zetas ! (7 - (2 * k + b)))))) 4 2 vs
      in ntt_pass (\<lambda>b. vbf (dsa_gs (- (mldsa_zetas ! (3 - (k + b)))))) 8 1 vs)"

lemma length_dsa_outer_inv_regs:
  assumes "length vs = 16" "\<forall>v \<in> set vs. length v = 8"
  shows "length (dsa_outer_inv_regs k vs) = 16" "\<forall>v \<in> set (dsa_outer_inv_regs k vs). length v = 8"
proof -
  show "length (dsa_outer_inv_regs k vs) = 16" using assms(1) by (simp add: dsa_outer_inv_regs_def)
  show "\<forall>v \<in> set (dsa_outer_inv_regs k vs). length v = 8" unfolding dsa_outer_inv_regs_def Let_def
    by (intro ntt_pass_const_length assms(2)) (simp_all add: assms(1))
qed

definition inner_inv_regs :: "nat \<Rightarrow> i32 list \<Rightarrow> i32 list list" where
  "inner_inv_regs k a = concat (map (\<lambda>d. let x = dsa_inner_inv (8 * k + d) (chunk 16 (8 * k + d) a) in [vget_v 8 x 0, vget_v 8 x 1]) [0..<8])"

lemma rvv_mldsa_invntt_half_regs:
  assumes "k < 2" "length a = 256"
  shows "rvv_mldsa_invntt_half (128 * k) a =
    fold (\<lambda>j r. vse r (8 * (16 * k + j)) (dsa_outer_inv_regs k (inner_inv_regs k a) ! j) 8) [0..<16] a"
proof -
  let ?x = "\<lambda>d. dsa_inner_inv (8 * k + d) (chunk 16 (8 * k + d) a)"
  have x: "mldsa_vector_intt2 (vle a (128 * k + 2 * d * 8) (2 * 8)) (128 * k + 2 * d * 8) = ?x d" if "d < 8" for d
  proof -
    have o: "128 * k + 2 * d * 8 = 16 * (8 * k + d)" by simp
    have v: "vle a (16 * (8 * k + d)) (2 * 8) = chunk 16 (8 * k + d) a"
      using vle_registers [of 16 1 "8 * k + d" a 0] assms that chunk_chunk [of 0 1 16 "8 * k + d" a] by simp
    show ?thesis unfolding o v by (rule mldsa_vector_intt2_eq) (use assms that in simp_all)
  qed
  have xx: "mldsa_vector_intt2 (vle a (128 * k) (2 * 8)) (128 * k) = ?x 0"
    "mldsa_vector_intt2 (vle a (128 * k + 2 * 8) (2 * 8)) (128 * k + 2 * 8) = ?x 1"
    "mldsa_vector_intt2 (vle a (128 * k + 4 * 8) (2 * 8)) (128 * k + 4 * 8) = ?x 2"
    "mldsa_vector_intt2 (vle a (128 * k + 6 * 8) (2 * 8)) (128 * k + 6 * 8) = ?x 3"
    "mldsa_vector_intt2 (vle a (128 * k + 8 * 8) (2 * 8)) (128 * k + 8 * 8) = ?x 4"
    "mldsa_vector_intt2 (vle a (128 * k + 10 * 8) (2 * 8)) (128 * k + 10 * 8) = ?x 5"
    "mldsa_vector_intt2 (vle a (128 * k + 12 * 8) (2 * 8)) (128 * k + 12 * 8) = ?x 6"
    "mldsa_vector_intt2 (vle a (128 * k + 14 * 8) (2 * 8)) (128 * k + 14 * 8) = ?x 7"
    using x [of 0] x [of 1] x [of 2] x [of 3] x [of 4] x [of 5] x [of 6] x [of 7] by simp_all
  have m: "inner_inv_regs k a = [vget_v 8 (?x 0) 0, vget_v 8 (?x 0) 1, vget_v 8 (?x 1) 0, vget_v 8 (?x 1) 1, vget_v 8 (?x 2) 0, vget_v 8 (?x 2) 1, vget_v 8 (?x 3) 0, vget_v 8 (?x 3) 1, vget_v 8 (?x 4) 0, vget_v 8 (?x 4) 1, vget_v 8 (?x 5) 0, vget_v 8 (?x 5) 1, vget_v 8 (?x 6) 0, vget_v 8 (?x 6) 1, vget_v 8 (?x 7) 0, vget_v 8 (?x 7) 1]"
    by (simp add: inner_inv_regs_def Let_def upt_rec numeral_eq_Suc)
  have o: "8 * (16 * k + 1) = 128 * k + 1 * 8"
    "8 * (16 * k + 2) = 128 * k + 2 * 8"
    "8 * (16 * k + 3) = 128 * k + 3 * 8"
    "8 * (16 * k + 4) = 128 * k + 4 * 8"
    "8 * (16 * k + 5) = 128 * k + 5 * 8"
    "8 * (16 * k + 6) = 128 * k + 6 * 8"
    "8 * (16 * k + 7) = 128 * k + 7 * 8"
    "8 * (16 * k + 8) = 128 * k + 8 * 8"
    "8 * (16 * k + 9) = 128 * k + 9 * 8"
    "8 * (16 * k + 10) = 128 * k + 10 * 8"
    "8 * (16 * k + 11) = 128 * k + 11 * 8"
    "8 * (16 * k + 12) = 128 * k + 12 * 8"
    "8 * (16 * k + 13) = 128 * k + 13 * 8"
    "8 * (16 * k + 14) = 128 * k + 14 * 8"
    "8 * (16 * k + 15) = 128 * k + 15 * 8"
    by simp_all
  have o0: "8 * (16 * k + 0) = 128 * k + 0 * 8" by simp
  have z: "- (rvv_zetas ! (15 - 128 * k div 32)) = - (mldsa_zetas ! (15 - (4 * k + 0)))"
    "- (rvv_zetas ! (15 - (128 * k div 32 + 1))) = - (mldsa_zetas ! (15 - (4 * k + 1)))"
    "- (rvv_zetas ! (15 - (128 * k div 32 + 2))) = - (mldsa_zetas ! (15 - (4 * k + 2)))"
    "- (rvv_zetas ! (15 - (128 * k div 32 + 3))) = - (mldsa_zetas ! (15 - (4 * k + 3)))"
    "- (rvv_zetas ! (7 - 128 * k div 64)) = - (mldsa_zetas ! (7 - (2 * k + 0)))"
    "- (rvv_zetas ! (7 - (128 * k div 64 + 1))) = - (mldsa_zetas ! (7 - (2 * k + 1)))"
    "- (rvv_zetas ! (3 - 128 * k div 128)) = - (mldsa_zetas ! (3 - (k + 0)))"
    unfolding rvv_zetas_eq by simp_all
  show ?thesis
    unfolding rvv_mldsa_invntt_half_def dsa_outer_inv_regs_def Let_def case_prod_beta RVV_BFLY_RX2_eq z xx m ntt_pass_16
      fold_registers_16 [where h = "\<lambda>a v j. vse a j v 8" and c = "\<lambda>j. 8 * (16 * k + j)"] o o0
    by (rule refl)
qed

text \<open>The same layers on the whole array.\<close>

definition dsa_outer_inv :: "i32 list \<Rightarrow> i32 list" where
  "dsa_outer_inv a =
     (let a = ntt_pass (\<lambda>b. dsa_gs (- (mldsa_zetas ! (15 - b)))) 16 8 a;
          a = ntt_pass (\<lambda>b. dsa_gs (- (mldsa_zetas ! (7 - b)))) 32 4 a
      in ntt_pass (\<lambda>b. dsa_gs (- (mldsa_zetas ! (3 - b)))) 64 2 a)"

definition inner_inv_all :: "i32 list \<Rightarrow> i32 list" where
  "inner_inv_all a = concat (map (\<lambda>e. dsa_inner_inv e (chunk 16 e a)) [0..<16])"

lemma inner_inv_regs_props:
  assumes "k < 2" "length a = 256"
  shows "length (inner_inv_regs k a) = 16" "\<forall>v \<in> set (inner_inv_regs k a). length v = 8"
    and "concat (inner_inv_regs k a) = chunk 128 k (inner_inv_all a)"
proof -
  let ?x = "\<lambda>d. dsa_inner_inv (8 * k + d) (chunk 16 (8 * k + d) a)"
  show "length (inner_inv_regs k a) = 16" by (simp add: inner_inv_regs_def Let_def length_concat_chunks [of 8 _ 2])
  show "\<forall>v \<in> set (inner_inv_regs k a). length v = 8" by (auto simp: inner_inv_regs_def Let_def vget_v_def)
  have "concat (inner_inv_regs k a) = concat (map ?x [0..<8])"
  proof -
    have "concat (concat (map (\<lambda>d. [vget_v 8 (?x d) 0, vget_v 8 (?x d) 1]) ds)) = concat (map ?x ds)" for ds
    proof (induction ds)
      case (Cons d ds)
      have "vget_v 8 (?x d) 0 @ vget_v 8 (?x d) 1 = ?x d" by (simp add: vget_v_def)
      then show ?case using Cons by (simp flip: append_assoc)
    qed simp
    then show ?thesis by (simp add: inner_inv_regs_def Let_def)
  qed
  also have "\<dots> = chunk 128 k (inner_inv_all a)"
  proof (rule chunks_equalityI [of _ 8 16])
    fix d :: nat
    assume d: "d < 8"
    have "chunk 16 d (chunk 128 k (inner_inv_all a)) = chunk 16 (8 * k + d) (inner_inv_all a)"
      using chunk_chunk [OF d, of 16 k "inner_inv_all a"] by simp
    also have "\<dots> = ?x d" unfolding inner_inv_all_def
      using assms d by (intro chunk_concat_map) simp_all
    finally show "chunk 16 d (concat (map ?x [0..<8])) = chunk 16 d (chunk 128 k (inner_inv_all a))"
      using d chunk_concat_map [of 8 ?x 16 d] by simp
  qed (simp_all add: length_concat_chunks [where w = 16])
  finally show "concat (inner_inv_regs k a) = chunk 128 k (inner_inv_all a)" .
qed

lemma dsa_outer_inv_half:
  assumes k: "k < 2" and a: "length a = 256"
  shows "concat (dsa_outer_inv_regs k (inner_inv_regs k a)) = chunk 128 k (dsa_outer_inv (inner_inv_all a))"
proof -
  define vs where "vs = inner_inv_regs k a"
  define v1 where "v1 = ntt_pass (\<lambda>b. vbf (dsa_gs (- (mldsa_zetas ! (15 - (4 * k + b)))))) 2 4 vs"
  define v2 where "v2 = ntt_pass (\<lambda>b. vbf (dsa_gs (- (mldsa_zetas ! (7 - (2 * k + b)))))) 4 2 v1"
  define r0 where "r0 = inner_inv_all a"
  define r1 where "r1 = ntt_pass (\<lambda>b. dsa_gs (- (mldsa_zetas ! (15 - b)))) 16 8 r0"
  define r2 where "r2 = ntt_pass (\<lambda>b. dsa_gs (- (mldsa_zetas ! (7 - b)))) 32 4 r1"
  have vs: "length vs = 4 * (2 * 2)" "\<forall>v \<in> set vs. length v = 8" using inner_inv_regs_props [OF assms] by (simp_all add: vs_def)
  have v1: "length v1 = 2 * (2 * 4)" "\<forall>v \<in> set v1. length v = 8"
    using vs(1) ntt_pass_const_length [OF vs] by (simp_all add: v1_def)
  have v2: "length v2 = 1 * (2 * 8)" "\<forall>v \<in> set v2. length v = 8"
    using v1(1) ntt_pass_const_length [OF v1] by (simp_all add: v2_def)
  have r0: "length r0 = 256" by (simp add: r0_def inner_inv_all_def length_concat_chunks [where w = 16])
  have r: "length r0 = 2 * 128" "length r1 = 2 * 128" "length r2 = 2 * 128"
    using r0 by (simp_all add: r1_def r2_def)
  have "concat vs = chunk 128 k r0" using inner_inv_regs_props(3) [OF assms] by (simp add: vs_def r0_def)
  moreover have "chunk 128 k r1 = ntt_pass (\<lambda>b. dsa_gs (- (mldsa_zetas ! (15 - (4 * k + b))))) 16 4 (chunk 128 k r0)"
    unfolding r1_def by (rule chunk_pass [OF r(1) _ _ k]) (simp_all add: mult.commute)
  ultimately have "concat v1 = chunk 128 k r1" using concat_ntt_pass [OF vs] by (simp add: v1_def)
  moreover have "chunk 128 k r2 = ntt_pass (\<lambda>b. dsa_gs (- (mldsa_zetas ! (7 - (2 * k + b))))) 32 2 (chunk 128 k r1)"
    unfolding r2_def by (rule chunk_pass [OF r(2) _ _ k]) (simp_all add: mult.commute)
  ultimately have "concat v2 = chunk 128 k r2" using concat_ntt_pass [OF v1] by (simp add: v2_def)
  moreover have "chunk 128 k (ntt_pass (\<lambda>b. dsa_gs (- (mldsa_zetas ! (3 - b)))) 64 2 r2) =
      ntt_pass (\<lambda>b. dsa_gs (- (mldsa_zetas ! (3 - (k + b))))) 64 1 (chunk 128 k r2)"
    by (rule chunk_pass [OF r(3) _ _ k]) simp_all
  ultimately have "concat (ntt_pass (\<lambda>b. vbf (dsa_gs (- (mldsa_zetas ! (3 - (k + b)))))) 8 1 v2) =
      chunk 128 k (ntt_pass (\<lambda>b. dsa_gs (- (mldsa_zetas ! (3 - b)))) 64 2 r2)"
    using concat_ntt_pass [OF v2] by simp
  then show ?thesis unfolding dsa_outer_inv_def dsa_outer_inv_regs_def Let_def vs_def v1_def v2_def r0_def r1_def r2_def .
qed

lemma rvv_mldsa_invntt_half_chunks:
  assumes k: "k < 2" and a: "length a = 256" and c: "c < 2"
  shows "length (rvv_mldsa_invntt_half (128 * k) a) = 256"
    and "chunk 128 c (rvv_mldsa_invntt_half (128 * k) a) =
      (if c = k then chunk 128 k (dsa_outer_inv (inner_inv_all a)) else chunk 128 c a)"
proof -
  define rs where "rs = dsa_outer_inv_regs k (inner_inv_regs k a)"
  have rs: "length rs = 16" "\<forall>v \<in> set rs. length v = 8"
    unfolding rs_def by (rule length_dsa_outer_inv_regs; rule inner_inv_regs_props [OF k a])+
  have E: "rvv_mldsa_invntt_half (128 * k) a = fold (\<lambda>j a. vse a (8 * (16 * k + j)) (rs ! j) 8) [0..<16] a"
    unfolding rs_def by (rule rvv_mldsa_invntt_half_regs [OF k a])
  have "8 * (16 * k + 16) \<le> length a" using k a by simp
  note F = fold_vse [of 16 "\<lambda>j. rs ! j" 8 "16 * k" a, OF _ this, folded E]
  have l: "length (rs ! j) = 8" if "j < 16" for j using rs that by simp
  show "length (rvv_mldsa_invntt_half (128 * k) a) = 256" using F(1) l a by simp
  show "chunk 128 c (rvv_mldsa_invntt_half (128 * k) a) =
      (if c = k then chunk 128 k (dsa_outer_inv (inner_inv_all a)) else chunk 128 c a)"
  proof (rule chunks_equalityI [of _ 16 8])
    fix j :: nat
    assume j: "j < 16"
    have "chunk 8 j (chunk 128 c (rvv_mldsa_invntt_half (128 * k) a)) = chunk 8 (16 * c + j) (rvv_mldsa_invntt_half (128 * k) a)"
      using chunk_chunk [OF j, of 8 c] by simp
    also have "\<dots> = (if c = k then rs ! j else chunk 8 (16 * c + j) a)"
      using F(2) [of "16 * c + j"] l c j a k by (auto simp: less_2_cases_iff)
    also have "rs ! j = chunk 8 j (concat rs)"
      using rs j nth_concat_const [OF rs(2), of j] by (intro nth_equalityI) (simp_all add: mult.commute)
    also have "concat rs = chunk 128 k (dsa_outer_inv (inner_inv_all a))" unfolding rs_def by (rule dsa_outer_inv_half [OF k a])
    finally show "chunk 8 j (chunk 128 c (rvv_mldsa_invntt_half (128 * k) a)) =
        chunk 8 j (if c = k then chunk 128 k (dsa_outer_inv (inner_inv_all a)) else chunk 128 c a)"
      using chunk_chunk [OF j, of 8 c a] by auto
  qed auto
qed

section \<open>The inverse transform\<close>

lemma mldsa_invntt_passes:
  assumes "length a = 256"
  shows "mldsa_invntt a =
     (let p = \<lambda>l. ntt_pass (\<lambda>b. dsa_gs (- (mldsa_zetas ! (2 * 2 ^ l - 1 - b)))) (2 ^ (7 - l)) (2 ^ l)
      in map (dsa_mulr 41978) (p 0 (p 1 (p 2 (p 3 (p 4 (p 5 (p 6 (p 7 a)))))))))"
proof -
  let ?p = "\<lambda>l. ntt_pass (\<lambda>b. dsa_gs (- (mldsa_zetas ! (2 * 2 ^ l - 1 - b)))) (2 ^ (7 - l)) (2 ^ l)"
  have s: "mldsa_invntt_layers (2 ^ (7 - l)) (2 * 2 ^ l) a = mldsa_invntt_layers (2 ^ (8 - l)) (2 ^ l) (?p l a)" if "l < 8" for l a
    using mldsa_invntt_layers_step [OF that, of a] by simp
  have e: "mldsa_invntt_layers 256 k a = a" for k a by (simp add: mldsa_invntt_layers.simps)
  have L: "mldsa_invntt_layers 1 256 a = ?p 0 (?p 1 (?p 2 (?p 3 (?p 4 (?p 5 (?p 6 (?p 7 a)))))))"
    using s [of 0] s [of 1] s [of 2] s [of 3] s [of 4] s [of 5] s [of 6] s [of 7] by (simp add: e)
  have "fold (\<lambda>j a. a[j := mldsa_montgomery_reduce (sext64 (41978 :: i32) * sext64 (a ! j))]) [0..<256] r = map (dsa_mulr 41978) r"
    if "length r = 256" for r
    using fold_upt_map [of "\<lambda>x. mldsa_montgomery_reduce (sext64 (41978 :: i32) * sext64 x)" r] that by (simp add: dsa_mulr_def)
  then show ?thesis unfolding mldsa_invntt_def Let_def L using assms by simp
qed

lemma mldsa_invntt_inner:
  assumes "length a = 256"
  shows "mldsa_invntt a = map (dsa_mulr 41978)
    (ntt_pass (\<lambda>b. dsa_gs (- (mldsa_zetas ! 1))) 128 1 (dsa_outer_inv (inner_inv_all a)))"
proof -
  define r7 where "r7 = ntt_pass (\<lambda>b. dsa_gs (- (mldsa_zetas ! (255 - b)))) 1 128 a"
  define r6 where "r6 = ntt_pass (\<lambda>b. dsa_gs (- (mldsa_zetas ! (127 - b)))) 2 64 r7"
  define r5 where "r5 = ntt_pass (\<lambda>b. dsa_gs (- (mldsa_zetas ! (63 - b)))) 4 32 r6"
  define r4 where "r4 = ntt_pass (\<lambda>b. dsa_gs (- (mldsa_zetas ! (31 - b)))) 8 16 r5"
  have r: "length a = 16 * 16" "length r7 = 16 * 16" "length r6 = 16 * 16" "length r5 = 16 * 16"
    using assms by (simp_all add: r7_def r6_def r5_def)
  have i: "chunk 16 e r4 = dsa_inner_inv e (chunk 16 e a)" if e: "e < 16" for e
  proof -
    have "chunk 16 e r7 = ntt_pass (\<lambda>b. dsa_gs (- (mldsa_zetas ! (255 - (8 * e + b))))) 1 8 (chunk 16 e a)"
      unfolding r7_def by (rule chunk_pass [OF r(1) _ _ e]) (simp_all add: mult.commute)
    moreover have "chunk 16 e r6 = ntt_pass (\<lambda>b. dsa_gs (- (mldsa_zetas ! (127 - (4 * e + b))))) 2 4 (chunk 16 e r7)"
      unfolding r6_def by (rule chunk_pass [OF r(2) _ _ e]) (simp_all add: mult.commute)
    moreover have "chunk 16 e r5 = ntt_pass (\<lambda>b. dsa_gs (- (mldsa_zetas ! (63 - (2 * e + b))))) 4 2 (chunk 16 e r6)"
      unfolding r5_def by (rule chunk_pass [OF r(3) _ _ e]) (simp_all add: mult.commute)
    moreover have "chunk 16 e r4 = ntt_pass (\<lambda>b. dsa_gs (- (mldsa_zetas ! (31 - e)))) 8 1 (chunk 16 e r5)"
      unfolding r4_def by (rule chunk_pass [OF r(4) _ _ e]) simp_all
    ultimately show ?thesis by (simp only: dsa_inner_inv_def Let_def)
  qed
  have "r4 = inner_inv_all a"
  proof (rule chunks_equalityI [of _ 16 16])
    show "length (inner_inv_all a) = 16 * 16" by (simp add: inner_inv_all_def length_concat_chunks [where w = 16])
    fix e :: nat
    assume "e < 16"
    then show "chunk 16 e r4 = chunk 16 e (inner_inv_all a)"
      using i chunk_concat_map [of 16 "\<lambda>e. dsa_inner_inv e (chunk 16 e a)" 16 e] by (simp add: inner_inv_all_def)
  qed (use r in \<open>simp add: r4_def\<close>)
  moreover define x where "x = dsa_outer_inv (inner_inv_all a)"
  moreover have "length x = 256"
    by (simp add: x_def dsa_outer_inv_def inner_inv_all_def length_concat_chunks [where w = 16])
  then have "ntt_pass (\<lambda>b. dsa_gs (- (mldsa_zetas ! (1 - b)))) 128 1 x = ntt_pass (\<lambda>b. dsa_gs (- (mldsa_zetas ! 1))) 128 1 x"
    by (intro ntt_pass_cong) simp_all
  moreover have "mldsa_invntt a = map (dsa_mulr 41978)
      (ntt_pass (\<lambda>b. dsa_gs (- (mldsa_zetas ! (1 - b)))) 128 1 (dsa_outer_inv r4))"
    unfolding mldsa_invntt_passes [OF assms] Let_def dsa_outer_inv_def
    by (simp add: r4_def r5_def r6_def r7_def)
  ultimately show ?thesis by simp
qed

text \<open>The last loop: a butterfly followed by the multiplication of both results.\<close>

lemma map_ntt_pass:
  assumes "length r = nb * (2 * len)"
  shows "map h (ntt_pass f len nb r) = ntt_pass (\<lambda>b x y. map_prod h h (f b x y)) len nb r"
proof (rule ntt_pass_eqI [OF assms])
  fix b m
  assume b: "b < nb" and m: "m < len"
  have l: "b * (2 * len) + m + len < length r" using chunk_index [of 0 1 b nb "m + len" len] b m assms by simp
  then show "map h (ntt_pass f len nb r) ! (b * (2 * len) + m) =
      fst (map_prod h h (f b (r ! (b * (2 * len) + m)) (r ! (b * (2 * len) + m + len)))) \<and>
    map h (ntt_pass f len nb r) ! (b * (2 * len) + m + len) =
      snd (map_prod h h (f b (r ! (b * (2 * len) + m)) (r ! (b * (2 * len) + m + len))))"
    using nth_ntt_pass [OF assms b m, of f] by simp
qed simp

lemma rvv_mldsa_invntt_last_pass:
  assumes "length a = 256"
  shows "fold (\<lambda>k. rvv_mldsa_invntt_last (8 * k)) [0..<16] a =
    map (dsa_mulr 41978) (ntt_pass (\<lambda>b. dsa_gs (- (mldsa_zetas ! 1))) 128 1 a)"
proof -
  let ?g = "\<lambda>x y. map_prod (dsa_mulr 41978) (dsa_mulr 41978) (dsa_gs (- (mldsa_zetas ! 1)) x y)"
  have m: "map (dsa_mulr 41978) (fst (vbf (dsa_gs z) u v)) = fst (vbf (\<lambda>x y. map_prod (dsa_mulr 41978) (dsa_mulr 41978) (dsa_gs z x y)) u v)"
    "map (dsa_mulr 41978) (snd (vbf (dsa_gs z) u v)) = snd (vbf (\<lambda>x y. map_prod (dsa_mulr 41978) (dsa_mulr 41978) (dsa_gs z x y)) u v)" for z u v
    by (simp_all add: vbf_def case_prod_beta comp_def)
  have f: "rvv_mldsa_invntt_last (8 * k) a = fold (bfly ?g 128) [8 * k..<8 * k + 8] a" if "k < 16" "length a = 256" for k a
    using vse_bfly [of 8 128 "8 * k" a ?g] that
    by (simp add: rvv_mldsa_invntt_last_def Let_def case_prod_beta RVV_BFLY_RX2_eq rvv_zetas_eq redc2_vwmul_vx m)
  have "fold (\<lambda>k. rvv_mldsa_invntt_last (8 * k)) [0..<16] a = fold (\<lambda>k. fold (bfly ?g 128) [8 * k..<8 * k + 8]) [0..<16] a"
    using f by (intro fold_cong_length [OF _ assms]) simp
  also have "\<dots> = ntt_pass (\<lambda>b. ?g) 128 1 a" unfolding fold_groups by (simp add: ntt_pass_def)
  also have "\<dots> = map (dsa_mulr 41978) (ntt_pass (\<lambda>b. dsa_gs (- (mldsa_zetas ! 1))) 128 1 a)"
    using assms by (intro map_ntt_pass [symmetric]) simp
  finally show ?thesis .
qed

text \<open>The vector transform \<open>mldsa_invntt\<close> of \<open>rvv_poly.c\<close> computes exactly what the scalar one does, the final
  multiplication by 41978 included, on every array of 256 coefficients.\<close>

lemma rvv_mldsa_invntt_eq:
  assumes "length a = 256"
  shows "rvv_mldsa_invntt a = mldsa_invntt a"
proof -
  define h where "h = rvv_mldsa_invntt_half (128 * 0) a"
  define g where "g = rvv_mldsa_invntt_half (128 * 1) h"
  note H = rvv_mldsa_invntt_half_chunks [of 0 a, folded h_def, OF _ assms]
  have h: "length h = 256" using H(1) [of 0] by simp
  note G = rvv_mldsa_invntt_half_chunks [of 1 h, folded g_def, OF _ h]
  have g: "length g = 256" using G(1) [of 0] by simp
  have c: "chunk 128 1 (dsa_outer_inv (inner_inv_all h)) = chunk 128 1 (dsa_outer_inv (inner_inv_all a))"
  proof -
    have "chunk 16 (8 + d) h = chunk 16 (8 + d) a" if "d < 8" for d
      using chunk_chunk [OF that, of 16 1 h] chunk_chunk [OF that, of 16 1 a] H(2) [of 1] by simp
    then have "inner_inv_regs 1 h = inner_inv_regs 1 a"
      unfolding inner_inv_regs_def by (intro arg_cong [where f = concat] map_cong) auto
    then show ?thesis using dsa_outer_inv_half [of 1 h] dsa_outer_inv_half [of 1 a] h assms by simp
  qed
  have "g = dsa_outer_inv (inner_inv_all a)"
  proof (rule chunks_equalityI [of _ 2 128])
    show "length (dsa_outer_inv (inner_inv_all a)) = 2 * 128"
      by (simp add: dsa_outer_inv_def inner_inv_all_def length_concat_chunks [where w = 16])
    fix k :: nat
    assume "k < 2"
    then show "chunk 128 k g = chunk 128 k (dsa_outer_inv (inner_inv_all a))"
      using G(2) [of k] H(2) [of k] c by (auto simp: less_2_cases_iff)
  qed (use g in simp)
  moreover have "rvv_mldsa_invntt a = fold (\<lambda>k. rvv_mldsa_invntt_last (8 * k)) [0..<16] g"
    by (simp add: rvv_mldsa_invntt_def g_def h_def upt_rec)
  ultimately show ?thesis
    using rvv_mldsa_invntt_last_pass [OF g] mldsa_invntt_inner [OF assms] by simp
qed

end
