(* ===== verification/Dsa_Rvv_Sampling.thy ===== *)
theory Dsa_Rvv_Sampling
  imports Dsa_Rvv Rvv_Pass
begin

text \<open>
  The vector loop of the rejection sampling accepts the candidates the scalar loop accepts, in the same order.
\<close>

section \<open>Rejection sampling, eight candidates at a time\<close>

definition dsa_cand24 :: "u8 list \<Rightarrow> nat \<Rightarrow> u32" where
  "dsa_cand24 buf pos =
     ((zext32 (buf ! pos) OR shl (zext32 (buf ! (pos + 1))) 8) OR shl (zext32 (buf ! (pos + 2))) 16) AND 0x7FFFFF"

abbreviation dsa_place24 :: "nat \<Rightarrow> nat \<Rightarrow> u32 \<Rightarrow> i32 list \<times> nat \<Rightarrow> i32 list \<times> nat" where
  "dsa_place24 \<equiv> place (\<lambda>t. t < MLDSA_PAR_Q) (\<lambda>t. t)"

lemma mldsa_rej_uniform_loop_step:
  assumes "pos + 3 \<le> buflen"
  shows "mldsa_rej_uniform_loop a off len buf buflen ctr pos =
    (case dsa_place24 off len (dsa_cand24 buf pos) (a, ctr) of (a, ctr) \<Rightarrow> mldsa_rej_uniform_loop a off len buf buflen ctr (pos + 3))"
proof (cases "ctr < len")
  case True
  then show ?thesis using assms
    by (subst mldsa_rej_uniform_loop.simps) (simp add: place_def dsa_cand24_def Let_def)
next
  case False
  then have "mldsa_rej_uniform_loop a off len buf buflen ctr p = (a, ctr)" for p
    by (subst mldsa_rej_uniform_loop.simps) simp
  then show ?thesis using False by (simp add: place_def)
qed

lemma mldsa_rej_uniform_loop_run:
  "pos + 3 * k \<le> buflen \<Longrightarrow>
    mldsa_rej_uniform_loop a off len buf buflen ctr pos =
      (case fold (dsa_place24 off len) (map (\<lambda>i. dsa_cand24 buf (pos + 3 * i)) [0..<k]) (a, ctr) of
        (a, ctr) \<Rightarrow> mldsa_rej_uniform_loop a off len buf buflen ctr (pos + 3 * k))"
proof (induction k)
  case (Suc k)
  then show ?case
    using mldsa_rej_uniform_loop_step [of "pos + 3 * k" buflen _ off len buf]
    by (auto simp: case_prod_beta algebra_simps)
qed simp

lemma rvv_mldsa_candidates_eq:
  "rvv_mldsa_candidates buf pos = map (\<lambda>i. dsa_cand24 buf (pos + 3 * i)) [0..<8]"
  by (rule nth_equalityI) (simp_all add: rvv_mldsa_candidates_def Let_def vzext_vf4_def vlseg_field_def vsll_vx_def
      vor_vv_def vand_vx_def dsa_cand24_def)

lemma rvv_mldsa_rej_loop_step:
  assumes "off + len \<le> length a" "ctr < len" "pos + 24 \<le> buflen"
  shows "rvv_mldsa_rej_loop a off len buf buflen ctr pos =
    (case fold (dsa_place24 off len) (rvv_mldsa_candidates buf pos) (a, ctr) of
      (a, ctr) \<Rightarrow> rvv_mldsa_rej_loop a off len buf buflen ctr (pos + 24))"
proof -
  let ?P = "\<lambda>t. t < (MLDSA_PAR_Q :: u32)"
  define x where "x = rvv_mldsa_candidates buf pos"
  have x: "length x = 8" by (simp add: x_def rvv_mldsa_candidates_eq)
  have all: "filter ?P x = x" if "length (filter ?P x) = 8"
    using that x length_filter_less [of _ x ?P] by (metis filter_True nat_less_le)
  have f: "fold (dsa_place24 off len) x (a, ctr) =
      (overwrite (off + ctr) (take (len - ctr) (filter ?P x)) a, ctr + min (len - ctr) (length (filter ?P x)))"
    using fold_place [OF assms(1), of ctr ?P "\<lambda>t. t" x] assms(2) by simp
  have t: "take (if n > len then len - ctr else length (filter ?P x)) (filter ?P x) = take (len - ctr) (filter ?P x)"
    if "n = ctr + length (filter ?P x)" for n using that by auto
  have m: "(if len - ctr < 8 then len - ctr else 8) = min (len - ctr) 8"
    "(if len < ctr + n then len - ctr else n) = min (len - ctr) n" for n using assms(2) by auto
  have tm: "take (min n (length ys)) ys = take n ys" for n and ys :: "u32 list" by (simp add: min_def)
  have lt: "vmsltu_vx x MLDSA_PAR_Q = map ?P x" by (simp add: vmsltu_vx_def)
  show ?thesis
  proof (cases "length (filter ?P x) = 8")
    case True
    then have "rvv_mldsa_rej_loop a off len buf buflen ctr pos =
        rvv_mldsa_rej_loop (overwrite (off + ctr) (take (min (len - ctr) 8) x) a) off len buf buflen (ctr + min (len - ctr) 8) (pos + 24)"
      using assms(2,3) by (subst rvv_mldsa_rej_loop.simps)
        (simp add: Let_def x_def [symmetric] lt vcpop_map vse_def m cong: if_weak_cong)
    then show ?thesis unfolding x_def [symmetric] f all [OF True] using x by (simp add: min_def)
  next
    case False
    then have "rvv_mldsa_rej_loop a off len buf buflen ctr pos =
        rvv_mldsa_rej_loop (overwrite (off + ctr) (take (min (len - ctr) (length (filter ?P x))) (filter ?P x)) a) off len buf buflen
          (ctr + min (len - ctr) (length (filter ?P x))) (pos + 24)"
      using assms(2,3) by (subst rvv_mldsa_rej_loop.simps)
        (simp add: Let_def x_def [symmetric] lt vcpop_map vcompress_map vse_def m cong: if_weak_cong)
    then show ?thesis unfolding x_def [symmetric] f by (simp add: tm)
  qed
qed

lemma rvv_mldsa_rej_loop_eq:
  "off + len \<le> length a \<Longrightarrow> ctr \<le> len \<Longrightarrow>
    (case rvv_mldsa_rej_loop a off len buf buflen ctr pos of
      (a, ctr, pos) \<Rightarrow> mldsa_rej_uniform_loop a off len buf buflen ctr pos) =
    mldsa_rej_uniform_loop a off len buf buflen ctr pos"
proof (induction "buflen - pos" arbitrary: a ctr pos rule: less_induct)
  case less
  show ?case
  proof (cases "ctr < len \<and> pos + 24 \<le> buflen")
    case False
    then show ?thesis by (subst rvv_mldsa_rej_loop.simps) auto
  next
    case True
    obtain a' ctr' where f: "fold (dsa_place24 off len) (rvv_mldsa_candidates buf pos) (a, ctr) = (a', ctr')" by fastforce
    have l: "length a' = length a" "ctr' \<le> len"
      using f fold_place [OF less.prems, of "\<lambda>t. t < MLDSA_PAR_Q" "\<lambda>t. t"] less.prems by auto
    have "mldsa_rej_uniform_loop a off len buf buflen ctr pos = mldsa_rej_uniform_loop a' off len buf buflen ctr' (pos + 24)"
      using mldsa_rej_uniform_loop_run [of pos 8 buflen a off len buf ctr] True f by (simp add: rvv_mldsa_candidates_eq)
    moreover have "rvv_mldsa_rej_loop a off len buf buflen ctr pos = rvv_mldsa_rej_loop a' off len buf buflen ctr' (pos + 24)"
      using rvv_mldsa_rej_loop_step [OF less.prems(1), of ctr pos buflen buf] True f by simp
    moreover have "(case rvv_mldsa_rej_loop a' off len buf buflen ctr' (pos + 24) of
        (a, ctr, pos) \<Rightarrow> mldsa_rej_uniform_loop a off len buf buflen ctr pos) =
      mldsa_rej_uniform_loop a' off len buf buflen ctr' (pos + 24)"
      using less.prems(1) l True by (intro less.hyps) auto
    ultimately show ?thesis by (simp only:)
  qed
qed

lemma rvv_mldsa_rej_uniform_scalar:
  assumes "off + len \<le> length a"
  shows "rvv_mldsa_rej_uniform a off len buf buflen = mldsa_rej_uniform a off len buf buflen"
  using rvv_mldsa_rej_loop_eq [OF assms, of 0 buf buflen 0]
  by (simp add: rvv_mldsa_rej_uniform_def mldsa_rej_uniform_def)

text \<open>C17: The vector \<open>mldsa_rej_uniform\<close> of \<open>rvv_poly.c\<close> leaves the same array and returns the same count as the
  scalar one, for every buffer and length: no candidate is skipped, reordered or written past \<open>len\<close>.\<close>

theorem rvv_mldsa_rej_uniform_eq:
  assumes "off + len \<le> length a"
  shows "rvv_mldsa_rej_uniform a off len buf buflen = mldsa_rej_uniform a off len buf buflen"
  using assms by (rule rvv_mldsa_rej_uniform_scalar)

theorem rvv_mldsa_rej_uniform_eq_witness:
  "rvv_mldsa_rej_uniform (replicate 10 0) 1 9 (map of_nat [0..<40]) 40 =
    mldsa_rej_uniform (replicate 10 0) 1 9 (map of_nat [0..<40]) 40"
  by (rule rvv_mldsa_rej_uniform_eq) simp


end
