(* ===== verification/Dsa_Rvv_Build.thy ===== *)
theory Dsa_Rvv_Build
  imports Dsa_Rvv_Sign Dsa_Rvv_Ntt Dsa_Rvv_Invntt Dsa_Rvv_Sampling Dsa_Sign_Verify
begin

text \<open>
  The vector build of ML-DSA against the scalar one, from the sampling of the matrix to the three functions of the
  interface.  The transforms agree on arrays of 256 coefficients, so what is proved on the way is that every polynomial
  the scheme transforms has that length; the two unbounded loops are compared by fixed-point induction in both directions.
\<close>

section \<open>Sampling\<close>

text \<open>A pass of the scalar loop keeps the array's length and does not overrun its room.\<close>

lemma mldsa_rej_uniform_loop_room:
  "ctr \<le> len \<Longrightarrow> length (fst (mldsa_rej_uniform_loop a off len buf buflen ctr pos)) = length a \<and>
    snd (mldsa_rej_uniform_loop a off len buf buflen ctr pos) \<le> len"
proof (induction "buflen - pos" arbitrary: a ctr pos rule: less_induct)
  case less
  show ?case
  proof (cases "ctr < len \<and> pos + 3 \<le> buflen")
    case True
    then have "buflen - (pos + 3) < buflen - pos" by linarith
    from less.hyps [OF this] True less.prems show ?thesis
      by (subst (1 2) mldsa_rej_uniform_loop.simps) (simp add: Let_def)
  next
    case False
    then show ?thesis using less.prems by (subst (1 2) mldsa_rej_uniform_loop.simps) auto
  qed
qed

lemma mldsa_rej_uniform_room:
  "length (fst (mldsa_rej_uniform a off len buf buflen)) = length a" "snd (mldsa_rej_uniform a off len buf buflen) \<le> len"
  using mldsa_rej_uniform_loop_room [of 0 len a off buf buflen 0] by (simp_all add: mldsa_rej_uniform_def)

text \<open>The body of the two refill loops, over the kernel and the recursive call.\<close>

definition uniform_body ::
  "(dpoly \<Rightarrow> nat \<Rightarrow> nat \<Rightarrow> u8 list \<Rightarrow> nat \<Rightarrow> dpoly \<times> nat) \<Rightarrow>
    (dpoly \<Rightarrow> nat \<Rightarrow> u8 list \<Rightarrow> nat \<Rightarrow> keccak_state \<Rightarrow> dpoly option) \<Rightarrow>
    dpoly \<Rightarrow> nat \<Rightarrow> u8 list \<Rightarrow> nat \<Rightarrow> keccak_state \<Rightarrow> dpoly option" where
  "uniform_body rej f a ctr buf buflen st =
     (if ctr < 256
      then let off = buflen mod 3; rest = map (\<lambda>i. buf ! (buflen - off + i)) [0..<off];
               (out, state) = shake128_squeezeblocks 1 st; buf = rest @ out; buflen = 168 + off;
               (a, n) = rej a ctr (256 - ctr) buf buflen
           in f a (ctr + n) buf buflen state
      else Some a)"

lemma uniform_body_kernel:
  "length a = 256 \<Longrightarrow> ctr \<le> 256 \<Longrightarrow>
    uniform_body rvv_mldsa_rej_uniform f a ctr buf buflen st = uniform_body mldsa_rej_uniform f a ctr buf buflen st"
  by (simp add: uniform_body_def rvv_mldsa_rej_uniform_scalar)

lemma uniform_body_mono:
  assumes "\<And>a ctr buf buflen st. f a ctr buf buflen st = Some r \<Longrightarrow> length a = 256 \<longrightarrow> ctr \<le> 256 \<longrightarrow> g a ctr buf buflen st = Some r"
    and "uniform_body mldsa_rej_uniform f a ctr buf buflen st = Some r" "length a = 256" "ctr \<le> 256"
  shows "uniform_body mldsa_rej_uniform g a ctr buf buflen st = Some r"
proof -
  have "ctr + snd (mldsa_rej_uniform a ctr (256 - ctr) bf l) \<le> 256" if "ctr < 256" for bf l
    using mldsa_rej_uniform_room(2) [of a ctr "256 - ctr" bf l] that by simp
  then show ?thesis
    using assms by (simp add: uniform_body_def Let_def case_prod_beta mldsa_rej_uniform_room split: if_splits)
qed

lemma rvv_poly_uniform_refill_imp:
  assumes "rvv_poly_uniform_refill a ctr buf buflen st = Some r"
  shows "length a = 256 \<longrightarrow> ctr \<le> 256 \<longrightarrow> poly_uniform_refill a ctr buf buflen st = Some r"
proof (rule rvv_poly_uniform_refill.raw_induct [OF _ assms], fold uniform_body_def, intro impI)
  fix f :: "dpoly \<Rightarrow> nat \<Rightarrow> u8 list \<Rightarrow> nat \<Rightarrow> keccak_state \<Rightarrow> dpoly option" and a ctr buf buflen st r
  assume IH: "\<And>a ctr buf buflen st r. f a ctr buf buflen st = Some r \<Longrightarrow>
      length a = 256 \<longrightarrow> ctr \<le> 256 \<longrightarrow> poly_uniform_refill a ctr buf buflen st = Some r"
    and body: "uniform_body rvv_mldsa_rej_uniform f a ctr buf buflen st = Some r" and l: "length a = 256" "ctr \<le> 256"
  then show "poly_uniform_refill a ctr buf buflen st = Some r"
    using uniform_body_mono [of f r poly_uniform_refill a ctr buf buflen st]
    by (subst poly_uniform_refill.simps, fold uniform_body_def) (simp add: uniform_body_kernel)
qed

lemma poly_uniform_refill_imp:
  assumes "poly_uniform_refill a ctr buf buflen st = Some r"
  shows "length a = 256 \<longrightarrow> ctr \<le> 256 \<longrightarrow> rvv_poly_uniform_refill a ctr buf buflen st = Some r"
proof (rule poly_uniform_refill.raw_induct [OF _ assms], fold uniform_body_def, intro impI)
  fix f :: "dpoly \<Rightarrow> nat \<Rightarrow> u8 list \<Rightarrow> nat \<Rightarrow> keccak_state \<Rightarrow> dpoly option" and a ctr buf buflen st r
  assume IH: "\<And>a ctr buf buflen st r. f a ctr buf buflen st = Some r \<Longrightarrow>
      length a = 256 \<longrightarrow> ctr \<le> 256 \<longrightarrow> rvv_poly_uniform_refill a ctr buf buflen st = Some r"
    and body: "uniform_body mldsa_rej_uniform f a ctr buf buflen st = Some r" and l: "length a = 256" "ctr \<le> 256"
  then show "rvv_poly_uniform_refill a ctr buf buflen st = Some r"
    using uniform_body_mono [of f r rvv_poly_uniform_refill a ctr buf buflen st]
    by (subst rvv_poly_uniform_refill.simps, fold uniform_body_def) (simp add: uniform_body_kernel)
qed

lemma rvv_poly_uniform_refill_eq:
  assumes "length a = 256" "ctr \<le> 256"
  shows "rvv_poly_uniform_refill a ctr buf buflen st = poly_uniform_refill a ctr buf buflen st"
  using rvv_poly_uniform_refill_imp [of a ctr buf buflen st] poly_uniform_refill_imp [of a ctr buf buflen st] assms
  by (metis option.exhaust)

lemma rvv_poly_uniform_eq: "rvv_poly_uniform seed nonce = poly_uniform seed nonce"
proof -
  have "rvv_poly_uniform_refill (fst (mldsa_rej_uniform (replicate 256 0) 0 256 bf l)) (snd (mldsa_rej_uniform (replicate 256 0) 0 256 bf l)) buf buflen st =
      poly_uniform_refill (fst (mldsa_rej_uniform (replicate 256 0) 0 256 bf l)) (snd (mldsa_rej_uniform (replicate 256 0) 0 256 bf l)) buf buflen st"
    for bf l buf buflen st
    by (rule rvv_poly_uniform_refill_eq) (simp_all add: mldsa_rej_uniform_room)
  then show ?thesis
    by (simp add: rvv_poly_uniform_def poly_uniform_def Let_def case_prod_beta rvv_mldsa_rej_uniform_scalar)
qed

lemma rvv_polyvec_matrix_expand_eq: "rvv_polyvec_matrix_expand = polyvec_matrix_expand"
  by (simp add: fun_eq_iff rvv_polyvec_matrix_expand_def polyvec_matrix_expand_def rvv_poly_uniform_eq)

section \<open>Vectors\<close>

text \<open>The transforms agree on arrays of 256 coefficients; the loops over vectors then do.\<close>

definition full :: "nat \<Rightarrow> dvec \<Rightarrow> bool" where
  "full n v \<longleftrightarrow> (\<forall>i<n. length (v ! i) = 256)"

lemma fullD: "full n v \<Longrightarrow> i < n \<Longrightarrow> length (v ! i) = 256"
  by (simp add: full_def)

lemma full_map [simp]: "full n (map f [0..<n]) \<longleftrightarrow> (\<forall>i<n. length (f i) = 256)"
  by (simp add: full_def)

lemma length_poly_fold [simp]:
  "length (mldsa_poly_reduce a) = length a" "length (poly_caddq a) = length a" "length (poly_shiftl a) = length a"
proof -
  have "length (fold (\<lambda>i a. a[i := f (a ! i)]) xs a) = length a" for f :: "i32 \<Rightarrow> i32" and xs a
    by (induction xs arbitrary: a) simp_all
  then show "length (mldsa_poly_reduce a) = length a" "length (poly_caddq a) = length a" "length (poly_shiftl a) = length a"
    by (simp_all add: mldsa_poly_reduce_def poly_caddq_def poly_shiftl_def)
qed

lemma length_pointwise_acc [simp]: "length (polyvecl_pointwise_acc_montgomery par u v) = 256"
proof -
  have fl: "length w = 256 \<Longrightarrow> length (fold (\<lambda>i w. mldsa_poly_add w (t i)) xs w) = 256" for t xs w
    by (induction xs arbitrary: w) simp_all
  show ?thesis by (simp add: polyvecl_pointwise_acc_montgomery_def Let_def fl)
qed

lemma full_simps [simp]:
  "full (dsa_k par) (polyvec_matrix_pointwise_montgomery par mat v)"
  "full (dsa_ell par) (polyvecl_pointwise_poly_montgomery par a v)"
  "full (dsa_k par) (polyveck_pointwise_poly_montgomery par a v)"
  "full (dsa_k par) (polyveck_sub par u v)"
  "full (dsa_k par) v \<Longrightarrow> full (dsa_k par) (polyveck_reduce par v)"
  "full (dsa_k par) v \<Longrightarrow> full (dsa_k par) (polyveck_shiftl par v)"
  by (simp_all add: polyvec_matrix_pointwise_montgomery_def polyvecl_pointwise_poly_montgomery_def
      polyveck_pointwise_poly_montgomery_def polyveck_sub_def polyveck_reduce_def polyveck_shiftl_def fullD)

lemma rvv_transforms_full:
  "length a = 256 \<Longrightarrow> rvv_mldsa_poly_ntt a = mldsa_poly_ntt a"
  "full (dsa_ell par) v \<Longrightarrow> rvv_polyvecl_ntt par v = polyvecl_ntt par v"
  "full (dsa_k par) v \<Longrightarrow> rvv_polyveck_ntt par v = polyveck_ntt par v"
  "full (dsa_ell par) v \<Longrightarrow> rvv_polyvecl_invntt_tomont par v = polyvecl_invntt_tomont par v"
  "full (dsa_k par) v \<Longrightarrow> rvv_polyveck_invntt_tomont par v = polyveck_invntt_tomont par v"
  by (simp_all add: rvv_mldsa_poly_ntt_def mldsa_poly_ntt_def rvv_mldsa_poly_invntt_tomont_def mldsa_poly_invntt_tomont_def
      rvv_polyvecl_ntt_def polyvecl_ntt_def rvv_polyveck_ntt_def polyveck_ntt_def rvv_polyvecl_invntt_tomont_def polyvecl_invntt_tomont_def
      rvv_polyveck_invntt_tomont_def polyveck_invntt_tomont_def rvv_mldsa_ntt_eq rvv_mldsa_invntt_eq fullD)

section \<open>Key generation, signing and verification\<close>

lemma rvv_keygen_arith_eq: "full (dsa_ell par) s1 \<Longrightarrow> rvv_keygen_arith par mat s1 s2 = keygen_arith par mat s1 s2"
  by (simp add: rvv_keygen_arith_def keygen_arith_def Let_def rvv_transforms_full)

lemma rvv_sign_commit_eq: "full (dsa_ell par) y \<Longrightarrow> rvv_sign_commit par mat y = sign_commit par mat y"
  by (simp add: rvv_sign_commit_def sign_commit_def Let_def rvv_transforms_full)

lemma rvv_sign_respond_eq: "rvv_sign_respond = sign_respond"
  by (intro ext) (simp add: rvv_sign_respond_def sign_respond_def Let_def rvv_transforms_full case_prod_beta)

lemma rvv_verify_arith_eq:
  "full (dsa_ell par) z \<Longrightarrow> full (dsa_k par) t1 \<Longrightarrow> length cp = 256 \<Longrightarrow>
    rvv_verify_arith par mat cp z t1 h = verify_arith par mat cp z t1 h"
  by (simp add: rvv_verify_arith_def verify_arith_def Let_def rvv_transforms_full)

lemma length_challenge:
  "poly_challenge par seed = Some c \<Longrightarrow> length c = 256"
proof -
  have "challenge_loop is buf pos st signs d = Some c \<Longrightarrow> length c = length d" for "is" buf pos st signs d
    by (induction "is" arbitrary: buf pos st signs d) (auto simp: Let_def split: bind_splits)
  then show "poly_challenge par seed = Some c \<Longrightarrow> length c = 256"
    by (auto simp: poly_challenge_def Let_def case_prod_beta)
qed

lemma full_uniform_eta:
  assumes "mldsa_param_ok par"
  shows "polyvecl_uniform_eta par seed nonce = Some s \<Longrightarrow> full (dsa_ell par) s"
  using uniform_eta_vec [OF assms, of seed nonce "dsa_ell par" s] by (auto simp: polyvecl_uniform_eta_def full_def dpoly_bounded_def)

lemma full_uniform_gamma1: "mldsa_param_ok par \<Longrightarrow> full (dsa_ell par) (polyvecl_uniform_gamma1 par seed nonce)"
  using uniform_gamma1_vec [of par seed nonce] by (auto simp: full_def z_poly_def)

lemma rvv_mldsa_keygen_internal_eq:
  assumes "mldsa_param_ok par"
  shows "rvv_mldsa_keygen_internal par seed = mldsa_keygen_internal par seed"
  unfolding rvv_mldsa_keygen_internal_def mldsa_keygen_internal_def Let_def rvv_polyvec_matrix_expand_eq
  by (intro Option.bind_cong refl) (simp add: full_uniform_eta [OF assms] rvv_keygen_arith_eq)

lemma rvv_sign_attempt_eq:
  assumes "mldsa_param_ok par"
  shows "rvv_sign_attempt par mat mu rhop s1 s2 t0 nonce = sign_attempt par mat mu rhop s1 s2 t0 nonce"
  unfolding rvv_sign_attempt_def sign_attempt_def Let_def rvv_sign_respond_eq rvv_sign_commit_eq [OF full_uniform_gamma1 [OF assms]]
  by (simp add: case_prod_beta length_challenge rvv_transforms_full cong: Option.bind_cong)

text \<open>The two loops unfold to the same body, so each result of one is a result of the other.\<close>

lemma rvv_mldsa_sign_loop_eq:
  assumes "mldsa_param_ok par"
  shows "rvv_mldsa_sign_loop par mat mu rhop s1 s2 t0 nonce = mldsa_sign_loop par mat mu rhop s1 s2 t0 nonce"
proof -
  have "mldsa_sign_loop par mat mu rhop s1 s2 t0 nonce = Some r" if "rvv_mldsa_sign_loop par mat mu rhop s1 s2 t0 nonce = Some r" for r
  proof -
    have "mldsa_param_ok par \<longrightarrow> mldsa_sign_loop par mat mu rhop s1 s2 t0 nonce = Some r"
      by (rule rvv_mldsa_sign_loop.raw_induct [OF _ that], subst mldsa_sign_loop.simps)
        (auto simp: rvv_sign_attempt_eq bind_eq_Some_conv split: sign_outcome.splits)
    then show ?thesis using assms by blast
  qed
  moreover have "rvv_mldsa_sign_loop par mat mu rhop s1 s2 t0 nonce = Some r" if "mldsa_sign_loop par mat mu rhop s1 s2 t0 nonce = Some r" for r
  proof -
    have "mldsa_param_ok par \<longrightarrow> rvv_mldsa_sign_loop par mat mu rhop s1 s2 t0 nonce = Some r"
      by (rule mldsa_sign_loop.raw_induct [OF _ that], subst rvv_mldsa_sign_loop.simps)
        (auto simp: rvv_sign_attempt_eq bind_eq_Some_conv split: sign_outcome.splits)
    then show ?thesis using assms by blast
  qed
  ultimately show ?thesis by (metis option.exhaust)
qed

lemma full_unpack_sk:
  assumes "mldsa_param_ok par" "unpack_sk par sk = (rho, tr, key, t0, s1, s2)"
  shows "full (dsa_ell par) s1" "full (dsa_k par) s2" "full (dsa_k par) t0"
  using assms(2) length_polyeta_unpack [OF assms(1)] by (auto simp: unpack_sk_def Let_def)

lemma rvv_mldsa_sign_internal_eq:
  assumes "mldsa_param_ok par"
  shows "rvv_mldsa_sign_internal par sk m rnd = mldsa_sign_internal par sk m rnd"
proof -
  obtain rho tr key t0 s1 s2 where u: "unpack_sk par sk = (rho, tr, key, t0, s1, s2)" by (metis prod_cases6)
  note f = full_unpack_sk [OF assms u]
  show ?thesis
    by (simp add: rvv_mldsa_sign_internal_def mldsa_sign_internal_def u Let_def rvv_polyvec_matrix_expand_eq
        rvv_transforms_full f rvv_mldsa_sign_loop_eq [OF assms])
qed

lemma full_unpack_sig:
  assumes "mldsa_param_ok par" "unpack_sig par sig = Some (c, z, h)"
  shows "full (dsa_ell par) z"
  using assms polyz_unpack_valid [OF assms(1)] by (auto simp: unpack_sig_def Let_def bind_eq_Some_conv z_poly_def)

lemma rvv_mldsa_verify_internal_eq:
  assumes "mldsa_param_ok par"
  shows "rvv_mldsa_verify_internal par pk m sig sig_sz = mldsa_verify_internal par pk m sig sig_sz"
proof -
  have t1: "full (dsa_k par) (snd (unpack_pk par pk))" by (simp add: unpack_pk_def Let_def)
  show ?thesis
    unfolding rvv_mldsa_verify_internal_def mldsa_verify_internal_def Let_def rvv_polyvec_matrix_expand_eq
    using t1 full_unpack_sig [OF assms]
    by (auto simp: case_prod_beta length_challenge rvv_verify_arith_eq cong: Option.bind_cong split: option.split)
qed

section \<open>Properties\<close>

text \<open>C15: The vector transforms \<open>mldsa_ntt\<close> and \<open>mldsa_invntt\<close> of \<open>rvv_poly.c\<close> compute exactly what the scalar ones do
  on every array of 256 coefficients, overflowing ones included: the layers done in registers, the bit swaps inside a
  register and the reordered table together are the eight layers of the loop, and the inverse includes the final
  multiplication by 41978.\<close>

theorem rvv_mldsa_transforms_eq:
  assumes "length a = 256"
  shows "rvv_mldsa_ntt a = mldsa_ntt a \<and> rvv_mldsa_invntt a = mldsa_invntt a"
  using assms by (simp add: rvv_mldsa_ntt_eq rvv_mldsa_invntt_eq)

theorem rvv_mldsa_transforms_eq_witness:
  "rvv_mldsa_ntt (map (\<lambda>i. of_nat (i * i)) [0..<256]) = mldsa_ntt (map (\<lambda>i. of_nat (i * i)) [0..<256]) \<and>
    rvv_mldsa_invntt (map (\<lambda>i. of_nat (i * i)) [0..<256]) = mldsa_invntt (map (\<lambda>i. of_nat (i * i)) [0..<256])"
  by (rule rvv_mldsa_transforms_eq) simp

text \<open>C16: The vector build of ML-DSA is the scalar build: on every input, and for every parameter set the code
  supports, key generation, signing and verification return the same bytes and verdicts, and fail to return on the same
  inputs.\<close>

theorem rvv_mldsa_build_eq:
  assumes "mldsa_param_ok par"
  shows "rvv_mldsa_keygen_internal par seed = mldsa_keygen_internal par seed \<and>
    rvv_mldsa_sign_internal par sk m rnd = mldsa_sign_internal par sk m rnd \<and>
    rvv_mldsa_verify_internal par pk m sig sig_sz = mldsa_verify_internal par pk m sig sig_sz"
  by (simp add: rvv_mldsa_keygen_internal_eq [OF assms] rvv_mldsa_sign_internal_eq [OF assms]
      rvv_mldsa_verify_internal_eq [OF assms])

theorem rvv_mldsa_build_eq_witness:
  "rvv_mldsa_keygen_internal mldsa_44 (replicate 32 1) = mldsa_keygen_internal mldsa_44 (replicate 32 1) \<and>
   rvv_mldsa_sign_internal mldsa_44 (replicate 2560 2) [1, 2, 3] (replicate 32 0) =
     mldsa_sign_internal mldsa_44 (replicate 2560 2) [1, 2, 3] (replicate 32 0) \<and>
   rvv_mldsa_verify_internal mldsa_44 (replicate 1312 3) [1, 2, 3] (replicate 2420 0) 2420 =
     mldsa_verify_internal mldsa_44 (replicate 1312 3) [1, 2, 3] (replicate 2420 0) 2420"
  by (rule rvv_mldsa_build_eq) (rule mldsa_par_ok, simp add: mldsa_par_def)

end
