(* ===== verification/Kem_Rvv.thy ===== *)
theory Kem_Rvv
  imports Rvv Kem_Kpke
begin

text \<open>
  \<open>tools/pqc/mlkem/rvv_poly.c\<close> and \<open>cbd_rvv.c\<close>: the vector kernels of ML-KEM in the build with
  \<open>MLKEM_RVV == 1\<close> and \<open>RVV_WIDENING_MUL\<close> undefined, the default.  Vectors of sixteen 16-bit lanes; the functions
  carry the prefix \<open>rvv_\<close> where the scalar build has one of the same name.
\<close>

section \<open>Arithmetic modulo \<open>q\<close>\<close>

abbreviation (input) MONT_Q :: "'a::len word" where "MONT_Q \<equiv> 3329"
abbreviation (input) MONT_R1 :: "i16" where "MONT_R1 \<equiv> 2285"
abbreviation (input) MONT_R2 :: "i16" where "MONT_R2 \<equiv> 1353"
abbreviation (input) MONT_QI :: "i16" where "MONT_QI \<equiv> 3327"
abbreviation (input) MONT_NR :: "i16" where "MONT_NR \<equiv> 1441"

definition fq_redc :: "i16 list \<Rightarrow> i16 list \<Rightarrow> i16 list" where
  "fq_redc rh rl =
     (let t = vmul_vx rl MONT_QI;
          t = vmulh_vx t MONT_Q;
          c = vmsne_vx rl 0;
          t = vadc_vvm t rh c
      in t)"

definition mlkem_fq_redc2 :: "i32 list \<Rightarrow> i16 list" where
  "mlkem_fq_redc2 z =
     (let t = vmul_vx (vncvt_x_x_w z) MONT_QI;
          z = vadd_vv z (vwmul_vx t MONT_Q);
          t = vnsra_wx z 16
      in t)"

definition fq_barrett :: "i16 list \<Rightarrow> i16 list" where
  "fq_barrett a =
     (let v = sext16 ((shl (1 :: i32) 26 + MONT_Q div 2) div MONT_Q);
          t = vmulh_vx a v;
          t = vadd_vx t (shl 1 (25 - 16));
          t = vsra_vx t (26 - 16);
          t = vmul_vx t MONT_Q;
          t = vsub_vv a t
      in t)"

definition fq_cadd :: "i16 list \<Rightarrow> i16 list" where
  "fq_cadd rx =
     (let bn = vmslt_vx rx 0;
          rx = vadd_vx_mu bn rx rx MONT_Q
      in rx)"

definition fq_csub :: "i16 list \<Rightarrow> i16 list" where
  "fq_csub rx =
     (let bn = vmsge_vx rx MONT_Q;
          rx = vsub_vx_mu bn rx rx MONT_Q
      in rx)"

definition fq_mul_vv :: "i16 list \<Rightarrow> i16 list \<Rightarrow> i16 list" where
  "fq_mul_vv rx ry =
     (let rh = vmulh_vv rx ry;
          rl = vmul_vv rx ry
      in fq_redc rh rl)"

definition fq_mul_vx :: "i16 list \<Rightarrow> i16 \<Rightarrow> i16 list" where
  "fq_mul_vx rx ry =
     (let rh = vmulh_vx rx ry;
          rl = vmul_vx rx ry
      in fq_redc rh rl)"

definition fq_mulq_vx :: "i16 list \<Rightarrow> i16 \<Rightarrow> i16 list" where
  "fq_mulq_vx rx ry = fq_cadd (fq_mul_vx rx ry)"

section \<open>Butterflies and permutations\<close>

definition RVV_BFLY_FX :: "i16 list \<Rightarrow> i16 list \<Rightarrow> i16 \<Rightarrow> i16 list \<times> i16 list" where
  "RVV_BFLY_FX u0 u1 uc =
     (let ut = fq_mul_vx u1 uc;
          u1 = vsub_vv u0 ut;
          u0 = vadd_vv u0 ut
      in (u0, u1))"

definition RVV_BFLY_FV :: "i16 list \<Rightarrow> i16 list \<Rightarrow> i16 list \<Rightarrow> i16 list \<times> i16 list" where
  "RVV_BFLY_FV u0 u1 uc =
     (let ut = fq_mul_vv u1 uc;
          u1 = vsub_vv u0 ut;
          u0 = vadd_vv u0 ut
      in (u0, u1))"

definition RVV_BFLY_RX :: "i16 list \<Rightarrow> i16 list \<Rightarrow> i16 \<Rightarrow> i16 list \<times> i16 list" where
  "RVV_BFLY_RX u0 u1 uc =
     (let ut = vsub_vv u0 u1;
          u0 = vadd_vv u0 u1;
          u0 = fq_csub u0;
          u1 = fq_mul_vx ut uc
      in (u0, u1))"

definition RVV_BFLY_RV :: "i16 list \<Rightarrow> i16 list \<Rightarrow> i16 list \<Rightarrow> i16 list \<times> i16 list" where
  "RVV_BFLY_RV u0 u1 uc =
     (let ut = vsub_vv u0 u1;
          u0 = vadd_vv u0 u1;
          u0 = fq_csub u0;
          u1 = fq_mul_vv ut uc
      in (u0, u1))"

text \<open>The permutation that swaps bits \<open>a\<close> and \<open>b\<close> of an index.\<close>

definition mlkem_bitswap_perm :: "nat \<Rightarrow> nat \<Rightarrow> nat \<Rightarrow> u16 list" where
  "mlkem_bitswap_perm a b vl =
     (let v2id = vid_v vl;
          xa = vsrl_vx v2id (b - a);
          xa = vxor_vv xa v2id;
          xa = vand_vx xa (shl 1 a);
          xb = vsll_vx xa (b - a);
          xa = vxor_vv xa xb;
          xa = vxor_vv v2id xa
      in xa)"

section \<open>The forward transform\<close>

definition rvv_mlkem_zeta :: "i16 list" where
  "rvv_mlkem_zeta = [
    -1044, -758, 573, -1325, 1223, 652, -552, 1015, -1103, 430, 555, 843, -1251, 871, 1550, 105,
    -359, -1517, 264, 383, -1293, 1491, -282, -1544, 422, 587, 177, -235, -291, -460, 1574, 1653,
    1493, 1422, -829, 1458, 516, -8, -320, -666, -246, 778, 1159, -147, -777, 1483, -602, 1119,
    287, 202, -1602, -130, -1618, -1162, 126, 1469, -1590, 644, -872, 349, 418, 329, -156, -75,
    -171, 622, -681, 1017, -853, -90, -271, 830, 817, 1097, 603, 610, 1322, -1285, -1465, 384,
    1577, 182, 732, 608, 107, -1421, -247, -951, -1215, -136, 1218, -1335, -874, 220, -1187, -1659,
    962, -1202, -1542, 411, -398, 961, -1508, -725, -1185, -1530, -1278, 794, -1510, -854, -870, 478,
    -1474, 1468, -205, -1571, 448, -1065, 677, -1275, -108, -308, 996, 991, 958, -1460, 1522, 1628]"

text \<open>The last three layers of thirty-two coefficients, and the normalisation.\<close>

definition mlkem_vector_ntt2 :: "i16 list \<Rightarrow> i16 list \<Rightarrow> i16 list" where
  "mlkem_vector_ntt2 vp cz =
     (let vl = 16; vl2 = 2 * vl;
          v2p8 = mlkem_bitswap_perm 3 4 vl2;
          v2p4 = mlkem_bitswap_perm 2 4 vl2;
          v2p2 = mlkem_bitswap_perm 1 4 vl2;
          v2p1 = vrgather_vv (vrgather_vv v2p2 v2p4) v2p8;
          vid = vid_v vl :: u16 list;
          cs8 = vadd_vx (vsrl_vx vid 3) 2;
          cs4 = vadd_vx (vsrl_vx vid 2) (2 + 2);
          cs2 = vadd_vx (vsrl_vx vid 1) (2 + 2 + 4);
          vp = vrgather_vv vp v2p8;
          t0 = vget_v vl vp 0;
          t1 = vget_v vl vp 1;
          c0 = vrgather_vv cz cs8;
          (t0, t1) = RVV_BFLY_FV t0 t1 c0;
          vp = vcreate_v t0 t1;
          vp = vrgather_vv vp v2p4;
          t0 = vget_v vl vp 0;
          t1 = vget_v vl vp 1;
          c0 = vrgather_vv cz cs4;
          (t0, t1) = RVV_BFLY_FV t0 t1 c0;
          vp = vcreate_v t0 t1;
          vp = vrgather_vv vp v2p2;
          t0 = vget_v vl vp 0;
          t1 = vget_v vl vp 1;
          c0 = vrgather_vv cz cs2;
          (t0, t1) = RVV_BFLY_FV t0 t1 c0;
          t0 = fq_mulq_vx t0 MONT_R1;
          t1 = fq_mulq_vx t1 MONT_R1;
          vp = vcreate_v t0 t1;
          vp = vrgather_vv vp v2p1
      in vp)"

definition rvv_mlkem_poly_ntt :: "poly \<Rightarrow> poly" where
  "rvv_mlkem_poly_ntt r =
     (let vl = 16; vl2 = 2 * vl;
          z0 = vle rvv_mlkem_zeta 0x00 vl;
          z2 = vle rvv_mlkem_zeta 0x10 vl;
          z4 = vle rvv_mlkem_zeta 0x20 vl;
          z6 = vle rvv_mlkem_zeta 0x30 vl;
          z8 = vle rvv_mlkem_zeta 0x40 vl;
          za = vle rvv_mlkem_zeta 0x50 vl;
          zc = vle rvv_mlkem_zeta 0x60 vl;
          ze = vle rvv_mlkem_zeta 0x70 vl;
          v0 = vle r 0x00 vl;
          v1 = vle r 0x10 vl;
          v2 = vle r 0x20 vl;
          v3 = vle r 0x30 vl;
          v4 = vle r 0x40 vl;
          v5 = vle r 0x50 vl;
          v6 = vle r 0x60 vl;
          v7 = vle r 0x70 vl;
          v8 = vle r 0x80 vl;
          v9 = vle r 0x90 vl;
          va = vle r 0xa0 vl;
          vb = vle r 0xb0 vl;
          vc = vle r 0xc0 vl;
          vd = vle r 0xd0 vl;
          ve = vle r 0xe0 vl;
          vf = vle r 0xf0 vl;
          (v0, v8) = RVV_BFLY_FX v0 v8 (rvv_mlkem_zeta ! 0x01);
          (v1, v9) = RVV_BFLY_FX v1 v9 (rvv_mlkem_zeta ! 0x01);
          (v2, va) = RVV_BFLY_FX v2 va (rvv_mlkem_zeta ! 0x01);
          (v3, vb) = RVV_BFLY_FX v3 vb (rvv_mlkem_zeta ! 0x01);
          (v4, vc) = RVV_BFLY_FX v4 vc (rvv_mlkem_zeta ! 0x01);
          (v5, vd) = RVV_BFLY_FX v5 vd (rvv_mlkem_zeta ! 0x01);
          (v6, ve) = RVV_BFLY_FX v6 ve (rvv_mlkem_zeta ! 0x01);
          (v7, vf) = RVV_BFLY_FX v7 vf (rvv_mlkem_zeta ! 0x01);
          (v0, v4) = RVV_BFLY_FX v0 v4 (rvv_mlkem_zeta ! 0x10);
          (v1, v5) = RVV_BFLY_FX v1 v5 (rvv_mlkem_zeta ! 0x10);
          (v2, v6) = RVV_BFLY_FX v2 v6 (rvv_mlkem_zeta ! 0x10);
          (v3, v7) = RVV_BFLY_FX v3 v7 (rvv_mlkem_zeta ! 0x10);
          (v8, vc) = RVV_BFLY_FX v8 vc (rvv_mlkem_zeta ! 0x11);
          (v9, vd) = RVV_BFLY_FX v9 vd (rvv_mlkem_zeta ! 0x11);
          (va, ve) = RVV_BFLY_FX va ve (rvv_mlkem_zeta ! 0x11);
          (vb, vf) = RVV_BFLY_FX vb vf (rvv_mlkem_zeta ! 0x11);
          (v0, v2) = RVV_BFLY_FX v0 v2 (rvv_mlkem_zeta ! 0x20);
          (v1, v3) = RVV_BFLY_FX v1 v3 (rvv_mlkem_zeta ! 0x20);
          (v4, v6) = RVV_BFLY_FX v4 v6 (rvv_mlkem_zeta ! 0x21);
          (v5, v7) = RVV_BFLY_FX v5 v7 (rvv_mlkem_zeta ! 0x21);
          (v8, va) = RVV_BFLY_FX v8 va (rvv_mlkem_zeta ! 0x30);
          (v9, vb) = RVV_BFLY_FX v9 vb (rvv_mlkem_zeta ! 0x30);
          (vc, ve) = RVV_BFLY_FX vc ve (rvv_mlkem_zeta ! 0x31);
          (vd, vf) = RVV_BFLY_FX vd vf (rvv_mlkem_zeta ! 0x31);
          (v0, v1) = RVV_BFLY_FX v0 v1 (rvv_mlkem_zeta ! 0x40);
          (v2, v3) = RVV_BFLY_FX v2 v3 (rvv_mlkem_zeta ! 0x41);
          (v4, v5) = RVV_BFLY_FX v4 v5 (rvv_mlkem_zeta ! 0x50);
          (v6, v7) = RVV_BFLY_FX v6 v7 (rvv_mlkem_zeta ! 0x51);
          (v8, v9) = RVV_BFLY_FX v8 v9 (rvv_mlkem_zeta ! 0x60);
          (va, vb) = RVV_BFLY_FX va vb (rvv_mlkem_zeta ! 0x61);
          (vc, vd) = RVV_BFLY_FX vc vd (rvv_mlkem_zeta ! 0x70);
          (ve, vf) = RVV_BFLY_FX ve vf (rvv_mlkem_zeta ! 0x71);
          r = vse r 0x00 (mlkem_vector_ntt2 (vcreate_v v0 v1) z0) vl2;
          r = vse r 0x20 (mlkem_vector_ntt2 (vcreate_v v2 v3) z2) vl2;
          r = vse r 0x40 (mlkem_vector_ntt2 (vcreate_v v4 v5) z4) vl2;
          r = vse r 0x60 (mlkem_vector_ntt2 (vcreate_v v6 v7) z6) vl2;
          r = vse r 0x80 (mlkem_vector_ntt2 (vcreate_v v8 v9) z8) vl2;
          r = vse r 0xa0 (mlkem_vector_ntt2 (vcreate_v va vb) za) vl2;
          r = vse r 0xc0 (mlkem_vector_ntt2 (vcreate_v vc vd) zc) vl2;
          r = vse r 0xe0 (mlkem_vector_ntt2 (vcreate_v ve vf) ze) vl2
      in r)"

section \<open>The inverse transform\<close>

definition rvv_mlkem_izeta :: "i16 list" where
  "rvv_mlkem_izeta = [
    -1044, 758, 1571, 205, 1275, -677, 1065, -448, -1628, -1522, 1460, -958, -991, -996, 308, 108,
    1517, 359, -411, 1542, 725, 1508, -961, 398, -478, 870, 854, 1510, -794, 1278, 1530, 1185,
    -202, -287, -608, -732, 951, 247, 1421, -107, 1659, 1187, -220, 874, 1335, -1218, 136, 1215,
    -1422, -1493, -1017, 681, -830, 271, 90, 853, -384, 1465, 1285, -1322, -610, -603, -1097, -817,
    -1468, 1474, 130, 1602, -1469, -126, 1162, 1618, 75, 156, -329, -418, -349, 872, -644, 1590,
    1202, -962, -1458, 829, 666, 320, 8, -516, -1119, 602, -1483, 777, 147, -1159, -778, 246,
    -182, -1577, -383, -264, 1544, 282, -1491, 1293, -1653, -1574, 460, 291, 235, -177, -587, -422,
    -622, 171, 1325, -573, -1015, 552, -652, -1223, -105, -1550, -871, 1251, -843, -555, -430, 1103]"

definition mlkem_vector_intt2 :: "i16 list \<Rightarrow> i16 list \<Rightarrow> i16 list" where
  "mlkem_vector_intt2 vp cz =
     (let vl = 16; vl2 = 2 * vl;
          v2p8 = mlkem_bitswap_perm 3 4 vl2;
          v2p4 = mlkem_bitswap_perm 2 4 vl2;
          v2p2 = mlkem_bitswap_perm 1 4 vl2;
          v2p0 = vrgather_vv (vrgather_vv v2p8 v2p4) v2p2;
          vid = vid_v vl :: u16 list;
          cs8 = vadd_vx (vsrl_vx vid 3) 2;
          cs4 = vadd_vx (vsrl_vx vid 2) (2 + 2);
          cs2 = vadd_vx (vsrl_vx vid 1) (2 + 2 + 4);
          vp = vrgather_vv vp v2p0;
          t0 = vget_v vl vp 0;
          t1 = vget_v vl vp 1;
          c0 = vrgather_vv cz cs2;
          (t0, t1) = RVV_BFLY_RV t0 t1 c0;
          vp = vcreate_v t0 t1;
          vp = vrgather_vv vp v2p2;
          t0 = vget_v vl vp 0;
          t1 = vget_v vl vp 1;
          c0 = vrgather_vv cz cs4;
          (t0, t1) = RVV_BFLY_RV t0 t1 c0;
          vp = vcreate_v t0 t1;
          vp = vrgather_vv vp v2p4;
          t0 = vget_v vl vp 0;
          t1 = vget_v vl vp 1;
          c0 = vrgather_vv cz cs8;
          (t0, t1) = RVV_BFLY_RV t0 t1 c0;
          vp = vcreate_v t0 t1;
          vp = vrgather_vv vp v2p8;
          t0 = vget_v vl vp 0;
          t1 = vget_v vl vp 1;
          t0 = fq_mulq_vx t0 MONT_R1;
          t1 = fq_mulq_vx t1 MONT_R1;
          vp = vcreate_v t0 t1
      in vp)"

definition rvv_mlkem_poly_invntt_tomont :: "poly \<Rightarrow> poly" where
  "rvv_mlkem_poly_invntt_tomont r =
     (let vl = 16; vl2 = 2 * vl;
          z0 = vle rvv_mlkem_izeta 0x00 vl;
          z2 = vle rvv_mlkem_izeta 0x10 vl;
          z4 = vle rvv_mlkem_izeta 0x20 vl;
          z6 = vle rvv_mlkem_izeta 0x30 vl;
          z8 = vle rvv_mlkem_izeta 0x40 vl;
          za = vle rvv_mlkem_izeta 0x50 vl;
          zc = vle rvv_mlkem_izeta 0x60 vl;
          ze = vle rvv_mlkem_izeta 0x70 vl;
          vp = mlkem_vector_intt2 (vle r 0x00 vl2) z0;
          v0 = vget_v vl vp 0;
          v1 = vget_v vl vp 1;
          vp = mlkem_vector_intt2 (vle r 0x20 vl2) z2;
          v2 = vget_v vl vp 0;
          v3 = vget_v vl vp 1;
          vp = mlkem_vector_intt2 (vle r 0x40 vl2) z4;
          v4 = vget_v vl vp 0;
          v5 = vget_v vl vp 1;
          vp = mlkem_vector_intt2 (vle r 0x60 vl2) z6;
          v6 = vget_v vl vp 0;
          v7 = vget_v vl vp 1;
          vp = mlkem_vector_intt2 (vle r 0x80 vl2) z8;
          v8 = vget_v vl vp 0;
          v9 = vget_v vl vp 1;
          vp = mlkem_vector_intt2 (vle r 0xa0 vl2) za;
          va = vget_v vl vp 0;
          vb = vget_v vl vp 1;
          vp = mlkem_vector_intt2 (vle r 0xc0 vl2) zc;
          vc = vget_v vl vp 0;
          vd = vget_v vl vp 1;
          vp = mlkem_vector_intt2 (vle r 0xe0 vl2) ze;
          ve = vget_v vl vp 0;
          vf = vget_v vl vp 1;
          (v0, v1) = RVV_BFLY_RX v0 v1 (rvv_mlkem_izeta ! 0x40);
          (v2, v3) = RVV_BFLY_RX v2 v3 (rvv_mlkem_izeta ! 0x41);
          (v4, v5) = RVV_BFLY_RX v4 v5 (rvv_mlkem_izeta ! 0x50);
          (v6, v7) = RVV_BFLY_RX v6 v7 (rvv_mlkem_izeta ! 0x51);
          (v8, v9) = RVV_BFLY_RX v8 v9 (rvv_mlkem_izeta ! 0x60);
          (va, vb) = RVV_BFLY_RX va vb (rvv_mlkem_izeta ! 0x61);
          (vc, vd) = RVV_BFLY_RX vc vd (rvv_mlkem_izeta ! 0x70);
          (ve, vf) = RVV_BFLY_RX ve vf (rvv_mlkem_izeta ! 0x71);
          (v0, v2) = RVV_BFLY_RX v0 v2 (rvv_mlkem_izeta ! 0x20);
          (v1, v3) = RVV_BFLY_RX v1 v3 (rvv_mlkem_izeta ! 0x20);
          (v4, v6) = RVV_BFLY_RX v4 v6 (rvv_mlkem_izeta ! 0x21);
          (v5, v7) = RVV_BFLY_RX v5 v7 (rvv_mlkem_izeta ! 0x21);
          (v8, va) = RVV_BFLY_RX v8 va (rvv_mlkem_izeta ! 0x30);
          (v9, vb) = RVV_BFLY_RX v9 vb (rvv_mlkem_izeta ! 0x30);
          (vc, ve) = RVV_BFLY_RX vc ve (rvv_mlkem_izeta ! 0x31);
          (vd, vf) = RVV_BFLY_RX vd vf (rvv_mlkem_izeta ! 0x31);
          (v0, v4) = RVV_BFLY_RX v0 v4 (rvv_mlkem_izeta ! 0x10);
          (v1, v5) = RVV_BFLY_RX v1 v5 (rvv_mlkem_izeta ! 0x10);
          (v2, v6) = RVV_BFLY_RX v2 v6 (rvv_mlkem_izeta ! 0x10);
          (v3, v7) = RVV_BFLY_RX v3 v7 (rvv_mlkem_izeta ! 0x10);
          (v8, vc) = RVV_BFLY_RX v8 vc (rvv_mlkem_izeta ! 0x11);
          (v9, vd) = RVV_BFLY_RX v9 vd (rvv_mlkem_izeta ! 0x11);
          (va, ve) = RVV_BFLY_RX va ve (rvv_mlkem_izeta ! 0x11);
          (vb, vf) = RVV_BFLY_RX vb vf (rvv_mlkem_izeta ! 0x11);
          (v0, v8) = RVV_BFLY_RX v0 v8 (rvv_mlkem_izeta ! 0x01);
          (v1, v9) = RVV_BFLY_RX v1 v9 (rvv_mlkem_izeta ! 0x01);
          (v2, va) = RVV_BFLY_RX v2 va (rvv_mlkem_izeta ! 0x01);
          (v3, vb) = RVV_BFLY_RX v3 vb (rvv_mlkem_izeta ! 0x01);
          (v4, vc) = RVV_BFLY_RX v4 vc (rvv_mlkem_izeta ! 0x01);
          (v5, vd) = RVV_BFLY_RX v5 vd (rvv_mlkem_izeta ! 0x01);
          (v6, ve) = RVV_BFLY_RX v6 ve (rvv_mlkem_izeta ! 0x01);
          (v7, vf) = RVV_BFLY_RX v7 vf (rvv_mlkem_izeta ! 0x01);
          v0 = fq_mulq_vx v0 MONT_NR;
          v1 = fq_mulq_vx v1 MONT_NR;
          v2 = fq_mulq_vx v2 MONT_NR;
          v3 = fq_mulq_vx v3 MONT_NR;
          v4 = fq_mulq_vx v4 MONT_NR;
          v5 = fq_mulq_vx v5 MONT_NR;
          v6 = fq_mulq_vx v6 MONT_NR;
          v7 = fq_mulq_vx v7 MONT_NR;
          v8 = fq_mulq_vx v8 MONT_NR;
          v9 = fq_mulq_vx v9 MONT_NR;
          va = fq_mulq_vx va MONT_NR;
          vb = fq_mulq_vx vb MONT_NR;
          vc = fq_mulq_vx vc MONT_NR;
          vd = fq_mulq_vx vd MONT_NR;
          ve = fq_mulq_vx ve MONT_NR;
          vf = fq_mulq_vx vf MONT_NR;
          r = vse r 0x00 v0 vl;
          r = vse r 0x10 v1 vl;
          r = vse r 0x20 v2 vl;
          r = vse r 0x30 v3 vl;
          r = vse r 0x40 v4 vl;
          r = vse r 0x50 v5 vl;
          r = vse r 0x60 v6 vl;
          r = vse r 0x70 v7 vl;
          r = vse r 0x80 v8 vl;
          r = vse r 0x90 v9 vl;
          r = vse r 0xa0 va vl;
          r = vse r 0xb0 vb vl;
          r = vse r 0xc0 vc vl;
          r = vse r 0xd0 vd vl;
          r = vse r 0xe0 ve vl;
          r = vse r 0xf0 vf vl
      in r)"

section \<open>Products and coefficient-wise operations\<close>

definition rvv_roots :: "i16 list" where
  "rvv_roots = [
    -1044, -1103, -1044, 1103, -1044, 430, -1044, -430, -1044, 555, -1044, -555, -1044, 843, -1044, -843,
    -1044, -1251, -1044, 1251, -1044, 871, -1044, -871, -1044, 1550, -1044, -1550, -1044, 105, -1044, -105,
    -1044, 422, -1044, -422, -1044, 587, -1044, -587, -1044, 177, -1044, -177, -1044, -235, -1044, 235,
    -1044, -291, -1044, 291, -1044, -460, -1044, 460, -1044, 1574, -1044, -1574, -1044, 1653, -1044, -1653,
    -1044, -246, -1044, 246, -1044, 778, -1044, -778, -1044, 1159, -1044, -1159, -1044, -147, -1044, 147,
    -1044, -777, -1044, 777, -1044, 1483, -1044, -1483, -1044, -602, -1044, 602, -1044, 1119, -1044, -1119,
    -1044, -1590, -1044, 1590, -1044, 644, -1044, -644, -1044, -872, -1044, 872, -1044, 349, -1044, -349,
    -1044, 418, -1044, -418, -1044, 329, -1044, -329, -1044, -156, -1044, 156, -1044, -75, -1044, 75,
    -1044, 817, -1044, -817, -1044, 1097, -1044, -1097, -1044, 603, -1044, -603, -1044, 610, -1044, -610,
    -1044, 1322, -1044, -1322, -1044, -1285, -1044, 1285, -1044, -1465, -1044, 1465, -1044, 384, -1044, -384,
    -1044, -1215, -1044, 1215, -1044, -136, -1044, 136, -1044, 1218, -1044, -1218, -1044, -1335, -1044, 1335,
    -1044, -874, -1044, 874, -1044, 220, -1044, -220, -1044, -1187, -1044, 1187, -1044, -1659, -1044, 1659,
    -1044, -1185, -1044, 1185, -1044, -1530, -1044, 1530, -1044, -1278, -1044, 1278, -1044, 794, -1044, -794,
    -1044, -1510, -1044, 1510, -1044, -854, -1044, 854, -1044, -870, -1044, 870, -1044, 478, -1044, -478,
    -1044, -108, -1044, 108, -1044, -308, -1044, 308, -1044, 996, -1044, -996, -1044, 991, -1044, -991,
    -1044, 958, -1044, -958, -1044, -1460, -1044, 1460, -1044, 1522, -1044, -1522, -1044, 1628, -1044, -1628]"

text \<open>Sixteen coefficients of the product; the result is written in order, as \<open>concat\<close> has it.\<close>

definition rvv_basemul_step :: "poly \<Rightarrow> poly \<Rightarrow> nat \<Rightarrow> i16 list" where
  "rvv_basemul_step a b i =
     (let vl = 16;
          sw0 = vxor_vx (vid_v vl) (1 :: u16);
          sb0 = vmseq_vx (vand_vx (vid_v vl) (1 :: u16)) 0;
          vz = vle rvv_roots i vl;
          vt = vle a i vl;
          vu = vle b i vl;
          wa = vwmul_vv vz (fq_mul_vv vt vu) :: i32 list;
          wb = vwmul_vv vt (vrgather_vv vu sw0);
          wa = vadd_vv wa (vslidedown_vx wa 1);
          wb = vadd_vv wb (vslideup_vx wb wb 1);
          wa = vmerge_vvm wb wa sb0
      in mlkem_fq_redc2 wa)"

definition rvv_poly_basemul_montgomery :: "poly \<Rightarrow> poly \<Rightarrow> poly" where
  "rvv_poly_basemul_montgomery a b = concat (map (\<lambda>k. rvv_basemul_step a b (16 * k)) [0..<MLKEM_PAR_N div 16])"

definition rvv_poly_tomont :: "poly \<Rightarrow> poly" where
  "rvv_poly_tomont r = fold (\<lambda>k r. vse r (16 * k) (fq_mul_vx (vle r (16 * k) 16) MONT_R2) 16) [0..<MLKEM_PAR_N div 16] r"

definition rvv_mlkem_poly_reduce :: "poly \<Rightarrow> poly" where
  "rvv_mlkem_poly_reduce r = fold (\<lambda>k r. vse r (16 * k) (fq_barrett (vle r (16 * k) 16)) 16) [0..<MLKEM_PAR_N div 16] r"

definition rvv_mlkem_poly_add :: "poly \<Rightarrow> poly \<Rightarrow> poly" where
  "rvv_mlkem_poly_add a b = concat (map (\<lambda>k. vadd_vv (vle a (16 * k) 16) (vle b (16 * k) 16)) [0..<MLKEM_PAR_N div 16])"

definition rvv_mlkem_poly_sub :: "poly \<Rightarrow> poly \<Rightarrow> poly" where
  "rvv_mlkem_poly_sub a b = concat (map (\<lambda>k. vsub_vv (vle a (16 * k) 16) (vle b (16 * k) 16)) [0..<MLKEM_PAR_N div 16])"

section \<open>Rejection sampling\<close>

text \<open>Twelve words hold sixteen 12-bit candidates.\<close>

definition rvv_mlkem_candidates :: "bytes \<Rightarrow> nat \<Rightarrow> u16 list" where
  "rvv_mlkem_candidates buf pos =
     (let vl = 16; vl23 = 12;
          vid = vid_v vl;
          srl12v = vmul_vx vid 12;
          sel12v = vsrl_vx srl12v 4;
          sll12v = vsll_vx vid 2;
          x = vle16_bytes buf pos vl23;
          x = vrgather_vv x sel12v;
          x = vor_vv (vsrl_vv x srl12v) (vsll_vv (vslidedown_vx x 1) sll12v)
      in vand_vx x 0xFFF)"

function rvv_mlkem_rej_loop :: "poly \<Rightarrow> nat \<Rightarrow> nat \<Rightarrow> bytes \<Rightarrow> nat \<Rightarrow> nat \<Rightarrow> nat \<Rightarrow> poly \<times> nat" where
  "rvv_mlkem_rej_loop r off len buf buflen ctr pos =
     (if ctr < len \<and> pos + 12 * 2 \<le> buflen
      then (let x = rvv_mlkem_candidates buf pos;
                lt = vmsltu_vx x (MLKEM_PAR_Q :: u16);
                y = vcompress_vm x lt;
                n = vcpop_m lt;
                n = (if ctr + n > len then len - ctr else n)
            in rvv_mlkem_rej_loop (vse r (off + ctr) y n) off len buf buflen (ctr + n) (pos + 12 * 2))
      else (r, ctr))"
  by pat_completeness auto
termination
  by (relation "measure (\<lambda>(r, off, len, buf, buflen, ctr, pos). buflen - pos)") auto

declare rvv_mlkem_rej_loop.simps [simp del]

definition rvv_mlkem_rej_uniform :: "poly \<Rightarrow> nat \<Rightarrow> nat \<Rightarrow> bytes \<Rightarrow> nat \<Rightarrow> poly \<times> nat" where
  "rvv_mlkem_rej_uniform r off len buf buflen = rvv_mlkem_rej_loop r off len buf buflen 0 0"

section \<open>Noise\<close>

text \<open>The output array is uninitialised before; every coefficient is written.\<close>

definition cbd2_rvv_step :: "bytes \<Rightarrow> nat \<Rightarrow> i16 list \<Rightarrow> i16 list" where
  "cbd2_rvv_step buf i r =
     (let vl = 16;
          b = vle buf (16 * i) vl;
          d = vadd_vv (vand_vx b 0x55) (vand_vx (vsrl_vx b 1) 0x55);
          c0 = vsub_vv (vand_vx d 0x3) (vand_vx (vsrl_vx d 2) 0x3);
          c1 = vsub_vv (vand_vx (vsrl_vx d 4) 0x3) (vsrl_vx d 6);
          c0w = vsext_vf2 c0;
          c1w = vsext_vf2 c1
      in vsseg2 r (32 * i) c0w c1w vl)"

definition cbd2_rvv :: "bytes \<Rightarrow> poly" where
  "cbd2_rvv buf = fold (cbd2_rvv_step buf) [0..<MLKEM_PAR_N div 32] (replicate MLKEM_PAR_N 0)"

definition cbd3_rvv_step :: "bytes \<Rightarrow> nat \<Rightarrow> i32 list \<Rightarrow> i32 list" where
  "cbd3_rvv_step buf i tmp =
     (let vl = 8; M = 0x00249249 :: u32;
          t = vzext_vf4 (vlseg_field 3 buf (24 * i) vl 0);
          t = vor_vv t (vsll_vx (vzext_vf4 (vlseg_field 3 buf (24 * i) vl 1)) 8);
          t = vor_vv t (vsll_vx (vzext_vf4 (vlseg_field 3 buf (24 * i) vl 2)) 16);
          d = vand_vx t M;
          d = vadd_vv d (vand_vx (vsrl_vx t 1) M);
          d = vadd_vv d (vand_vx (vsrl_vx t 2) M);
          c0 = vsub_vv (vand_vx d 0x7) (vand_vx (vsrl_vx d 3) 0x7);
          c1 = vsub_vv (vand_vx (vsrl_vx d 6) 0x7) (vand_vx (vsrl_vx d 9) 0x7);
          c2 = vsub_vv (vand_vx (vsrl_vx d 12) 0x7) (vand_vx (vsrl_vx d 15) 0x7);
          c3 = vsub_vv (vand_vx (vsrl_vx d 18) 0x7) (vsrl_vx d 21);
          base = 32 * i;
          tmp = vsse tmp (base + 0) 4 c0 vl;
          tmp = vsse tmp (base + 1) 4 c1 vl;
          tmp = vsse tmp (base + 2) 4 c2 vl;
          tmp = vsse tmp (base + 3) 4 c3 vl
      in tmp)"

text \<open>The static array \<open>tmp\<close> is overwritten by every call.\<close>

definition cbd3_rvv :: "bytes \<Rightarrow> poly" where
  "cbd3_rvv buf =
     (let tmp = fold (cbd3_rvv_step buf) [0..<MLKEM_PAR_N div 32] (replicate MLKEM_PAR_N 0)
      in fold (\<lambda>j r. vse r (16 * j) (vncvt_x_x_w (vle tmp (16 * j) 16)) 16) [0..<MLKEM_PAR_N div 16] (replicate MLKEM_PAR_N 0))"

end
