(* ===== verification/Kem_Rvv_Lanes.thy ===== *)
theory Kem_Rvv_Lanes
  imports Kem_Rvv Rvv_Pass Kem_Ntt_Correct
begin

text \<open>
  The arithmetic of a single lane of the vector kernels of \<open>mlkem/rvv_poly.c\<close>: the Montgomery product
  \<open>fq_mul\<close>, the final reduction and conditional subtraction, and the two butterflies, with the values they compute
  modulo \<open>3329\<close> and the ranges they stay in.  A vector operation is the map of its lane.
\<close>

section \<open>Montgomery multiplication in a lane\<close>

definition kem_vmul :: "i16 \<Rightarrow> i16 \<Rightarrow> i16" where
  "kem_vmul x y = mulh (x * y * MONT_QI) MONT_Q + mulh x y + of_bool (x * y \<noteq> 0)"

lemma sint_mulh: "sint (mulh x y :: i16) = sint x * sint y div 65536"
proof -
  have "\<bar>sint x * sint y\<bar> \<le> 32768 * 32768"
    unfolding abs_mult using i16_range [of x] i16_range [of y] by (intro mult_mono) auto
  then have "- 32768 \<le> sint x * sint y div 65536" "sint x * sint y div 65536 < 32768" by linarith+
  then show ?thesis by (simp add: mulh_def sint_sbintrunc' signed_take_bit_int_eq_self)
qed

lemma carry_split:
  fixes a b :: int
  assumes "65536 dvd a + b"
  shows "b div 65536 + a div 65536 + of_bool (a mod 65536 \<noteq> 0) = (a + b) div 65536"
proof -
  obtain m where m: "a + b = 65536 * m" using assms by (elim dvdE)
  define r where "r = a mod 65536"
  have r: "0 \<le> r" "r < 65536" by (simp_all add: r_def)
  have b: "b = 65536 * (m - a div 65536) - r"
    using m minus_mod_eq_mult_div [of a 65536] unfolding r_def right_diff_distrib by (simp add: algebra_simps del: minus_mod_eq_mult_div)
  show ?thesis
  proof (cases "r = 0")
    case True
    then show ?thesis using m b by (simp add: r_def)
  next
    case False
    then have "b = (65536 - r) + 65536 * (m - a div 65536 - 1)" using b by simp
    then have "b div 65536 = (65536 - r) div 65536 + (m - a div 65536 - 1)" by (simp only: div_mult_self2)
    also have "(65536 - r) div 65536 = 0" using r False by simp
    finally show ?thesis using m False by (simp add: r_def)
  qed
qed

text \<open>
  The two halves of \<open>x * y\<close> are reduced separately: the low half of \<open>x * y + t * q\<close> is zero, so its carry
  into the high half is one exactly when the low half of \<open>x * y\<close> is not zero.
\<close>

lemma kem_vmul_exact:
  obtains t where "sint (kem_vmul x y) * 65536 = sint x * sint y + t * 3329" "- 32768 \<le> t" "t < 32768"
proof -
  define Z where "Z = sint x * sint y"
  define t where "t = sint (x * y * MONT_QI)"
  have Zb: "\<bar>Z\<bar> \<le> 32768 * 32768"
    unfolding Z_def abs_mult using i16_range [of x] i16_range [of y] by (intro mult_mono) auto
  have tr: "- 32768 \<le> t" "t < 32768" unfolding t_def by (rule i16_range)+
  have l: "modeq 65536 (sint (x * y)) Z" using sint_mult_modeq [of x y] by (simp add: Z_def)
  have "modeq 65536 t (sint (x * y) * 3327)" using sint_mult_modeq [of "x * y" "MONT_QI"] by (simp add: t_def)
  also have "modeq 65536 \<dots> (Z * 3327)" by (intro modeq_mult modeq_refl l)
  finally have tm: "modeq 65536 t (Z * 3327)" .
  have "modeq 65536 (Z + t * 3329) (Z + Z * 3327 * 3329)" by (intro modeq_add modeq_mult modeq_refl tm)
  also have "\<dots> = 0 + 65536 * (169 * Z)" by simp
  also have "modeq 65536 \<dots> 0" by (rule modeqI) simp
  finally have d: "65536 dvd Z + t * 3329" by (simp add: modeq_iff_dvd)
  have z: "x * y = 0 \<longleftrightarrow> Z mod 65536 = 0"
  proof -
    have "x * y = 0 \<longleftrightarrow> sint (x * y) = 0" by (metis sint_0 signed_word_eqI)
    also have "\<dots> \<longleftrightarrow> Z mod 65536 = 0"
    proof
      assume "sint (x * y) = 0"
      then show "Z mod 65536 = 0" using l by (simp add: modeq_def)
    next
      assume "Z mod 65536 = 0"
      then have "modeq (2 ^ LENGTH(16)) (sint (x * y)) 0" using l by (simp add: modeq_def)
      then show "sint (x * y) = 0" by (rule sint_unique) simp_all
    qed
    finally show ?thesis .
  qed
  have k: "t * 3329 div 65536 + Z div 65536 + of_bool (x * y \<noteq> 0) = (Z + t * 3329) div 65536"
    unfolding z by (rule carry_split [OF d])
  define k where "k = (Z + t * 3329) div 65536"
  have kz: "k * 65536 = Z + t * 3329" using d by (simp add: k_def)
  have kb: "- 32768 \<le> k" "k < 32768" using kz tr Zb by linarith+
  have "modeq 65536 (sint (kem_vmul x y)) (t * 3329 div 65536 + Z div 65536 + of_bool (x * y \<noteq> 0))"
  proof -
    have "modeq 65536 (sint (kem_vmul x y)) (sint (mulh (x * y * MONT_QI) MONT_Q + mulh x y) + sint (of_bool (x * y \<noteq> 0) :: i16))"
      unfolding kem_vmul_def using sint_add_modeq [where 'a = 16] by simp
    also have "modeq 65536 \<dots> (sint (mulh (x * y * MONT_QI) MONT_Q) + sint (mulh x y) + sint (of_bool (x * y \<noteq> 0) :: i16))"
      by (intro modeq_add modeq_refl) (use sint_add_modeq [where 'a = 16] in simp)
    finally show ?thesis by (cases "x * y = 0") (simp_all add: sint_mulh t_def Z_def)
  qed
  then have "sint (kem_vmul x y) = k"
    unfolding k [folded k_def] using kb by (intro sint_unique) simp_all
  then show thesis using kz tr by (intro that [of t]) (simp_all add: Z_def)
qed

lemma kem_vmul_modeq: "modeq 3329 (sint (kem_vmul x y)) (169 * (sint x * sint y))"
proof (rule kem_vmul_exact [of x y])
  fix t
  assume "sint (kem_vmul x y) * 65536 = sint x * sint y + t * 3329"
  then have "sint (kem_vmul x y) = 169 * (sint x * sint y) + 3329 * (169 * t - 3327 * sint (kem_vmul x y))" by simp
  then show ?thesis by (rule modeqI)
qed

lemma kem_vmul_bound:
  assumes "\<bar>sint y\<bar> \<le> 2285"
  shows "\<bar>sint (kem_vmul x y)\<bar> \<le> 2807"
proof (rule kem_vmul_exact [of x y])
  fix t
  assume "sint (kem_vmul x y) * 65536 = sint x * sint y + t * 3329" "- 32768 \<le> t" "t < 32768"
  moreover have "\<bar>sint x * sint y\<bar> \<le> 32768 * 2285"
    unfolding abs_mult using i16_range [of x] assms by (intro mult_mono) auto
  ultimately show ?thesis by linarith
qed

lemma fq_redc_map:
  "length rh = length rl \<Longrightarrow> fq_redc rh rl = map2 (\<lambda>h l. mulh (l * MONT_QI) MONT_Q + h + of_bool (l \<noteq> 0)) rh rl"
  by (rule nth_equalityI) (simp_all add: fq_redc_def vmul_vx_def vmulh_vx_def vmsne_vx_def vadc_vvm_def)

lemma fq_mul_vx_map: "fq_mul_vx u z = map (\<lambda>x. kem_vmul x z) u"
  by (rule nth_equalityI) (simp_all add: fq_mul_vx_def fq_redc_map vmulh_vx_def vmul_vx_def kem_vmul_def)

lemma fq_mul_vv_map: "length u = length z \<Longrightarrow> fq_mul_vv u z = map2 kem_vmul u z"
  by (rule nth_equalityI) (simp_all add: fq_mul_vv_def fq_redc_map vmulh_vv_def vmul_vv_def kem_vmul_def)

section \<open>Conditional additions and normalisation\<close>

definition kem_csub :: "i16 \<Rightarrow> i16" where
  "kem_csub x = (if 3329 \<le> sint x then x - 3329 else x)"

definition kem_norm :: "i16 \<Rightarrow> i16 \<Rightarrow> i16" where
  "kem_norm c x = (let y = kem_vmul x c in if sint y < 0 then y + 3329 else y)"

lemma fq_csub_map: "fq_csub x = map kem_csub x"
  by (rule nth_equalityI) (simp_all add: fq_csub_def vmsge_vx_def vsub_vx_mu_def kem_csub_def)

lemma fq_mulq_vx_map: "fq_mulq_vx x c = map (kem_norm c) x"
  by (rule nth_equalityI)
    (simp_all add: fq_mulq_vx_def fq_cadd_def fq_mul_vx_map vmslt_vx_def vadd_vx_mu_def kem_norm_def Let_def)

lemma sint_kem_csub: "sint (kem_csub x) = (if 3329 \<le> sint x then sint x - 3329 else sint x)"
  using i16_range [of x] by (simp add: kem_csub_def sint_diff_fit)

text \<open>The product with a constant, as a standard representative.\<close>

lemma sint_kem_norm:
  assumes "\<bar>sint c\<bar> \<le> 2285"
  shows "sint (kem_norm c x) = 169 * (sint x * sint c) mod 3329"
proof -
  let ?y = "kem_vmul x c"
  have b: "\<bar>sint ?y\<bar> \<le> 2807" by (rule kem_vmul_bound [OF assms])
  then have s: "sint (kem_norm c x) = (if sint ?y < 0 then sint ?y + 3329 else sint ?y)"
    by (simp add: kem_norm_def Let_def sint_add_fit)
  then have "0 \<le> sint (kem_norm c x)" "sint (kem_norm c x) < 3329" using b by (simp_all split: if_splits)
  then have "sint (kem_norm c x) = sint (kem_norm c x) mod 3329" by simp
  also have "\<dots> = sint ?y mod 3329" unfolding s by simp
  also have "\<dots> = 169 * (sint x * sint c) mod 3329" using kem_vmul_modeq by (simp add: modeq_def)
  finally show ?thesis .
qed

section \<open>Butterflies\<close>

definition kem_vct :: "i16 \<Rightarrow> i16 \<Rightarrow> i16 \<Rightarrow> i16 \<times> i16" where
  "kem_vct z x y = (x + kem_vmul y z, x - kem_vmul y z)"

definition kem_vgs :: "i16 \<Rightarrow> i16 \<Rightarrow> i16 \<Rightarrow> i16 \<times> i16" where
  "kem_vgs z x y = (kem_csub (x + y), kem_vmul (x - y) z)"

lemma RVV_BFLY_FX_eq: "RVV_BFLY_FX u v z = vbf (kem_vct z) u v"
  by (auto simp: RVV_BFLY_FX_def fq_mul_vx_map vbf_def kem_vct_def Let_def vsub_vv_def vadd_vv_def intro!: nth_equalityI)

lemma RVV_BFLY_RX_eq: "RVV_BFLY_RX u v z = vbf (kem_vgs z) u v"
  by (auto simp: RVV_BFLY_RX_def fq_mul_vx_map fq_csub_map vbf_def kem_vgs_def Let_def vsub_vv_def vadd_vv_def intro!: nth_equalityI)

lemma RVV_BFLY_FV_round:
  "length z = n \<Longrightarrow> length u = n \<Longrightarrow> length v = n \<Longrightarrow> RVV_BFLY_FV u v z = lane_round kem_vct z u v"
  by (auto simp: RVV_BFLY_FV_def fq_mul_vv_map lane_round_def kem_vct_def Let_def vsub_vv_def vadd_vv_def intro!: nth_equalityI)

lemma RVV_BFLY_RV_round:
  "length z = n \<Longrightarrow> length u = n \<Longrightarrow> length v = n \<Longrightarrow> RVV_BFLY_RV u v z = lane_round kem_vgs z u v"
  by (auto simp: RVV_BFLY_RV_def fq_mul_vv_map fq_csub_map lane_round_def kem_vgs_def Let_def vsub_vv_def vadd_vv_def
      intro!: nth_equalityI)

lemma kem_vct_fwd:
  assumes "k < 128" "B + 2807 \<le> 32767"
  shows "fwd_bfly 3329 sint B (B + 2807) (kem_root k) (kem_vct (mlkem_zetas ! k))"
  unfolding fwd_bfly_def
proof (intro allI impI)
  fix x y :: i16
  assume x: "\<bar>sint x\<bar> \<le> B" and y: "\<bar>sint y\<bar> \<le> B"
  let ?t = "kem_vmul y (mlkem_zetas ! k)"
  have t: "\<bar>sint ?t\<bar> \<le> 2807" using mlkem_zetas_small [OF assms(1)] by (intro kem_vmul_bound) simp
  have m: "modeq 3329 (sint ?t) (kem_root k * sint y)"
    using kem_vmul_modeq [of y "mlkem_zetas ! k"] by (simp add: kem_root_def sint_mlkem_zetas [OF assms(1)] algebra_simps)
  have "sint (fst (kem_vct (mlkem_zetas ! k) x y)) = sint x + sint ?t" "sint (snd (kem_vct (mlkem_zetas ! k) x y)) = sint x - sint ?t"
    using t x assms(2) by (simp_all add: kem_vct_def sint_add_fit sint_diff_fit)
  then show "modeq 3329 (sint (fst (kem_vct (mlkem_zetas ! k) x y))) (sint x + kem_root k * sint y) \<and>
      modeq 3329 (sint (snd (kem_vct (mlkem_zetas ! k) x y))) (sint x - kem_root k * sint y) \<and>
      \<bar>sint (fst (kem_vct (mlkem_zetas ! k) x y))\<bar> \<le> B + 2807 \<and> \<bar>sint (snd (kem_vct (mlkem_zetas ! k) x y))\<bar> \<le> B + 2807"
    using t x m by (auto intro: modeq_add modeq_diff)
qed

lemma kem_vgs_sum:
  assumes "\<bar>sint x\<bar> \<le> 16383" "\<bar>sint y\<bar> \<le> 16383"
  shows "sint (fst (kem_vgs z x y)) = (if 3329 \<le> sint x + sint y then sint x + sint y - 3329 else sint x + sint y)"
  using assms by (simp add: kem_vgs_def sint_kem_csub sint_add_fit)

lemma kem_vgs_prod_bound:
  assumes "k < 128"
  shows "\<bar>sint (snd (kem_vgs (- (mlkem_zetas ! k)) x y))\<bar> \<le> 2807"
proof -
  have "sint (- (mlkem_zetas ! k)) = - sint (mlkem_zetas ! k)"
    using mlkem_zetas_small [OF assms] by (intro sint_minus_fit) simp
  then show ?thesis unfolding kem_vgs_def using mlkem_zetas_small [OF assms] by (simp add: kem_vmul_bound)
qed

lemma kem_vgs_inv:
  assumes k: "k < 128" and B: "1404 \<le> B" "B \<le> 16383"
  shows "inv_bfly 3329 sint B (2 * B) (kem_root k) (kem_vgs (- (mlkem_zetas ! k)))"
  unfolding inv_bfly_def
proof (intro allI impI)
  fix x y :: i16
  assume x: "\<bar>sint x\<bar> \<le> B" and y: "\<bar>sint y\<bar> \<le> B"
  let ?z = "- (mlkem_zetas ! k)"
  note s = kem_vgs_sum [of x y ?z]
  have "sint ?z = - sint (mlkem_zetas ! k)" using mlkem_zetas_small [OF k] by (intro sint_minus_fit) simp
  moreover have "sint (x - y) = sint x - sint y" using x y B(2) by (intro sint_diff_fit) simp_all
  ultimately have "169 * (sint (x - y) * sint ?z) = kem_root k * (sint y - sint x)"
    by (simp only:) (simp add: kem_root_def sint_mlkem_zetas [OF k] algebra_simps)
  then have "modeq 3329 (sint (snd (kem_vgs ?z x y))) (kem_root k * (sint y - sint x))"
    using kem_vmul_modeq [of "x - y" ?z] by (simp add: kem_vgs_def)
  moreover have "modeq 3329 (sint (fst (kem_vgs ?z x y))) (sint x + sint y)"
    using s x y B(2) by (simp add: modeq_def)
  ultimately show "modeq 3329 (sint (fst (kem_vgs ?z x y))) (sint x + sint y) \<and>
      modeq 3329 (sint (snd (kem_vgs ?z x y))) (kem_root k * (sint y - sint x)) \<and>
      \<bar>sint (fst (kem_vgs ?z x y))\<bar> \<le> 2 * B \<and> \<bar>sint (snd (kem_vgs ?z x y))\<bar> \<le> 2 * B"
    using s x y B kem_vgs_prod_bound [OF k, of x y] by (auto split: if_splits)
qed

end
