(* ===== verification/Kem_Rvv_Layers.thy ===== *)
theory Kem_Rvv_Layers
  imports Kem_Rvv_Lanes
begin

text \<open>
  How the vector kernels lay a layer of the transform out on registers: the permutations between layers, the tables of
  factors that \<open>rvv_zeta\<close> and \<open>rvv_izeta\<close> hand to each register, and the inner layers on two registers as the passes
  of \<open>Rvv_Pass\<close>.
\<close>

section \<open>Permutations and tables\<close>

lemma mlkem_perms:
  "mlkem_bitswap_perm 3 4 32 = [0, 1, 2, 3, 4, 5, 6, 7, 16, 17, 18, 19, 20, 21, 22, 23, 8, 9, 10, 11, 12, 13, 14, 15, 24, 25, 26, 27, 28, 29, 30, 31]"
  "mlkem_bitswap_perm 2 4 32 = [0, 1, 2, 3, 16, 17, 18, 19, 8, 9, 10, 11, 24, 25, 26, 27, 4, 5, 6, 7, 20, 21, 22, 23, 12, 13, 14, 15, 28, 29, 30, 31]"
  "mlkem_bitswap_perm 1 4 32 = [0, 1, 16, 17, 4, 5, 20, 21, 8, 9, 24, 25, 12, 13, 28, 29, 2, 3, 18, 19, 6, 7, 22, 23, 10, 11, 26, 27, 14, 15, 30, 31]"
  by code_simp+

lemma mlkem_perm_products:
  "vrgather_vv (vrgather_vv (mlkem_bitswap_perm 1 4 32) (mlkem_bitswap_perm 2 4 32)) (mlkem_bitswap_perm 3 4 32) =
    [0, 1, 16, 17, 2, 3, 18, 19, 4, 5, 20, 21, 6, 7, 22, 23, 8, 9, 24, 25, 10, 11, 26, 27, 12, 13, 28, 29, 14, 15, 30, 31]"
  "vrgather_vv (vrgather_vv (mlkem_bitswap_perm 3 4 32) (mlkem_bitswap_perm 2 4 32)) (mlkem_bitswap_perm 1 4 32) =
    [0, 1, 4, 5, 8, 9, 12, 13, 16, 17, 20, 21, 24, 25, 28, 29, 2, 3, 6, 7, 10, 11, 14, 15, 18, 19, 22, 23, 26, 27, 30, 31]"
  by code_simp+

lemma kem_lanes:
  "vadd_vx (vsrl_vx (vid_v 16 :: u16 list) 3) 2 = [2, 2, 2, 2, 2, 2, 2, 2, 3, 3, 3, 3, 3, 3, 3, 3]"
  "vadd_vx (vsrl_vx (vid_v 16 :: u16 list) 2) (2 + 2) = [4, 4, 4, 4, 5, 5, 5, 5, 6, 6, 6, 6, 7, 7, 7, 7]"
  "vadd_vx (vsrl_vx (vid_v 16 :: u16 list) 1) (2 + 2 + 4) = [8, 8, 9, 9, 10, 10, 11, 11, 12, 12, 13, 13, 14, 14, 15, 15]"
  by code_simp+

text \<open>Row \<open>e\<close> of a table: two entries of an outer layer and those of the inner layers of block \<open>e\<close>.\<close>

lemma kem_zeta_rows:
  "rvv_mlkem_zeta = concat (map (\<lambda>e. map (\<lambda>i. mlkem_zetas ! i)
    ([2 * e, 2 * e + 1] @ [16 + 2 * e..<18 + 2 * e] @ [32 + 4 * e..<36 + 4 * e] @ [64 + 8 * e..<72 + 8 * e])) [0..<8])"
  by code_simp

lemma kem_izeta_rows:
  "rvv_mlkem_izeta = concat (map (\<lambda>e. [rvv_mlkem_izeta ! (16 * e), rvv_mlkem_izeta ! (16 * e + 1)] @ map (\<lambda>i. - (mlkem_zetas ! i))
    (map (\<lambda>j. 31 - (2 * e + j)) [0..<2] @ map (\<lambda>j. 63 - (4 * e + j)) [0..<4] @ map (\<lambda>j. 127 - (8 * e + j)) [0..<8])) [0..<8])"
  by code_simp

lemma vle_eq_chunk: "w * e + w \<le> length xs \<Longrightarrow> vle xs (w * e) w = chunk w e xs"
  by (rule nth_equalityI) (simp_all add: vle_def)

lemma vle_concat_row:
  assumes "\<And>i. i < n \<Longrightarrow> length (f i) = w" "e < n"
  shows "vle (concat (map f [0..<n])) (w * e) w = f e"
proof -
  have "w * e + w \<le> n * w" using mult_le_mono2 [of "Suc e" n w] assms(2) by (simp add: mult.commute)
  then show ?thesis
    using vle_eq_chunk [of w e "concat (map f [0..<n])"] chunk_concat_map [of n f w e] assms length_concat_chunks [of n f w] by simp
qed

lemma kem_zeta_row:
  assumes "e < 8"
  shows "vle rvv_mlkem_zeta (16 * e) 16 = map (\<lambda>i. mlkem_zetas ! i)
    ([2 * e, 2 * e + 1] @ [16 + 2 * e..<18 + 2 * e] @ [32 + 4 * e..<36 + 4 * e] @ [64 + 8 * e..<72 + 8 * e])"
  unfolding kem_zeta_rows by (rule vle_concat_row) (use assms in simp_all)

lemma kem_izeta_row:
  assumes "e < 8"
  shows "vle rvv_mlkem_izeta (16 * e) 16 = [rvv_mlkem_izeta ! (16 * e), rvv_mlkem_izeta ! (16 * e + 1)] @ map (\<lambda>i. - (mlkem_zetas ! i))
    (map (\<lambda>j. 31 - (2 * e + j)) [0..<2] @ map (\<lambda>j. 63 - (4 * e + j)) [0..<4] @ map (\<lambda>j. 127 - (8 * e + j)) [0..<8])"
  by (subst kem_izeta_rows, rule vle_concat_row) (use assms in simp_all)

section \<open>The inner layers of the forward transform\<close>

text \<open>The three inner layers of block \<open>e\<close> of thirty-two coefficients.\<close>

definition kem_inner :: "nat \<Rightarrow> i16 list \<Rightarrow> i16 list" where
  "kem_inner e x =
     (let x = ntt_pass (\<lambda>b. kem_vct (mlkem_zetas ! (16 + 2 * e + b))) 8 2 x;
          x = ntt_pass (\<lambda>b. kem_vct (mlkem_zetas ! (32 + 4 * e + b))) 4 4 x
      in ntt_pass (\<lambda>b. kem_vct (mlkem_zetas ! (64 + 8 * e + b))) 2 8 x)"

lemma length_kem_inner [simp]: "length (kem_inner e x) = length x"
  by (simp add: kem_inner_def)

lemma gather_map: "\<forall>i \<in> set P. i < length x \<Longrightarrow> gather (map f x) P = map f (gather x P)"
  by (simp add: gather_def)

lemma mlkem_vector_ntt2_eq:
  assumes e: "e < 8" and x: "length x = 32"
  shows "mlkem_vector_ntt2 x (vle rvv_mlkem_zeta (16 * e) 16) = map (kem_norm 2285) (kem_inner e x)"
proof -
  let ?z = "\<lambda>i. mlkem_zetas ! i"
  let ?c8 = "[?z (16 + 2 * e), ?z (16 + 2 * e), ?z (16 + 2 * e), ?z (16 + 2 * e), ?z (16 + 2 * e), ?z (16 + 2 * e), ?z (16 + 2 * e), ?z (16 + 2 * e), ?z (17 + 2 * e), ?z (17 + 2 * e), ?z (17 + 2 * e), ?z (17 + 2 * e), ?z (17 + 2 * e), ?z (17 + 2 * e), ?z (17 + 2 * e), ?z (17 + 2 * e)]"
  let ?c4 = "[?z (32 + 4 * e), ?z (32 + 4 * e), ?z (32 + 4 * e), ?z (32 + 4 * e), ?z (33 + 4 * e), ?z (33 + 4 * e), ?z (33 + 4 * e), ?z (33 + 4 * e), ?z (34 + 4 * e), ?z (34 + 4 * e), ?z (34 + 4 * e), ?z (34 + 4 * e), ?z (35 + 4 * e), ?z (35 + 4 * e), ?z (35 + 4 * e), ?z (35 + 4 * e)]"
  let ?c2 = "[?z (64 + 8 * e), ?z (64 + 8 * e), ?z (65 + 8 * e), ?z (65 + 8 * e), ?z (66 + 8 * e), ?z (66 + 8 * e), ?z (67 + 8 * e), ?z (67 + 8 * e), ?z (68 + 8 * e), ?z (68 + 8 * e), ?z (69 + 8 * e), ?z (69 + 8 * e), ?z (70 + 8 * e), ?z (70 + 8 * e), ?z (71 + 8 * e), ?z (71 + 8 * e)]"
  define x1 where "x1 = ntt_pass (\<lambda>b. kem_vct (?z (16 + 2 * e + b))) 8 2 x"
  define x2 where "x2 = ntt_pass (\<lambda>b. kem_vct (?z (32 + 4 * e + b))) 4 4 x1"
  have len: "length x = 2 * 16" "length x1 = 2 * 16" "length x2 = 2 * 16" using x by (simp_all add: x1_def x2_def)
  have F: "RVV_BFLY_FV u v c = lane_round kem_vct c u v" if "length c = 16" "length u = 16" "length v = 16" for u v c
    using that by (rule RVV_BFLY_FV_round)
  let ?i1 = "[0, 1, 2, 3, 4, 5, 6, 7, 16, 17, 18, 19, 20, 21, 22, 23, 8, 9, 10, 11, 12, 13, 14, 15, 24, 25, 26, 27, 28, 29, 30, 31] :: u16 list"
  let ?i2 = "[0, 1, 2, 3, 16, 17, 18, 19, 8, 9, 10, 11, 24, 25, 26, 27, 4, 5, 6, 7, 20, 21, 22, 23, 12, 13, 14, 15, 28, 29, 30, 31] :: u16 list"
  let ?i3 = "[0, 1, 16, 17, 4, 5, 20, 21, 8, 9, 24, 25, 12, 13, 28, 29, 2, 3, 18, 19, 6, 7, 22, 23, 10, 11, 26, 27, 14, 15, 30, 31] :: u16 list"
  let ?i4 = "[0, 1, 16, 17, 2, 3, 18, 19, 4, 5, 20, 21, 6, 7, 22, 23, 8, 9, 24, 25, 10, 11, 26, 27, 12, 13, 28, 29, 14, 15, 30, 31] :: u16 list"
  let ?P1 = "[0, 1, 2, 3, 4, 5, 6, 7, 16, 17, 18, 19, 20, 21, 22, 23, 8, 9, 10, 11, 12, 13, 14, 15, 24, 25, 26, 27, 28, 29, 30, 31] :: nat list"
  let ?P2 = "[0, 1, 2, 3, 8, 9, 10, 11, 16, 17, 18, 19, 24, 25, 26, 27, 4, 5, 6, 7, 12, 13, 14, 15, 20, 21, 22, 23, 28, 29, 30, 31] :: nat list"
  let ?P3 = "[0, 1, 4, 5, 8, 9, 12, 13, 16, 17, 20, 21, 24, 25, 28, 29, 2, 3, 6, 7, 10, 11, 14, 15, 18, 19, 22, 23, 26, 27, 30, 31] :: nat list"
  have "pass_order (\<lambda>b. ?z (16 + 2 * e + b)) 8 2 ?c8 ?P1 16" "pass_order (\<lambda>b. ?z (32 + 4 * e + b)) 4 4 ?c4 ?P2 16"
    "pass_order (\<lambda>b. ?z (64 + 8 * e + b)) 2 8 ?c2 ?P3 16"
    unfolding pass_order_def by (simp_all add: all_less_numeral all_less_1 flip: One_nat_def)
  note o = this
  have "?P1 = map (\<lambda>i. [0..<32] ! unat i) ?i1" "?P2 = map (\<lambda>i. ?P1 ! unat i) ?i2" "?P3 = map (\<lambda>i. ?P2 ! unat i) ?i3"
    by simp_all
  note p = this
  have r1: "vcreate_v (fst (RVV_BFLY_FV (vget_v 16 s 0) (vget_v 16 s 1) ?c8)) (snd (RVV_BFLY_FV (vget_v 16 s 0) (vget_v 16 s 1) ?c8)) =
      gather x1 ?P1" if "s = vrgather_vv (gather x [0..<32]) ?i1" for s
    unfolding that x1_def by (rule gathered_round [OF F len(1) o(1) p(1)]) simp_all
  have r2: "vcreate_v (fst (RVV_BFLY_FV (vget_v 16 s 0) (vget_v 16 s 1) ?c4)) (snd (RVV_BFLY_FV (vget_v 16 s 0) (vget_v 16 s 1) ?c4)) =
      gather x2 ?P2" if "s = vrgather_vv (gather x1 ?P1) ?i2" for s
    unfolding that x2_def by (rule gathered_round [OF F len(2) o(2) p(2)]) simp_all
  have r3: "vcreate_v (fst (RVV_BFLY_FV (vget_v 16 s 0) (vget_v 16 s 1) ?c2)) (snd (RVV_BFLY_FV (vget_v 16 s 0) (vget_v 16 s 1) ?c2)) =
      gather (kem_inner e x) ?P3" if "s = vrgather_vv (gather x2 ?P2) ?i3" for s
    unfolding that kem_inner_def Let_def x1_def [symmetric] x2_def [symmetric]
    by (rule gathered_round [OF F len(3) o(3) p(3)]) simp_all
  have nrm: "vcreate_v (fq_mulq_vx u c) (fq_mulq_vx v c) = map (kem_norm c) (vcreate_v u v)" for u v c
    by (simp add: fq_mulq_vx_map vcreate_v_def)
  have fin: "vrgather_vv (map (kem_norm 2285) (gather (kem_inner e x) ?P3)) ?i4 = map (kem_norm 2285) (kem_inner e x)"
    using x by (subst vrgather_gather) (simp_all add: gather_map gather_gather gather_all upt_rec)
  have x0: "x = gather x [0..<32]" using gather_id [OF x] by simp
  have g: "vrgather_vv (vle rvv_mlkem_zeta (16 * e) 16) ([2, 2, 2, 2, 2, 2, 2, 2, 3, 3, 3, 3, 3, 3, 3, 3] :: u16 list) = ?c8"
    "vrgather_vv (vle rvv_mlkem_zeta (16 * e) 16) ([4, 4, 4, 4, 5, 5, 5, 5, 6, 6, 6, 6, 7, 7, 7, 7] :: u16 list) = ?c4"
    "vrgather_vv (vle rvv_mlkem_zeta (16 * e) 16) ([8, 8, 9, 9, 10, 10, 11, 11, 12, 12, 13, 13, 14, 14, 15, 15] :: u16 list) = ?c2"
    unfolding kem_zeta_row [OF e] by (simp_all add: vrgather_vv_def upt_rec)
  have n: "(2 :: nat) * 16 = 32" by simp
  show ?thesis
    unfolding mlkem_vector_ntt2_def Let_def case_prod_beta n mlkem_perm_products nrm
    unfolding mlkem_perms kem_lanes g r1 [OF arg_cong [where f = "\<lambda>s. vrgather_vv s ?i1", OF x0]] r2 [OF refl] r3 [OF refl] fin ..
qed

section \<open>The inner layers of the inverse transform\<close>

definition kem_inner_inv :: "nat \<Rightarrow> i16 list \<Rightarrow> i16 list" where
  "kem_inner_inv e x =
     (let x = ntt_pass (\<lambda>b. kem_vgs (- (mlkem_zetas ! (127 - (8 * e + b))))) 2 8 x;
          x = ntt_pass (\<lambda>b. kem_vgs (- (mlkem_zetas ! (63 - (4 * e + b))))) 4 4 x
      in ntt_pass (\<lambda>b. kem_vgs (- (mlkem_zetas ! (31 - (2 * e + b))))) 8 2 x)"

lemma length_kem_inner_inv [simp]: "length (kem_inner_inv e x) = length x"
  by (simp add: kem_inner_inv_def)

lemma mlkem_vector_intt2_eq:
  assumes e: "e < 8" and x: "length x = 32"
  shows "mlkem_vector_intt2 x (vle rvv_mlkem_izeta (16 * e) 16) = map (kem_norm 2285) (kem_inner_inv e x)"
proof -
  let ?z = "\<lambda>i. - (mlkem_zetas ! i)"
  let ?c8 = "[?z (31 - (2 * e + 0)), ?z (31 - (2 * e + 0)), ?z (31 - (2 * e + 0)), ?z (31 - (2 * e + 0)), ?z (31 - (2 * e + 0)), ?z (31 - (2 * e + 0)), ?z (31 - (2 * e + 0)), ?z (31 - (2 * e + 0)), ?z (31 - (2 * e + 1)), ?z (31 - (2 * e + 1)), ?z (31 - (2 * e + 1)), ?z (31 - (2 * e + 1)), ?z (31 - (2 * e + 1)), ?z (31 - (2 * e + 1)), ?z (31 - (2 * e + 1)), ?z (31 - (2 * e + 1))]"
  let ?c4 = "[?z (63 - (4 * e + 0)), ?z (63 - (4 * e + 0)), ?z (63 - (4 * e + 0)), ?z (63 - (4 * e + 0)), ?z (63 - (4 * e + 1)), ?z (63 - (4 * e + 1)), ?z (63 - (4 * e + 1)), ?z (63 - (4 * e + 1)), ?z (63 - (4 * e + 2)), ?z (63 - (4 * e + 2)), ?z (63 - (4 * e + 2)), ?z (63 - (4 * e + 2)), ?z (63 - (4 * e + 3)), ?z (63 - (4 * e + 3)), ?z (63 - (4 * e + 3)), ?z (63 - (4 * e + 3))]"
  let ?c2 = "[?z (127 - (8 * e + 0)), ?z (127 - (8 * e + 0)), ?z (127 - (8 * e + 1)), ?z (127 - (8 * e + 1)), ?z (127 - (8 * e + 2)), ?z (127 - (8 * e + 2)), ?z (127 - (8 * e + 3)), ?z (127 - (8 * e + 3)), ?z (127 - (8 * e + 4)), ?z (127 - (8 * e + 4)), ?z (127 - (8 * e + 5)), ?z (127 - (8 * e + 5)), ?z (127 - (8 * e + 6)), ?z (127 - (8 * e + 6)), ?z (127 - (8 * e + 7)), ?z (127 - (8 * e + 7))]"
  define x1 where "x1 = ntt_pass (\<lambda>b. kem_vgs (?z (127 - (8 * e + b)))) 2 8 x"
  define x2 where "x2 = ntt_pass (\<lambda>b. kem_vgs (?z (63 - (4 * e + b)))) 4 4 x1"
  have len: "length x = 2 * 16" "length x1 = 2 * 16" "length x2 = 2 * 16" using x by (simp_all add: x1_def x2_def)
  have F: "RVV_BFLY_RV u v c = lane_round kem_vgs c u v" if "length c = 16" "length u = 16" "length v = 16" for u v c
    using that by (rule RVV_BFLY_RV_round)
  let ?i1 = "[0, 1, 4, 5, 8, 9, 12, 13, 16, 17, 20, 21, 24, 25, 28, 29, 2, 3, 6, 7, 10, 11, 14, 15, 18, 19, 22, 23, 26, 27, 30, 31] :: u16 list"
  let ?i2 = "[0, 1, 16, 17, 4, 5, 20, 21, 8, 9, 24, 25, 12, 13, 28, 29, 2, 3, 18, 19, 6, 7, 22, 23, 10, 11, 26, 27, 14, 15, 30, 31] :: u16 list"
  let ?i3 = "[0, 1, 2, 3, 16, 17, 18, 19, 8, 9, 10, 11, 24, 25, 26, 27, 4, 5, 6, 7, 20, 21, 22, 23, 12, 13, 14, 15, 28, 29, 30, 31] :: u16 list"
  let ?i4 = "[0, 1, 2, 3, 4, 5, 6, 7, 16, 17, 18, 19, 20, 21, 22, 23, 8, 9, 10, 11, 12, 13, 14, 15, 24, 25, 26, 27, 28, 29, 30, 31] :: u16 list"
  let ?P1 = "[0, 1, 4, 5, 8, 9, 12, 13, 16, 17, 20, 21, 24, 25, 28, 29, 2, 3, 6, 7, 10, 11, 14, 15, 18, 19, 22, 23, 26, 27, 30, 31] :: nat list"
  let ?P2 = "[0, 1, 2, 3, 8, 9, 10, 11, 16, 17, 18, 19, 24, 25, 26, 27, 4, 5, 6, 7, 12, 13, 14, 15, 20, 21, 22, 23, 28, 29, 30, 31] :: nat list"
  let ?P3 = "[0, 1, 2, 3, 4, 5, 6, 7, 16, 17, 18, 19, 20, 21, 22, 23, 8, 9, 10, 11, 12, 13, 14, 15, 24, 25, 26, 27, 28, 29, 30, 31] :: nat list"
  have "pass_order (\<lambda>b. ?z (127 - (8 * e + b))) 2 8 ?c2 ?P1 16" "pass_order (\<lambda>b. ?z (63 - (4 * e + b))) 4 4 ?c4 ?P2 16"
    "pass_order (\<lambda>b. ?z (31 - (2 * e + b))) 8 2 ?c8 ?P3 16"
    unfolding pass_order_def by (simp_all add: all_less_numeral all_less_1 flip: One_nat_def)
  note o = this
  have "?P1 = map (\<lambda>i. [0..<32] ! unat i) ?i1" "?P2 = map (\<lambda>i. ?P1 ! unat i) ?i2" "?P3 = map (\<lambda>i. ?P2 ! unat i) ?i3"
    by simp_all
  note p = this
  have r1: "vcreate_v (fst (RVV_BFLY_RV (vget_v 16 s 0) (vget_v 16 s 1) ?c2)) (snd (RVV_BFLY_RV (vget_v 16 s 0) (vget_v 16 s 1) ?c2)) =
      gather x1 ?P1" if "s = vrgather_vv (gather x [0..<32]) ?i1" for s
    unfolding that x1_def by (rule gathered_round [OF F len(1) o(1) p(1)]) simp_all
  have r2: "vcreate_v (fst (RVV_BFLY_RV (vget_v 16 s 0) (vget_v 16 s 1) ?c4)) (snd (RVV_BFLY_RV (vget_v 16 s 0) (vget_v 16 s 1) ?c4)) =
      gather x2 ?P2" if "s = vrgather_vv (gather x1 ?P1) ?i2" for s
    unfolding that x2_def by (rule gathered_round [OF F len(2) o(2) p(2)]) simp_all
  have r3: "vcreate_v (fst (RVV_BFLY_RV (vget_v 16 s 0) (vget_v 16 s 1) ?c8)) (snd (RVV_BFLY_RV (vget_v 16 s 0) (vget_v 16 s 1) ?c8)) =
      gather (kem_inner_inv e x) ?P3" if "s = vrgather_vv (gather x2 ?P2) ?i3" for s
    unfolding that kem_inner_inv_def Let_def x1_def [symmetric] x2_def [symmetric]
    by (rule gathered_round [OF F len(3) o(3) p(3)]) simp_all
  have nrm: "vcreate_v (fq_mulq_vx (vget_v 16 s 0) c) (fq_mulq_vx (vget_v 16 s 1) c) = map (kem_norm c) s" if "length s = 32" for s c
    using that append_take_drop_id [of 16 "map (kem_norm c) s"]
    by (simp add: fq_mulq_vx_map vcreate_v_def vget_v_def take_map drop_map)
  have fin: "vrgather_vv (gather (kem_inner_inv e x) ?P3) ?i4 = kem_inner_inv e x"
    using x by (subst vrgather_gather) (simp_all add: gather_gather gather_all upt_rec)
  have x0: "x = gather x [0..<32]" using gather_id [OF x] by simp
  have g: "vrgather_vv (vle rvv_mlkem_izeta (16 * e) 16) ([2, 2, 2, 2, 2, 2, 2, 2, 3, 3, 3, 3, 3, 3, 3, 3] :: u16 list) = ?c8"
    "vrgather_vv (vle rvv_mlkem_izeta (16 * e) 16) ([4, 4, 4, 4, 5, 5, 5, 5, 6, 6, 6, 6, 7, 7, 7, 7] :: u16 list) = ?c4"
    "vrgather_vv (vle rvv_mlkem_izeta (16 * e) 16) ([8, 8, 9, 9, 10, 10, 11, 11, 12, 12, 13, 13, 14, 14, 15, 15] :: u16 list) = ?c2"
    unfolding kem_izeta_row [OF e] by (simp_all add: vrgather_vv_def upt_rec)
  have n: "(2 :: nat) * 16 = 32" by simp
  have l: "length (kem_inner_inv e x) = 32" using x by simp
  show ?thesis
    unfolding mlkem_vector_intt2_def Let_def case_prod_beta n mlkem_perm_products
    unfolding mlkem_perms kem_lanes g r1 [OF arg_cong [where f = "\<lambda>s. vrgather_vv s ?i1", OF x0]] r2 [OF refl] r3 [OF refl] fin nrm [OF l] ..
qed

end
