(* ===== verification/Kem_Rvv_Ntt.thy ===== *)
theory Kem_Rvv_Ntt
  imports Kem_Rvv_Layers
begin

text \<open>
  The vector \<open>mlkem_poly_ntt\<close> is seven passes of the lane butterfly and a final reduction, and its result is the
  canonical representative of the scalar one.
\<close>

section \<open>The outer layers of the forward transform\<close>

text \<open>The first four layers, on the sixteen registers of the array.\<close>

definition kem_outer_regs :: "i16 list list \<Rightarrow> i16 list list" where
  "kem_outer_regs vs =
     (let vs = ntt_pass (\<lambda>b. vbf (kem_vct (mlkem_zetas ! (1 + b)))) 8 1 vs;
          vs = ntt_pass (\<lambda>b. vbf (kem_vct (mlkem_zetas ! (2 + b)))) 4 2 vs;
          vs = ntt_pass (\<lambda>b. vbf (kem_vct (mlkem_zetas ! (4 + b)))) 2 4 vs
      in ntt_pass (\<lambda>b. vbf (kem_vct (mlkem_zetas ! (8 + b)))) 1 8 vs)"

text \<open>The passes on the whole array; the first \<open>n\<close> of them.\<close>

fun kem_vpasses :: "nat \<Rightarrow> i16 list \<Rightarrow> i16 list" where
  "kem_vpasses 0 r = r"
| "kem_vpasses (Suc l) r = ntt_pass (\<lambda>b. kem_vct (mlkem_zetas ! (2 ^ l + b))) (2 ^ (8 - Suc l)) (2 ^ l) (kem_vpasses l r)"

lemma length_kem_vpasses [simp]: "length (kem_vpasses n r) = length r"
  by (induction n) simp_all

lemma kem_vpasses_steps:
  "kem_vpasses 1 r = ntt_pass (\<lambda>b. kem_vct (mlkem_zetas ! (1 + b))) 128 1 r"
  "kem_vpasses 2 r = ntt_pass (\<lambda>b. kem_vct (mlkem_zetas ! (2 + b))) 64 2 (kem_vpasses 1 r)"
  "kem_vpasses 3 r = ntt_pass (\<lambda>b. kem_vct (mlkem_zetas ! (4 + b))) 32 4 (kem_vpasses 2 r)"
  "kem_vpasses 4 r = ntt_pass (\<lambda>b. kem_vct (mlkem_zetas ! (8 + b))) 16 8 (kem_vpasses 3 r)"
  "kem_vpasses 5 r = ntt_pass (\<lambda>b. kem_vct (mlkem_zetas ! (16 + b))) 8 16 (kem_vpasses 4 r)"
  "kem_vpasses 6 r = ntt_pass (\<lambda>b. kem_vct (mlkem_zetas ! (32 + b))) 4 32 (kem_vpasses 5 r)"
  "kem_vpasses 7 r = ntt_pass (\<lambda>b. kem_vct (mlkem_zetas ! (64 + b))) 2 64 (kem_vpasses 6 r)"
  using kem_vpasses.simps(2) [of 0 r] kem_vpasses.simps(2) [of 1 r] kem_vpasses.simps(2) [of 2 r] kem_vpasses.simps(2) [of 3 r]
    kem_vpasses.simps(2) [of 4 r] kem_vpasses.simps(2) [of 5 r] kem_vpasses.simps(2) [of 6 r]
  by (simp_all del: kem_vpasses.simps(2) flip: numeral_2_eq_2)

lemma kem_outer_regs_concat:
  assumes "length vs = 16" "\<forall>v \<in> set vs. length v = 16"
  shows "length (kem_outer_regs vs) = 16" and "\<forall>v \<in> set (kem_outer_regs vs). length v = 16"
    and "concat (kem_outer_regs vs) = kem_vpasses 4 (concat vs)"
proof -
  define v1 where "v1 = ntt_pass (\<lambda>b. vbf (kem_vct (mlkem_zetas ! (1 + b)))) 8 1 vs"
  define v2 where "v2 = ntt_pass (\<lambda>b. vbf (kem_vct (mlkem_zetas ! (2 + b)))) 4 2 v1"
  define v3 where "v3 = ntt_pass (\<lambda>b. vbf (kem_vct (mlkem_zetas ! (4 + b)))) 2 4 v2"
  have vs: "length vs = 1 * (2 * 8)" using assms(1) by simp
  have v1: "length v1 = 2 * (2 * 4)" "\<forall>v \<in> set v1. length v = 16"
    using assms(1) ntt_pass_const_length [OF vs assms(2)] by (simp_all add: v1_def)
  have v2: "length v2 = 4 * (2 * 2)" "\<forall>v \<in> set v2. length v = 16"
    using v1(1) ntt_pass_const_length [OF v1] by (simp_all add: v2_def)
  have v3: "length v3 = 8 * (2 * 1)" "\<forall>v \<in> set v3. length v = 16"
    using v2(1) ntt_pass_const_length [OF v2] by (simp_all add: v3_def)
  have r: "kem_outer_regs vs = ntt_pass (\<lambda>b. vbf (kem_vct (mlkem_zetas ! (8 + b)))) 1 8 v3"
    by (simp only: kem_outer_regs_def Let_def v1_def v2_def v3_def)
  show "length (kem_outer_regs vs) = 16" using v3(1) by (simp add: r)
  show "\<forall>v \<in> set (kem_outer_regs vs). length v = 16" unfolding r by (rule ntt_pass_const_length [OF v3])
  have "concat v1 = kem_vpasses 1 (concat vs)"
    unfolding kem_vpasses_steps(1) using concat_ntt_pass [OF vs assms(2)] by (simp add: v1_def)
  then have "concat v2 = kem_vpasses 2 (concat vs)"
    unfolding kem_vpasses_steps(2) using concat_ntt_pass [OF v1] by (simp add: v2_def)
  then have "concat v3 = kem_vpasses 3 (concat vs)"
    unfolding kem_vpasses_steps(3) using concat_ntt_pass [OF v2] by (simp add: v3_def)
  then show "concat (kem_outer_regs vs) = kem_vpasses 4 (concat vs)"
    unfolding kem_vpasses_steps(4) using concat_ntt_pass [OF v3] by (simp add: r)
qed

lemma rvv_mlkem_poly_ntt_regs:
  assumes "length r = 256"
  shows "rvv_mlkem_poly_ntt r =
    (let rs = kem_outer_regs (map (\<lambda>j. chunk 16 j r) [0..<16])
     in fold (\<lambda>d a. vse a (32 * d) (mlkem_vector_ntt2 (vcreate_v (rs ! (2 * d)) (rs ! (2 * d + 1))) (vle rvv_mlkem_zeta (16 * d) 16)) 32) [0..<8] r)"
proof -
  let ?r = "\<lambda>j. chunk 16 j r"
  have e: "vle r (16 * j) 16 = ?r j" if "j < 16" for j using that assms by (intro vle_eq_chunk) simp
  have rr: "vle r 0x00 16 = ?r 0"
    "vle r 0x10 16 = ?r 1"
    "vle r 0x20 16 = ?r 2"
    "vle r 0x30 16 = ?r 3"
    "vle r 0x40 16 = ?r 4"
    "vle r 0x50 16 = ?r 5"
    "vle r 0x60 16 = ?r 6"
    "vle r 0x70 16 = ?r 7"
    "vle r 0x80 16 = ?r 8"
    "vle r 0x90 16 = ?r 9"
    "vle r 0xA0 16 = ?r 10"
    "vle r 0xB0 16 = ?r 11"
    "vle r 0xC0 16 = ?r 12"
    "vle r 0xD0 16 = ?r 13"
    "vle r 0xE0 16 = ?r 14"
    "vle r 0xF0 16 = ?r 15"
    using e [of 0] e [of 1] e [of 2] e [of 3] e [of 4] e [of 5] e [of 6] e [of 7] e [of 8] e [of 9] e [of 10] e [of 11]
      e [of 12] e [of 13] e [of 14] e [of 15] by simp_all
  have m: "map ?r [0..<16] = [?r 0, ?r 1, ?r 2, ?r 3, ?r 4, ?r 5, ?r 6, ?r 7, ?r 8, ?r 9, ?r 10, ?r 11, ?r 12, ?r 13, ?r 14, ?r 15]"
    by (simp add: upt_rec numeral_eq_Suc)
  have z: "rvv_mlkem_zeta ! 0x01 = mlkem_zetas ! (1 + 0)"
    "rvv_mlkem_zeta ! 0x10 = mlkem_zetas ! (2 + 0)" "rvv_mlkem_zeta ! 0x11 = mlkem_zetas ! (2 + 1)"
    "rvv_mlkem_zeta ! 0x20 = mlkem_zetas ! (4 + 0)" "rvv_mlkem_zeta ! 0x21 = mlkem_zetas ! (4 + 1)"
    "rvv_mlkem_zeta ! 0x30 = mlkem_zetas ! (4 + 2)" "rvv_mlkem_zeta ! 0x31 = mlkem_zetas ! (4 + 3)"
    "rvv_mlkem_zeta ! 0x40 = mlkem_zetas ! (8 + 0)" "rvv_mlkem_zeta ! 0x41 = mlkem_zetas ! (8 + 1)"
    "rvv_mlkem_zeta ! 0x50 = mlkem_zetas ! (8 + 2)" "rvv_mlkem_zeta ! 0x51 = mlkem_zetas ! (8 + 3)"
    "rvv_mlkem_zeta ! 0x60 = mlkem_zetas ! (8 + 4)" "rvv_mlkem_zeta ! 0x61 = mlkem_zetas ! (8 + 5)"
    "rvv_mlkem_zeta ! 0x70 = mlkem_zetas ! (8 + 6)" "rvv_mlkem_zeta ! 0x71 = mlkem_zetas ! (8 + 7)"
    unfolding rvv_mlkem_zeta_def mlkem_zetas_def by simp_all
  have p: "32 * (0 :: nat) = 0x00"
    "32 * (1 :: nat) = 0x20"
    "32 * (2 :: nat) = 0x40"
    "32 * (3 :: nat) = 0x60"
    "32 * (4 :: nat) = 0x80"
    "32 * (5 :: nat) = 0xA0"
    "32 * (6 :: nat) = 0xC0"
    "32 * (7 :: nat) = 0xE0"
    "16 * (0 :: nat) = 0x00"
    "16 * (1 :: nat) = 0x10"
    "16 * (2 :: nat) = 0x20"
    "16 * (3 :: nat) = 0x30"
    "16 * (4 :: nat) = 0x40"
    "16 * (5 :: nat) = 0x50"
    "16 * (6 :: nat) = 0x60"
    "16 * (7 :: nat) = 0x70"
    "16 * (8 :: nat) = 0x80"
    "16 * (9 :: nat) = 0x90"
    "16 * (10 :: nat) = 0xA0"
    "16 * (11 :: nat) = 0xB0"
    "16 * (12 :: nat) = 0xC0"
    "16 * (13 :: nat) = 0xD0"
    "16 * (14 :: nat) = 0xE0"
    "16 * (15 :: nat) = 0xF0"
    by simp_all
  have n: "(2 :: nat) * 16 = 32" by simp
  show ?thesis
    unfolding rvv_mlkem_poly_ntt_def kem_outer_regs_def Let_def case_prod_beta n RVV_BFLY_FX_eq z rr m ntt_pass_16
      fold_pairs_16 [where h = "\<lambda>a u v d. vse a (32 * d) (mlkem_vector_ntt2 (vcreate_v u v) (vle rvv_mlkem_zeta (16 * d) 16)) 32" and c = "\<lambda>d. d"] p
    by (rule refl)
qed

section \<open>The forward transform\<close>

lemma kem_vpasses_inner:
  assumes "length r = 256" "e < 8"
  shows "chunk 32 e (kem_vpasses 7 r) = kem_inner e (chunk 32 e (kem_vpasses 4 r))"
proof -
  have l: "length (kem_vpasses n r) = 8 * 32" for n using assms(1) by simp
  have "chunk 32 e (kem_vpasses 5 r) = ntt_pass (\<lambda>b. kem_vct (mlkem_zetas ! (16 + 2 * e + b))) 8 2 (chunk 32 e (kem_vpasses 4 r))"
    unfolding kem_vpasses_steps(5) by (rule chunk_pass [OF l _ _ assms(2)]) (simp_all add: mult.commute add.assoc)
  moreover have "chunk 32 e (kem_vpasses 6 r) = ntt_pass (\<lambda>b. kem_vct (mlkem_zetas ! (32 + 4 * e + b))) 4 4 (chunk 32 e (kem_vpasses 5 r))"
    unfolding kem_vpasses_steps(6) by (rule chunk_pass [OF l _ _ assms(2)]) (simp_all add: mult.commute add.assoc)
  moreover have "chunk 32 e (kem_vpasses 7 r) = ntt_pass (\<lambda>b. kem_vct (mlkem_zetas ! (64 + 8 * e + b))) 2 8 (chunk 32 e (kem_vpasses 6 r))"
    unfolding kem_vpasses_steps(7) by (rule chunk_pass [OF l _ _ assms(2)]) (simp_all add: mult.commute add.assoc)
  ultimately show ?thesis by (simp only: kem_inner_def Let_def)
qed

lemma chunk_map: "chunk w e (map f x) = map f (chunk w e x)" if "w * e + w \<le> length x"
  by (rule nth_equalityI) (use that in simp_all)

lemma rvv_mlkem_poly_ntt_passes:
  assumes "length r = 256"
  shows "rvv_mlkem_poly_ntt r = map (kem_norm 2285) (kem_vpasses 7 r)"
proof (rule chunks_equalityI [of _ 8 32])
  define rs where "rs = kem_outer_regs (map (\<lambda>j. chunk 16 j r) [0..<16])"
  have rs: "length rs = 16" "\<forall>v \<in> set rs. length v = 16" "concat rs = kem_vpasses 4 r"
    unfolding rs_def by (rule kem_outer_regs_concat; simp)+ (subst kem_outer_regs_concat(3); simp add: concat_chunks assms)
  let ?g = "\<lambda>d. map (kem_norm 2285) (kem_inner d (chunk 32 d (kem_vpasses 4 r)))"
  have E: "rvv_mlkem_poly_ntt r = fold (\<lambda>d a. vse a (32 * (0 + d)) (?g d) 32) [0..<8] r"
    unfolding rvv_mlkem_poly_ntt_regs [OF assms] Let_def rs_def [symmetric]
  proof (intro fold_cong refl ext)
    fix d a
    assume "d \<in> set [0..<8]"
    then have d: "d < 8" by simp
    have "vcreate_v (rs ! (2 * d)) (rs ! (2 * d + 1)) = chunk 32 d (kem_vpasses 4 r)"
      using pairs_chunk [OF rs(2), of d] rs d by (simp add: vcreate_v_def)
    then show "vse a (32 * d) (mlkem_vector_ntt2 (vcreate_v (rs ! (2 * d)) (rs ! (2 * d + 1))) (vle rvv_mlkem_zeta (16 * d) 16)) 32 =
        vse a (32 * (0 + d)) (?g d) 32"
      using mlkem_vector_ntt2_eq [OF d, of "chunk 32 d (kem_vpasses 4 r)"] by simp
  qed
  note F = fold_vse [of 8 ?g 32 0 r, folded E]
  show "length (rvv_mlkem_poly_ntt r) = 8 * 32" using F(1) assms by simp
  fix c :: nat
  assume c: "c < 8"
  then show "chunk 32 c (rvv_mlkem_poly_ntt r) = chunk 32 c (map (kem_norm 2285) (kem_vpasses 7 r))"
    using F(2) [of c] assms by (simp add: chunk_map kem_vpasses_inner)
qed (use assms in simp)

lemma kem_vpasses_rep:
  assumes "length r = 256" "\<forall>x \<in> set r. \<bar>sint x\<bar> \<le> B" "B + 2807 * int n \<le> 32767" "n \<le> 7"
  shows "layer_rep 3329 kem_root 8 1 (\<lambda>i. sint (r ! i)) n (\<lambda>i. sint (kem_vpasses n r ! i)) \<and>
    (\<forall>x \<in> set (kem_vpasses n r). \<bar>sint x\<bar> \<le> B + 2807 * int n)"
  using assms(3,4)
proof (induction n)
  case 0
  then show ?case using assms(1,2) by (simp add: layer_rep_0)
next
  case (Suc l)
  then have l: "l < 7" by simp
  have IH: "layer_rep 3329 kem_root 8 1 (\<lambda>i. sint (r ! i)) l (\<lambda>i. sint (kem_vpasses l r ! i))"
    "\<forall>x \<in> set (kem_vpasses l r). \<bar>sint x\<bar> \<le> B + 2807 * int l" using Suc by auto
  have f: "fwd_bfly 3329 sint (B + 2807 * int l) (B + 2807 * int l + 2807) (kem_root (2 ^ l + b)) (kem_vct (mlkem_zetas ! (2 ^ l + b)))"
    if "b < 2 ^ l" for b
    using kem_tree.node_lt [OF l that] Suc.prems(1) by (intro kem_vct_fwd) auto
  have len: "length (kem_vpasses l r) = 2 ^ 8" using assms(1) by simp
  have "B + 2807 * int l + 2807 = B + 2807 * int (Suc l)" by simp
  then show ?case using kem_tree.forward_pass [OF l len IH f] by (simp add: algebra_simps)
qed

lemma rvv_mlkem_poly_ntt_nth:
  assumes "poly_bounded 9471 r" "i < 256"
  shows "sint (rvv_mlkem_poly_ntt r ! i) = sint (mlkem_poly_ntt r ! i) mod 3329"
proof -
  have r: "length r = 256" "\<forall>x \<in> set r. \<bar>sint x\<bar> \<le> 9471" using assms(1) by (auto simp: poly_bounded_def)
  obtain k m where i: "i = k * 2 ^ (8 - 7) + m" "k < 2 ^ 7" "m < 2 ^ (8 - 7)"
    using assms(2) that [of "i div 2" "i mod 2"] by auto
  from kem_vpasses_rep [OF r, of 7] have "modeq 3329 (sint (kem_vpasses 7 r ! i)) (ntt_eval kem_root 8 (\<lambda>i. sint (r ! i)) 7 k m)"
    using i by (simp add: layer_rep_def)
  moreover from mlkem_poly_ntt_rep [OF r] have "modeq 3329 (sint (mlkem_poly_ntt r ! i)) (ntt_eval kem_root 8 (\<lambda>i. sint (r ! i)) 7 k m)"
    using i by (simp add: layer_rep_def)
  ultimately have "sint (kem_vpasses 7 r ! i) mod 3329 = sint (mlkem_poly_ntt r ! i) mod 3329" by (simp add: modeq_def)
  moreover have "sint (rvv_mlkem_poly_ntt r ! i) = sint (kem_vpasses 7 r ! i) mod 3329"
  proof -
    have "sint (rvv_mlkem_poly_ntt r ! i) = 169 * (sint (kem_vpasses 7 r ! i) * 2285) mod 3329"
      unfolding rvv_mlkem_poly_ntt_passes [OF r(1)] using r(1) assms(2) by (simp add: sint_kem_norm)
    also have "169 * (sint (kem_vpasses 7 r ! i) * 2285) = sint (kem_vpasses 7 r ! i) + 3329 * (116 * sint (kem_vpasses 7 r ! i))" by simp
    finally show ?thesis by (simp only: mod_mult_self2)
  qed
  ultimately show ?thesis by simp
qed

end
