(* ===== verification/Kem_Rvv_Invntt.thy ===== *)
theory Kem_Rvv_Invntt
  imports Kem_Rvv_Ntt
begin

text \<open>
  The vector \<open>mlkem_poly_invntt_tomont\<close>: its layers as passes, and a simulation that relates each pass to the pass
  of the scalar code, lane by lane, with the growth of the coefficients bounded by the width of a lane.
\<close>

section \<open>The layers of the inverse transform\<close>

text \<open>The pass that undoes layer \<open>l\<close>.\<close>

definition kem_gpass :: "nat \<Rightarrow> i16 list \<Rightarrow> i16 list" where
  "kem_gpass l = ntt_pass (\<lambda>b. kem_vgs (- (mlkem_zetas ! (2 ^ Suc l - 1 - b)))) (2 ^ (8 - Suc l)) (2 ^ l)"

definition kem_ginner :: "i16 list \<Rightarrow> i16 list" where
  "kem_ginner r = kem_gpass 4 (kem_gpass 5 (kem_gpass 6 r))"

definition kem_gouter :: "i16 list \<Rightarrow> i16 list" where
  "kem_gouter r = kem_gpass 0 (kem_gpass 1 (kem_gpass 2 (kem_gpass 3 r)))"

lemma length_kem_gpass [simp]: "length (kem_gpass l r) = length r"
  by (simp add: kem_gpass_def)

lemma length_kem_ginner [simp]: "length (kem_ginner r) = length r"
  by (simp add: kem_ginner_def)

lemma length_kem_gouter [simp]: "length (kem_gouter r) = length r"
  by (simp add: kem_gouter_def)

lemma kem_gpass_steps:
  "kem_gpass 6 r = ntt_pass (\<lambda>b. kem_vgs (- (mlkem_zetas ! (127 - b)))) 2 64 r"
  "kem_gpass 5 r = ntt_pass (\<lambda>b. kem_vgs (- (mlkem_zetas ! (63 - b)))) 4 32 r"
  "kem_gpass 4 r = ntt_pass (\<lambda>b. kem_vgs (- (mlkem_zetas ! (31 - b)))) 8 16 r"
  "kem_gpass 3 r = ntt_pass (\<lambda>b. kem_vgs (- (mlkem_zetas ! (15 - b)))) 16 8 r"
  "kem_gpass 2 r = ntt_pass (\<lambda>b. kem_vgs (- (mlkem_zetas ! (7 - b)))) 32 4 r"
  "kem_gpass 1 r = ntt_pass (\<lambda>b. kem_vgs (- (mlkem_zetas ! (3 - b)))) 64 2 r"
  "kem_gpass 0 r = ntt_pass (\<lambda>b. kem_vgs (- (mlkem_zetas ! (1 - b)))) 128 1 r"
  by (simp_all add: kem_gpass_def)

lemma kem_ginner_chunk:
  assumes "length r = 256" "e < 8"
  shows "chunk 32 e (kem_ginner r) = kem_inner_inv e (chunk 32 e r)"
proof -
  define r6 r5 r4 where "r6 = kem_gpass 6 r" and "r5 = kem_gpass 5 r6" and "r4 = kem_gpass 4 r5"
  have l: "length r = 8 * 32" "length r6 = 8 * 32" "length r5 = 8 * 32" using assms(1) by (simp_all add: r6_def r5_def)
  have "chunk 32 e r6 = ntt_pass (\<lambda>b. kem_vgs (- (mlkem_zetas ! (127 - (8 * e + b))))) 2 8 (chunk 32 e r)"
    unfolding r6_def kem_gpass_steps by (rule chunk_pass [OF l(1) _ _ assms(2)]) (simp_all add: mult.commute)
  moreover have "chunk 32 e r5 = ntt_pass (\<lambda>b. kem_vgs (- (mlkem_zetas ! (63 - (4 * e + b))))) 4 4 (chunk 32 e r6)"
    unfolding r5_def kem_gpass_steps by (rule chunk_pass [OF l(2) _ _ assms(2)]) (simp_all add: mult.commute)
  moreover have "chunk 32 e r4 = ntt_pass (\<lambda>b. kem_vgs (- (mlkem_zetas ! (31 - (2 * e + b))))) 8 2 (chunk 32 e r5)"
    unfolding r4_def kem_gpass_steps
    by (rule chunk_pass [OF l(3) _ _ assms(2)]) (simp_all add: mult.commute)
  ultimately show ?thesis by (simp only: kem_inner_inv_def Let_def kem_ginner_def r6_def r5_def r4_def)
qed

section \<open>The outer layers on registers\<close>

definition kem_outer_inv_regs :: "i16 list list \<Rightarrow> i16 list list" where
  "kem_outer_inv_regs vs =
     (let vs = ntt_pass (\<lambda>b. vbf (kem_vgs (- (mlkem_zetas ! (15 - b))))) 1 8 vs;
          vs = ntt_pass (\<lambda>b. vbf (kem_vgs (- (mlkem_zetas ! (7 - b))))) 2 4 vs;
          vs = ntt_pass (\<lambda>b. vbf (kem_vgs (- (mlkem_zetas ! (3 - b))))) 4 2 vs
      in ntt_pass (\<lambda>b. vbf (kem_vgs (- (mlkem_zetas ! (1 - b))))) 8 1 vs)"

lemma kem_outer_inv_regs_concat:
  assumes "length vs = 16" "\<forall>v \<in> set vs. length v = 16"
  shows "length (kem_outer_inv_regs vs) = 16" and "\<forall>v \<in> set (kem_outer_inv_regs vs). length v = 16"
    and "concat (kem_outer_inv_regs vs) = kem_gouter (concat vs)"
proof -
  define v1 where "v1 = ntt_pass (\<lambda>b. vbf (kem_vgs (- (mlkem_zetas ! (15 - b))))) 1 8 vs"
  define v2 where "v2 = ntt_pass (\<lambda>b. vbf (kem_vgs (- (mlkem_zetas ! (7 - b))))) 2 4 v1"
  define v3 where "v3 = ntt_pass (\<lambda>b. vbf (kem_vgs (- (mlkem_zetas ! (3 - b))))) 4 2 v2"
  have vs: "length vs = 8 * (2 * 1)" using assms(1) by simp
  have v1: "length v1 = 4 * (2 * 2)" "\<forall>v \<in> set v1. length v = 16"
    using assms(1) ntt_pass_const_length [OF vs assms(2)] by (simp_all add: v1_def)
  have v2: "length v2 = 2 * (2 * 4)" "\<forall>v \<in> set v2. length v = 16"
    using v1(1) ntt_pass_const_length [OF v1] by (simp_all add: v2_def)
  have v3: "length v3 = 1 * (2 * 8)" "\<forall>v \<in> set v3. length v = 16"
    using v2(1) ntt_pass_const_length [OF v2] by (simp_all add: v3_def)
  have r: "kem_outer_inv_regs vs = ntt_pass (\<lambda>b. vbf (kem_vgs (- (mlkem_zetas ! (1 - b))))) 8 1 v3"
    by (simp only: kem_outer_inv_regs_def Let_def v1_def v2_def v3_def)
  show "length (kem_outer_inv_regs vs) = 16" using v3(1) by (simp add: r)
  show "\<forall>v \<in> set (kem_outer_inv_regs vs). length v = 16" unfolding r by (rule ntt_pass_const_length [OF v3])
  have "concat v1 = kem_gpass 3 (concat vs)" unfolding kem_gpass_steps using concat_ntt_pass [OF vs assms(2)] by (simp add: v1_def)
  then have "concat v2 = kem_gpass 2 (kem_gpass 3 (concat vs))"
    unfolding kem_gpass_steps(5) using concat_ntt_pass [OF v1] by (simp add: v2_def)
  then have "concat v3 = kem_gpass 1 (kem_gpass 2 (kem_gpass 3 (concat vs)))"
    unfolding kem_gpass_steps(6) using concat_ntt_pass [OF v2] by (simp add: v3_def)
  then show "concat (kem_outer_inv_regs vs) = kem_gouter (concat vs)"
    unfolding kem_gouter_def kem_gpass_steps(7) using concat_ntt_pass [OF v3] by (simp add: r)
qed

lemma rvv_mlkem_invntt_regs:
  assumes "length r = 256"
  shows "rvv_mlkem_poly_invntt_tomont r =
    (let rs = kem_outer_inv_regs (map (\<lambda>j. chunk 16 j (map (kem_norm 2285) (kem_ginner r))) [0..<16])
     in fold (\<lambda>d a. vse a (16 * d) (fq_mulq_vx (rs ! d) MONT_NR) 16) [0..<16] r)"
proof -
  define y where "y = map (kem_norm 2285) (kem_ginner r)"
  let ?r = "\<lambda>j. chunk 16 j y"
  have e: "vget_v 16 (mlkem_vector_intt2 (vle r (32 * d) 32) (vle rvv_mlkem_izeta (16 * d) 16)) 0 = ?r (2 * d)"
    "vget_v 16 (mlkem_vector_intt2 (vle r (32 * d) 32) (vle rvv_mlkem_izeta (16 * d) 16)) 1 = ?r (2 * d + 1)" if d: "d < 8" for d
  proof -
    have "vle r (32 * d) 32 = chunk 32 d r" using d assms by (intro vle_eq_chunk) simp
    then have v: "mlkem_vector_intt2 (vle r (32 * d) 32) (vle rvv_mlkem_izeta (16 * d) 16) = chunk 32 d y"
      using mlkem_vector_intt2_eq [OF d, of "chunk 32 d r"] kem_ginner_chunk [OF assms d] d assms by (simp add: y_def chunk_map)
    have c: "chunk 16 k (chunk (16 * 2) d y) = chunk 16 (2 * d + k) y" if "k < 2" for k by (rule chunk_chunk [OF that])
    have g: "vget_v 16 (chunk 32 d y) k = chunk 16 k (chunk 32 d y)" if "k < 2" for k
      using that vle_eq_chunk [of 16 k "chunk 32 d y"] by (simp add: vget_v_def vle_def mult.commute)
    show "vget_v 16 (mlkem_vector_intt2 (vle r (32 * d) 32) (vle rvv_mlkem_izeta (16 * d) 16)) 0 = ?r (2 * d)"
      "vget_v 16 (mlkem_vector_intt2 (vle r (32 * d) 32) (vle rvv_mlkem_izeta (16 * d) 16)) 1 = ?r (2 * d + 1)"
      unfolding v using c [of 0] c [of 1] g [of 0] g [of 1] by simp_all
  qed
  have rr: "vget_v 16 (mlkem_vector_intt2 (vle r 0x00 32) (vle rvv_mlkem_izeta 0x00 16)) 0 = ?r 0"
    "vget_v 16 (mlkem_vector_intt2 (vle r 0x00 32) (vle rvv_mlkem_izeta 0x00 16)) 1 = ?r 1"
    "vget_v 16 (mlkem_vector_intt2 (vle r 0x20 32) (vle rvv_mlkem_izeta 0x10 16)) 0 = ?r 2"
    "vget_v 16 (mlkem_vector_intt2 (vle r 0x20 32) (vle rvv_mlkem_izeta 0x10 16)) 1 = ?r 3"
    "vget_v 16 (mlkem_vector_intt2 (vle r 0x40 32) (vle rvv_mlkem_izeta 0x20 16)) 0 = ?r 4"
    "vget_v 16 (mlkem_vector_intt2 (vle r 0x40 32) (vle rvv_mlkem_izeta 0x20 16)) 1 = ?r 5"
    "vget_v 16 (mlkem_vector_intt2 (vle r 0x60 32) (vle rvv_mlkem_izeta 0x30 16)) 0 = ?r 6"
    "vget_v 16 (mlkem_vector_intt2 (vle r 0x60 32) (vle rvv_mlkem_izeta 0x30 16)) 1 = ?r 7"
    "vget_v 16 (mlkem_vector_intt2 (vle r 0x80 32) (vle rvv_mlkem_izeta 0x40 16)) 0 = ?r 8"
    "vget_v 16 (mlkem_vector_intt2 (vle r 0x80 32) (vle rvv_mlkem_izeta 0x40 16)) 1 = ?r 9"
    "vget_v 16 (mlkem_vector_intt2 (vle r 0xA0 32) (vle rvv_mlkem_izeta 0x50 16)) 0 = ?r 10"
    "vget_v 16 (mlkem_vector_intt2 (vle r 0xA0 32) (vle rvv_mlkem_izeta 0x50 16)) 1 = ?r 11"
    "vget_v 16 (mlkem_vector_intt2 (vle r 0xC0 32) (vle rvv_mlkem_izeta 0x60 16)) 0 = ?r 12"
    "vget_v 16 (mlkem_vector_intt2 (vle r 0xC0 32) (vle rvv_mlkem_izeta 0x60 16)) 1 = ?r 13"
    "vget_v 16 (mlkem_vector_intt2 (vle r 0xE0 32) (vle rvv_mlkem_izeta 0x70 16)) 0 = ?r 14"
    "vget_v 16 (mlkem_vector_intt2 (vle r 0xE0 32) (vle rvv_mlkem_izeta 0x70 16)) 1 = ?r 15"
    using e [of 0] e [of 1] e [of 2] e [of 3] e [of 4] e [of 5] e [of 6] e [of 7] by simp_all
  have m: "map ?r [0..<16] = [?r 0, ?r 1, ?r 2, ?r 3, ?r 4, ?r 5, ?r 6, ?r 7, ?r 8, ?r 9, ?r 10, ?r 11, ?r 12, ?r 13, ?r 14, ?r 15]"
    by (simp add: upt_rec numeral_eq_Suc)
  have z: "rvv_mlkem_izeta ! 0x01 = - (mlkem_zetas ! (1 - 0))"
    "rvv_mlkem_izeta ! 0x10 = - (mlkem_zetas ! (3 - 0))" "rvv_mlkem_izeta ! 0x11 = - (mlkem_zetas ! (3 - 1))"
    "rvv_mlkem_izeta ! 0x20 = - (mlkem_zetas ! (7 - 0))" "rvv_mlkem_izeta ! 0x21 = - (mlkem_zetas ! (7 - 1))"
    "rvv_mlkem_izeta ! 0x30 = - (mlkem_zetas ! (7 - 2))" "rvv_mlkem_izeta ! 0x31 = - (mlkem_zetas ! (7 - 3))"
    "rvv_mlkem_izeta ! 0x40 = - (mlkem_zetas ! (15 - 0))" "rvv_mlkem_izeta ! 0x41 = - (mlkem_zetas ! (15 - 1))"
    "rvv_mlkem_izeta ! 0x50 = - (mlkem_zetas ! (15 - 2))" "rvv_mlkem_izeta ! 0x51 = - (mlkem_zetas ! (15 - 3))"
    "rvv_mlkem_izeta ! 0x60 = - (mlkem_zetas ! (15 - 4))" "rvv_mlkem_izeta ! 0x61 = - (mlkem_zetas ! (15 - 5))"
    "rvv_mlkem_izeta ! 0x70 = - (mlkem_zetas ! (15 - 6))" "rvv_mlkem_izeta ! 0x71 = - (mlkem_zetas ! (15 - 7))"
    unfolding rvv_mlkem_izeta_def mlkem_zetas_def by simp_all
  have p: "16 * (0 :: nat) = 0x00"
    "16 * (1 :: nat) = 0x10"
    "16 * (2 :: nat) = 0x20"
    "16 * (3 :: nat) = 0x30"
    "16 * (4 :: nat) = 0x40"
    "16 * (5 :: nat) = 0x50"
    "16 * (6 :: nat) = 0x60"
    "16 * (7 :: nat) = 0x70"
    "16 * (8 :: nat) = 0x80"
    "16 * (9 :: nat) = 0x90"
    "16 * (10 :: nat) = 0xA0"
    "16 * (11 :: nat) = 0xB0"
    "16 * (12 :: nat) = 0xC0"
    "16 * (13 :: nat) = 0xD0"
    "16 * (14 :: nat) = 0xE0"
    "16 * (15 :: nat) = 0xF0"
    by simp_all
  have n: "(2 :: nat) * 16 = 32" by simp
  show ?thesis
    unfolding rvv_mlkem_poly_invntt_tomont_def kem_outer_inv_regs_def Let_def case_prod_beta n RVV_BFLY_RX_eq z rr y_def [symmetric] m ntt_pass_16
      fold_registers_16 [where h = "\<lambda>a v d. vse a (16 * d) (fq_mulq_vx v MONT_NR) 16" and c = "\<lambda>d. d"] p
    by (rule refl)
qed

lemma rvv_mlkem_invntt_passes:
  assumes "length r = 256"
  shows "rvv_mlkem_poly_invntt_tomont r = map (kem_norm 1441) (kem_gouter (map (kem_norm 2285) (kem_ginner r)))"
proof (rule chunks_equalityI [of _ 16 16])
  define y where "y = map (kem_norm 2285) (kem_ginner r)"
  define rs where "rs = kem_outer_inv_regs (map (\<lambda>j. chunk 16 j y) [0..<16])"
  have y: "length y = 256" using assms by (simp add: y_def)
  have rs: "length rs = 16" "\<forall>v \<in> set rs. length v = 16" "concat rs = kem_gouter y"
    unfolding rs_def by (rule kem_outer_inv_regs_concat; simp)+ (subst kem_outer_inv_regs_concat(3); simp add: concat_chunks y)
  let ?g = "\<lambda>d. map (kem_norm 1441) (rs ! d)"
  have E: "rvv_mlkem_poly_invntt_tomont r = fold (\<lambda>d a. vse a (16 * (0 + d)) (?g d) 16) [0..<16] r"
    unfolding rvv_mlkem_invntt_regs [OF assms] Let_def y_def [symmetric] rs_def [symmetric] fq_mulq_vx_map by simp
  note F = fold_vse [of 16 ?g 16 0 r, folded E]
  show "length (rvv_mlkem_poly_invntt_tomont r) = 16 * 16" using F(1) assms rs by simp
  fix c :: nat
  assume c: "c < 16"
  have "rs ! c = chunk 16 c (concat rs)"
    using c rs(1,2) by (intro nth_equalityI) (simp_all add: nth_concat_const [OF rs(2)] mult.commute)
  then show "chunk 16 c (rvv_mlkem_poly_invntt_tomont r) = chunk 16 c (map (kem_norm 1441) (kem_gouter y))"
    using F(2) [of c] c assms rs y by (simp add: chunk_map)
qed (use assms in simp)

section \<open>Two transforms side by side\<close>

text \<open>Butterflies that take related pairs to related pairs make related passes.\<close>

lemma ntt_pass_list_all2:
  assumes r: "length r = nb * (2 * len)" and R: "list_all2 R r r'"
    and f: "\<And>b x y x' y'. b < nb \<Longrightarrow> R x x' \<Longrightarrow> R y y' \<Longrightarrow> S (fst (f b x y)) (fst (g b x' y')) \<and> S (snd (f b x y)) (snd (g b x' y'))"
  shows "list_all2 S (ntt_pass f len nb r) (ntt_pass g len nb r')"
  unfolding list_all2_conv_all_nth
proof (intro conjI allI impI)
  have r': "length r' = nb * (2 * len)" using list_all2_lengthD [OF R] r by simp
  then show "length (ntt_pass f len nb r) = length (ntt_pass g len nb r')" using r by simp
  fix p
  assume "p < length (ntt_pass f len nb r)"
  then have p: "p < nb * (2 * len)" using r by simp
  have S: "S (ntt_pass f len nb r ! (b * (2 * len) + m)) (ntt_pass g len nb r' ! (b * (2 * len) + m))"
    "S (ntt_pass f len nb r ! (b * (2 * len) + m + len)) (ntt_pass g len nb r' ! (b * (2 * len) + m + len))"
    if b: "b < nb" and m: "m < len" for b m
  proof -
    have "b * (2 * len) + m + len < length r" using chunk_index [of 0 1 b nb "m + len" len] b m r by simp
    then have "R (r ! (b * (2 * len) + m)) (r' ! (b * (2 * len) + m))" "R (r ! (b * (2 * len) + m + len)) (r' ! (b * (2 * len) + m + len))"
      using R by (simp_all add: list_all2_nthD)
    from f [OF b this] show "S (ntt_pass f len nb r ! (b * (2 * len) + m)) (ntt_pass g len nb r' ! (b * (2 * len) + m))"
      "S (ntt_pass f len nb r ! (b * (2 * len) + m + len)) (ntt_pass g len nb r' ! (b * (2 * len) + m + len))"
      by (simp_all add: nth_ntt_pass [OF r b m] nth_ntt_pass [OF r' b m])
  qed
  from p show "S (ntt_pass f len nb r ! p) (ntt_pass g len nb r' ! p)"
  proof (cases rule: block_index)
    case (lo b m)
    then show ?thesis using S(1) [OF lo(1,2)] by simp
  next
    case (hi b m)
    then show ?thesis using S(2) [OF hi(1,2)] by simp
  qed
qed

text \<open>A vector value bounded by \<open>B\<close> and the scalar one of the same class.\<close>

definition kem_sim :: "int \<Rightarrow> i16 \<Rightarrow> i16 \<Rightarrow> bool" where
  "kem_sim B x y \<longleftrightarrow> modeq 3329 (sint x) (sint y) \<and> \<bar>sint x\<bar> \<le> B \<and> \<bar>sint y\<bar> \<le> 16383"

definition kem_spass :: "nat \<Rightarrow> i16 list \<Rightarrow> i16 list" where
  "kem_spass l = ntt_pass (\<lambda>b. kem_gs (mlkem_zetas ! (2 ^ Suc l - 1 - b))) (2 ^ (8 - Suc l)) (2 ^ l)"

lemma length_kem_spass [simp]: "length (kem_spass l r) = length r"
  by (simp add: kem_spass_def)

lemma kem_bfly_sim:
  assumes "k < 128" "1404 \<le> B" "B \<le> 16383" "kem_sim B x x'" "kem_sim B y y'"
  shows "kem_sim (2 * B) (fst (kem_vgs (- (mlkem_zetas ! k)) x y)) (fst (kem_gs (mlkem_zetas ! k) x' y'))"
    and "kem_sim (2 * B) (snd (kem_vgs (- (mlkem_zetas ! k)) x y)) (snd (kem_gs (mlkem_zetas ! k) x' y'))"
proof -
  note v = kem_vgs_inv [OF assms(1-3), unfolded inv_bfly_def, rule_format, of x y]
  note s = kem_gs_inv [OF assms(1), unfolded inv_bfly_def, rule_format, of x' y']
  have m: "modeq 3329 (sint x + sint y) (sint x' + sint y')"
    "modeq 3329 (kem_root k * (sint y - sint x)) (kem_root k * (sint y' - sint x'))"
    using assms(4,5) by (auto simp: kem_sim_def intro!: modeq_intros)
  show "kem_sim (2 * B) (fst (kem_vgs (- (mlkem_zetas ! k)) x y)) (fst (kem_gs (mlkem_zetas ! k) x' y'))"
    "kem_sim (2 * B) (snd (kem_vgs (- (mlkem_zetas ! k)) x y)) (snd (kem_gs (mlkem_zetas ! k) x' y'))"
    using v s m assms(4,5) by (auto simp: kem_sim_def modeq_def)
qed

lemma kem_node_less: "l < 7 \<Longrightarrow> 2 ^ Suc l - 1 - b < (128 :: nat)"
  using power_increasing [of "Suc l" 7 "2 :: nat"] by simp

lemma kem_pass_size: "l < 7 \<Longrightarrow> length r = 256 \<Longrightarrow> length r = 2 ^ l * (2 * 2 ^ (8 - Suc l))"
  using kem_tree.pass_size [of l] by simp

lemma kem_gpass_sim:
  assumes "l < 7" "length r = 256" "1404 \<le> B" "B \<le> 16383" "list_all2 (kem_sim B) r r'"
  shows "list_all2 (kem_sim (2 * B)) (kem_gpass l r) (kem_spass l r')"
  unfolding kem_gpass_def kem_spass_def
  by (rule ntt_pass_list_all2 [OF kem_pass_size [OF assms(1,2)] assms(5)])
    (intro conjI kem_bfly_sim kem_node_less assms; assumption)

text \<open>On standard representatives the conditional subtraction keeps the sums below \<open>q\<close>.\<close>

lemma kem_gpass_std:
  assumes "l < 7" "length r = 256" "list_all2 (kem_sim 3328) r r'" "\<forall>x \<in> set r. 0 \<le> sint x"
  shows "list_all2 (kem_sim 3328) (kem_gpass l r) (kem_spass l r')"
proof -
  let ?R = "\<lambda>x x'. kem_sim 3328 x x' \<and> 0 \<le> sint x"
  have R: "list_all2 ?R r r'" using assms(3,4) by (auto simp: list_all2_conv_all_nth)
  show ?thesis unfolding kem_gpass_def kem_spass_def
  proof (rule ntt_pass_list_all2 [OF kem_pass_size [OF assms(1,2)] R])
    fix b x y x' y'
    assume x: "?R x x'" and y: "?R y y'"
    let ?k = "2 ^ Suc l - 1 - b :: nat"
    have k: "?k < 128" using assms(1) by (rule kem_node_less)
    have "kem_sim (2 * 3328) (fst (kem_vgs (- (mlkem_zetas ! ?k)) x y)) (fst (kem_gs (mlkem_zetas ! ?k) x' y'))"
      "kem_sim (2 * 3328) (snd (kem_vgs (- (mlkem_zetas ! ?k)) x y)) (snd (kem_gs (mlkem_zetas ! ?k) x' y'))"
      using x y by (intro kem_bfly_sim k; simp)+
    moreover have "\<bar>sint (fst (kem_vgs (- (mlkem_zetas ! ?k)) x y))\<bar> \<le> 3328"
      using x y by (subst kem_vgs_sum) (auto simp: kem_sim_def)
    moreover have "\<bar>sint (snd (kem_vgs (- (mlkem_zetas ! ?k)) x y))\<bar> \<le> 3328" using kem_vgs_prod_bound [OF k, of x y] by simp
    ultimately show "kem_sim 3328 (fst (kem_vgs (- (mlkem_zetas ! ?k)) x y)) (fst (kem_gs (mlkem_zetas ! ?k) x' y')) \<and>
        kem_sim 3328 (snd (kem_vgs (- (mlkem_zetas ! ?k)) x y)) (snd (kem_gs (mlkem_zetas ! ?k) x' y'))"
      by (simp add: kem_sim_def)
  qed
qed

lemma mlkem_invntt_passes:
  assumes "length r = 256"
  shows "mlkem_invntt r = map (\<lambda>x. fqmul x 1441)
    (kem_spass 0 (kem_spass 1 (kem_spass 2 (kem_spass 3 (kem_spass 4 (kem_spass 5 (kem_spass 6 r)))))))"
proof -
  have s: "mlkem_invntt_layers (2 ^ (8 - Suc l)) (2 ^ Suc l - 1) r = mlkem_invntt_layers (2 ^ (8 - l)) (2 ^ l - 1) (kem_spass l r)"
    if "l < 7" for l r using mlkem_invntt_layers_step [OF that, of r] by (simp add: kem_spass_def)
  have e: "mlkem_invntt_layers 256 k r = r" for k r by (simp add: mlkem_invntt_layers.simps)
  have "mlkem_invntt_layers 2 127 r =
      kem_spass 0 (kem_spass 1 (kem_spass 2 (kem_spass 3 (kem_spass 4 (kem_spass 5 (kem_spass 6 r))))))"
    using s [of 0] s [of 1] s [of 2] s [of 3] s [of 4] s [of 5] s [of 6] by (simp add: e)
  moreover have "fold (\<lambda>j r. r[j := fqmul (r ! j) 1441]) [0..<256] x = map (\<lambda>x. fqmul x 1441) x" if "length x = 256" for x
    using fold_upt_map [of "\<lambda>x. fqmul x 1441" x] that by simp
  ultimately show ?thesis using assms by (simp add: mlkem_invntt_def)
qed

lemma list_all2_sim_norm:
  assumes "list_all2 (kem_sim B) r r'" "modeq 3329 (169 * sint c) 1" "\<bar>sint c\<bar> \<le> 2285"
  shows "list_all2 (kem_sim 3328) (map (kem_norm c) r) r'" and "\<forall>x \<in> set (map (kem_norm c) r). 0 \<le> sint x"
proof -
  have "kem_sim 3328 (kem_norm c x) y" if "kem_sim B x y" for x y
  proof -
    have "modeq 3329 (sint x * (169 * sint c)) (sint y * 1)" using that assms(2) by (intro modeq_mult) (simp add: kem_sim_def)
    then have "modeq 3329 (sint (kem_norm c x)) (sint y)" by (simp add: sint_kem_norm [OF assms(3)] modeq_def mult_ac)
    moreover have "0 \<le> sint (kem_norm c x)" "sint (kem_norm c x) < 3329" by (simp_all add: sint_kem_norm [OF assms(3)])
    ultimately show ?thesis using that by (simp add: kem_sim_def)
  qed
  then show "list_all2 (kem_sim 3328) (map (kem_norm c) r) r'" using assms(1) by (simp add: list_all2_map1 list_all2_mono)
  show "\<forall>x \<in> set (map (kem_norm c) r). 0 \<le> sint x" by (simp add: sint_kem_norm [OF assms(3)])
qed

lemma rvv_mlkem_invntt_nth:
  assumes "poly_bounded 4095 r" "i < 256"
  shows "sint (rvv_mlkem_poly_invntt_tomont r ! i) = sint (mlkem_poly_invntt_tomont r ! i) mod 3329"
proof -
  define y where "y = map (kem_norm 2285) (kem_ginner r)"
  define s4 where "s4 = kem_spass 4 (kem_spass 5 (kem_spass 6 r))"
  define s0 where "s0 = kem_spass 0 (kem_spass 1 (kem_spass 2 (kem_spass 3 s4)))"
  have r: "length r = 256" "\<forall>x \<in> set r. \<bar>sint x\<bar> \<le> 4095" using assms(1) by (auto simp: poly_bounded_def)
  have "list_all2 (kem_sim 4095) r r" using r(2) by (intro list.rel_refl_strong) (auto simp: kem_sim_def)
  from kem_gpass_sim [OF _ r(1) _ _ this, of 6] have "list_all2 (kem_sim 8190) (kem_gpass 6 r) (kem_spass 6 r)" by simp
  from kem_gpass_sim [OF _ _ _ _ this, of 5] have "list_all2 (kem_sim 16380) (kem_gpass 5 (kem_gpass 6 r)) (kem_spass 5 (kem_spass 6 r))" using r(1) by simp
  from kem_gpass_sim [OF _ _ _ _ this, of 4] have "list_all2 (kem_sim 32760) (kem_ginner r) s4" using r(1) by (simp add: kem_ginner_def s4_def)
  from list_all2_sim_norm [OF this, of 2285] have y: "list_all2 (kem_sim 3328) y s4" "\<forall>x \<in> set y. 0 \<le> sint x" by (simp_all add: y_def modeq_def)
  have ly: "length y = 256" using r(1) by (simp add: y_def)
  from kem_gpass_std [OF _ ly y, of 3] have "list_all2 (kem_sim 3328) (kem_gpass 3 y) (kem_spass 3 s4)" by simp
  from kem_gpass_sim [OF _ _ _ _ this, of 2] have "list_all2 (kem_sim 6656) (kem_gpass 2 (kem_gpass 3 y)) (kem_spass 2 (kem_spass 3 s4))" using ly by simp
  from kem_gpass_sim [OF _ _ _ _ this, of 1] have "list_all2 (kem_sim 13312) (kem_gpass 1 (kem_gpass 2 (kem_gpass 3 y))) (kem_spass 1 (kem_spass 2 (kem_spass 3 s4)))"
    using ly by simp
  from kem_gpass_sim [OF _ _ _ _ this, of 0] have S: "list_all2 (kem_sim 26624) (kem_gouter y) s0" using ly by (simp add: kem_gouter_def s0_def)
  have l: "length (kem_gouter y) = 256" "length s0 = 256" using ly list_all2_lengthD [OF S] by simp_all
  then have m: "modeq 3329 (sint (kem_gouter y ! i)) (sint (s0 ! i))" using list_all2_nthD [OF S, of i] assms(2) by (simp add: kem_sim_def)
  have "sint (mlkem_poly_invntt_tomont r ! i) mod 3329 = sint (fqmul (s0 ! i) 1441) mod 3329"
    using l(2) assms(2) by (simp add: mlkem_poly_invntt_tomont_def mlkem_invntt_passes [OF r(1)] s0_def s4_def)
  also have "\<dots> = 169 * (sint (s0 ! i) * 1441) mod 3329"
    using fqmul_modeq_inv [of "s0 ! i" 1441] fqmul_small_ok [of 1441 "s0 ! i"] by (simp add: modeq_def mult.commute)
  also have "\<dots> = 169 * (sint (kem_gouter y ! i) * 1441) mod 3329"
    using modeq_mult [OF modeq_refl [of 3329 "169 * 1441"] m] by (simp add: modeq_def)
  also have "\<dots> = sint (rvv_mlkem_poly_invntt_tomont r ! i)"
    unfolding rvv_mlkem_invntt_passes [OF r(1)] y_def [symmetric] using l(1) assms(2) by (simp add: sint_kem_norm)
  finally show ?thesis by simp
qed

end
