(* ===== verification/Kem_Rvv_Poly.thy ===== *)
theory Kem_Rvv_Poly
  imports Kem_Rvv_Invntt Kem_Poly_Correct
begin

text \<open>
  The coefficient-wise vector kernels and the vector product in the transformed domain, against the scalar functions.
\<close>

section \<open>Coefficient-wise operations\<close>

lemma fold_vse_map:
  "w * n \<le> length r \<Longrightarrow> fold (\<lambda>k r. vse r (w * k) (map f (vle r (w * k) w)) w) [0..<n] r = map f (take (w * n) r) @ drop (w * n) r"
proof (induction n)
  case (Suc n)
  have t: "take (w * Suc n) r = take (w * n) r @ take w (drop (w * n) r)" using take_add [of "w * n" w r] by (simp add: add.commute)
  have l: "w * n + w \<le> length r" "w * n \<le> length r" using Suc.prems by simp_all
  have "fold (\<lambda>k r. vse r (w * k) (map f (vle r (w * k) w)) w) [0..<Suc n] r =
      vse (map f (take (w * n) r) @ drop (w * n) r) (w * n) (map f (vle (map f (take (w * n) r) @ drop (w * n) r) (w * n) w)) w"
    using Suc.IH [OF l(2)] by simp
  also have "\<dots> = map f (take (w * Suc n) r) @ drop (w * Suc n) r"
    unfolding t using l by (simp add: vse_def vle_def overwrite_def min_absorb2 add.commute)
  finally show ?case .
qed simp

lemma fold_vse_map_256:
  "length r = 256 \<Longrightarrow> fold (\<lambda>k r. vse r (16 * k) (map f (vle r (16 * k) 16)) 16) [0..<16] r = map f r"
  using fold_vse_map [of 16 16 r f] by simp

lemma barrett_lane:
  "a - sar (mulh a 20159 + 512) 10 * 3329 = barrett_reduce a"
proof (rule signed_word_eqI)
  define T where "T = (20159 * sint a + 33554432) div 67108864"
  have A: "- 32768 \<le> sint a" "sint a < 32768" by (rule i16_range)+
  have m: "sint (mulh a 20159) = sint a * 20159 div 65536" by (simp add: sint_mulh)
  then have "sint (mulh a 20159 + 512) = sint a * 20159 div 65536 + 512" 
  proof (subst sint_add_fit)
    have "- 20000 \<le> sint (mulh a 20159)" "sint (mulh a 20159) \<le> 20000" using m A by linarith+
    then show "- (2 ^ (LENGTH(16) - 1)) \<le> sint (mulh a 20159) + sint (512 :: i16)" "sint (mulh a 20159) + sint (512 :: i16) < 2 ^ (LENGTH(16) - 1)"
      by simp_all
  qed simp
  then have "sint (sar (mulh a 20159 + 512) 10) = (sint a * 20159 div 65536 + 512) div 1024" by (simp add: sint_sar)
  also have "sint a * 20159 div 65536 + 512 = (sint a * 20159 + 33554432) div 65536" by simp
  also have "\<dots> div 1024 = T" by (simp add: T_def div_mult2_eq [symmetric] zdiv_zmult2_eq [symmetric] mult.commute)
  finally have t: "sint (sar (mulh a 20159 + 512) 10) = T" .
  have "modeq (2 ^ LENGTH(16)) (sint (a - sar (mulh a 20159 + 512) 10 * 3329)) (sint a - sint (sar (mulh a 20159 + 512) 10 * 3329))"
    by (rule sint_diff_modeq)
  also have "modeq (2 ^ LENGTH(16)) \<dots> (sint a - T * 3329)"
    using sint_mult_modeq [of "sar (mulh a 20159 + 512) 10" 3329] by (intro modeq_diff modeq_refl) (simp add: t)
  finally show "sint (a - sar (mulh a 20159 + 512) 10 * 3329) = sint (barrett_reduce a)"
    using barrett_reduce_centred [of a] barrett_reduce_exact [of a] by (intro sint_unique) (simp_all add: T_def mult.commute)
qed

lemma fq_barrett_map: "fq_barrett x = map barrett_reduce x"
proof -
  have v: "sext16 ((shl (1 :: i32) 26 + 3329 div 2) div 3329) = (20159 :: i16)" "shl (1 :: i16) (25 - 16) = 512" by code_simp+
  show ?thesis
    unfolding fq_barrett_def Let_def v
    by (rule nth_equalityI) (simp_all add: vmulh_vx_def vadd_vx_def vsra_vx_def vmul_vx_def vsub_vv_def barrett_lane)
qed

lemma rvv_mlkem_poly_reduce_map: "length r = 256 \<Longrightarrow> rvv_mlkem_poly_reduce r = mlkem_poly_reduce r"
  using fold_vse_map_256 [of r barrett_reduce] by (simp add: rvv_mlkem_poly_reduce_def fq_barrett_map mlkem_poly_reduce_eq)

lemma rvv_poly_tomont_map: "length r = 256 \<Longrightarrow> rvv_poly_tomont r = map (\<lambda>x. kem_vmul x 1353) r"
  using fold_vse_map_256 [of r "\<lambda>x. kem_vmul x 1353"] by (simp add: rvv_poly_tomont_def fq_mul_vx_map)

lemma poly_tomont_map: "length r = 256 \<Longrightarrow> poly_tomont r = map (\<lambda>x. fqmul x 1353) r"
proof -
  assume l: "length r = 256"
  have c: "sext32 (zext16 (push_bit 32 (1 :: u64) mod MLKEM_PAR_Q) :: i16) = sext32 (1353 :: i16)" by code_simp
  show ?thesis
    unfolding poly_tomont_def Let_def c using fold_upt_map [of "\<lambda>x. fqmul x 1353" r] l by (simp add: fqmul_def)
qed

lemma sext_wrap:
  fixes x y :: i16
  shows "sext16 (sext32 x + sext32 y) = x + y" and "sext16 (sext32 x - sext32 y) = x - y"
proof -
  have "sint (sext32 x + sext32 y) = sint x + sint y" "sint (sext32 x - sext32 y) = sint x - sint y"
    using i16_range [of x] i16_range [of y] by (subst sint_add_fit sint_diff_fit; simp)+
  then have "modeq (2 ^ 16) (sint (sext16 (sext32 x + sext32 y))) (sint x + sint y)"
    "modeq (2 ^ 16) (sint (sext16 (sext32 x - sext32 y))) (sint x - sint y)"
    using sint_scast_modeq [where 'b = 16 and a = "sext32 x + sext32 y"] sint_scast_modeq [where 'b = 16 and a = "sext32 x - sext32 y"]
    by simp_all
  moreover have "modeq (2 ^ 16) (sint x + sint y) (sint (x + y))" "modeq (2 ^ 16) (sint x - sint y) (sint (x - y))"
    using sint_add_modeq [of x y] sint_diff_modeq [of x y] by (simp_all add: modeq_sym)
  ultimately have "modeq (2 ^ LENGTH(16)) (sint (sext16 (sext32 x + sext32 y))) (sint (x + y))"
    "modeq (2 ^ LENGTH(16)) (sint (sext16 (sext32 x - sext32 y))) (sint (x - y))"
    by (auto intro: modeq_trans)
  then have "sint (sext16 (sext32 x + sext32 y)) = sint (x + y)" "sint (sext16 (sext32 x - sext32 y)) = sint (x - y)"
    using i16_range [of "x + y"] i16_range [of "x - y"] by (auto intro!: sint_unique)
  then show "sext16 (sext32 x + sext32 y) = x + y" "sext16 (sext32 x - sext32 y) = x - y" by (auto intro: signed_word_eqI)
qed

lemma rvv_mlkem_poly_add_sub:
  assumes "length a = 256" "length b = 256"
  shows "rvv_mlkem_poly_add a b = mlkem_poly_add a b" and "rvv_mlkem_poly_sub a b = mlkem_poly_sub a b"
proof -
  have v: "vle a (16 * k) 16 = chunk 16 k a" "vle b (16 * k) 16 = chunk 16 k b" if "k < 16" for k
    using that assms by (intro vle_eq_chunk; simp)+
  have c: "concat (map (\<lambda>k. map2 g (vle a (16 * k) 16) (vle b (16 * k) 16)) [0..<16]) = map (\<lambda>i. g (a ! i) (b ! i)) [0..<256]" for g :: "i16 \<Rightarrow> i16 \<Rightarrow> i16"
  proof (rule chunks_equalityI [of _ 16 16])
    show "length (concat (map (\<lambda>k. map2 g (vle a (16 * k) 16) (vle b (16 * k) 16)) [0..<16])) = 16 * 16"
      by (rule length_concat_chunks) (simp add: v)
    fix e :: nat
    assume e: "e < 16"
    then show "chunk 16 e (concat (map (\<lambda>k. map2 g (vle a (16 * k) 16) (vle b (16 * k) 16)) [0..<16])) =
        chunk 16 e (map (\<lambda>i. g (a ! i) (b ! i)) [0..<256])"
      by (subst chunk_concat_map [where w = 16]) (auto simp: v intro!: nth_equalityI)
  qed simp
  show "rvv_mlkem_poly_add a b = mlkem_poly_add a b" "rvv_mlkem_poly_sub a b = mlkem_poly_sub a b"
    using c [of "(+)"] c [of "(-)"]
    by (simp_all add: rvv_mlkem_poly_add_def rvv_mlkem_poly_sub_def vadd_vv_def vsub_vv_def mlkem_poly_add_def mlkem_poly_sub_def sext_wrap)
qed

lemma rvv_poly_tomont_nth:
  assumes "length r = 256" "i < 256"
  shows "modeq 3329 (sint (rvv_poly_tomont r ! i)) (sint (poly_tomont r ! i))" and "\<bar>sint (rvv_poly_tomont r ! i)\<bar> < 3329"
proof -
  have "modeq 3329 (sint (kem_vmul (r ! i) 1353)) (169 * (sint (r ! i) * 1353))" using kem_vmul_modeq [of "r ! i" 1353] by simp
  also have "modeq 3329 \<dots> (sint (fqmul (r ! i) 1353))"
    using fqmul_modeq_inv [of "r ! i" 1353] fqmul_small_ok [of 1353 "r ! i"] by (simp add: mult.commute modeq_sym)
  finally show "modeq 3329 (sint (rvv_poly_tomont r ! i)) (sint (poly_tomont r ! i))"
    using assms by (simp add: rvv_poly_tomont_map poly_tomont_map)
  show "\<bar>sint (rvv_poly_tomont r ! i)\<bar> < 3329"
    using kem_vmul_bound [of 1353 "r ! i"] assms by (simp add: rvv_poly_tomont_map)
qed

section \<open>Products in the transformed domain\<close>

text \<open>The narrowing reduction of a lane.\<close>

definition kem_redc2 :: "i32 \<Rightarrow> i16" where
  "kem_redc2 z = (let t = sext16 z * MONT_QI in sext16 (sar (z + sext32 t * 3329) 16))"

lemma mlkem_fq_redc2_map: "mlkem_fq_redc2 z = map kem_redc2 z"
  by (rule nth_equalityI) (simp_all add: mlkem_fq_redc2_def vmul_vx_def vncvt_x_x_w_def vwmul_vx_def vadd_vv_def vnsra_wx_def kem_redc2_def Let_def)

lemma kem_redc2_exact:
  assumes "\<bar>sint z\<bar> \<le> 2038398976"
  obtains t where "sint (kem_redc2 z) * 65536 = sint z + t * 3329" "- 32768 \<le> t" "t < 32768"
proof -
  define t where "t = sext16 z * MONT_QI"
  have tr: "- 32768 \<le> sint t" "sint t < 32768" by (rule i16_range)+
  have s: "sint (sext32 t * (3329 :: i32)) = sint t * 3329" using tr by (subst sint_mult_fit) simp_all
  then have w: "sint (z + sext32 t * 3329) = sint z + sint t * 3329" using tr assms by (subst sint_add_fit) simp_all
  have "modeq 65536 (sint t) (sint (sext16 z) * 3327)" using sint_mult_modeq [of "sext16 z" "MONT_QI"] by (simp add: t_def)
  also have "modeq 65536 \<dots> (sint z * 3327)"
    using sint_scast_modeq [where 'b = 16 and a = z] by (intro modeq_mult modeq_refl) simp
  finally have "modeq 65536 (sint z + sint t * 3329) (sint z + sint z * 3327 * 3329)" by (intro modeq_add modeq_mult modeq_refl)
  also have "\<dots> = 0 + 65536 * (169 * sint z)" by simp
  also have "modeq 65536 \<dots> 0" by (rule modeqI) simp
  finally have "65536 dvd sint z + sint t * 3329" by (simp add: modeq_iff_dvd)
  then obtain k where k: "sint z + sint t * 3329 = 65536 * k" by (elim dvdE)
  have "- 32768 \<le> k" "k < 32768" using k tr assms by linarith+
  moreover have "sint (sar (z + sext32 t * 3329) 16) = k" by (simp add: sint_sar w k)
  moreover have "kem_redc2 z = sext16 (sar (z + sext32 t * 3329) 16)" by (simp only: kem_redc2_def Let_def t_def)
  ultimately have "sint (kem_redc2 z) = k" by (simp add: sint_scast_fit)
  then show thesis using k tr by (intro that [of "sint t"]) simp_all
qed

lemma kem_redc2_modeq:
  assumes "\<bar>sint z\<bar> \<le> 2038398976"
  shows "modeq 3329 (sint (kem_redc2 z)) (169 * sint z)"
proof (rule kem_redc2_exact [OF assms])
  fix t
  assume "sint (kem_redc2 z) * 65536 = sint z + t * 3329"
  then have "sint (kem_redc2 z) = 169 * sint z + 3329 * (169 * t - 3327 * sint (kem_redc2 z))" by simp
  then show ?thesis by (rule modeqI)
qed

text \<open>The even and the odd lanes of one step.\<close>

lemma kem_lane_swap:
  "vxor_vx (vid_v 16) (1 :: u16) = [1, 0, 3, 2, 5, 4, 7, 6, 9, 8, 11, 10, 13, 12, 15, 14]"
  "vmseq_vx (vand_vx (vid_v 16) (1 :: u16)) 0 =
    [True, False, True, False, True, False, True, False, True, False, True, False, True, False, True, False]"
  by code_simp+

lemma rvv_basemul_lanes:
  fixes z t u :: "i16 list"
  assumes l: "length z = 16" "length t = 16" "length u = 16" and k: "k < 8"
  defines "wa \<equiv> vwmul_vv z (fq_mul_vv t u) :: i32 list"
    and "wb \<equiv> vwmul_vv t (vrgather_vv u (vxor_vx (vid_v 16) (1 :: u16))) :: i32 list"
  defines "r \<equiv> mlkem_fq_redc2 (vmerge_vvm (vadd_vv wb (vslideup_vx wb wb 1)) (vadd_vv wa (vslidedown_vx wa 1))
    (vmseq_vx (vand_vx (vid_v 16) (1 :: u16)) 0))"
  shows "r ! (2 * k) = kem_redc2 (sext32 (z ! (2 * k)) * sext32 (kem_vmul (t ! (2 * k)) (u ! (2 * k))) +
      sext32 (z ! Suc (2 * k)) * sext32 (kem_vmul (t ! Suc (2 * k)) (u ! Suc (2 * k))))"
    and "r ! Suc (2 * k) = kem_redc2 (sext32 (t ! Suc (2 * k)) * sext32 (u ! (2 * k)) + sext32 (t ! (2 * k)) * sext32 (u ! Suc (2 * k)))"
    and "length r = 16"
proof -
  have la: "length wa = 16" "length wb = 16" using l unfolding wa_def wb_def kem_lane_swap(1) by (simp_all add: vwmul_vv_def fq_mul_vv_map vrgather_vv_def)
  have a: "wa ! j = sext32 (z ! j) * sext32 (kem_vmul (t ! j) (u ! j))" if "j < 16" for j
    using l that by (simp add: wa_def vwmul_vv_def fq_mul_vv_map)
  have b: "\<forall>k<8. wb ! (2 * k) = sext32 (t ! (2 * k)) * sext32 (u ! Suc (2 * k)) \<and>
      wb ! Suc (2 * k) = sext32 (t ! Suc (2 * k)) * sext32 (u ! (2 * k))"
    using l unfolding wb_def kem_lane_swap(1) by (simp add: vwmul_vv_def vrgather_vv_def all_less_numeral)
  have m: "\<forall>k<8. vmseq_vx (vand_vx (vid_v 16) (1 :: u16)) 0 ! (2 * k) \<and> \<not> vmseq_vx (vand_vx (vid_v 16) (1 :: u16)) 0 ! Suc (2 * k)"
    unfolding kem_lane_swap(2) by (simp add: all_less_numeral)
  have lm: "length (vmseq_vx (vand_vx (vid_v 16) (1 :: u16)) 0) = 16" unfolding kem_lane_swap(2) by simp
  show "length r = 16" using la lm by (simp add: r_def mlkem_fq_redc2_map vmerge_vvm_def vadd_vv_def vslideup_vx_def vslidedown_vx_def)
  have k2: "2 * k < 16" "Suc (2 * k) < 16" using k by simp_all
  show "r ! (2 * k) = kem_redc2 (sext32 (z ! (2 * k)) * sext32 (kem_vmul (t ! (2 * k)) (u ! (2 * k))) +
      sext32 (z ! Suc (2 * k)) * sext32 (kem_vmul (t ! Suc (2 * k)) (u ! Suc (2 * k))))"
    using m [rule_format, OF k] k2 la lm
    by (simp add: r_def mlkem_fq_redc2_map vmerge_vvm_def vadd_vv_def vslideup_vx_def vslidedown_vx_def a)
  show "r ! Suc (2 * k) = kem_redc2 (sext32 (t ! Suc (2 * k)) * sext32 (u ! (2 * k)) + sext32 (t ! (2 * k)) * sext32 (u ! Suc (2 * k)))"
    using m [rule_format, OF k] b [rule_format, OF k] k2 la lm
    by (simp add: r_def mlkem_fq_redc2_map vmerge_vvm_def vadd_vv_def vslideup_vx_def vslidedown_vx_def)
qed

text \<open>The table pairs the Montgomery form of one with the root of each leaf.\<close>

lemma rvv_roots_rows: "rvv_roots = concat (map (\<lambda>k. [- 1044, kem_leaf_zeta k]) [0..<128])"
  by code_simp

lemma rvv_roots_leaf:
  assumes "k < 128"
  shows "rvv_roots ! (2 * k) = - 1044" "rvv_roots ! Suc (2 * k) = kem_leaf_zeta k"
  using nth_concat_chunks [of 128 "\<lambda>k. [- 1044, kem_leaf_zeta k]" 2 k 0] nth_concat_chunks [of 128 "\<lambda>k. [- 1044, kem_leaf_zeta k]" 2 k 1] assms
  by (simp_all add: rvv_roots_rows)

lemma length_rvv_basemul_step:
  assumes "length a = 256" "length b = 256" "i < 16"
  shows "length (rvv_basemul_step a b (16 * i)) = 16"
proof -
  have v: "vle a (16 * i) 16 = chunk 16 i a" "vle b (16 * i) 16 = chunk 16 i b" "vle rvv_roots (16 * i) 16 = chunk 16 i rvv_roots"
    using assms by (intro vle_eq_chunk; simp add: rvv_roots_def)+
  show ?thesis unfolding rvv_basemul_step_def Let_def v by (rule rvv_basemul_lanes(3)) (simp_all, rule zero_less_numeral)
qed

lemma length_rvv_poly_basemul:
  "length a = 256 \<Longrightarrow> length b = 256 \<Longrightarrow> length (rvv_poly_basemul_montgomery a b) = 256"
  using length_concat_chunks [of 16 "\<lambda>k. rvv_basemul_step a b (16 * k)" 16]
  by (simp add: rvv_poly_basemul_montgomery_def length_rvv_basemul_step)

lemma rvv_poly_basemul_lanes:
  assumes "length a = 256" "length b = 256" "k < 128"
  defines "p \<equiv> \<lambda>j. sext32 (rvv_roots ! j) * sext32 (kem_vmul (a ! j) (b ! j))"
  shows "rvv_poly_basemul_montgomery a b ! (2 * k) = kem_redc2 (p (2 * k) + p (Suc (2 * k)))"
    and "rvv_poly_basemul_montgomery a b ! Suc (2 * k) =
      kem_redc2 (sext32 (a ! Suc (2 * k)) * sext32 (b ! (2 * k)) + sext32 (a ! (2 * k)) * sext32 (b ! Suc (2 * k)))"
proof -
  define e d where "e = k div 8" and "d = k mod 8"
  have k: "k = 8 * e + d" "e < 16" "d < 8" using assms(3) by (auto simp: e_def d_def)
  have lr: "length rvv_roots = 256" by (simp add: rvv_roots_def)
  have v: "vle a (16 * e) 16 = chunk 16 e a" "vle b (16 * e) 16 = chunk 16 e b" "vle rvv_roots (16 * e) 16 = chunk 16 e rvv_roots" if "e < 16" for e
    using that assms(1,2) lr by (intro vle_eq_chunk; simp)+
  note S = rvv_basemul_lanes [of "chunk 16 e rvv_roots" "chunk 16 e a" "chunk 16 e b" d, OF _ _ _ k(3),
      folded v [OF k(2)], folded rvv_basemul_step_def [of a b "16 * e", unfolded Let_def]]
  have i: "16 * e + 2 * d = 2 * k" "16 * e + Suc (2 * d) = Suc (2 * k)" by (simp_all add: k(1))
  have c: "chunk 16 e x ! (2 * d) = x ! (2 * k)" "chunk 16 e x ! Suc (2 * d) = x ! Suc (2 * k)" for x :: "i16 list"
    using k(3) by (simp_all add: k(1))
  have N: "rvv_poly_basemul_montgomery a b ! (16 * e + j) = rvv_basemul_step a b (16 * e) ! j" if "j < 16" for j
    unfolding rvv_poly_basemul_montgomery_def using k(2) that length_rvv_basemul_step [OF assms(1,2)] by (intro nth_concat_chunks) simp_all
  show "rvv_poly_basemul_montgomery a b ! (2 * k) = kem_redc2 (p (2 * k) + p (Suc (2 * k)))"
    using N [of "2 * d"] S(1) k(3) unfolding i v [OF k(2)] c p_def by simp
  show "rvv_poly_basemul_montgomery a b ! Suc (2 * k) =
      kem_redc2 (sext32 (a ! Suc (2 * k)) * sext32 (b ! (2 * k)) + sext32 (a ! (2 * k)) * sext32 (b ! Suc (2 * k)))"
    using N [of "Suc (2 * d)"] S(2) k(3) unfolding i v [OF k(2)] c by simp
qed

lemma kem_redc2_bound:
  assumes "\<bar>sint z\<bar> \<le> 33538050"
  shows "\<bar>sint (kem_redc2 z)\<bar> \<le> 2176"
proof -
  have "\<bar>sint z\<bar> \<le> 2038398976" using assms by simp
  then show ?thesis by (rule kem_redc2_exact) (use assms in linarith)
qed

lemma kem_vmul_bound_small:
  assumes "\<bar>sint x\<bar> \<le> 4095" "\<bar>sint y\<bar> \<le> 4095"
  shows "\<bar>sint (kem_vmul x y)\<bar> \<le> 1921"
proof (rule kem_vmul_exact [of x y])
  fix t
  assume "sint (kem_vmul x y) * 65536 = sint x * sint y + t * 3329" "- 32768 \<le> t" "t < 32768"
  moreover have "\<bar>sint x * sint y\<bar> \<le> 4095 * 4095" unfolding abs_mult using assms by (intro mult_mono) auto
  ultimately show ?thesis by linarith
qed

lemma kem_sum_fit:
  fixes x y u v :: i16
  assumes "\<bar>sint x\<bar> \<le> A" "\<bar>sint y\<bar> \<le> B" "\<bar>sint u\<bar> \<le> A" "\<bar>sint v\<bar> \<le> B" "A * B \<le> 16769025"
  shows "sint (sext32 x * sext32 y + sext32 u * sext32 v) = sint x * sint y + sint u * sint v"
    and "\<bar>sint x * sint y + sint u * sint v\<bar> \<le> 33538050"
proof -
  have "0 \<le> A" using assms(1) by simp
  then have "\<bar>sint x * sint y\<bar> \<le> A * B" "\<bar>sint u * sint v\<bar> \<le> A * B" unfolding abs_mult using assms by (auto intro!: mult_mono)
  then have b: "\<bar>sint x * sint y\<bar> \<le> 16769025" "\<bar>sint u * sint v\<bar> \<le> 16769025" using assms(5) by simp_all
  then show "\<bar>sint x * sint y + sint u * sint v\<bar> \<le> 33538050" by simp
  show "sint (sext32 x * sext32 y + sext32 u * sext32 v) = sint x * sint y + sint u * sint v"
    using b by (subst sint_add_fit) (simp_all add: sint_mult_i16)
qed

lemma rvv_poly_basemul_nth:
  assumes a: "poly_bounded 4095 a" and b: "poly_bounded 4095 b" and i: "i < 256"
  shows "modeq 3329 (sint (rvv_poly_basemul_montgomery a b ! i)) (sint (poly_basemul_montgomery a b ! i))"
    and "\<bar>sint (rvv_poly_basemul_montgomery a b ! i)\<bar> < 3329"
proof -
  have l: "length a = 256" "length b = 256" using a b by (simp_all add: poly_bounded_def)
  have s: "\<bar>sint (a ! j)\<bar> \<le> 4095" "\<bar>sint (b ! j)\<bar> \<le> 4095" if "j < 256" for j using a b that by (simp_all add: poly_bounded_def)
  have both: "modeq 3329 (sint (rvv_poly_basemul_montgomery a b ! (2 * k))) (sint (poly_basemul_montgomery a b ! (2 * k))) \<and>
      \<bar>sint (rvv_poly_basemul_montgomery a b ! (2 * k))\<bar> \<le> 2176 \<and>
      modeq 3329 (sint (rvv_poly_basemul_montgomery a b ! Suc (2 * k))) (sint (poly_basemul_montgomery a b ! Suc (2 * k))) \<and>
      \<bar>sint (rvv_poly_basemul_montgomery a b ! Suc (2 * k))\<bar> \<le> 2176" if k: "k < 128" for k
  proof -
    let ?a0 = "a ! (2 * k)" and ?a1 = "a ! Suc (2 * k)" and ?b0 = "b ! (2 * k)" and ?b1 = "b ! Suc (2 * k)"
    let ?z = "kem_leaf_zeta k"
    have B: "\<bar>sint ?a0\<bar> \<le> 4095" "\<bar>sint ?a1\<bar> \<le> 4095" "\<bar>sint ?b0\<bar> \<le> 4095" "\<bar>sint ?b1\<bar> \<le> 4095" using s k by simp_all
    have z: "\<bar>sint ?z\<bar> \<le> 1664" by (rule kem_leaf_zeta_gam [OF k])
    note S = basemul_correct [of "(?a0, ?a1)" "(?b0, ?b1)" ?z "sint ?z * 169", OF _ _ _ _ z, simplified, OF B]
    have m1: "\<bar>sint (- 1044 :: i16)\<bar> \<le> 1664" by simp
    note W = kem_sum_fit [OF m1 kem_vmul_bound_small [OF B(1,3)] z kem_vmul_bound_small [OF B(2,4)], simplified]
    note V = kem_sum_fit [OF B(2,3) B(1,4), simplified]
    let ?w = "sext32 (- 1044 :: i16) * sext32 (kem_vmul ?a0 ?b0) + sext32 ?z * sext32 (kem_vmul ?a1 ?b1)"
    let ?v = "sext32 ?a1 * sext32 ?b0 + sext32 ?a0 * sext32 ?b1"
    have e: "rvv_poly_basemul_montgomery a b ! (2 * k) = kem_redc2 ?w" "rvv_poly_basemul_montgomery a b ! Suc (2 * k) = kem_redc2 ?v"
      using rvv_poly_basemul_lanes [OF l k] rvv_roots_leaf [OF k] by simp_all
    have "modeq 3329 (sint (kem_redc2 ?w)) (169 * sint ?w)" using W by (intro kem_redc2_modeq) simp
    also have "169 * sint ?w = 169 * (- 1044 * sint (kem_vmul ?a0 ?b0) + sint ?z * sint (kem_vmul ?a1 ?b1))" using W(1) by simp
    also have "modeq 3329 \<dots> (169 * (- 1044 * (169 * (sint ?a0 * sint ?b0)) + sint ?z * (169 * (sint ?a1 * sint ?b1))))"
      by (intro modeq_intros modeq_refl kem_vmul_modeq)
    also have "modeq 3329 \<dots> (169 * (sint ?a0 * sint ?b0 + sint ?z * 169 * (sint ?a1 * sint ?b1)))"
      by (rule modeqI [where k = "- 8957 * (sint ?a0 * sint ?b0)"]) (simp add: algebra_simps)
    also have "modeq 3329 \<dots> (sint (poly_basemul_montgomery a b ! (2 * k)))"
      using S(1) poly_basemul_nth [OF k, of a b] by (simp add: modeq_sym)
    finally have M0: "modeq 3329 (sint (kem_redc2 ?w)) (sint (poly_basemul_montgomery a b ! (2 * k)))" .
    have "modeq 3329 (sint (kem_redc2 ?v)) (169 * sint ?v)" using V by (intro kem_redc2_modeq) simp
    also have "169 * sint ?v = 169 * (sint ?a0 * sint ?b1 + sint ?a1 * sint ?b0)" using V(1) by simp
    also have "modeq 3329 \<dots> (sint (poly_basemul_montgomery a b ! Suc (2 * k)))"
      using S(2) poly_basemul_nth [OF k, of a b] by (simp add: modeq_sym)
    finally have M1: "modeq 3329 (sint (kem_redc2 ?v)) (sint (poly_basemul_montgomery a b ! Suc (2 * k)))" .
    have "\<bar>sint (kem_redc2 ?w)\<bar> \<le> 2176" "\<bar>sint (kem_redc2 ?v)\<bar> \<le> 2176" using W V by (intro kem_redc2_bound; simp)+
    then show ?thesis unfolding e using M0 M1 by simp
  qed
  obtain k where "k < 128" "i = 2 * k \<or> i = Suc (2 * k)" using i by (rule poly_index) auto
  then show "modeq 3329 (sint (rvv_poly_basemul_montgomery a b ! i)) (sint (poly_basemul_montgomery a b ! i))"
    "\<bar>sint (rvv_poly_basemul_montgomery a b ! i)\<bar> < 3329" using both [of k] by auto
qed

end
