(* ===== verification/Kem_Rvv_Sim.thy ===== *)
theory Kem_Rvv_Sim
  imports Kem_Rvv_Poly Kem_Kpke_Correct
begin

text \<open>
  The simulation between the two builds: polynomials that agree modulo \<open>q\<close> and stay in a range.  Each kernel takes
  polynomials that agree to polynomials that agree, and the reductions and serialisations that end a computation take
  them to equal ones.
\<close>

section \<open>Polynomials that agree modulo \<open>q\<close>\<close>

definition poly_sim :: "int \<Rightarrow> poly \<Rightarrow> poly \<Rightarrow> bool" where
  "poly_sim B a b \<longleftrightarrow> poly_bounded B a \<and> poly_bounded B b \<and> (\<forall>i<256. modeq 3329 (sint (a ! i)) (sint (b ! i)))"

lemma poly_sim_refl: "poly_bounded B a \<Longrightarrow> poly_sim B a a"
  by (simp add: poly_sim_def)

lemma poly_sim_mono: "poly_sim B a b \<Longrightarrow> B \<le> B' \<Longrightarrow> poly_sim B' a b"
  by (auto simp: poly_sim_def intro: poly_bounded_mono)

lemma poly_sim_bounded: "poly_sim B a b \<Longrightarrow> poly_bounded B a" "poly_sim B a b \<Longrightarrow> poly_bounded B b"
  by (simp_all add: poly_sim_def)

lemma poly_sim_length: "poly_sim B a b \<Longrightarrow> length a = 256" "poly_sim B a b \<Longrightarrow> length b = 256"
  by (simp_all add: poly_sim_def poly_bounded_def)

lemma poly_bounded_ntt: "poly_bounded 9471 r \<Longrightarrow> poly_bounded 1664 (mlkem_poly_ntt r)"
  using kem_rep_ntt [of r] by (simp add: kem_rep_def)

lemma poly_bounded_invntt:
  assumes "poly_bounded 4095 r"
  shows "poly_bounded 3328 (mlkem_poly_invntt_tomont r)"
proof -
  obtain f where "kem_rep 4095 1 f r" using kem_rep_exists [OF assms] by blast
  from kem_rep_invntt(1) [OF this] show ?thesis by simp
qed

lemma poly_sim_ntt:
  assumes "poly_bounded 9471 r" "length (rvv_mlkem_poly_ntt r) = 256"
  shows "poly_sim 3328 (rvv_mlkem_poly_ntt r) (mlkem_poly_ntt r)"
  unfolding poly_sim_def
proof (intro conjI allI impI)
  show "poly_bounded 3328 (rvv_mlkem_poly_ntt r)"
  proof (rule poly_boundedI [OF assms(2)])
    fix i :: nat assume i: "i < 256"
    have "0 \<le> sint (rvv_mlkem_poly_ntt r ! i)" "sint (rvv_mlkem_poly_ntt r ! i) < 3329"
      unfolding rvv_mlkem_poly_ntt_nth [OF assms(1) i] by simp_all
    then show "\<bar>sint (rvv_mlkem_poly_ntt r ! i)\<bar> \<le> 3328" by simp
  qed
  show "poly_bounded 3328 (mlkem_poly_ntt r)" using poly_bounded_ntt [OF assms(1)] by (rule poly_bounded_mono) simp
  show "modeq 3329 (sint (rvv_mlkem_poly_ntt r ! i)) (sint (mlkem_poly_ntt r ! i))" if "i < 256" for i
    using rvv_mlkem_poly_ntt_nth [OF assms(1) that] by (simp add: modeq_def)
qed

lemma poly_sim_invntt:
  assumes "poly_bounded 4095 r" "length (rvv_mlkem_poly_invntt_tomont r) = 256"
  shows "poly_sim 3328 (rvv_mlkem_poly_invntt_tomont r) (mlkem_poly_invntt_tomont r)"
  unfolding poly_sim_def
proof (intro conjI allI impI)
  show "poly_bounded 3328 (rvv_mlkem_poly_invntt_tomont r)"
  proof (rule poly_boundedI [OF assms(2)])
    fix i :: nat assume i: "i < 256"
    have "0 \<le> sint (rvv_mlkem_poly_invntt_tomont r ! i)" "sint (rvv_mlkem_poly_invntt_tomont r ! i) < 3329"
      unfolding rvv_mlkem_invntt_nth [OF assms(1) i] by simp_all
    then show "\<bar>sint (rvv_mlkem_poly_invntt_tomont r ! i)\<bar> \<le> 3328" by simp
  qed
  show "poly_bounded 3328 (mlkem_poly_invntt_tomont r)" by (rule poly_bounded_invntt [OF assms(1)])
  show "modeq 3329 (sint (rvv_mlkem_poly_invntt_tomont r ! i)) (sint (mlkem_poly_invntt_tomont r ! i))" if "i < 256" for i
    using rvv_mlkem_invntt_nth [OF assms(1) that] by (simp add: modeq_def)
qed

lemma poly_sim_add:
  assumes "poly_sim A a a'" "poly_sim B b b'" "A + B < 32768"
  shows "poly_sim (A + B) (rvv_mlkem_poly_add a b) (mlkem_poly_add a' b')"
  unfolding poly_sim_def rvv_mlkem_poly_add_sub(1) [OF poly_sim_length(1) [OF assms(1)] poly_sim_length(1) [OF assms(2)]]
proof (intro conjI allI impI)
  note s = poly_sim_bounded [OF assms(1)] poly_sim_bounded [OF assms(2)]
  show "poly_bounded (A + B) (mlkem_poly_add a b)" by (rule mlkem_poly_add_bounded [OF s(1,3) assms(3)])
  show "poly_bounded (A + B) (mlkem_poly_add a' b')" by (rule mlkem_poly_add_bounded [OF s(2,4) assms(3)])
  fix i :: nat assume i: "i < 256"
  show "modeq 3329 (sint (mlkem_poly_add a b ! i)) (sint (mlkem_poly_add a' b' ! i))"
    unfolding mlkem_poly_add_nth [OF s(1,3) assms(3) i] mlkem_poly_add_nth [OF s(2,4) assms(3) i]
    using assms(1,2) i by (intro modeq_add) (simp_all add: poly_sim_def)
qed

lemma poly_sim_sub:
  assumes "poly_sim A a a'" "poly_sim B b b'" "A + B < 32768"
  shows "poly_sim (A + B) (rvv_mlkem_poly_sub a b) (mlkem_poly_sub a' b')"
  unfolding poly_sim_def rvv_mlkem_poly_add_sub(2) [OF poly_sim_length(1) [OF assms(1)] poly_sim_length(1) [OF assms(2)]]
proof (intro conjI allI impI)
  note s = poly_sim_bounded [OF assms(1)] poly_sim_bounded [OF assms(2)]
  show "poly_bounded (A + B) (mlkem_poly_sub a b)" by (rule mlkem_poly_sub_bounded [OF s(1,3) assms(3)])
  show "poly_bounded (A + B) (mlkem_poly_sub a' b')" by (rule mlkem_poly_sub_bounded [OF s(2,4) assms(3)])
  fix i :: nat assume i: "i < 256"
  show "modeq 3329 (sint (mlkem_poly_sub a b ! i)) (sint (mlkem_poly_sub a' b' ! i))"
    unfolding mlkem_poly_sub_nth [OF s(1,3) assms(3) i] mlkem_poly_sub_nth [OF s(2,4) assms(3) i]
    using assms(1,2) i by (intro modeq_diff) (simp_all add: poly_sim_def)
qed

lemma barrett_reduce_eqI:
  assumes "modeq 3329 (sint a) (sint b)"
  shows "barrett_reduce a = barrett_reduce b"
proof (rule signed_word_eqI)
  have "modeq 3329 (sint (barrett_reduce a)) (sint (barrett_reduce b))"
    using assms barrett_reduce_modeq [of a] barrett_reduce_modeq [of b] by (simp add: modeq_def)
  then obtain k where k: "sint (barrett_reduce a) - sint (barrett_reduce b) = 3329 * k" unfolding modeq_iff_dvd by (rule dvdE)
  then have "- 3328 \<le> 3329 * k" "3329 * k \<le> 3328"
    using barrett_reduce_centred [of a] barrett_reduce_centred [of b] by linarith+
  then have "k = 0" by linarith
  with k show "sint (barrett_reduce a) = sint (barrett_reduce b)" by simp
qed

lemma poly_sim_reduce: "poly_sim B a b \<Longrightarrow> rvv_mlkem_poly_reduce a = mlkem_poly_reduce b"
  by (rule nth_equalityI)
    (auto simp: poly_sim_length rvv_mlkem_poly_reduce_map mlkem_poly_reduce_eq poly_sim_def intro!: barrett_reduce_eqI)

section \<open>The kernels on polynomials that agree\<close>

lemma length_rvv_mlkem_poly_ntt: "length r = 256 \<Longrightarrow> length (rvv_mlkem_poly_ntt r) = 256"
  by (simp add: rvv_mlkem_poly_ntt_passes)

lemma length_rvv_mlkem_invntt: "length r = 256 \<Longrightarrow> length (rvv_mlkem_poly_invntt_tomont r) = 256"
  by (simp add: rvv_mlkem_invntt_passes)

lemma basemul_modeq:
  assumes "poly_bounded 4095 a" "poly_sim 4095 b b'" "i < 256"
  shows "modeq 3329 (sint (poly_basemul_montgomery a b ! i)) (sint (poly_basemul_montgomery a b' ! i))"
proof -
  have s: "\<bar>sint (a ! j)\<bar> \<le> 4095" "\<bar>sint (b ! j)\<bar> \<le> 4095" "\<bar>sint (b' ! j)\<bar> \<le> 4095"
    "modeq 3329 (sint (b ! j)) (sint (b' ! j))" if "j < 256" for j
    using assms that by (simp_all add: poly_sim_def poly_bounded_def)
  have both: "modeq 3329 (sint (poly_basemul_montgomery a b ! (2 * k))) (sint (poly_basemul_montgomery a b' ! (2 * k)))"
    "modeq 3329 (sint (poly_basemul_montgomery a b ! Suc (2 * k))) (sint (poly_basemul_montgomery a b' ! Suc (2 * k)))"
    if k: "k < 128" for k
  proof -
    let ?a0 = "a ! (2 * k)" and ?a1 = "a ! Suc (2 * k)" and ?b0 = "b ! (2 * k)" and ?b1 = "b ! Suc (2 * k)"
      and ?c0 = "b' ! (2 * k)" and ?c1 = "b' ! Suc (2 * k)" and ?z = "kem_leaf_zeta k"
    have B: "\<bar>sint ?a0\<bar> \<le> 4095" "\<bar>sint ?a1\<bar> \<le> 4095" "\<bar>sint ?b0\<bar> \<le> 4095" "\<bar>sint ?b1\<bar> \<le> 4095"
      "\<bar>sint ?c0\<bar> \<le> 4095" "\<bar>sint ?c1\<bar> \<le> 4095" using s k by simp_all
    have m: "modeq 3329 (sint ?b0) (sint ?c0)" "modeq 3329 (sint ?b1) (sint ?c1)" using s(4) k by simp_all
    have z: "\<bar>sint ?z\<bar> \<le> 1664" by (rule kem_leaf_zeta_gam [OF k])
    note S = basemul_correct [of "(?a0, ?a1)" "(?b0, ?b1)" ?z "sint ?z * 169", OF _ _ _ _ z, simplified, OF B(1-4)]
    note S' = basemul_correct [of "(?a0, ?a1)" "(?c0, ?c1)" ?z "sint ?z * 169", OF _ _ _ _ z, simplified, OF B(1,2,5,6)]
    have "modeq 3329 (169 * (sint ?a0 * sint ?b0 + sint ?z * 169 * (sint ?a1 * sint ?b1))) (169 * (sint ?a0 * sint ?c0 + sint ?z * 169 * (sint ?a1 * sint ?c1)))"
      by (intro modeq_intros modeq_refl m)
    then show "modeq 3329 (sint (poly_basemul_montgomery a b ! (2 * k))) (sint (poly_basemul_montgomery a b' ! (2 * k)))"
      using S(1) S'(1) unfolding poly_basemul_nth [OF k] modeq_def by simp
    have "modeq 3329 (169 * (sint ?a0 * sint ?b1 + sint ?a1 * sint ?b0)) (169 * (sint ?a0 * sint ?c1 + sint ?a1 * sint ?c0))"
      by (intro modeq_intros modeq_refl m)
    then show "modeq 3329 (sint (poly_basemul_montgomery a b ! Suc (2 * k))) (sint (poly_basemul_montgomery a b' ! Suc (2 * k)))"
      using S(2) S'(2) unfolding poly_basemul_nth [OF k] modeq_def by simp
  qed
  show ?thesis using assms(3) both by (cases rule: poly_index) auto
qed

lemma poly_sim_basemul:
  assumes "poly_bounded 4095 a" "poly_sim 4095 b b'"
  shows "poly_sim 6656 (rvv_poly_basemul_montgomery a b) (poly_basemul_montgomery a b')"
  unfolding poly_sim_def
proof (intro conjI allI impI)
  note b = poly_sim_bounded [OF assms(2)]
  show "poly_bounded 6656 (rvv_poly_basemul_montgomery a b)"
  proof (rule poly_boundedI)
    show "length (rvv_poly_basemul_montgomery a b) = 256" using assms(1) b by (intro length_rvv_poly_basemul) (simp_all add: poly_bounded_def)
    show "\<bar>sint (rvv_poly_basemul_montgomery a b ! i)\<bar> \<le> 6656" if "i < 256" for i
      using rvv_poly_basemul_nth(2) [OF assms(1) b(1) that] by simp
  qed
  show "poly_bounded 6656 (poly_basemul_montgomery a b')"
    using assms(1) b(2) poly_basemul_bound [of a b'] by (auto simp: poly_bounded_def)
  fix i :: nat assume i: "i < 256"
  have "modeq 3329 (sint (rvv_poly_basemul_montgomery a b ! i)) (sint (poly_basemul_montgomery a b ! i))"
    by (rule rvv_poly_basemul_nth(1) [OF assms(1) b(1) i])
  also have "modeq 3329 \<dots> (sint (poly_basemul_montgomery a b' ! i))" by (rule basemul_modeq [OF assms i])
  finally show "modeq 3329 (sint (rvv_poly_basemul_montgomery a b ! i)) (sint (poly_basemul_montgomery a b' ! i))" .
qed

lemma poly_sim_tomont:
  assumes "length r = 256"
  shows "poly_sim 3328 (rvv_poly_tomont r) (poly_tomont r)"
proof -
  have "kem_rep 32768 1 f r \<Longrightarrow> poly_bounded 3328 (poly_tomont r)" for f
    using kem_rep_tomont [of 32768 1 f r] by (simp add: kem_rep_def)
  moreover have "poly_bounded 32768 r"
  proof (rule poly_boundedI [OF assms])
    show "\<bar>sint (r ! i)\<bar> \<le> 32768" for i using i16_range [of "r ! i"] by linarith
  qed
  ultimately have t: "poly_bounded 3328 (poly_tomont r)" using kem_rep_exists by blast
  moreover have "poly_bounded 3328 (rvv_poly_tomont r)"
  proof (rule poly_boundedI)
    show "length (rvv_poly_tomont r) = 256" using assms by (simp add: rvv_poly_tomont_map)
    show "\<bar>sint (rvv_poly_tomont r ! i)\<bar> \<le> 3328" if "i < 256" for i using rvv_poly_tomont_nth(2) [OF assms that] by simp
  qed
  ultimately show ?thesis using rvv_poly_tomont_nth(1) [OF assms] by (simp add: poly_sim_def)
qed

lemma poly_sim_tobytes:
  assumes "poly_sim 3328 a b"
  shows "poly_tobytes a = poly_tobytes b"
proof (rule fields_inj [where w = 12 and N = 256])
  fix i :: nat assume i: "i < 256"
  have x: "\<forall>x\<in>set c. - 3329 < sint x \<and> sint x < 4096" if "poly_bounded 3328 c" for c
    using that by (fastforce simp: poly_bounded_def)
  have ab: "\<bar>sint (a ! i)\<bar> \<le> 3328" "\<bar>sint (b ! i)\<bar> \<le> 3328" "modeq 3329 (sint (a ! i)) (sint (b ! i))"
    using assms i by (simp_all add: poly_sim_def poly_bounded_nth)
  have c: "(if y < 0 then y + 3329 else y) = y mod 3329" if "\<bar>y\<bar> \<le> 3328" for y :: int
    using that mod_pos_pos_trivial [of "y + 3329" 3329] by auto
  have "int (field 12 (poly_tobytes a) i) = int (field 12 (poly_tobytes b) i)"
    unfolding poly_tobytes_field [OF poly_sim_length(1) [OF assms] x [OF poly_sim_bounded(1) [OF assms]] i]
      poly_tobytes_field [OF poly_sim_length(2) [OF assms] x [OF poly_sim_bounded(2) [OF assms]] i]
      c [OF ab(1)] c [OF ab(2)] using ab(3) by (simp add: modeq_def)
  then show "field 12 (poly_tobytes a) i = field 12 (poly_tobytes b) i" by simp
qed simp_all

end
