(* ===== verification/Kem_Rvv_Kpke.thy ===== *)
theory Kem_Rvv_Kpke
  imports Kem_Rvv Kem_Mlkem
begin

text \<open>
  The functions of \<open>mlkem/cbd.c\<close>, \<open>polyvec.c\<close>, \<open>mlkem_kpke.c\<close> and \<open>mlkem.c\<close> as the build with
  \<open>MLKEM_RVV == 1\<close> compiles them: the same C text, calling the kernels of \<open>rvv_poly.c\<close> and \<open>cbd_rvv.c\<close> where the
  scalar build calls those of \<open>mlkem_poly.c\<close>, \<open>mlkem_ntt.c\<close> and \<open>cbd.c\<close>.  Packing, compression, hashing and
  comparison are shared by both builds.
\<close>

section \<open>Code\<close>

subsection \<open>\<open>cbd.c\<close> and \<open>polyvec.c\<close>\<close>

definition rvv_poly_cbd_eta1 :: "mlkem_param \<Rightarrow> bytes \<Rightarrow> poly" where
  "rvv_poly_cbd_eta1 par buf = (if par_eta1 par = 2 then cbd2_rvv buf else cbd3_rvv buf)"

definition rvv_poly_cbd_eta2 :: "bytes \<Rightarrow> poly" where
  "rvv_poly_cbd_eta2 buf = cbd2_rvv buf"

definition rvv_polyvec_ntt :: "mlkem_param \<Rightarrow> pvec \<Rightarrow> pvec" where
  "rvv_polyvec_ntt par r = fold (\<lambda>i r. r[i := rvv_mlkem_poly_ntt (r ! i)]) [0..<par_k par] r"

definition rvv_polyvec_invntt_tomont :: "mlkem_param \<Rightarrow> pvec \<Rightarrow> pvec" where
  "rvv_polyvec_invntt_tomont par r = fold (\<lambda>i r. r[i := rvv_mlkem_poly_invntt_tomont (r ! i)]) [0..<par_k par] r"

definition rvv_polyvec_basemul_acc_montgomery :: "mlkem_param \<Rightarrow> pvec \<Rightarrow> pvec \<Rightarrow> poly" where
  "rvv_polyvec_basemul_acc_montgomery par a b =
     (let r = rvv_poly_basemul_montgomery (a ! 0) (b ! 0);
          r = fold (\<lambda>i r. let t = rvv_poly_basemul_montgomery (a ! i) (b ! i) in rvv_mlkem_poly_add r t) [1..<par_k par] r
      in rvv_mlkem_poly_reduce r)"

definition rvv_polyvec_reduce :: "mlkem_param \<Rightarrow> pvec \<Rightarrow> pvec" where
  "rvv_polyvec_reduce par r = fold (\<lambda>i r. r[i := rvv_mlkem_poly_reduce (r ! i)]) [0..<par_k par] r"

definition rvv_polyvec_add :: "mlkem_param \<Rightarrow> pvec \<Rightarrow> pvec \<Rightarrow> pvec" where
  "rvv_polyvec_add par a b = map (\<lambda>i. rvv_mlkem_poly_add (a ! i) (b ! i)) [0..<par_k par]"

subsection \<open>\<open>mlkem_kpke.c\<close>\<close>

definition rvv_poly_getnoise_eta1 :: "mlkem_param \<Rightarrow> bytes \<Rightarrow> u8 \<Rightarrow> poly" where
  "rvv_poly_getnoise_eta1 par seed nonce =
     (let buf = prf (par_eta1 par * (MLKEM_PAR_N div 4)) seed nonce
      in rvv_poly_cbd_eta1 par buf)"

definition rvv_poly_getnoise_eta2 :: "bytes \<Rightarrow> u8 \<Rightarrow> poly" where
  "rvv_poly_getnoise_eta2 seed nonce =
     (let buf = prf (MLKEM_PAR_ETA2 * MLKEM_PAR_N div 4) seed nonce
      in rvv_poly_cbd_eta2 buf)"

partial_function (option) rvv_gen_matrix_refill :: "poly \<Rightarrow> nat \<Rightarrow> keccak_state \<Rightarrow> poly option" where
  "rvv_gen_matrix_refill a ctr state =
     (if ctr < MLKEM_PAR_N
      then let (buf, state) = xof_squeezeblocks 1 state;
               buflen = XOF_BLOCKBYTES;
               (a, n) = rvv_mlkem_rej_uniform a ctr (MLKEM_PAR_N - ctr) buf buflen
           in rvv_gen_matrix_refill a (ctr + n) state
      else Some a)"

definition rvv_gen_matrix_entry :: "bytes \<Rightarrow> nat \<Rightarrow> nat \<Rightarrow> bool \<Rightarrow> poly option" where
  "rvv_gen_matrix_entry seed i j tr =
     (let state = (if tr then xof_absorb seed (of_nat i) (of_nat j)
                   else xof_absorb seed (of_nat j) (of_nat i));
          (buf, state) = xof_squeezeblocks GEN_MATRIX_NBLOCKS state;
          buflen = GEN_MATRIX_NBLOCKS * XOF_BLOCKBYTES;
          (a, ctr) = rvv_mlkem_rej_uniform (replicate MLKEM_PAR_N 0) 0 MLKEM_PAR_N buf buflen
      in rvv_gen_matrix_refill a ctr state)"

definition rvv_gen_matrix :: "mlkem_param \<Rightarrow> bytes \<Rightarrow> bool \<Rightarrow> pvec list option" where
  "rvv_gen_matrix par seed tr =
     those (map (\<lambda>i. those (map (\<lambda>j. rvv_gen_matrix_entry seed i j tr) [0..<par_k par])) [0..<par_k par])"

definition rvv_kpke_keygen_arith :: "mlkem_param \<Rightarrow> pvec list \<Rightarrow> pvec \<Rightarrow> pvec \<Rightarrow> pvec \<times> pvec" where
  "rvv_kpke_keygen_arith par a dkpv e =
     (let dkpv = rvv_polyvec_ntt par dkpv;
          e = rvv_polyvec_ntt par e;
          ekpv = map (\<lambda>i. rvv_poly_tomont (rvv_polyvec_basemul_acc_montgomery par (a ! i) dkpv)) [0..<par_k par];
          ekpv = rvv_polyvec_add par ekpv e;
          ekpv = rvv_polyvec_reduce par ekpv
      in (ekpv, dkpv))"

definition rvv_kpke_keygen :: "mlkem_param \<Rightarrow> bytes \<Rightarrow> (bytes \<times> bytes) option" where
  "rvv_kpke_keygen par d =
     (let buf = take MLKEM_SYM_SZ d @ [of_nat (par_k par)];
          buf = hash_g buf;
          publicseed = take MLKEM_SYM_SZ buf;
          noiseseed = drop MLKEM_SYM_SZ buf
      in Option.bind (rvv_gen_matrix par publicseed False) (\<lambda>a.
         let (dkpv, nonce) = getnoise_loop (rvv_poly_getnoise_eta1 par noiseseed) par 0;
             (e, nonce) = getnoise_loop (rvv_poly_getnoise_eta1 par noiseseed) par nonce;
             (ekpv, dkpv) = rvv_kpke_keygen_arith par a dkpv e
         in Some (pack_ek par ekpv publicseed, pack_dk par dkpv)))"

definition rvv_kpke_encrypt_arith :: "mlkem_param \<Rightarrow> pvec list \<Rightarrow> pvec \<Rightarrow> pvec \<Rightarrow> pvec \<Rightarrow> poly \<Rightarrow> poly \<Rightarrow> pvec \<times> poly" where
  "rvv_kpke_encrypt_arith par at ekpv sp ep epp k =
     (let sp = rvv_polyvec_ntt par sp;
          b = map (\<lambda>i. rvv_polyvec_basemul_acc_montgomery par (at ! i) sp) [0..<par_k par];
          v = rvv_polyvec_basemul_acc_montgomery par ekpv sp;
          b = rvv_polyvec_invntt_tomont par b;
          v = rvv_mlkem_poly_invntt_tomont v;
          b = rvv_polyvec_add par b ep;
          v = rvv_mlkem_poly_add v epp;
          v = rvv_mlkem_poly_add v k;
          b = rvv_polyvec_reduce par b;
          v = rvv_mlkem_poly_reduce v
      in (b, v))"

definition rvv_kpke_encrypt :: "mlkem_param \<Rightarrow> bytes \<Rightarrow> bytes \<Rightarrow> bytes \<Rightarrow> bytes option" where
  "rvv_kpke_encrypt par ek m r =
     (let (ekpv, seed) = unpack_ek par ek;
          k = poly_frommsg m
      in Option.bind (rvv_gen_matrix par seed True) (\<lambda>at.
         let (sp, nonce) = getnoise_loop (rvv_poly_getnoise_eta1 par r) par 0;
             (ep, nonce) = getnoise_loop (rvv_poly_getnoise_eta2 r) par nonce;
             epp = rvv_poly_getnoise_eta2 r nonce;
             (b, v) = rvv_kpke_encrypt_arith par at ekpv sp ep epp k
         in Some (pack_ciphertext par b v)))"

definition rvv_kpke_decrypt :: "mlkem_param \<Rightarrow> bytes \<Rightarrow> bytes \<Rightarrow> bytes" where
  "rvv_kpke_decrypt par dk c =
     (let (b, v) = unpack_ciphertext par c;
          dkpv = unpack_dk par dk;
          b = rvv_polyvec_ntt par b;
          mp = rvv_polyvec_basemul_acc_montgomery par dkpv b;
          mp = rvv_mlkem_poly_invntt_tomont mp;
          mp = rvv_mlkem_poly_sub v mp;
          mp = rvv_mlkem_poly_reduce mp
      in poly_tomsg mp)"

subsection \<open>\<open>mlkem.c\<close>\<close>

definition rvv_mlkem_keygen_internal :: "mlkem_param \<Rightarrow> bytes \<Rightarrow> bytes \<Rightarrow> (bytes \<times> bytes) option" where
  "rvv_mlkem_keygen_internal par d z =
     Option.bind (rvv_kpke_keygen par d) (\<lambda>(ek, dkp).
       let dk = replicate (par_dk_sz par) 0;
           dk = overwrite 0 dkp dk;
           dk = overwrite (par_k par * MLKEM_POLY_SZ) (take (par_ek_sz par) ek) dk;
           dk = overwrite (par_dk_sz par - 2 * MLKEM_SYM_SZ) (hash_h (take (par_ek_sz par) ek)) dk;
           dk = overwrite (par_dk_sz par - MLKEM_SYM_SZ) (take MLKEM_SYM_SZ z) dk
       in Some (ek, dk))"

definition rvv_mlkem_encaps_internal :: "mlkem_param \<Rightarrow> bytes \<Rightarrow> bytes \<Rightarrow> (bytes \<times> bytes) option" where
  "rvv_mlkem_encaps_internal par ek m =
     (let buf = take MLKEM_SYM_SZ m;
          buf = buf @ hash_h (take (par_ek_sz par) ek);
          kr = hash_g buf
      in Option.bind (rvv_kpke_encrypt par ek buf (drop MLKEM_SYM_SZ kr)) (\<lambda>ct.
           let kk = take MLKEM_SYM_SZ kr in Some (kk, ct)))"

definition rvv_mlkem_decaps_internal :: "mlkem_param \<Rightarrow> bytes \<Rightarrow> bytes \<Rightarrow> bytes option" where
  "rvv_mlkem_decaps_internal par dk ct =
     (let pk = drop (par_k par * MLKEM_POLY_SZ) dk;
          buf = rvv_kpke_decrypt par dk ct;
          buf = buf @ take MLKEM_SYM_SZ (drop (par_dk_sz par - 2 * MLKEM_SYM_SZ) dk);
          kr = hash_g buf
      in Option.bind (rvv_kpke_encrypt par pk buf (drop MLKEM_SYM_SZ kr)) (\<lambda>cmp.
           let fail = verify ct cmp (par_ct_sz par);
               kp = kyber_shake256_rkprf par (drop (par_dk_sz par - MLKEM_SYM_SZ) dk) ct;
               kp = cmov kp kr MLKEM_SYM_SZ (if fail = 0 then 1 else 0)
           in Some kp))"

end
