(* ===== verification/Kem_Rvv_Sampling.thy ===== *)
theory Kem_Rvv_Sampling
  imports Kem_Rvv Rvv_Pass Rej_Sampling
begin

text \<open>
  The vector rejection sampling of \<open>mlkem/rvv_poly.c\<close> against the scalar one: twenty-four bytes at a time, sixteen
  candidates by shifts and gathers of twelve 16-bit words, and a compress that keeps the accepted ones in order.
\<close>

section \<open>Candidates\<close>

lemma rvv_mlkem_lanes:
  "vmul_vx (vid_v 16) (12 :: u16) = [0, 12, 24, 36, 48, 60, 72, 84, 96, 108, 120, 132, 144, 156, 168, 180]"
  "vsrl_vx [0, 12, 24, 36, 48, 60, 72, 84, 96, 108, 120, 132, 144, 156, 168, 180 :: u16] 4 = [0, 0, 1, 2, 3, 3, 4, 5, 6, 6, 7, 8, 9, 9, 10, 11]"
  "vsll_vx (vid_v 16 :: u16 list) 2 = [0, 4, 8, 12, 16, 20, 24, 28, 32, 36, 40, 44, 48, 52, 56, 60]"
  by code_simp+

text \<open>The two candidates of three bytes.\<close>

definition kem_cand0 :: "bytes \<Rightarrow> nat \<Rightarrow> u16" where
  "kem_cand0 buf p = (zext16 (shr (buf ! p) 0) OR shl (zext16 (buf ! (p + 1))) 8) AND 0xFFF"

definition kem_cand1 :: "bytes \<Rightarrow> nat \<Rightarrow> u16" where
  "kem_cand1 buf p = (zext16 (shr (buf ! (p + 1)) 4) OR shl (zext16 (buf ! (p + 2))) 4) AND 0xFFF"

lemma kem_word_bits:
  fixes a b c d e f :: u8 and w :: u16
  defines "W0 \<equiv> zext16 a OR shl (zext16 b) 8" and "W1 \<equiv> zext16 c OR shl (zext16 d) 8" and "W2 \<equiv> zext16 e OR shl (zext16 f) 8"
  shows "(shr W0 0 OR shl W0 0) AND 0xFFF = (zext16 (shr a 0) OR shl (zext16 b) 8) AND (0xFFF :: u16)"
    and "(shr W0 12 OR shl W1 4) AND 0xFFF = (zext16 (shr b 4) OR shl (zext16 c) 4) AND (0xFFF :: u16)"
    and "(shr W1 8 OR shl W2 8) AND 0xFFF = (zext16 (shr d 0) OR shl (zext16 e) 8) AND (0xFFF :: u16)"
    and "(shr W2 4 OR shl w 12) AND 0xFFF = (zext16 (shr e 4) OR shl (zext16 f) 4) AND (0xFFF :: u16)"
proof -
  have E: "(\<forall>n<16. bit x n = bit y n) \<Longrightarrow> x = y" for x y :: u16 by (rule bit_word_eqI) simp
  show "(shr W0 0 OR shl W0 0) AND 0xFFF = (zext16 (shr a 0) OR shl (zext16 b) 8) AND (0xFFF :: u16)"
    by (simp add: W0_def)
  show "(shr W0 12 OR shl W1 4) AND 0xFFF = (zext16 (shr b 4) OR shl (zext16 c) 4) AND (0xFFF :: u16)"
    by (rule E) (simp add: W0_def W1_def all_less_numeral bit_fields bit_1_iff flip: One_nat_def)
  show "(shr W1 8 OR shl W2 8) AND 0xFFF = (zext16 (shr d 0) OR shl (zext16 e) 8) AND (0xFFF :: u16)"
    by (rule E) (simp add: W1_def W2_def all_less_numeral bit_fields bit_1_iff flip: One_nat_def)
  show "(shr W2 4 OR shl w 12) AND 0xFFF = (zext16 (shr e 4) OR shl (zext16 f) 4) AND (0xFFF :: u16)"
    by (rule E) (simp add: W2_def all_less_numeral bit_fields bit_1_iff flip: One_nat_def)
qed

lemma rvv_mlkem_candidates_eq:
  "rvv_mlkem_candidates buf pos = concat (map (\<lambda>t. [kem_cand0 buf (pos + 3 * t), kem_cand1 buf (pos + 3 * t)]) [0..<8])"
proof -
  define b where "b k = buf ! (pos + k)" for k
  have v: "vle16_bytes buf pos 12 = map (\<lambda>i. zext16 (b (2 * i)) OR shl (zext16 (b (2 * i + 1))) 8) [0..<12]"
    by (simp add: vle16_bytes_def b_def add.assoc)
  have c: "kem_cand0 buf (pos + 3 * t) = (zext16 (shr (b (3 * t)) 0) OR shl (zext16 (b (3 * t + 1))) 8) AND 0xFFF"
    "kem_cand1 buf (pos + 3 * t) = (zext16 (shr (b (3 * t + 1)) 4) OR shl (zext16 (b (3 * t + 2))) 4) AND 0xFFF" for t
    by (simp_all add: kem_cand0_def kem_cand1_def b_def add.assoc)
  show ?thesis
    unfolding rvv_mlkem_candidates_def Let_def rvv_mlkem_lanes v c
    by (simp add: vrgather_vv_def vslidedown_vx_def vsrl_vv_def vsll_vv_def vor_vv_def vand_vx_def upt_rec
        kem_word_bits [simplified] kem_word_bits(4) [of _ _ 0, simplified] del: upt_Suc flip: numeral_2_eq_2)
qed

section \<open>The loops\<close>

abbreviation kem_place16 :: "nat \<Rightarrow> nat \<Rightarrow> u16 \<Rightarrow> poly \<times> nat \<Rightarrow> poly \<times> nat" where
  "kem_place16 \<equiv> place (\<lambda>t. t < MLKEM_PAR_Q) (\<lambda>t. t)"

lemma mlkem_rej_uniform_loop_step:
  assumes "pos + 3 \<le> buflen"
  shows "mlkem_rej_uniform_loop r off len buf buflen ctr pos =
    (case fold (kem_place16 off len) [kem_cand0 buf pos, kem_cand1 buf pos] (r, ctr) of
      (r, ctr) \<Rightarrow> mlkem_rej_uniform_loop r off len buf buflen ctr (pos + 3))"
proof (cases "ctr < len")
  case True
  then show ?thesis using assms
    by (subst mlkem_rej_uniform_loop.simps)
      (simp add: place_def kem_cand0_def kem_cand1_def Let_def)
next
  case False
  then have "mlkem_rej_uniform_loop r off len buf buflen ctr p = (r, ctr)" for p
    by (subst mlkem_rej_uniform_loop.simps) simp
  then show ?thesis using False by (simp add: place_def)
qed

lemma mlkem_rej_uniform_loop_run:
  "pos + 3 * k \<le> buflen \<Longrightarrow>
    mlkem_rej_uniform_loop r off len buf buflen ctr pos =
      (case fold (kem_place16 off len) (concat (map (\<lambda>t. [kem_cand0 buf (pos + 3 * t), kem_cand1 buf (pos + 3 * t)]) [0..<k])) (r, ctr) of
        (r, ctr) \<Rightarrow> mlkem_rej_uniform_loop r off len buf buflen ctr (pos + 3 * k))"
proof (induction k)
  case (Suc k)
  then have "pos + 3 * k + 3 \<le> buflen" "pos + 3 * k \<le> buflen" "pos + 3 * Suc k = pos + 3 * k + 3" by simp_all
  then show ?case
    using Suc.IH mlkem_rej_uniform_loop_step [of "pos + 3 * k" buflen _ off len buf] by (simp add: case_prod_beta add.assoc del: mult_Suc_right)
qed simp

lemma rvv_mlkem_rej_loop_step:
  assumes "off + len \<le> length r" "ctr < len" "pos + 24 \<le> buflen"
  shows "rvv_mlkem_rej_loop r off len buf buflen ctr pos =
    (case fold (kem_place16 off len) (rvv_mlkem_candidates buf pos) (r, ctr) of
      (r, ctr) \<Rightarrow> rvv_mlkem_rej_loop r off len buf buflen ctr (pos + 24))"
proof -
  let ?P = "\<lambda>t. t < (MLKEM_PAR_Q :: u16)"
  define x where "x = rvv_mlkem_candidates buf pos"
  have f: "fold (kem_place16 off len) x (r, ctr) =
      (overwrite (off + ctr) (take (len - ctr) (filter ?P x)) r, ctr + min (len - ctr) (length (filter ?P x)))"
    using fold_place [OF assms(1), of ctr ?P "\<lambda>t. t" x] assms(2) by simp
  have m: "(if len < ctr + n then len - ctr else n) = min (len - ctr) n" for n using assms(2) by auto
  have tm: "take (min n (length ys)) ys = take n ys" for n and ys :: "u16 list" by (simp add: min_def)
  have lt: "vmsltu_vx x MLKEM_PAR_Q = map ?P x" by (simp add: vmsltu_vx_def)
  have "rvv_mlkem_rej_loop r off len buf buflen ctr pos =
      rvv_mlkem_rej_loop (overwrite (off + ctr) (take (min (len - ctr) (length (filter ?P x))) (filter ?P x)) r) off len buf buflen
        (ctr + min (len - ctr) (length (filter ?P x))) (pos + 24)"
    using assms(2,3) by (subst rvv_mlkem_rej_loop.simps)
      (simp add: Let_def x_def [symmetric] lt vcpop_map vcompress_map vse_def m cong: if_weak_cong)
  then show ?thesis unfolding x_def [symmetric] f by (simp add: tm)
qed

text \<open>The vector loop has no tail: it reads the buffer up to the last whole group of 24 bytes.\<close>

lemma rvv_mlkem_rej_loop_eq:
  "off + len \<le> length r \<Longrightarrow> ctr \<le> len \<Longrightarrow> n = buflen div 24 \<Longrightarrow> t \<le> n \<Longrightarrow>
    rvv_mlkem_rej_loop r off len buf buflen ctr (24 * t) = mlkem_rej_uniform_loop r off len buf (24 * n) ctr (24 * t)"
proof (induction "n - t" arbitrary: t r ctr)
  case 0
  then have "\<not> 24 * t + 12 * 2 \<le> buflen" "\<not> 24 * t + 3 \<le> 24 * n" by linarith+
  then show ?case by (subst rvv_mlkem_rej_loop.simps, subst mlkem_rej_uniform_loop.simps) simp
next
  case (Suc d)
  then have t: "24 * t + 24 \<le> buflen" "24 * t + 24 \<le> 24 * n" by linarith+
  have t3: "24 * Suc t = 24 * t + 24" by simp
  show ?case
  proof (cases "ctr < len")
    case False
    then show ?thesis by (subst rvv_mlkem_rej_loop.simps, subst mlkem_rej_uniform_loop.simps) simp
  next
    case True
    obtain r' ctr' where f: "fold (kem_place16 off len) (rvv_mlkem_candidates buf (24 * t)) (r, ctr) = (r', ctr')" by fastforce
    have l: "length r' = length r" "ctr' \<le> len"
      using f fold_place [OF Suc.prems(1,2), of "\<lambda>t. t < MLKEM_PAR_Q" "\<lambda>t. t"] Suc.prems by auto
    have "rvv_mlkem_rej_loop r off len buf buflen ctr (24 * t) = rvv_mlkem_rej_loop r' off len buf buflen ctr' (24 * Suc t)"
      using rvv_mlkem_rej_loop_step [OF Suc.prems(1) True t(1), of buf] f unfolding t3 by simp
    also have "\<dots> = mlkem_rej_uniform_loop r' off len buf (24 * n) ctr' (24 * Suc t)"
      using Suc.hyps(2) Suc.prems l by (intro Suc.hyps(1)) auto
    also have "\<dots> = mlkem_rej_uniform_loop r off len buf (24 * n) ctr (24 * t)"
      using mlkem_rej_uniform_loop_run [of "24 * t" 8 "24 * n" r off len buf ctr] t(2) f unfolding t3 rvv_mlkem_candidates_eq by simp
    finally show ?thesis .
  qed
qed

lemma rvv_mlkem_rej_uniform_scalar:
  assumes "off + len \<le> length r"
  shows "rvv_mlkem_rej_uniform r off len buf buflen = mlkem_rej_uniform r off len buf (24 * (buflen div 24))"
  using rvv_mlkem_rej_loop_eq [OF assms, of 0 "buflen div 24" buflen 0 buf]
  by (simp add: rvv_mlkem_rej_uniform_def mlkem_rej_uniform_def)

end
