(* ===== verification/Kem_Rvv_Cbd.thy ===== *)
theory Kem_Rvv_Cbd
  imports Kem_Rvv_Poly Kem_Cbd
begin

text \<open>
  The vector samplers of the centred binomial distribution, \<open>cbd_rvv.c\<close>: eight 32-bit words at a time, with the
  coefficients of a word stored by segment or strided stores.
\<close>

section \<open>Stores with a stride\<close>

lemma vsseg2_overwrite:
  "off + 2 * vl \<le> length r \<Longrightarrow> vsseg2 r off v0 v1 vl = overwrite off (concat (map (\<lambda>i. [v0 ! i, v1 ! i]) [0..<vl])) r"
proof (induction vl)
  case (Suc n)
  have c: "length (concat (map (\<lambda>i. [v0 ! i, v1 ! i]) [0..<n])) = 2 * n" for n by (subst length_concat_chunks [where w = 2]) simp_all
  have o: "overwrite k [x, y] s = s[k := x, k + 1 := y]" if "k + 1 < length s" for k x y and s :: "'a list"
    using that by (simp add: overwrite_Cons)
  have "vsseg2 r off v0 v1 (Suc n) = (overwrite off (concat (map (\<lambda>i. [v0 ! i, v1 ! i]) [0..<n])) r)[off + 2 * n := v0 ! n, off + 2 * n + 1 := v1 ! n]"
    using Suc by (simp add: vsseg2_def)
  also have "\<dots> = overwrite (off + 2 * n) [v0 ! n, v1 ! n] (overwrite off (concat (map (\<lambda>i. [v0 ! i, v1 ! i]) [0..<n])) r)"
    using Suc.prems by (intro o [symmetric]) (simp add: c)
  also have "\<dots> = overwrite off (concat (map (\<lambda>i. [v0 ! i, v1 ! i]) [0..<n]) @ [v0 ! n, v1 ! n]) r"
    using Suc.prems overwrite_append [of off "concat (map (\<lambda>i. [v0 ! i, v1 ! i]) [0..<n])" "[v0 ! n, v1 ! n]" r] by (simp add: c)
  finally show ?case by simp
qed (simp add: vsseg2_def)

lemma length_vsse [simp]: "length (vsse p off s v n) = length p"
  unfolding vsse_def by (induction n) simp_all

lemma nth_vsse:
  assumes "0 < s" "q < length p"
  shows "vsse p off s v n ! q = (if off \<le> q \<and> s dvd (q - off) \<and> (q - off) div s < n then v ! ((q - off) div s) else p ! q)"
proof (induction n)
  case 0
  then show ?case by (simp add: vsse_def)
next
  case (Suc n)
  have e: "vsse p off s v (Suc n) = (vsse p off s v n)[off + s * n := v ! n]" by (simp add: vsse_def)
  have "off + s * n = q \<longleftrightarrow> off \<le> q \<and> s dvd (q - off) \<and> (q - off) div s = n" using assms(1) by auto
  then show ?case unfolding e nth_list_update_eq using Suc assms by (auto simp: nth_list_update less_Suc_eq)
qed

lemma nth_vsse_lane:
  fixes off k :: nat
  assumes "k < 4" "j < 4" "off + (4 * i + j) < length p"
  shows "vsse p (off + k) 4 v n ! (off + (4 * i + j)) = (if j = k \<and> i < n then v ! i else p ! (off + (4 * i + j)))"
proof (cases "off + k \<le> off + (4 * i + j) \<and> 4 dvd (off + (4 * i + j) - (off + k))")
  case True
  then obtain m where m: "4 * i + j - k = 4 * m" "k \<le> 4 * i + j" by (auto elim!: dvdE)
  then have "4 * i + j = 4 * m + k" by simp
  then have "(4 * i + j) mod 4 = (4 * m + k) mod 4" "(4 * i + j) div 4 = (4 * m + k) div 4" by simp_all
  then have "j = k" "i = m" using assms by simp_all
  then show ?thesis using assms True by (simp add: nth_vsse)
next
  case False
  then have "j \<noteq> k" by auto
  then show ?thesis using assms False by (auto simp: nth_vsse)
qed

lemma nth_vsse_outside:
  fixes off k :: nat
  assumes "k < 4" "q < length p" "q < off \<or> off + 4 * n \<le> q"
  shows "vsse p (off + k) 4 v n ! q = p ! q"
proof -
  have "\<not> (off + k \<le> q \<and> (q - (off + k)) div 4 < n \<and> 4 dvd (q - (off + k)))" using assms(1,3) by (auto elim!: dvdE)
  then show ?thesis using assms(2) by (auto simp: nth_vsse)
qed

lemma vsse4_overwrite:
  fixes off :: nat
  assumes "off + 4 * n \<le> length p"
  shows "vsse (vsse (vsse (vsse p (off + 0) 4 c0 n) (off + 1) 4 c1 n) (off + 2) 4 c2 n) (off + 3) 4 c3 n =
    overwrite off (concat (map (\<lambda>i. [c0 ! i, c1 ! i, c2 ! i, c3 ! i]) [0..<n])) p"
proof -
  let ?g = "\<lambda>i. [c0 ! i, c1 ! i, c2 ! i, c3 ! i]"
  let ?r = "vsse (vsse (vsse (vsse p (off + 0) 4 c0 n) (off + 1) 4 c1 n) (off + 2) 4 c2 n) (off + 3) 4 c3 n"
  have c: "length (concat (map ?g [0..<n])) = n * 4" by (rule length_concat_chunks) simp
  show ?thesis
  proof (rule nth_equalityI)
    show "length ?r = length (overwrite off (concat (map ?g [0..<n])) p)" using assms c by simp
    fix q
    assume "q < length ?r"
    then have q: "q < length p" by simp
    show "?r ! q = overwrite off (concat (map ?g [0..<n])) p ! q"
    proof (cases "q < off \<or> off + 4 * n \<le> q")
      case True
      have v: "vsse x (off + 0) 4 v n ! q = x ! q" "vsse x (off + 1) 4 v n ! q = x ! q" "vsse x (off + 2) 4 v n ! q = x ! q"
        "vsse x (off + 3) 4 v n ! q = x ! q" if "length x = length p" for x v
        by (rule nth_vsse_outside [OF _ _ True]; use that q in simp)+
      have "?r ! q = p ! q" by (simp only: v length_vsse)
      also have "\<dots> = overwrite off (concat (map ?g [0..<n])) p ! q" using True q c by (auto simp: overwrite_def nth_append)
      finally show ?thesis .
    next
      case False
      define i j where "i = (q - off) div 4" and "j = (q - off) mod 4"
      have e: "q = off + (4 * i + j)" and i: "i < n" and j: "j < 4" using False by (auto simp: i_def j_def less_mult_imp_div_less)
      have N: "concat (map ?g [0..<n]) ! (4 * i + j) = ?g i ! j" using i j by (intro nth_concat_chunks) simp_all
      have "overwrite off (concat (map ?g [0..<n])) p ! q = ?g i ! j"
        using N i j assms c by (simp add: e overwrite_def nth_append)
      moreover have "?r ! q = (if j = 3 then c3 ! i else if j = 2 then c2 ! i else if j = 1 then c1 ! i else c0 ! i)"
      proof -
        have v: "vsse x (off + 0) 4 v n ! q = (if j = 0 then v ! i else x ! q)" "vsse x (off + 1) 4 v n ! q = (if j = 1 then v ! i else x ! q)"
          "vsse x (off + 2) 4 v n ! q = (if j = 2 then v ! i else x ! q)" "vsse x (off + 3) 4 v n ! q = (if j = 3 then v ! i else x ! q)"
          if "length x = length p" for x v
          unfolding e using that q i j by (subst nth_vsse_lane; simp add: e)+
        have "j = 0 \<or> j = 1 \<or> j = 2 \<or> j = 3" using j by linarith
        then show ?thesis by (elim disjE; simp only: v length_vsse) simp_all
      qed
      moreover have "j = 0 \<or> j = 1 \<or> j = 2 \<or> j = 3" using j by linarith
      ultimately show ?thesis by auto
    qed
  qed
qed

section \<open>The lanes\<close>

definition cbd2_lane :: "u8 \<Rightarrow> i16 list" where
  "cbd2_lane b =
     (let d = (b AND 0x55) + (shr b 1 AND 0x55)
      in [scast ((d AND 0x3) - (shr d 2 AND 0x3)), scast ((shr d 4 AND 0x3) - shr d 6)])"

definition cbd3_lane :: "u32 \<Rightarrow> u32 list" where
  "cbd3_lane t =
     (let d = (t AND 0x00249249) + (shr t 1 AND 0x00249249) + (shr t 2 AND 0x00249249)
      in [(d AND 0x7) - (shr d 3 AND 0x7), (shr d 6 AND 0x7) - (shr d 9 AND 0x7),
          (shr d 12 AND 0x7) - (shr d 15 AND 0x7), (shr d 18 AND 0x7) - shr d 21])"

lemma cbd_spec_2: "cbd_spec 2 f k = of_bool (f (4 * k)) + of_bool (f (4 * k + 1)) - of_bool (f (4 * k + 2)) - of_bool (f (4 * k + 3))"
  by (simp add: cbd_spec_def lessThan_two numeral_3_eq_3 del: sum_of_bool_eq)

lemma cbd2_lane_sint:
  assumes "m < 2"
  shows "sint (cbd2_lane b ! m) = cbd_spec 2 (bit b) m"
proof -
  define c :: "nat \<Rightarrow> nat" where "c f = of_bool (bit b (2 * f)) + of_bool (bit b (2 * f + 1))" for f
  define d where "d = (b AND 0x55) + (shr b 1 AND 0x55)"
  have c: "c f < 4" for f by (simp add: c_def)
  have M: "bit (0x55 :: u8) n = (n < 4 * 2 \<and> n mod 2 = 0)" if "n < LENGTH(8)" for n
  proof -
    have "\<forall>n<8. bit (0x55 :: u8) n = (n < 4 * 2 \<and> n mod 2 = 0)" by (simp add: all_less_numeral)
    then show ?thesis using that by simp
  qed
  have m: "unat (shr b s AND 0x55) = (\<Sum>f<4. of_bool (bit b (2 * f + s)) * 4 ^ f)" for s
    using unat_field_mask [of 4 2 "0x55" "shr b s"] M by (simp add: bit_drop_bit_eq add.commute)
  have s: "unat (b AND 0x55) + unat (shr b 1 AND 0x55) = (\<Sum>f<4. c f * 4 ^ f)"
    using m [of 0] m [of 1] by (simp add: c_def algebra_simps sum.distrib)
  also have "\<dots> < 4 ^ 4" using c by (rule digit_sum_less)
  finally have d: "unat d = (\<Sum>f<4. c f * 4 ^ f)"
    unfolding d_def by (subst unat_add_lem [THEN iffD1]) (simp_all only: s [symmetric], simp)
  have u: "unat (shr d (2 * f) AND 0x3) = c f" if "f < 4" for f
  proof -
    have "unat (shr d (2 * f) AND 0x3) = unat d div 4 ^ f mod 4"
      using unat_and_mask [of "shr d (2 * f)" 2] by (simp add: mask_eq_exp_minus_1 unat_shr power_mult)
    also have "\<dots> = c f" unfolding d using c that by (rule digit_sum_div_mod)
    finally show ?thesis .
  qed
  have top: "shr d 6 = shr d (2 * 3) AND 0x3"
  proof (rule word_unat_eq_iff [THEN iffD2])
    have "unat d < 256" using unsigned_less [of d] by simp
    then have "unat (shr d 6) < 4" by (simp add: unat_shr)
    then show "unat (shr d 6) = unat (shr d (2 * 3) AND 0x3)"
      using unat_and_mask [of "shr d 6" 2] by (simp add: mask_eq_exp_minus_1)
  qed
  have F: "sint (scast ((shr d (2 * f) AND 0x3) - (shr d (2 * g) AND 0x3)) :: i16) = int (c f) - int (c g)" if "f < 4" "g < 4" for f g
  proof -
    have "sint (shr d (2 * f) AND 0x3) = int (c f)" "sint (shr d (2 * g) AND 0x3) = int (c g)"
      using u [OF that(1)] u [OF that(2)] c [of f] c [of g] by (simp_all add: sint_eq_unat)
    then have "sint ((shr d (2 * f) AND 0x3) - (shr d (2 * g) AND 0x3)) = int (c f) - int (c g)"
      using c [of f] c [of g] by (subst sint_diff_fit) simp_all
    then show ?thesis by simp
  qed
  have "cbd2_lane b = [scast ((shr d (2 * 0) AND 0x3) - (shr d (2 * 1) AND 0x3)), scast ((shr d (2 * 2) AND 0x3) - (shr d (2 * 3) AND 0x3))]"
    unfolding cbd2_lane_def Let_def d_def [symmetric] top by simp
  then show ?thesis
    using assms F [of 0 1] F [of 2 3] by (auto simp: less_2_cases_iff cbd_spec_2 c_def simp flip: numeral_2_eq_2)
qed

lemma cbd2_lanes_word:
  "concat (map cbd2_lane [b0, b1, b2, b3]) = cbd2_word (load32_littleendian b0 b1 b2 b3)"
proof (rule nth_equalityI)
  let ?t = "load32_littleendian b0 b1 b2 b3"
  have l: "length (cbd2_lane b) = 2" for b by (simp add: cbd2_lane_def Let_def)
  show "length (concat (map cbd2_lane [b0, b1, b2, b3])) = length (cbd2_word ?t)"
    by (simp add: l cbd2_word_def Let_def)
  fix j
  assume "j < length (concat (map cbd2_lane [b0, b1, b2, b3]))"
  then have j: "j < 8" by (simp add: l)
  have "\<forall>j<8. concat (map cbd2_lane [b0, b1, b2, b3]) ! j = cbd2_lane ([b0, b1, b2, b3] ! (j div 2)) ! (j mod 2)"
    by (simp add: all_less_numeral nth_append l flip: One_nat_def)
  then have c: "concat (map cbd2_lane [b0, b1, b2, b3]) ! j = cbd2_lane ([b0, b1, b2, b3] ! (j div 2)) ! (j mod 2)" using j by simp
  have "bit ?t (4 * j + i) = bit ([b0, b1, b2, b3] ! (j div 2)) (4 * (j mod 2) + i)" if "i < 4" for i
  proof -
    have lt: "4 * (j mod 2) + i < 8" using that mod_less_divisor [of 2 j] by linarith
    have "4 * j + i = (4 * (j mod 2) + i) + 8 * (j div 2)" using mult_div_mod_eq [of 2 j] by linarith
    then have "(4 * j + i) div 8 = j div 2" "(4 * j + i) mod 8 = 4 * (j mod 2) + i"
      using lt by (simp_all only: div_mult_self2 mod_mult_self2 div_less mod_less)
    then show ?thesis using that j by (subst bit_load32) simp_all
  qed
  from this [of 0] this [of 1] this [of 2] this [of 3]
  have "cbd_spec 2 (bit ?t) j = cbd_spec 2 (bit ([b0, b1, b2, b3] ! (j div 2))) (j mod 2)" by (simp add: cbd_spec_2)
  then have "sint (concat (map cbd2_lane [b0, b1, b2, b3]) ! j) = sint (cbd2_word ?t ! j)"
    unfolding c by (simp add: cbd2_lane_sint cbd2_word_nth [OF j])
  then show "concat (map cbd2_lane [b0, b1, b2, b3]) ! j = cbd2_word ?t ! j" by (rule signed_word_eqI)
qed

section \<open>The samplers\<close>

text \<open>Groups of groups of equal size.\<close>

lemma concat_map_groups:
  "concat (map (\<lambda>i. concat (map (\<lambda>l. f (w * i + l)) [0..<w])) [0..<n]) = concat (map f [0..<w * n])"
proof (induction n)
  case (Suc n)
  have "[0..<w * Suc n] = [0..<w * n] @ map (\<lambda>l. w * n + l) [0..<w]"
    using upt_add_eq_append [of 0 "w * n" w] map_add_upt [of "w * n" w] by (simp add: add.commute)
  then show ?case using Suc by (simp add: comp_def)
qed simp

lemma fold_overwrite_rows:
  assumes "\<And>i. i < n \<Longrightarrow> length (g i) = w" "length r = w * n"
  shows "fold (\<lambda>i r. overwrite (w * i) (g i) r) [0..<n] r = concat (map g [0..<n])"
proof (rule chunks_equalityI [of _ n w])
  have E: "fold (\<lambda>i r. overwrite (w * i) (g i) r) [0..<n] r = fold (\<lambda>i r. vse r (w * (0 + i)) (g i) w) [0..<n] r"
    by (intro fold_cong refl ext) (simp add: vse_def assms(1))
  note F = fold_vse [of n g w 0 r, OF assms(1), folded E]
  show "length (fold (\<lambda>i r. overwrite (w * i) (g i) r) [0..<n] r) = n * w" using F(1) assms(2) by (simp add: mult.commute)
  show "length (concat (map g [0..<n])) = n * w" by (rule length_concat_chunks) (rule assms(1))
  fix c
  assume c: "c < n"
  then have "w * c + w \<le> w * n" using mult_le_mono2 [of "Suc c" n w] by simp
  then show "chunk w c (fold (\<lambda>i r. overwrite (w * i) (g i) r) [0..<n] r) = chunk w c (concat (map g [0..<n]))"
    using F(2) [of c] assms c by (simp add: chunk_concat_map)
qed

lemma cbd2_rvv_rows:
  assumes "128 \<le> length buf"
  shows "cbd2_rvv buf = concat (map (\<lambda>l. cbd2_lane (buf ! l)) [0..<128])"
proof -
  let ?g = "\<lambda>i. concat (map (\<lambda>l. cbd2_lane (buf ! (16 * i + l))) [0..<16])"
  have l2: "length (cbd2_lane b) = 2" for b by (simp add: cbd2_lane_def Let_def)
  have l: "length (?g i) = 32" for i using length_concat_chunks [of 16 "\<lambda>l. cbd2_lane (buf ! (16 * i + l))" 2] by (simp add: l2)
  have s: "cbd2_rvv_step buf i r = overwrite (32 * i) (?g i) r" if i: "i < 8" and r: "length r = 256" for i r
  proof -
    have "vle buf (16 * i) 16 = map (\<lambda>l. buf ! (16 * i + l)) [0..<16]"
      using assms i by (intro nth_equalityI) (simp_all add: vle_def)
    then have "cbd2_rvv_step buf i r = overwrite (32 * i) (concat (map (\<lambda>l.
        [map (\<lambda>l. cbd2_lane (buf ! (16 * i + l)) ! 0) [0..<16] ! l, map (\<lambda>l. cbd2_lane (buf ! (16 * i + l)) ! 1) [0..<16] ! l]) [0..<16])) r"
      using i r by (simp add: cbd2_rvv_step_def Let_def vsseg2_overwrite vand_vx_def vsrl_vx_def vadd_vv_def vsub_vv_def vsext_vf2_def
          map2_map_map comp_def cbd2_lane_def)
    also have "\<dots> = overwrite (32 * i) (?g i) r"
      by (rule arg_cong [where f = "\<lambda>x. overwrite (32 * i) (concat x) r"], rule map_cong) (simp_all add: cbd2_lane_def Let_def)
    finally show ?thesis .
  qed
  have "cbd2_rvv buf = fold (\<lambda>i r. overwrite (32 * i) (?g i) r) [0..<8] (replicate 256 0)"
    unfolding cbd2_rvv_def by (simp, rule fold_cong_length [where N = 256]) (simp_all add: s l)
  also have "\<dots> = concat (map ?g [0..<8])" by (rule fold_overwrite_rows) (simp_all add: l)
  also have "\<dots> = concat (map (\<lambda>l. cbd2_lane (buf ! l)) [0..<128])" using concat_map_groups [of "\<lambda>l. cbd2_lane (buf ! l)" 16 8] by simp
  finally show ?thesis .
qed

lemma cbd2_rvv_cbd2:
  assumes "128 \<le> length buf"
  shows "cbd2_rvv buf = cbd2 buf"
proof -
  have g: "concat (map (\<lambda>l. cbd2_lane (buf ! (4 * i + l))) [0..<4]) =
      cbd2_word (load32_littleendian (buf ! (4 * i)) (buf ! (4 * i + 1)) (buf ! (4 * i + 2)) (buf ! (4 * i + 3)))" for i
    unfolding cbd2_lanes_word [symmetric] by (simp add: upt_rec numeral_3_eq_3)
  show ?thesis
    unfolding cbd2_rvv_rows [OF assms] cbd2_def using concat_map_groups [of "\<lambda>l. cbd2_lane (buf ! l)" 4 32] by (simp add: g)
qed

lemma unat_and_7: "unat (x AND 7 :: u32) < 8"
  using unat_and_mask [of x 3] by (simp add: mask_eq_exp_minus_1)

lemma sint_narrow_7: "sint (zext16 (x AND 7 :: u32)) = sint (x AND 7)"
  using unat_and_7 [of x] by (simp add: sint_eq_unat unat_ucast_fit)

lemma cbd3_field:
  fixes x y :: u32
  shows "sext16 ((x AND 7) - (y AND 7)) = sext16 (sext32 (zext16 (x AND 7)) - sext32 (zext16 (y AND 7)))"
proof -
  have "sint (sext32 (zext16 (x AND 7)) :: u32) = sint (x AND 7)" for x :: u32 by (simp add: sint_narrow_7)
  then have "sext32 (zext16 (x AND 7)) = x AND 7" for x :: u32 by (rule signed_word_eqI)
  then show ?thesis by simp
qed

lemma unat_add_le: "unat (a + b :: 'a::len word) \<le> unat a + unat b"
  by (simp add: unat_word_ariths mod_less_eq_dividend)

lemma cbd3_top:
  fixes t :: u32
  defines "d \<equiv> (t AND 0x00249249) + (shr t 1 AND 0x00249249) + (shr t 2 AND 0x00249249)"
  shows "shr d 21 = shr d 21 AND 7"
proof (rule word_unat_eq_iff [THEN iffD2])
  have S: "(\<Sum>f<8. 8 ^ f) = (2396745 :: nat)" by (simp add: lessThan_nat_numeral lessThan_Suc)
  have "unat (shr t s AND 0x00249249) \<le> (\<Sum>f<8. 8 ^ f)" for s
    unfolding unat_mask3 by (intro sum_mono) simp
  then have m: "unat (shr t s AND 0x00249249) \<le> 2396745" for s unfolding S .
  have "unat d \<le> unat (t AND 0x00249249) + unat (shr t 1 AND 0x00249249) + unat (shr t 2 AND 0x00249249)"
    unfolding d_def by (meson add_right_mono order_trans unat_add_le)
  then have "unat d \<le> 7190235" using m [of 0] m [of 1] m [of 2] by simp
  then have "unat (shr d 21) < 8" by (simp add: unat_shr div_less_iff_less_mult)
  then show "unat (shr d 21) = unat (shr d 21 AND 7)"
    using unat_and_mask [of "shr d 21" 3] by (simp add: mask_eq_exp_minus_1)
qed

lemma cbd3_lane_word: "map scast (cbd3_lane t) = cbd3_word t"
proof -
  define d where "d = (t AND 0x00249249) + (shr t 1 AND 0x00249249) + (shr t 2 AND 0x00249249)"
  note top = cbd3_top [of t, folded d_def]
  have "cbd3_lane t = [(d AND 7) - (shr d 3 AND 7), (shr d 6 AND 7) - (shr d 9 AND 7),
          (shr d 12 AND 7) - (shr d 15 AND 7), (shr d 18 AND 7) - (shr d 21 AND 7)]"
    unfolding cbd3_lane_def Let_def d_def [symmetric] by (subst top) (rule refl)
  moreover have "cbd3_word t = map (\<lambda>j. sext16 ((shr d (6 * j + 0) AND 7) - (shr d (6 * j + 3) AND 7))) [0..<4]"
    unfolding cbd3_word_def Let_def d_def [symmetric] cbd3_field by simp
  ultimately show ?thesis by (simp add: upt_rec)
qed

lemma cbd3_rvv_cbd3: "cbd3_rvv buf = cbd3 buf"
proof -
  let ?t = "\<lambda>w. load24_littleendian (buf ! (3 * w)) (buf ! (3 * w + 1)) (buf ! (3 * w + 2))"
  define g where "g i = concat (map (\<lambda>l. cbd3_lane (?t (8 * i + l))) [0..<8])" for i
  have l4: "length (cbd3_lane t) = 4" for t by (simp add: cbd3_lane_def Let_def)
  have l: "length (g i) = 32" for i
    unfolding g_def using length_concat_chunks [of 8 "\<lambda>l. cbd3_lane (?t (8 * i + l))" 4] l4 by simp
  have s: "cbd3_rvv_step buf i r = overwrite (32 * i) (g i) r" if i: "i < 8" and r: "length r = 256" for i r
  proof -
    have t: "vor_vv (vor_vv (vzext_vf4 (vlseg_field 3 buf (24 * i) 8 0)) (vsll_vx (vzext_vf4 (vlseg_field 3 buf (24 * i) 8 1)) 8))
        (vsll_vx (vzext_vf4 (vlseg_field 3 buf (24 * i) 8 2)) 16) = map (\<lambda>l. ?t (8 * i + l)) [0..<8]"
      by (rule nth_equalityI) (simp_all add: vzext_vf4_def vlseg_field_def vsll_vx_def vor_vv_def load24_littleendian_def Let_def add_mult_distrib2)
    have o: "32 * i + 4 * 8 \<le> length r" using i r by simp
    have "cbd3_rvv_step buf i r = overwrite (32 * i) (concat (map (\<lambda>l.
        [map (\<lambda>l. cbd3_lane (?t (8 * i + l)) ! 0) [0..<8] ! l, map (\<lambda>l. cbd3_lane (?t (8 * i + l)) ! 1) [0..<8] ! l,
         map (\<lambda>l. cbd3_lane (?t (8 * i + l)) ! 2) [0..<8] ! l, map (\<lambda>l. cbd3_lane (?t (8 * i + l)) ! 3) [0..<8] ! l]) [0..<8])) r"
      unfolding cbd3_rvv_step_def Let_def t vsse4_overwrite [OF o]
      by (simp add: vand_vx_def vsrl_vx_def vadd_vv_def vsub_vv_def map2_map_map comp_def cbd3_lane_def Let_def)
    also have "\<dots> = overwrite (32 * i) (g i) r"
      unfolding g_def by (rule arg_cong [where f = "\<lambda>x. overwrite (32 * i) (concat x) r"], rule map_cong) (simp_all add: cbd3_lane_def Let_def)
    finally show ?thesis .
  qed
  define tmp where "tmp = concat (map (\<lambda>w. cbd3_lane (?t w)) [0..<64])"
  have lt: "length tmp = 256" using length_concat_chunks [of 64 "\<lambda>w. cbd3_lane (?t w)" 4] by (simp add: tmp_def l4)
  have "fold (cbd3_rvv_step buf) [0..<8] (replicate 256 0) = fold (\<lambda>i r. overwrite (32 * i) (g i) r) [0..<8] (replicate 256 0)"
    by (rule fold_cong_length [where N = 256]) (simp_all add: s l)
  also have "\<dots> = concat (map g [0..<8])" by (rule fold_overwrite_rows) (simp_all add: l)
  also have "\<dots> = tmp" unfolding tmp_def g_def using concat_map_groups [of "\<lambda>w. cbd3_lane (?t w)" 8 8] by simp
  finally have T: "fold (cbd3_rvv_step buf) [0..<8] (replicate 256 0) = tmp" .
  have "fold (\<lambda>j r. vse r (16 * j) (vncvt_x_x_w (vle tmp (16 * j) 16)) 16) [0..<16] (replicate 256 (0 :: i16)) =
      fold (\<lambda>j r. overwrite (16 * j) (map scast (chunk 16 j tmp)) r) [0..<16] (replicate 256 0)"
    by (rule fold_cong_length [where N = 256]) (simp_all add: vse_def vncvt_x_x_w_def vle_eq_chunk lt)
  also have "\<dots> = concat (map (\<lambda>j. map scast (chunk 16 j tmp)) [0..<16])" by (rule fold_overwrite_rows) simp_all
  also have "\<dots> = map scast (concat (map (\<lambda>j. chunk 16 j tmp) [0..<16]))" by (simp add: map_concat comp_def)
  also have "concat (map (\<lambda>j. chunk 16 j tmp) [0..<16]) = tmp" by (rule concat_chunks) (simp add: lt)
  also have "map scast tmp = cbd3 buf" by (simp add: tmp_def map_concat comp_def cbd3_lane_word cbd3_def)
  finally show ?thesis unfolding cbd3_rvv_def Let_def by (simp add: T)
qed

end
