(* ===== verification/Kem_Rvv_Build.thy ===== *)
theory Kem_Rvv_Build
  imports Kem_Rvv_Sim Kem_Rvv_Kpke Kem_Rvv_Sampling Kem_Rvv_Cbd
begin

text \<open>
  The vector build of ML-KEM against the scalar one, from the samplers to the three functions of the interface: sampling
  interprets the refill interface with the vector kernel, and every vector of polynomials is simulated.
\<close>

section \<open>Sampling\<close>

lemma rvv_poly_getnoise_eq:
  "rvv_poly_getnoise_eta1 par = poly_getnoise_eta1 par" "rvv_poly_getnoise_eta2 = poly_getnoise_eta2"
  by (simp_all add: fun_eq_iff Let_def rvv_poly_getnoise_eta1_def poly_getnoise_eta1_def rvv_poly_getnoise_eta2_def poly_getnoise_eta2_def
      rvv_poly_cbd_eta1_def poly_cbd_eta1_def rvv_poly_cbd_eta2_def poly_cbd_eta2_def cbd2_rvv_cbd2 cbd3_rvv_cbd3)

text \<open>Both buffer sizes of \<open>gen_matrix\<close> are multiples of the 24 bytes the vector loop takes at a time.\<close>

lemma rvv_refill_body_eq:
  "(let (buf, state) = shake128_squeezeblocks 1 state; buflen = 168;
        (a, n) = rvv_mlkem_rej_uniform a ctr (256 - ctr) buf buflen in f a (ctr + n) state) =
   (let (buf, state) = shake128_squeezeblocks 1 state;
        (a, n) = rvv_mlkem_rej_uniform a ctr (256 - ctr) buf (length buf) in f a (ctr + n) state)"
proof -
  obtain buf st where e: "shake128_squeezeblocks 1 state = (buf, st)" by fastforce
  have "length buf = 168" using length_squeezeblocks [of 1 state] unfolding e by simp
  then show ?thesis unfolding e by simp
qed

interpretation rvv_kem_sampler: rej_sampler shake128_squeezeblocks 168 shake128_stream 256 kem_accept
  "\<lambda>a off len buf. rvv_mlkem_rej_uniform a off len buf (length buf)" rvv_gen_matrix_refill
proof
  show "kem_accept (xs @ ys) = kem_accept xs @ kem_accept ys" if "length xs = n * 168" for xs ys n
    using that by (rule kem_accept_append)
  show "rvv_mlkem_rej_uniform a off len buf (length buf) =
      (overwrite off (take len (kem_accept buf)) a, min len (length (kem_accept buf)))"
    if "off + len \<le> length a" "length buf = n * 168" for off len a buf n
  proof -
    have "24 * (length buf div 24) = length buf" using that(2) by simp
    then show ?thesis using rvv_mlkem_rej_uniform_scalar [OF that(1), of buf "length buf"] mlkem_rej_uniform_eq [OF that(1), of buf] by simp
  qed
  show "rvv_gen_matrix_refill a ctr st = (if ctr < 256
      then let (buf, st) = shake128_squeezeblocks 1 st; (a, n) = rvv_mlkem_rej_uniform a ctr (256 - ctr) buf (length buf)
        in rvv_gen_matrix_refill a (ctr + n) st
      else Some a)" for a ctr st
    unfolding rvv_refill_body_eq [symmetric] by (rule rvv_gen_matrix_refill.simps)
  fix P :: "poly \<Rightarrow> nat \<Rightarrow> keccak_state \<Rightarrow> poly \<Rightarrow> bool" and a ctr st r
  assume step: "\<And>f a ctr st r. (\<And>a ctr st r. f a ctr st = Some r \<Longrightarrow> P a ctr st r) \<Longrightarrow>
      (if ctr < 256
       then let (buf, st) = shake128_squeezeblocks 1 st; (a, n) = rvv_mlkem_rej_uniform a ctr (256 - ctr) buf (length buf)
         in f a (ctr + n) st
       else Some a) = Some r \<Longrightarrow> P a ctr st r"
    and r: "rvv_gen_matrix_refill a ctr st = Some r"
  show "P a ctr st r"
    by (rule rvv_gen_matrix_refill.raw_induct [OF step r]) (unfold rvv_refill_body_eq, assumption+)
qed

lemma rvv_gen_matrix_entry_iff:
  "rvv_gen_matrix_entry seed i j tr = Some r \<longleftrightarrow>
   (\<exists>n. 256 \<le> length (kem_accept (kem_entry_stream seed (if tr then i else j) (if tr then j else i) n)) \<and>
        r = take 256 (kem_accept (kem_entry_stream seed (if tr then i else j) (if tr then j else i) n)))"
proof -
  define st where "st = kyber_shake128_absorb seed (of_nat (if tr then i else j)) (of_nat (if tr then j else i))"
  have "rvv_gen_matrix_entry seed i j tr = rvv_kem_sampler.sample 3 st (replicate 256 0)"
  proof -
    have n: "(12 * 256 div 8 * 2 ^ 12 div 3329 + 168) div 168 = (3 :: nat)" by simp
    obtain buf st' where e: "shake128_squeezeblocks 3 st = (buf, st')" by fastforce
    have "length buf = 504" using length_squeezeblocks [of 3 st] unfolding e by simp
    moreover have "(if tr then kyber_shake128_absorb seed (of_nat i) (of_nat j) else kyber_shake128_absorb seed (of_nat j) (of_nat i)) = st"
      by (simp add: st_def)
    ultimately show ?thesis unfolding rvv_gen_matrix_entry_def rvv_kem_sampler.sample_def n Let_def by (simp add: e)
  qed
  then show ?thesis by (simp add: rvv_kem_sampler.sample_iff rvv_kem_sampler.accepted_def kem_entry_stream_def st_def)
qed

lemma rvv_gen_matrix_entry_eq: "rvv_gen_matrix_entry seed i j tr = gen_matrix_entry seed i j tr"
proof -
  have "rvv_gen_matrix_entry seed i j tr = Some r \<longleftrightarrow> gen_matrix_entry seed i j tr = Some r" for r
    unfolding rvv_gen_matrix_entry_iff gen_matrix_entry_iff ..
  then show ?thesis by (metis option.exhaust)
qed

lemma rvv_gen_matrix_eq: "rvv_gen_matrix = gen_matrix"
  by (simp add: fun_eq_iff rvv_gen_matrix_def gen_matrix_def rvv_gen_matrix_entry_eq)

section \<open>Vectors\<close>

text \<open>Vectors of polynomials, coefficient-wise congruent or equal and bounded.\<close>

definition pvec_sim :: "mlkem_param \<Rightarrow> int \<Rightarrow> pvec \<Rightarrow> pvec \<Rightarrow> bool" where
  "pvec_sim par B a b \<longleftrightarrow> length a = par_k par \<and> length b = par_k par \<and> (\<forall>i<par_k par. poly_sim B (a ! i) (b ! i))"

lemma pvec_sim_nth: "pvec_sim par B a b \<Longrightarrow> i < par_k par \<Longrightarrow> poly_sim B (a ! i) (b ! i)"
  by (simp add: pvec_sim_def)

lemma rvv_polyvec_eqs:
  "length r = par_k par \<Longrightarrow> rvv_polyvec_ntt par r = map rvv_mlkem_poly_ntt r"
  "length r = par_k par \<Longrightarrow> rvv_polyvec_invntt_tomont par r = map rvv_mlkem_poly_invntt_tomont r"
  "length r = par_k par \<Longrightarrow> rvv_polyvec_reduce par r = map rvv_mlkem_poly_reduce r"
  by (simp_all add: rvv_polyvec_ntt_def rvv_polyvec_invntt_tomont_def rvv_polyvec_reduce_def flip: fold_upt_map)

lemma pvec_sim_ntt:
  assumes "length v = par_k par" "\<And>i. i < par_k par \<Longrightarrow> poly_bounded 9471 (v ! i)"
  shows "pvec_sim par 3328 (rvv_polyvec_ntt par v) (polyvec_ntt par v)"
  using assms poly_sim_ntt [OF assms(2)] length_rvv_mlkem_poly_ntt
  by (simp add: pvec_sim_def rvv_polyvec_eqs polyvec_ntt_eq poly_bounded_def)

lemma rvv_polyvec_basemul_acc_eq:
  assumes a: "\<And>i. i < par_k par \<Longrightarrow> poly_bounded 4095 (a ! i)" and b: "pvec_sim par 3328 b b'"
    and k: "1 \<le> par_k par" "par_k par \<le> 4"
  shows "rvv_polyvec_basemul_acc_montgomery par a b = polyvec_basemul_acc_montgomery par a b'"
proof -
  let ?f = "\<lambda>i r. rvv_mlkem_poly_add r (rvv_poly_basemul_montgomery (a ! i) (b ! i))"
  let ?g = "\<lambda>i r. mlkem_poly_add r (poly_basemul_montgomery (a ! i) (b' ! i))"
  have p: "poly_sim 6656 (rvv_poly_basemul_montgomery (a ! i) (b ! i)) (poly_basemul_montgomery (a ! i) (b' ! i))" if "i < par_k par" for i
    by (rule poly_sim_basemul [OF a [OF that] poly_sim_mono [OF pvec_sim_nth [OF b that]]]) simp
  have "poly_sim (6656 * int n) (fold ?f [1..<n] (rvv_poly_basemul_montgomery (a ! 0) (b ! 0)))
      (fold ?g [1..<n] (poly_basemul_montgomery (a ! 0) (b' ! 0)))" if "1 \<le> n" "n \<le> par_k par" for n
    using that
  proof (induction n rule: dec_induct)
    case base
    then show ?case using p [of 0] by simp
  next
    case (step n)
    then have "poly_sim (6656 * int n + 6656) (?f n (fold ?f [1..<n] (rvv_poly_basemul_montgomery (a ! 0) (b ! 0))))
        (?g n (fold ?g [1..<n] (poly_basemul_montgomery (a ! 0) (b' ! 0))))"
      using k by (intro poly_sim_add p) simp_all
    then show ?case using step.hyps by (simp add: algebra_simps)
  qed
  from this [OF k(1) order_refl] show ?thesis
    unfolding rvv_polyvec_basemul_acc_montgomery_def polyvec_basemul_acc_montgomery_def Let_def by (rule poly_sim_reduce)
qed

lemma polyvec_basemul_acc_bounded:
  shows "length (polyvec_basemul_acc_montgomery par a b) = 256" "poly_bounded 1664 (polyvec_basemul_acc_montgomery par a b)"
proof -
  have "length (fold (\<lambda>i r. mlkem_poly_add r (poly_basemul_montgomery (a ! i) (b ! i))) xs (poly_basemul_montgomery c d)) = 256" for xs c d
    by (induction xs rule: rev_induct) simp_all
  then show "poly_bounded 1664 (polyvec_basemul_acc_montgomery par a b)"
    unfolding polyvec_basemul_acc_montgomery_def Let_def by (intro mlkem_poly_reduce_bounded)
  then show "length (polyvec_basemul_acc_montgomery par a b) = 256" by (simp add: poly_bounded_def)
qed

lemma short_vec_9471:
  assumes "short_vec par v"
  shows "length v = par_k par" "\<And>i. i < par_k par \<Longrightarrow> poly_bounded 9471 (v ! i)"
proof -
  show "length v = par_k par" using assms by (simp add: short_vec_def)
  show "poly_bounded 9471 (v ! i)" if "i < par_k par" for i using short_vec_nth [OF assms that] by (rule poly_bounded_mono) simp
qed

lemma rvv_kpke_keygen_arith_eq:
  assumes k: "1 \<le> par_k par" "par_k par \<le> 4"
    and A: "\<And>i j. i < par_k par \<Longrightarrow> j < par_k par \<Longrightarrow> poly_bounded 4095 (A ! i ! j)"
    and s: "short_vec par s" and e: "short_vec par e"
  shows "fst (rvv_kpke_keygen_arith par A s e) = fst (kpke_keygen_arith par A s e)"
    and "polyvec_tobytes par (snd (rvv_kpke_keygen_arith par A s e)) = polyvec_tobytes par (snd (kpke_keygen_arith par A s e))"
proof -
  note sim = pvec_sim_ntt [OF short_vec_9471 [OF s]] pvec_sim_ntt [OF short_vec_9471 [OF e]]
  have t: "rvv_polyvec_basemul_acc_montgomery par (A ! i) (rvv_polyvec_ntt par s) = polyvec_basemul_acc_montgomery par (A ! i) (polyvec_ntt par s)"
    if "i < par_k par" for i by (rule rvv_polyvec_basemul_acc_eq [OF A [OF that] sim(1) k])
  have "rvv_mlkem_poly_reduce (rvv_mlkem_poly_add (rvv_poly_tomont (polyvec_basemul_acc_montgomery par (A ! i) (polyvec_ntt par s))) (rvv_polyvec_ntt par e ! i)) =
    mlkem_poly_reduce (mlkem_poly_add (poly_tomont (polyvec_basemul_acc_montgomery par (A ! i) (polyvec_ntt par s))) (polyvec_ntt par e ! i))"
    if "i < par_k par" for i
    by (rule poly_sim_reduce, rule poly_sim_add [OF poly_sim_tomont pvec_sim_nth [OF sim(2) that]])
      (simp_all add: polyvec_basemul_acc_bounded)
  then show "fst (rvv_kpke_keygen_arith par A s e) = fst (kpke_keygen_arith par A s e)"
    by (simp add: rvv_kpke_keygen_arith_def kpke_keygen_arith_def Let_def rvv_polyvec_eqs polyvec_reduce_eq rvv_polyvec_add_def polyvec_add_def t)
  show "polyvec_tobytes par (snd (rvv_kpke_keygen_arith par A s e)) = polyvec_tobytes par (snd (kpke_keygen_arith par A s e))"
    using poly_sim_tobytes [OF pvec_sim_nth [OF sim(1)]]
    by (auto simp: rvv_kpke_keygen_arith_def kpke_keygen_arith_def Let_def polyvec_tobytes_def intro!: arg_cong [where f = concat] map_cong)
qed

section \<open>The scheme\<close>

lemma poly_sim_basemul_invntt:
  "poly_sim 3328 (rvv_mlkem_poly_invntt_tomont (polyvec_basemul_acc_montgomery par c d))
    (mlkem_poly_invntt_tomont (polyvec_basemul_acc_montgomery par c d))"
  using polyvec_basemul_acc_bounded [of par c d]
  by (intro poly_sim_invntt length_rvv_mlkem_invntt) (auto elim: poly_bounded_mono)

lemma rvv_kpke_encrypt_arith_eq:
  assumes k: "1 \<le> par_k par" "par_k par \<le> 4"
    and A: "\<And>i j. i < par_k par \<Longrightarrow> j < par_k par \<Longrightarrow> poly_bounded 4095 (A ! i ! j)"
    and ek: "\<And>i. i < par_k par \<Longrightarrow> poly_bounded 4095 (ek ! i)"
    and y: "short_vec par y" and e1: "short_vec par e1" and e2: "poly_bounded 3 e2" and mu: "poly_bounded 1665 mu"
  shows "rvv_kpke_encrypt_arith par A ek y e1 e2 mu = kpke_encrypt_arith par A ek y e1 e2 mu"
proof -
  note sim = pvec_sim_ntt [OF short_vec_9471 [OF y]]
  have b: "rvv_polyvec_basemul_acc_montgomery par (A ! i) (rvv_polyvec_ntt par y) = polyvec_basemul_acc_montgomery par (A ! i) (polyvec_ntt par y)"
    if "i < par_k par" for i by (rule rvv_polyvec_basemul_acc_eq [OF A [OF that] sim k])
  have v: "rvv_polyvec_basemul_acc_montgomery par ek (rvv_polyvec_ntt par y) = polyvec_basemul_acc_montgomery par ek (polyvec_ntt par y)"
    by (rule rvv_polyvec_basemul_acc_eq [OF ek sim k])
  have inv: "poly_sim 3328 (rvv_mlkem_poly_invntt_tomont (polyvec_basemul_acc_montgomery par c d)) (mlkem_poly_invntt_tomont (polyvec_basemul_acc_montgomery par c d))" for c d
    by (rule poly_sim_basemul_invntt)
  have V: "rvv_mlkem_poly_reduce (rvv_mlkem_poly_add (rvv_mlkem_poly_add (rvv_mlkem_poly_invntt_tomont (polyvec_basemul_acc_montgomery par c d)) e2) mu) =
      mlkem_poly_reduce (mlkem_poly_add (mlkem_poly_add (mlkem_poly_invntt_tomont (polyvec_basemul_acc_montgomery par c d)) e2) mu)" for c d
    by (rule poly_sim_reduce, rule poly_sim_add [OF poly_sim_add [OF inv poly_sim_refl [OF e2]] poly_sim_refl [OF mu]]) simp_all
  have B: "rvv_mlkem_poly_reduce (rvv_mlkem_poly_add (rvv_mlkem_poly_invntt_tomont (polyvec_basemul_acc_montgomery par c d)) (e1 ! i)) =
      mlkem_poly_reduce (mlkem_poly_add (mlkem_poly_invntt_tomont (polyvec_basemul_acc_montgomery par c d)) (e1 ! i))" if "i < par_k par" for c d i
    by (rule poly_sim_reduce, rule poly_sim_add [OF inv poly_sim_refl [OF short_vec_nth [OF e1 that]]]) simp
  show ?thesis
    by (simp add: rvv_kpke_encrypt_arith_def kpke_encrypt_arith_def Let_def rvv_polyvec_eqs polyvec_reduce_eq polyvec_invntt_eq
        rvv_polyvec_add_def polyvec_add_def b v V B)
qed

lemma gen_matrix_bounded:
  assumes "gen_matrix par seed tr = Some A" "i < par_k par" "j < par_k par"
  shows "poly_bounded 4095 (A ! i ! j)"
proof -
  have "pvec_ok par (\<lambda>x. 0 \<le> sint x \<and> sint x < 3329) (A ! i)" using gen_matrix_ok [OF assms(1)] assms(2) by (simp add: matrix_ok_def)
  then have "pvec_ok par (\<lambda>x. \<bar>sint x\<bar> \<le> 4095) (A ! i)" by (rule pvec_ok_mono) auto
  then show ?thesis using assms(3) by (rule pvec_ok_bounded)
qed

lemma short_noise:
  assumes "mlkem_param_ok par"
  shows "short_vec par (map (\<lambda>i. poly_getnoise_eta1 par seed (f i)) [0..<par_k par])"
    and "short_vec par (map (\<lambda>i. poly_getnoise_eta2 seed (f i)) [0..<par_k par])"
  using assms poly_getnoise_eta1_bounded [of par seed] poly_bounded_mono [OF poly_getnoise_eta2_bounded, of 3 seed]
  by (auto simp: short_vec_def mlkem_param_ok_def)

lemma rvv_kpke_keygen_eq:
  assumes "mlkem_param_ok par"
  shows "rvv_kpke_keygen par d = kpke_keygen par d"
proof -
  define ps ns where "ps = take 32 (hash_g (take 32 d @ [of_nat (par_k par)]))" and "ns = drop 32 (hash_g (take 32 d @ [of_nat (par_k par)]))"
  have k: "1 \<le> par_k par" "par_k par \<le> 4" using assms by (simp_all add: mlkem_param_ok_def)
  show ?thesis
  proof (cases "gen_matrix par ps False")
    case None
    then show ?thesis by (simp add: rvv_kpke_keygen_def kpke_keygen_def Let_def rvv_gen_matrix_eq flip: ps_def)
  next
    case (Some A)
    define s e where "s = map (\<lambda>i. poly_getnoise_eta1 par ns (of_nat i)) [0..<par_k par]"
      and "e = map (\<lambda>i. poly_getnoise_eta1 par ns (of_nat (par_k par) + of_nat i)) [0..<par_k par]"
    have se: "short_vec par s" "short_vec par e" unfolding s_def e_def by (rule short_noise(1) [OF assms])+
    note eqs = rvv_kpke_keygen_arith_eq [OF k gen_matrix_bounded [OF Some] se]
    show ?thesis
      unfolding rvv_kpke_keygen_def kpke_keygen_def Let_def rvv_gen_matrix_eq rvv_poly_getnoise_eq getnoise_loop_eq ps_def [symmetric] ns_def [symmetric]
      by (simp add: Some case_prod_beta pack_ek_def pack_dk_def eqs [unfolded s_def e_def])
  qed
qed

lemma unpack_bounded:
  assumes "mlkem_param_ok par" "i < par_k par"
  shows "poly_bounded 4095 (fst (unpack_ek par ek) ! i)" "poly_bounded 4095 (unpack_dk par ek ! i)"
proof -
  have "poly_bounded 4095 (poly_frombytes bs)" for bs
  proof (rule poly_boundedI)
    show "\<bar>sint (poly_frombytes bs ! j)\<bar> \<le> 4095" if "j < 256" for j
      using poly_frombytes_field [OF that, of bs] field_less [of 12 bs j] by simp
  qed simp
  then show "poly_bounded 4095 (fst (unpack_ek par ek) ! i)" "poly_bounded 4095 (unpack_dk par ek ! i)"
    using assms(2) by (simp_all add: unpack_ek_def unpack_dk_def polyvec_frombytes_def)
qed

lemma poly_bounded_frommsg: "poly_bounded 1665 (poly_frommsg m)"
  by (rule poly_boundedI) (simp_all add: poly_frommsg_nth)

lemma rvv_kpke_encrypt_eq:
  assumes "mlkem_param_ok par"
  shows "rvv_kpke_encrypt par ek m r = kpke_encrypt par ek m r"
proof -
  define ekpv seed where "ekpv = fst (unpack_ek par ek)" and "seed = snd (unpack_ek par ek)"
  have u: "unpack_ek par ek = (ekpv, seed)" by (simp add: ekpv_def seed_def)
  have k: "1 \<le> par_k par" "par_k par \<le> 4" using assms by (simp_all add: mlkem_param_ok_def)
  show ?thesis
  proof (cases "gen_matrix par seed True")
    case None
    then show ?thesis by (simp add: rvv_kpke_encrypt_def kpke_encrypt_def Let_def rvv_gen_matrix_eq u)
  next
    case (Some A)
    have "poly_bounded 4095 (ekpv ! i)" if "i < par_k par" for i unfolding ekpv_def by (rule unpack_bounded(1) [OF assms that])
    note eq = rvv_kpke_encrypt_arith_eq [OF k gen_matrix_bounded [OF Some] this short_noise(1) [OF assms] short_noise(2) [OF assms]
        poly_bounded_mono [OF poly_getnoise_eta2_bounded] poly_bounded_frommsg]
    show ?thesis
      by (simp add: rvv_kpke_encrypt_def kpke_encrypt_def Let_def rvv_gen_matrix_eq rvv_poly_getnoise_eq getnoise_loop_eq u Some eq case_prod_beta)
  qed
qed

lemma unpack_ciphertext_bounded:
  assumes "mlkem_param_ok par"
  shows "length (fst (unpack_ciphertext par c)) = par_k par"
    "i < par_k par \<Longrightarrow> poly_bounded 3328 (fst (unpack_ciphertext par c) ! i)" "poly_bounded 3328 (snd (unpack_ciphertext par c))"
proof -
  have d: "par_du par \<in> {10, 11}" "par_dv par \<in> {4, 5}" using assms by (simp_all add: mlkem_param_ok_def)
  show "length (fst (unpack_ciphertext par c)) = par_k par" by (simp add: unpack_ciphertext_def)
  show "poly_bounded 3328 (snd (unpack_ciphertext par c))"
    using poly_decompress_range [OF d(2)] by (force simp: unpack_ciphertext_def poly_bounded_def)
  assume i: "i < par_k par"
  show "poly_bounded 3328 (fst (unpack_ciphertext par c) ! i)"
  proof (rule poly_boundedI)
    show "length (fst (unpack_ciphertext par c) ! i) = 256" using i by (simp add: unpack_ciphertext_def)
    fix j :: nat assume j: "j < 256"
    have "0 \<le> decompress_spec w (int (field w bs j)) \<and> decompress_spec w (int (field w bs j)) \<le> 3328" if "w < 12" for w bs
    proof -
      have "int (field w bs j) < 2 ^ w" using field_less [of w bs j] by (simp flip: of_nat_less_iff)
      then show ?thesis using that decompress_spec_range [of "int (field w bs j)" w] by simp
    qed
    from this [of 10] this [of 11] show "\<bar>sint (fst (unpack_ciphertext par c) ! i ! j)\<bar> \<le> 3328"
      using i by (simp add: unpack_ciphertext_def polyvec_decompress_def decompressed_poly_nth [OF j])
  qed
qed

lemma rvv_kpke_decrypt_eq:
  assumes "mlkem_param_ok par"
  shows "rvv_kpke_decrypt par dk c = kpke_decrypt par dk c"
proof -
  define b v where "b = fst (unpack_ciphertext par c)" and "v = snd (unpack_ciphertext par c)"
  have u: "unpack_ciphertext par c = (b, v)" by (simp add: b_def v_def)
  note B = unpack_ciphertext_bounded [OF assms, where c = c, folded b_def v_def]
  have k: "1 \<le> par_k par" "par_k par \<le> 4" using assms by (simp_all add: mlkem_param_ok_def)
  have "poly_bounded 9471 (b ! i)" if "i < par_k par" for i using B(2) [OF that] by (rule poly_bounded_mono) simp
  then have sim: "pvec_sim par 3328 (rvv_polyvec_ntt par b) (polyvec_ntt par b)" using B(1) by (intro pvec_sim_ntt)
  have e: "rvv_polyvec_basemul_acc_montgomery par (unpack_dk par dk) (rvv_polyvec_ntt par b) =
      polyvec_basemul_acc_montgomery par (unpack_dk par dk) (polyvec_ntt par b)"
    by (rule rvv_polyvec_basemul_acc_eq [OF unpack_bounded(2) [OF assms] sim k])
  have "rvv_mlkem_poly_reduce (rvv_mlkem_poly_sub v (rvv_mlkem_poly_invntt_tomont (polyvec_basemul_acc_montgomery par (unpack_dk par dk) (polyvec_ntt par b)))) =
      mlkem_poly_reduce (mlkem_poly_sub v (mlkem_poly_invntt_tomont (polyvec_basemul_acc_montgomery par (unpack_dk par dk) (polyvec_ntt par b))))"
    by (rule poly_sim_reduce, rule poly_sim_sub [OF poly_sim_refl [OF B(3)] poly_sim_basemul_invntt]) simp
  then show ?thesis by (simp add: rvv_kpke_decrypt_def kpke_decrypt_def Let_def u e)
qed

section \<open>Properties\<close>

text \<open>C14: the vector build of ML-KEM is the scalar build: on every input, and for every parameter set the code
  supports, key generation, encapsulation and decapsulation return the same bytes (and fail to return on the same
  seeds).  The kernels differ in the representatives they leave; no difference reaches a key, a ciphertext or a
  shared secret.\<close>

theorem rvv_mlkem_build_eq:
  assumes "mlkem_param_ok par"
  shows "rvv_mlkem_keygen_internal par d z = mlkem_keygen_internal par d z \<and>
    rvv_mlkem_encaps_internal par ek m = mlkem_encaps_internal par ek m \<and>
    rvv_mlkem_decaps_internal par dk ct = mlkem_decaps_internal par dk ct"
  by (simp add: rvv_mlkem_keygen_internal_def mlkem_keygen_internal_def rvv_mlkem_encaps_internal_def mlkem_encaps_internal_def
      rvv_mlkem_decaps_internal_def mlkem_decaps_internal_def rvv_kpke_keygen_eq [OF assms] rvv_kpke_encrypt_eq [OF assms]
      rvv_kpke_decrypt_eq [OF assms])

theorem rvv_mlkem_build_eq_witness:
  "rvv_mlkem_keygen_internal mlkem_512 (replicate 32 1) (replicate 32 2) = mlkem_keygen_internal mlkem_512 (replicate 32 1) (replicate 32 2) \<and>
   rvv_mlkem_encaps_internal mlkem_512 (replicate 800 3) (replicate 32 4) = mlkem_encaps_internal mlkem_512 (replicate 800 3) (replicate 32 4) \<and>
   rvv_mlkem_decaps_internal mlkem_512 (replicate 1632 5) (replicate 768 6) = mlkem_decaps_internal mlkem_512 (replicate 1632 5) (replicate 768 6)"
  by (rule rvv_mlkem_build_eq) (rule mlkem_par_ok, simp add: mlkem_par_def)

text \<open>C18: the vector transforms of ML-KEM: on coefficients up to \<open>9471\<close> in magnitude the forward one, and up to
  \<open>4095\<close> the inverse one, leave at every index the representative in \<open>[0, q)\<close> of what the scalar transform
  leaves there; no lane of any layer wraps around.\<close>

theorem rvv_mlkem_transforms_eq:
  assumes "poly_bounded 9471 r" "poly_bounded 4095 s" "i < 256"
  shows "sint (rvv_mlkem_poly_ntt r ! i) = sint (mlkem_poly_ntt r ! i) mod 3329 \<and>
    sint (rvv_mlkem_poly_invntt_tomont s ! i) = sint (mlkem_poly_invntt_tomont s ! i) mod 3329"
  using rvv_mlkem_poly_ntt_nth [OF assms(1,3)] rvv_mlkem_invntt_nth [OF assms(2,3)] by simp

theorem rvv_mlkem_transforms_eq_witness:
  "sint (rvv_mlkem_poly_ntt (replicate 256 9471) ! 7) = sint (mlkem_poly_ntt (replicate 256 9471) ! 7) mod 3329 \<and>
   sint (rvv_mlkem_poly_invntt_tomont (replicate 256 (- 4095)) ! 7) = sint (mlkem_poly_invntt_tomont (replicate 256 (- 4095)) ! 7) mod 3329"
  by (rule rvv_mlkem_transforms_eq) (simp_all add: poly_bounded_def)

text \<open>C19: the other arithmetic kernels of the vector build: the product in the transformed domain and the
  conversion to Montgomery form give residues of the scalar results, below \<open>q\<close> in magnitude; reduction, addition
  and subtraction give exactly the scalar results.\<close>

theorem rvv_mlkem_arith_eq:
  assumes "poly_bounded 4095 a" "poly_bounded 4095 b" "i < 256"
  shows "modeq 3329 (sint (rvv_poly_basemul_montgomery a b ! i)) (sint (poly_basemul_montgomery a b ! i)) \<and>
    \<bar>sint (rvv_poly_basemul_montgomery a b ! i)\<bar> < 3329 \<and>
    modeq 3329 (sint (rvv_poly_tomont a ! i)) (sint (poly_tomont a ! i)) \<and> \<bar>sint (rvv_poly_tomont a ! i)\<bar> < 3329 \<and>
    rvv_mlkem_poly_reduce a = mlkem_poly_reduce a \<and>
    rvv_mlkem_poly_add a b = mlkem_poly_add a b \<and> rvv_mlkem_poly_sub a b = mlkem_poly_sub a b"
proof -
  have l: "length a = 256" "length b = 256" using assms(1,2) by (simp_all add: poly_bounded_def)
  show ?thesis
    using rvv_poly_basemul_nth [OF assms] rvv_poly_tomont_nth [OF l(1) assms(3)] rvv_mlkem_poly_reduce_map [OF l(1)]
      rvv_mlkem_poly_add_sub [OF l] by simp
qed

theorem rvv_mlkem_arith_eq_witness:
  "modeq 3329 (sint (rvv_poly_basemul_montgomery (replicate 256 4095) (replicate 256 (- 4095)) ! 255)) (sint (poly_basemul_montgomery (replicate 256 4095) (replicate 256 (- 4095)) ! 255)) \<and>
   \<bar>sint (rvv_poly_basemul_montgomery (replicate 256 4095) (replicate 256 (- 4095)) ! 255)\<bar> < 3329 \<and>
   modeq 3329 (sint (rvv_poly_tomont (replicate 256 4095) ! 255)) (sint (poly_tomont (replicate 256 4095) ! 255)) \<and> \<bar>sint (rvv_poly_tomont (replicate 256 4095) ! 255)\<bar> < 3329 \<and>
   rvv_mlkem_poly_reduce (replicate 256 4095) = mlkem_poly_reduce (replicate 256 4095) \<and>
   rvv_mlkem_poly_add (replicate 256 4095) (replicate 256 (- 4095)) = mlkem_poly_add (replicate 256 4095) (replicate 256 (- 4095)) \<and> rvv_mlkem_poly_sub (replicate 256 4095) (replicate 256 (- 4095)) = mlkem_poly_sub (replicate 256 4095) (replicate 256 (- 4095))"
  by (rule rvv_mlkem_arith_eq) (simp_all add: poly_bounded_def)

text \<open>C20: the vector samplers of ML-KEM: rejection sampling has no loop for the bytes that remain after the last
  whole group of 24, so for every buffer it writes the coefficients and returns the count of the scalar sampler on the
  whole groups of 24 bytes; on buffers of a whole number of groups, among them those of \<open>gen_matrix\<close> (three blocks and
  one block of 168 bytes), it is the scalar sampler.  The samplers of the centred binomial distribution write the same
  polynomials.\<close>

theorem rvv_mlkem_samplers_eq:
  assumes "off + len \<le> length r" "128 \<le> length buf2"
  shows "rvv_mlkem_rej_uniform r off len buf buflen = mlkem_rej_uniform r off len buf (24 * (buflen div 24)) \<and>
    rvv_mlkem_rej_uniform r off len buf (24 * n) = mlkem_rej_uniform r off len buf (24 * n) \<and>
    rvv_mlkem_rej_uniform r off len buf (GEN_MATRIX_NBLOCKS * XOF_BLOCKBYTES) =
      mlkem_rej_uniform r off len buf (GEN_MATRIX_NBLOCKS * XOF_BLOCKBYTES) \<and>
    rvv_mlkem_rej_uniform r off len buf XOF_BLOCKBYTES = mlkem_rej_uniform r off len buf XOF_BLOCKBYTES \<and>
    cbd2_rvv buf2 = cbd2 buf2 \<and> cbd3_rvv buf3 = cbd3 buf3"
  using rvv_mlkem_rej_uniform_scalar [OF assms(1), of buf] cbd2_rvv_cbd2 [OF assms(2)] cbd3_rvv_cbd3 [of buf3] by simp

theorem rvv_mlkem_samplers_eq_witness:
  "rvv_mlkem_rej_uniform (replicate 10 0) 1 9 (map of_nat [0..<600]) 50 = mlkem_rej_uniform (replicate 10 0) 1 9 (map of_nat [0..<600]) 48 \<and>
   rvv_mlkem_rej_uniform (replicate 10 0) 1 9 (map of_nat [0..<600]) 72 = mlkem_rej_uniform (replicate 10 0) 1 9 (map of_nat [0..<600]) 72 \<and>
   cbd2_rvv (map of_nat [0..<128]) = cbd2 (map of_nat [0..<128]) \<and> cbd3_rvv (map of_nat [0..<192]) = cbd3 (map of_nat [0..<192])"
  using rvv_mlkem_samplers_eq [of 1 9 "replicate 10 0" "map of_nat [0..<128]" "map of_nat [0..<600]" 50 3 "map of_nat [0..<192]"] by simp

end
