(* ===== verification/Keccak_Vk.thy ===== *)
theory Keccak_Vk
  imports Keccak
begin

text \<open>
  \<open>keccak.c\<close> with \<open>VK_KECCAK == 1\<close>: \<open>KeccakF1600_StatePermute\<close> as a wrapper of the instruction \<open>vkeccak.vi\<close>.  The
  instruction is hardware, so what it does to its 32 lanes is a parameter \<open>perm\<close>; what the wrapper adds is the
  selection of the vector length and the transfer between the 25 lanes of the state and the register group.  The
  registers \<open>v0\<close> to \<open>v15\<close> are one list of 64-bit lanes, \<open>vlenb / 8\<close> to a register; the vector length is in bytes, as
  the CSR \<open>vlenb\<close> has it.
\<close>

section \<open>Code\<close>

text \<open>With \<open>e64, m8\<close> a group has \<open>vlenb\<close> lanes; \<open>vsetvli\<close> grants every request up to that.\<close>

definition vsetvl_e64m8 :: "nat \<Rightarrow> nat \<Rightarrow> nat" where
  "vsetvl_e64m8 vlenb avl = min avl vlenb"

text \<open>Loads leave the lanes from \<open>vl\<close> on undisturbed (\<open>tu\<close>); \<open>reg\<close> is the first lane of the register, \<open>off\<close> the first
  lane of the memory operand.\<close>

definition vle64 :: "nat \<Rightarrow> u64 list \<Rightarrow> nat \<Rightarrow> nat \<Rightarrow> u64 list \<Rightarrow> u64 list" where
  "vle64 reg mem off vl v = overwrite reg (take vl (drop off mem)) v"

definition vse64 :: "nat \<Rightarrow> u64 list \<Rightarrow> nat \<Rightarrow> nat \<Rightarrow> u64 list \<Rightarrow> u64 list" where
  "vse64 reg v off vl mem = overwrite off (take vl (drop reg v)) mem"

text \<open>The instruction on \<open>v0\<close>: with registers of 256 bits and more it takes element groups of 32 lanes, and traps
  unless \<open>vl\<close> is a multiple of 32; with registers of 128 bits it takes the 32 lanes of \<open>v0\<close> to \<open>v15\<close>, whatever \<open>vl\<close>.\<close>

definition vkeccak_vi :: "(u64 list \<Rightarrow> u64 list) \<Rightarrow> nat \<Rightarrow> nat \<Rightarrow> u64 list \<Rightarrow> u64 list option" where
  "vkeccak_vi perm vlenb vl v =
     (if vlenb \<ge> 32
      then if vl mod 32 \<noteq> 0 then None
           else Some (fold (\<lambda>g v. overwrite (32 * g) (perm (take 32 (drop (32 * g) v))) v) [0..<vl div 32] v)
      else Some (overwrite 0 (perm (take 32 v)) v))"

definition vk_StatePermute :: "(u64 list \<Rightarrow> u64 list) \<Rightarrow> nat \<Rightarrow> u64 list \<Rightarrow> u64 list \<Rightarrow> u64 list option" where
  "vk_StatePermute perm vlenb v state =
     (if vlenb \<ge> 32
      then let vl = vsetvl_e64m8 vlenb 25;
               v = vle64 0 state 0 vl v;
               vl = vsetvl_e64m8 vlenb 32
           in Option.bind (vkeccak_vi perm vlenb vl v) (\<lambda>v.
             let vl = vsetvl_e64m8 vlenb 25
             in Some (vse64 0 v 0 vl state))
      else let hi = 16;
               vl = vsetvl_e64m8 vlenb 16;
               v = vle64 0 state 0 vl v;
               vl = vsetvl_e64m8 vlenb 9;
               v = vle64 (8 * (vlenb div 8)) state hi vl v
           in Option.bind (vkeccak_vi perm vlenb vl v) (\<lambda>v.
             let vl = vsetvl_e64m8 vlenb 16;
                 state = vse64 0 v 0 vl state;
                 vl = vsetvl_e64m8 vlenb 9;
                 state = vse64 (8 * (vlenb div 8)) v hi vl state
             in Some state))"

section \<open>Correctness\<close>

text \<open>What the wrapper relies on in the instruction: on the 25 low lanes of the group it is Keccak-f[1600]; the other
  seven are not specified.\<close>

definition vkeccak_ok :: "(u64 list \<Rightarrow> u64 list) \<Rightarrow> bool" where
  "vkeccak_ok perm \<longleftrightarrow> (\<forall>g. length g = 32 \<longrightarrow> length (perm g) = 32 \<and> take 25 (perm g) = keccak_f (take 25 g))"

text \<open>The vector length of the transfers would trap: the instruction is reserved there.\<close>

lemma vkeccak_vi_reserved: "32 \<le> vlenb \<Longrightarrow> vkeccak_vi perm vlenb 25 v = None"
  by (simp add: vkeccak_vi_def)

lemma vk_StatePermute_group:
  assumes "vkeccak_ok perm" "32 \<le> vlenb" "length v = 2 * vlenb" "length state = 25"
  shows "vk_StatePermute perm vlenb v state = Some (keccak_f state)"
proof -
  define g where "g = take 32 (overwrite 0 state v)"
  have g: "length g = 32" "take 25 g = state" using assms(2-4) by (simp_all add: g_def overwrite_def)
  then have p: "length (perm g) = 32" "take 25 (perm g) = keccak_f state" using assms(1) by (auto simp: vkeccak_ok_def)
  have k: "length (keccak_f state) = 25" using arg_cong [OF p(2), of length] p(1) by simp
  have "vk_StatePermute perm vlenb v state = Some (overwrite 0 (take 25 (perm g)) state)"
    using assms(2-4) p(1) by (simp add: vk_StatePermute_def Let_def vsetvl_e64m8_def vle64_def vkeccak_vi_def vse64_def
        g_def [symmetric] upt_rec [of 0 "Suc 0"]) (simp add: overwrite_def)
  then show ?thesis using assms(4) p by (simp add: overwrite_full k)
qed

lemma vk_StatePermute_fixed:
  assumes "vkeccak_ok perm" "vlenb = 16" "length v = 2 * vlenb" "length state = 25"
  shows "vk_StatePermute perm vlenb v state = Some (keccak_f state)"
proof -
  define g where "g = overwrite 16 (drop 16 state) (overwrite 0 (take 16 state) v)"
  have g: "length g = 32" "take 25 g = state" using assms(2-4) by (simp_all add: g_def overwrite_def min_def)
  then have p: "length (perm g) = 32" "take 25 (perm g) = keccak_f state" using assms(1) by (auto simp: vkeccak_ok_def)
  have k: "length (keccak_f state) = 25" using arg_cong [OF p(2), of length] p(1) by simp
  have "take 16 (perm g) @ take 9 (drop 16 (perm g)) = take 25 (perm g)" using take_add [of 16 9 "perm g"] by simp
  then have s: "take 16 (perm g) @ take 9 (drop 16 (perm g)) = keccak_f state" using p(2) by simp
  have "vk_StatePermute perm vlenb v state = Some (overwrite 16 (take 9 (drop 16 (perm g))) (overwrite 0 (take 16 (perm g)) state))"
    using assms(2-4) g p(1) by (simp add: vk_StatePermute_def Let_def vsetvl_e64m8_def vle64_def vkeccak_vi_def vse64_def
        g_def [symmetric]) (simp add: overwrite_def)
  also have "overwrite 16 (take 9 (drop 16 (perm g))) (overwrite 0 (take 16 (perm g)) state) = keccak_f state"
    using assms(4) p(1) s by (simp add: overwrite_def)
  finally show ?thesis .
qed

text \<open>C21: with the vector instruction: at every register length from 128 bits up, the wrapper never issues the
  instruction with a reserved vector length, and when the instruction permutes the low 25 lanes of its element group,
  the wrapper computes what the unrolled C permutation computes, whatever the registers held before.\<close>

theorem vk_StatePermute_correct:
  assumes "vkeccak_ok perm" "vlenb = 16 \<or> 32 \<le> vlenb" "length v = 2 * vlenb" "length state = 25"
  shows "vk_StatePermute perm vlenb v state = Some (KeccakF1600_StatePermute state)"
  using assms(2) vk_StatePermute_group [OF assms(1) _ assms(3,4)] vk_StatePermute_fixed [OF assms(1) _ assms(3,4)]
    KeccakF1600_rounds [OF assms(4)] keccak_f_table [of state] by auto

theorem vk_StatePermute_correct_witness:
  "vk_StatePermute (\<lambda>g. keccak_f (take 25 g) @ drop 25 g) 16 (replicate 32 7) (map of_nat [0..<25]) =
     Some (KeccakF1600_StatePermute (map of_nat [0..<25])) \<and>
   vk_StatePermute (\<lambda>g. keccak_f (take 25 g) @ drop 25 g) 32 (replicate 64 7) (map of_nat [0..<25]) =
     Some (KeccakF1600_StatePermute (map of_nat [0..<25]))"
proof -
  have "vkeccak_ok (\<lambda>g. keccak_f (take 25 g) @ drop 25 g)"
    unfolding vkeccak_ok_def keccak_f_table using KeccakF1600_rounds length_KeccakF1600 by (auto simp: min_def)
  then show ?thesis
    using vk_StatePermute_correct [of _ 16 "replicate 32 7" "map of_nat [0..<25]"]
      vk_StatePermute_correct [of _ 32 "replicate 64 7" "map of_nat [0..<25]"] by simp
qed

end
