(* ===== verification/Plat_Local.thy ===== *)
theory Plat_Local
  imports Bits
begin

text \<open>
  The portable helpers of \<open>tools/pqc/plat_local.h\<close>, which its copy \<open>mldsa/plat_local.h\<close> repeats: byte reversal, rotations, and-not and
  the unaligned loads and stores of both byte orders, on a little-endian target (\<open>rev8\<close> is the identity on a
  big-endian one).  A load reads the list from its start, a store is the list of the bytes it writes.  A shift by the
  width of the operand is undefined in C, so the rotations are \<open>None\<close> where one of their shifts is.
\<close>

section \<open>Code\<close>

definition rev8_be32 :: "u32 \<Rightarrow> u32" where
  "rev8_be32 x = shr (x AND 0xFF000000) 24 OR shr (x AND 0x00FF0000) 8 OR
     shl (x AND 0x0000FF00) 8 OR shl (x AND 0x000000FF) 24"

definition rev8_be64 :: "u64 \<Rightarrow> u64" where
  "rev8_be64 x = shl x 56 OR shl (x AND 0x000000000000FF00) 40 OR
     shl (x AND 0x0000000000FF0000) 24 OR
     shl (x AND 0x00000000FF000000) 8 OR
     shr (x AND 0x000000FF00000000) 8 OR
     shr (x AND 0x0000FF0000000000) 24 OR
     shr (x AND 0x00FF000000000000) 40 OR shr x 56"

definition rol32 :: "u32 \<Rightarrow> u32 \<Rightarrow> u32 option" where
  "rol32 x n = (if 0 < n \<and> n < 32 then Some (shl x (unat n) OR shr x (unat (32 - n))) else None)"

definition rol64 :: "u64 \<Rightarrow> u64 \<Rightarrow> u64 option" where
  "rol64 x n = (if 0 < n \<and> n < 64 then Some (shl x (unat n) OR shr x (unat (64 - n))) else None)"

definition ror32 :: "u32 \<Rightarrow> u32 \<Rightarrow> u32 option" where
  "ror32 x n = (if 0 < n \<and> n < 32 then Some (shr x (unat n) OR shl x (unat (32 - n))) else None)"

definition ror64 :: "u64 \<Rightarrow> u64 \<Rightarrow> u64 option" where
  "ror64 x n = (if 0 < n \<and> n < 64 then Some (shr x (unat n) OR shl x (unat (64 - n))) else None)"

definition andn32 :: "u32 \<Rightarrow> u32 \<Rightarrow> u32" where
  "andn32 x y = x AND NOT y"

definition andn64 :: "u64 \<Rightarrow> u64 \<Rightarrow> u64" where
  "andn64 x y = x AND NOT y"

definition get16u_le :: "u8 list \<Rightarrow> u16" where
  "get16u_le v =
     shl (zext16 (v ! 1)) 8 OR zext16 (v ! 0)"

definition put16u_le :: "u16 \<Rightarrow> u8 list" where
  "put16u_le x = [zext8 x, zext8 (shr x 8)]"

definition get32u_le :: "u8 list \<Rightarrow> u32" where
  "get32u_le v =
     zext32 (v ! 0) OR shl (zext32 (v ! 1)) 8 OR shl (zext32 (v ! 2)) 16 OR shl (zext32 (v ! 3)) 24"

definition put32u_le :: "u32 \<Rightarrow> u8 list" where
  "put32u_le x = [zext8 x, zext8 (shr x 8), zext8 (shr x 16), zext8 (shr x 24)]"

definition get64u_le :: "u8 list \<Rightarrow> u64" where
  "get64u_le v =
     zext64 (v ! 0) OR shl (zext64 (v ! 1)) 8 OR shl (zext64 (v ! 2)) 16 OR shl (zext64 (v ! 3)) 24 OR
     shl (zext64 (v ! 4)) 32 OR shl (zext64 (v ! 5)) 40 OR shl (zext64 (v ! 6)) 48 OR shl (zext64 (v ! 7)) 56"

definition put64u_le :: "u64 \<Rightarrow> u8 list" where
  "put64u_le x = [zext8 x, zext8 (shr x 8), zext8 (shr x 16), zext8 (shr x 24), zext8 (shr x 32), zext8 (shr x 40), zext8 (shr x 48), zext8 (shr x 56)]"

definition get16u_be :: "u8 list \<Rightarrow> u16" where
  "get16u_be v =
     shl (zext16 (v ! 0)) 8 OR zext16 (v ! 1)"

definition put16u_be :: "u16 \<Rightarrow> u8 list" where
  "put16u_be x = [zext8 (shr x 8), zext8 x]"

definition get32u_be :: "u8 list \<Rightarrow> u32" where
  "get32u_be v =
     shl (zext32 (v ! 0)) 24 OR shl (zext32 (v ! 1)) 16 OR shl (zext32 (v ! 2)) 8 OR zext32 (v ! 3)"

definition put32u_be :: "u32 \<Rightarrow> u8 list" where
  "put32u_be x = [zext8 (shr x 24), zext8 (shr x 16), zext8 (shr x 8), zext8 x]"

definition get64u_be :: "u8 list \<Rightarrow> u64" where
  "get64u_be v =
     shl (zext64 (v ! 0)) 56 OR shl (zext64 (v ! 1)) 48 OR shl (zext64 (v ! 2)) 40 OR shl (zext64 (v ! 3)) 32 OR
     shl (zext64 (v ! 4)) 24 OR shl (zext64 (v ! 5)) 16 OR shl (zext64 (v ! 6)) 8 OR zext64 (v ! 7)"

definition put64u_be :: "u64 \<Rightarrow> u8 list" where
  "put64u_be x = [zext8 (shr x 56), zext8 (shr x 48), zext8 (shr x 40), zext8 (shr x 32), zext8 (shr x 24), zext8 (shr x 16), zext8 (shr x 8), zext8 x]"

section \<open>Correctness\<close>

named_theorems plat_defs "the loads, stores and byte reversals"

lemmas [plat_defs] = get16u_le_def put16u_le_def get32u_le_def put32u_le_def get64u_le_def put64u_le_def get16u_be_def put16u_be_def get32u_be_def put32u_be_def get64u_be_def put64u_be_def

text \<open>A word is decided by its bits, a byte string by the bits of its bytes.\<close>

lemma word16_eqI: "(\<forall>i<16. bit x i = bit y i) \<Longrightarrow> x = y" for x y :: u16
  by (rule bit_word_eqI) simp

lemma word32_eqI: "(\<forall>i<32. bit x i = bit y i) \<Longrightarrow> x = y" for x y :: u32
  by (rule bit_word_eqI) simp

lemma word64_eqI: "(\<forall>i<64. bit x i = bit y i) \<Longrightarrow> x = y" for x y :: u64
  by (rule bit_word_eqI) simp

lemma get_put_le16: "get16u_le (put16u_le x) = x"
  by (rule word16_eqI) (simp add: plat_defs all_less_numeral bit_fields bit_1_iff flip: One_nat_def)

lemma get_put_le32: "get32u_le (put32u_le x) = x"
  by (rule word32_eqI) (simp add: plat_defs all_less_numeral bit_fields bit_1_iff flip: One_nat_def)

lemma get_put_le64: "get64u_le (put64u_le x) = x"
  by (rule word64_eqI) (simp add: plat_defs all_less_numeral bit_fields bit_1_iff flip: One_nat_def)

lemma get_put_be16: "get16u_be (put16u_be x) = x"
  by (rule word16_eqI) (simp add: plat_defs all_less_numeral bit_fields bit_1_iff flip: One_nat_def)

lemma get_put_be32: "get32u_be (put32u_be x) = x"
  by (rule word32_eqI) (simp add: plat_defs all_less_numeral bit_fields bit_1_iff flip: One_nat_def)

lemma get_put_be64: "get64u_be (put64u_be x) = x"
  by (rule word64_eqI) (simp add: plat_defs all_less_numeral bit_fields bit_1_iff flip: One_nat_def)

lemma put_get_le16: "put16u_le (get16u_le [a, b]) = [a, b]"
  by (simp add: plat_defs byte_eq_iff all_less_numeral bit_fields flip: One_nat_def)

lemma put_get_le32: "put32u_le (get32u_le [a, b, c, d]) = [a, b, c, d]"
  by (simp add: plat_defs byte_eq_iff all_less_numeral bit_fields flip: One_nat_def)

lemma put_get_le64: "put64u_le (get64u_le [a, b, c, d, e, f, g, h]) = [a, b, c, d, e, f, g, h]"
  by (simp add: plat_defs byte_eq_iff all_less_numeral bit_fields flip: One_nat_def)

lemma put_get_be16: "put16u_be (get16u_be [a, b]) = [a, b]"
  by (simp add: plat_defs byte_eq_iff all_less_numeral bit_fields flip: One_nat_def)

lemma put_get_be32: "put32u_be (get32u_be [a, b, c, d]) = [a, b, c, d]"
  by (simp add: plat_defs byte_eq_iff all_less_numeral bit_fields flip: One_nat_def)

lemma put_get_be64: "put64u_be (get64u_be [a, b, c, d, e, f, g, h]) = [a, b, c, d, e, f, g, h]"
  by (simp add: plat_defs byte_eq_iff all_less_numeral bit_fields flip: One_nat_def)

lemma put_be_rev16: "put16u_be x = rev (put16u_le x)"
  by (simp add: plat_defs)

lemma put_be_rev32: "put32u_be x = rev (put32u_le x)"
  by (simp add: plat_defs)

lemma put_be_rev64: "put64u_be x = rev (put64u_le x)"
  by (simp add: plat_defs)

lemma masks32: "(0xFF000000 :: u32) = shl (mask 8) 24" "(0x00FF0000 :: u32) = shl (mask 8) 16" "(0x0000FF00 :: u32) = shl (mask 8) 8" "(0xFF :: u32) = mask 8"
  by code_simp+

lemma masks64: "(0x000000000000FF00 :: u64) = shl (mask 8) 8" "(0x0000000000FF0000 :: u64) = shl (mask 8) 16" "(0x00000000FF000000 :: u64) = shl (mask 8) 24" "(0x000000FF00000000 :: u64) = shl (mask 8) 32" "(0x0000FF0000000000 :: u64) = shl (mask 8) 40" "(0x00FF000000000000 :: u64) = shl (mask 8) 48"
  by code_simp+

lemma rev8_be32_swaps: "rev8_be32 x = get32u_be (put32u_le x)"
  unfolding rev8_be32_def masks32
  by (rule word32_eqI) (simp add: plat_defs all_less_numeral bit_fields bit_mask_iff flip: One_nat_def)

lemma rev8_be64_swaps: "rev8_be64 x = get64u_be (put64u_le x)"
  unfolding rev8_be64_def masks64
  by (rule word64_eqI) (simp add: plat_defs all_less_numeral bit_fields bit_mask_iff bit_word_beyond flip: One_nat_def)

text \<open>The two byte orders read each other's strings backwards.\<close>

lemma get_be_rev:
  "length v = 2 \<Longrightarrow> get16u_be v = get16u_le (rev v)"
  "length v = 4 \<Longrightarrow> get32u_be v = get32u_le (rev v)"
  "length v = 8 \<Longrightarrow> get64u_be v = get64u_le (rev v)"
  by (simp_all add: plat_defs rev_nth or.assoc or.commute or.left_commute flip: One_nat_def)

lemma put_get_le: "length v = 4 \<Longrightarrow> put32u_le (get32u_le v) = v" "length w = 8 \<Longrightarrow> put64u_le (get64u_le w) = w"
  using put_get_le32 put_get_le64 by (auto simp: length_Suc_conv numeral_eq_Suc)

lemma length_put: "length (put32u_le x) = 4" "length (put64u_le y) = 8"
  by (simp_all add: plat_defs)

lemma rev8_invol: "rev8_be32 (rev8_be32 x) = x" "rev8_be64 (rev8_be64 y) = y"
  by (simp_all add: rev8_be32_swaps rev8_be64_swaps get_be_rev length_put put_get_le get_put_le32 get_put_le64)

section \<open>Rotations\<close>

lemma or_shifts_rotl:
  fixes a :: "'a::len word"
  assumes "0 < n" "n < LENGTH('a)"
  shows "shl a n OR shr a (LENGTH('a) - n) = word_rotl n a"
proof (rule bit_word_eqI)
  fix k assume k: "k < LENGTH('a)"
  show "bit (shl a n OR shr a (LENGTH('a) - n)) k = bit (word_rotl n a) k"
  proof (cases "n \<le> k")
    case True
    then have "(k + (LENGTH('a) - n)) mod LENGTH('a) = k - n" using k assms by (simp add: mod_if)
    then show ?thesis using True k assms by (simp add: bit_word_rotl_iff bit_or_iff bit_push_bit_iff bit_drop_bit_eq bit_word_beyond)
  next
    case False
    then have "(k + (LENGTH('a) - n)) mod LENGTH('a) = LENGTH('a) - n + k" using assms k by (simp add: add.commute)
    then show ?thesis using False k assms by (simp add: bit_word_rotl_iff bit_or_iff bit_push_bit_iff bit_drop_bit_eq)
  qed
qed

lemma or_shifts_rotr:
  fixes a :: "'a::len word"
  assumes "0 < n" "n < LENGTH('a)"
  shows "shr a n OR shl a (LENGTH('a) - n) = word_rotr n a"
  using or_shifts_rotl [of "LENGTH('a) - n" a] assms by (simp add: or.commute word_rotl_eq_word_rotr)

lemma unat_diff_width:
  fixes n :: "'a::len word"
  assumes "n < numeral k" "unat (numeral k :: 'a word) = numeral k"
  shows "unat (numeral k - n) = numeral k - unat n" "unat n < numeral k"
  using assms by (simp_all add: unat_sub word_less_nat_alt word_le_nat_alt)

lemma rot_defined:
  "0 < n \<Longrightarrow> n < 32 \<Longrightarrow> rol32 x n = Some (word_rotl (unat n) x)" "0 < n \<Longrightarrow> n < 32 \<Longrightarrow> ror32 x n = Some (word_rotr (unat n) x)"
  "0 < m \<Longrightarrow> m < 64 \<Longrightarrow> rol64 y m = Some (word_rotl (unat m) y)" "0 < m \<Longrightarrow> m < 64 \<Longrightarrow> ror64 y m = Some (word_rotr (unat m) y)"
  using or_shifts_rotl [of "unat n" x] or_shifts_rotr [of "unat n" x] or_shifts_rotl [of "unat m" y] or_shifts_rotr [of "unat m" y]
    unat_diff_width [of n "num.Bit0 (num.Bit0 (num.Bit0 (num.Bit0 (num.Bit0 num.One))))"]
    unat_diff_width [of m "num.Bit0 (num.Bit0 (num.Bit0 (num.Bit0 (num.Bit0 (num.Bit0 num.One)))))"]
  by (simp_all add: rol32_def ror32_def rol64_def ror64_def word_greater_zero_iff unat_gt_0)

text \<open>A rotation by a multiple of the width, the zero included, shifts by the width.\<close>

lemma rot_undefined: "rol32 x 0 = None" "ror32 x 0 = None" "rol64 y 0 = None" "ror64 y 0 = None"
  by (simp_all add: rol32_def ror32_def rol64_def ror64_def)

lemma ror_rol:
  "0 < n \<Longrightarrow> n < 32 \<Longrightarrow> Option.bind (rol32 x n) (\<lambda>y. ror32 y n) = Some x"
  "0 < m \<Longrightarrow> m < 64 \<Longrightarrow> Option.bind (rol64 y m) (\<lambda>y. ror64 y m) = Some y"
  by (simp_all add: rot_defined)

end
