(* ===== verification/My_Dbg.thy ===== *)
theory My_Dbg
  imports Bits
begin

text \<open>
  The debugging helpers of \<open>tools/pqc/my_dbg.h\<close> that compute: the checksum of \<open>cksum\<close>, the parser of hexadecimal strings,
  and the printer whose output it reads.  What is printed is a string; a C string is the list of its characters before
  the terminating zero.
\<close>

section \<open>Code\<close>

definition crc32_step :: "u32 \<Rightarrow> u32" where
  "crc32_step x = shl x 1 XOR ((- shr x 31) AND 0x04C11DB7)"

definition crc32byte :: "u32 \<Rightarrow> u8 \<Rightarrow> u32" where
  "crc32byte x c =
     (let x = x XOR shl (zext32 c) 24
      in fold (\<lambda>i. crc32_step) [0..<8] x)"

text \<open>The length after the data, low byte first and without leading zeroes.\<close>

fun dbg_chk_length :: "nat \<Rightarrow> u32 \<Rightarrow> u32" where
  "dbg_chk_length l x = (if l \<noteq> 0 then dbg_chk_length (l div 256) (crc32byte x (of_nat l)) else x)"

declare dbg_chk_length.simps [simp del]

definition dbg_chk :: "u8 list \<Rightarrow> u32 \<Rightarrow> u32" where
  "dbg_chk data chk =
     (let x = fold (\<lambda>c x. crc32byte x c) data 0;
          x = dbg_chk_length (length data) x;
          x = NOT x
      in of_bool (x \<noteq> chk))"

definition hex_value :: "char \<Rightarrow> nat option" where
  "hex_value c =
     (let x = of_char c :: nat
      in if of_char CHR ''0'' \<le> x \<and> x \<le> of_char CHR ''9'' then Some (x - of_char CHR ''0'')
         else if of_char CHR ''a'' \<le> x \<and> x \<le> of_char CHR ''f'' then Some (x - (of_char CHR ''a'' - 10))
         else if of_char CHR ''A'' \<le> x \<and> x \<le> of_char CHR ''F'' then Some (x - (of_char CHR ''A'' - 10))
         else None)"

text \<open>\<open>half\<close> is the first digit of a byte while the second is awaited (\<open>f = 1\<close>, \<open>y\<close>); the result is what was written.\<close>

fun dbg_set_loop :: "string \<Rightarrow> nat option \<Rightarrow> u8 list \<Rightarrow> u8 list" where
  "dbg_set_loop [] half r = r"
| "dbg_set_loop (c # hex) half r =
     (if c = CHR '' '' \<or> c = CHR 0x09 \<or> c = CHR 0x0A then dbg_set_loop hex half r
      else case hex_value c of
        None \<Rightarrow> r
      | Some x \<Rightarrow> (case half of
          None \<Rightarrow> dbg_set_loop hex (Some x) r
        | Some y \<Rightarrow> dbg_set_loop hex None (r @ [shl (of_nat y) 4 OR of_nat x])))"

definition dbg_set :: "string \<Rightarrow> u8 list" where
  "dbg_set hex = dbg_set_loop hex None []"

text \<open>The conversion \<open>%02X\<close>.\<close>

definition hex_digit :: "nat \<Rightarrow> char" where
  "hex_digit n = ''0123456789ABCDEF'' ! n"

definition print_02X :: "u8 \<Rightarrow> string" where
  "print_02X b = [hex_digit (unat b div 16), hex_digit (unat b mod 16)]"

definition dbg_kat :: "string \<Rightarrow> u8 list \<Rightarrow> string" where
  "dbg_kat label data = label @ '' = '' @ concat (map print_02X data) @ [CHR 0x0A]"

section \<open>The checksum is linear\<close>

lemma crc32_step_xor: "crc32_step (x XOR y) = crc32_step x XOR crc32_step y"
proof -
  have m: "- shr z 31 = (if bit z 31 then - 1 else 0)" for z :: u32
  proof -
    have "shr z 31 = of_bool (bit z 31)"
    proof (rule bit_word_eqI)
      fix n
      show "bit (shr z 31) n = bit (of_bool (bit z 31) :: u32) n"
        using bit_word_beyond [of "31 + n" z] by (cases n) (auto simp: bit_drop_bit_eq bit_1_iff)
    qed
    then show ?thesis by simp
  qed
  show ?thesis unfolding crc32_step_def m
    by (rule bit_word_eqI) (auto simp: bit_xor_iff bit_push_bit_iff bit_and_iff)
qed

lemma crc32byte_xor: "crc32byte (x XOR y) (a XOR b) = crc32byte x a XOR crc32byte y b"
proof -
  have f: "fold (\<lambda>i. crc32_step) is (u XOR v) = fold (\<lambda>i. crc32_step) is u XOR fold (\<lambda>i. crc32_step) is v" for "is" :: "nat list" and u v
    by (induction "is" arbitrary: u v) (simp_all add: crc32_step_xor)
  have "(x XOR y) XOR shl (zext32 (a XOR b)) 24 = (x XOR shl (zext32 a) 24) XOR (y XOR shl (zext32 b) 24)"
    by (rule bit_word_eqI) (auto simp: bit_xor_iff bit_push_bit_iff bit_unsigned_iff)
  then show ?thesis by (simp only: crc32byte_def Let_def f)
qed

section \<open>Parsing what was printed\<close>

lemma all_digits:
  assumes "n < 16"
  shows "hex_value (hex_digit n) = Some n" "hex_digit n \<noteq> CHR '' ''" "hex_digit n \<noteq> CHR 0x09" "hex_digit n \<noteq> CHR 0x0A"
proof -
  have "\<forall>n\<in>set [0..<16]. hex_value (hex_digit n) = Some n \<and> hex_digit n \<noteq> CHR '' '' \<and> hex_digit n \<noteq> CHR 0x09 \<and> hex_digit n \<noteq> CHR 0x0A"
    by code_simp
  then show "hex_value (hex_digit n) = Some n" "hex_digit n \<noteq> CHR '' ''" "hex_digit n \<noteq> CHR 0x09" "hex_digit n \<noteq> CHR 0x0A"
    using assms by auto
qed

lemma byte_of_digits: "shl (of_nat (unat b div 16)) 4 OR of_nat (unat b mod 16) = (b :: u8)"
proof -
  have b: "unat b < 256" using unsigned_less [of b, where 'a = nat] by simp
  have h: "of_nat (unat b div 16) = shr b 4"
    using b by (intro word_unat_eq_iff [THEN iffD2]) (simp add: unat_drop_bit_eq drop_bit_eq_div unat_of_nat unat_div)
  have l: "of_nat (unat b mod 16) = take_bit 4 b"
    by (rule word_unat_eq_iff [THEN iffD2]) (simp add: unsigned_take_bit_eq take_bit_eq_mod unat_of_nat unat_mod)
  show ?thesis unfolding h l
    by (rule bit_word_eqI) (auto simp: bit_or_iff bit_push_bit_iff bit_drop_bit_eq bit_take_bit_iff)
qed

lemma dbg_set_loop_print:
  "dbg_set_loop (concat (map print_02X data) @ rest) None r = dbg_set_loop rest None (r @ data)"
proof (induction data arbitrary: r)
  case (Cons b data)
  have "unat b div 16 < 16" using unsigned_less [of b, where 'a = nat] by simp
  then show ?case by (simp add: print_02X_def all_digits byte_of_digits Cons.IH [unfolded print_02X_def])
qed simp

text \<open>Whatever comes after the digits, a line end or another word, the parser returns the bytes that were printed.\<close>

lemma dbg_set_print:
  assumes "dbg_set_loop rest None data = data"
  shows "dbg_set (concat (map print_02X data) @ rest) = data"
  by (simp add: dbg_set_def dbg_set_loop_print assms)

lemma dbg_set_kat: "dbg_set (drop (length label + 3) (dbg_kat label data)) = data"
  by (simp add: dbg_kat_def dbg_set_print)

end
