(* ===== verification/Spec2Isabelle.thy ===== *)
theory Spec2Isabelle
  imports Kem_Mlkem_Correct Dsa_Sign_Correct Dsa_Rvv_Build Kem_Rvv_Build Keccak_Vk Plat_Local My_Dbg
begin

text \<open>
  Verification library for the post-quantum code of karudeb, \<open>src/tools/pqc\<close>: the two libraries ML-KEM (FIPS 203,
  \<open>mlkem/\<close>) and ML-DSA (FIPS 204, \<open>mldsa/\<close>) that the distribution builds for its RISC-V boards, each as portable C and
  as a build with vector intrinsics.  Every definition that models code is translated from the C source, at the C
  widths, and can be evaluated; this header says which theory models what, what is proved, and what is left out.

  \<^bold>\<open>The program.\<close>  The bottom of both libraries is \<open>keccak.c\<close> (the permutation) and \<open>fips202.c\<close> (sponge, SHAKE, SHA3).  On it
  stand \<open>symmetric-shake.c\<close> (the hash functions of each scheme) and the samplers, which read coefficients off a
  SHAKE stream.  Polynomials are arrays of 256 coefficients, 16 bits in ML-KEM and 32 bits in ML-DSA; they are
  transformed (\<open>mlkem_ntt.c\<close>, \<open>mldsa_ntt.c\<close>) with the reductions of \<open>reduce.h\<close> and \<open>mldsa_reduce.h\<close>, multiplied, rounded and
  serialised (\<open>mlkem_poly.c\<close>, \<open>mldsa_poly.c\<close>), and collected in vectors (\<open>polyvec.c\<close>).  The schemes are \<open>mlkem_kpke.c\<close> with
  the transform of \<open>mlkem.c\<close> around it, and \<open>mldsa.c\<close>.  With \<open>MLKEM_RVV == 1\<close> or \<open>MLDSA_RVV == 1\<close> the transforms and the
  inner samplers are replaced by those of \<open>rvv_poly.c\<close> and \<open>cbd_rvv.c\<close>, and with \<open>VK_KECCAK == 1\<close> the permutation is one
  instruction.  Nothing keeps state between calls; a call reads and writes the caller's buffers.

  \<^bold>\<open>How C is rendered.\<close>  \<open>Prelude\<close> fixes the vocabulary: \<open>i16\<close>, \<open>u32\<close> and so on are machine words, the conversions of C are
  \<open>sext\<close> and \<open>zext\<close>, shifts are \<open>shl\<close>, \<open>shr\<close> and \<open>sar\<close>, and arithmetic wraps; \<open>sint\<close> is the value of a signed word.  A C
  structure is a record (\<open>mlkem_param\<close>, \<open>mldsa_param\<close>, \<open>keccak_state\<close>), an array is a list, and what a function writes
  through a pointer is its result; a store at an offset is \<open>overwrite\<close>.  A counted loop is a \<open>fold\<close> over its indices, a
  loop with a moving bound a function with a termination proof.  The rejection loops have no bound in C: they are
  partial functions into \<open>option\<close>, and \<open>None\<close> there means that the call does not return.  In \<open>unpack_hint\<close> and
  \<open>unpack_sig\<close> \<open>None\<close> is the error return, and the verifier returns \<open>Some False\<close> for a rejection.

  \<^bold>\<open>Shared theories.\<close>  \<open>Loops\<close> (the loops of the transforms and \<open>overwrite\<close>), \<open>Bits\<close> (bit strings, fields of bits, the
  collection \<open>bit_fields\<close>), \<open>Ntt_Tree\<close> (a transform over the integers modulo \<open>q\<close> as evaluation in a tree of roots; the
  locale \<open>ntt_tree\<close> is the interface between a table of roots and the laws of the transform), \<open>Bitrev\<close> (bit-reversed
  tables satisfy it), \<open>Ntt_Layer\<close> (one pass over the array), \<open>Negacyclic\<close> (the ring \<open>Z[X]/(X^N + 1)\<close>) and \<open>Rej_Sampling\<close>
  (rejection sampling from a stream of blocks, in the locale \<open>rej_sampler\<close> over \<open>xof_blocks\<close>).

  \<^bold>\<open>Hashing.\<close>  \<open>Keccak\<close> is the unrolled permutation of \<open>keccak.c\<close>, equal to the 24 rounds of FIPS 202 (C12); \<open>Keccak_Vk\<close> is the
  wrapper of the vector instruction (C21).  \<open>Fips202\<close> has the functions of \<open>fips202.c\<close>, \<open>Fips202_Correct\<close> reads the state as 200
  bytes, and \<open>Fips202_Api\<close> compares the interface with the padded sponge (C13), shows that pieces may be absorbed and
  squeezed separately (C24), and interprets \<open>xof_blocks\<close> for both SHAKE streams.

  \<^bold>\<open>ML-KEM.\<close>  The theories \<open>Kem_Params\<close>, \<open>Kem_Reduce\<close>, \<open>Kem_Ntt\<close>, \<open>Kem_Verify\<close>, \<open>Kem_Cbd\<close>, \<open>Kem_Poly\<close>, \<open>Kem_Polyvec\<close>,
  \<open>Kem_Symmetric\<close>, \<open>Kem_Kpke\<close> and \<open>Kem_Mlkem\<close> model \<open>mlkem_params.h\<close>, \<open>reduce.h\<close>, \<open>mlkem_ntt.c\<close>, \<open>verify.c\<close>, \<open>cbd.c\<close>,
  \<open>mlkem_poly.c\<close>, \<open>polyvec.c\<close>, \<open>symmetric-shake.c\<close>, \<open>mlkem_kpke.c\<close> and \<open>mlkem.c\<close>, one definition per C function.
  \<open>Kem_Ntt_Correct\<close> bounds every layer and proves the transforms and their product (C10, C25, C26); \<open>Kem_Poly_Correct\<close>
  and \<open>Kem_Polyvec_Correct\<close> give the value of every field a serialiser writes (C36) and the inner product;
  \<open>Kem_Sampling\<close> interprets \<open>rej_sampler\<close> and proves what a matrix entry is and when sampling returns (C29).
  \<open>Kem_Kpke_Correct\<close> composes these: decryption returns the message whenever the noise stays below a quarter of \<open>q\<close> (C1),
  for keys and ciphertexts that came through the byte encodings (C6).  \<open>Kem_Mlkem\<close> states the Fujisaki-Okamoto transform
  over any scheme, in the locale \<open>fo_scheme\<close>; \<open>Kem_Mlkem_Correct\<close> shows that the C functions implement it on their byte
  layout (C5), implicit rejection included, and that the two sides agree on the secret (C3).

  \<^bold>\<open>ML-DSA.\<close>  \<open>Dsa_Params\<close>, \<open>Dsa_Reduce\<close>, \<open>Dsa_Ntt\<close>, \<open>Dsa_Rounding\<close>, \<open>Dsa_Pack\<close>, \<open>Dsa_Sample\<close>, \<open>Dsa_Poly\<close>, \<open>Dsa_Polyvec\<close> and
  \<open>Dsa_Sign\<close> model \<open>mldsa_params.h\<close>, \<open>mldsa_reduce.h\<close>, \<open>mldsa_ntt.c\<close>, \<open>mldsa_poly.c\<close> with \<open>symmetric-shake.c\<close>, \<open>polyvec.c\<close> and
  \<open>mldsa.c\<close>.  \<open>Dsa_Rounding\<close> proves both versions of \<open>decompose\<close> and the hints for every representative (C34, C35);
  \<open>Dsa_Pack_Correct\<close> has one locale, \<open>coeff_codec\<close>, for the six packings and interprets it on each; \<open>Dsa_Keys_Correct\<close> and
  \<open>Dsa_Sig_Correct\<close> lift it to keys (C28) and signatures, where decoding accepts exactly the canonical encodings (C9).
  \<open>Dsa_Sampling\<close> and \<open>Dsa_Challenge\<close> give the samplers (C30 to C33), \<open>Dsa_Ntt_Correct\<close>, \<open>Dsa_Poly_Correct\<close> and
  \<open>Dsa_Polyvec_Correct\<close> the arithmetic (C11, C27), \<open>Dsa_Sign_Arith\<close> that of the three operations (C8, C22).
  \<open>Dsa_Sign_Verify\<close> and \<open>Dsa_Sign_Correct\<close> compose them: what signing returns verifies (C2), when signing returns (C7),
  and what the verifier accepts and rejects (C4, C23).

  \<^bold>\<open>The vector builds.\<close> \<open>Rvv\<close> has the intrinsics of \<open>riscv_vector.h\<close>
  that the kernels use, as functions on lists of lanes following the RISC-V V specification, for registers of 256 bits
  as the kernels and the README require; \<open>Rvv_Pass\<close> shows how passes of a transform act on chunks and on
  registers. \<open>Dsa_Rvv\<close> and \<open>Kem_Rvv\<close> are the kernels. For ML-DSA the vector functions equal
  the scalar ones exactly (\<open>Dsa_Rvv_Layers\<close>, \<open>Dsa_Rvv_Ntt\<close>, \<open>Dsa_Rvv_Invntt\<close>,
  \<open>Dsa_Rvv_Sampling\<close>; C15, C17); \<open>Dsa_Rvv_Sign\<close> is the scheme over the kernels and
  \<open>Dsa_Rvv_Build\<close> shows that both builds return the same keys, signatures and verdicts (C16). For ML-KEM
  they leave other representatives: \<open>Kem_Rvv_Lanes\<close> to \<open>Kem_Rvv_Cbd\<close> relate each kernel to
  its scalar counterpart (C18 to C20), \<open>Kem_Rvv_Kpke\<close> is the scheme over the kernels,
  \<open>Kem_Rvv_Sim\<close> the simulation modulo \<open>q\<close>, and \<open>Kem_Rvv_Build\<close> concludes that
  both builds return the same bytes on every input (C14), so that what is proved of the scalar build holds of the
  vector build.

  \<^bold>\<open>Helpers.\<close>  \<open>Plat_Local\<close> models the byte order, rotation and load and store helpers of \<open>plat_local.h\<close> (loads invert
  stores, the two byte orders are reversals of each other), \<open>My_Dbg\<close> the checksum, the hexadecimal parser and the
  known-answer printer of \<open>my_dbg.h\<close> (the parser reads back what the printer writes; the checksum is linear).

  \<^bold>\<open>Bounds.\<close>  No 16-bit or 32-bit operation of the arithmetic wraps: the forward transform of ML-KEM takes coefficients up to
  9471 in magnitude (seven layers add at most 3328 each, below \<open>2^15\<close>), every caller passes at most 3328; the inverse takes
  up to 16383 in the scalar code, whose sums are reduced in every butterfly, and up to 4095 in the vector code, whose lanes
  double three times between normalisations; every caller passes reduced coefficients, at most 1664.  The forward transform of ML-DSA takes up to 2080440319 (eight layers add
  at most \<open>q\<close> each, below \<open>2^31\<close>), the inverse up to \<open>2^23 - 1\<close> and returns at most 4211197.  Products accumulate at most 4 terms
  of 6656 in ML-KEM and 7 of \<open>q\<close> in ML-DSA.  There is no fuel anywhere: bounded loops are total functions, and for the
  unbounded ones it is proved exactly when they return.

  \<^bold>\<open>Not modelled.\<close>  Timing and the constant-time discipline: the theorems are about results.  The memory of the C program beyond the
  buffers a function is given, and overlap of those buffers where no caller overlaps them.  The instruction \<open>vkeccak.vi\<close> is
  hardware and a parameter; registers of another length than 256 bits, and the variant \<open>RVV_WIDENING_MUL\<close> of the ML-KEM kernels, off by
  default; the debug printers of \<open>rvv_poly.c\<close>; call and iteration counters (\<open>KeccakF1600_count\<close>, \<open>mldsa_sign_iters\<close>) and the
  code under \<open>MLDSA_PROFILE\<close> and \<open>MLDSA_SIGN_TRACE\<close>, off by default.  \<open>mldsa/keccak.c\<close> repeats \<open>mlkem/keccak.c\<close>, and \<open>mldsa/fips202.c\<close>
  differs from \<open>mlkem/fips202.c\<close> in comments and braces, so one model serves both.  The test programs, the benchmarks, the
  board and hardware probes, and the shell, make, device-tree and patch files of the distribution are input and output, inline
  assembly or configuration.  The randomness that the callers of the \<open>_internal\<close> functions draw is an argument of them.
\<close>

end
